(* ===== verification/Prelude.thy ===== *)
theory Prelude
  imports Main "HOL-Library.Word" "HOL-Library.Monad_Syntax" "HOL-Library.AList"
    "HOL-Library.List_Lexorder" "HOL-Library.Char_ord"
begin

text \<open>
  What the component theories share: the names of the Go types they model, the sentinel errors of
  \<^verbatim>\<open>src/internal/ferr/error.go\<close>, Go's map as an association list, the key/value contract
  that every map-like component offers its clients, and generic list lemmas.

  A Go call that does not return (a runtime panic, a loop that never ends, a goroutine blocked on
  a mutex it holds itself) is the value \<open>None\<close> of an \<open>option\<close>; a call that returns is
  \<open>Some\<close> of its results and the new state. A Go \<open>error\<close> result is a value of
  \<open>gerror + 'a\<close>. Instants (\<open>time.Time\<close>) and durations are integers counting nanoseconds,
  instants from Go's zero time, so \<open>t.IsZero()\<close> is \<open>t = 0\<close>; the reading of the clock
  is an argument \<open>now\<close>. Go strings are byte strings compared bytewise, which is the
  lexicographic order that \<open>List_Lexorder\<close> gives \<open>string\<close>.
\<close>

unbundle bit_operations_syntax

named_theorems go_defs \<open>definitions of the Go primitives\<close>

type_synonym u32 = "32 word"
type_synonym u64 = "64 word"
type_synonym instant = int
type_synonym duration = int
type_synonym 'b gomap = "(string \<times> 'b) list"

section \<open>Errors\<close>

datatype gerror =
    ErrKeyNotFound | ErrLockNotHeld | ErrLockAcquireFailed | ErrLockAlreadyHeld | ErrRefreshFailed
  | Errorf string

text \<open>\<open>Errorf\<close> carries the constant part of the message given to \<open>errors.New\<close> or
  \<open>fmt.Errorf\<close>; wrapped causes are not kept.\<close>

section \<open>Go maps\<close>

text \<open>
  A Go map is an association list with distinct keys. Its order stands for the unspecified order
  of \<open>range\<close>: no property below depends on it except up to the set of elements.
\<close>

definition wf_gomap :: "'b gomap \<Rightarrow> bool" where
  "wf_gomap m \<longleftrightarrow> distinct (map fst m)"

lemma wf_gomap_Nil [simp]: "wf_gomap []"
  by (simp add: wf_gomap_def)

lemma wf_gomap_update [simp]: "wf_gomap m \<Longrightarrow> wf_gomap (AList.update k v m)"
  by (simp add: wf_gomap_def distinct_update)

lemma wf_gomap_delete [simp]: "wf_gomap m \<Longrightarrow> wf_gomap (AList.delete k m)"
  by (simp add: wf_gomap_def distinct_delete)

lemma map_of_update [simp]: "map_of (AList.update k v m) = (map_of m)(k \<mapsto> v)"
  by (simp add: update_conv')

lemma map_of_delete [simp]: "map_of (AList.delete k m) = (map_of m)(k := None)"
  by (simp add: delete_conv')

lemma length_gomap_card: "wf_gomap m \<Longrightarrow> length m = card (dom (map_of m))"
  by (metis distinct_card dom_map_of_conv_image_fst length_map list.set_map wf_gomap_def)

section \<open>The key/value contract\<close>

text \<open>
  The contract every map-like component (skip list, sharded maps) gives its clients: against the
  finite map that a state represents, a load returns the map's entry, a store and a removal update
  it, and all three return. Clients are proved once here, in particular for any sequence of
  updates; the components interpret it on their own definitions.
\<close>

datatype 'v kv_op = Put string 'v | Remove string

fun kv_spec :: "'v kv_op \<Rightarrow> (string \<rightharpoonup> 'v) \<Rightarrow> (string \<rightharpoonup> 'v)" where
  "kv_spec (Put k v) m = m(k \<mapsto> v)"
| "kv_spec (Remove k) m = m(k := None)"

fun kv_run :: "(string \<Rightarrow> 'v \<Rightarrow> 's \<Rightarrow> 's option) \<Rightarrow> (string \<Rightarrow> 's \<Rightarrow> (bool \<times> 's) option)
    \<Rightarrow> 'v kv_op list \<Rightarrow> 's \<Rightarrow> 's option" where
  "kv_run store remove [] s = Some s"
| "kv_run store remove (Put k v # ops) s = do { s' \<leftarrow> store k v s; kv_run store remove ops s' }"
| "kv_run store remove (Remove k # ops) s = do { (_, s') \<leftarrow> remove k s; kv_run store remove ops s' }"

lemma kv_spec_dom:
  "finite (dom m) \<Longrightarrow> finite (dom (fold kv_spec ops m)) \<and> card (dom (fold kv_spec ops m)) \<le> card (dom m) + length ops"
proof (induction ops arbitrary: m)
  case (Cons p ops)
  have "finite (dom (kv_spec p m)) \<and> card (dom (kv_spec p m)) \<le> Suc (card (dom m))"
    using Cons.prems
    by (cases p) (auto simp: card_insert_if intro: le_trans [OF card_Diff1_le])
  then show ?case using Cons.IH [of "kv_spec p m"] by auto
qed simp

locale kv_store =
  fixes rep :: "'s \<Rightarrow> (string \<rightharpoonup> 'v) \<Rightarrow> bool"
    and load :: "string \<Rightarrow> 's \<Rightarrow> 'v option option"
    and store :: "string \<Rightarrow> 'v \<Rightarrow> 's \<Rightarrow> 's option"
    and remove :: "string \<Rightarrow> 's \<Rightarrow> (bool \<times> 's) option"
  assumes load_law: "rep s m \<Longrightarrow> load k s = Some (m k)"
    and store_law: "rep s m \<Longrightarrow> \<exists>s'. store k v s = Some s' \<and> rep s' (m(k \<mapsto> v))"
    and remove_law: "rep s m \<Longrightarrow> \<exists>s'. remove k s = Some (m k \<noteq> None, s') \<and> rep s' (m(k := None))"
begin

lemma rep_unique: "rep s m \<Longrightarrow> rep s m' \<Longrightarrow> m = m'"
  by (rule ext) (metis load_law option.inject)

lemma load_after_store: "rep s m \<Longrightarrow> store k v s = Some s' \<Longrightarrow> load k' s' = Some ((m(k \<mapsto> v)) k')"
  using store_law [of s m k v] load_law by auto

lemma load_after_remove: "rep s m \<Longrightarrow> remove k s = Some (b, s') \<Longrightarrow> load k' s' = Some ((m(k := None)) k')"
  using remove_law [of s m k] load_law by auto

lemma remove_twice:
  assumes "rep s m" "remove k s = Some (b, s')"
  shows "\<exists>s''. remove k s' = Some (False, s'')"
  using remove_law [OF assms(1), of k] remove_law [of s' "m(k := None)" k] assms(2) by auto

lemma run_refines:
  assumes "rep s m"
  shows "\<exists>s'. kv_run store remove ops s = Some s' \<and> rep s' (fold kv_spec ops m)"
  using assms
proof (induction ops arbitrary: s m)
  case Nil
  then show ?case by simp
next
  case (Cons p ops)
  show ?case
  proof (cases p)
    case (Put k v)
    obtain s1 where "store k v s = Some s1" "rep s1 (m(k \<mapsto> v))"
      using store_law [OF Cons.prems] by blast
    moreover from this(2) obtain s2 where "kv_run store remove ops s1 = Some s2"
        "rep s2 (fold kv_spec ops (m(k \<mapsto> v)))"
      using Cons.IH by blast
    ultimately show ?thesis using Put by simp
  next
    case (Remove k)
    obtain s1 where "remove k s = Some (m k \<noteq> None, s1)" "rep s1 (m(k := None))"
      using remove_law [OF Cons.prems] by blast
    moreover from this(2) obtain s2 where "kv_run store remove ops s1 = Some s2"
        "rep s2 (fold kv_spec ops (m(k := None)))"
      using Cons.IH by blast
    ultimately show ?thesis using Remove by simp
  qed
qed

end

section \<open>Arrays of shards\<close>

text \<open>An array of stores in which the index function \<open>ix\<close> says which element holds a key: the
  contract of the elements gives the updates of the array.\<close>

definition shards_rep :: "('s \<Rightarrow> (string \<rightharpoonup> 'v) \<Rightarrow> bool) \<Rightarrow> (string \<Rightarrow> nat) \<Rightarrow> 's list \<Rightarrow> (string \<rightharpoonup> 'v) \<Rightarrow> bool" where
  "shards_rep rep ix ss m \<longleftrightarrow>
     (\<forall>k. ix k < length ss) \<and> (\<forall>i<length ss. rep (ss ! i) (m |` {k. ix k = i}))"

lemma restrict_upd_other: "k \<notin> A \<Longrightarrow> (m(k := x)) |` A = m |` A"
  by (auto simp: restrict_map_def fun_eq_iff)

lemma restrict_upd_same: "k \<in> A \<Longrightarrow> (m(k := x)) |` A = (m |` A)(k := x)"
  by (auto simp: restrict_map_def fun_eq_iff)

lemma shards_rep_upd:
  assumes "shards_rep rep ix ss m" "rep s' ((m |` {j. ix j = ix k})(k := x))"
  shows "shards_rep rep ix (ss[ix k := s']) (m(k := x))"
  unfolding shards_rep_def
proof (intro conjI allI impI)
  fix i assume i: "i < length (ss[ix k := s'])"
  show "rep (ss[ix k := s'] ! i) ((m(k := x)) |` {j. ix j = i})"
    using assms i by (cases "i = ix k") (auto simp: shards_rep_def restrict_upd_same restrict_upd_other)
qed (use assms in \<open>simp add: shards_rep_def\<close>)

context kv_store
begin

lemma shard_load: "shards_rep rep ix ss m \<Longrightarrow> load k (ss ! ix k) = Some (m k)"
  using load_law [of "ss ! ix k" "m |` {j. ix j = ix k}" k] by (simp add: shards_rep_def)

lemma shard_store:
  assumes "shards_rep rep ix ss m"
  shows "\<exists>s'. store k v (ss ! ix k) = Some s' \<and> shards_rep rep ix (ss[ix k := s']) (m(k \<mapsto> v))"
  using store_law [of "ss ! ix k" "m |` {j. ix j = ix k}" k v] shards_rep_upd [OF assms] assms
  by (auto simp: shards_rep_def)

lemma shard_remove:
  assumes "shards_rep rep ix ss m"
  shows "\<exists>s'. remove k (ss ! ix k) = Some (m k \<noteq> None, s') \<and> shards_rep rep ix (ss[ix k := s']) (m(k := None))"
  using remove_law [of "ss ! ix k" "m |` {j. ix j = ix k}" k] shards_rep_upd [OF assms] assms
  by (auto simp: shards_rep_def)

end

section \<open>Visitors\<close>

text \<open>A visitor closure is a function on the state \<open>'s\<close> of the variables it captures; it answers
  whether to go on. \<open>visit_run\<close> is the loop that calls it on every entry until it answers false.\<close>

type_synonym ('i, 's) visitor = "string \<Rightarrow> 'i \<Rightarrow> 's \<Rightarrow> bool \<times> 's"

fun visit_run :: "('i, 's) visitor \<Rightarrow> (string \<times> 'i) list \<Rightarrow> 's \<Rightarrow> bool \<times> 's" where
  "visit_run f [] s = (True, s)"
| "visit_run f ((k, v) # es) s = (if fst (f k v s) then visit_run f es (snd (f k v s)) else (False, snd (f k v s)))"

fun visit_while :: "('i, 's) visitor \<Rightarrow> (string \<times> 'i) list \<Rightarrow> 's \<Rightarrow> 's" where
  "visit_while f [] s = s"
| "visit_while f ((k, v) # es) s = (if fst (f k v s) then visit_while f es (snd (f k v s)) else snd (f k v s))"

abbreviation visit_all :: "('i, 's) visitor \<Rightarrow> (string \<times> 'i) list \<Rightarrow> 's \<Rightarrow> 's" where
  "visit_all f es s \<equiv> fold (\<lambda>(k, v) s. snd (f k v s)) es s"

lemma visit_run_while: "snd (visit_run f es s) = visit_while f es s"
  by (induction f es s rule: visit_while.induct) auto

lemma visit_run_append:
  "visit_run f (xs @ ys) s = (if fst (visit_run f xs s) then visit_run f ys (snd (visit_run f xs s)) else visit_run f xs s)"
  by (induction f xs s rule: visit_run.induct) auto

lemma visit_while_all: "(\<And>k v s. fst (f k v s)) \<Longrightarrow> visit_while f es s = visit_all f es s"
  by (induction f es s rule: visit_while.induct) auto

lemma visit_collect: "visit_while (\<lambda>k v acc. (True, acc @ [(k, v)])) es acc = acc @ es"
  by (induction es arbitrary: acc) auto


section \<open>Lists\<close>

lemma distinct_singleton: "distinct xs \<Longrightarrow> set xs = {x} \<Longrightarrow> xs = [x]"
  by (cases xs) (auto simp: subset_singleton_iff)

lemma list_update_nth: "xs[i := x] ! j = (if j = i \<and> i < length xs then x else xs ! j)"
  by (cases "i < length xs") (auto simp: nth_list_update list_update_beyond)

lemma find_append: "List.find P (xs @ ys) = (case List.find P xs of None \<Rightarrow> List.find P ys | Some x \<Rightarrow> Some x)"
  by (induction xs) auto

lemma find_filter_hd: "List.find P xs = (case filter P xs of [] \<Rightarrow> None | y # _ \<Rightarrow> Some y)"
  by (induction xs) auto

lemma find_cong_set: "(\<And>x. x \<in> set xs \<Longrightarrow> P x = Q x) \<Longrightarrow> List.find P xs = List.find Q xs"
  by (induction xs) auto

lemma find_in_set: "List.find P xs = Some x \<Longrightarrow> x \<in> set xs \<and> P x"
  by (induction xs) (auto split: if_splits)

lemma find_None_set: "List.find P xs = None \<longleftrightarrow> (\<forall>x\<in>set xs. \<not> P x)"
  by (induction xs) auto

end
