(* ===== verification/Sharding.thy ===== *)
theory Sharding
  imports Prelude "HOL-Library.Log_Nat"
begin

text \<open>
  What \<^verbatim>\<open>src/cache/shard.go\<close> and \<^verbatim>\<open>src/cache/skipmap.go\<close> share: the FNV-1 hash of
  \<^verbatim>\<open>hash/fnv\<close>, the rounding of the shard count to a power of two, the masked shard index and the
  wrap-around item counter.
  The rounding \<open>2 ^ ceil (log2 n)\<close> is done in floating point by the code; it is taken exact
  here, which it is for every count below \<open>2 ^ 31\<close>, the range the properties speak of.
\<close>

section \<open>Hash, shard count and mask\<close>

definition fnv32 :: "string \<Rightarrow> u32" where
  "fnv32 key = foldl (\<lambda>h c. (h * 16777619) XOR of_char c) 2166136261 key"

definition isPowerOfTwo :: "int \<Rightarrow> bool" where
  "isPowerOfTwo n \<longleftrightarrow> n > 0 \<and> n AND (n - 1) = 0"

definition DefaultShardCount :: int where
  "DefaultShardCount = 32"

definition roundShardCount :: "int \<Rightarrow> int" where
  "roundShardCount shardCount =
     (let shardCount = (if shardCount \<le> 0 then DefaultShardCount else shardCount)
      in if isPowerOfTwo shardCount then shardCount else 2 ^ ceillog2 (nat shardCount))"

definition shard_index :: "u32 \<Rightarrow> string \<Rightarrow> nat" where
  "shard_index msk key = unat (fnv32 key AND msk)"

lemma and_pred_nat: "n > 0 \<Longrightarrow> (n AND (n - 1) = (0::int)) \<longleftrightarrow> (\<exists>k. n = 2 ^ k)"
proof (induction "nat n" arbitrary: n rule: less_induct)
  case less
  define m where "m = n div 2"
  show ?case
  proof (cases "even n")
    case True
    then have n: "n = 2 * m" "m > 0" using less.prems by (auto simp: m_def)
    have "(n - 1) div 2 = m - 1" using n(1) by linarith
    then have "n AND (n - 1) = 2 * (m AND (m - 1))"
      using True and_int_rec [of n "n - 1"] by (simp add: m_def)
    moreover have "(\<exists>k. n = 2 ^ k) \<longleftrightarrow> (\<exists>k. m = 2 ^ k)"
    proof
      assume "\<exists>k. n = 2 ^ k"
      then obtain k where k: "n = 2 ^ k" by blast
      with True obtain j where "k = Suc j" by (cases k) auto
      with k n(1) have "m = 2 ^ j" by simp
      then show "\<exists>k. m = 2 ^ k" by blast
    next
      assume "\<exists>k. m = 2 ^ k"
      then obtain j where "m = 2 ^ j" by blast
      with n(1) have "n = 2 ^ Suc j" by simp
      then show "\<exists>k. n = 2 ^ k" by blast
    qed
    ultimately show ?thesis using less.hyps [of m] n by simp
  next
    case False
    then have n: "n = 2 * m + 1" by (simp add: m_def)
    then have "(n - 1) div 2 = m" by linarith
    then have "n AND (n - 1) = 2 * m"
      using False and_int_rec [of n "n - 1"] by (simp add: m_def)
    moreover have "(\<exists>k. n = 2 ^ k) \<longleftrightarrow> m = 0"
    proof
      assume "\<exists>k. n = 2 ^ k"
      then obtain k where "n = 2 ^ k" by blast
      with False have "k = 0" by (metis even_power even_numeral neq0_conv)
      with \<open>n = 2 ^ k\<close> n show "m = 0" by simp
    next
      assume "m = 0"
      with n have "n = 2 ^ 0" by simp
      then show "\<exists>k. n = 2 ^ k" by blast
    qed
    ultimately show ?thesis by simp
  qed
qed

lemma isPowerOfTwo_iff: "isPowerOfTwo n \<longleftrightarrow> (\<exists>k. n = 2 ^ k)"
  using and_pred_nat [of n] by (auto simp: isPowerOfTwo_def)

lemma ceillog2_mono_pow: "1 \<le> n \<Longrightarrow> n \<le> 2 ^ p \<Longrightarrow> ceillog2 n \<le> p"
  using ceillog2_le_iff [of n p] by auto

lemma roundShardCount_pow:
  assumes "n \<le> 2 ^ 31"
  shows "\<exists>p\<le>31. roundShardCount n = 2 ^ p"
proof -
  define c where "c = (if n \<le> 0 then DefaultShardCount else n)"
  have c: "0 < c" "c \<le> 2 ^ 31" using assms by (auto simp: c_def DefaultShardCount_def)
  show ?thesis
  proof (cases "isPowerOfTwo c")
    case True
    then obtain k where k: "c = 2 ^ k" by (auto simp: isPowerOfTwo_iff)
    with c(2) have "k \<le> 31" by (simp only: power_increasing_iff)
    with k True show ?thesis by (auto simp: roundShardCount_def c_def [symmetric])
  next
    case False
    have "nat c \<le> 2 ^ 31" using c(2) by (simp add: nat_le_iff)
    then have "ceillog2 (nat c) \<le> 31" using c(1) by (intro ceillog2_mono_pow) auto
    with False show ?thesis by (auto simp: roundShardCount_def c_def [symmetric])
  qed
qed

lemma shard_index_mask:
  assumes "p \<le> 31"
  shows "shard_index (word_of_int (2 ^ p - 1)) key = unat (fnv32 key) mod 2 ^ p"
proof -
  have "fnv32 key AND word_of_int (2 ^ p - 1) = take_bit p (fnv32 key)"
    by (simp add: take_bit_eq_mask mask_eq_exp_minus_1)
  then show ?thesis
    unfolding shard_index_def by (simp only: unsigned_take_bit_eq) (simp add: take_bit_eq_mod)
qed

lemma shard_index_less: "p \<le> 31 \<Longrightarrow> shard_index (word_of_int (2 ^ p - 1)) key < 2 ^ p"
  by (simp only: shard_index_mask) simp

section \<open>The item counter\<close>

text \<open>\<open>itemCount\<close> is an \<open>int64\<close> that the atomic additions wrap; it holds the number of keys
  modulo \<open>2 ^ 64\<close>.\<close>

lemma card_dom_upd:
  assumes "finite (dom m)"
  shows "card (dom (m(k \<mapsto> v))) = (if m k = None then Suc (card (dom m)) else card (dom m))"
  using assms by (cases "m k") (auto simp: card_insert_if insert_absorb domIff)

lemma card_dom_del:
  assumes "finite (dom m)"
  shows "card (dom m) = (if m k = None then card (dom (m(k := None))) else Suc (card (dom (m(k := None)))))"
  using card_Suc_Diff1 [of "dom m" k] assms by (auto simp: domIff)

lemma item_count_sint:
  "int n < 2 ^ 63 \<Longrightarrow> sint (of_nat n :: u64) = int n"
  by (simp add: signed_of_nat signed_take_bit_int_eq_self)

end
