(* ===== verification/ShardMap.thy ===== *)
theory ShardMap
  imports Sharding
begin

text \<open>
  The sharded map over Go maps of \<^verbatim>\<open>src/cache/shard.go\<close>, the predecessor of the skip-list map and
  still exported. A shard is its Go map; the shard mutex makes each method atomic. The order of
  \<open>range\<close> over a Go map is unspecified: the order of the association list stands for it, and the
  properties hold for every order.
\<close>

section \<open>State and operations\<close>

record 'i ShardedMap =
  shm_shards :: "'i gomap list"
  shm_count :: int
  shm_mask :: u32
  shm_itemCount :: u64

definition NewShardedMap :: "int \<Rightarrow> 'i ShardedMap" where
  "NewShardedMap shardCount =
     (let shardCount = roundShardCount shardCount in
      \<lparr>shm_shards = replicate (nat shardCount) [], shm_count = shardCount,
       shm_mask = word_of_int (shardCount - 1), shm_itemCount = 0\<rparr>)"

definition ShardMap_shard :: "'i ShardedMap \<Rightarrow> nat \<Rightarrow> 'i gomap option" where
  "ShardMap_shard sm i = (if i < length (shm_shards sm) then Some (shm_shards sm ! i) else None)"

definition ShardMap_getShard :: "'i ShardedMap \<Rightarrow> string \<Rightarrow> (nat \<times> 'i gomap) option" where
  "ShardMap_getShard sm key = (let index = shard_index (shm_mask sm) key in
     do { items \<leftarrow> ShardMap_shard sm index; Some (index, items) })"

definition ShardMap_Store :: "string \<Rightarrow> 'i \<Rightarrow> 'i ShardedMap \<Rightarrow> 'i ShardedMap option" where
  "ShardMap_Store key value sm = do {
     (i, items) \<leftarrow> ShardMap_getShard sm key;
     Some (sm\<lparr>shm_shards := (shm_shards sm)[i := AList.update key value items],
              shm_itemCount := (if map_of items key = None then shm_itemCount sm + 1 else shm_itemCount sm)\<rparr>) }"

definition ShardMap_Load :: "string \<Rightarrow> 'i ShardedMap \<Rightarrow> 'i option option" where
  "ShardMap_Load key sm = do { (i, items) \<leftarrow> ShardMap_getShard sm key; Some (map_of items key) }"

definition ShardMap_LoadAndDelete :: "string \<Rightarrow> 'i ShardedMap \<Rightarrow> ('i option \<times> 'i ShardedMap) option" where
  "ShardMap_LoadAndDelete key sm = do {
     (i, items) \<leftarrow> ShardMap_getShard sm key;
     Some (map_of items key,
           if map_of items key \<noteq> None
           then sm\<lparr>shm_shards := (shm_shards sm)[i := AList.delete key items], shm_itemCount := shm_itemCount sm - 1\<rparr>
           else sm) }"

definition ShardMap_Delete :: "string \<Rightarrow> 'i ShardedMap \<Rightarrow> 'i ShardedMap option" where
  "ShardMap_Delete key sm = do {
     (i, items) \<leftarrow> ShardMap_getShard sm key;
     Some (if map_of items key \<noteq> None
           then sm\<lparr>shm_shards := (shm_shards sm)[i := AList.delete key items], shm_itemCount := shm_itemCount sm - 1\<rparr>
           else sm) }"

text \<open>\<open>get\<close> reads the map from the visitor's state, as in \<open>SkipMap_Range\<close>; the temporary copy of a
  shard is the shard's value at that moment.\<close>

fun ShardMap_Range_loop :: "('s \<Rightarrow> 'i ShardedMap) \<Rightarrow> ('i, 's) visitor \<Rightarrow> nat list \<Rightarrow> 's \<Rightarrow> 's option" where
  "ShardMap_Range_loop get f [] s = Some s"
| "ShardMap_Range_loop get f (i # is) s = do {
     tempMap \<leftarrow> ShardMap_shard (get s) i;
     let (goOn, s') = visit_run f tempMap s;
     if goOn then ShardMap_Range_loop get f is s' else Some s' }"

definition ShardMap_Range :: "('s \<Rightarrow> 'i ShardedMap) \<Rightarrow> ('i, 's) visitor \<Rightarrow> 's \<Rightarrow> 's option" where
  "ShardMap_Range get f s = ShardMap_Range_loop get f [0..<nat (shm_count (get s))] s"

definition ShardMap_RangeShard :: "int \<Rightarrow> ('s \<Rightarrow> 'i ShardedMap) \<Rightarrow> ('i, 's) visitor \<Rightarrow> 's \<Rightarrow> 's option" where
  "ShardMap_RangeShard shardIndex get f s =
     (if shardIndex < 0 \<or> shm_count (get s) \<le> shardIndex then Some s
      else do { tempMap \<leftarrow> ShardMap_shard (get s) (nat shardIndex); Some (visit_while f tempMap s) })"

definition ShardMap_Count :: "'i ShardedMap \<Rightarrow> int" where
  "ShardMap_Count sm = sint (shm_itemCount sm)"

definition ShardMap_ShardCount :: "'i ShardedMap \<Rightarrow> int" where
  "ShardMap_ShardCount sm = shm_count sm"

section \<open>A shard\<close>

text \<open>A Go map meets the key/value contract.\<close>

definition gomap_rep :: "'i gomap \<Rightarrow> (string \<rightharpoonup> 'i) \<Rightarrow> bool" where
  "gomap_rep items m \<longleftrightarrow> wf_gomap items \<and> m = map_of items"

definition gomap_load :: "string \<Rightarrow> 'i gomap \<Rightarrow> 'i option option" where
  "gomap_load key items = Some (map_of items key)"

definition gomap_store :: "string \<Rightarrow> 'i \<Rightarrow> 'i gomap \<Rightarrow> 'i gomap option" where
  "gomap_store key value items = Some (AList.update key value items)"

definition gomap_remove :: "string \<Rightarrow> 'i gomap \<Rightarrow> (bool \<times> 'i gomap) option" where
  "gomap_remove key items = Some (map_of items key \<noteq> None, AList.delete key items)"

interpretation gomap: kv_store gomap_rep gomap_load gomap_store gomap_remove
  by unfold_locales (auto simp: gomap_rep_def gomap_load_def gomap_store_def gomap_remove_def)

section \<open>The map\<close>

definition shardmap_rep :: "'i ShardedMap \<Rightarrow> (string \<rightharpoonup> 'i) \<Rightarrow> bool" where
  "shardmap_rep sm m \<longleftrightarrow>
     (\<exists>p\<le>31. length (shm_shards sm) = 2 ^ p \<and> shm_mask sm = word_of_int (2 ^ p - 1)) \<and>
     shm_count sm = int (length (shm_shards sm)) \<and>
     shards_rep gomap_rep (shard_index (shm_mask sm)) (shm_shards sm) m \<and>
     finite (dom m) \<and> shm_itemCount sm = of_nat (card (dom m))"

lemma shardmap_repD:
  assumes "shardmap_rep sm m"
  shows "shards_rep gomap_rep (shard_index (shm_mask sm)) (shm_shards sm) m" "finite (dom m)"
    "shm_itemCount sm = of_nat (card (dom m))"
    "ShardMap_getShard sm k = Some (shard_index (shm_mask sm) k, shm_shards sm ! shard_index (shm_mask sm) k)"
    "map_of (shm_shards sm ! shard_index (shm_mask sm) k) k = m k"
  using assms gomap.shard_load [of "shard_index (shm_mask sm)" "shm_shards sm" m k]
  by (auto simp: shardmap_rep_def ShardMap_getShard_def ShardMap_shard_def shards_rep_def gomap_load_def Let_def)

lemma shardmap_rep_upd:
  assumes "shardmap_rep sm m" "shards_rep gomap_rep (shard_index (shm_mask sm)) ss m'"
    and "length ss = length (shm_shards sm)" "finite (dom m')" "c = of_nat (card (dom m'))"
  shows "shardmap_rep (sm\<lparr>shm_shards := ss, shm_itemCount := c\<rparr>) m'"
  using assms by (simp add: shardmap_rep_def)

lemma ShardMap_Load_rep: "shardmap_rep sm m \<Longrightarrow> ShardMap_Load k sm = Some (m k)"
  by (simp add: ShardMap_Load_def shardmap_repD)

lemma ShardMap_Store_rep:
  assumes rep: "shardmap_rep sm m"
  shows "\<exists>sm'. ShardMap_Store k v sm = Some sm' \<and> shardmap_rep sm' (m(k \<mapsto> v))"
proof -
  note D = shardmap_repD [OF rep]
  let ?ix = "shard_index (shm_mask sm)"
  let ?c = "if m k = None then shm_itemCount sm + 1 else shm_itemCount sm"
  have sr: "shards_rep gomap_rep ?ix ((shm_shards sm)[?ix k := AList.update k v (shm_shards sm ! ?ix k)]) (m(k \<mapsto> v))"
    using gomap.shard_store [OF D(1), of k v] by (simp add: gomap_store_def)
  have "?c = of_nat (card (dom (m(k \<mapsto> v))))" using card_dom_upd [OF D(2), of k v] D(3) by simp
  from shardmap_rep_upd [OF rep sr _ _ this] D(2) show ?thesis
    by (simp add: ShardMap_Store_def D(4,5))
qed

lemma ShardMap_Delete_rep:
  assumes rep: "shardmap_rep sm m"
  shows "\<exists>sm'. ShardMap_Delete k sm = Some sm' \<and> ShardMap_LoadAndDelete k sm = Some (m k, sm') \<and> shardmap_rep sm' (m(k := None))"
proof (cases "m k")
  case None
  then have "m(k := None) = m" by auto
  with None rep show ?thesis by (simp add: ShardMap_Delete_def ShardMap_LoadAndDelete_def shardmap_repD)
next
  case (Some v)
  note D = shardmap_repD [OF rep]
  let ?ix = "shard_index (shm_mask sm)"
  have sr: "shards_rep gomap_rep ?ix ((shm_shards sm)[?ix k := AList.delete k (shm_shards sm ! ?ix k)]) (m(k := None))"
    using gomap.shard_remove [OF D(1), of k] by (simp add: gomap_remove_def)
  have "shm_itemCount sm - 1 = of_nat (card (dom (m(k := None))))" using card_dom_del [OF D(2), of k] D(3) Some by simp
  from shardmap_rep_upd [OF rep sr _ _ this] D(2) Some show ?thesis
    by (simp add: ShardMap_Delete_def ShardMap_LoadAndDelete_def D(4,5))
qed

definition ShardMap_remove :: "string \<Rightarrow> 'i ShardedMap \<Rightarrow> (bool \<times> 'i ShardedMap) option" where
  "ShardMap_remove key sm = do { (old, sm') \<leftarrow> ShardMap_LoadAndDelete key sm; Some (old \<noteq> None, sm') }"

interpretation shmap: kv_store shardmap_rep ShardMap_Load ShardMap_Store ShardMap_remove
proof
  fix sm :: "'a ShardedMap" and m k v
  assume rep: "shardmap_rep sm m"
  show "ShardMap_Load k sm = Some (m k)" using rep by (rule ShardMap_Load_rep)
  show "\<exists>sm'. ShardMap_Store k v sm = Some sm' \<and> shardmap_rep sm' (m(k \<mapsto> v))" using rep by (rule ShardMap_Store_rep)
  show "\<exists>sm'. ShardMap_remove k sm = Some (m k \<noteq> None, sm') \<and> shardmap_rep sm' (m(k := None))"
    using ShardMap_Delete_rep [OF rep, of k] by (auto simp: ShardMap_remove_def)
qed

lemma NewShardedMap_rep:
  assumes "n \<le> 2 ^ 31"
  shows "shardmap_rep (NewShardedMap n) Map.empty"
proof -
  obtain p where p: "p \<le> 31" "roundShardCount n = 2 ^ p" using roundShardCount_pow [OF assms] by blast
  then have "\<forall>k. shard_index (word_of_int (2 ^ p - 1)) k < 2 ^ p" using shard_index_less by blast
  then show ?thesis
    using p(1)
    by (auto simp: shardmap_rep_def NewShardedMap_def p(2) shards_rep_def gomap_rep_def restrict_map_def Let_def nat_power_eq)
qed

section \<open>Iteration\<close>

lemma ShardMap_Range_loop_all:
  assumes "j \<le> length (shm_shards sm)"
  shows "ShardMap_Range_loop (\<lambda>_. sm) f [j..<length (shm_shards sm)] s = Some (visit_while f (concat (drop j (shm_shards sm))) s)"
  using assms
proof (induction "length (shm_shards sm) - j" arbitrary: j s)
  case (Suc n)
  then have j: "j < length (shm_shards sm)" by simp
  have "ShardMap_Range_loop (\<lambda>_. sm) f [Suc j..<length (shm_shards sm)] s' = Some (visit_while f (concat (drop (Suc j) (shm_shards sm))) s')" for s'
    using Suc by (intro Suc.hyps(1)) auto
  moreover have "concat (drop j (shm_shards sm)) = shm_shards sm ! j @ concat (drop (Suc j) (shm_shards sm))"
    using j by (metis Cons_nth_drop_Suc concat.simps(2))
  ultimately show ?case
    using j by (simp add: upt_conv_Cons ShardMap_shard_def visit_run_while [symmetric] visit_run_append split: prod.splits)
qed simp

lemma shards_concat:
  assumes "\<forall>k. ix k < length ss" "\<forall>i<length ss. wf_gomap (ss ! i) \<and> map_of (ss ! i) = m |` {k. ix k = i}" "j \<le> length ss"
  shows "distinct (map fst (concat (take j ss))) \<and> set (concat (take j ss)) = {(k, v). m k = Some v \<and> ix k < j}"
  using assms(3)
proof (induction j)
  case (Suc j)
  then have j: "j < length ss" by simp
  have tk: "concat (take (Suc j) ss) = concat (take j ss) @ ss ! j" using j by (simp add: take_Suc_conv_app_nth)
  have sj: "(k, v) \<in> set (ss ! j) \<longleftrightarrow> m k = Some v \<and> ix k = j" for k v
  proof -
    have "(k, v) \<in> set (ss ! j) \<longleftrightarrow> map_of (ss ! j) k = Some v"
      using assms(2) j map_of_eq_Some_iff [of "ss ! j" k v] unfolding wf_gomap_def by blast
    then show ?thesis using assms(2) j by (auto simp: restrict_map_def)
  qed
  have "set (concat (take j ss)) = {(k, v). m k = Some v \<and> ix k < j}" "distinct (map fst (concat (take j ss)))"
    using Suc by auto
  moreover have "distinct (map fst (ss ! j))" using assms(2) j by (simp add: wf_gomap_def)
  moreover have "set (ss ! j) = {(k, v). m k = Some v \<and> ix k = j}" using sj by auto
  ultimately show ?case unfolding tk by (auto simp: less_Suc_eq)
qed simp

section \<open>Properties\<close>

text \<open>C8. The map over Go maps keeps the same contract as the skip-list map: after any sequence of
  stores and removals on a fresh map with any shard count up to \<open>2 ^ 31\<close>, \<open>Load\<close> answers as the
  finite map with the same updates, \<open>Count\<close> is its number of keys, and \<open>Range\<close> with a visitor that
  goes on visits each of its entries exactly once.\<close>

theorem shardmap_run_correct:
  assumes "n \<le> 2 ^ 31" "int (length ops) < 2 ^ 63"
  shows "\<exists>sm es. kv_run ShardMap_Store ShardMap_remove ops (NewShardedMap n) = Some sm \<and>
     (\<forall>k. ShardMap_Load k sm = Some (fold kv_spec ops Map.empty k)) \<and>
     ShardMap_Count sm = int (card (dom (fold kv_spec ops Map.empty))) \<and>
     distinct (map fst es) \<and> set es = {(k, v). fold kv_spec ops Map.empty k = Some v} \<and>
     (\<forall>f s. ShardMap_Range (\<lambda>_. sm) f s = Some (visit_while f es s))"
proof -
  let ?m = "fold kv_spec ops Map.empty"
  obtain sm where sm: "kv_run ShardMap_Store ShardMap_remove ops (NewShardedMap n) = Some sm" "shardmap_rep sm ?m"
    using shmap.run_refines [OF NewShardedMap_rep [OF assms(1)]] by blast
  have "card (dom ?m) \<le> length ops" using kv_spec_dom [of Map.empty ops] by simp
  then have "int (card (dom ?m)) < 2 ^ 63" using assms(2) by linarith
  then have c: "ShardMap_Count sm = int (card (dom ?m))"
    unfolding ShardMap_Count_def shardmap_repD(3) [OF sm(2)] by (rule item_count_sint)
  let ?ss = "shm_shards sm"
  have sr: "\<forall>k. shard_index (shm_mask sm) k < length ?ss"
      "\<forall>i<length ?ss. wf_gomap (?ss ! i) \<and> map_of (?ss ! i) = ?m |` {k. shard_index (shm_mask sm) k = i}"
    using shardmap_repD(1) [OF sm(2)] by (auto simp: shards_rep_def gomap_rep_def)
  have "nat (shm_count sm) = length ?ss" using sm(2) by (simp add: shardmap_rep_def)
  then have "ShardMap_Range (\<lambda>_. sm) f s = Some (visit_while f (concat ?ss) s)" for f :: "('a, 'b) visitor" and s
    using ShardMap_Range_loop_all [of 0 sm f s] by (simp add: ShardMap_Range_def)
  moreover have "distinct (map fst (concat ?ss))" "set (concat ?ss) = {(k, v). ?m k = Some v}"
    using shards_concat [OF sr, of "length ?ss"] sr(1) by auto
  ultimately show ?thesis
    using sm c shmap.load_law by (intro exI [of _ sm] exI [of _ "concat ?ss"]) blast
qed

theorem shardmap_run_correct_witness:
  "\<exists>sm. kv_run ShardMap_Store ShardMap_remove [Put ''a'' (1::int), Put ''b'' 2, Remove ''a''] (NewShardedMap 5) = Some sm \<and>
     ShardMap_Load ''b'' sm = Some (Some 2) \<and> ShardMap_Load ''a'' sm = Some None \<and> ShardMap_Count sm = 1"
  using shardmap_run_correct [of 5 "[Put ''a'' (1::int), Put ''b'' 2, Remove ''a'']"] by auto

end
