(* ===== verification/SkipList.thy ===== *)
theory SkipList
  imports Prelude
begin

text \<open>
  The skip list of \<^verbatim>\<open>src/cache/skiplist.go\<close>, with its nodes in an explicit heap: a node's
  address is its index, the head is at address 0, a \<open>forward\<close> pointer is an optional address
  (\<open>None\<close> for \<open>nil\<close>) and a new node is allocated at the end. Removed nodes stay in the
  heap as garbage. The list's own \<open>RWMutex\<close> makes each method atomic, so a method is one
  function on the whole list. The random generator is the sequence of outcomes that its next calls
  \<open>Float64() < probability\<close> will have.

  The representation invariant \<open>skip_inv\<close> says that every pointer at level \<open>i\<close> of a
  node leads to the next node of the bottom list that is taller than \<open>i\<close>. Under it all
  methods return, and they refine the operations of a key-sorted association list.
\<close>

section \<open>State\<close>

definition maxLevel :: nat where
  "maxLevel = 32"

record 'i skipNode =
  sn_key :: string
  sn_value :: "'i option"
  sn_forward :: "nat option list"

type_synonym 'i skipHeap = "'i skipNode list"

record 'i SkipList =
  sl_heap :: "'i skipHeap"
  sl_length :: int
  sl_level :: nat
  sl_random :: "nat \<Rightarrow> bool"

definition deref :: "'i skipHeap \<Rightarrow> nat \<Rightarrow> 'i skipNode option" where
  "deref h a = (if a < length h then Some (h ! a) else None)"

definition forward_at :: "'i skipHeap \<Rightarrow> nat \<Rightarrow> nat \<Rightarrow> nat option option" where
  "forward_at h a i = do {
     n \<leftarrow> deref h a;
     if i < length (sn_forward n) then Some (sn_forward n ! i) else None }"

definition set_forward :: "nat \<Rightarrow> nat \<Rightarrow> nat option \<Rightarrow> 'i skipHeap \<Rightarrow> 'i skipHeap option" where
  "set_forward a i p h = do {
     n \<leftarrow> deref h a;
     if i < length (sn_forward n) then Some (h[a := n\<lparr>sn_forward := (sn_forward n)[i := p]\<rparr>]) else None }"

section \<open>Operations\<close>

definition newSkipList :: "(nat \<Rightarrow> bool) \<Rightarrow> 'i SkipList" where
  "newSkipList r =
     \<lparr>sl_heap = [\<lparr>sn_key = '''', sn_value = None, sn_forward = replicate maxLevel None\<rparr>],
      sl_length = 0, sl_level = 1, sl_random = r\<rparr>"

function randomLevel_loop :: "nat \<Rightarrow> (nat \<Rightarrow> bool) \<Rightarrow> nat \<times> (nat \<Rightarrow> bool)" where
  "randomLevel_loop level r =
     (if level < maxLevel
      then (if r 0 then randomLevel_loop (level + 1) (\<lambda>n. r (Suc n)) else (level, \<lambda>n. r (Suc n)))
      else (level, r))"
  by pat_completeness auto
termination
  by (relation "measure (\<lambda>(level, r). maxLevel - level)") auto

declare randomLevel_loop.simps [simp del]

definition randomLevel :: "(nat \<Rightarrow> bool) \<Rightarrow> nat \<times> (nat \<Rightarrow> bool)" where
  "randomLevel r = randomLevel_loop 1 r"

text \<open>The inner loop of every search: move right on level \<open>i\<close> while the next key is smaller.\<close>

partial_function (option) skip_walk :: "'i skipHeap \<Rightarrow> string \<Rightarrow> nat \<Rightarrow> nat \<Rightarrow> nat option" where
  "skip_walk h key i current =
     (case forward_at h current i of
        None \<Rightarrow> None
      | Some None \<Rightarrow> Some current
      | Some (Some nx) \<Rightarrow>
          (case deref h nx of
             None \<Rightarrow> None
           | Some n \<Rightarrow> if sn_key n < key then skip_walk h key i nx else Some current))"

text \<open>The outer loop, from level \<open>i - 1\<close> down to 0, with and without the \<open>update\<close> array.\<close>

fun skip_descend :: "'i skipHeap \<Rightarrow> string \<Rightarrow> nat \<Rightarrow> nat \<Rightarrow> nat option list \<Rightarrow> (nat \<times> nat option list) option" where
  "skip_descend h key 0 current update = Some (current, update)"
| "skip_descend h key (Suc i) current update = do {
     c \<leftarrow> skip_walk h key i current;
     skip_descend h key i c (update[i := Some c]) }"

fun skip_seek :: "'i skipHeap \<Rightarrow> string \<Rightarrow> nat \<Rightarrow> nat \<Rightarrow> nat option" where
  "skip_seek h key 0 current = Some current"
| "skip_seek h key (Suc i) current = do { c \<leftarrow> skip_walk h key i current; skip_seek h key i c }"

definition index_update :: "nat option list \<Rightarrow> nat \<Rightarrow> nat option" where
  "index_update update i = (if i < length update then update ! i else None)"

text \<open>The loop of \<open>Set\<close> that splices the new node in, over the levels \<open>is\<close>.\<close>

fun skip_link :: "nat \<Rightarrow> nat option list \<Rightarrow> nat list \<Rightarrow> 'i skipHeap \<Rightarrow> 'i skipHeap option" where
  "skip_link newNode update [] h = Some h"
| "skip_link newNode update (i # is) h = do {
     u \<leftarrow> index_update update i;
     nxt \<leftarrow> forward_at h u i;
     h1 \<leftarrow> set_forward newNode i nxt h;
     h2 \<leftarrow> set_forward u i (Some newNode) h1;
     skip_link newNode update is h2 }"

definition SkipList_Set :: "string \<Rightarrow> 'i \<Rightarrow> 'i SkipList \<Rightarrow> 'i SkipList option" where
  "SkipList_Set key value sl = do {
     (current, update) \<leftarrow> skip_descend (sl_heap sl) key (sl_level sl) 0 (replicate maxLevel None);
     nxt \<leftarrow> forward_at (sl_heap sl) current 0;
     found \<leftarrow> (case nxt of None \<Rightarrow> Some False
                | Some a \<Rightarrow> do { n \<leftarrow> deref (sl_heap sl) a; Some (sn_key n = key) });
     if found
     then Some (sl\<lparr>sl_heap := (sl_heap sl)[the nxt := (sl_heap sl ! the nxt)\<lparr>sn_value := Some value\<rparr>]\<rparr>)
     else do {
       let (level, r) = randomLevel (sl_random sl);
       let update = (if sl_level sl < level
                     then fold (\<lambda>i u. u[i := Some 0]) [sl_level sl..<level] update else update);
       let newNode = length (sl_heap sl);
       h \<leftarrow> skip_link newNode update [0..<level]
              (sl_heap sl @ [\<lparr>sn_key = key, sn_value = Some value, sn_forward = replicate level None\<rparr>]);
       Some (sl\<lparr>sl_heap := h, sl_length := sl_length sl + 1,
                sl_level := (if sl_level sl < level then level else sl_level sl), sl_random := r\<rparr>) } }"

definition SkipList_Get :: "string \<Rightarrow> 'i SkipList \<Rightarrow> 'i option option" where
  "SkipList_Get key sl = do {
     current \<leftarrow> skip_seek (sl_heap sl) key (sl_level sl) 0;
     nxt \<leftarrow> forward_at (sl_heap sl) current 0;
     case nxt of
       None \<Rightarrow> Some None
     | Some a \<Rightarrow> do { n \<leftarrow> deref (sl_heap sl) a; Some (if sn_key n = key then sn_value n else None) } }"

text \<open>The unlinking loop of \<open>Delete\<close>: levels upwards while the predecessor points at \<open>current\<close>.\<close>

fun skip_unlink :: "nat \<Rightarrow> nat option list \<Rightarrow> nat list \<Rightarrow> 'i skipHeap \<Rightarrow> 'i skipHeap option" where
  "skip_unlink current update [] h = Some h"
| "skip_unlink current update (i # is) h = do {
     u \<leftarrow> index_update update i;
     nxt \<leftarrow> forward_at h u i;
     if nxt = Some current
     then do {
       p \<leftarrow> forward_at h current i;
       h' \<leftarrow> set_forward u i p h;
       skip_unlink current update is h' }
     else Some h }"

fun shrink_level :: "'i skipHeap \<Rightarrow> nat \<Rightarrow> nat option" where
  "shrink_level h 0 = Some 0"
| "shrink_level h (Suc l) =
     (if l = 0 then Some (Suc l)
      else do { p \<leftarrow> forward_at h 0 l; if p = None then shrink_level h l else Some (Suc l) })"

definition SkipList_Delete :: "string \<Rightarrow> 'i SkipList \<Rightarrow> (bool \<times> 'i SkipList) option" where
  "SkipList_Delete key sl = do {
     (current, update) \<leftarrow> skip_descend (sl_heap sl) key (sl_level sl) 0 (replicate maxLevel None);
     nxt \<leftarrow> forward_at (sl_heap sl) current 0;
     found \<leftarrow> (case nxt of None \<Rightarrow> Some False
                | Some a \<Rightarrow> do { n \<leftarrow> deref (sl_heap sl) a; Some (sn_key n = key) });
     if \<not> found then Some (False, sl)
     else do {
       h \<leftarrow> skip_unlink (the nxt) update [0..<sl_level sl] (sl_heap sl);
       l \<leftarrow> shrink_level h (sl_level sl);
       Some (True, sl\<lparr>sl_heap := h, sl_level := l, sl_length := sl_length sl - 1\<rparr>) } }"

partial_function (option) range_loop ::
  "'i skipHeap \<Rightarrow> string \<Rightarrow> int \<Rightarrow> ('i, 's) visitor \<Rightarrow> int \<Rightarrow> nat option \<Rightarrow> 's \<Rightarrow> 's option" where
  "range_loop h endKey limit visit count current s =
     (case current of
        None \<Rightarrow> Some s
      | Some a \<Rightarrow>
          (case deref h a of
             None \<Rightarrow> None
           | Some n \<Rightarrow>
               if (endKey = '''' \<or> sn_key n \<le> endKey) \<and> (limit \<le> 0 \<or> count < limit)
               then (case sn_value n of
                       None \<Rightarrow> None
                     | Some v \<Rightarrow>
                         if fst (visit (sn_key n) v s)
                         then (case forward_at h a 0 of
                                 None \<Rightarrow> None
                               | Some nx \<Rightarrow> range_loop h endKey limit visit (count + 1) nx (snd (visit (sn_key n) v s)))
                         else Some (snd (visit (sn_key n) v s)))
               else Some s))"

definition SkipList_Range ::
  "string \<Rightarrow> string \<Rightarrow> int \<Rightarrow> ('i, 's) visitor \<Rightarrow> 'i SkipList \<Rightarrow> 's \<Rightarrow> 's option" where
  "SkipList_Range startKey endKey limit visit sl s = do {
     current \<leftarrow> skip_seek (sl_heap sl) startKey (sl_level sl) 0;
     nxt \<leftarrow> forward_at (sl_heap sl) current 0;
     range_loop (sl_heap sl) endKey limit visit 0 nxt s }"

definition SkipList_Len :: "'i SkipList \<Rightarrow> int" where
  "SkipList_Len sl = sl_length sl"

partial_function (option) foreach_loop ::
  "'i skipHeap \<Rightarrow> ('i, 's) visitor \<Rightarrow> nat option \<Rightarrow> 's \<Rightarrow> 's option" where
  "foreach_loop h visit current s =
     (case current of
        None \<Rightarrow> Some s
      | Some a \<Rightarrow>
          (case deref h a of
             None \<Rightarrow> None
           | Some n \<Rightarrow>
               (case sn_value n of
                  None \<Rightarrow> None
                | Some v \<Rightarrow>
                    if fst (visit (sn_key n) v s)
                    then (case forward_at h a 0 of
                            None \<Rightarrow> None
                          | Some nx \<Rightarrow> foreach_loop h visit nx (snd (visit (sn_key n) v s)))
                    else Some (snd (visit (sn_key n) v s)))))"

definition SkipList_ForEach :: "('i, 's) visitor \<Rightarrow> 'i SkipList \<Rightarrow> 's \<Rightarrow> 's option" where
  "SkipList_ForEach visit sl s = do { nxt \<leftarrow> forward_at (sl_heap sl) 0 0; foreach_loop (sl_heap sl) visit nxt s }"

declare skip_walk.simps [code] range_loop.simps [code] foreach_loop.simps [code]

section \<open>The representation invariant\<close>

definition ht :: "'i skipHeap \<Rightarrow> nat \<Rightarrow> nat" where
  "ht h a = length (sn_forward (h ! a))"

definition nkey :: "'i skipHeap \<Rightarrow> nat \<Rightarrow> string" where
  "nkey h a = sn_key (h ! a)"

fun linked :: "'i skipHeap \<Rightarrow> nat list \<Rightarrow> bool" where
  "linked h [] \<longleftrightarrow> True"
| "linked h (a # as) \<longleftrightarrow>
     (\<forall>i<ht h a. sn_forward (h ! a) ! i = List.find (\<lambda>b. i < ht h b) as) \<and> linked h as"

definition entries :: "'i skipHeap \<Rightarrow> nat list \<Rightarrow> (string \<times> 'i) list" where
  "entries h ps = map (\<lambda>a. (sn_key (h ! a), the (sn_value (h ! a)))) ps"

definition skip_inv :: "'i SkipList \<Rightarrow> nat list \<Rightarrow> bool" where
  "skip_inv sl ps \<longleftrightarrow>
     linked (sl_heap sl) (0 # ps) \<and> distinct (0 # ps) \<and>
     (\<forall>a\<in>set (0 # ps). a < length (sl_heap sl)) \<and>
     ht (sl_heap sl) 0 = maxLevel \<and> 1 \<le> sl_level sl \<and> sl_level sl \<le> maxLevel \<and>
     (\<forall>a\<in>set ps. 1 \<le> ht (sl_heap sl) a \<and> ht (sl_heap sl) a \<le> sl_level sl \<and> sn_value (sl_heap sl ! a) \<noteq> None) \<and>
     (1 < sl_level sl \<longrightarrow> (\<exists>a\<in>set ps. ht (sl_heap sl) a = sl_level sl)) \<and>
     sorted_wrt (\<lambda>a b. nkey (sl_heap sl) a < nkey (sl_heap sl) b) ps \<and>
     sl_length sl = int (length ps)"

lemma skip_invI:
  assumes "linked (sl_heap sl) (0 # ps)" "distinct (0 # ps)" "\<And>a. a \<in> set (0 # ps) \<Longrightarrow> a < length (sl_heap sl)"
    and "ht (sl_heap sl) 0 = maxLevel" "1 \<le> sl_level sl" "sl_level sl \<le> maxLevel"
    and "\<And>a. a \<in> set ps \<Longrightarrow> 1 \<le> ht (sl_heap sl) a \<and> ht (sl_heap sl) a \<le> sl_level sl \<and> sn_value (sl_heap sl ! a) \<noteq> None"
    and "1 < sl_level sl \<Longrightarrow> \<exists>a\<in>set ps. ht (sl_heap sl) a = sl_level sl"
    and "sorted_wrt (\<lambda>a b. nkey (sl_heap sl) a < nkey (sl_heap sl) b) ps" "sl_length sl = int (length ps)"
  shows "skip_inv sl ps"
  unfolding skip_inv_def using assms by blast

lemma skip_invD:
  assumes "skip_inv sl ps"
  shows "linked (sl_heap sl) (0 # ps)" "distinct ps" "0 \<notin> set ps" "0 < length (sl_heap sl)"
    "\<And>a. a \<in> set ps \<Longrightarrow> a < length (sl_heap sl)"
    "ht (sl_heap sl) 0 = maxLevel" "1 \<le> sl_level sl" "sl_level sl \<le> maxLevel"
    "\<And>a. a \<in> set ps \<Longrightarrow> 1 \<le> ht (sl_heap sl) a"
    "\<And>a. a \<in> set ps \<Longrightarrow> ht (sl_heap sl) a \<le> sl_level sl"
    "\<And>a. a \<in> set ps \<Longrightarrow> sn_value (sl_heap sl ! a) \<noteq> None"
    "1 < sl_level sl \<Longrightarrow> \<exists>a\<in>set ps. ht (sl_heap sl) a = sl_level sl"
    "sorted_wrt (\<lambda>a b. nkey (sl_heap sl) a < nkey (sl_heap sl) b) ps" "sl_length sl = int (length ps)"
  using assms by (simp_all add: skip_inv_def)

definition skip_rep :: "'i SkipList \<Rightarrow> (string \<times> 'i) list \<Rightarrow> bool" where
  "skip_rep sl es \<longleftrightarrow> (\<exists>ps. skip_inv sl ps \<and> es = entries (sl_heap sl) ps)"

text \<open>The reference operations on a key-sorted association list.\<close>

definition sorted_set :: "string \<Rightarrow> 'i \<Rightarrow> (string \<times> 'i) list \<Rightarrow> (string \<times> 'i) list" where
  "sorted_set k v es = filter (\<lambda>e. fst e < k) es @ (k, v) # filter (\<lambda>e. k < fst e) es"

definition sorted_del :: "string \<Rightarrow> (string \<times> 'i) list \<Rightarrow> (string \<times> 'i) list" where
  "sorted_del k es = filter (\<lambda>e. fst e \<noteq> k) es"

section \<open>Searching\<close>

lemma linked_append: "linked h (us @ vs) \<Longrightarrow> linked h vs"
  by (induction us) auto

lemma forward_at_linked:
  "linked h (a # vs) \<Longrightarrow> a < length h \<Longrightarrow> i < ht h a \<Longrightarrow>
   forward_at h a i = Some (List.find (\<lambda>b. i < ht h b) vs)"
  by (simp add: forward_at_def deref_def ht_def)

lemma find_split:
  "List.find P xs = Some b \<Longrightarrow> \<exists>us vs. xs = us @ b # vs \<and> (\<forall>u\<in>set us. \<not> P u) \<and> P b"
proof (induction xs)
  case (Cons x xs)
  show ?case
  proof (cases "P x")
    case True
    with Cons.prems show ?thesis by (auto intro: exI [of _ "[]"])
  next
    case False
    with Cons obtain us vs where "xs = us @ b # vs" "\<forall>u\<in>set us. \<not> P u" "P b" by auto
    with False have "x # xs = (x # us) @ b # vs \<and> (\<forall>u\<in>set (x # us). \<not> P u) \<and> P b" by simp
    then show ?thesis by blast
  qed
qed simp

lemma skip_walk_linked:
  assumes "linked h (a # xs @ ys)" "\<forall>b\<in>set (a # xs @ ys). b < length h" "i < ht h a"
    and "\<forall>b\<in>set xs. nkey h b < k" "\<forall>b\<in>set ys. \<not> nkey h b < k"
  shows "skip_walk h k i a = Some (last (a # filter (\<lambda>b. i < ht h b) xs))"
  using assms
proof (induction "length xs" arbitrary: a xs rule: less_induct)
  case less
  have fw: "forward_at h a i = Some (List.find (\<lambda>b. i < ht h b) (xs @ ys))"
    using less.prems by (intro forward_at_linked) auto
  show ?case
  proof (cases "List.find (\<lambda>b. i < ht h b) xs")
    case None
    then have "filter (\<lambda>b. i < ht h b) xs = []"
      by (simp add: find_None_set filter_empty_conv)
    with None fw less.prems show ?thesis
      by (subst skip_walk.simps) (auto simp: find_append deref_def nkey_def split: option.splits dest: find_in_set)
  next
    case (Some b)
    then obtain us vs where xs: "xs = us @ b # vs" "\<forall>u\<in>set us. \<not> i < ht h u" "i < ht h b"
      using find_split [OF Some] by blast
    have "linked h (b # vs @ ys)"
      using less.prems(1) linked_append [of h "a # us" "b # vs @ ys"] by (simp add: xs)
    then have "skip_walk h k i b = Some (last (b # filter (\<lambda>b. i < ht h b) vs))"
      using less.prems xs by (intro less.hyps) auto
    moreover have "forward_at h a i = Some (Some b)"
      using fw Some by (simp add: find_append)
    then have "skip_walk h k i a = skip_walk h k i b"
      using less.prems(2,4) xs(1) by (subst skip_walk.simps) (simp add: deref_def nkey_def)
    moreover have "filter (\<lambda>b. i < ht h b) xs = b # filter (\<lambda>b. i < ht h b) vs"
      using xs by (simp add: filter_empty_conv)
    ultimately show ?thesis by simp
  qed
qed

text \<open>The predecessor on level \<open>i\<close> of the position between \<open>zs\<close> and its rest.\<close>

definition pred_at :: "'i skipHeap \<Rightarrow> nat list \<Rightarrow> nat \<Rightarrow> nat" where
  "pred_at h zs i = last (filter (\<lambda>b. i < ht h b) zs)"

definition skip_split :: "'i skipHeap \<Rightarrow> string \<Rightarrow> nat list \<Rightarrow> nat list \<Rightarrow> bool" where
  "skip_split h k zs ys \<longleftrightarrow> linked h (zs @ ys) \<and> (\<forall>b\<in>set (zs @ ys). b < length h) \<and>
     zs \<noteq> [] \<and> hd zs = 0 \<and> ht h 0 = maxLevel \<and> (\<forall>b\<in>set (zs @ ys). ht h b \<le> maxLevel) \<and>
     (\<forall>b\<in>set (tl zs). nkey h b < k) \<and> (\<forall>b\<in>set ys. \<not> nkey h b < k) \<and> distinct (zs @ ys)"

lemma pred_at_in:
  assumes "skip_split h k zs ys" "i < maxLevel"
  shows "pred_at h zs i \<in> set zs" "i < ht h (pred_at h zs i)" "pred_at h zs i < length h"
    "pred_at h zs i \<notin> set ys"
proof -
  have "0 \<in> set (filter (\<lambda>b. i < ht h b) zs)"
    using assms by (cases zs) (auto simp: skip_split_def)
  then have "filter (\<lambda>b. i < ht h b) zs \<noteq> []" by force
  from last_in_set [OF this] have "pred_at h zs i \<in> set zs \<and> i < ht h (pred_at h zs i)"
    by (simp add: pred_at_def)
  with assms show "pred_at h zs i \<in> set zs" "i < ht h (pred_at h zs i)" "pred_at h zs i < length h"
    "pred_at h zs i \<notin> set ys"
    by (auto simp: skip_split_def)
qed

lemma pred_at_last:
  assumes "distinct (us @ a # vs)" "i < ht h a"
  shows "pred_at h (us @ a # vs) i = a \<longleftrightarrow> filter (\<lambda>b. i < ht h b) vs = []"
  using assms last_in_set [of "filter (\<lambda>b. i < ht h b) vs"] by (auto simp: pred_at_def)

lemma skip_walk_from:
  assumes "skip_split h k zs ys" "zs = us @ c # vs" "i < ht h c"
  shows "skip_walk h k i c = Some (pred_at h zs i)"
proof -
  have "linked h (c # vs @ ys)"
    using assms(1,2) by (metis append_assoc append_Cons linked_append skip_split_def)
  moreover have "set vs \<subseteq> set (tl zs)" using assms(2) by (cases us) auto
  ultimately have "skip_walk h k i c = Some (last (c # filter (\<lambda>b. i < ht h b) vs))"
    using assms by (intro skip_walk_linked) (auto simp: skip_split_def)
  then show ?thesis using assms by (simp add: pred_at_def)
qed

lemma pred_at_forward:
  assumes "skip_split h k zs ys" "i < maxLevel"
  shows "sn_forward (h ! pred_at h zs i) ! i = List.find (\<lambda>b. i < ht h b) ys"
proof -
  let ?p = "pred_at h zs i"
  note p = pred_at_in [OF assms]
  obtain us vs where sp: "zs = us @ ?p # vs" using p(1) by (meson split_list)
  have "distinct (us @ ?p # vs)" using assms(1) sp by (metis distinct_append skip_split_def)
  from pred_at_last [OF this p(2)] sp have "List.find (\<lambda>b. i < ht h b) vs = None"
    by (simp add: find_None_set filter_empty_conv)
  moreover have "linked h (?p # vs @ ys)"
    using assms(1) sp by (metis append_assoc append_Cons linked_append skip_split_def)
  ultimately show ?thesis using p(2) by (simp add: find_append)
qed

lemma skip_seek_from:
  "skip_split h k zs ys \<Longrightarrow> zs = us @ c # vs \<Longrightarrow> n \<le> ht h c \<Longrightarrow> n \<le> maxLevel \<Longrightarrow>
   skip_seek h k n c = Some (if n = 0 then c else pred_at h zs 0)"
proof (induction n arbitrary: c us vs)
  case (Suc n)
  have w: "skip_walk h k n c = Some (pred_at h zs n)" using Suc.prems by (intro skip_walk_from) auto
  note p = pred_at_in [OF Suc.prems(1), of n]
  obtain us' vs' where "zs = us' @ pred_at h zs n # vs'"
    using p Suc.prems(4) by (meson Suc_le_lessD split_list)
  then show ?case using Suc.IH [OF Suc.prems(1)] p Suc.prems by (simp add: w Suc_le_eq less_imp_le)
qed simp

lemma skip_descend_from:
  "skip_split h k zs ys \<Longrightarrow> zs = us @ c # vs \<Longrightarrow> n \<le> ht h c \<Longrightarrow> n \<le> maxLevel \<Longrightarrow> n \<le> length u \<Longrightarrow>
   \<exists>u'. skip_descend h k n c u = Some (if n = 0 then c else pred_at h zs 0, u') \<and>
     length u' = length u \<and> (\<forall>i<length u. u' ! i = (if i < n then Some (pred_at h zs i) else u ! i))"
proof (induction n arbitrary: c us vs u)
  case (Suc n)
  have w: "skip_walk h k n c = Some (pred_at h zs n)" using Suc.prems by (intro skip_walk_from) auto
  note p = pred_at_in [OF Suc.prems(1), of n]
  obtain us' vs' where sp: "zs = us' @ pred_at h zs n # vs'"
    using p Suc.prems(4) by (meson Suc_le_lessD split_list)
  have "n \<le> ht h (pred_at h zs n)" using p Suc.prems by (simp add: Suc_le_eq less_imp_le)
  from Suc.IH [OF Suc.prems(1) sp this, of "u[n := Some (pred_at h zs n)]"] Suc.prems
  obtain u' where "skip_descend h k n (pred_at h zs n) (u[n := Some (pred_at h zs n)]) =
      Some (if n = 0 then pred_at h zs n else pred_at h zs 0, u')"
    "length u' = length u" "\<forall>i<length u. u' ! i = (if i < n then Some (pred_at h zs i) else u[n := Some (pred_at h zs n)] ! i)"
    by auto
  then show ?case using Suc.prems by (auto simp: w nth_list_update less_Suc_eq)
qed simp

text \<open>Every key splits the list of a well-formed skip list.\<close>

abbreviation keys_lt :: "'i skipHeap \<Rightarrow> string \<Rightarrow> nat list \<Rightarrow> nat list" where
  "keys_lt h k ps \<equiv> filter (\<lambda>a. nkey h a < k) ps"

abbreviation keys_ge :: "'i skipHeap \<Rightarrow> string \<Rightarrow> nat list \<Rightarrow> nat list" where
  "keys_ge h k ps \<equiv> filter (\<lambda>a. \<not> nkey h a < k) ps"

lemma sorted_keys_split:
  "sorted_wrt (\<lambda>a b. nkey h a < nkey h b) ps \<Longrightarrow> keys_lt h k ps @ keys_ge h k ps = ps"
proof (induction ps)
  case (Cons a ps)
  show ?case
  proof (cases "nkey h a < k")
    case False
    with Cons.prems have "\<forall>b\<in>set ps. \<not> nkey h b < k" by auto
    then have "keys_lt h k ps = []" "keys_ge h k ps = ps" by (simp_all add: filter_empty_conv)
    with False show ?thesis by simp
  qed (use Cons in simp)
qed simp

lemma skip_inv_split:
  assumes "skip_inv sl ps"
  shows "skip_split (sl_heap sl) k (0 # keys_lt (sl_heap sl) k ps) (keys_ge (sl_heap sl) k ps)"
    and "keys_lt (sl_heap sl) k ps @ keys_ge (sl_heap sl) k ps = ps"
  using sorted_keys_split [of "sl_heap sl" ps k] assms
  by (auto simp: skip_inv_def skip_split_def)

section \<open>Splicing and unlinking\<close>

lemma set_forward_props:
  assumes "set_forward a i p h = Some h'"
  shows "length h' = length h" "sn_key (h' ! b) = sn_key (h ! b)" "sn_value (h' ! b) = sn_value (h ! b)"
    "ht h' b = ht h b"
    "sn_forward (h' ! b) ! j = (if b = a \<and> j = i then p else sn_forward (h ! b) ! j)"
  using assms
  by (auto simp: set_forward_def deref_def ht_def nth_list_update split: if_splits bind_splits)

lemma set_forward_Some:
  "a < length h \<Longrightarrow> i < ht h a \<Longrightarrow> \<exists>h'. set_forward a i p h = Some h'"
  by (simp add: set_forward_def deref_def ht_def)

lemma forward_at_Some:
  "a < length h \<Longrightarrow> i < ht h a \<Longrightarrow> forward_at h a i = Some (sn_forward (h ! a) ! i)"
  by (simp add: forward_at_def deref_def ht_def)

text \<open>Two heaps that differ in pointers only.\<close>

definition same_nodes :: "'i skipHeap \<Rightarrow> 'i skipHeap \<Rightarrow> bool" where
  "same_nodes h h' \<longleftrightarrow> length h' = length h \<and>
     (\<forall>b. sn_key (h' ! b) = sn_key (h ! b) \<and> sn_value (h' ! b) = sn_value (h ! b) \<and> ht h' b = ht h b)"

lemma same_nodes_refl [simp]: "same_nodes h h"
  by (simp add: same_nodes_def)

lemma same_nodes_trans: "same_nodes h h1 \<Longrightarrow> same_nodes h1 h2 \<Longrightarrow> same_nodes h h2"
  by (simp add: same_nodes_def)

lemma set_forward_same: "set_forward a i p h = Some h' \<Longrightarrow> same_nodes h h'"
  by (simp add: same_nodes_def set_forward_props)

lemma skip_link_effect:
  assumes "distinct is" "new < length h" "\<forall>i\<in>set is. i < ht h new \<and> index_update u i = Some (p i) \<and>
      p i \<noteq> new \<and> p i < length h \<and> i < ht h (p i)"
  shows "\<exists>h'. skip_link new u is h = Some h' \<and> same_nodes h h' \<and>
      (\<forall>a i. sn_forward (h' ! a) ! i =
        (if i \<in> set is then if a = new then sn_forward (h ! p i) ! i
           else if a = p i then Some new else sn_forward (h ! a) ! i
         else sn_forward (h ! a) ! i))"
  using assms
proof (induction "is" arbitrary: h)
  case (Cons i "is")
  then have i: "i < ht h new" "index_update u i = Some (p i)" "p i \<noteq> new" "p i < length h" "i < ht h (p i)"
    by auto
  obtain h1 where h1: "set_forward new i (sn_forward (h ! p i) ! i) h = Some h1"
    using set_forward_Some i Cons.prems by blast
  obtain h2 where h2: "set_forward (p i) i (Some new) h1 = Some h2"
    using set_forward_Some [of "p i" h1 i "Some new"] i set_forward_props [OF h1] by auto
  note props = set_forward_props [OF h1] set_forward_props [OF h2]
  have "\<exists>h'. skip_link new u is h2 = Some h' \<and> same_nodes h2 h' \<and>
      (\<forall>a i. sn_forward (h' ! a) ! i =
        (if i \<in> set is then if a = new then sn_forward (h2 ! p i) ! i
           else if a = p i then Some new else sn_forward (h2 ! a) ! i
         else sn_forward (h2 ! a) ! i))"
    using Cons.prems by (intro Cons.IH) (simp_all add: props)
  then obtain h' where h': "skip_link new u is h2 = Some h'" "same_nodes h2 h'"
      "\<forall>a i. sn_forward (h' ! a) ! i =
        (if i \<in> set is then if a = new then sn_forward (h2 ! p i) ! i
           else if a = p i then Some new else sn_forward (h2 ! a) ! i
         else sn_forward (h2 ! a) ! i)" by blast
  have "same_nodes h h'"
    using set_forward_same [OF h1] set_forward_same [OF h2] h'(2) by (blast intro: same_nodes_trans)
  moreover have "skip_link new u (i # is) h = Some h'"
    using i h1 h2 h'(1) by (simp add: forward_at_Some)
  ultimately show ?case using Cons.prems(1) i(3) h'(3) by (auto simp: props)
qed simp

lemma skip_unlink_effect:
  assumes "d < length h" "j \<le> ht h d" "ht h d \<le> n"
    and "\<forall>i. j \<le> i \<and> i < n \<longrightarrow> index_update u i = Some (p i) \<and> p i \<noteq> d \<and> p i < length h \<and>
      i < ht h (p i) \<and> (sn_forward (h ! p i) ! i = Some d \<longleftrightarrow> i < ht h d)"
  shows "\<exists>h'. skip_unlink d u [j..<n] h = Some h' \<and> same_nodes h h' \<and>
      (\<forall>a i. sn_forward (h' ! a) ! i =
        (if j \<le> i \<and> i < ht h d \<and> a = p i then sn_forward (h ! d) ! i else sn_forward (h ! a) ! i))"
  using assms
proof (induction "n - j" arbitrary: h j)
  case 0
  then show ?case by (intro exI [of _ h]) auto
next
  case (Suc m)
  then have jn: "j < n" by simp
  then have j: "index_update u j = Some (p j)" "p j \<noteq> d" "p j < length h" "j < ht h (p j)"
      "sn_forward (h ! p j) ! j = Some d \<longleftrightarrow> j < ht h d"
    using Suc.prems(4) by auto
  show ?case
  proof (cases "j < ht h d")
    case False
    with j jn Suc.prems show ?thesis
      by (intro exI [of _ h]) (auto simp: upt_conv_Cons forward_at_Some)
  next
    case True
    obtain h1 where h1: "set_forward (p j) j (sn_forward (h ! d) ! j) h = Some h1"
      using set_forward_Some j by blast
    note props = set_forward_props [OF h1]
    have "\<exists>h'. skip_unlink d u [Suc j..<n] h1 = Some h' \<and> same_nodes h1 h' \<and>
      (\<forall>a i. sn_forward (h' ! a) ! i =
        (if Suc j \<le> i \<and> i < ht h1 d \<and> a = p i then sn_forward (h1 ! d) ! i else sn_forward (h1 ! a) ! i))"
      by (rule Suc.hyps(1)) (use Suc.prems Suc.hyps(2) True in \<open>auto simp: props\<close>)
    then obtain h' where h': "skip_unlink d u [Suc j..<n] h1 = Some h'" "same_nodes h1 h'"
      "\<forall>a i. sn_forward (h' ! a) ! i =
        (if Suc j \<le> i \<and> i < ht h1 d \<and> a = p i then sn_forward (h1 ! d) ! i else sn_forward (h1 ! a) ! i)"
      by blast
    have "skip_unlink d u [j..<n] h = Some h'"
      using jn j True h1 h'(1) Suc.prems(1) by (simp add: upt_conv_Cons forward_at_Some)
    moreover have "same_nodes h h'"
      using set_forward_same [OF h1] h'(2) by (rule same_nodes_trans)
    moreover have "j \<le> i \<longleftrightarrow> i = j \<or> Suc j \<le> i" for i by auto
    ultimately show ?thesis using h'(3) True j(2) by (auto simp: props)
  qed
qed

section \<open>Get\<close>

lemma find_tall:
  "\<forall>a\<in>set ys. 1 \<le> ht h a \<Longrightarrow> List.find (\<lambda>b. 0 < ht h b) ys = (case ys of [] \<Rightarrow> None | y # _ \<Rightarrow> Some y)"
  by (cases ys) auto

lemma skip_locate:
  assumes "skip_inv sl ps"
  shows "skip_seek (sl_heap sl) k (sl_level sl) 0 = Some (pred_at (sl_heap sl) (0 # keys_lt (sl_heap sl) k ps) 0)"
    and "forward_at (sl_heap sl) (pred_at (sl_heap sl) (0 # keys_lt (sl_heap sl) k ps) 0) 0 =
      Some (case keys_ge (sl_heap sl) k ps of [] \<Rightarrow> None | y # _ \<Rightarrow> Some y)"
    and "\<exists>u. skip_descend (sl_heap sl) k (sl_level sl) 0 (replicate maxLevel None) =
        Some (pred_at (sl_heap sl) (0 # keys_lt (sl_heap sl) k ps) 0, u) \<and> length u = maxLevel \<and>
        (\<forall>i < sl_level sl. u ! i = Some (pred_at (sl_heap sl) (0 # keys_lt (sl_heap sl) k ps) i))"
proof -
  note sp = skip_inv_split(1) [OF assms, of k]
  have lv: "1 \<le> sl_level sl" "sl_level sl \<le> maxLevel" "sl_level sl \<le> ht (sl_heap sl) 0"
    using assms by (auto simp: skip_inv_def)
  have e: "0 # keys_lt (sl_heap sl) k ps = [] @ 0 # keys_lt (sl_heap sl) k ps" by simp
  show "skip_seek (sl_heap sl) k (sl_level sl) 0 = Some (pred_at (sl_heap sl) (0 # keys_lt (sl_heap sl) k ps) 0)"
    using skip_seek_from [OF sp e lv(3) lv(2)] lv(1) by simp
  have m: "0 < maxLevel" by (simp add: maxLevel_def)
  have "\<forall>a\<in>set (keys_ge (sl_heap sl) k ps). 1 \<le> ht (sl_heap sl) a"
    using assms by (simp add: skip_inv_def)
  then show "forward_at (sl_heap sl) (pred_at (sl_heap sl) (0 # keys_lt (sl_heap sl) k ps) 0) 0 =
      Some (case keys_ge (sl_heap sl) k ps of [] \<Rightarrow> None | y # _ \<Rightarrow> Some y)"
    using forward_at_Some [OF pred_at_in(3,2) [OF sp m]] pred_at_forward [OF sp m]
    by (metis find_tall)
  show "\<exists>u. skip_descend (sl_heap sl) k (sl_level sl) 0 (replicate maxLevel None) =
        Some (pred_at (sl_heap sl) (0 # keys_lt (sl_heap sl) k ps) 0, u) \<and> length u = maxLevel \<and>
        (\<forall>i < sl_level sl. u ! i = Some (pred_at (sl_heap sl) (0 # keys_lt (sl_heap sl) k ps) i))"
    using skip_descend_from [OF sp e lv(3) lv(2), of "replicate maxLevel None"] lv by auto
qed

lemma keys_ge_Cons:
  assumes "sorted_wrt (\<lambda>a b. nkey h a < nkey h b) ps" "keys_ge h k ps = y # ys'"
  shows "\<forall>a\<in>set ys'. nkey h y < nkey h a" "k \<le> nkey h y"
  using sorted_keys_split [OF assms(1), of k] assms
    sorted_wrt_append [of "\<lambda>a b. nkey h a < nkey h b" "keys_lt h k ps" "y # ys'"]
    filter_eq_ConsD [OF assms(2)]
  by auto

lemma keys_ge_hd: "keys_ge h k ps = y # ys' \<Longrightarrow> y \<in> set ps"
  by (auto dest: filter_eq_ConsD)

lemma map_of_entries:
  assumes "skip_inv sl ps"
  shows "map_of (entries (sl_heap sl) ps) k =
    (case keys_ge (sl_heap sl) k ps of [] \<Rightarrow> None
     | y # _ \<Rightarrow> if nkey (sl_heap sl) y = k then sn_value (sl_heap sl ! y) else None)"
proof -
  let ?h = "sl_heap sl"
  have srt: "sorted_wrt (\<lambda>a b. nkey ?h a < nkey ?h b) ps" using assms by (simp add: skip_inv_def)
  have b: "map_of (entries ?h (keys_lt ?h k ps)) k = None"
    by (auto simp: map_of_eq_None_iff entries_def nkey_def)
  have "entries ?h ps = entries ?h (keys_lt ?h k ps) @ entries ?h (keys_ge ?h k ps)"
    using sorted_keys_split [OF srt, of k] unfolding entries_def by (metis map_append)
  then have e: "map_of (entries ?h ps) k = map_of (entries ?h (keys_ge ?h k ps)) k"
    using b by (simp add: map_add_def split: option.splits)
  show ?thesis
  proof (cases "keys_ge ?h k ps")
    case Nil
    then have "map_of (entries ?h (keys_ge ?h k ps)) k = None" by (simp only: entries_def) simp
    with Nil show ?thesis by (simp only: e) simp
  next
    case (Cons y ys')
    have "y \<in> set ps" using Cons by (rule keys_ge_hd)
    then have "sn_value (?h ! y) \<noteq> None" using assms by (simp add: skip_inv_def)
    moreover have "\<forall>a\<in>set ys'. nkey ?h a \<noteq> k" using keys_ge_Cons [OF srt Cons] by auto
    then have "map_of (entries ?h ys') k = None" by (auto simp: map_of_eq_None_iff entries_def nkey_def)
    ultimately have "map_of (entries ?h (keys_ge ?h k ps)) k =
        (if nkey ?h y = k then sn_value (?h ! y) else None)"
      unfolding Cons by (auto simp: entries_def nkey_def)
    with Cons show ?thesis by (simp only: e) simp
  qed
qed

lemma SkipList_Get_inv:
  assumes "skip_inv sl ps"
  shows "SkipList_Get k sl = Some (map_of (entries (sl_heap sl) ps) k)"
proof (cases "keys_ge (sl_heap sl) k ps")
  case Nil
  then show ?thesis
    using skip_locate(1,2) [OF assms, of k] by (simp add: SkipList_Get_def map_of_entries [OF assms])
next
  case (Cons y ys')
  then have "y \<in> set ps" by (rule keys_ge_hd)
  then have "deref (sl_heap sl) y = Some (sl_heap sl ! y)" using assms by (simp add: skip_inv_def deref_def)
  with Cons show ?thesis
    using skip_locate(1,2) [OF assms, of k]
    by (simp add: SkipList_Get_def map_of_entries [OF assms] nkey_def)
qed

section \<open>Set\<close>

lemma randomLevel_loop_bounds:
  "level \<le> maxLevel \<Longrightarrow> level \<le> fst (randomLevel_loop level r) \<and> fst (randomLevel_loop level r) \<le> maxLevel"
proof (induction level r rule: randomLevel_loop.induct)
  case (1 level r)
  then show ?case by (auto simp: randomLevel_loop.simps [of level r] dest: Suc_leD)
qed

lemma randomLevel_bounds: "1 \<le> fst (randomLevel r) \<and> fst (randomLevel r) \<le> maxLevel"
  using randomLevel_loop_bounds [of 1 r] by (simp add: randomLevel_def maxLevel_def)

text \<open>Storing a value in an existing node.\<close>

lemma skip_inv_update_value:
  assumes "skip_inv sl ps" "y \<in> set ps"
  shows "skip_inv (sl\<lparr>sl_heap := (sl_heap sl)[y := (sl_heap sl ! y)\<lparr>sn_value := Some v\<rparr>]\<rparr>) ps"
proof -
  let ?h = "sl_heap sl" and ?h' = "(sl_heap sl)[y := (sl_heap sl ! y)\<lparr>sn_value := Some v\<rparr>]"
  have y: "y < length ?h" using assms by (simp add: skip_inv_def)
  have up: "?h' ! a = (if a = y then (?h ! y)\<lparr>sn_value := Some v\<rparr> else ?h ! a)" for a
    using y by simp
  then have eq: "sn_forward (?h' ! a) = sn_forward (?h ! a)" "nkey ?h' a = nkey ?h a" "ht ?h' a = ht ?h a" for a
    by (simp_all add: nkey_def ht_def)
  have "linked ?h' as = linked ?h as" for as
    by (induction as) (simp_all add: eq)
  moreover have "\<forall>a\<in>set ps. sn_value (?h' ! a) \<noteq> None"
    using assms(1) by (auto simp: up skip_inv_def)
  ultimately show ?thesis using assms(1) by (simp add: skip_inv_def eq)
qed

lemma linked_append_iff:
  "linked h (zs @ qs) \<longleftrightarrow> (\<forall>us a ws. zs = us @ a # ws \<longrightarrow>
     (\<forall>i<ht h a. sn_forward (h ! a) ! i = List.find (\<lambda>b. i < ht h b) (ws @ qs))) \<and> linked h qs"
proof (induction zs)
  case (Cons x xs)
  have "(\<forall>us a vs. x # xs = us @ a # vs \<longrightarrow> P a vs) \<longleftrightarrow> P x xs \<and> (\<forall>us a vs. xs = us @ a # vs \<longrightarrow> P a vs)" for P
    by (metis append_Cons append_Nil list.inject neq_Nil_conv)
  then show ?case using Cons.IH by simp
qed simp

lemma linked_cong:
  assumes "\<forall>a\<in>set as. ht h' a = ht h a \<and> (\<forall>i<ht h a. sn_forward (h' ! a) ! i = sn_forward (h ! a) ! i)"
  shows "linked h' as = linked h as"
  using assms
proof (induction as)
  case (Cons a as)
  have "List.find (\<lambda>b. i < ht h' b) as = List.find (\<lambda>b. i < ht h b) as" for i
    using Cons.prems by (intro find_cong_set) auto
  with Cons show ?case by auto
qed simp

text \<open>
  The two pointer surgeries, on the heap \<open>h\<close> of a list split into \<open>zs\<close> and \<open>qs\<close>:
  redirecting the predecessors of the gap from the first tall node of \<open>qs\<close> to that of
  \<open>qs'\<close> turns \<open>zs @ qs\<close> into \<open>zs @ qs'\<close>.
\<close>

lemma linked_redirect:
  assumes lk: "linked h (zs @ qs)" and dist: "distinct zs"
    and same: "\<forall>a\<in>set zs. ht h' a = ht h a"
    and fw: "\<forall>a\<in>set zs. \<forall>i<ht h a. sn_forward (h' ! a) ! i =
        (if a = pred_at h zs i then List.find (\<lambda>b. i < ht h' b) qs' else sn_forward (h ! a) ! i)"
    and rest: "linked h' qs'"
  shows "linked h' (zs @ qs')"
proof (subst linked_append_iff, intro conjI allI impI)
  fix us a ws i
  assume zs: "zs = us @ a # ws" and i: "i < ht h' a"
  then have ih: "i < ht h a" using same by simp
  have ws: "List.find (\<lambda>b. i < ht h' b) ws = List.find (\<lambda>b. i < ht h b) ws"
    using same zs by (intro find_cong_set) auto
  have old: "sn_forward (h ! a) ! i = List.find (\<lambda>b. i < ht h b) (ws @ qs)"
    using lk zs ih linked_append_iff by blast
  have pa: "a = pred_at h zs i \<longleftrightarrow> List.find (\<lambda>b. i < ht h b) ws = None"
    using pred_at_last [of us a ws i h] dist zs ih by (auto simp: find_None_set filter_empty_conv)
  have "sn_forward (h' ! a) ! i = (if a = pred_at h zs i then List.find (\<lambda>b. i < ht h' b) qs' else sn_forward (h ! a) ! i)"
    using fw zs ih by auto
  then show "sn_forward (h' ! a) ! i = List.find (\<lambda>b. i < ht h' b) (ws @ qs')"
    using pa old by (auto simp: find_append ws split: option.splits)
qed (rule rest)

lemma fold_list_update:
  "length (fold (\<lambda>i u. u[i := x]) is u) = length u"
  "j < length u \<Longrightarrow> fold (\<lambda>i u. u[i := x]) is u ! j = (if j \<in> set is then x else u ! j)"
  by (induction "is" arbitrary: u) (auto simp: nth_list_update)

lemma linked_insert:
  assumes sp: "skip_split h k zs ys" and lvl: "lvl \<le> maxLevel"
    and sn: "same_nodes (h @ [\<lparr>sn_key = k, sn_value = Some v, sn_forward = replicate lvl None\<rparr>]) h'"
    and fw: "\<forall>a i. sn_forward (h' ! a) ! i =
        (if i < lvl then if a = length h then sn_forward (h ! pred_at h zs i) ! i
           else if a = pred_at h zs i then Some (length h)
           else sn_forward ((h @ [\<lparr>sn_key = k, sn_value = Some v, sn_forward = replicate lvl None\<rparr>]) ! a) ! i
         else sn_forward ((h @ [\<lparr>sn_key = k, sn_value = Some v, sn_forward = replicate lvl None\<rparr>]) ! a) ! i)"
  shows "linked h' (zs @ length h # ys)"
proof -
  let ?new = "length h"
  have old: "ht h' a = ht h a" "a \<noteq> ?new" if "a \<in> set (zs @ ys)" for a
    using that sn sp by (auto simp: same_nodes_def skip_split_def ht_def nth_append)
  have new: "ht h' ?new = lvl" using sn by (simp add: same_nodes_def ht_def)
  have fold': "List.find (\<lambda>b. i < ht h' b) ys = List.find (\<lambda>b. i < ht h b) ys" for i
    using old by (intro find_cong_set) auto
  have pf: "sn_forward (h ! pred_at h zs i) ! i = List.find (\<lambda>b. i < ht h b) ys" if "i < maxLevel" for i
    using pred_at_forward [OF sp that] .
  have keep: "sn_forward (h' ! a) ! i = (if i < lvl \<and> a = pred_at h zs i then Some ?new else sn_forward (h ! a) ! i)"
    if "a \<in> set (zs @ ys)" for a i
    using that fw sp by (auto simp: skip_split_def nth_append)
  have "linked h ys" using sp linked_append by (auto simp: skip_split_def)
  moreover have "sn_forward (h' ! a) ! i = sn_forward (h ! a) ! i" if "a \<in> set ys" for a i
    using keep [of a i] pred_at_in(4) [OF sp, of i] that lvl by (cases "i < lvl") auto
  then have "linked h' ys = linked h ys" using old by (intro linked_cong) auto
  ultimately have rest: "linked h' (?new # ys)"
    using new pf lvl fold' fw by simp
  have redirect: "sn_forward (h' ! a) ! i = (if a = pred_at h zs i then List.find (\<lambda>b. i < ht h' b) (?new # ys)
      else sn_forward (h ! a) ! i)" if "a \<in> set zs" "i < ht h a" for a i
  proof -
    have "ht h a \<le> maxLevel" using that(1) sp by (simp add: skip_split_def)
    with that(2) have "i < maxLevel" by simp
    from pf [OF this] keep [of a i] that(1) show ?thesis
      by (cases "a = pred_at h zs i"; cases "i < lvl") (simp_all add: new fold')
  qed
  show ?thesis
  proof (rule linked_redirect [of h zs ys])
    show "linked h (zs @ ys)" "distinct zs" using sp by (simp_all add: skip_split_def)
    show "\<forall>a\<in>set zs. ht h' a = ht h a" using old by simp
  qed (use redirect rest in blast)+
qed

definition skip_found :: "'i SkipList \<Rightarrow> nat list \<Rightarrow> string \<Rightarrow> bool" where
  "skip_found sl ps k \<longleftrightarrow>
     (case keys_ge (sl_heap sl) k ps of [] \<Rightarrow> False | y # _ \<Rightarrow> nkey (sl_heap sl) y = k)"

lemma skip_found_iff:
  assumes "skip_inv sl ps"
  shows "skip_found sl ps k \<longleftrightarrow> map_of (entries (sl_heap sl) ps) k \<noteq> None"
proof (cases "keys_ge (sl_heap sl) k ps")
  case (Cons y ys')
  then have "sn_value (sl_heap sl ! y) \<noteq> None"
    using keys_ge_hd [OF Cons] assms by (simp add: skip_inv_def)
  with Cons show ?thesis by (simp add: skip_found_def map_of_entries [OF assms])
qed (simp add: skip_found_def map_of_entries [OF assms])

lemma skip_insert_update:
  assumes inv: "skip_inv sl ps" and lvl: "lvl \<le> maxLevel"
    and u: "length u = maxLevel" "\<forall>i < sl_level sl. u ! i = Some (pred_at (sl_heap sl) (0 # keys_lt (sl_heap sl) k ps) i)"
    and i: "i < lvl"
  shows "index_update (if sl_level sl < lvl then fold (\<lambda>i u. u[i := Some 0]) [sl_level sl..<lvl] u else u) i =
    Some (pred_at (sl_heap sl) (0 # keys_lt (sl_heap sl) k ps) i)"
proof (cases "i < sl_level sl")
  case True
  with u lvl i show ?thesis by (simp add: index_update_def fold_list_update)
next
  case False
  have "filter (\<lambda>b. i < ht (sl_heap sl) b) (keys_lt (sl_heap sl) k ps) = []"
    using inv False by (auto simp: skip_inv_def filter_empty_conv)
  then have "pred_at (sl_heap sl) (0 # keys_lt (sl_heap sl) k ps) i = 0"
    using inv i lvl by (simp add: pred_at_def skip_inv_def)
  with False u lvl i show ?thesis by (simp add: index_update_def fold_list_update)
qed

lemma skip_link_insert:
  assumes sp: "skip_split h k zs ys" and lvl: "lvl \<le> maxLevel"
    and iu: "\<forall>i<lvl. index_update u i = Some (pred_at h zs i)"
    and h1: "h1 = h @ [\<lparr>sn_key = k, sn_value = Some v, sn_forward = replicate lvl None\<rparr>]"
  shows "\<exists>h'. skip_link (length h) u [0..<lvl] h1 = Some h' \<and> same_nodes h1 h' \<and> linked h' (zs @ length h # ys)"
proof -
  have p: "pred_at h zs i < length h" "i < ht h (pred_at h zs i)" if "i < lvl" for i
    using pred_at_in(2,3) [OF sp, of i] that lvl by auto
  then have p1: "pred_at h zs i \<noteq> length h" "pred_at h zs i < length h1" "i < ht h1 (pred_at h zs i)"
      "h1 ! pred_at h zs i = h ! pred_at h zs i" if "i < lvl" for i
    using that by (fastforce simp: h1 ht_def nth_append)+
  have "\<exists>h'. skip_link (length h) u [0..<lvl] h1 = Some h' \<and> same_nodes h1 h' \<and>
      (\<forall>a i. sn_forward (h' ! a) ! i =
        (if i \<in> set [0..<lvl] then if a = length h then sn_forward (h1 ! pred_at h zs i) ! i
           else if a = pred_at h zs i then Some (length h) else sn_forward (h1 ! a) ! i
         else sn_forward (h1 ! a) ! i))"
    using iu p1 by (intro skip_link_effect) (auto simp: h1 ht_def)
  then obtain h' where h': "skip_link (length h) u [0..<lvl] h1 = Some h'" "same_nodes h1 h'"
      "\<forall>a i. sn_forward (h' ! a) ! i =
        (if i < lvl then if a = length h then sn_forward (h ! pred_at h zs i) ! i
           else if a = pred_at h zs i then Some (length h) else sn_forward (h1 ! a) ! i
         else sn_forward (h1 ! a) ! i)"
    using p1(4) by auto
  with linked_insert [OF sp lvl, of v h'] show ?thesis unfolding h1 by blast
qed

lemma skip_inv_insert:
  assumes inv: "skip_inv sl ps" and nf: "\<not> skip_found sl ps k"
    and lvl: "1 \<le> lvl" "lvl \<le> maxLevel"
    and sn: "same_nodes (sl_heap sl @ [\<lparr>sn_key = k, sn_value = Some v, sn_forward = replicate lvl None\<rparr>]) h'"
    and lk: "linked h' ((0 # keys_lt (sl_heap sl) k ps) @ length (sl_heap sl) # keys_ge (sl_heap sl) k ps)"
  shows "skip_inv (sl\<lparr>sl_heap := h', sl_length := sl_length sl + 1,
      sl_level := (if sl_level sl < lvl then lvl else sl_level sl), sl_random := r\<rparr>)
    (keys_lt (sl_heap sl) k ps @ length (sl_heap sl) # keys_ge (sl_heap sl) k ps)"
proof -
  let ?h = "sl_heap sl" and ?new = "length (sl_heap sl)"
  have split: "set (keys_lt ?h k ps) \<union> set (keys_ge ?h k ps) = set ps" by auto
  have srt: "sorted_wrt (\<lambda>a b. nkey ?h a < nkey ?h b) ps" using inv by (simp add: skip_inv_def)
  have bd: "a < ?new" if "a \<in> insert 0 (set ps)" for a using that inv by (auto simp: skip_inv_def)
  have old: "nkey h' a = nkey ?h a" "ht h' a = ht ?h a" "sn_value (h' ! a) = sn_value (?h ! a)"
    if "a \<in> insert 0 (set ps)" for a
    using bd [OF that] sn by (auto simp: same_nodes_def nkey_def ht_def nth_append)
  have new: "nkey h' ?new = k" "ht h' ?new = lvl" "sn_value (h' ! ?new) = Some v" "length h' = Suc ?new"
    using sn by (auto simp: same_nodes_def nkey_def ht_def)
  have gt: "k < nkey ?h a" if "a \<in> set (keys_ge ?h k ps)" for a
  proof (cases "keys_ge ?h k ps")
    case (Cons y ys')
    with nf keys_ge_Cons [OF srt Cons] that show ?thesis by (auto simp: skip_found_def)
  qed (use that in simp)
  have "sorted_wrt (\<lambda>a b. nkey h' a < nkey h' b) (keys_lt ?h k ps @ ?new # keys_ge ?h k ps)"
  proof -
    have "sorted_wrt (\<lambda>a b. nkey h' a < nkey h' b) (filter P ps)" for P
      by (rule sorted_wrt_mono_rel [OF _ sorted_wrt_filter [OF srt]]) (simp add: old)
    moreover have "nkey h' a < k" if "a \<in> set (keys_lt ?h k ps)" for a using that old by simp
    moreover have "k < nkey h' a" if "a \<in> set (keys_ge ?h k ps)" for a using that old gt by simp
    ultimately show ?thesis using new(1) by (fastforce simp: sorted_wrt_append)
  qed
  note sorted' = this
  note D = skip_invD [OF inv]
  let ?ps = "keys_lt ?h k ps @ ?new # keys_ge ?h k ps"
  have set': "set ?ps = insert ?new (set ps)" by auto
  have len: "length (keys_lt ?h k ps) + length (keys_ge ?h k ps) = length ps"
    by (rule sum_length_filter_compl)
  have dist: "distinct (0 # ?ps)" using D(2,3,5) bd [of 0] by auto
  define sl' where "sl' = sl\<lparr>sl_heap := h', sl_length := sl_length sl + 1,
      sl_level := (if sl_level sl < lvl then lvl else sl_level sl), sl_random := r\<rparr>"
  have sl': "sl_heap sl' = h'" "sl_length sl' = sl_length sl + 1"
      "sl_level sl' = (if sl_level sl < lvl then lvl else sl_level sl)"
    by (simp_all add: sl'_def)
  have "skip_inv sl' ?ps"
  proof (rule skip_invI)
    show "linked (sl_heap sl') (0 # ?ps)" using lk sl' by simp
    show "distinct (0 # ?ps)" by (rule dist)
    show "a < length (sl_heap sl')" if "a \<in> set (0 # ?ps)" for a
      using that bd [of a] new(4) sl'(1) by auto
    show "1 \<le> ht (sl_heap sl') a \<and> ht (sl_heap sl') a \<le> sl_level sl' \<and> sn_value (sl_heap sl' ! a) \<noteq> None"
      if "a \<in> set ?ps" for a
    proof (cases "a = ?new")
      case True
      with new lvl sl' show ?thesis by simp
    next
      case False
      with that have "a \<in> set ps" by auto
      with D(9,10,11) [of a] old [of a] sl' show ?thesis by simp
    qed
    show "\<exists>a\<in>set ?ps. ht (sl_heap sl') a = sl_level sl'" if "1 < sl_level sl'"
    proof (cases "sl_level sl < lvl")
      case True
      with new(2) sl' show ?thesis by simp
    next
      case False
      with that sl'(3) D(12) obtain a where "a \<in> set ps" "ht ?h a = sl_level sl" by auto
      with False sl' old(2) [of a] set' show ?thesis by auto
    qed
    show "sorted_wrt (\<lambda>a b. nkey (sl_heap sl') a < nkey (sl_heap sl') b) ?ps" using sorted' sl'(1) by simp
  qed (use D old(2) [of 0] lvl sl' len in auto)
  then show ?thesis by (simp only: sl'_def)
qed

lemma skip_find_next:
  assumes "skip_inv sl ps"
  shows "(case (case keys_ge (sl_heap sl) k ps of [] \<Rightarrow> None | y # _ \<Rightarrow> Some y) of None \<Rightarrow> Some False
          | Some a \<Rightarrow> do { n \<leftarrow> deref (sl_heap sl) a; Some (sn_key n = k) }) = Some (skip_found sl ps k)"
proof (cases "keys_ge (sl_heap sl) k ps")
  case (Cons y ys')
  then have "deref (sl_heap sl) y = Some (sl_heap sl ! y)"
    using keys_ge_hd [OF Cons] skip_invD(5) [OF assms] by (simp add: deref_def)
  with Cons show ?thesis by (simp add: skip_found_def nkey_def)
qed (simp add: skip_found_def)

lemma SkipList_Set_new:
  assumes inv: "skip_inv sl ps" and nf: "\<not> skip_found sl ps k"
  defines "h \<equiv> sl_heap sl"
  shows "\<exists>sl' lvl. SkipList_Set k v sl = Some sl' \<and>
    skip_inv sl' (keys_lt h k ps @ length h # keys_ge h k ps) \<and>
    same_nodes (h @ [\<lparr>sn_key = k, sn_value = Some v, sn_forward = replicate lvl None\<rparr>]) (sl_heap sl')"
proof -
  let ?zs = "0 # keys_lt h k ps" and ?ys = "keys_ge h k ps"
  obtain lvl r where lr: "randomLevel (sl_random sl) = (lvl, r)" by force
  then have lvl: "1 \<le> lvl" "lvl \<le> maxLevel" using randomLevel_bounds [of "sl_random sl"] by auto
  obtain u where u: "skip_descend h k (sl_level sl) 0 (replicate maxLevel None) = Some (pred_at h ?zs 0, u)"
      "length u = maxLevel" "\<forall>i < sl_level sl. u ! i = Some (pred_at h ?zs i)"
    using skip_locate(3) [OF inv, of k] unfolding h_def by blast
  define u' where "u' = (if sl_level sl < lvl then fold (\<lambda>i u. u[i := Some 0]) [sl_level sl..<lvl] u else u)"
  have "\<forall>i<lvl. index_update u' i = Some (pred_at h ?zs i)"
    using skip_insert_update [OF inv lvl(2) u(2) u(3)[unfolded h_def]] by (simp add: u'_def h_def)
  from skip_link_insert [OF skip_inv_split(1) [OF inv, of k, folded h_def] lvl(2) this refl, of v]
  obtain h' where h': "skip_link (length h) u' [0..<lvl]
        (h @ [\<lparr>sn_key = k, sn_value = Some v, sn_forward = replicate lvl None\<rparr>]) = Some h'"
      "same_nodes (h @ [\<lparr>sn_key = k, sn_value = Some v, sn_forward = replicate lvl None\<rparr>]) h'"
      "linked h' (?zs @ length h # ?ys)" by blast
  have "SkipList_Set k v sl = Some (sl\<lparr>sl_heap := h', sl_length := sl_length sl + 1,
      sl_level := (if sl_level sl < lvl then lvl else sl_level sl), sl_random := r\<rparr>)"
    using u(1) skip_locate(2) [OF inv, of k] skip_find_next [OF inv, of k] nf lr h'(1)
    by (simp add: SkipList_Set_def h_def u'_def)
  with skip_inv_insert [OF inv nf lvl h'(2)[unfolded h_def] h'(3)[unfolded h_def], of r] h'(2)
  show ?thesis by (auto simp: h_def)
qed

lemma entries_same_nodes:
  "same_nodes h h' \<Longrightarrow> entries h' ps = entries h ps"
  by (simp add: entries_def same_nodes_def)

lemma entries_filter:
  "entries h (filter (\<lambda>a. P (nkey h a)) ps) = filter (\<lambda>e. P (fst e)) (entries h ps)"
  by (induction ps) (auto simp: entries_def nkey_def)

lemmas entries_keys =
  entries_filter [where P = "\<lambda>x. x < k" for k] entries_filter [where P = "\<lambda>x. k < x" for k]
  entries_filter [where P = "\<lambda>x. x \<noteq> k" for k]

lemma entries_prefix_heap: "\<forall>a\<in>set ps. a < length h \<Longrightarrow> entries (h @ hs) ps = entries h ps"
  by (auto simp: entries_def nth_append)

lemma entries_Cons [simp]: "entries h (a # qs) = (nkey h a, the (sn_value (h ! a))) # entries h qs"
  by (simp add: entries_def nkey_def)

lemma entries_append [simp]: "entries h (ps @ qs) = entries h ps @ entries h qs"
  by (simp add: entries_def)

lemma not_found_keys: "skip_inv sl ps \<Longrightarrow> \<not> skip_found sl ps k \<Longrightarrow> a \<in> set ps \<Longrightarrow> nkey (sl_heap sl) a \<noteq> k"
  by (force simp: skip_found_iff map_of_eq_None_iff entries_def nkey_def)

lemma SkipList_Set_rep_new:
  assumes inv: "skip_inv sl ps" and nf: "\<not> skip_found sl ps k"
  shows "\<exists>sl'. SkipList_Set k v sl = Some sl' \<and> skip_rep sl' (sorted_set k v (entries (sl_heap sl) ps))"
proof -
  let ?h = "sl_heap sl"
  obtain sl' lvl where sl': "SkipList_Set k v sl = Some sl'"
      "skip_inv sl' (keys_lt ?h k ps @ length ?h # keys_ge ?h k ps)"
      "same_nodes (?h @ [\<lparr>sn_key = k, sn_value = Some v, sn_forward = replicate lvl None\<rparr>]) (sl_heap sl')"
    using SkipList_Set_new [OF inv nf] by blast
  have new: "nkey (sl_heap sl') (length ?h) = k" "sn_value (sl_heap sl' ! length ?h) = Some v"
    using sl'(3) by (simp_all add: same_nodes_def nkey_def)
  have "keys_ge ?h k ps = filter (\<lambda>a. k < nkey ?h a) ps"
    using not_found_keys [OF inv nf] by (intro filter_cong refl) (metis not_less_iff_gr_or_eq)
  moreover have "entries (?h @ [n]) (filter P ps) = entries ?h (filter P ps)" for P n
    using skip_invD(5) [OF inv] by (intro entries_prefix_heap) auto
  ultimately have "entries (sl_heap sl') (keys_lt ?h k ps @ length ?h # keys_ge ?h k ps) =
      sorted_set k v (entries ?h ps)"
    using new by (simp add: entries_same_nodes [OF sl'(3)] sorted_set_def entries_keys)
  with sl' show ?thesis by (auto simp: skip_rep_def intro: exI)
qed

lemma SkipList_Set_rep_old:
  assumes inv: "skip_inv sl ps" and f: "skip_found sl ps k"
  shows "\<exists>sl'. SkipList_Set k v sl = Some sl' \<and> skip_rep sl' (sorted_set k v (entries (sl_heap sl) ps))"
proof -
  let ?h = "sl_heap sl"
  obtain y ys' where y: "keys_ge ?h k ps = y # ys'" "nkey ?h y = k"
    using f by (auto simp: skip_found_def split: list.splits)
  have yp: "y \<in> set ps" using y(1) by (rule keys_ge_hd)
  note srt = skip_invD(13) [OF inv]
  let ?h' = "?h[y := (?h ! y)\<lparr>sn_value := Some v\<rparr>]"
  have set: "SkipList_Set k v sl = Some (sl\<lparr>sl_heap := ?h'\<rparr>)"
    using skip_locate(2,3) [OF inv, of k] skip_find_next [OF inv, of k] f y(1)
    by (auto simp: SkipList_Set_def)
  have ps: "ps = keys_lt ?h k ps @ y # ys'" using sorted_keys_split [OF srt, of k] y(1) by simp
  have "ys' = filter (\<lambda>a. k < nkey ?h a) (keys_ge ?h k ps)"
    using y keys_ge_Cons(1) [OF srt y(1)] by simp
  also have "\<dots> = filter (\<lambda>a. k < nkey ?h a) ps" by (auto intro: filter_cong simp: conj_commute)
  finally have ys': "ys' = filter (\<lambda>a. k < nkey ?h a) ps" .
  have keep: "entries ?h' qs = entries ?h qs" if "y \<notin> set qs" for qs
    unfolding entries_def using that by (intro map_cong refl) (metis nth_list_update_neq)
  have "y \<notin> set ys'" "y \<notin> set (keys_lt ?h k ps)" using skip_invD(2) [OF inv] ps y(2) by (metis distinct_append distinct.simps(2), simp)
  then have "entries ?h' ps = entries ?h (keys_lt ?h k ps) @ (k, v) # entries ?h ys'"
    using skip_invD(5) [OF inv yp] y(2) by (subst ps) (simp add: keep nkey_def)
  also have "\<dots> = sorted_set k v (entries ?h ps)"
    by (simp add: sorted_set_def entries_keys ys')
  finally show ?thesis using set skip_inv_update_value [OF inv yp, of v] by (auto simp: skip_rep_def intro!: exI [of _ ps])
qed

lemma SkipList_Set_refines:
  assumes "skip_rep sl es"
  shows "\<exists>sl'. SkipList_Set k v sl = Some sl' \<and> skip_rep sl' (sorted_set k v es)"
proof -
  obtain ps where ps: "skip_inv sl ps" "es = entries (sl_heap sl) ps" using assms by (auto simp: skip_rep_def)
  then show ?thesis
    using SkipList_Set_rep_new [OF ps(1), of k v] SkipList_Set_rep_old [OF ps(1), of k v] by blast
qed

lemma SkipList_Get_refines: "skip_rep sl es \<Longrightarrow> SkipList_Get k sl = Some (map_of es k)"
  using SkipList_Get_inv unfolding skip_rep_def by blast

section \<open>Delete\<close>

lemma linked_remove:
  assumes sp: "skip_split h k zs (d # ys)" and sn: "same_nodes h h'"
    and fw: "\<forall>a i. sn_forward (h' ! a) ! i =
        (if i < ht h d \<and> a = pred_at h zs i then sn_forward (h ! d) ! i else sn_forward (h ! a) ! i)"
  shows "linked h' (zs @ ys)"
proof (rule linked_redirect [of h zs "d # ys"])
  have lk: "linked h (d # ys)" using sp linked_append [of h zs "d # ys"] unfolding skip_split_def by blast
  have ht': "ht h' a = ht h a" for a using sn by (simp add: same_nodes_def)
  show "linked h (zs @ d # ys)" "distinct zs" using sp by (simp_all add: skip_split_def)
  show "\<forall>a\<in>set zs. ht h' a = ht h a" using ht' by simp
  have "pred_at h zs i \<notin> set (d # ys)" if "i < ht h d" for i
    using pred_at_in(4) [OF sp, of i] that sp by (auto simp: skip_split_def)
  then have "sn_forward (h' ! a) ! i = sn_forward (h ! a) ! i" if "a \<in> set ys" for a i
    using fw that by auto
  then show "linked h' ys" using linked_cong [of ys h' h] ht' lk by auto
  show "\<forall>a\<in>set zs. \<forall>i<ht h a. sn_forward (h' ! a) ! i =
      (if a = pred_at h zs i then List.find (\<lambda>b. i < ht h' b) ys else sn_forward (h ! a) ! i)"
  proof (intro ballI allI impI)
    fix a i assume a: "a \<in> set zs" "i < ht h a"
    then have "i < maxLevel" using sp by (auto simp: skip_split_def dest: less_le_trans)
    from pred_at_forward [OF sp this] lk fw
    show "sn_forward (h' ! a) ! i =
        (if a = pred_at h zs i then List.find (\<lambda>b. i < ht h' b) ys else sn_forward (h ! a) ! i)"
      by (simp add: ht')
  qed
qed

lemma shrink_level_spec:
  assumes "0 < length h" "ht h 0 = maxLevel" "l \<le> maxLevel" "1 \<le> l"
  shows "\<exists>l'. shrink_level h l = Some l' \<and> 1 \<le> l' \<and> l' \<le> l \<and>
    (1 < l' \<longrightarrow> sn_forward (h ! 0) ! (l' - 1) \<noteq> None) \<and> (\<forall>i. l' \<le> i \<and> i < l \<longrightarrow> sn_forward (h ! 0) ! i = None)"
  using assms
proof (induction l)
  case (Suc l)
  then have fw: "forward_at h 0 l = Some (sn_forward (h ! 0) ! l)"
    by (intro forward_at_Some) auto
  show ?case
  proof (cases "l = 0 \<or> sn_forward (h ! 0) ! l \<noteq> None")
    case True
    then show ?thesis by (intro exI [of _ "Suc l"]) (auto simp: fw)
  next
    case False
    with Suc obtain l' where "shrink_level h l = Some l'" "1 \<le> l'" "l' \<le> l"
        "1 < l' \<longrightarrow> sn_forward (h ! 0) ! (l' - 1) \<noteq> None"
        "\<forall>i. l' \<le> i \<and> i < l \<longrightarrow> sn_forward (h ! 0) ! i = None" by auto
    with False fw show ?thesis by (intro exI [of _ l']) (auto simp: less_Suc_eq)
  qed
qed simp

lemma skip_unlink_remove:
  assumes sp: "skip_split h k zs (d # ys)" and n: "ht h d \<le> n" "n \<le> maxLevel"
    and u: "\<forall>i<n. index_update u i = Some (pred_at h zs i)"
  shows "\<exists>h'. skip_unlink d u [0..<n] h = Some h' \<and> same_nodes h h' \<and> linked h' (zs @ ys)"
proof -
  have "index_update u i = Some (pred_at h zs i) \<and> pred_at h zs i \<noteq> d \<and> pred_at h zs i < length h \<and>
      i < ht h (pred_at h zs i) \<and> (sn_forward (h ! pred_at h zs i) ! i = Some d \<longleftrightarrow> i < ht h d)" if "i < n" for i
  proof -
    have "i < maxLevel" using that n by simp
    moreover have "List.find (\<lambda>b. i < ht h b) ys \<noteq> Some d"
      using sp find_in_set [of _ ys d] by (auto simp: skip_split_def)
    ultimately show ?thesis
      using pred_at_in [OF sp, of i] pred_at_forward [OF sp, of i] u that by auto
  qed
  moreover have "d < length h" using sp by (simp add: skip_split_def)
  ultimately have "\<exists>h'. skip_unlink d u [0..<n] h = Some h' \<and> same_nodes h h' \<and>
      (\<forall>a i. sn_forward (h' ! a) ! i =
        (if 0 \<le> i \<and> i < ht h d \<and> a = pred_at h zs i then sn_forward (h ! d) ! i else sn_forward (h ! a) ! i))"
    using n(1) by (intro skip_unlink_effect) auto
  with linked_remove [OF sp] show ?thesis by force
qed

lemma skip_inv_remove:
  assumes inv: "skip_inv sl ps" and k: "keys_ge (sl_heap sl) k ps = d # ys"
    and sn: "same_nodes (sl_heap sl) h'"
    and lk: "linked h' ((0 # keys_lt (sl_heap sl) k ps) @ ys)"
  shows "\<exists>l. shrink_level h' (sl_level sl) = Some l \<and>
    skip_inv (sl\<lparr>sl_heap := h', sl_level := l, sl_length := sl_length sl - 1\<rparr>) (keys_lt (sl_heap sl) k ps @ ys)"
proof -
  let ?ps = "keys_lt (sl_heap sl) k ps @ ys"
  note D = skip_invD [OF inv]
  have ps: "ps = keys_lt (sl_heap sl) k ps @ d # ys" using sorted_keys_split [OF D(13), of k] k by simp
  have sub: "set ?ps \<subseteq> set ps" by (subst (2) ps) auto
  have dist: "distinct (0 # ?ps)"
    using D(2,3) sub arg_cong [OF ps, of distinct] by auto
  have len: "length ps = Suc (length ?ps)" by (subst ps) simp
  have same: "length h' = length (sl_heap sl)" "nkey h' a = nkey (sl_heap sl) a"
      "ht h' a = ht (sl_heap sl) a" "sn_value (h' ! a) = sn_value (sl_heap sl ! a)" for a
    using sn by (simp_all add: same_nodes_def nkey_def)
  obtain l where l: "shrink_level h' (sl_level sl) = Some l" "1 \<le> l" "l \<le> sl_level sl"
      "1 < l \<longrightarrow> sn_forward (h' ! 0) ! (l - 1) \<noteq> None"
      "\<forall>i. l \<le> i \<and> i < sl_level sl \<longrightarrow> sn_forward (h' ! 0) ! i = None"
    using shrink_level_spec [of h' "sl_level sl"] D(4,6,7,8) same by auto
  have fw0: "sn_forward (h' ! 0) ! i = List.find (\<lambda>b. i < ht h' b) ?ps" if "i < maxLevel" for i
    using lk that D(6) same by simp
  have tall: "ht h' a \<le> l" if "a \<in> set ?ps" for a
  proof (rule ccontr)
    assume "\<not> ht h' a \<le> l"
    then have "l < sl_level sl" using D(10) [of a] that sub same(3) [of a] by auto
    with l(5) fw0 [of l] D(8) have "List.find (\<lambda>b. l < ht h' b) ?ps = None" by simp
    then have "\<forall>b\<in>set ?ps. \<not> l < ht h' b" by (simp only: find_None_set)
    with that \<open>\<not> ht h' a \<le> l\<close> show False by (meson not_le_imp_less)
  qed
  have top: "\<exists>a\<in>set ?ps. ht h' a = l" if "1 < l"
  proof -
    have "sn_forward (h' ! 0) ! (l - 1) \<noteq> None" using l(4) that by blast
    moreover have "l - 1 < maxLevel" using l(3) D(8) that by linarith
    ultimately obtain a where "List.find (\<lambda>b. l - 1 < ht h' b) ?ps = Some a"
      using fw0 [of "l - 1"] by (metis not_Some_eq)
    with find_in_set [OF this] tall [of a] that show ?thesis by (intro bexI [of _ a]) auto
  qed
  have "sorted_wrt (\<lambda>a b. nkey h' a < nkey h' b) ?ps"
    using D(13) same(2) by (subst (asm) ps) (auto simp: sorted_wrt_append)
  note sorted' = this
  define sl' where "sl' = sl\<lparr>sl_heap := h', sl_level := l, sl_length := sl_length sl - 1\<rparr>"
  then have sl': "sl_heap sl' = h'" "sl_level sl' = l" "sl_length sl' = sl_length sl - 1" by simp_all
  have "skip_inv sl' ?ps"
  proof (rule skip_invI, unfold sl')
    show "linked h' (0 # ?ps)" using lk by simp
    show "distinct (0 # ?ps)" by (rule dist)
    show "1 \<le> ht h' a \<and> ht h' a \<le> l \<and> sn_value (h' ! a) \<noteq> None" if "a \<in> set ?ps" for a
      using tall [OF that] that sub D(9,11) [of a] same(3,4) [of a] by auto
    show "a < length h'" if "a \<in> set (0 # ?ps)" for a using that sub D(4) D(5) [of a] same(1) by auto
  qed (use sorted' top D same l len in simp_all)
  with l(1) show ?thesis by (auto simp: sl'_def)
qed

lemma SkipList_Delete_found:
  assumes inv: "skip_inv sl ps" and f: "skip_found sl ps k"
  shows "\<exists>sl'. SkipList_Delete k sl = Some (True, sl') \<and> skip_rep sl' (sorted_del k (entries (sl_heap sl) ps))"
proof -
  let ?h = "sl_heap sl"
  obtain y ys' where y: "keys_ge ?h k ps = y # ys'" "nkey ?h y = k"
    using f by (auto simp: skip_found_def split: list.splits)
  have yp: "y \<in> set ps" using y(1) by (rule keys_ge_hd)
  note D = skip_invD [OF inv]
  obtain u where u: "skip_descend ?h k (sl_level sl) 0 (replicate maxLevel None) = Some (pred_at ?h (0 # keys_lt ?h k ps) 0, u)"
      "length u = maxLevel" "\<forall>i < sl_level sl. u ! i = Some (pred_at ?h (0 # keys_lt ?h k ps) i)"
    using skip_locate(3) [OF inv, of k] by blast
  have "\<forall>i < sl_level sl. index_update u i = Some (pred_at ?h (0 # keys_lt ?h k ps) i)"
    using u(2,3) D(8) by (simp add: index_update_def)
  then obtain h' where h': "skip_unlink y u [0..< sl_level sl] ?h = Some h'" "same_nodes ?h h'"
      "linked h' ((0 # keys_lt ?h k ps) @ ys')"
    using skip_unlink_remove [OF skip_inv_split(1) [OF inv, of k, unfolded y(1)] D(10) [OF yp] D(8)] by blast
  obtain l where l: "shrink_level h' (sl_level sl) = Some l"
      "skip_inv (sl\<lparr>sl_heap := h', sl_level := l, sl_length := sl_length sl - 1\<rparr>) (keys_lt ?h k ps @ ys')"
    using skip_inv_remove [OF inv y(1) h'(2,3)] by blast
  have ps: "ps = keys_lt ?h k ps @ y # ys'" using sorted_keys_split [OF D(13), of k] y(1) by simp
  have "filter (\<lambda>a. nkey ?h a \<noteq> k) (keys_lt ?h k ps) = keys_lt ?h k ps"
    by (rule filter_True) auto
  moreover have "filter (\<lambda>a. nkey ?h a \<noteq> k) ys' = ys'"
    using keys_ge_Cons(1) [OF D(13) y(1)] y(2) by (auto simp: filter_id_conv)
  ultimately have "filter (\<lambda>a. nkey ?h a \<noteq> k) ps = keys_lt ?h k ps @ ys'"
    using y(2) by (subst ps) simp
  then have "entries h' (keys_lt ?h k ps @ ys') = sorted_del k (entries ?h ps)"
    by (metis entries_keys(3) entries_same_nodes h'(2) sorted_del_def)
  moreover have "SkipList_Delete k sl =
      Some (True, sl\<lparr>sl_heap := h', sl_level := l, sl_length := sl_length sl - 1\<rparr>)"
    using u(1) skip_locate(2) [OF inv, of k] skip_find_next [OF inv, of k] f y(1) h'(1) l(1)
    by (simp add: SkipList_Delete_def)
  ultimately show ?thesis using l(2) by (force simp: skip_rep_def)
qed

lemma SkipList_Delete_refines:
  assumes "skip_rep sl es"
  shows "\<exists>sl'. SkipList_Delete k sl = Some (map_of es k \<noteq> None, sl') \<and> skip_rep sl' (sorted_del k es)"
proof -
  obtain ps where ps: "skip_inv sl ps" "es = entries (sl_heap sl) ps" using assms by (auto simp: skip_rep_def)
  show ?thesis
  proof (cases "skip_found sl ps k")
    case True
    then show ?thesis using SkipList_Delete_found [OF ps(1) True] ps skip_found_iff [OF ps(1), of k] by simp
  next
    case False
    have "SkipList_Delete k sl = Some (False, sl)"
      using skip_locate(2,3) [OF ps(1), of k] skip_find_next [OF ps(1), of k] False
      by (auto simp: SkipList_Delete_def)
    moreover have none: "map_of es k = None" using False skip_found_iff [OF ps(1), of k] ps(2) by simp
    then have "sorted_del k es = es"
      by (auto simp: sorted_del_def filter_id_conv map_of_eq_None_iff)
    ultimately show ?thesis using assms none by simp
  qed
qed

section \<open>Iteration\<close>

lemma linked_next:
  assumes "linked h (a # as)" "a < length h" "\<forall>b\<in>set (a # as). 1 \<le> ht h b"
  shows "forward_at h a 0 = Some (case as of [] \<Rightarrow> None | b # _ \<Rightarrow> Some b)"
  using assms forward_at_linked [OF assms(1,2), of 0] find_tall [of as h] by auto

lemma foreach_loop_linked:
  assumes "linked h as" "\<forall>a\<in>set as. a < length h \<and> 1 \<le> ht h a \<and> sn_value (h ! a) \<noteq> None"
  shows "foreach_loop h visit (case as of [] \<Rightarrow> None | a # _ \<Rightarrow> Some a) s = Some (visit_while visit (entries h as) s)"
  using assms
proof (induction as arbitrary: s)
  case Nil
  then show ?case by (simp add: foreach_loop.simps entries_def)
next
  case (Cons a as)
  then have "forward_at h a 0 = Some (case as of [] \<Rightarrow> None | b # _ \<Rightarrow> Some b)"
    by (intro linked_next) auto
  with Cons show ?case by (subst foreach_loop.simps) (auto simp: deref_def nkey_def)
qed

lemma SkipList_ForEach_refines:
  assumes "skip_rep sl es"
  shows "SkipList_ForEach visit sl s = Some (visit_while visit es s)"
proof -
  obtain ps where ps: "skip_inv sl ps" "es = entries (sl_heap sl) ps" using assms by (auto simp: skip_rep_def)
  note D = skip_invD [OF ps(1)]
  have "forward_at (sl_heap sl) 0 0 = Some (case ps of [] \<Rightarrow> None | b # _ \<Rightarrow> Some b)"
    using D by (intro linked_next) (auto simp: maxLevel_def)
  moreover have "linked (sl_heap sl) ps" using D(1) by simp
  ultimately show ?thesis
    using D ps(2) by (simp add: SkipList_ForEach_def foreach_loop_linked)
qed

definition range_entries :: "string \<Rightarrow> string \<Rightarrow> int \<Rightarrow> (string \<times> 'i) list \<Rightarrow> (string \<times> 'i) list" where
  "range_entries startKey endKey limit es =
     (let r = filter (\<lambda>e. startKey \<le> fst e \<and> (endKey = '''' \<or> fst e \<le> endKey)) es
      in if limit \<le> 0 then r else take (nat limit) r)"

text \<open>What the loop of \<open>Range\<close> has still to visit after \<open>count\<close> steps.\<close>

definition range_rest :: "string \<Rightarrow> int \<Rightarrow> int \<Rightarrow> (string \<times> 'i) list \<Rightarrow> (string \<times> 'i) list" where
  "range_rest endKey limit count es =
     (let r = filter (\<lambda>e. endKey = '''' \<or> fst e \<le> endKey) es
      in if limit \<le> 0 then r else take (nat (limit - count)) r)"

lemma range_rest_Nil [simp]: "range_rest endKey limit count [] = []"
  by (simp add: range_rest_def)

lemma range_rest_stop:
  assumes "\<forall>e\<in>set es. k < fst e" "\<not> ((endKey = '''' \<or> k \<le> endKey) \<and> (limit \<le> 0 \<or> count < limit))"
  shows "range_rest endKey limit count ((k, v) # es) = []"
proof (cases "endKey = '''' \<or> k \<le> endKey")
  case True
  with assms(2) show ?thesis by (simp add: range_rest_def Let_def)
next
  case False
  with assms(1) have "filter (\<lambda>e. endKey = '''' \<or> fst e \<le> endKey) ((k, v) # es) = []"
    by (auto simp: filter_empty_conv)
  then show ?thesis by (simp add: range_rest_def)
qed

lemma range_rest_step:
  assumes "endKey = '''' \<or> k \<le> endKey" "limit \<le> 0 \<or> count < limit"
  shows "range_rest endKey limit count ((k, v) # es) = (k, v) # range_rest endKey limit (count + 1) es"
proof -
  have "nat (limit - count) = Suc (nat (limit - (count + 1)))" if "\<not> limit \<le> 0" using assms(2) that by simp
  with assms(1) show ?thesis by (simp add: range_rest_def Let_def)
qed

lemma range_loop_linked:
  assumes "linked h as" "\<forall>a\<in>set as. a < length h \<and> 1 \<le> ht h a \<and> sn_value (h ! a) \<noteq> None"
    and "sorted_wrt (\<lambda>a b. nkey h a < nkey h b) as"
  shows "range_loop h endKey limit visit count (case as of [] \<Rightarrow> None | a # _ \<Rightarrow> Some a) s =
    Some (visit_while visit (range_rest endKey limit count (entries h as)) s)"
  using assms
proof (induction as arbitrary: s count)
  case Nil
  then show ?case by (simp add: range_loop.simps entries_def)
next
  case (Cons a as)
  then have fw: "forward_at h a 0 = Some (case as of [] \<Rightarrow> None | b # _ \<Rightarrow> Some b)"
    by (intro linked_next) auto
  have a: "deref h a = Some (h ! a)" "sn_key (h ! a) = nkey h a" using Cons.prems by (auto simp: deref_def nkey_def)
  obtain v where v: "sn_value (h ! a) = Some v" using Cons.prems by auto
  have gt: "\<forall>e\<in>set (entries h as). nkey h a < fst e" using Cons.prems(3) by (auto simp: entries_def nkey_def)
  have IH: "range_loop h endKey limit visit (count + 1) (case as of [] \<Rightarrow> None | a # _ \<Rightarrow> Some a) s' =
      Some (visit_while visit (range_rest endKey limit (count + 1) (entries h as)) s')" for s'
    using Cons by simp
  show ?case
  proof (cases "(endKey = '''' \<or> nkey h a \<le> endKey) \<and> (limit \<le> 0 \<or> count < limit)")
    case True
    then show ?thesis
      using fw a v IH by (subst range_loop.simps) (simp add: range_rest_step)
  next
    case False
    then show ?thesis
      using a v range_rest_stop [OF gt False, of v] by (subst range_loop.simps) auto
  qed
qed

lemma SkipList_Range_refines:
  assumes "skip_rep sl es"
  shows "SkipList_Range startKey endKey limit visit sl s =
    Some (visit_while visit (range_entries startKey endKey limit es) s)"
proof -
  obtain ps where ps: "skip_inv sl ps" "es = entries (sl_heap sl) ps" using assms by (auto simp: skip_rep_def)
  let ?h = "sl_heap sl" and ?ge = "keys_ge (sl_heap sl) startKey ps"
  note D = skip_invD [OF ps(1)]
  have "linked ?h ?ge"
    using D(1) skip_inv_split(2) [OF ps(1), of startKey] linked_append [of ?h "0 # keys_lt ?h startKey ps" ?ge] by simp
  moreover have "sorted_wrt (\<lambda>a b. nkey ?h a < nkey ?h b) ?ge" using D(13) by (rule sorted_wrt_filter)
  ultimately have "range_loop ?h endKey limit visit 0 (case ?ge of [] \<Rightarrow> None | a # _ \<Rightarrow> Some a) s =
      Some (visit_while visit (range_rest endKey limit 0 (entries ?h ?ge)) s)"
    using D by (intro range_loop_linked) auto
  moreover have "range_rest endKey limit 0 (entries ?h ?ge) = range_entries startKey endKey limit es"
    using entries_filter [of ?h "\<lambda>x. \<not> x < startKey" ps]
    by (simp add: range_rest_def range_entries_def ps(2) Let_def not_less conj_commute)
  ultimately show ?thesis
    using skip_locate(1,2) [OF ps(1), of startKey] by (simp add: SkipList_Range_def)
qed

section \<open>The skip list as a map\<close>

lemma skip_rep_new: "skip_rep (newSkipList r) []"
  unfolding skip_rep_def
  by (rule exI [of _ "[]"]) (simp add: skip_inv_def newSkipList_def entries_def ht_def maxLevel_def)

lemma skip_rep_sorted:
  assumes "skip_rep sl es"
  shows "sorted_wrt (<) (map fst es)" "distinct (map fst es)"
proof -
  obtain ps where ps: "skip_inv sl ps" "es = entries (sl_heap sl) ps" using assms by (auto simp: skip_rep_def)
  from skip_invD(13) [OF ps(1)] show "sorted_wrt (<) (map fst es)"
    by (simp add: ps(2) entries_def nkey_def sorted_wrt_map)
  then show "distinct (map fst es)" by (simp add: strict_sorted_iff)
qed

lemma skip_rep_length: "skip_rep sl es \<Longrightarrow> SkipList_Len sl = int (length es)"
  by (auto simp: skip_rep_def SkipList_Len_def skip_inv_def entries_def)

lemma map_of_filter_key: "map_of (filter (\<lambda>e. P (fst e)) es) x = (if P x then map_of es x else None)"
  by (induction es) auto

lemmas map_of_filter_less =
  map_of_filter_key [where P = "\<lambda>x. x < k" for k] map_of_filter_key [where P = "\<lambda>x. k < x" for k]

lemma map_of_sorted_set: "map_of (sorted_set k v es) = (map_of es)(k \<mapsto> v)"
proof (rule ext)
  fix x
  show "map_of (sorted_set k v es) x = ((map_of es)(k \<mapsto> v)) x"
    by (cases x k rule: linorder_cases)
      (auto simp: sorted_set_def map_add_def map_of_filter_less split: option.splits)
qed

lemma map_of_sorted_del: "map_of (sorted_del k es) = (map_of es)(k := None)"
  by (induction es) (auto simp: sorted_del_def fun_eq_iff)

definition skip_map :: "'i SkipList \<Rightarrow> (string \<rightharpoonup> 'i) \<Rightarrow> bool" where
  "skip_map sl m \<longleftrightarrow> (\<exists>es. skip_rep sl es \<and> m = map_of es)"

interpretation skip: kv_store skip_map SkipList_Get SkipList_Set SkipList_Delete
proof
  fix sl :: "'a SkipList" and m k v
  assume "skip_map sl m"
  then obtain es where es: "skip_rep sl es" "m = map_of es" by (auto simp: skip_map_def)
  show "SkipList_Get k sl = Some (m k)" using SkipList_Get_refines es by simp
  show "\<exists>s'. SkipList_Set k v sl = Some s' \<and> skip_map s' (m(k \<mapsto> v))"
    using SkipList_Set_refines [OF es(1), of k v] es(2) by (auto simp: skip_map_def map_of_sorted_set [symmetric])
  show "\<exists>s'. SkipList_Delete k sl = Some (m k \<noteq> None, s') \<and> skip_map s' (m(k := None))"
    using SkipList_Delete_refines [OF es(1), of k] es(2) by (auto simp: skip_map_def map_of_sorted_del [symmetric])
qed

lemma skip_map_new: "skip_map (newSkipList r) Map.empty"
  using skip_rep_new by (force simp: skip_map_def)

lemma skip_map_Len:
  assumes "skip_map sl m"
  shows "SkipList_Len sl = int (card (dom m))"
proof -
  obtain es where "skip_rep sl es" "m = map_of es" using assms by (auto simp: skip_map_def)
  then show ?thesis
    using skip_rep_length [of sl es] skip_rep_sorted(2) [of sl es] length_gomap_card [of es]
    by (simp add: wf_gomap_def)
qed

section \<open>Properties\<close>

text \<open>C1. Starting from the list that \<open>newSkipList\<close> builds, whatever levels the random generator
  draws, every sequence of \<open>Set\<close> and \<open>Delete\<close> calls returns (no loop runs forever, no
  nil pointer and no index out of range), \<open>Get\<close> then answers every key as the finite map with
  the same updates does, and \<open>Len\<close> is the number of keys of that map.\<close>

theorem skiplist_run_correct:
  "\<exists>sl. kv_run SkipList_Set SkipList_Delete ops (newSkipList r) = Some sl \<and>
     (\<forall>k. SkipList_Get k sl = Some (fold kv_spec ops Map.empty k)) \<and>
     SkipList_Len sl = int (card (dom (fold kv_spec ops Map.empty)))"
proof -
  obtain sl where "kv_run SkipList_Set SkipList_Delete ops (newSkipList r) = Some sl"
      "skip_map sl (fold kv_spec ops Map.empty)"
    using skip.run_refines [OF skip_map_new] by blast
  then show ?thesis using skip.load_law skip_map_Len by blast
qed

text \<open>On every well-formed skip list \<open>Range\<close> returns and hands the visitor exactly the entries
  whose keys lie between \<open>startKey\<close> and \<open>endKey\<close> (no upper bound when \<open>endKey\<close> is empty), in
  increasing key order, each once, at most \<open>limit\<close> of them when \<open>limit\<close> is positive, and stops
  at the first call of the visitor that returns false.\<close>

theorem skiplist_range_correct:
  assumes "skip_rep sl es"
  shows "SkipList_Range startKey endKey limit visit sl s =
      Some (visit_while visit (range_entries startKey endKey limit es) s) \<and>
    sorted_wrt (<) (map fst (range_entries startKey endKey limit es)) \<and>
    set (range_entries startKey endKey 0 es) = {e \<in> set es. startKey \<le> fst e \<and> (endKey = '''' \<or> fst e \<le> endKey)} \<and>
    (0 < limit \<longrightarrow> range_entries startKey endKey limit es = take (nat limit) (range_entries startKey endKey 0 es))"
proof (intro conjI)
  show "SkipList_Range startKey endKey limit visit sl s =
      Some (visit_while visit (range_entries startKey endKey limit es) s)"
    using assms by (rule SkipList_Range_refines)
  show "sorted_wrt (<) (map fst (range_entries startKey endKey limit es))"
    using skip_rep_sorted(1) [OF assms]
    by (auto simp: range_entries_def Let_def sorted_wrt_map intro!: sorted_wrt_filter sorted_wrt_take)
qed (auto simp: range_entries_def Let_def)

text \<open>A two-level list built by the code's own \<open>Set\<close>, read by \<open>Range\<close>.\<close>

definition two_keys :: "int SkipList" where
  "two_keys = the (kv_run SkipList_Set SkipList_Delete [Put ''a'' 1, Put ''b'' 2] (newSkipList (\<lambda>n. n = 1)))"

lemma two_keys_rep: "skip_rep two_keys [(''a'', 1), (''b'', 2)]"
proof -
  obtain s1 where s1: "SkipList_Set ''a'' (1::int) (newSkipList (\<lambda>n. n = 1)) = Some s1" "skip_rep s1 [(''a'', 1)]"
    using SkipList_Set_refines [OF skip_rep_new [of "\<lambda>n. n = 1"], of "''a''" 1] by (auto simp: sorted_set_def)
  obtain s2 where "SkipList_Set ''b'' 2 s1 = Some s2" "skip_rep s2 [(''a'', 1), (''b'', 2)]"
    using SkipList_Set_refines [OF s1(2), of "''b''" 2] by (auto simp: sorted_set_def)
  with s1(1) show ?thesis by (simp add: two_keys_def)
qed

theorem skiplist_range_correct_witness:
  "skip_rep two_keys [(''a'', 1), (''b'', 2)] \<and>
   SkipList_Range ''b'' '''' 5 (\<lambda>k v s. (True, s @ [k])) two_keys [] = Some [''b'']"
  using skiplist_range_correct [OF two_keys_rep, of "''b''" "''''" 5 "\<lambda>k v s. (True, s @ [k])" "[]"] two_keys_rep
  by (simp add: range_entries_def)

end
