(* ===== verification/SkipMap.thy ===== *)
theory SkipMap
  imports SkipList Sharding
begin

text \<open>
  The sharded map over skip lists of \<^verbatim>\<open>src/cache/skipmap.go\<close>. A shard is its skip list; the shard
  mutex makes each method atomic on its shard. Iteration hands the visitor a snapshot of one shard
  after the other. The map is shown to
  refine a finite map through the skip list's key/value contract, and its counter to be the number
  of keys.
\<close>

section \<open>State and operations\<close>

record 'i SkipShardedMap =
  sm_shards :: "'i SkipList list"
  sm_count :: int
  sm_mask :: u32
  sm_itemCount :: u64

text \<open>\<open>rnd i\<close> is the random sequence of the generator of shard \<open>i\<close>.\<close>

definition NewSkipShardedMap :: "(nat \<Rightarrow> nat \<Rightarrow> bool) \<Rightarrow> int \<Rightarrow> 'i SkipShardedMap" where
  "NewSkipShardedMap rnd shardCount =
     (let shardCount = roundShardCount shardCount in
      \<lparr>sm_shards = map (\<lambda>i. newSkipList (rnd i)) [0..<nat shardCount], sm_count = shardCount,
       sm_mask = word_of_int (shardCount - 1), sm_itemCount = 0\<rparr>)"

definition SkipMap_shard :: "'i SkipShardedMap \<Rightarrow> nat \<Rightarrow> 'i SkipList option" where
  "SkipMap_shard sm i = (if i < length (sm_shards sm) then Some (sm_shards sm ! i) else None)"

definition SkipMap_getShard :: "'i SkipShardedMap \<Rightarrow> string \<Rightarrow> (nat \<times> 'i SkipList) option" where
  "SkipMap_getShard sm key = (let index = shard_index (sm_mask sm) key in
     do { sl \<leftarrow> SkipMap_shard sm index; Some (index, sl) })"

definition SkipMap_Store :: "string \<Rightarrow> 'i \<Rightarrow> 'i SkipShardedMap \<Rightarrow> 'i SkipShardedMap option" where
  "SkipMap_Store key value sm = do {
     (i, shard) \<leftarrow> SkipMap_getShard sm key;
     old \<leftarrow> SkipList_Get key shard;
     shard' \<leftarrow> SkipList_Set key value shard;
     Some (sm\<lparr>sm_shards := (sm_shards sm)[i := shard'],
              sm_itemCount := (if old = None then sm_itemCount sm + 1 else sm_itemCount sm)\<rparr>) }"

definition SkipMap_Load :: "string \<Rightarrow> 'i SkipShardedMap \<Rightarrow> 'i option option" where
  "SkipMap_Load key sm = do { (i, shard) \<leftarrow> SkipMap_getShard sm key; SkipList_Get key shard }"

definition SkipMap_Delete :: "string \<Rightarrow> 'i SkipShardedMap \<Rightarrow> 'i SkipShardedMap option" where
  "SkipMap_Delete key sm = do {
     (i, shard) \<leftarrow> SkipMap_getShard sm key;
     (deleted, shard') \<leftarrow> SkipList_Delete key shard;
     Some (sm\<lparr>sm_shards := (sm_shards sm)[i := shard'],
              sm_itemCount := (if deleted then sm_itemCount sm - 1 else sm_itemCount sm)\<rparr>) }"

definition SkipMap_LoadAndDelete :: "string \<Rightarrow> 'i SkipShardedMap \<Rightarrow> ('i option \<times> 'i SkipShardedMap) option" where
  "SkipMap_LoadAndDelete key sm = do {
     (i, shard) \<leftarrow> SkipMap_getShard sm key;
     old \<leftarrow> SkipList_Get key shard;
     case old of
       None \<Rightarrow> Some (None, sm)
     | Some value \<Rightarrow> do {
         (deleted, shard') \<leftarrow> SkipList_Delete key shard;
         Some (Some value, sm\<lparr>sm_shards := (sm_shards sm)[i := shard'], sm_itemCount := sm_itemCount sm - 1\<rparr>) } }"

definition skip_snapshot :: "'i SkipList \<Rightarrow> (string \<times> 'i) list option" where
  "skip_snapshot shard = SkipList_ForEach (\<lambda>key value entries. (True, entries @ [(key, value)])) shard []"

text \<open>\<open>Range\<close> calls its visitor without holding a lock, so the visitor may call back into the map:
  \<open>get\<close> reads the map, as it is now, from the visitor's state.\<close>

fun SkipMap_Range_loop :: "('s \<Rightarrow> 'i SkipShardedMap) \<Rightarrow> ('i, 's) visitor \<Rightarrow> nat list \<Rightarrow> 's \<Rightarrow> 's option" where
  "SkipMap_Range_loop get f [] s = Some s"
| "SkipMap_Range_loop get f (i # is) s = do {
     shard \<leftarrow> SkipMap_shard (get s) i;
     es \<leftarrow> skip_snapshot shard;
     let (goOn, s') = visit_run f es s;
     if goOn then SkipMap_Range_loop get f is s' else Some s' }"

definition SkipMap_Range :: "('s \<Rightarrow> 'i SkipShardedMap) \<Rightarrow> ('i, 's) visitor \<Rightarrow> 's \<Rightarrow> 's option" where
  "SkipMap_Range get f s = SkipMap_Range_loop get f [0..<nat (sm_count (get s))] s"

definition SkipMap_RangeShard :: "int \<Rightarrow> ('i, 's) visitor \<Rightarrow> 'i SkipShardedMap \<Rightarrow> 's \<Rightarrow> 's option" where
  "SkipMap_RangeShard shardIndex f sm s =
     (if shardIndex < 0 \<or> sm_count sm \<le> shardIndex then Some s
      else do { shard \<leftarrow> SkipMap_shard sm (nat shardIndex); SkipList_ForEach f shard s })"

text \<open>The closure that \<open>RangeKeys\<close> passes to the skip lists counts the calls of \<open>f\<close>.\<close>

definition counting :: "int \<Rightarrow> ('i, 's) visitor \<Rightarrow> ('i, int \<times> 's) visitor" where
  "counting limit f key value cs =
     (let (result, s') = f key value (snd cs); count = fst cs + 1
      in (result \<and> (limit \<le> 0 \<or> count < limit), (count, s')))"

fun SkipMap_RangeKeys_loop ::
  "'i SkipShardedMap \<Rightarrow> string \<Rightarrow> string \<Rightarrow> int \<Rightarrow> ('i, 's) visitor \<Rightarrow> nat list \<Rightarrow> int \<Rightarrow> 's \<Rightarrow> 's option" where
  "SkipMap_RangeKeys_loop sm startKey endKey limit f [] count s = Some s"
| "SkipMap_RangeKeys_loop sm startKey endKey limit f (i # is) count s =
     (if limit \<le> 0 \<or> count < limit
      then do {
        shard \<leftarrow> SkipMap_shard sm i;
        (count', s') \<leftarrow> SkipList_Range startKey endKey (limit - count) (counting limit f) shard (count, s);
        if 0 < limit \<and> limit \<le> count' then Some s'
        else SkipMap_RangeKeys_loop sm startKey endKey limit f is count' s' }
      else Some s)"

definition SkipMap_RangeKeys ::
  "string \<Rightarrow> string \<Rightarrow> int \<Rightarrow> ('i, 's) visitor \<Rightarrow> 'i SkipShardedMap \<Rightarrow> 's \<Rightarrow> 's option" where
  "SkipMap_RangeKeys startKey endKey limit f sm s =
     (if endKey < startKey \<and> endKey \<noteq> '''' then Some s
      else SkipMap_RangeKeys_loop sm startKey endKey limit f [0..<nat (sm_count sm)] 0 s)"

definition SkipMap_Count :: "'i SkipShardedMap \<Rightarrow> int" where
  "SkipMap_Count sm = sint (sm_itemCount sm)"

definition SkipMap_ShardCount :: "'i SkipShardedMap \<Rightarrow> int" where
  "SkipMap_ShardCount sm = sm_count sm"

section \<open>Invariant and refinement\<close>

definition skipmap_rep :: "'i SkipShardedMap \<Rightarrow> (string \<rightharpoonup> 'i) \<Rightarrow> bool" where
  "skipmap_rep sm m \<longleftrightarrow>
     (\<exists>p\<le>31. length (sm_shards sm) = 2 ^ p \<and> sm_mask sm = word_of_int (2 ^ p - 1)) \<and>
     sm_count sm = int (length (sm_shards sm)) \<and>
     shards_rep skip_map (shard_index (sm_mask sm)) (sm_shards sm) m \<and>
     finite (dom m) \<and> sm_itemCount sm = of_nat (card (dom m))"

lemma skipmap_getShard:
  "skipmap_rep sm m \<Longrightarrow> SkipMap_getShard sm k =
     Some (shard_index (sm_mask sm) k, sm_shards sm ! shard_index (sm_mask sm) k)"
  by (auto simp: SkipMap_getShard_def SkipMap_shard_def skipmap_rep_def shards_rep_def Let_def)

lemma skipmap_rep_upd:
  assumes "skipmap_rep sm m" "shards_rep skip_map (shard_index (sm_mask sm)) ss m'"
    and "length ss = length (sm_shards sm)" "finite (dom m')" "c = of_nat (card (dom m'))"
  shows "skipmap_rep (sm\<lparr>sm_shards := ss, sm_itemCount := c\<rparr>) m'"
  using assms by (simp add: skipmap_rep_def)

lemma SkipMap_Load_rep: "skipmap_rep sm m \<Longrightarrow> SkipMap_Load k sm = Some (m k)"
  using skip.shard_load [of "shard_index (sm_mask sm)" "sm_shards sm" m k]
  by (simp add: SkipMap_Load_def skipmap_getShard) (simp add: skipmap_rep_def)

lemma SkipMap_Store_rep:
  assumes rep: "skipmap_rep sm m"
  shows "\<exists>sm'. SkipMap_Store k v sm = Some sm' \<and> skipmap_rep sm' (m(k \<mapsto> v))"
proof -
  let ?ix = "shard_index (sm_mask sm)"
  have sr: "shards_rep skip_map ?ix (sm_shards sm) m" "finite (dom m)" "sm_itemCount sm = of_nat (card (dom m))"
    using rep by (simp_all add: skipmap_rep_def)
  obtain l where l: "SkipList_Set k v (sm_shards sm ! ?ix k) = Some l"
      "shards_rep skip_map ?ix ((sm_shards sm)[?ix k := l]) (m(k \<mapsto> v))"
    using skip.shard_store [OF sr(1)] by blast
  have "SkipMap_Store k v sm = Some (sm\<lparr>sm_shards := (sm_shards sm)[?ix k := l],
      sm_itemCount := (if m k = None then sm_itemCount sm + 1 else sm_itemCount sm)\<rparr>)"
    using skip.shard_load [OF sr(1), of k] l(1) by (simp add: SkipMap_Store_def skipmap_getShard [OF rep])
  moreover have "(if m k = None then sm_itemCount sm + 1 else sm_itemCount sm) = of_nat (card (dom (m(k \<mapsto> v))))"
    using card_dom_upd [OF sr(2), of k v] sr(3) by simp
  moreover have "finite (dom (m(k \<mapsto> v)))" using sr(2) by simp
  ultimately show ?thesis using skipmap_rep_upd [OF rep l(2)] by simp
qed

lemma SkipMap_remove_rep:
  assumes rep: "skipmap_rep sm m"
  shows "\<exists>sm'. SkipMap_Delete k sm = Some sm' \<and> SkipMap_LoadAndDelete k sm = Some (m k, if m k = None then sm else sm')
      \<and> skipmap_rep sm' (m(k := None))"
proof -
  let ?ix = "shard_index (sm_mask sm)"
  have sr: "shards_rep skip_map ?ix (sm_shards sm) m" "finite (dom m)" "sm_itemCount sm = of_nat (card (dom m))"
    using rep by (simp_all add: skipmap_rep_def)
  obtain l where l: "SkipList_Delete k (sm_shards sm ! ?ix k) = Some (m k \<noteq> None, l)"
      "shards_rep skip_map ?ix ((sm_shards sm)[?ix k := l]) (m(k := None))"
    using skip.shard_remove [OF sr(1)] by blast
  let ?sm' = "sm\<lparr>sm_shards := (sm_shards sm)[?ix k := l],
      sm_itemCount := (if m k \<noteq> None then sm_itemCount sm - 1 else sm_itemCount sm)\<rparr>"
  have "SkipMap_Delete k sm = Some ?sm'"
    using l(1) by (simp add: SkipMap_Delete_def skipmap_getShard [OF rep])
  moreover have "SkipMap_LoadAndDelete k sm = Some (m k, if m k = None then sm else ?sm')"
    using skip.shard_load [OF sr(1), of k] l(1)
    by (cases "m k") (simp_all add: SkipMap_LoadAndDelete_def skipmap_getShard [OF rep])
  moreover have "skipmap_rep ?sm' (m(k := None))"
  proof (rule skipmap_rep_upd [OF rep l(2)])
    show "(if m k \<noteq> None then sm_itemCount sm - 1 else sm_itemCount sm) = of_nat (card (dom (m(k := None))))"
      using card_dom_del [OF sr(2), of k] sr(3) by auto
  qed (use sr(2) in simp_all)
  ultimately show ?thesis by blast
qed

text \<open>\<open>Delete\<close> reports nothing; the contract's flag is what \<open>LoadAndDelete\<close> returns.\<close>

definition SkipMap_remove :: "string \<Rightarrow> 'i SkipShardedMap \<Rightarrow> (bool \<times> 'i SkipShardedMap) option" where
  "SkipMap_remove key sm = do { (old, sm') \<leftarrow> SkipMap_LoadAndDelete key sm; Some (old \<noteq> None, sm') }"

interpretation smap: kv_store skipmap_rep SkipMap_Load SkipMap_Store SkipMap_remove
proof
  fix sm :: "'a SkipShardedMap" and m k v
  assume rep: "skipmap_rep sm m"
  show "SkipMap_Load k sm = Some (m k)" using rep by (rule SkipMap_Load_rep)
  show "\<exists>sm'. SkipMap_Store k v sm = Some sm' \<and> skipmap_rep sm' (m(k \<mapsto> v))" using rep by (rule SkipMap_Store_rep)
  have "m(k := None) = m" if "m k = None" using that by auto
  with SkipMap_remove_rep [OF rep, of k]
  show "\<exists>sm'. SkipMap_remove k sm = Some (m k \<noteq> None, sm') \<and> skipmap_rep sm' (m(k := None))"
    using rep by (cases "m k") (auto simp: SkipMap_remove_def)
qed

lemma NewSkipShardedMap_rep:
  assumes "n \<le> 2 ^ 31"
  shows "skipmap_rep (NewSkipShardedMap rnd n) Map.empty"
proof -
  obtain p where p: "p \<le> 31" "roundShardCount n = 2 ^ p" using roundShardCount_pow [OF assms] by blast
  then have "\<forall>k. shard_index (word_of_int (2 ^ p - 1)) k < 2 ^ p" using shard_index_less by blast
  then show ?thesis
    using p(1) skip_map_new
    by (auto simp: skipmap_rep_def NewSkipShardedMap_def p(2) shards_rep_def restrict_map_def Let_def nat_power_eq)
qed

lemma SkipMap_Count_rep: "skipmap_rep sm m \<Longrightarrow> int (card (dom m)) < 2 ^ 63 \<Longrightarrow> SkipMap_Count sm = int (card (dom m))"
  unfolding SkipMap_Count_def skipmap_rep_def using item_count_sint by metis

section \<open>Iteration\<close>

definition skipmap_entries :: "'i SkipShardedMap \<Rightarrow> (string \<times> 'i) list list \<Rightarrow> bool" where
  "skipmap_entries sm ess \<longleftrightarrow> sm_count sm = int (length (sm_shards sm)) \<and> list_all2 skip_rep (sm_shards sm) ess"

lemma skipmap_entries_exist:
  assumes "skipmap_rep sm m"
  shows "\<exists>ess. skipmap_entries sm ess \<and> map_of (concat ess) = m \<and> distinct (map fst (concat ess))"
proof -
  let ?ix = "shard_index (sm_mask sm)"
  have sr: "\<forall>i<length (sm_shards sm). \<exists>es. skip_rep (sm_shards sm ! i) es \<and> map_of es = m |` {k. ?ix k = i}"
    and ix: "\<forall>k. ?ix k < length (sm_shards sm)"
    using assms unfolding skipmap_rep_def shards_rep_def skip_map_def by metis+
  from sr obtain e where e: "\<And>i. i < length (sm_shards sm) \<Longrightarrow> skip_rep (sm_shards sm ! i) (e i) \<and> map_of (e i) = m |` {k. ?ix k = i}"
    by metis
  let ?ess = "map e [0..<length (sm_shards sm)]"
  have keys: "?ix k = i" if "i < length (sm_shards sm)" "(k, v) \<in> set (e i)" for i k v
    using e [OF that(1)] that(2) weak_map_of_SomeI [OF that(2)] by (auto simp: restrict_map_def split: if_splits)
  have d: "distinct (map fst (concat (map e [0..<n]))) \<and> (\<forall>k. map_of (concat (map e [0..<n])) k = (if ?ix k < n then m k else None))"
    if "n \<le> length (sm_shards sm)" for n
    using that
  proof (induction n)
    case (Suc n)
    then have n: "n < length (sm_shards sm)" by simp
    have "distinct (map fst (e n))" using e [OF n] skip_rep_sorted(2) by blast
    moreover have "fst ` set (concat (map e [0..<n])) \<inter> fst ` set (e n) = {}"
    proof -
      have "?ix k \<noteq> n" if k: "k \<in> fst ` set (concat (map e [0..<n]))" for k
      proof -
        obtain i v where "i < n" "(k, v) \<in> set (e i)" using k by auto
        with keys [of i k v] n show ?thesis by simp
      qed
      moreover have "?ix k = n" if "k \<in> fst ` set (e n)" for k using that keys [OF n] by auto
      ultimately show ?thesis by blast
    qed
    moreover have "map_of (e n) k = (if ?ix k = n then m k else None)" for k
      using e [OF n] by (simp add: restrict_map_def)
    ultimately show ?case using Suc by (auto simp: map_add_def split: option.splits)
  qed simp
  have "skipmap_entries sm ?ess"
    using assms e by (auto simp: skipmap_entries_def skipmap_rep_def list_all2_conv_all_nth)
  with d [of "length (sm_shards sm)"] ix show ?thesis by (intro exI [of _ ?ess]) (auto simp: fun_eq_iff)
qed

lemma skip_snapshot_rep: "skip_rep sl es \<Longrightarrow> skip_snapshot sl = Some es"
  by (simp add: skip_snapshot_def SkipList_ForEach_refines visit_collect)

lemma skipmap_shard_entries:
  "skipmap_entries sm ess \<Longrightarrow> i < length ess \<Longrightarrow> SkipMap_shard sm i = Some (sm_shards sm ! i) \<and> skip_rep (sm_shards sm ! i) (ess ! i)"
  by (auto simp: skipmap_entries_def SkipMap_shard_def list_all2_conv_all_nth)

lemma skipmap_indices: "skipmap_entries sm ess \<Longrightarrow> [0..<nat (sm_count sm)] = [0..<length ess]"
  by (auto simp: skipmap_entries_def list_all2_lengthD)

lemma SkipMap_Range_loop_entries:
  assumes "skipmap_entries sm ess" "j \<le> length ess"
  shows "SkipMap_Range_loop (\<lambda>_. sm) f [j..<length ess] s = Some (visit_while f (concat (drop j ess)) s)"
  using assms(2)
proof (induction "length ess - j" arbitrary: j s)
  case (Suc n)
  then have j: "j < length ess" by simp
  note sh = skipmap_shard_entries [OF assms(1) j]
  have "SkipMap_Range_loop (\<lambda>_. sm) f [Suc j..<length ess] s' = Some (visit_while f (concat (drop (Suc j) ess)) s')" for s'
    using Suc by (intro Suc.hyps(1)) auto
  moreover have "concat (drop j ess) = ess ! j @ concat (drop (Suc j) ess)"
    using j by (metis Cons_nth_drop_Suc concat.simps(2))
  ultimately show ?case
    using sh j skip_snapshot_rep [of "sm_shards sm ! j" "ess ! j"]
    by (simp add: upt_conv_Cons visit_run_while [symmetric] visit_run_append split: prod.splits)
qed simp

lemma SkipMap_Range_entries:
  "skipmap_entries sm ess \<Longrightarrow> SkipMap_Range (\<lambda>_. sm) f s = Some (visit_while f (concat ess) s)"
  using SkipMap_Range_loop_entries [of sm ess 0 f s] by (simp add: SkipMap_Range_def skipmap_indices)

lemma SkipMap_RangeShard_entries:
  "skipmap_entries sm ess \<Longrightarrow> SkipMap_RangeShard i f sm s =
     Some (if 0 \<le> i \<and> i < int (length ess) then visit_while f (ess ! nat i) s else s)"
  using skipmap_shard_entries [of sm ess "nat i"]
  by (auto simp: SkipMap_RangeShard_def SkipList_ForEach_refines skipmap_entries_def list_all2_lengthD)

definition keys_in_range :: "string \<Rightarrow> string \<Rightarrow> (string \<times> 'i) list list \<Rightarrow> (string \<times> 'i) list" where
  "keys_in_range startKey endKey ess = concat (map (range_entries startKey endKey 0) ess)"

lemma range_entries_limit:
  "range_entries a b l es = (if l \<le> 0 then range_entries a b 0 es else take (nat l) (range_entries a b 0 es))"
  by (simp add: range_entries_def Let_def)

lemma counting_step:
  "counting limit f k v (c, s) = (fst (f k v s) \<and> (limit \<le> 0 \<or> c + 1 < limit), c + 1, snd (f k v s))"
  by (simp add: counting_def Let_def split: prod.splits)

text \<open>A callback whose false answers come only when the limit is reached: \<open>I\<close> relates the number of
  calls so far to the callback's own state.\<close>

definition patient :: "int \<Rightarrow> (int \<Rightarrow> 's \<Rightarrow> bool) \<Rightarrow> ('i, 's) visitor \<Rightarrow> bool" where
  "patient limit I f \<longleftrightarrow>
     (\<forall>c k v s. I c s \<longrightarrow> (limit \<le> 0 \<or> c + 1 < limit \<longrightarrow> fst (f k v s)) \<and> I (c + 1) (snd (f k v s)))"

lemma patient_all: "(\<And>k v s. fst (f k v s)) \<Longrightarrow> patient limit (\<lambda>_ _. True) f"
  by (simp add: patient_def)

lemma counting_visit:
  assumes f: "patient limit I f" and "I c s" "limit \<le> 0 \<or> c + int (length es) \<le> limit"
  shows "visit_while (counting limit f) es (c, s) = (c + int (length es), visit_all f es s) \<and>
    I (c + int (length es)) (visit_all f es s)"
  using assms(2,3)
proof (induction es arbitrary: c s)
  case (Cons e es)
  obtain k v where e: "e = (k, v)" by force
  have I: "I (c + 1) (snd (f k v s))" and go: "limit \<le> 0 \<or> c + 1 < limit \<longrightarrow> fst (f k v s)"
    using f Cons.prems(1) by (auto simp: patient_def)
  show ?case
  proof (cases "es = []")
    case False
    then have "limit \<le> 0 \<or> c + 1 < limit" using Cons.prems by (cases es) auto
    moreover have "limit \<le> 0 \<or> (c + 1) + int (length es) \<le> limit" using Cons.prems by auto
    ultimately show ?thesis using Cons.IH [OF I] go e by (simp add: counting_step ac_simps)
  qed (use e I in \<open>simp add: counting_step\<close>)
qed simp

lemma SkipMap_RangeKeys_loop_entries:
  assumes "skipmap_entries sm ess" and f: "patient limit I f" and "j \<le> length ess" "0 \<le> c" "I c s"
  shows "SkipMap_RangeKeys_loop sm a b limit f [j..<length ess] c s =
    Some (visit_all f (let r = keys_in_range a b (drop j ess) in if limit \<le> 0 then r else take (nat (limit - c)) r) s)"
  using assms(3-5)
proof (induction "length ess - j" arbitrary: j c s)
  case 0
  then show ?case by (simp add: keys_in_range_def)
next
  case (Suc n)
  then have j: "j < length ess" by simp
  note sh = skipmap_shard_entries [OF assms(1) j]
  let ?r = "range_entries a b (limit - c) (ess ! j)" and ?all = "range_entries a b 0 (ess ! j)"
  have split: "keys_in_range a b (drop j ess) = ?all @ keys_in_range a b (drop (Suc j) ess)"
    using j by (simp add: keys_in_range_def flip: Cons_nth_drop_Suc)
  show ?case
  proof (cases "limit \<le> 0 \<or> c < limit")
    case True
    have len: "limit \<le> 0 \<or> c + int (length ?r) \<le> limit" using True by (auto simp: range_entries_def Let_def)
    have sel: "?r = (if limit \<le> 0 then ?all else take (nat (limit - c)) ?all)"
      using True Suc.prems(2) by (subst range_entries_limit) auto
    note cv = counting_visit [OF f Suc.prems(3) len]
    have run: "SkipList_Range a b (limit - c) (counting limit f) (sm_shards sm ! j) (c, s) =
        Some (c + int (length ?r), visit_all f ?r s)"
      by (simp only: SkipList_Range_refines [OF conjunct2 [OF sh]] conjunct1 [OF cv])
    show ?thesis
    proof (cases "0 < limit \<and> limit \<le> c + int (length ?r)")
      case True
      then have "nat (limit - c) \<le> length ?all" using sel by (auto split: if_splits)
      then have "take (nat (limit - c)) (keys_in_range a b (drop j ess)) = ?r" using split sel True by simp
      with True \<open>limit \<le> 0 \<or> c < limit\<close> run sh j show ?thesis by (simp add: upt_conv_Cons Let_def)
    next
      case False
      then have all: "?r = ?all" using sel by (auto simp: min_def split: if_splits)
      have "SkipMap_RangeKeys_loop sm a b limit f [Suc j..<length ess] (c + int (length ?r)) (visit_all f ?r s) =
          Some (visit_all f (let r = keys_in_range a b (drop (Suc j) ess)
            in if limit \<le> 0 then r else take (nat (limit - (c + int (length ?r)))) r) (visit_all f ?r s))"
        using Suc cv by (intro Suc.hyps(1)) auto
      moreover have "nat (limit - c) - length ?all = nat (limit - (c + int (length ?all)))" by simp
      ultimately show ?thesis
        using False True run sh j all split by (auto simp: upt_conv_Cons Let_def)
    qed
  qed (use Suc j in \<open>simp add: upt_conv_Cons Let_def\<close>)
qed

lemma SkipMap_RangeKeys_entries:
  assumes "skipmap_entries sm ess" and "patient limit I f" "I 0 s"
  shows "SkipMap_RangeKeys a b limit f sm s =
    Some (visit_all f (let r = keys_in_range a b ess in if limit \<le> 0 then r else take (nat limit) r) s)"
proof (cases "b < a \<and> b \<noteq> ''''")
  case True
  then have "range_entries a b 0 es = []" for es :: "(string \<times> 'a) list"
    by (auto simp: range_entries_def filter_empty_conv)
  then have "keys_in_range a b ess = []" by (simp add: keys_in_range_def)
  with True show ?thesis by (simp add: SkipMap_RangeKeys_def)
next
  case False
  have "SkipMap_RangeKeys_loop sm a b limit f [0..<length ess] 0 s = Some (visit_all f
      (let r = keys_in_range a b (drop 0 ess) in if limit \<le> 0 then r else take (nat (limit - 0)) r) s)"
    by (rule SkipMap_RangeKeys_loop_entries [OF assms(1,2)]) (use assms(3) in simp_all)
  with False show ?thesis
    unfolding SkipMap_RangeKeys_def skipmap_indices [OF assms(1)] by (simp only: if_False drop_0 diff_zero)
qed

text \<open>The entries that a patient callback sees, against the map the shards hold.\<close>

lemma SkipMap_RangeKeys_rep:
  assumes rep: "skipmap_rep sm m" and f: "patient limit I f" "I 0 s"
  shows "\<exists>es. SkipMap_RangeKeys startKey endKey limit f sm s = Some (visit_all f es s) \<and> distinct (map fst es) \<and>
    (let R = {(k, v). m k = Some v \<and> startKey \<le> k \<and> (endKey = '''' \<or> k \<le> endKey)} in
     set es \<subseteq> R \<and> (limit \<le> 0 \<longrightarrow> set es = R) \<and>
     (0 < limit \<longrightarrow> length es = min (nat limit) (card R)))"
proof -
  obtain ess where ess: "skipmap_entries sm ess" "map_of (concat ess) = m" "distinct (map fst (concat ess))"
    using skipmap_entries_exist [OF rep] by blast
  let ?r = "keys_in_range startKey endKey ess"
  let ?R = "{(k, v). m k = Some v \<and> startKey \<le> k \<and> (endKey = '''' \<or> k \<le> endKey)}"
  have r: "?r = filter (\<lambda>e. startKey \<le> fst e \<and> (endKey = '''' \<or> fst e \<le> endKey)) (concat ess)"
    unfolding keys_in_range_def filter_concat range_entries_def by (simp add: Let_def)
  have d: "distinct (map fst ?r)" using ess(3) unfolding r by (rule distinct_map_filter)
  have R: "set ?r = ?R" using ess(2,3) map_of_eq_Some_iff [OF ess(3)] unfolding r by auto
  have card: "card ?R = length ?r" using distinct_card [of ?r] d R by (simp add: distinct_map)
  let ?es = "if limit \<le> 0 then ?r else take (nat limit) ?r"
  have "SkipMap_RangeKeys startKey endKey limit f sm s = Some (visit_all f ?es s)"
    using SkipMap_RangeKeys_entries [OF ess(1) f] by (simp add: Let_def)
  moreover have "distinct (map fst ?es)" using d by (simp add: take_map [symmetric])
  moreover have "set ?es \<subseteq> ?R" using R by (auto dest: in_set_takeD)
  ultimately show ?thesis using R card by (intro exI [of _ ?es]) (simp add: Let_def min.commute)
qed

section \<open>Properties\<close>

text \<open>C3. A map built by \<open>NewSkipShardedMap\<close> with any shard count up to \<open>2 ^ 31\<close> (rounded
  to a power of two) answers \<open>Load\<close> after any sequence of stores and removals as the finite map
  with the same updates, every call returning (the masked index is always within the shards), and
  \<open>Count\<close> is the number of keys: the counter kept beside the shards never drifts.\<close>

theorem skipmap_run_correct:
  assumes "n \<le> 2 ^ 31" "int (length ops) < 2 ^ 63"
  shows "\<exists>sm. kv_run SkipMap_Store SkipMap_remove ops (NewSkipShardedMap rnd n) = Some sm \<and>
     (\<forall>k. SkipMap_Load k sm = Some (fold kv_spec ops Map.empty k)) \<and>
     SkipMap_Count sm = int (card (dom (fold kv_spec ops Map.empty)))"
proof -
  obtain sm where sm: "kv_run SkipMap_Store SkipMap_remove ops (NewSkipShardedMap rnd n) = Some sm"
      "skipmap_rep sm (fold kv_spec ops Map.empty)"
    using smap.run_refines [OF NewSkipShardedMap_rep [OF assms(1)]] by blast
  have "card (dom (fold kv_spec ops Map.empty)) \<le> length ops"
    using kv_spec_dom [of Map.empty ops] by simp
  with assms(2) have "int (card (dom (fold kv_spec ops Map.empty))) < 2 ^ 63" by linarith
  with sm show ?thesis using smap.load_law SkipMap_Count_rep by blast
qed

theorem skipmap_run_correct_witness:
  "\<exists>sm. kv_run SkipMap_Store SkipMap_remove [Put ''a'' (1::int), Put ''b'' 2, Remove ''a'']
       (NewSkipShardedMap (\<lambda>_ _. False) 5) = Some sm \<and>
     SkipMap_Load ''b'' sm = Some (Some 2) \<and> SkipMap_Load ''a'' sm = Some None \<and> SkipMap_Count sm = 1"
  using skipmap_run_correct [of 5 "[Put ''a'' (1::int), Put ''b'' 2, Remove ''a'']" "\<lambda>_ _. False"] by auto

text \<open>With a callback that always answers true, \<open>RangeKeys\<close> calls it for entries of the map
  inside the key range only, never twice for a key, for all of them when there is no limit, and for
  exactly the smaller of \<open>limit\<close> and their number when the limit is positive.\<close>

theorem skipmap_rangeKeys_correct:
  assumes rep: "skipmap_rep sm m" and f: "\<And>k v s. fst (f k v s)"
  shows "\<exists>es. SkipMap_RangeKeys startKey endKey limit f sm s = Some (visit_all f es s) \<and> distinct (map fst es) \<and>
    (let R = {(k, v). m k = Some v \<and> startKey \<le> k \<and> (endKey = '''' \<or> k \<le> endKey)} in
     set es \<subseteq> R \<and> (limit \<le> 0 \<longrightarrow> set es = R) \<and>
     (0 < limit \<longrightarrow> length es = min (nat limit) (card R)))"
  by (rule SkipMap_RangeKeys_rep [OF rep patient_all]) (use f in simp_all)

theorem skipmap_rangeKeys_correct_witness:
  "\<exists>sm. SkipMap_Store ''a'' (1::int) (NewSkipShardedMap (\<lambda>_ _. False) 2) = Some sm \<and>
     SkipMap_RangeKeys ''a'' '''' 5 (\<lambda>k v visited. (True, visited @ [k])) sm [] = Some [''a'']"
proof -
  obtain sm where sm: "SkipMap_Store ''a'' (1::int) (NewSkipShardedMap (\<lambda>_ _. False) 2) = Some sm"
      "skipmap_rep sm [''a'' \<mapsto> 1]"
    using SkipMap_Store_rep [OF NewSkipShardedMap_rep [of 2 "\<lambda>_ _. False"], of "''a''" "1::int"] by auto
  have R: "{(k, v). (if k = ''a'' then Some (1::int) else None) = Some v \<and> ''a'' \<le> k} = {(''a'', 1)}"
    by (auto split: if_splits)
  from skipmap_rangeKeys_correct [OF sm(2), of "\<lambda>k v visited. (True, visited @ [k])" "''a''" "''''" 5 "[]"]
  obtain es where es: "SkipMap_RangeKeys ''a'' '''' 5 (\<lambda>k v visited. (True, visited @ [k])) sm [] =
      Some (visit_all (\<lambda>k v visited. (True, visited @ [k])) es [])" "set es \<subseteq> {(''a'', 1::int)}" "length es = 1"
    unfolding Let_def by (auto simp: R)
  then have "es = [(''a'', 1)]" by (cases es) auto
  with sm(1) es(1) show ?thesis by simp
qed

text \<open>A callback's false stops \<open>RangeKeys\<close> inside the current shard only. The comment after the
  shard loop says that the traversal stops once the callback returns false, but with no limit the
  loop goes on with the next shard: on a map of two shards that hold one key each, a callback that
  answers false at once is still called for both keys.\<close>

theorem skipmap_rangeKeys_does_not_stop:
  "do { sm1 \<leftarrow> SkipMap_Store ''a'' (1::int) (NewSkipShardedMap (\<lambda>_ _. False) 2);
        sm2 \<leftarrow> SkipMap_Store ''b'' 2 sm1;
        SkipMap_RangeKeys '''' '''' 0 (\<lambda>k v visited. (False, visited @ [k])) sm2 [] } = Some [''a'', ''b'']"
  by code_simp

end
