(* ===== verification/CacheSpec.thy ===== *)
theory CacheSpec
  imports Prelude
begin

text \<open>
  The contract of the \<open>Cache\<close> interface (\<^verbatim>\<open>src/cache/interface.go\<close>) for a cache that keeps every
  entry until it expires or is deleted. Against a map from keys to values with an expiration
  instant, \<open>Get\<close> at \<open>now\<close> returns the entry that is live then and \<open>ErrKeyNotFound\<close> otherwise, and
  changes what is live at no later instant; \<open>Set\<close> and \<open>Del\<close> update the map. The clients of a cache
  (the consistency strategies, the sharded cache) are proved against it.
\<close>

section \<open>Live entries\<close>

type_synonym 'v ttl_map = "string \<rightharpoonup> 'v \<times> instant"

definition live :: "instant \<Rightarrow> 'v ttl_map \<Rightarrow> string \<Rightarrow> 'v option" where
  "live now m k = (case m k of None \<Rightarrow> None | Some (v, t) \<Rightarrow> if t \<noteq> 0 \<and> t < now then None else Some v)"

definition same_from :: "instant \<Rightarrow> 'v ttl_map \<Rightarrow> 'v ttl_map \<Rightarrow> bool" where
  "same_from now m m' \<longleftrightarrow> (\<forall>t k. now \<le> t \<longrightarrow> live t m k = live t m' k)"

definition get_result :: "'v option \<Rightarrow> gerror + 'v" where
  "get_result x = (case x of None \<Rightarrow> Inl ErrKeyNotFound | Some v \<Rightarrow> Inr v)"

lemma get_result_simps [simp]: "get_result None = Inl ErrKeyNotFound" "get_result (Some v) = Inr v"
  by (simp_all add: get_result_def)

lemma live_upd [simp]:
  "live t (m(k := x)) j = (if j = k then live t (\<lambda>_. x) k else live t m j)"
  by (simp add: live_def)

lemma live_const [simp]:
  "live t (\<lambda>_. None) k = None" "live t (\<lambda>_. Some (v, e)) k = (if e \<noteq> 0 \<and> e < t then None else Some v)"
  by (simp_all add: live_def)

lemma same_from_refl [simp]: "same_from now m m"
  by (simp add: same_from_def)

lemma same_from_trans: "same_from now m m' \<Longrightarrow> same_from now m' m'' \<Longrightarrow> same_from now m m''"
  by (simp add: same_from_def)

lemma same_from_later: "same_from now m m' \<Longrightarrow> now \<le> t \<Longrightarrow> same_from t m m'"
  by (simp add: same_from_def)

lemma same_from_upd: "same_from now m m' \<Longrightarrow> same_from now (m(k := x)) (m'(k := x))"
  by (simp add: same_from_def)

lemma same_from_sym: "same_from now m m' \<Longrightarrow> same_from now m' m"
  by (simp add: same_from_def)

lemma same_from_live: "same_from now m m' \<Longrightarrow> live now m = live now m'"
  by (simp add: same_from_def fun_eq_iff)

text \<open>Dropping entries that have expired by \<open>now\<close> changes nothing that is live from then on.\<close>

lemma same_from_drop:
  assumes "\<And>k. m' k \<noteq> m k \<Longrightarrow> m' k = None \<and> live now m k = None"
  shows "same_from now m m'"
  unfolding same_from_def
proof (intro allI impI)
  fix t k assume "now \<le> t"
  show "live t m k = live t m' k"
  proof (cases "m' k = m k")
    case False
    with assms [of k] \<open>now \<le> t\<close> show ?thesis by (auto simp: live_def split: option.splits if_splits)
  qed (simp add: live_def)
qed

text \<open>What reading a cache at \<open>now\<close> may do to it: drop entries that are not live any more.\<close>

definition purges :: "instant \<Rightarrow> 'v ttl_map \<Rightarrow> 'v ttl_map \<Rightarrow> bool" where
  "purges now m m' \<longleftrightarrow> (\<forall>k. m' k = m k \<or> m' k = None \<and> live now m k = None)"

lemma purges_refl [simp]: "purges now m m"
  by (simp add: purges_def)

lemma purges_trans: "purges now m m1 \<Longrightarrow> purges now m1 m2 \<Longrightarrow> purges now m m2"
  unfolding purges_def live_def by metis

lemma purges_same_from: "purges now m m' \<Longrightarrow> same_from now m m'"
  by (rule same_from_drop) (auto simp: purges_def)

section \<open>The contract\<close>

text \<open>The operations of the \<open>Cache\<close> interface on caches of type \<open>'c\<close>.\<close>

type_synonym ('c, 'v) cache_get = "instant \<Rightarrow> string \<Rightarrow> 'c \<Rightarrow> ((gerror + 'v) \<times> 'c) option"
type_synonym ('c, 'v) cache_put = "instant \<Rightarrow> string \<Rightarrow> 'v \<Rightarrow> duration \<Rightarrow> 'c \<Rightarrow> ((gerror + unit) \<times> 'c) option"
type_synonym 'c cache_del = "string \<Rightarrow> 'c \<Rightarrow> ((gerror + unit) \<times> 'c) option"

text \<open>A value of type \<open>any\<close> as the program tells values apart: byte slices, strings and others.\<close>

datatype 'a anyval = AnyBytes string | AnyString string | AnyOther 'a

text \<open>A timed operation, its abstract effect, and the run of a sequence of them.\<close>

datatype 'v cache_op = OpGet string | OpSet string 'v duration | OpDel string

fun spec_step :: "instant \<times> 'v cache_op \<Rightarrow> 'v ttl_map \<Rightarrow> (gerror + 'v) option \<times> 'v ttl_map" where
  "spec_step (now, OpGet k) m = (Some (get_result (live now m k)), m)"
| "spec_step (now, OpSet k v e) m = (None, m(k \<mapsto> (v, now + e)))"
| "spec_step (now, OpDel k) m = (None, m(k := None))"

fun spec_run :: "(instant \<times> 'v cache_op) list \<Rightarrow> 'v ttl_map \<Rightarrow> (gerror + 'v) option list" where
  "spec_run [] m = []"
| "spec_run (p # ops) m = fst (spec_step p m) # spec_run ops (snd (spec_step p m))"

fun cache_run ::
  "(instant \<Rightarrow> string \<Rightarrow> 'c \<Rightarrow> ((gerror + 'v) \<times> 'c) option) \<Rightarrow>
   (instant \<Rightarrow> string \<Rightarrow> 'v \<Rightarrow> duration \<Rightarrow> 'c \<Rightarrow> ((gerror + unit) \<times> 'c) option) \<Rightarrow>
   (string \<Rightarrow> 'c \<Rightarrow> ((gerror + unit) \<times> 'c) option) \<Rightarrow>
   (instant \<times> 'v cache_op) list \<Rightarrow> 'c \<Rightarrow> ((gerror + 'v) option list \<times> 'c) option" where
  "cache_run get put del [] c = Some ([], c)"
| "cache_run get put del ((now, OpGet k) # ops) c = do {
     (r, c') \<leftarrow> get now k c; (rs, c'') \<leftarrow> cache_run get put del ops c'; Some (Some r # rs, c'') }"
| "cache_run get put del ((now, OpSet k v e) # ops) c = do {
     (r, c') \<leftarrow> put now k v e c; (rs, c'') \<leftarrow> cache_run get put del ops c'; Some (None # rs, c'') }"
| "cache_run get put del ((now, OpDel k) # ops) c = do {
     (r, c') \<leftarrow> del k c; (rs, c'') \<leftarrow> cache_run get put del ops c'; Some (None # rs, c'') }"

locale ttl_cache =
  fixes rep :: "'c \<Rightarrow> 'v ttl_map \<Rightarrow> bool"
    and get :: "instant \<Rightarrow> string \<Rightarrow> 'c \<Rightarrow> ((gerror + 'v) \<times> 'c) option"
    and put :: "instant \<Rightarrow> string \<Rightarrow> 'v \<Rightarrow> duration \<Rightarrow> 'c \<Rightarrow> ((gerror + unit) \<times> 'c) option"
    and del :: "string \<Rightarrow> 'c \<Rightarrow> ((gerror + unit) \<times> 'c) option"
  assumes get_law: "rep c m \<Longrightarrow> \<exists>c' m'. get now k c = Some (get_result (live now m k), c') \<and> rep c' m' \<and> purges now m m'"
    and put_law: "rep c m \<Longrightarrow> \<exists>c'. put now k v e c = Some (Inr (), c') \<and> rep c' (m(k \<mapsto> (v, now + e)))"
    and del_law: "rep c m \<Longrightarrow> \<exists>c'. del k c = Some (Inr (), c') \<and> rep c' (m(k := None))"
begin

lemma get_after_put:
  assumes "rep c m" "put now k v e c = Some (r, c')" "t \<le> now + e"
  shows "\<exists>c''. get t k c' = Some (Inr v, c'')"
  using put_law [OF assms(1), of now k v e] get_law [of c' "m(k \<mapsto> (v, now + e))" t k] assms(2,3) by auto

lemma get_after_del:
  assumes "rep c m" "del k c = Some (r, c')"
  shows "\<exists>c''. get t k c' = Some (Inl ErrKeyNotFound, c'')"
  using del_law [OF assms(1), of k] get_law [of c' "m(k := None)" t k] assms(2) by auto

lemma cache_run_refines:
  assumes "rep c m" "same_from now m m'" "sorted (now # map fst ops)"
  shows "\<exists>c'. cache_run get put del ops c = Some (spec_run ops m', c')"
  using assms
proof (induction ops arbitrary: c m m' now)
  case (Cons p ops)
  obtain t q where p: "p = (t, q)" by force
  with Cons.prems have t: "now \<le> t" "sorted (t # map fst ops)" by auto
  note sf = same_from_later [OF Cons.prems(2) t(1)]
  show ?case
  proof (cases q)
    case (OpGet k)
    obtain c1 m1 where 1: "get t k c = Some (get_result (live t m k), c1)" "rep c1 m1" "same_from t m m1"
      using get_law [OF Cons.prems(1)] purges_same_from by blast
    from Cons.IH [OF 1(2) same_from_trans [OF same_from_sym [OF 1(3)] sf] t(2)]
    obtain c2 where "cache_run get put del ops c1 = Some (spec_run ops m', c2)" by blast
    with 1(1) p OpGet same_from_live [OF sf] show ?thesis by simp
  next
    case (OpSet k v e)
    obtain c1 where 1: "put t k v e c = Some (Inr (), c1)" "rep c1 (m(k \<mapsto> (v, t + e)))"
      using put_law [OF Cons.prems(1)] by blast
    from Cons.IH [OF 1(2) same_from_upd [OF sf] t(2)]
    obtain c2 where "cache_run get put del ops c1 = Some (spec_run ops (m'(k \<mapsto> (v, t + e))), c2)" by blast
    with 1(1) p OpSet show ?thesis by simp
  next
    case (OpDel k)
    obtain c1 where 1: "del k c = Some (Inr (), c1)" "rep c1 (m(k := None))"
      using del_law [OF Cons.prems(1)] by blast
    from Cons.IH [OF 1(2) same_from_upd [OF sf] t(2)]
    obtain c2 where "cache_run get put del ops c1 = Some (spec_run ops (m'(k := None)), c2)" by blast
    with 1(1) p OpDel show ?thesis by simp
  qed
qed simp

end

end
