(* ===== verification/MemCache.thy ===== *)
theory MemCache
  imports SkipMap CacheSpec
begin

text \<open>
  The in-memory cache of \<^verbatim>\<open>src/cache/memcache.go\<close> with its statistics (\<^verbatim>\<open>stats.go\<close>), its options
  (\<^verbatim>\<open>option.go\<close>) and its asynchronous cleaner (\<^verbatim>\<open>cleaner.go\<close>). The eviction callback is a function
  on a user state \<open>'u\<close>. Channels are their visible state: \<open>stopCleanUp\<close> is whether it is closed, the
  cleaner's queue is the list of its pending tasks with its capacity. The clean-up goroutines call
  \<open>cleanUp\<close> and \<open>processTask\<close>; both are modelled, their tickers are not.
\<close>

section \<open>Statistics\<close>

record StatsCollector =
  hits :: u64
  misses :: u64
  evictions :: u64

definition NewStatsCollector :: StatsCollector where
  "NewStatsCollector = \<lparr>hits = 0, misses = 0, evictions = 0\<rparr>"

definition RecordHit :: "StatsCollector \<Rightarrow> StatsCollector" where
  "RecordHit sc = sc\<lparr>hits := hits sc + 1\<rparr>"

definition RecordMiss :: "StatsCollector \<Rightarrow> StatsCollector" where
  "RecordMiss sc = sc\<lparr>misses := misses sc + 1\<rparr>"

definition RecordEviction :: "StatsCollector \<Rightarrow> StatsCollector" where
  "RecordEviction sc = sc\<lparr>evictions := evictions sc + 1\<rparr>"

definition Hits :: "StatsCollector \<Rightarrow> int" where
  "Hits sc = sint (hits sc)"

definition Misses :: "StatsCollector \<Rightarrow> int" where
  "Misses sc = sint (misses sc)"

definition Evictions :: "StatsCollector \<Rightarrow> int" where
  "Evictions sc = sint (evictions sc)"

text \<open>The rates are exact quotients here; the code rounds them to \<open>float64\<close>.\<close>

definition HitRate :: "StatsCollector \<Rightarrow> rat" where
  "HitRate sc = (let total = sint (hits sc + misses sc) in if total = 0 then 0 else of_int (Hits sc) / of_int total)"

definition MissRate :: "StatsCollector \<Rightarrow> rat" where
  "MissRate sc = (let total = sint (hits sc + misses sc) in if total = 0 then 0 else of_int (Misses sc) / of_int total)"

section \<open>State\<close>

record 'v cacheItem =
  item_value :: 'v
  item_expiration :: instant

type_synonym ('v, 'u) callback = "(string \<Rightarrow> 'v \<Rightarrow> 'u \<Rightarrow> 'u) option"

definition call_evict :: "('v, 'u) callback \<Rightarrow> string \<Rightarrow> 'v \<Rightarrow> 'u \<Rightarrow> 'u" where
  "call_evict onEvict key value u = (case onEvict of None \<Rightarrow> u | Some f \<Rightarrow> f key value u)"

record CleanTask =
  shardIndex :: int
  task_now :: instant

record ('v, 'u) Cleaner =
  cl_taskQueue :: "CleanTask list"
  cl_queueCap :: int
  cl_workerCount :: int
  cl_interval :: duration
  cl_stopped :: bool
  cl_onEvict :: "('v, 'u) callback"
  cl_running :: bool

text \<open>\<open>mc_closed\<close> tells whether \<open>stopCleanUp\<close>, which the constructor always makes, is closed;
  \<open>mc_syncTimers\<close> holds the periods of the clean-up tickers that were started.\<close>

record ('v, 'u) MemoryCache =
  mc_data :: "'v cacheItem SkipShardedMap"
  mc_onEvict :: "('v, 'u) callback"
  mc_closed :: bool
  mc_cleaner :: "('v, 'u) Cleaner option"
  mc_shardCount :: int
  mc_useAsyncCleanup :: bool
  mc_workerCount :: int
  mc_queueSize :: int
  mc_cleanupInterval :: duration
  mc_syncTimers :: "duration list"
  mc_stats :: StatsCollector

definition item_expired :: "instant \<Rightarrow> 'v cacheItem \<Rightarrow> bool" where
  "item_expired now item \<longleftrightarrow> item_expiration item \<noteq> 0 \<and> item_expiration item < now"

section \<open>Cleaner\<close>

definition DefaultCleanerInterval :: duration where
  "DefaultCleanerInterval = 2 * 60 * 1000000000"

definition DefaultWorkerCount :: int where
  "DefaultWorkerCount = 4"

definition DefaultQueueSize :: int where
  "DefaultQueueSize = 128"

definition WithCleanerWorkerCount :: "int \<Rightarrow> ('v, 'u) Cleaner \<Rightarrow> ('v, 'u) Cleaner" where
  "WithCleanerWorkerCount count c = (if count > 0 then c\<lparr>cl_workerCount := count\<rparr> else c)"

definition WithCleanerInterval :: "duration \<Rightarrow> ('v, 'u) Cleaner \<Rightarrow> ('v, 'u) Cleaner" where
  "WithCleanerInterval interval c = (if interval > 0 then c\<lparr>cl_interval := interval\<rparr> else c)"

definition WithCleanerQueueSize :: "int \<Rightarrow> ('v, 'u) Cleaner \<Rightarrow> ('v, 'u) Cleaner" where
  "WithCleanerQueueSize sz c = (if sz > 0 then c\<lparr>cl_taskQueue := [], cl_queueCap := sz\<rparr> else c)"

definition WithCleanerEvictionCallback :: "('v, 'u) callback \<Rightarrow> ('v, 'u) Cleaner \<Rightarrow> ('v, 'u) Cleaner" where
  "WithCleanerEvictionCallback cb c = c\<lparr>cl_onEvict := cb\<rparr>"

definition NewCleaner :: "(('v, 'u) Cleaner \<Rightarrow> ('v, 'u) Cleaner) list \<Rightarrow> ('v, 'u) Cleaner" where
  "NewCleaner options =
     (let c = fold (\<lambda>option c. option c) options
        \<lparr>cl_taskQueue = [], cl_queueCap = 0, cl_workerCount = DefaultWorkerCount,
         cl_interval = DefaultCleanerInterval, cl_stopped = False, cl_onEvict = None, cl_running = False\<rparr>
      in if cl_queueCap c = 0 then c\<lparr>cl_taskQueue := [], cl_queueCap := DefaultQueueSize\<rparr> else c)"

definition Cleaner_Start :: "('v, 'u) Cleaner \<Rightarrow> ('v, 'u) Cleaner" where
  "Cleaner_Start c = (if cl_running c then c else c\<lparr>cl_running := True\<rparr>)"

text \<open>Closing the closed \<open>stopChan\<close> would panic; \<open>running\<close> guards it.\<close>

definition Cleaner_Stop :: "('v, 'u) Cleaner \<Rightarrow> ('v, 'u) Cleaner option" where
  "Cleaner_Stop c =
     (if \<not> cl_running c then Some c
      else if cl_stopped c then None else Some (c\<lparr>cl_running := False, cl_stopped := True\<rparr>))"

text \<open>One task per shard, in order; a send on the full queue blocks, which is where the loop below
  stops and returns the index it waits at (\<open>None\<close> when every task is queued).\<close>

fun schedule_loop :: "instant \<Rightarrow> nat list \<Rightarrow> ('v, 'u) Cleaner \<Rightarrow> nat option \<times> ('v, 'u) Cleaner" where
  "schedule_loop now [] c = (None, c)"
| "schedule_loop now (i # is) c =
     (if int (length (cl_taskQueue c)) < cl_queueCap c
      then schedule_loop now is (c\<lparr>cl_taskQueue := cl_taskQueue c @ [\<lparr>shardIndex = int i, task_now = now\<rparr>]\<rparr>)
      else (Some i, c))"

definition scheduleCleanTasks :: "instant \<Rightarrow> 'v cacheItem SkipShardedMap \<Rightarrow> ('v, 'u) Cleaner \<Rightarrow> nat option \<times> ('v, 'u) Cleaner" where
  "scheduleCleanTasks now sm c =
     (if cl_stopped c then (None, c) else schedule_loop now [0..<nat (SkipMap_ShardCount sm)] c)"

definition collect_expired :: "instant \<Rightarrow> ('v cacheItem, (string \<times> 'v cacheItem) list) visitor" where
  "collect_expired now key item acc = (True, if item_expired now item then acc @ [(key, item)] else acc)"

text \<open>\<open>processTask\<close> in its two phases: the scan under the read lock, then one critical section per
  expired key. Other goroutines may run between them.\<close>

definition processTask_scan :: "CleanTask \<Rightarrow> 'v cacheItem SkipShardedMap \<Rightarrow> (string \<times> 'v cacheItem) list option" where
  "processTask_scan task sm =
     (if shardIndex task < 0 then None
      else do {
        shard \<leftarrow> SkipMap_shard sm (nat (shardIndex task));
        SkipList_ForEach (collect_expired (task_now task)) shard [] })"

fun processTask_delete ::
  "('v, 'u) callback \<Rightarrow> nat \<Rightarrow> (string \<times> 'v cacheItem) list \<Rightarrow> 'v cacheItem SkipShardedMap \<Rightarrow> 'u
   \<Rightarrow> ('v cacheItem SkipShardedMap \<times> 'u) option" where
  "processTask_delete cb i [] sm u = Some (sm, u)"
| "processTask_delete cb i ((key, item) # expired) sm u = do {
     shard \<leftarrow> SkipMap_shard sm i;
     (deleted, shard') \<leftarrow> SkipList_Delete key shard;
     let sm' = sm\<lparr>sm_shards := (sm_shards sm)[i := shard'],
                  sm_itemCount := (if deleted then sm_itemCount sm - 1 else sm_itemCount sm)\<rparr>;
     processTask_delete cb i expired sm' (if deleted then call_evict cb key (item_value item) u else u) }"

definition processTask ::
  "('v, 'u) Cleaner \<Rightarrow> CleanTask \<Rightarrow> 'v cacheItem SkipShardedMap \<Rightarrow> 'u \<Rightarrow> ('v cacheItem SkipShardedMap \<times> 'u) option" where
  "processTask c task sm u = do {
     expired \<leftarrow> processTask_scan task sm;
     processTask_delete (cl_onEvict c) (nat (shardIndex task)) expired sm u }"

section \<open>Construction\<close>

type_synonym ('v, 'u) MemoryCacheOption = "('v, 'u) MemoryCache \<Rightarrow> ('v, 'u) MemoryCache"

definition WithEvictionCallback :: "('v, 'u) callback \<Rightarrow> ('v, 'u) MemoryCacheOption" where
  "WithEvictionCallback cb c = c\<lparr>mc_onEvict := cb\<rparr>"

definition WithCleanupInterval :: "duration \<Rightarrow> ('v, 'u) MemoryCacheOption" where
  "WithCleanupInterval interval c = (if interval > 0 then c\<lparr>mc_cleanupInterval := interval\<rparr> else c)"

definition WithShardCount :: "int \<Rightarrow> ('v, 'u) MemoryCacheOption" where
  "WithShardCount count c = c\<lparr>mc_shardCount := count\<rparr>"

definition WithAsyncCleanup :: "bool \<Rightarrow> ('v, 'u) MemoryCacheOption" where
  "WithAsyncCleanup enable c = c\<lparr>mc_useAsyncCleanup := enable\<rparr>"

definition CacheWithWorkerCount :: "int \<Rightarrow> ('v, 'u) MemoryCacheOption" where
  "CacheWithWorkerCount count c = c\<lparr>mc_workerCount := count\<rparr>"

definition CacheWithQueueSize :: "int \<Rightarrow> ('v, 'u) MemoryCacheOption" where
  "CacheWithQueueSize sz c = c\<lparr>mc_queueSize := sz\<rparr>"

definition cleanupInterval :: duration where
  "cleanupInterval = 2 * 60 * 1000000000"

text \<open>\<open>numCPU\<close> is \<open>runtime.NumCPU()\<close>; \<open>rnd\<close> seeds the generators of the skip lists.\<close>

definition default_cache :: "int \<Rightarrow> (nat \<Rightarrow> nat \<Rightarrow> bool) \<Rightarrow> ('v, 'u) MemoryCache" where
  "default_cache numCPU rnd =
     \<lparr>mc_data = NewSkipShardedMap rnd 0, mc_onEvict = None, mc_closed = False, mc_cleaner = None,
      mc_shardCount = DefaultShardCount, mc_useAsyncCleanup = False, mc_workerCount = numCPU,
      mc_queueSize = DefaultQueueSize, mc_cleanupInterval = cleanupInterval, mc_syncTimers = [],
      mc_stats = NewStatsCollector\<rparr>"

definition NewMemoryCache :: "int \<Rightarrow> (nat \<Rightarrow> nat \<Rightarrow> bool) \<Rightarrow> ('v, 'u) MemoryCacheOption list \<Rightarrow> ('v, 'u) MemoryCache" where
  "NewMemoryCache numCPU rnd options =
     (let c = fold (\<lambda>opt c. opt c) options (default_cache numCPU rnd);
       c = c\<lparr>mc_data := NewSkipShardedMap rnd (mc_shardCount c), mc_closed := False\<rparr>
      in if mc_useAsyncCleanup c
         then c\<lparr>mc_cleaner := Some (Cleaner_Start (NewCleaner
                ([WithCleanerWorkerCount (mc_workerCount c), WithCleanerQueueSize (mc_queueSize c),
                  WithCleanerEvictionCallback (mc_onEvict c)] @
                 (if mc_cleanupInterval c \<noteq> cleanupInterval then [WithCleanerInterval (mc_cleanupInterval c)] else []))))\<rparr>
         else if mc_cleanupInterval c > 0 then c\<lparr>mc_syncTimers := mc_syncTimers c @ [mc_cleanupInterval c]\<rparr>
         else c)"

section \<open>Operations\<close>

definition MemCache_Set :: "instant \<Rightarrow> string \<Rightarrow> 'v \<Rightarrow> duration \<Rightarrow> ('v, 'u) MemoryCache \<times> 'u
    \<Rightarrow> ((gerror + unit) \<times> ('v, 'u) MemoryCache \<times> 'u) option" where
  "MemCache_Set now key value expiration cu = do {
     let (c, u) = cu;
     d \<leftarrow> SkipMap_Store key \<lparr>item_value = value, item_expiration = now + expiration\<rparr> (mc_data c);
     Some (Inr (), c\<lparr>mc_data := d\<rparr>, u) }"

definition MemCache_Get :: "instant \<Rightarrow> string \<Rightarrow> ('v, 'u) MemoryCache \<times> 'u
    \<Rightarrow> ((gerror + 'v) \<times> ('v, 'u) MemoryCache \<times> 'u) option" where
  "MemCache_Get now key cu = do {
     let (c, u) = cu;
     value \<leftarrow> SkipMap_Load key (mc_data c);
     case value of
       None \<Rightarrow> Some (Inl ErrKeyNotFound, c\<lparr>mc_stats := RecordMiss (mc_stats c)\<rparr>, u)
     | Some item \<Rightarrow>
         if item_expired now item
         then do {
           d \<leftarrow> SkipMap_Delete key (mc_data c);
           Some (Inl ErrKeyNotFound, c\<lparr>mc_data := d, mc_stats := RecordMiss (mc_stats c)\<rparr>,
                 call_evict (mc_onEvict c) key (item_value item) u) }
         else Some (Inr (item_value item), c\<lparr>mc_stats := RecordHit (mc_stats c)\<rparr>, u) }"

text \<open>The closure of \<open>GetRange\<close>: its state is the result map, its counter and the keys whose
  asynchronous deletion has been started.\<close>

definition range_collect :: "instant \<Rightarrow> int \<Rightarrow> ('v cacheItem, 'v gomap \<times> int \<times> (string \<times> 'v) list) visitor" where
  "range_collect now limit key item st =
     (let (results, count, spawned) = st in
      if item_expired now item then (True, (results, count, spawned @ [(key, item_value item)]))
      else (limit \<le> 0 \<or> count + 1 < limit,
            (AList.update key (item_value item) results, count + 1, spawned)))"

definition MemCache_GetRange :: "instant \<Rightarrow> string \<Rightarrow> string \<Rightarrow> int \<Rightarrow> ('v, 'u) MemoryCache
    \<Rightarrow> ((gerror + 'v gomap) \<times> (string \<times> 'v) list) option" where
  "MemCache_GetRange now startKey endKey limit c = do {
     (results, count, spawned) \<leftarrow> SkipMap_RangeKeys startKey endKey limit (range_collect now limit) (mc_data c) ([], 0, []);
     Some (Inr results, spawned) }"

text \<open>The goroutine that \<open>GetRange\<close> starts for an expired entry.\<close>

definition range_evict :: "string \<times> 'v \<Rightarrow> ('v, 'u) MemoryCache \<times> 'u \<Rightarrow> (('v, 'u) MemoryCache \<times> 'u) option" where
  "range_evict kv cu = do {
     let (c, u) = cu;
     d \<leftarrow> SkipMap_Delete (fst kv) (mc_data c);
     Some (c\<lparr>mc_data := d\<rparr>, call_evict (mc_onEvict c) (fst kv) (snd kv) u) }"

definition MemCache_Del :: "string \<Rightarrow> ('v, 'u) MemoryCache \<times> 'u
    \<Rightarrow> ((gerror + unit) \<times> ('v, 'u) MemoryCache \<times> 'u) option" where
  "MemCache_Del key cu = do {
     let (c, u) = cu;
     (loaded, d) \<leftarrow> SkipMap_LoadAndDelete key (mc_data c);
     Some (Inr (), c\<lparr>mc_data := d\<rparr>,
           (case loaded of None \<Rightarrow> u | Some item \<Rightarrow> call_evict (mc_onEvict c) key (item_value item) u)) }"

text \<open>The visitor of \<open>cleanUp\<close> deletes from the map that is being traversed; the second component
  is \<open>None\<close> once a deletion has panicked.\<close>

definition cleanup_visit :: "instant \<Rightarrow> ('v, 'u) callback
    \<Rightarrow> ('v cacheItem, 'v cacheItem SkipShardedMap \<times> 'u option) visitor" where
  "cleanup_visit now cb key value st =
     (case st of
        (sm, None) \<Rightarrow> (False, sm, None)
      | (sm, Some u) \<Rightarrow>
          if item_expired now value
          then (case SkipMap_Delete key sm of
                  None \<Rightarrow> (False, sm, None)
                | Some sm' \<Rightarrow> (True, sm', Some (call_evict cb key (item_value value) u)))
          else (True, sm, Some u))"

definition MemCache_cleanUp :: "instant \<Rightarrow> ('v, 'u) MemoryCache \<times> 'u \<Rightarrow> (('v, 'u) MemoryCache \<times> 'u) option" where
  "MemCache_cleanUp now cu = do {
     let (c, u) = cu;
     (d, u') \<leftarrow> SkipMap_Range fst (cleanup_visit now (mc_onEvict c)) (mc_data c, Some u);
     u'' \<leftarrow> u';
     Some (c\<lparr>mc_data := d\<rparr>, u'') }"

definition MemCache_startCleanUpTimer :: "duration \<Rightarrow> ('v, 'u) MemoryCache \<Rightarrow> ('v, 'u) MemoryCache" where
  "MemCache_startCleanUpTimer interval c =
     (let interval = (if interval \<le> 0 then cleanupInterval else interval) in
      case mc_cleaner c of
        Some cl \<Rightarrow> if mc_useAsyncCleanup c then c\<lparr>mc_cleaner := Some (cl\<lparr>cl_interval := interval\<rparr>)\<rparr>
                   else c\<lparr>mc_syncTimers := mc_syncTimers c @ [interval]\<rparr>
      | None \<Rightarrow> if mc_useAsyncCleanup c
          then c\<lparr>mc_cleaner := Some (Cleaner_Start (NewCleaner
                 [WithCleanerWorkerCount (mc_workerCount c), WithCleanerInterval interval,
                  WithCleanerQueueSize (mc_queueSize c), WithCleanerEvictionCallback (mc_onEvict c)]))\<rparr>
          else c\<lparr>mc_syncTimers := mc_syncTimers c @ [interval]\<rparr>)"

definition MemCache_Close :: "('v, 'u) MemoryCache \<Rightarrow> ((gerror + unit) \<times> ('v, 'u) MemoryCache) option" where
  "MemCache_Close c =
     (if mc_closed c then None
      else (case mc_cleaner c of
              None \<Rightarrow> Some (Inr (), c\<lparr>mc_closed := True\<rparr>)
            | Some cl \<Rightarrow> do { cl' \<leftarrow> Cleaner_Stop cl; Some (Inr (), c\<lparr>mc_closed := True, mc_cleaner := Some cl'\<rparr>) }))"

definition MemCache_ItemCount :: "('v, 'u) MemoryCache \<Rightarrow> int" where
  "MemCache_ItemCount c = SkipMap_Count (mc_data c)"

definition MemCache_HitRate :: "('v, 'u) MemoryCache \<Rightarrow> rat" where
  "MemCache_HitRate c = HitRate (mc_stats c)"

definition MemCache_MissRate :: "('v, 'u) MemoryCache \<Rightarrow> rat" where
  "MemCache_MissRate c = MissRate (mc_stats c)"

definition MemCache_MemoryUsage :: "('v, 'u) MemoryCache \<Rightarrow> int" where
  "MemCache_MemoryUsage c = 0"

section \<open>The contract of the cache\<close>

definition ttl_of :: "(string \<rightharpoonup> 'v cacheItem) \<Rightarrow> 'v ttl_map" where
  "ttl_of d k = map_option (\<lambda>item. (item_value item, item_expiration item)) (d k)"

definition mem_rep :: "('v, 'u) MemoryCache \<times> 'u \<Rightarrow> 'v ttl_map \<Rightarrow> bool" where
  "mem_rep cu m \<longleftrightarrow> (\<exists>d. skipmap_rep (mc_data (fst cu)) d \<and> m = ttl_of d)"

lemma ttl_of_upd [simp]:
  "ttl_of (d(k := x)) = (ttl_of d)(k := map_option (\<lambda>item. (item_value item, item_expiration item)) x)"
  by (simp add: ttl_of_def fun_eq_iff)

lemma live_ttl_of:
  "live now (ttl_of d) k = (case d k of None \<Rightarrow> None | Some item \<Rightarrow> if item_expired now item then None else Some (item_value item))"
  by (simp add: live_def ttl_of_def item_expired_def split: option.splits)

text \<open>The three operations on the data, with what they do to the callback state.\<close>

lemma MemCache_Get_data:
  assumes "skipmap_rep (mc_data c) d"
  shows "\<exists>c' d'. MemCache_Get now k (c, u) = Some (get_result (live now (ttl_of d) k), c',
      (case d k of None \<Rightarrow> u | Some item \<Rightarrow> if item_expired now item then call_evict (mc_onEvict c) k (item_value item) u else u)) \<and>
    skipmap_rep (mc_data c') d' \<and> mc_onEvict c' = mc_onEvict c \<and>
    d' = (case d k of None \<Rightarrow> d | Some item \<Rightarrow> if item_expired now item then d(k := None) else d)"
proof -
  note ld = SkipMap_Load_rep [OF assms, of k]
  show ?thesis
  proof (cases "d k")
    case None
    with ld assms show ?thesis by (simp add: MemCache_Get_def live_ttl_of)
  next
    case (Some item)
    obtain sm' where "SkipMap_Delete k (mc_data c) = Some sm'" "skipmap_rep sm' (d(k := None))"
      using SkipMap_remove_rep [OF assms, of k] by blast
    with ld Some assms show ?thesis by (auto simp: MemCache_Get_def live_ttl_of)
  qed
qed

lemma MemCache_Set_data:
  assumes "skipmap_rep (mc_data c) d"
  shows "\<exists>sm'. MemCache_Set now k v e (c, u) = Some (Inr (), c\<lparr>mc_data := sm'\<rparr>, u) \<and>
    skipmap_rep sm' (d(k \<mapsto> \<lparr>item_value = v, item_expiration = now + e\<rparr>))"
  using SkipMap_Store_rep [OF assms, of k "\<lparr>item_value = v, item_expiration = now + e\<rparr>"]
  by (auto simp: MemCache_Set_def)

lemma MemCache_Del_data:
  assumes "skipmap_rep (mc_data c) d"
  shows "\<exists>sm'. MemCache_Del k (c, u) = Some (Inr (), c\<lparr>mc_data := sm'\<rparr>,
      (case d k of None \<Rightarrow> u | Some item \<Rightarrow> call_evict (mc_onEvict c) k (item_value item) u)) \<and>
    skipmap_rep sm' (d(k := None))"
proof (cases "d k")
  case None
  then have "d(k := None) = d" by auto
  with None SkipMap_remove_rep [OF assms, of k] assms show ?thesis
    by (intro exI [of _ "mc_data c"]) (auto simp: MemCache_Del_def)
next
  case (Some item)
  with SkipMap_remove_rep [OF assms, of k] show ?thesis by (auto simp: MemCache_Del_def)
qed

lemma MemCache_Get_rep:
  assumes "mem_rep cu m"
  shows "\<exists>cu' m'. MemCache_Get now k cu = Some (get_result (live now m k), cu') \<and> mem_rep cu' m' \<and> purges now m m'"
proof -
  obtain c u where cu: "cu = (c, u)" by force
  obtain d where d: "skipmap_rep (mc_data c) d" "m = ttl_of d" using assms by (auto simp: mem_rep_def cu)
  obtain c' d' u' where g: "MemCache_Get now k cu = Some (get_result (live now m k), c', u')" "skipmap_rep (mc_data c') d'"
      "d' = (case d k of None \<Rightarrow> d | Some item \<Rightarrow> if item_expired now item then d(k := None) else d)"
    using MemCache_Get_data [OF d(1), of now k u] unfolding cu d(2) by blast
  have "purges now m (ttl_of d')"
    unfolding g(3) d(2) purges_def by (auto simp: live_ttl_of ttl_of_def split: option.splits if_splits)
  with g show ?thesis by (auto simp: mem_rep_def)
qed

lemma MemCache_Set_rep:
  assumes "mem_rep cu m"
  shows "\<exists>cu'. MemCache_Set now k v e cu = Some (Inr (), cu') \<and> mem_rep cu' (m(k \<mapsto> (v, now + e)))"
proof -
  obtain c u where cu: "cu = (c, u)" by force
  obtain d where d: "skipmap_rep (mc_data c) d" "m = ttl_of d" using assms by (auto simp: mem_rep_def cu)
  obtain sm' where sm': "MemCache_Set now k v e cu = Some (Inr (), c\<lparr>mc_data := sm'\<rparr>, u)"
      "skipmap_rep sm' (d(k \<mapsto> \<lparr>item_value = v, item_expiration = now + e\<rparr>))"
    using MemCache_Set_data [OF d(1)] unfolding cu by blast
  have "mem_rep (c\<lparr>mc_data := sm'\<rparr>, u) (m(k \<mapsto> (v, now + e)))"
    unfolding mem_rep_def
    by (rule exI [of _ "d(k \<mapsto> \<lparr>item_value = v, item_expiration = now + e\<rparr>)"]) (use sm'(2) d(2) in simp)
  with sm'(1) show ?thesis by blast
qed

lemma MemCache_Del_rep:
  assumes "mem_rep cu m"
  shows "\<exists>cu'. MemCache_Del k cu = Some (Inr (), cu') \<and> mem_rep cu' (m(k := None))"
proof -
  obtain c u where cu: "cu = (c, u)" by force
  obtain d where d: "skipmap_rep (mc_data c) d" "m = ttl_of d" using assms by (auto simp: mem_rep_def cu)
  obtain sm' u' where sm': "MemCache_Del k cu = Some (Inr (), c\<lparr>mc_data := sm'\<rparr>, u')" "skipmap_rep sm' (d(k := None))"
    using MemCache_Del_data [OF d(1), of k u] unfolding cu by blast
  have "mem_rep (c\<lparr>mc_data := sm'\<rparr>, u') (m(k := None))"
    unfolding mem_rep_def by (rule exI [of _ "d(k := None)"]) (use sm'(2) d(2) in simp)
  with sm'(1) show ?thesis by blast
qed

interpretation mem: ttl_cache mem_rep MemCache_Get MemCache_Set MemCache_Del
  by unfold_locales (fact MemCache_Get_rep MemCache_Set_rep MemCache_Del_rep)+

lemma mem_rep_new:
  assumes "mc_shardCount (fold (\<lambda>opt c. opt c) options (default_cache numCPU rnd)) \<le> 2 ^ 31"
  shows "mem_rep (NewMemoryCache numCPU rnd options, u) Map.empty"
  using NewSkipShardedMap_rep [OF assms, of rnd]
  by (auto simp: mem_rep_def NewMemoryCache_def Let_def ttl_of_def fun_eq_iff intro!: exI [of _ Map.empty])

section \<open>Cleaning up\<close>

lemma SkipMap_Delete_shape:
  "SkipMap_Delete k sm = Some sm' \<Longrightarrow>
   sm_mask sm' = sm_mask sm \<and> sm_count sm' = sm_count sm \<and> length (sm_shards sm') = length (sm_shards sm)"
  by (auto simp: SkipMap_Delete_def split: bind_splits prod.splits)

text \<open>The map without the expired entries whose key satisfies \<open>P\<close>, and the callbacks for a list of
  evicted entries.\<close>

definition purge :: "instant \<Rightarrow> (string \<Rightarrow> bool) \<Rightarrow> (string \<rightharpoonup> 'v cacheItem) \<Rightarrow> string \<rightharpoonup> 'v cacheItem" where
  "purge now P d k = (case d k of None \<Rightarrow> None | Some item \<Rightarrow> if P k \<and> item_expired now item then None else Some item)"

definition evict_calls :: "('v, 'u) callback \<Rightarrow> (string \<times> 'v cacheItem) list \<Rightarrow> 'u \<Rightarrow> 'u" where
  "evict_calls cb es = fold (\<lambda>(k, item). call_evict cb k (item_value item)) es"

lemma evict_calls_simps [simp]:
  "evict_calls cb [] u = u"
  "evict_calls cb ((k, item) # es) u = evict_calls cb es (call_evict cb k (item_value item) u)"
  "evict_calls cb (xs @ ys) u = evict_calls cb ys (evict_calls cb xs u)"
  by (simp_all add: evict_calls_def)

lemma cleanup_visit_simps:
  "\<not> item_expired now item \<Longrightarrow> cleanup_visit now cb k item (sm, Some u) = (True, sm, Some u)"
  "item_expired now item \<Longrightarrow> SkipMap_Delete k sm = Some sm' \<Longrightarrow>
     cleanup_visit now cb k item (sm, Some u) = (True, sm', Some (call_evict cb k (item_value item) u))"
  by (simp_all add: cleanup_visit_def)

abbreviation expired_keys :: "instant \<Rightarrow> (string \<times> 'v cacheItem) list \<Rightarrow> string set" where
  "expired_keys now es \<equiv> {k. \<exists>item. (k, item) \<in> set es \<and> item_expired now item}"

lemma cleanup_visit_run:
  assumes "skipmap_rep sm d"
  shows "\<exists>sm'. visit_run (cleanup_visit now cb) es (sm, Some u) =
      (True, sm', Some (evict_calls cb (filter (\<lambda>e. item_expired now (snd e)) es) u)) \<and>
    skipmap_rep sm' (d |` (- expired_keys now es)) \<and>
    sm_mask sm' = sm_mask sm \<and> length (sm_shards sm') = length (sm_shards sm)"
  using assms
proof (induction es arbitrary: sm d u)
  case Nil
  then show ?case by simp
next
  case (Cons e es)
  obtain k item where e: "e = (k, item)" by force
  show ?case
  proof (cases "item_expired now item")
    case True
    obtain sm1 where sm1: "SkipMap_Delete k sm = Some sm1" "skipmap_rep sm1 (d(k := None))"
      using SkipMap_remove_rep [OF Cons.prems, of k] by blast
    have keys: "(d(k := None)) |` (- expired_keys now es) = d |` (- expired_keys now (e # es))"
      using True by (auto simp: e restrict_map_def fun_eq_iff)
    obtain sm2 where sm2: "visit_run (cleanup_visit now cb) es (sm1, Some (call_evict cb k (item_value item) u)) =
        (True, sm2, Some (evict_calls cb (filter (\<lambda>e. item_expired now (snd e)) es) (call_evict cb k (item_value item) u)))"
        "skipmap_rep sm2 (d |` (- expired_keys now (e # es)))" "sm_mask sm2 = sm_mask sm1"
        "length (sm_shards sm2) = length (sm_shards sm1)"
      using Cons.IH [OF sm1(2), of "call_evict cb k (item_value item) u", unfolded keys] by blast
    show ?thesis
    proof (intro exI conjI)
      show "skipmap_rep sm2 (d |` (- expired_keys now (e # es)))" by (rule sm2(2))
      show "visit_run (cleanup_visit now cb) (e # es) (sm, Some u) =
          (True, sm2, Some (evict_calls cb (filter (\<lambda>e. item_expired now (snd e)) (e # es)) u))"
        using sm2(1) True by (simp add: e cleanup_visit_simps(2) [OF True sm1(1)])
    qed (use sm2 SkipMap_Delete_shape [OF sm1(1)] in simp_all)
  next
    case False
    then have "expired_keys now (e # es) = expired_keys now es" by (auto simp: e)
    with Cons.IH [OF Cons.prems, of u] False show ?thesis
      by (simp add: e cleanup_visit_simps)
  qed
qed

definition shard_list :: "'v cacheItem SkipShardedMap \<Rightarrow> nat \<Rightarrow> (string \<times> 'v cacheItem) list" where
  "shard_list sm i = the (skip_snapshot (sm_shards sm ! i))"

lemma shard_list_rep:
  assumes "skipmap_rep sm d" "i < length (sm_shards sm)"
  shows "SkipMap_shard sm i = Some (sm_shards sm ! i)" "skip_snapshot (sm_shards sm ! i) = Some (shard_list sm i)"
    "skip_rep (sm_shards sm ! i) (shard_list sm i)"
    "map_of (shard_list sm i) = d |` {k. shard_index (sm_mask sm) k = i}" "distinct (map fst (shard_list sm i))"
proof -
  obtain es where es: "skip_rep (sm_shards sm ! i) es" "map_of es = d |` {k. shard_index (sm_mask sm) k = i}"
    using assms by (auto simp: skipmap_rep_def shards_rep_def skip_map_def)
  from skip_snapshot_rep [OF es(1)] have "shard_list sm i = es" by (simp add: shard_list_def)
  with es skip_snapshot_rep [OF es(1)] skip_rep_sorted(2) [OF es(1)] assms(2)
  show "SkipMap_shard sm i = Some (sm_shards sm ! i)" "skip_snapshot (sm_shards sm ! i) = Some (shard_list sm i)"
    "skip_rep (sm_shards sm ! i) (shard_list sm i)"
    "map_of (shard_list sm i) = d |` {k. shard_index (sm_mask sm) k = i}" "distinct (map fst (shard_list sm i))"
    by (simp_all add: SkipMap_shard_def)
qed

lemma shard_list_set:
  assumes "skipmap_rep sm d" "i < length (sm_shards sm)"
  shows "set (shard_list sm i) = {(k, item). d k = Some item \<and> shard_index (sm_mask sm) k = i}"
proof (rule set_eqI)
  fix e :: "string \<times> 'a cacheItem"
  obtain k item where e: "e = (k, item)" by force
  have "e \<in> set (shard_list sm i) \<longleftrightarrow> map_of (shard_list sm i) k = Some item"
    using map_of_eq_Some_iff [OF shard_list_rep(5) [OF assms]] by (simp add: e)
  then show "e \<in> set (shard_list sm i) \<longleftrightarrow> e \<in> {(k, item). d k = Some item \<and> shard_index (sm_mask sm) k = i}"
    by (auto simp: shard_list_rep(4) [OF assms] e restrict_map_def)
qed

lemma cleanup_shard:
  assumes "skipmap_rep sm d" "j < length (sm_shards sm)"
  shows "d |` (- expired_keys now (shard_list sm j)) = purge now (\<lambda>k. shard_index (sm_mask sm) k = j) d"
  by (auto simp: shard_list_set [OF assms] purge_def restrict_map_def fun_eq_iff split: option.splits)

lemma cleanup_loop:
  assumes "skipmap_rep sm d" "j \<le> length (sm_shards sm)"
  shows "\<exists>sm' L. SkipMap_Range_loop fst (cleanup_visit now cb) [j..<length (sm_shards sm)] (sm, Some u) =
      Some (sm', Some (evict_calls cb L u)) \<and>
    skipmap_rep sm' (purge now (\<lambda>k. j \<le> shard_index (sm_mask sm) k) d) \<and> distinct (map fst L) \<and>
    set L = {(k, item). d k = Some item \<and> j \<le> shard_index (sm_mask sm) k \<and> item_expired now item}"
  using assms
proof (induction "length (sm_shards sm) - j" arbitrary: j sm d u)
  case 0
  then have j: "j = length (sm_shards sm)" by simp
  have lt: "\<not> j \<le> shard_index (sm_mask sm) k" for k
    using 0(2) unfolding j skipmap_rep_def shards_rep_def not_le by blast
  then have "purge now (\<lambda>k. j \<le> shard_index (sm_mask sm) k) d = d"
    by (auto simp: purge_def fun_eq_iff split: option.splits)
  with 0 lt show ?case
    by (intro exI [of _ sm] exI [of _ "[]"]) auto
next
  case (Suc n)
  then have j: "j < length (sm_shards sm)" by simp
  let ?ix = "shard_index (sm_mask sm)" and ?Lj = "filter (\<lambda>e. item_expired now (snd e)) (shard_list sm j)"
  note sl = shard_list_rep [OF Suc.prems(1) j]
  obtain sm1 where sm1: "visit_run (cleanup_visit now cb) (shard_list sm j) (sm, Some u) = (True, sm1, Some (evict_calls cb ?Lj u))"
      "skipmap_rep sm1 (purge now (\<lambda>k. ?ix k = j) d)" "sm_mask sm1 = sm_mask sm" "length (sm_shards sm1) = length (sm_shards sm)"
    using cleanup_visit_run [OF Suc.prems(1), of now cb "shard_list sm j" u] unfolding cleanup_shard [OF Suc.prems(1) j] by blast
  obtain sm2 L where L: "SkipMap_Range_loop fst (cleanup_visit now cb) [Suc j..<length (sm_shards sm)] (sm1, Some (evict_calls cb ?Lj u)) =
      Some (sm2, Some (evict_calls cb L (evict_calls cb ?Lj u)))"
      "skipmap_rep sm2 (purge now (\<lambda>k. Suc j \<le> ?ix k) (purge now (\<lambda>k. ?ix k = j) d))" "distinct (map fst L)"
      "set L = {(k, item). purge now (\<lambda>k. ?ix k = j) d k = Some item \<and> Suc j \<le> ?ix k \<and> item_expired now item}"
    using Suc.hyps(1) [of sm1 "Suc j", OF _ sm1(2)] Suc.hyps(2) j sm1(3,4) by fastforce
  have "SkipMap_Range_loop fst (cleanup_visit now cb) [j..<length (sm_shards sm)] (sm, Some u) =
      Some (sm2, Some (evict_calls cb (?Lj @ L) u))"
    using L(1) sm1(1) sl(1,2) j by (simp add: upt_conv_Cons)
  moreover have "purge now (\<lambda>k. Suc j \<le> ?ix k) (purge now (\<lambda>k. ?ix k = j) d) = purge now (\<lambda>k. j \<le> ?ix k) d"
    by (auto simp: purge_def fun_eq_iff split: option.splits)
  with L(2) have "skipmap_rep sm2 (purge now (\<lambda>k. j \<le> ?ix k) d)" by (simp only:)
  moreover have "set (?Lj @ L) = {(k, item). d k = Some item \<and> j \<le> ?ix k \<and> item_expired now item}"
    by (auto simp: L(4) shard_list_set [OF Suc.prems(1) j] purge_def split: option.splits if_splits)
  moreover have "distinct (map fst (?Lj @ L))"
  proof -
    have "?ix k = j" if "k \<in> fst ` set ?Lj" for k using that by (auto simp: shard_list_set [OF Suc.prems(1) j])
    moreover have "?ix k \<noteq> j" if "k \<in> fst ` set L" for k using that by (auto simp: L(4))
    ultimately have "fst ` set ?Lj \<inter> fst ` set L = {}" by blast
    with L(3) distinct_map_filter [OF sl(5)] show ?thesis by simp
  qed
  ultimately show ?case by blast
qed

lemma MemCache_cleanUp_rep:
  assumes "skipmap_rep (mc_data c) d"
  shows "\<exists>sm L. MemCache_cleanUp now (c, u) = Some (c\<lparr>mc_data := sm\<rparr>, evict_calls (mc_onEvict c) L u) \<and>
    skipmap_rep sm (purge now (\<lambda>_. True) d) \<and> distinct (map fst L) \<and>
    set L = {(k, item). d k = Some item \<and> item_expired now item}"
proof -
  have "nat (sm_count (mc_data c)) = length (sm_shards (mc_data c))" using assms by (simp add: skipmap_rep_def)
  moreover obtain sm' L where L:
      "SkipMap_Range_loop fst (cleanup_visit now (mc_onEvict c)) [0..<length (sm_shards (mc_data c))] (mc_data c, Some u) =
        Some (sm', Some (evict_calls (mc_onEvict c) L u))"
      "skipmap_rep sm' (purge now (\<lambda>_. True) d)" "distinct (map fst L)"
      "set L = {(k, item). d k = Some item \<and> item_expired now item}"
    using cleanup_loop [OF assms le0, of now "mc_onEvict c" u] by auto
  ultimately have "MemCache_cleanUp now (c, u) = Some (c\<lparr>mc_data := sm'\<rparr>, evict_calls (mc_onEvict c) L u)"
    by (simp add: MemCache_cleanUp_def SkipMap_Range_def)
  with L(2-4) show ?thesis by blast
qed

section \<open>The asynchronous cleaner\<close>

lemma collect_expired_visit:
  "visit_while (collect_expired now) es acc = acc @ filter (\<lambda>e. item_expired now (snd e)) es"
  by (induction es arbitrary: acc) (auto simp: collect_expired_def)

lemma processTask_scan_rep:
  assumes "skipmap_rep sm d" "0 \<le> shardIndex task" "nat (shardIndex task) < length (sm_shards sm)"
  shows "processTask_scan task sm =
    Some (filter (\<lambda>e. item_expired (task_now task) (snd e)) (shard_list sm (nat (shardIndex task))))"
  using assms(2) shard_list_rep(1,3) [OF assms(1,3)]
  by (simp add: processTask_scan_def SkipList_ForEach_refines collect_expired_visit)

text \<open>Deleting through the shard is \<open>SkipMap_Delete\<close> when the key belongs to the shard.\<close>

lemma shard_delete_step:
  assumes "skipmap_rep sm d" and i_def: "i = shard_index (sm_mask sm) k"
  shows "\<exists>shard'. SkipMap_shard sm i = Some (sm_shards sm ! i) \<and>
    SkipList_Delete k (sm_shards sm ! i) = Some (d k \<noteq> None, shard') \<and>
    SkipMap_Delete k sm = Some (sm\<lparr>sm_shards := (sm_shards sm)[i := shard'],
      sm_itemCount := (if d k \<noteq> None then sm_itemCount sm - 1 else sm_itemCount sm)\<rparr>)"
proof -
  have sr: "shards_rep skip_map (shard_index (sm_mask sm)) (sm_shards sm) d" using assms by (simp add: skipmap_rep_def)
  obtain l where "SkipList_Delete k (sm_shards sm ! i) = Some (d k \<noteq> None, l)"
    using skip.shard_remove [OF sr, of k] by (auto simp: i_def)
  moreover have "SkipMap_shard sm i = Some (sm_shards sm ! i)"
    using sr by (auto simp: SkipMap_shard_def shards_rep_def i_def)
  ultimately show ?thesis
    using skipmap_getShard [OF assms(1), of k] by (simp add: SkipMap_Delete_def i_def)
qed

lemma processTask_delete_rep:
  assumes "skipmap_rep sm d" "\<forall>k\<in>fst ` set es. shard_index (sm_mask sm) k = i" "distinct (map fst es)"
  shows "\<exists>sm'. processTask_delete cb i es sm u = Some (sm', evict_calls cb (filter (\<lambda>e. d (fst e) \<noteq> None) es) u) \<and>
    skipmap_rep sm' (d |` (- fst ` set es))"
  using assms
proof (induction es arbitrary: sm d u)
  case Nil
  then show ?case by simp
next
  case (Cons e es)
  obtain k item where e: "e = (k, item)" by force
  have i: "i = shard_index (sm_mask sm) k" using Cons.prems(2) by (simp add: e)
  obtain shard' where sd: "SkipMap_shard sm i = Some (sm_shards sm ! i)"
      "SkipList_Delete k (sm_shards sm ! i) = Some (d k \<noteq> None, shard')"
      "SkipMap_Delete k sm = Some (sm\<lparr>sm_shards := (sm_shards sm)[i := shard'],
        sm_itemCount := (if d k \<noteq> None then sm_itemCount sm - 1 else sm_itemCount sm)\<rparr>)"
    using shard_delete_step [OF Cons.prems(1) i] by blast
  define sm1 where "sm1 = sm\<lparr>sm_shards := (sm_shards sm)[i := shard'],
        sm_itemCount := (if d k \<noteq> None then sm_itemCount sm - 1 else sm_itemCount sm)\<rparr>"
  have r1: "skipmap_rep sm1 (d(k := None))"
    using SkipMap_remove_rep [OF Cons.prems(1), of k] sd(3) by (auto simp: sm1_def)
  have ix1: "\<forall>k\<in>fst ` set es. shard_index (sm_mask sm1) k = i" using Cons.prems(2) by (simp add: sm1_def)
  have ds1: "distinct (map fst es)" using Cons.prems(3) by simp
  let ?u = "if d k \<noteq> None then call_evict cb k (item_value item) u else u"
  obtain sm2 where sm2: "processTask_delete cb i es sm1 ?u =
      Some (sm2, evict_calls cb (filter (\<lambda>e. (d(k := None)) (fst e) \<noteq> None) es) ?u)"
      "skipmap_rep sm2 ((d(k := None)) |` (- fst ` set es))"
    using Cons.IH [OF r1 ix1 ds1, of ?u] by blast
  have "filter (\<lambda>e. (d(k := None)) (fst e) \<noteq> None) es = filter (\<lambda>e. d (fst e) \<noteq> None) es"
    using Cons.prems(3) by (intro filter_cong refl) (auto simp: e)
  moreover have "(d(k := None)) |` (- fst ` set es) = d |` (- fst ` set (e # es))"
    by (auto simp: e restrict_map_def fun_eq_iff)
  moreover have "processTask_delete cb i (e # es) sm u = processTask_delete cb i es sm1 ?u"
    using sd(1,2) by (auto simp: e sm1_def)
  moreover have "evict_calls cb (filter (\<lambda>e. d (fst e) \<noteq> None) (e # es)) u =
      evict_calls cb (filter (\<lambda>e. d (fst e) \<noteq> None) es) ?u" by (simp add: e)
  ultimately show ?case using sm2 by simp
qed

lemma processTask_rep:
  assumes "skipmap_rep sm d" "0 \<le> shardIndex task" "nat (shardIndex task) < length (sm_shards sm)"
  shows "\<exists>sm' L. processTask c task sm u = Some (sm', evict_calls (cl_onEvict c) L u) \<and>
    skipmap_rep sm' (purge (task_now task) (\<lambda>k. int (shard_index (sm_mask sm) k) = shardIndex task) d) \<and>
    distinct (map fst L) \<and>
    set L = {(k, item). d k = Some item \<and> int (shard_index (sm_mask sm) k) = shardIndex task \<and> item_expired (task_now task) item}"
proof -
  let ?i = "nat (shardIndex task)"
  let ?L = "filter (\<lambda>e. item_expired (task_now task) (snd e)) (shard_list sm ?i)"
  note sl = shard_list_set [OF assms(1,3)]
  have d: "distinct (map fst ?L)" using shard_list_rep(5) [OF assms(1,3)] by (rule distinct_map_filter)
  have ix: "\<forall>k\<in>fst ` set ?L. shard_index (sm_mask sm) k = ?i" by (auto simp: sl)
  have "filter (\<lambda>e. d (fst e) \<noteq> None) ?L = ?L" by (rule filter_True) (auto simp: sl)
  with processTask_delete_rep [OF assms(1) ix d, of "cl_onEvict c" u] processTask_scan_rep [OF assms]
  obtain sm' where "processTask c task sm u = Some (sm', evict_calls (cl_onEvict c) ?L u)"
      "skipmap_rep sm' (d |` (- fst ` set ?L))" by (auto simp: processTask_def)
  moreover have "d |` (- fst ` set ?L) = purge (task_now task) (\<lambda>k. int (shard_index (sm_mask sm) k) = shardIndex task) d"
    using assms(2) by (auto simp: sl purge_def restrict_map_def fun_eq_iff image_iff split: option.splits)
  moreover have "set ?L = {(k, item). d k = Some item \<and> int (shard_index (sm_mask sm) k) = shardIndex task \<and> item_expired (task_now task) item}"
    using assms(2) by (auto simp: sl)
  ultimately show ?thesis using d by (intro exI [of _ sm'] exI [of _ ?L]) simp
qed

section \<open>Range queries\<close>

text \<open>The closure of \<open>GetRange\<close> answers false only when it has itself counted \<open>limit\<close> live
  entries, at which point the map's own count, which includes the expired ones, has reached it too.\<close>

lemma range_collect_patient: "patient limit (\<lambda>c st. fst (snd st) \<le> c) (range_collect now limit)"
  by (auto simp: patient_def range_collect_def split: prod.splits)

lemma range_collect_all:
  assumes "distinct (map fst es)" "fst ` set es \<inter> fst ` set results = {}"
  shows "visit_all (range_collect now limit) es (results, count, spawned) =
    (results @ map (\<lambda>e. (fst e, item_value (snd e))) (filter (\<lambda>e. \<not> item_expired now (snd e)) es),
     count + int (length (filter (\<lambda>e. \<not> item_expired now (snd e)) es)),
     spawned @ map (\<lambda>e. (fst e, item_value (snd e))) (filter (\<lambda>e. item_expired now (snd e)) es))"
  using assms
proof (induction es arbitrary: results count spawned)
  case (Cons e es)
  obtain k item where e: "e = (k, item)" by force
  have upd: "AList.update k v results = results @ [(k, v)]" for v
  proof -
    have "k \<notin> fst ` set results" using Cons.prems(2) by (auto simp: e)
    then show ?thesis by (induction results) auto
  qed
  show ?case
    using Cons.prems Cons.IH [of "results @ [(k, item_value item)]" "count + 1" spawned]
      Cons.IH [of results count "spawned @ [(k, item_value item)]"]
    by (auto simp: e range_collect_def upd)
qed simp

lemma MemCache_GetRange_rep:
  assumes "skipmap_rep (mc_data c) d"
  shows "\<exists>es. MemCache_GetRange now startKey endKey limit c =
      Some (Inr (map (\<lambda>e. (fst e, item_value (snd e))) (filter (\<lambda>e. \<not> item_expired now (snd e)) es)),
            map (\<lambda>e. (fst e, item_value (snd e))) (filter (\<lambda>e. item_expired now (snd e)) es)) \<and>
    distinct (map fst es) \<and>
    (let R = {(k, v). d k = Some v \<and> startKey \<le> k \<and> (endKey = '''' \<or> k \<le> endKey)} in
     set es \<subseteq> R \<and> (limit \<le> 0 \<longrightarrow> set es = R) \<and> (0 < limit \<longrightarrow> length es = min (nat limit) (card R)))"
proof -
  obtain es where es: "SkipMap_RangeKeys startKey endKey limit (range_collect now limit) (mc_data c) ([], 0, []) =
        Some (visit_all (range_collect now limit) es ([], 0, []))" "distinct (map fst es)"
      "let R = {(k, v). d k = Some v \<and> startKey \<le> k \<and> (endKey = '''' \<or> k \<le> endKey)} in
       set es \<subseteq> R \<and> (limit \<le> 0 \<longrightarrow> set es = R) \<and> (0 < limit \<longrightarrow> length es = min (nat limit) (card R))"
    using SkipMap_RangeKeys_rep [OF assms range_collect_patient [of limit now], of "([], 0, [])" startKey endKey] by auto
  then show ?thesis
    using range_collect_all [OF es(2), of "[]" now limit 0 "[]"] by (auto simp: MemCache_GetRange_def)
qed

section \<open>Properties\<close>

text \<open>C2. A cache built by \<open>NewMemoryCache\<close> with any options (and a shard count up to \<open>2 ^ 31\<close>)
  answers every sequence of \<open>Get\<close>, \<open>Set\<close> and \<open>Del\<close> calls at non-decreasing times exactly as a map of
  values with expiration instants does: a \<open>Get\<close> returns the last value set that is neither deleted
  nor past its expiration, and \<open>ErrKeyNotFound\<close> otherwise. No call fails to return.\<close>

theorem memcache_run_correct:
  assumes "mc_shardCount (fold (\<lambda>opt c. opt c) options (default_cache numCPU rnd)) \<le> 2 ^ 31"
    and "sorted (map fst ops)"
  shows "\<exists>cu'. cache_run MemCache_Get MemCache_Set MemCache_Del ops (NewMemoryCache numCPU rnd options, u) =
    Some (spec_run ops Map.empty, cu')"
proof -
  have "sorted ((case ops of [] \<Rightarrow> 0 | p # _ \<Rightarrow> fst p) # map fst ops)"
    using assms(2) by (cases ops) auto
  then show ?thesis
    using mem.cache_run_refines [OF mem_rep_new [OF assms(1)] same_from_refl] by blast
qed

theorem memcache_run_correct_witness:
  "\<exists>cu'. cache_run MemCache_Get MemCache_Set MemCache_Del
      [(1, OpSet ''a'' (7::int) 10), (11, OpGet ''a''), (12, OpGet ''a'')]
      (NewMemoryCache 4 (\<lambda>_ _. False) [WithShardCount 3], ()) =
    Some ([None, Some (Inr 7), Some (Inl ErrKeyNotFound)], cu')"
  using memcache_run_correct [of "[WithShardCount 3]" 4 "\<lambda>_ _. False"
      "[(1, OpSet ''a'' (7::int) 10), (11, OpGet ''a''), (12, OpGet ''a'')]" "()"]
  by (simp add: WithShardCount_def live_def)

lemma item_map_exists: "\<exists>sm. skipmap_rep sm [k \<mapsto> item]"
  using SkipMap_Store_rep [OF NewSkipShardedMap_rep [of 1 "\<lambda>_ _. False"], of k item] by auto

text \<open>C6. \<open>cleanUp\<close>, which deletes from the map while it traverses it, returns, removes exactly the
  entries that have expired at \<open>now\<close>, calls the eviction callback exactly once for each of them and
  changes nothing that is live at \<open>now\<close> or later.\<close>

theorem memcache_cleanUp_correct:
  assumes "skipmap_rep (mc_data c) d"
  shows "\<exists>c' L. MemCache_cleanUp now (c, u) = Some (c', evict_calls (mc_onEvict c) L u) \<and>
    distinct (map fst L) \<and> set L = {(k, item). d k = Some item \<and> item_expired now item} \<and>
    skipmap_rep (mc_data c') (purge now (\<lambda>_. True) d) \<and> same_from now (ttl_of d) (ttl_of (purge now (\<lambda>_. True) d))"
proof -
  have "same_from now (ttl_of d) (ttl_of (purge now (\<lambda>_. True) d))"
    by (rule same_from_drop) (auto simp: live_ttl_of ttl_of_def purge_def split: option.splits if_splits)
  moreover obtain sm L where "MemCache_cleanUp now (c, u) = Some (c\<lparr>mc_data := sm\<rparr>, evict_calls (mc_onEvict c) L u)"
      "skipmap_rep sm (purge now (\<lambda>_. True) d)" "distinct (map fst L)"
      "set L = {(k, item). d k = Some item \<and> item_expired now item}"
    using MemCache_cleanUp_rep [OF assms, of now u] by blast
  ultimately show ?thesis by (intro exI [of _ "c\<lparr>mc_data := sm\<rparr>"] exI [of _ L]) simp
qed

theorem memcache_cleanUp_correct_witness:
  "\<exists>c c'. skipmap_rep (mc_data c) [''a'' \<mapsto> \<lparr>item_value = 7::int, item_expiration = 5\<rparr>] \<and>
     MemCache_cleanUp 10 (c, []) = Some (c', [(''a'', 7::int)]) \<and> skipmap_rep (mc_data c') Map.empty"
proof -
  let ?item = "\<lparr>item_value = 7::int, item_expiration = 5\<rparr>"
  obtain sm where sm: "skipmap_rep sm [''a'' \<mapsto> ?item]" using item_map_exists [of "''a''" ?item] by blast
  define c where "c = (default_cache 1 (\<lambda>_ _. False))\<lparr>mc_data := sm, mc_onEvict := Some (\<lambda>k v u. u @ [(k, v)])\<rparr>"
  have c: "skipmap_rep (mc_data c) [''a'' \<mapsto> ?item]" "mc_onEvict c = Some (\<lambda>k v u. u @ [(k, v)])"
    using sm by (simp_all add: c_def)
  obtain c' L where L: "MemCache_cleanUp 10 (c, []) = Some (c', evict_calls (mc_onEvict c) L [])" "distinct (map fst L)"
      "set L = {(k, item). [''a'' \<mapsto> ?item] k = Some item \<and> item_expired 10 item}"
      "skipmap_rep (mc_data c') (purge 10 (\<lambda>_. True) [''a'' \<mapsto> ?item])"
    using memcache_cleanUp_correct [OF c(1), of 10 "[]"] by blast
  have "set L = {(''a'', ?item)}" by (auto simp: L(3) item_expired_def split: if_splits)
  then have "L = [(''a'', ?item)]" using L(2) by (intro distinct_singleton) (auto simp: distinct_map)
  moreover have "purge 10 (\<lambda>_. True) [''a'' \<mapsto> ?item] = Map.empty" by (auto simp: purge_def item_expired_def fun_eq_iff)
  ultimately show ?thesis using L(1,4) c by (auto simp: call_evict_def)
qed

text \<open>A cleaner task, run by itself, purges exactly the expired entries of its own shard and
  calls the eviction callback once for each.\<close>

theorem processTask_correct:
  assumes "skipmap_rep sm d" "0 \<le> shardIndex task" "shardIndex task < SkipMap_ShardCount sm"
  shows "\<exists>sm' L. processTask c task sm u = Some (sm', evict_calls (cl_onEvict c) L u) \<and>
    skipmap_rep sm' (purge (task_now task) (\<lambda>k. int (shard_index (sm_mask sm) k) = shardIndex task) d) \<and>
    distinct (map fst L) \<and>
    set L = {(k, item). d k = Some item \<and> int (shard_index (sm_mask sm) k) = shardIndex task \<and> item_expired (task_now task) item}"
  by (rule processTask_rep) (use assms in \<open>simp_all add: SkipMap_ShardCount_def skipmap_rep_def nat_less_iff\<close>)

theorem processTask_correct_witness:
  "\<exists>sm sm'. skipmap_rep sm [''a'' \<mapsto> \<lparr>item_value = 7::int, item_expiration = 5\<rparr>] \<and>
     processTask (NewCleaner [WithCleanerEvictionCallback (Some (\<lambda>k v u. u @ [(k, v)]))])
       \<lparr>shardIndex = int (shard_index (sm_mask sm) ''a''), task_now = 10\<rparr> sm [] = Some (sm', [(''a'', 7::int)]) \<and>
     skipmap_rep sm' Map.empty"
proof -
  let ?item = "\<lparr>item_value = 7::int, item_expiration = 5\<rparr>"
  let ?c = "NewCleaner [WithCleanerEvictionCallback (Some (\<lambda>k v u. u @ [(k, v::int)]))]"
  obtain sm where sm: "skipmap_rep sm [''a'' \<mapsto> ?item]" using item_map_exists [of "''a''" ?item] by blast
  let ?ix = "shard_index (sm_mask sm)"
  have cb: "cl_onEvict ?c = Some (\<lambda>k v u. u @ [(k, v)])" by (simp add: NewCleaner_def WithCleanerEvictionCallback_def)
  have lt: "int (?ix ''a'') < SkipMap_ShardCount sm"
    using sm by (auto simp: skipmap_rep_def shards_rep_def SkipMap_ShardCount_def)
  obtain sm' L where L: "processTask ?c \<lparr>shardIndex = int (?ix ''a''), task_now = 10\<rparr> sm [] = Some (sm', evict_calls (cl_onEvict ?c) L [])"
      "skipmap_rep sm' (purge 10 (\<lambda>k. ?ix k = ?ix ''a'') [''a'' \<mapsto> ?item])" "distinct (map fst L)"
      "set L = {(k, item). [''a'' \<mapsto> ?item] k = Some item \<and> ?ix k = ?ix ''a'' \<and> item_expired 10 item}"
    using processTask_correct [OF sm, of "\<lparr>shardIndex = int (?ix ''a''), task_now = 10\<rparr>" ?c "[]"] lt by auto
  have "set L = {(''a'', ?item)}" by (auto simp: L(4) item_expired_def split: if_splits)
  then have "L = [(''a'', ?item)]" using L(3) by (intro distinct_singleton) (auto simp: distinct_map)
  moreover have "purge 10 (\<lambda>k. ?ix k = ?ix ''a'') [''a'' \<mapsto> ?item] = Map.empty"
    by (auto simp: purge_def item_expired_def fun_eq_iff)
  ultimately show ?thesis using L(1,2) sm cb by (auto simp: call_evict_def)
qed

text \<open>The cleaner's scan and its deletions are separate critical sections. A value that is set
  for an expired key after the scan and before the deletion is removed by the task although it has
  not expired: a \<open>Load\<close> after the task finds nothing.\<close>

theorem cleaner_race_loses_fresh_value:
  assumes rep: "skipmap_rep sm d" and old: "d k = Some item" "item_expired (task_now task) item"
    and task: "shardIndex task = int (shard_index (sm_mask sm) k)"
  shows "\<exists>expired sm1 sm2 u'. processTask_scan task sm = Some expired \<and>
    SkipMap_Store k fresh sm = Some sm1 \<and> SkipMap_Load k sm1 = Some (Some fresh) \<and>
    processTask_delete cb (nat (shardIndex task)) expired sm1 u = Some (sm2, u') \<and> SkipMap_Load k sm2 = Some None"
proof -
  let ?i = "nat (shardIndex task)"
  let ?L = "filter (\<lambda>e. item_expired (task_now task) (snd e)) (shard_list sm ?i)"
  have i: "0 \<le> shardIndex task" "?i < length (sm_shards sm)"
    using rep task by (auto simp: skipmap_rep_def shards_rep_def)
  obtain sm1 where sm1: "SkipMap_Store k fresh sm = Some sm1" "skipmap_rep sm1 (d(k \<mapsto> fresh))"
    using SkipMap_Store_rep [OF rep] by blast
  have msk: "sm_mask sm1 = sm_mask sm"
    using sm1(1) by (auto simp: SkipMap_Store_def split: bind_splits prod.splits)
  have k: "(k, item) \<in> set ?L" unfolding set_filter shard_list_set [OF rep i(2)] using old task by simp
  have ix: "\<forall>j\<in>fst ` set ?L. shard_index (sm_mask sm1) j = ?i" by (auto simp: shard_list_set [OF rep i(2)] msk)
  have "distinct (map fst ?L)" using shard_list_rep(5) [OF rep i(2)] by (rule distinct_map_filter)
  from processTask_delete_rep [OF sm1(2) ix this, of cb u] obtain sm2 u' where sm2: "processTask_delete cb ?i ?L sm1 u = Some (sm2, u')"
      "skipmap_rep sm2 ((d(k \<mapsto> fresh)) |` (- fst ` set ?L))"
    by blast
  have "k \<in> fst ` set ?L" using k by (rule image_eqI [rotated]) simp
  then have "((d(k \<mapsto> fresh)) |` (- fst ` set ?L)) k = None" by (simp only: restrict_map_def Compl_iff if_False simp_thms)
  then have "SkipMap_Load k sm2 = Some None" using SkipMap_Load_rep [OF sm2(2)] by simp
  moreover have "SkipMap_Load k sm1 = Some (Some fresh)" using SkipMap_Load_rep [OF sm1(2)] by simp
  ultimately show ?thesis using processTask_scan_rep [OF rep i] sm1(1) sm2(1) by blast
qed

theorem cleaner_race_loses_fresh_value_witness:
  "\<exists>sm expired sm1 sm2 u'.
     processTask_scan \<lparr>shardIndex = int (shard_index (sm_mask sm) ''a''), task_now = 10\<rparr> sm = Some expired \<and>
     SkipMap_Store ''a'' \<lparr>item_value = 8::int, item_expiration = 1000\<rparr> sm = Some sm1 \<and>
     processTask_delete None (shard_index (sm_mask sm) ''a'') expired sm1 () = Some (sm2, u') \<and>
     SkipMap_Load ''a'' sm2 = Some None"
proof -
  let ?item = "\<lparr>item_value = 7::int, item_expiration = 5\<rparr>"
  obtain sm where sm: "skipmap_rep sm [''a'' \<mapsto> ?item]" using item_map_exists [of "''a''" ?item] by blast
  from cleaner_race_loses_fresh_value [OF sm, of "''a''" ?item
      "\<lparr>shardIndex = int (shard_index (sm_mask sm) ''a''), task_now = 10\<rparr>" "\<lparr>item_value = 8, item_expiration = 1000\<rparr>" None "()"]
  show ?thesis by (auto simp: item_expired_def)
qed



text \<open>A positive limit of \<open>GetRange\<close> counts the expired entries it meets: with \<open>a\<close> expired and
  \<open>b\<close> live, a query for one entry returns none, although \<open>Get\<close> finds \<open>b\<close> at the same instant.\<close>

theorem memcache_getRange_limit_counts_expired:
  "do { (_, c1) \<leftarrow> MemCache_Set 1 ''a'' (1::int) 5 (NewMemoryCache 4 (\<lambda>_ _. False) [WithShardCount 1], ());
        (_, c2) \<leftarrow> MemCache_Set 1 ''b'' 2 100 c1;
        (r, _) \<leftarrow> MemCache_GetRange 50 '''' '''' 1 (fst c2);
        (g, _) \<leftarrow> MemCache_Get 50 ''b'' c2;
        Some (r, g) } = Some (Inr [], Inr 2)"
  by code_simp

end
