(* ===== verification/LruMemory.thy ===== *)
theory LruMemory
  imports MemCache "HOL-Library.Signed_Division"
begin

text \<open>
  The memory-bounded cache of \<^verbatim>\<open>src/cache/cachememory.go\<close>: a memory cache whose eviction callback
  is wrapped, an estimate of the memory its values use, and a doubly linked list of the keys in the
  order of their last use. The list is an explicit heap of nodes with the head at address 0 and the
  tail at address 1. What the wrapped callback mutates (the memory counter, the list and the state
  of the original callback) is the callback state of the underlying cache; it is \<open>None\<close> after a nil
  dereference. Sizes are \<open>int64\<close>: words of 64 bits, whose sums, differences and products wrap, compared as signed numbers.
\<close>

section \<open>Sizes\<close>

type_synonym i64 = "64 word"

text \<open>A Go value as \<open>reflect\<close> sees it; \<open>VOther\<close> is every kind that \<open>sizeOf\<close> leaves to its default
  case, a slice records whether its elements are bytes.\<close>

datatype goval =
    VBool | VInt8 | VInt16 | VInt32 | VInt64 | VFloat32 | VFloat64 | VComplex64 | VComplex128
  | VPtr "goval option" | VString string | VSlice bool "goval list" | VArray "goval list"
  | VMap "(goval \<times> goval) list" | VStruct "goval list" | VOther

fun sizeOf :: "goval \<Rightarrow> i64" where
  "sizeOf VBool = 1"
| "sizeOf VInt8 = 1"
| "sizeOf VInt16 = 2"
| "sizeOf VInt32 = 4"
| "sizeOf VFloat32 = 4"
| "sizeOf VInt64 = 8"
| "sizeOf VFloat64 = 8"
| "sizeOf VComplex64 = 8"
| "sizeOf VComplex128 = 16"
| "sizeOf (VPtr None) = 8"
| "sizeOf (VPtr (Some v)) = 8 + sizeOf v"
| "sizeOf (VString s) = 16 + of_nat (length s)"
| "sizeOf (VSlice bytes vs) =
     24 + (case vs of [] \<Rightarrow> 0 | v # _ \<Rightarrow> if bytes then of_nat (length vs) else sizeOf v * of_nat (length vs))"
| "sizeOf (VArray vs) = (case vs of [] \<Rightarrow> 0 | v # _ \<Rightarrow> sizeOf v * of_nat (length vs))"
| "sizeOf (VMap kvs) = 8 + sum_list (map (\<lambda>(k, v). sizeOf k + sizeOf v) kvs)"
| "sizeOf (VStruct vs) = (let sz = sum_list (map sizeOf vs) in if sint sz smod 8 \<noteq> 0 then (word_of_int (sint sz sdiv 8) + 1) * 8 else sz)"
| "sizeOf VOther = 8"

section \<open>The access list\<close>

record listNode =
  ln_key :: string
  ln_accesstime :: instant
  ln_prev :: "nat option"
  ln_next :: "nat option"

record doubleLinkedList =
  dl_heap :: "listNode list"
  dl_nodeMap :: "nat gomap"

definition newDoubleLinkedList :: doubleLinkedList where
  "newDoubleLinkedList =
     \<lparr>dl_heap = [\<lparr>ln_key = '''', ln_accesstime = 0, ln_prev = None, ln_next = Some 1\<rparr>,
                 \<lparr>ln_key = '''', ln_accesstime = 0, ln_prev = Some 0, ln_next = None\<rparr>],
      dl_nodeMap = []\<rparr>"

definition set_next :: "nat option \<Rightarrow> nat option \<Rightarrow> listNode list \<Rightarrow> listNode list option" where
  "set_next a p h = (case a of None \<Rightarrow> None
     | Some i \<Rightarrow> if i < length h then Some (h[i := (h ! i)\<lparr>ln_next := p\<rparr>]) else None)"

definition set_prev :: "nat option \<Rightarrow> nat option \<Rightarrow> listNode list \<Rightarrow> listNode list option" where
  "set_prev a p h = (case a of None \<Rightarrow> None
     | Some i \<Rightarrow> if i < length h then Some (h[i := (h ! i)\<lparr>ln_prev := p\<rparr>]) else None)"

text \<open>\<open>node.prev.next = node.next; node.next.prev = node.prev\<close>.\<close>

definition dl_unlink :: "nat \<Rightarrow> listNode list \<Rightarrow> listNode list option" where
  "dl_unlink node h =
     (if node < length h
      then do {
        h1 \<leftarrow> set_next (ln_prev (h ! node)) (ln_next (h ! node)) h;
        set_prev (ln_next (h1 ! node)) (ln_prev (h1 ! node)) h1 }
      else None)"

text \<open>\<open>node.next = dl.head.next; node.prev = dl.head; dl.head.next.prev = node; dl.head.next = node\<close>.\<close>

definition dl_push :: "nat \<Rightarrow> listNode list \<Rightarrow> listNode list option" where
  "dl_push node h = do {
     h1 \<leftarrow> set_next (Some node) (ln_next (h ! 0)) h;
     h2 \<leftarrow> set_prev (Some node) (Some 0) h1;
     h3 \<leftarrow> set_prev (ln_next (h2 ! 0)) (Some node) h2;
     set_next (Some 0) (Some node) h3 }"

definition dl_add :: "instant \<Rightarrow> string \<Rightarrow> doubleLinkedList \<Rightarrow> doubleLinkedList option" where
  "dl_add now key dl = do {
     h \<leftarrow> (case map_of (dl_nodeMap dl) key of None \<Rightarrow> Some (dl_heap dl) | Some node \<Rightarrow> dl_unlink node (dl_heap dl));
     let node = length h;
     let h = h @ [\<lparr>ln_key = key, ln_accesstime = now, ln_prev = None, ln_next = None\<rparr>];
     h' \<leftarrow> (if ln_next (h ! 0) = None
            then do { h1 \<leftarrow> set_next (Some 0) (Some node) h; h2 \<leftarrow> set_prev (Some 1) (Some node) h1;
                      h3 \<leftarrow> set_prev (Some node) (Some 0) h2; set_next (Some node) (Some 1) h3 }
            else dl_push node h);
     Some (dl\<lparr>dl_heap := h', dl_nodeMap := AList.update key node (dl_nodeMap dl)\<rparr>) }"

definition dl_access :: "instant \<Rightarrow> string \<Rightarrow> doubleLinkedList \<Rightarrow> doubleLinkedList option" where
  "dl_access now key dl =
     (case map_of (dl_nodeMap dl) key of
        None \<Rightarrow> Some dl
      | Some node \<Rightarrow> do {
          h1 \<leftarrow> dl_unlink node (dl_heap dl);
          h2 \<leftarrow> dl_push node h1;
          Some (dl\<lparr>dl_heap := h2[node := (h2 ! node)\<lparr>ln_accesstime := now\<rparr>]\<rparr>) })"

definition dl_del :: "string \<Rightarrow> doubleLinkedList \<Rightarrow> doubleLinkedList option" where
  "dl_del key dl =
     (case map_of (dl_nodeMap dl) key of
        None \<Rightarrow> Some dl
      | Some node \<Rightarrow> do {
          h \<leftarrow> dl_unlink node (dl_heap dl);
          Some (dl\<lparr>dl_heap := h, dl_nodeMap := AList.delete key (dl_nodeMap dl)\<rparr>) })"

section \<open>The bounded cache\<close>

record 'u lru_env =
  usedMemory :: i64
  accessList :: doubleLinkedList
  origin_state :: 'u

text \<open>The state: the wrapped cache, the limit, and what the wrapped callback mutates.\<close>

record 'u MemCacheMemory =
  mcm_cache :: "(goval, 'u lru_env option) MemoryCache"
  maxMemory :: i64
  mcm_env :: "'u lru_env option"

definition wrap_evict :: "(goval, 'u lru_env option) callback \<Rightarrow> string \<Rightarrow> goval \<Rightarrow> 'u lru_env option \<Rightarrow> 'u lru_env option" where
  "wrap_evict origin key value env = do {
     e \<leftarrow> env;
     l \<leftarrow> dl_del key (accessList e);
     call_evict origin key value (Some (e\<lparr>usedMemory := usedMemory e - sizeOf value, accessList := l\<rparr>)) }"

text \<open>\<open>u\<close> is the state of the original callback when the cache is wrapped.\<close>

definition NewMemCacheMemory :: "(goval, 'u lru_env option) MemoryCache \<Rightarrow> 'u \<Rightarrow> i64 \<Rightarrow> 'u MemCacheMemory" where
  "NewMemCacheMemory c u maxMem =
     \<lparr>mcm_cache = c\<lparr>mc_onEvict := Some (wrap_evict (mc_onEvict c))\<rparr>, maxMemory = maxMem,
      mcm_env = Some \<lparr>usedMemory = 0, accessList = newDoubleLinkedList, origin_state = u\<rparr>\<rparr>"

definition LRU_Evict :: "doubleLinkedList \<Rightarrow> string option" where
  "LRU_Evict dl =
     (if ln_prev (dl_heap dl ! 1) = Some 0 then Some ''''
      else do { a \<leftarrow> ln_prev (dl_heap dl ! 1);
                if a < length (dl_heap dl) then Some (ln_key (dl_heap dl ! a)) else None })"

definition Mem_Del :: "string \<Rightarrow> 'u MemCacheMemory \<Rightarrow> ((gerror + unit) \<times> 'u MemCacheMemory) option" where
  "Mem_Del key c = do {
     (err, mc, env) \<leftarrow> MemCache_Del key (mcm_cache c, mcm_env c);
     e \<leftarrow> env;
     l \<leftarrow> (if err = Inr () then dl_del key (accessList e) else Some (accessList e));
     Some (err, c\<lparr>mcm_cache := mc, mcm_env := Some (e\<lparr>accessList := l\<rparr>)\<rparr>) }"

partial_function (option) evict_loop :: "i64 \<Rightarrow> 'u MemCacheMemory \<Rightarrow> 'u MemCacheMemory option" where
  "evict_loop sz c =
     (case mcm_env c of
        None \<Rightarrow> None
      | Some e \<Rightarrow>
          if sint (maxMemory c) < sint (usedMemory e + sz)
          then (case LRU_Evict (accessList e) of
                  None \<Rightarrow> None
                | Some evictKey \<Rightarrow>
                    if evictKey = '''' then Some c
                    else (case Mem_Del evictKey c of None \<Rightarrow> None | Some (_, c') \<Rightarrow> evict_loop sz c'))
          else Some c)"

declare evict_loop.simps [code]

definition Mem_Set :: "instant \<Rightarrow> string \<Rightarrow> goval \<Rightarrow> duration \<Rightarrow> 'u MemCacheMemory \<Rightarrow> ((gerror + unit) \<times> 'u MemCacheMemory) option" where
  "Mem_Set now key val expiration c = do {
     let sz = sizeOf val;
     c1 \<leftarrow> evict_loop sz c;
     e \<leftarrow> mcm_env c1;
     l \<leftarrow> dl_add now key (accessList e);
     (err, mc, env) \<leftarrow> MemCache_Set now key val expiration
        (mcm_cache c1, Some (e\<lparr>usedMemory := usedMemory e + sz, accessList := l\<rparr>));
     Some (err, c1\<lparr>mcm_cache := mc, mcm_env := env\<rparr>) }"

definition Mem_Get :: "instant \<Rightarrow> string \<Rightarrow> 'u MemCacheMemory \<Rightarrow> ((gerror + goval) \<times> 'u MemCacheMemory) option" where
  "Mem_Get now key c = do {
     (r, mc, env) \<leftarrow> MemCache_Get now key (mcm_cache c, mcm_env c);
     e \<leftarrow> env;
     l \<leftarrow> (case r of Inl _ \<Rightarrow> Some (accessList e) | Inr _ \<Rightarrow> dl_access now key (accessList e));
     Some (r, c\<lparr>mcm_cache := mc, mcm_env := Some (e\<lparr>accessList := l\<rparr>)\<rparr>) }"

definition Mem_MemoryUsage :: "'u MemCacheMemory \<Rightarrow> i64 option" where
  "Mem_MemoryUsage c = map_option usedMemory (mcm_env c)"

definition Mem_ItemCount :: "'u MemCacheMemory \<Rightarrow> int" where
  "Mem_ItemCount c = SkipMap_Count (mc_data (mcm_cache c))"

definition Mem_HitRate :: "'u MemCacheMemory \<Rightarrow> rat" where
  "Mem_HitRate c = MemCache_HitRate (mcm_cache c)"

definition Mem_MissRate :: "'u MemCacheMemory \<Rightarrow> rat" where
  "Mem_MissRate c = MemCache_MissRate (mcm_cache c)"

section \<open>The access list as a list of keys\<close>

fun dchain :: "listNode list \<Rightarrow> nat list \<Rightarrow> bool" where
  "dchain h [] \<longleftrightarrow> True"
| "dchain h [a] \<longleftrightarrow> True"
| "dchain h (a # b # as) \<longleftrightarrow> ln_next (h ! a) = Some b \<and> ln_prev (h ! b) = Some a \<and> dchain h (b # as)"

definition dll_inv :: "doubleLinkedList \<Rightarrow> nat list \<Rightarrow> bool" where
  "dll_inv dl ps \<longleftrightarrow> dchain (dl_heap dl) (0 # ps @ [1]) \<and> distinct (0 # ps @ [1]) \<and>
     (\<forall>a\<in>set (0 # ps @ [1]). a < length (dl_heap dl)) \<and> wf_gomap (dl_nodeMap dl) \<and>
     (\<forall>k a. map_of (dl_nodeMap dl) k = Some a \<longleftrightarrow> a \<in> set ps \<and> ln_key (dl_heap dl ! a) = k)"

text \<open>The list holds the keys \<open>ks\<close>, the most recently used first.\<close>

definition dll_rep :: "doubleLinkedList \<Rightarrow> string list \<Rightarrow> bool" where
  "dll_rep dl ks \<longleftrightarrow> (\<exists>ps. dll_inv dl ps \<and> ks = map (\<lambda>a. ln_key (dl_heap dl ! a)) ps)"

lemma dchain_app: "dchain h (xs @ a # ys) \<longleftrightarrow> dchain h (xs @ [a]) \<and> dchain h (a # ys)"
  by (induction xs rule: induct_list012) (cases ys; simp)+

lemma dchain_Cons_app: "dchain h (xs @ [p, n] @ ys) \<longleftrightarrow>
    dchain h (xs @ [p]) \<and> ln_next (h ! p) = Some n \<and> ln_prev (h ! n) = Some p \<and> dchain h (n # ys)"
  using dchain_app [of h xs p "n # ys"] by simp

lemma dchain_cong:
  assumes "\<forall>a\<in>set (butlast as). ln_next (h ! a) = ln_next (h' ! a)" "\<forall>a\<in>set (tl as). ln_prev (h ! a) = ln_prev (h' ! a)"
  shows "dchain h as = dchain h' as"
  using assms
proof (induction h as rule: dchain.induct)
  case (3 h a b as)
  have "dchain h (b # as) = dchain h' (b # as)" using 3 by (intro 3(1)) (auto split: if_splits)
  with 3 show ?case by auto
qed simp_all

lemma dl_unlink_chain:
  assumes "dchain h (xs @ p # a # n # ys)" "distinct (xs @ p # a # n # ys)" "\<forall>b\<in>set (xs @ p # a # n # ys). b < length h"
  shows "dl_unlink a h = Some (h[p := (h ! p)\<lparr>ln_next := Some n\<rparr>, n := (h ! n)\<lparr>ln_prev := Some p\<rparr>])"
    and "dchain (h[p := (h ! p)\<lparr>ln_next := Some n\<rparr>, n := (h ! n)\<lparr>ln_prev := Some p\<rparr>]) (xs @ p # n # ys)"
proof -
  let ?h = "h[p := (h ! p)\<lparr>ln_next := Some n\<rparr>, n := (h ! n)\<lparr>ln_prev := Some p\<rparr>]"
  have c: "dchain h (xs @ [p])" "dchain h (n # ys)" "ln_prev (h ! a) = Some p" "ln_next (h ! a) = Some n"
    using assms(1) dchain_app [of h xs p "a # n # ys"] by auto
  then show "dl_unlink a h = Some ?h"
    using assms(2,3) by (simp add: dl_unlink_def set_next_def set_prev_def)
  have "n \<notin> set (tl (xs @ [p]))" using assms(2) by (cases xs) auto
  then have "dchain ?h (xs @ [p]) = dchain h (xs @ [p])"
    using assms(2) by (intro dchain_cong) (auto simp: list_update_nth)
  moreover have "dchain ?h (n # ys) = dchain h (n # ys)"
    using assms(2) by (intro dchain_cong) (auto simp: list_update_nth dest: in_set_butlastD)
  ultimately show "dchain ?h (xs @ p # n # ys)"
    using c assms(2,3) dchain_Cons_app [of ?h xs p n ys] by simp
qed

lemma dl_push_chain:
  assumes "dchain h (0 # f # ys)" "distinct (0 # f # ys)" "a \<notin> set (0 # f # ys)" "\<forall>b\<in>set (a # 0 # f # ys). b < length h"
  shows "\<exists>h'. dl_push a h = Some h' \<and> dchain h' (0 # a # f # ys) \<and> length h' = length h \<and>
    (\<forall>b. ln_key (h' ! b) = ln_key (h ! b))"
proof -
  let ?h1 = "h[a := (h ! a)\<lparr>ln_next := Some f, ln_prev := Some 0\<rparr>]"
  let ?h' = "?h1[f := (?h1 ! f)\<lparr>ln_prev := Some a\<rparr>, 0 := (?h1 ! 0)\<lparr>ln_next := Some a\<rparr>]"
  have "ln_next (h ! 0) = Some f" using assms(1) by simp
  then have "dl_push a h = Some ?h'"
    using assms(2-4) by (auto simp: dl_push_def set_next_def set_prev_def)
  moreover have "dchain ?h' (f # ys) = dchain h (f # ys)"
    using assms(2,3) by (intro dchain_cong) (auto simp: list_update_nth dest: in_set_butlastD)
  then have "dchain ?h' (0 # a # f # ys)" using assms by (auto simp: nth_list_update)
  ultimately show ?thesis using assms(4) by (auto simp: nth_list_update)
qed

lemma dl_unlink_mid:
  assumes "dchain h (0 # us @ a # vs @ [1])" "distinct (0 # us @ a # vs @ [1])" "\<forall>b\<in>set (0 # us @ a # vs @ [1]). b < length h"
  shows "\<exists>h'. dl_unlink a h = Some h' \<and> dchain h' (0 # us @ vs @ [1]) \<and> length h' = length h \<and> (\<forall>b. ln_key (h' ! b) = ln_key (h ! b))"
proof -
  obtain xs p where xs: "0 # us = xs @ [p]" by (metis append_butlast_last_id list.discI)
  obtain n ys where ys: "vs @ [1] = n # ys" by (cases vs) auto
  have l: "0 # us @ a # vs @ [1] = xs @ p # a # n # ys" "0 # us @ vs @ [1] = xs @ p # n # ys"
    using xs ys by (metis append_Cons append_assoc append_Nil)+
  note u = dl_unlink_chain [of h xs p a n ys, OF assms [unfolded l(1)]]
  show ?thesis unfolding l(2) u(1) using u(2) by (auto simp: list_update_nth)
qed

lemma dll_inv_split:
  assumes "dll_inv dl ps" "map_of (dl_nodeMap dl) k = Some a"
  obtains us vs where "ps = us @ a # vs" "ln_key (dl_heap dl ! a) = k"
    "\<And>b. b \<in> set us \<union> set vs \<Longrightarrow> ln_key (dl_heap dl ! b) \<noteq> k"
proof -
  have a: "a \<in> set ps" "ln_key (dl_heap dl ! a) = k" using assms by (auto simp: dll_inv_def)
  then obtain us vs where ps: "ps = us @ a # vs" by (meson split_list)
  have "ln_key (dl_heap dl ! b) \<noteq> k" if "b \<in> set us \<union> set vs" for b
  proof
    assume k: "ln_key (dl_heap dl ! b) = k"
    have "b \<in> set ps" using that ps by auto
    with k assms have "b = a" unfolding dll_inv_def by (metis option.inject)
    moreover have "distinct ps" using assms(1) by (simp add: dll_inv_def)
    ultimately show False using that ps by auto
  qed
  with that [OF ps a(2)] show thesis by blast
qed

lemma dll_inv_inj:
  "dll_inv dl ps \<Longrightarrow> a \<in> set ps \<Longrightarrow> b \<in> set ps \<Longrightarrow> ln_key (dl_heap dl ! b) = ln_key (dl_heap dl ! a) \<Longrightarrow> b = a"
  unfolding dll_inv_def by (metis option.inject)

lemma dll_inv_absent:
  "dll_inv dl ps \<Longrightarrow> map_of (dl_nodeMap dl) k = None \<Longrightarrow> b \<in> set ps \<Longrightarrow> ln_key (dl_heap dl ! b) \<noteq> k"
  unfolding dll_inv_def by (metis option.distinct(1))

text \<open>Unlinking the node of a key from the list.\<close>

lemma dll_inv_unlink:
  assumes inv: "dll_inv dl ps" and k: "map_of (dl_nodeMap dl) k = Some a"
  shows "\<exists>h'. dl_unlink a (dl_heap dl) = Some h' \<and> length h' = length (dl_heap dl) \<and>
    (\<forall>b. ln_key (h' ! b) = ln_key (dl_heap dl ! b)) \<and>
    dchain h' (0 # filter (\<lambda>b. ln_key (dl_heap dl ! b) \<noteq> k) ps @ [1])"
proof -
  obtain us vs where ps: "ps = us @ a # vs" "ln_key (dl_heap dl ! a) = k"
      "\<And>b. b \<in> set us \<union> set vs \<Longrightarrow> ln_key (dl_heap dl ! b) \<noteq> k"
    using dll_inv_split [OF assms] by blast
  have "filter (\<lambda>b. ln_key (dl_heap dl ! b) \<noteq> k) ps = us @ vs"
    using ps by (auto simp: filter_id_conv)
  moreover have "dchain (dl_heap dl) (0 # us @ a # vs @ [1])" "distinct (0 # us @ a # vs @ [1])"
      "\<forall>b\<in>set (0 # us @ a # vs @ [1]). b < length (dl_heap dl)"
    using inv ps(1) by (auto simp: dll_inv_def)
  ultimately show ?thesis using dl_unlink_mid [of "dl_heap dl" us a vs] by auto
qed

lemma dl_del_rep:
  assumes "dll_rep dl ks"
  shows "\<exists>dl'. dl_del k dl = Some dl' \<and> dll_rep dl' (filter (\<lambda>j. j \<noteq> k) ks)"
proof -
  obtain ps where inv: "dll_inv dl ps" and ks: "ks = map (\<lambda>a. ln_key (dl_heap dl ! a)) ps"
    using assms by (auto simp: dll_rep_def)
  let ?key = "\<lambda>a. ln_key (dl_heap dl ! a)"
  show ?thesis
  proof (cases "map_of (dl_nodeMap dl) k")
    case None
    have "filter (\<lambda>j. j \<noteq> k) ks = ks" using dll_inv_absent [OF inv None] by (auto simp: ks filter_id_conv)
    with None assms show ?thesis by (simp add: dl_del_def)
  next
    case (Some a)
    obtain h' where h': "dl_unlink a (dl_heap dl) = Some h'" "length h' = length (dl_heap dl)"
        "\<forall>b. ln_key (h' ! b) = ?key b" "dchain h' (0 # filter (\<lambda>b. ?key b \<noteq> k) ps @ [1])"
      using dll_inv_unlink [OF inv Some] by blast
    let ?dl = "dl\<lparr>dl_heap := h', dl_nodeMap := AList.delete k (dl_nodeMap dl)\<rparr>"
    have "dll_inv ?dl (filter (\<lambda>b. ?key b \<noteq> k) ps)"
      using inv h' by (auto simp: dll_inv_def)
    moreover have "filter (\<lambda>j. j \<noteq> k) ks = map (\<lambda>a. ln_key (dl_heap ?dl ! a)) (filter (\<lambda>b. ?key b \<noteq> k) ps)"
      using h'(3) by (simp add: ks filter_map comp_def)
    ultimately have "dll_rep ?dl (filter (\<lambda>j. j \<noteq> k) ks)" by (auto simp: dll_rep_def)
    then show ?thesis using Some h'(1) by (simp add: dl_del_def)
  qed
qed

text \<open>Pushing a node to the front, for \<open>add\<close> and \<open>access\<close>.\<close>

lemma dll_push_front:
  assumes "dchain h (0 # ps @ [1])" "distinct (0 # ps @ [1])" "\<forall>b\<in>set (0 # ps @ [1]). b < length h"
    and "a \<notin> set (0 # ps @ [1])" "a < length h"
  shows "\<exists>h'. dl_push a h = Some h' \<and> dchain h' (0 # a # ps @ [1]) \<and> length h' = length h \<and> (\<forall>b. ln_key (h' ! b) = ln_key (h ! b))"
proof -
  obtain f ys where e: "ps @ [1] = f # ys" by (cases ps) auto
  have "\<forall>b\<in>set (a # 0 # f # ys). b < length h" using assms(3,5) unfolding e by simp
  from dl_push_chain [OF assms(1) [unfolded e] assms(2) [unfolded e] assms(4) [unfolded e] this]
  show ?thesis unfolding e .
qed

text \<open>The chain without the key's node, and the heap it lives in.\<close>

lemma dll_without:
  assumes "dll_inv dl ps"
  shows "\<exists>h. (case map_of (dl_nodeMap dl) k of None \<Rightarrow> Some (dl_heap dl) | Some node \<Rightarrow> dl_unlink node (dl_heap dl)) = Some h \<and>
    length h = length (dl_heap dl) \<and> (\<forall>b. ln_key (h ! b) = ln_key (dl_heap dl ! b)) \<and>
    dchain h (0 # filter (\<lambda>b. ln_key (dl_heap dl ! b) \<noteq> k) ps @ [1])"
proof (cases "map_of (dl_nodeMap dl) k")
  case None
  have "filter (\<lambda>b. ln_key (dl_heap dl ! b) \<noteq> k) ps = ps"
    using dll_inv_absent [OF assms None] by (auto simp: filter_id_conv)
  with None assms show ?thesis by (simp add: dll_inv_def)
next
  case (Some a)
  with dll_inv_unlink [OF assms Some] show ?thesis by simp
qed

lemma dl_add_rep:
  assumes "dll_rep dl ks"
  shows "\<exists>dl'. dl_add now k dl = Some dl' \<and> dll_rep dl' (k # filter (\<lambda>j. j \<noteq> k) ks)"
proof -
  obtain ps where inv: "dll_inv dl ps" and ks: "ks = map (\<lambda>a. ln_key (dl_heap dl ! a)) ps"
    using assms by (auto simp: dll_rep_def)
  let ?key = "\<lambda>a. ln_key (dl_heap dl ! a)" and ?new = "\<lparr>ln_key = k, ln_accesstime = now, ln_prev = None, ln_next = None\<rparr>"
  let ?qs = "filter (\<lambda>b. ?key b \<noteq> k) ps" and ?n = "length (dl_heap dl)"
  obtain h where h: "(case map_of (dl_nodeMap dl) k of None \<Rightarrow> Some (dl_heap dl) | Some node \<Rightarrow> dl_unlink node (dl_heap dl)) = Some h"
      "length h = ?n" "\<forall>b. ln_key (h ! b) = ?key b" "dchain h (0 # ?qs @ [1])"
    using dll_without [OF inv] by blast
  have D: "distinct (0 # ?qs @ [1])" "\<forall>b\<in>set (0 # ?qs @ [1]). b < ?n" using inv by (auto simp: dll_inv_def)
  have "dchain (h @ [?new]) (0 # ?qs @ [1]) = dchain h (0 # ?qs @ [1])"
    using D(2) h(2) by (intro dchain_cong) (auto simp: nth_append dest: in_set_butlastD)
  with h(4) have c: "dchain (h @ [?new]) (0 # ?qs @ [1])" by simp
  then have nx: "ln_next ((h @ [?new]) ! 0) \<noteq> None" by (cases ?qs) auto
  obtain h' where h': "dl_push ?n (h @ [?new]) = Some h'" "dchain h' (0 # ?n # ?qs @ [1])" "length h' = Suc ?n"
      "\<forall>b. ln_key (h' ! b) = ln_key ((h @ [?new]) ! b)"
    using dll_push_front [OF c D(1), of ?n] D(2) h(2) by fastforce
  let ?dl = "dl\<lparr>dl_heap := h', dl_nodeMap := AList.update k ?n (dl_nodeMap dl)\<rparr>"
  have key: "ln_key (h' ! b) = (if b = ?n then k else ?key b)" if "b \<le> ?n" for b
    using h'(4) h(2,3) that by (auto simp: nth_append)
  have "dll_inv ?dl (?n # ?qs)"
    using inv h'(2,3) key D by (auto simp: dll_inv_def)
  moreover have "k # filter (\<lambda>j. j \<noteq> k) ks = map (\<lambda>a. ln_key (dl_heap ?dl ! a)) (?n # ?qs)"
    using key D(2) by (auto simp: ks filter_map comp_def)
  ultimately have "dll_rep ?dl (k # filter (\<lambda>j. j \<noteq> k) ks)" unfolding dll_rep_def by (intro exI conjI)
  moreover have "dl_add now k dl = Some ?dl" using h(1,2) h'(1) nx by (auto simp: dl_add_def Let_def)
  ultimately show ?thesis by blast
qed

lemma dl_access_rep:
  assumes "dll_rep dl ks"
  shows "\<exists>dl'. dl_access now k dl = Some dl' \<and> dll_rep dl' (if k \<in> set ks then k # filter (\<lambda>j. j \<noteq> k) ks else ks)"
proof -
  obtain ps where inv: "dll_inv dl ps" and ks: "ks = map (\<lambda>a. ln_key (dl_heap dl ! a)) ps"
    using assms by (auto simp: dll_rep_def)
  let ?key = "\<lambda>a. ln_key (dl_heap dl ! a)"
  let ?qs = "filter (\<lambda>b. ?key b \<noteq> k) ps"
  show ?thesis
  proof (cases "map_of (dl_nodeMap dl) k")
    case None
    with assms dll_inv_absent [OF inv None] show ?thesis by (auto simp: dl_access_def ks)
  next
    case (Some a)
    then have a: "a \<in> set ps" "?key a = k" "k \<in> set ks" using inv by (auto simp: dll_inv_def ks)
    obtain h where h: "dl_unlink a (dl_heap dl) = Some h" "length h = length (dl_heap dl)"
        "\<forall>b. ln_key (h ! b) = ?key b" "dchain h (0 # ?qs @ [1])"
      using dll_inv_unlink [OF inv Some] by blast
    have D: "distinct (0 # ?qs @ [1])" "\<forall>b\<in>set (0 # ?qs @ [1]). b < length h" "a \<notin> set (0 # ?qs @ [1])" "a < length h"
      using inv h(2) a by (auto simp: dll_inv_def)
    obtain h' where h': "dl_push a h = Some h'" "dchain h' (0 # a # ?qs @ [1])" "length h' = length h"
        "\<forall>b. ln_key (h' ! b) = ln_key (h ! b)"
      using dll_push_front [OF h(4) D] by blast
    let ?h = "h'[a := (h' ! a)\<lparr>ln_accesstime := now\<rparr>]"
    let ?dl = "dl\<lparr>dl_heap := ?h\<rparr>"
    have key: "ln_key (?h ! b) = ?key b" for b using h'(4) h(3) by (simp add: list_update_nth)
    have "dchain ?h (0 # a # ?qs @ [1]) = dchain h' (0 # a # ?qs @ [1])" by (rule dchain_cong) (auto simp: list_update_nth)
    with h'(2) have ch: "dchain ?h (0 # a # ?qs @ [1])" by simp
    have nm: "map_of (dl_nodeMap dl) j = Some b \<longleftrightarrow> b \<in> set (a # ?qs) \<and> ?key b = j" for j b
    proof -
      have "map_of (dl_nodeMap dl) j = Some b \<longleftrightarrow> b \<in> set ps \<and> ?key b = j" using inv by (simp add: dll_inv_def)
      also have "\<dots> \<longleftrightarrow> b \<in> set (a # ?qs) \<and> ?key b = j" using a dll_inv_inj [OF inv a(1), of b] by auto
      finally show ?thesis .
    qed
    have "dll_inv ?dl (a # ?qs)"
      unfolding dll_inv_def using ch D h'(3) key nm inv by (simp add: dll_inv_def)
    moreover have "k # filter (\<lambda>j. j \<noteq> k) ks = map (\<lambda>a. ln_key (dl_heap ?dl ! a)) (a # ?qs)"
      using key a(2) by (auto simp: ks filter_map comp_def)
    ultimately have "dll_rep ?dl (k # filter (\<lambda>j. j \<noteq> k) ks)" unfolding dll_rep_def by (intro exI conjI)
    moreover have "dl_access now k dl = Some ?dl" using Some h(1) h'(1) by (simp add: dl_access_def)
    ultimately show ?thesis using a(3) by simp
  qed
qed

lemma dll_rep_distinct: "dll_rep dl ks \<Longrightarrow> distinct ks"
proof -
  assume "dll_rep dl ks"
  then obtain ps where inv: "dll_inv dl ps" "ks = map (\<lambda>a. ln_key (dl_heap dl ! a)) ps" by (auto simp: dll_rep_def)
  have "inj_on (\<lambda>a. ln_key (dl_heap dl ! a)) (set ps)"
    using dll_inv_inj [OF inv(1)] by (auto intro: inj_onI)
  with inv show ?thesis by (simp add: dll_inv_def distinct_map)
qed

lemma dll_rep_new: "dll_rep newDoubleLinkedList []"
  unfolding dll_rep_def by (rule exI [of _ "[]"]) (simp add: dll_inv_def newDoubleLinkedList_def)

lemma LRU_Evict_rep:
  assumes "dll_rep dl ks"
  shows "LRU_Evict dl = Some (if ks = [] then '''' else last ks)"
proof -
  obtain ps where inv: "dll_inv dl ps" "ks = map (\<lambda>a. ln_key (dl_heap dl ! a)) ps" using assms by (auto simp: dll_rep_def)
  show ?thesis
  proof (cases ps rule: rev_cases)
    case Nil
    with inv show ?thesis by (simp add: dll_inv_def LRU_Evict_def)
  next
    case (snoc us a)
    have "dchain (dl_heap dl) ((0 # us) @ [a, 1] @ [])" using inv(1) snoc by (simp add: dll_inv_def)
    then have "ln_prev (dl_heap dl ! 1) = Some a" unfolding dchain_Cons_app by simp
    with inv snoc show ?thesis by (auto simp: LRU_Evict_def dll_inv_def)
  qed
qed

section \<open>The bounded cache\<close>

text \<open>The original callback of the wrapped cache sees only its own state.\<close>

definition lift_callback :: "(goval, 'u) callback \<Rightarrow> (goval, 'u lru_env option) callback" where
  "lift_callback cb = map_option (\<lambda>f key value env. map_option (\<lambda>e. e\<lparr>origin_state := f key value (origin_state e)\<rparr>) env) cb"

text \<open>The data is the map \<open>d\<close>, the access list holds exactly its keys, the most recently used first.\<close>

definition lru_rep :: "'u MemCacheMemory \<Rightarrow> (string \<rightharpoonup> goval cacheItem) \<Rightarrow> string list \<Rightarrow> bool" where
  "lru_rep c d ks \<longleftrightarrow> skipmap_rep (mc_data (mcm_cache c)) d \<and>
     (\<exists>cb. mc_onEvict (mcm_cache c) = Some (wrap_evict (lift_callback cb))) \<and>
     (\<exists>e. mcm_env c = Some e \<and> dll_rep (accessList e) ks) \<and> set ks = dom d"

definition used :: "'u MemCacheMemory \<Rightarrow> i64" where
  "used c = usedMemory (the (mcm_env c))"

definition entry_size :: "(string \<rightharpoonup> goval cacheItem) \<Rightarrow> string \<Rightarrow> i64" where
  "entry_size d k = (case d k of None \<Rightarrow> 0 | Some item \<Rightarrow> sizeOf (item_value item))"

definition total_size :: "(string \<rightharpoonup> goval cacheItem) \<Rightarrow> i64" where
  "total_size d = (\<Sum>k\<in>dom d. entry_size d k)"

lemma lift_callback_call:
  "call_evict (lift_callback cb) k v (Some e) = Some (e\<lparr>origin_state := call_evict cb k v (origin_state e)\<rparr>)"
  by (cases cb) (simp_all add: lift_callback_def call_evict_def)

lemma wrap_evict_rep:
  assumes "dll_rep (accessList e) ks"
  shows "\<exists>e'. wrap_evict (lift_callback cb) k v (Some e) = Some e' \<and>
    usedMemory e' = usedMemory e - sizeOf v \<and> dll_rep (accessList e') (filter (\<lambda>j. j \<noteq> k) ks)"
proof -
  obtain l where "dl_del k (accessList e) = Some l" "dll_rep l (filter (\<lambda>j. j \<noteq> k) ks)"
    using dl_del_rep [OF assms] by blast
  then show ?thesis by (simp add: wrap_evict_def lift_callback_call)
qed

lemma lru_repD:
  assumes "lru_rep c d ks"
  obtains cb e where "skipmap_rep (mc_data (mcm_cache c)) d" "mc_onEvict (mcm_cache c) = Some (wrap_evict (lift_callback cb))"
    "mcm_env c = Some e" "dll_rep (accessList e) ks" "set ks = dom d" "distinct ks" "used c = usedMemory e"
  using assms dll_rep_distinct by (auto simp: lru_rep_def used_def)

lemma Mem_Del_rep:
  assumes "lru_rep c d ks"
  shows "\<exists>c'. Mem_Del k c = Some (Inr (), c') \<and> lru_rep c' (d(k := None)) (filter (\<lambda>j. j \<noteq> k) ks) \<and>
    used c' = used c - entry_size d k \<and> maxMemory c' = maxMemory c"
proof -
  obtain cb e where D: "skipmap_rep (mc_data (mcm_cache c)) d" "mc_onEvict (mcm_cache c) = Some (wrap_evict (lift_callback cb))"
      "mcm_env c = Some e" "dll_rep (accessList e) ks" "set ks = dom d" "distinct ks" "used c = usedMemory e"
    using assms by (rule lru_repD)
  have cb: "call_evict (mc_onEvict (mcm_cache c)) = wrap_evict (lift_callback cb)"
    by (simp add: D(2) call_evict_def fun_eq_iff)
  let ?env = "case d k of None \<Rightarrow> Some e | Some item \<Rightarrow> wrap_evict (lift_callback cb) k (item_value item) (Some e)"
  obtain sm' where sm': "MemCache_Del k (mcm_cache c, Some e) = Some (Inr (), (mcm_cache c)\<lparr>mc_data := sm'\<rparr>, ?env)"
      "skipmap_rep sm' (d(k := None))"
    using MemCache_Del_data [OF D(1), of k "Some e"] unfolding cb by blast
  obtain e' where e': "?env = Some e'" "usedMemory e' = usedMemory e - entry_size d k"
      "dll_rep (accessList e') (filter (\<lambda>j. j \<noteq> k) ks)"
  proof (cases "d k")
    case None
    then have "filter (\<lambda>j. j \<noteq> k) ks = ks" using D(5) by (auto simp: filter_id_conv)
    with None D(4) that show ?thesis by (simp add: entry_size_def)
  next
    case (Some item)
    with wrap_evict_rep [OF D(4), of cb k "item_value item"] that show ?thesis by (auto simp: entry_size_def)
  qed
  obtain l where l: "dl_del k (accessList e') = Some l" "dll_rep l (filter (\<lambda>j. j \<noteq> k) ks)"
    using dl_del_rep [OF e'(3), of k] by auto
  let ?c = "c\<lparr>mcm_cache := (mcm_cache c)\<lparr>mc_data := sm'\<rparr>, mcm_env := Some (e'\<lparr>accessList := l\<rparr>)\<rparr>"
  have "Mem_Del k c = Some (Inr (), ?c)" using sm'(1) e'(1) l(1) by (simp add: Mem_Del_def D(3))
  moreover have "lru_rep ?c (d(k := None)) (filter (\<lambda>j. j \<noteq> k) ks)"
    using sm'(2) l(2) D(2,5) by (auto simp: lru_rep_def)
  ultimately show ?thesis using e'(2) D(7) by (auto simp: used_def)
qed

text \<open>The loop keeps the longest prefix of the access order that fits, or stops before the empty key, which \<open>Evict\<close> cannot
  tell from the absence of a key.\<close>

lemma evict_loop_rep:
  assumes "lru_rep c d ks"
  shows "\<exists>c' n. evict_loop sz c = Some c' \<and> n \<le> length ks \<and> lru_rep c' (d |` set (take n ks)) (take n ks) \<and>
    used c' = used c - sum_list (map (entry_size d) (drop n ks)) \<and> maxMemory c' = maxMemory c \<and>
    (sint (used c' + sz) \<le> sint (maxMemory c) \<or> n = 0 \<or> ks ! (n - 1) = '''') \<and>
    (\<forall>m. n < m \<and> m \<le> length ks \<longrightarrow> sint (maxMemory c) < sint (used c - sum_list (map (entry_size d) (drop m ks)) + sz))"
  using assms
proof (induction ks arbitrary: c d rule: rev_induct)
  case Nil
  obtain e where D: "mcm_env c = Some e" "dll_rep (accessList e) []" "dom d = {}"
    using Nil(1) by (auto simp: lru_rep_def)
  then have "evict_loop sz c = Some c" by (simp add: evict_loop.simps LRU_Evict_rep)
  with Nil D(3) show ?case by simp
next
  case (snoc k ks)
  obtain cb e where D: "mcm_env c = Some e" "dll_rep (accessList e) (ks @ [k])" "dom d = set (ks @ [k])"
      "distinct (ks @ [k])" "used c = usedMemory e"
    using snoc.prems(1) by (auto elim: lru_repD)
  show ?case
  proof (cases "sint (used c + sz) \<le> sint (maxMemory c) \<or> k = ''''")
    case True
    then have "evict_loop sz c = Some c" using D(1,5) LRU_Evict_rep [OF D(2)] by (auto simp: evict_loop.simps)
    moreover have "d |` set (ks @ [k]) = d" using D(3) by (auto simp: restrict_map_def fun_eq_iff domIff)
    ultimately show ?thesis using True snoc.prems(1) by (intro exI [of _ c] exI [of _ "Suc (length ks)"]) auto
  next
    case False
    have filt: "filter (\<lambda>j. j \<noteq> k) (ks @ [k]) = ks" using D(4) by (auto simp: filter_id_conv)
    obtain c1 where c1: "Mem_Del k c = Some (Inr (), c1)" "lru_rep c1 (d(k := None)) ks"
        "used c1 = used c - entry_size d k" "maxMemory c1 = maxMemory c"
      using Mem_Del_rep [OF snoc.prems(1), of k] filt by auto
    have loop: "evict_loop sz c = evict_loop sz c1"
      using False D(1,5) LRU_Evict_rep [OF D(2)] c1(1) by (subst evict_loop.simps) simp
    have sizes: "map (entry_size (d(k := None))) (drop m ks) = map (entry_size d) (drop m ks)" for m
      using D(4) by (intro map_cong refl) (auto simp: entry_size_def dest: in_set_dropD)
    obtain c' n where n: "evict_loop sz c1 = Some c'" "n \<le> length ks" "lru_rep c' ((d(k := None)) |` set (take n ks)) (take n ks)"
        "used c' = used c1 - sum_list (map (entry_size d) (drop n ks))" "maxMemory c' = maxMemory c1"
        "sint (used c' + sz) \<le> sint (maxMemory c1) \<or> n = 0 \<or> ks ! (n - 1) = ''''"
        "\<forall>m. n < m \<and> m \<le> length ks \<longrightarrow> sint (maxMemory c1) < sint (used c1 - sum_list (map (entry_size d) (drop m ks)) + sz)"
      using snoc.IH [OF c1(2)] unfolding sizes by blast
    have "(d(k := None)) |` set (take n ks) = d |` set (take n ks)"
      using D(4) by (auto simp: restrict_map_def fun_eq_iff dest: in_set_takeD)
    moreover have "sint (maxMemory c) < sint (used c - sum_list (map (entry_size d) (drop m (ks @ [k]))) + sz)"
      if "n < m" "m \<le> Suc (length ks)" for m
    proof (cases "m = Suc (length ks)")
      case True
      with False show ?thesis by simp
    next
      case m: False
      with that n(7) c1(3,4) show ?thesis by (auto simp: diff_diff_add add.commute)
    qed
    moreover have "n = 0 \<or> (ks @ [k]) ! (n - 1) = ks ! (n - 1)" using n(2) by (auto simp: nth_append)
    ultimately show ?thesis
      using n(1-6) c1(3,4) loop by (intro exI [of _ c'] exI [of _ n]) (auto simp: diff_diff_add add.commute)
  qed
qed

lemma Mem_Set_rep:
  assumes "lru_rep c d ks" and item_def: "item = \<lparr>item_value = val, item_expiration = now + expiration\<rparr>"
  shows "\<exists>c' n. Mem_Set now key val expiration c = Some (Inr (), c') \<and> n \<le> length ks \<and>
    lru_rep c' ((d |` set (take n ks))(key \<mapsto> item)) (key # filter (\<lambda>j. j \<noteq> key) (take n ks)) \<and>
    used c' = used c - sum_list (map (entry_size d) (drop n ks)) + sizeOf val \<and> maxMemory c' = maxMemory c \<and>
    (sint (used c') \<le> sint (maxMemory c) \<or> n = 0 \<or> ks ! (n - 1) = '''') \<and>
    (\<forall>m. n < m \<and> m \<le> length ks \<longrightarrow> sint (maxMemory c) < sint (used c - sum_list (map (entry_size d) (drop m ks)) + sizeOf val))"
proof -
  obtain c1 n where c1: "evict_loop (sizeOf val) c = Some c1" "n \<le> length ks" "lru_rep c1 (d |` set (take n ks)) (take n ks)"
      "used c1 = used c - sum_list (map (entry_size d) (drop n ks))" "maxMemory c1 = maxMemory c"
      "sint (used c1 + sizeOf val) \<le> sint (maxMemory c) \<or> n = 0 \<or> ks ! (n - 1) = ''''"
      "\<forall>m. n < m \<and> m \<le> length ks \<longrightarrow> sint (maxMemory c) < sint (used c - sum_list (map (entry_size d) (drop m ks)) + sizeOf val)"
    using evict_loop_rep [OF assms(1)] by blast
  obtain cb e where D: "skipmap_rep (mc_data (mcm_cache c1)) (d |` set (take n ks))" "mc_onEvict (mcm_cache c1) = Some (wrap_evict (lift_callback cb))"
      "mcm_env c1 = Some e" "dll_rep (accessList e) (take n ks)" "set (take n ks) = dom (d |` set (take n ks))" "distinct (take n ks)"
      "used c1 = usedMemory e"
    using c1(3) by (rule lru_repD)
  obtain l where l: "dl_add now key (accessList e) = Some l" "dll_rep l (key # filter (\<lambda>j. j \<noteq> key) (take n ks))"
    using dl_add_rep [OF D(4)] by blast
  let ?e = "e\<lparr>usedMemory := usedMemory e + sizeOf val, accessList := l\<rparr>"
  obtain sm' where sm': "MemCache_Set now key val expiration (mcm_cache c1, Some ?e) = Some (Inr (), (mcm_cache c1)\<lparr>mc_data := sm'\<rparr>, Some ?e)"
      "skipmap_rep sm' ((d |` set (take n ks))(key \<mapsto> item))"
    using MemCache_Set_data [OF D(1), of now key val expiration "Some ?e"] unfolding item_def by blast
  let ?c = "c1\<lparr>mcm_cache := (mcm_cache c1)\<lparr>mc_data := sm'\<rparr>, mcm_env := Some ?e\<rparr>"
  have "Mem_Set now key val expiration c = Some (Inr (), ?c)"
    using c1(1) l(1) sm'(1) by (simp add: Mem_Set_def D(3))
  moreover have "set (key # filter (\<lambda>j. j \<noteq> key) (take n ks)) = dom ((d |` set (take n ks))(key \<mapsto> item))"
    using D(5) by (auto simp del: dom_restrict)
  then have "lru_rep ?c ((d |` set (take n ks))(key \<mapsto> item)) (key # filter (\<lambda>j. j \<noteq> key) (take n ks))"
    using sm'(2) l(2) D(2) by (auto simp: lru_rep_def)
  moreover have "used ?c = used c1 + sizeOf val" by (simp add: used_def D(3))
  ultimately show ?thesis using c1(2,4-7) by (intro exI [of _ ?c] exI [of _ n]) simp
qed

lemma Mem_Get_rep:
  assumes "lru_rep c d ks"
  shows "\<exists>c' d' ks'. Mem_Get now k c = Some (get_result (live now (ttl_of d) k), c') \<and> lru_rep c' d' ks' \<and>
    (if live now (ttl_of d) k = None
     then d' = d(k := None) \<and> ks' = filter (\<lambda>j. j \<noteq> k) ks \<and> used c' = used c - entry_size d k
     else d' = d \<and> ks' = k # filter (\<lambda>j. j \<noteq> k) ks \<and> used c' = used c) \<and> maxMemory c' = maxMemory c"
proof -
  obtain cb e where D: "skipmap_rep (mc_data (mcm_cache c)) d" "mc_onEvict (mcm_cache c) = Some (wrap_evict (lift_callback cb))"
      "mcm_env c = Some e" "dll_rep (accessList e) ks" "set ks = dom d" "distinct ks" "used c = usedMemory e"
    using assms by (rule lru_repD)
  have cb: "call_evict (mc_onEvict (mcm_cache c)) = wrap_evict (lift_callback cb)"
    by (simp add: D(2) call_evict_def fun_eq_iff)
  obtain mc' d' where g: "MemCache_Get now k (mcm_cache c, Some e) = Some (get_result (live now (ttl_of d) k), mc',
        case d k of None \<Rightarrow> Some e | Some item \<Rightarrow> if item_expired now item then wrap_evict (lift_callback cb) k (item_value item) (Some e) else Some e)"
      "skipmap_rep (mc_data mc') d'" "mc_onEvict mc' = mc_onEvict (mcm_cache c)"
      "d' = (case d k of None \<Rightarrow> d | Some item \<Rightarrow> if item_expired now item then d(k := None) else d)"
    using MemCache_Get_data [OF D(1), of now k "Some e"] unfolding cb by blast
  show ?thesis
  proof (cases "live now (ttl_of d) k")
    case None
    obtain e' where e': "(case d k of None \<Rightarrow> Some e | Some item \<Rightarrow> if item_expired now item then wrap_evict (lift_callback cb) k (item_value item) (Some e) else Some e) = Some e'"
        "usedMemory e' = usedMemory e - entry_size d k" "dll_rep (accessList e') (filter (\<lambda>j. j \<noteq> k) ks)"
    proof (cases "d k")
      case None
      then have "filter (\<lambda>j. j \<noteq> k) ks = ks" using D(5) by (auto simp: filter_id_conv)
      with None D(4) that show ?thesis by (simp add: entry_size_def)
    next
      case (Some item)
      with \<open>live now (ttl_of d) k = None\<close> wrap_evict_rep [OF D(4), of cb k "item_value item"] that
      show ?thesis by (auto simp: entry_size_def live_ttl_of split: if_splits)
    qed
    have "d' = d(k := None)" using g(4) None by (auto simp: live_ttl_of split: option.splits if_splits)
    then have "lru_rep (c\<lparr>mcm_cache := mc', mcm_env := Some e'\<rparr>) (d(k := None)) (filter (\<lambda>j. j \<noteq> k) ks)"
      using g(2,3) D(2,5) e'(3) by (auto simp: lru_rep_def)
    moreover have "Mem_Get now k c = Some (Inl ErrKeyNotFound, c\<lparr>mcm_cache := mc', mcm_env := Some e'\<rparr>)"
      using g(1) e'(1) None by (simp add: Mem_Get_def D(3))
    ultimately show ?thesis using None e'(2) D(7) by (auto simp: used_def)
  next
    case (Some v)
    then have dk: "k \<in> dom d" "d' = d" using g(4) by (auto simp: live_ttl_of split: option.splits if_splits)
    obtain l where l: "dl_access now k (accessList e) = Some l" "dll_rep l (k # filter (\<lambda>j. j \<noteq> k) ks)"
      using dl_access_rep [OF D(4), of now k] dk D(5) by auto
    have "Mem_Get now k c = Some (Inr v, c\<lparr>mcm_cache := mc', mcm_env := Some (e\<lparr>accessList := l\<rparr>)\<rparr>)"
      using g(1) Some l(1) by (auto simp: Mem_Get_def D(3) live_ttl_of split: option.splits if_splits)
    moreover have "lru_rep (c\<lparr>mcm_cache := mc', mcm_env := Some (e\<lparr>accessList := l\<rparr>)\<rparr>) d (k # filter (\<lambda>j. j \<noteq> k) ks)"
      using g(2,3) D(2,5) dk l(2) by (auto simp: lru_rep_def)
    ultimately show ?thesis using Some D(3) by (auto simp: used_def)
  qed
qed

section \<open>Accounting\<close>

lemma lru_dom_finite: "lru_rep c d ks \<Longrightarrow> finite (dom d)"
  by (auto simp: lru_rep_def skipmap_rep_def)

lemma total_list: "distinct ks \<Longrightarrow> set ks = dom d \<Longrightarrow> total_size d = sum_list (map (entry_size d) ks)"
  by (simp add: total_size_def sum_list_distinct_conv_sum_set)

lemma total_upd:
  assumes "finite (dom d)"
  shows "total_size (d(k \<mapsto> item)) = total_size d - entry_size d k + sizeOf (item_value item)"
    and "total_size (d(k := None)) = total_size d - entry_size d k"
proof -
  have rest: "(\<Sum>j\<in>dom d - {k}. entry_size (d(k := x)) j) = (\<Sum>j\<in>dom d - {k}. entry_size d j)" for x
    by (rule sum.cong) (auto simp: entry_size_def)
  have all: "total_size d = (\<Sum>j\<in>dom d - {k}. entry_size d j) + entry_size d k"
  proof (cases "k \<in> dom d")
    case True
    then show ?thesis using sum.remove [OF assms True, of "entry_size d"] by (simp add: total_size_def)
  next
    case False
    then have "dom d - {k} = dom d" "entry_size d k = 0" by (auto simp: entry_size_def domIff)
    then show ?thesis by (simp add: total_size_def)
  qed
  have "dom (d(k \<mapsto> item)) = insert k (dom d - {k})" by auto
  then have "total_size (d(k \<mapsto> item)) = (\<Sum>j\<in>insert k (dom d - {k}). entry_size (d(k \<mapsto> item)) j)"
    by (simp only: total_size_def)
  also have "\<dots> = entry_size (d(k \<mapsto> item)) k + (\<Sum>j\<in>dom d - {k}. entry_size (d(k \<mapsto> item)) j)"
    using assms by (intro sum.insert) auto
  also have "\<dots> = sizeOf (item_value item) + (\<Sum>j\<in>dom d - {k}. entry_size d j)"
    unfolding rest by (simp add: entry_size_def)
  finally have "total_size (d(k \<mapsto> item)) = sizeOf (item_value item) + (\<Sum>j\<in>dom d - {k}. entry_size d j)" .
  with all show "total_size (d(k \<mapsto> item)) = total_size d - entry_size d k + sizeOf (item_value item)" by simp
  have "total_size (d(k := None)) = (\<Sum>j\<in>dom d - {k}. entry_size d j)"
    using rest [of None] by (simp add: total_size_def)
  with all show "total_size (d(k := None)) = total_size d - entry_size d k" by simp
qed

lemma total_take:
  assumes "distinct ks" "set ks = dom d"
  shows "total_size (d |` set (take n ks)) = total_size d - sum_list (map (entry_size d) (drop n ks))"
proof -
  have dom: "set (take n ks) = dom (d |` set (take n ks))" using assms(2) by (auto dest: in_set_takeD)
  have "sum_list (map (entry_size (d |` set (take n ks))) (take n ks)) = sum_list (map (entry_size d) (take n ks))"
    by (intro arg_cong [where f = sum_list] map_cong refl) (simp add: entry_size_def restrict_map_def)
  moreover have "total_size (d |` set (take n ks)) = sum_list (map (entry_size (d |` set (take n ks))) (take n ks))"
    using total_list [OF distinct_take [OF assms(1)] dom] .
  moreover have "sum_list (map (entry_size d) ks) = sum_list (map (entry_size d) (take n ks)) + sum_list (map (entry_size d) (drop n ks))"
    by (metis append_take_drop_id map_append sum_list_append)
  ultimately show ?thesis using total_list [OF assms] by simp
qed

lemma NewMemCacheMemory_rep:
  assumes "skipmap_rep (mc_data c) Map.empty" "mc_onEvict c = lift_callback cb"
  shows "lru_rep (NewMemCacheMemory c u maxMem) Map.empty []" "used (NewMemCacheMemory c u maxMem) = 0"
  using assms dll_rep_new by (auto simp: lru_rep_def NewMemCacheMemory_def used_def)

lemma lru_new:
  "lru_rep (NewMemCacheMemory (NewMemoryCache 1 (\<lambda>_ _. False) []) u maxMem) Map.empty []"
  "used (NewMemCacheMemory (NewMemoryCache 1 (\<lambda>_ _. False) []) u maxMem) = 0"
proof -
  let ?c = "NewMemoryCache 1 (\<lambda>_ _. False) [] :: (goval, 'a lru_env option) MemoryCache"
  have c: "skipmap_rep (mc_data ?c) Map.empty" "mc_onEvict ?c = lift_callback None"
    by (simp_all add: NewMemoryCache_def default_cache_def NewSkipShardedMap_rep DefaultShardCount_def Let_def lift_callback_def)
  show "lru_rep (NewMemCacheMemory ?c u maxMem) Map.empty []" "used (NewMemCacheMemory ?c u maxMem) = 0"
    using NewMemCacheMemory_rep [OF c] by blast+
qed

section \<open>Properties\<close>





text \<open>Overwriting a key leaks its old size: when nothing has to be evicted, \<open>Set\<close> of a key that is
  already held adds the size of the new value without giving back that of the old one, so the
  estimate exceeds the sum of the sizes held by the old value's size.\<close>

theorem lru_overwrite_leaks:
  assumes "lru_rep c d ks" "used c = total_size d" "d key = Some old"
    and "sint (used c + sizeOf val) \<le> sint (maxMemory c)"
  shows "\<exists>c' ks'. Mem_Set now key val expiration c = Some (Inr (), c') \<and>
    lru_rep c' (d(key \<mapsto> \<lparr>item_value = val, item_expiration = now + expiration\<rparr>)) ks' \<and>
    used c' = total_size (d(key \<mapsto> \<lparr>item_value = val, item_expiration = now + expiration\<rparr>)) + sizeOf (item_value old)"
proof -
  note fin = lru_dom_finite [OF assms(1)]
  have ks: "distinct ks" "set ks = dom d" using assms(1) by (auto elim: lru_repD)
  let ?item = "\<lparr>item_value = val, item_expiration = now + expiration\<rparr>"
  obtain c' n where c': "Mem_Set now key val expiration c = Some (Inr (), c')" "n \<le> length ks"
      "lru_rep c' ((d |` set (take n ks))(key \<mapsto> ?item)) (key # filter (\<lambda>j. j \<noteq> key) (take n ks))"
      "used c' = used c - sum_list (map (entry_size d) (drop n ks)) + sizeOf val"
      "\<forall>m. n < m \<and> m \<le> length ks \<longrightarrow> sint (maxMemory c) < sint (used c - sum_list (map (entry_size d) (drop m ks)) + sizeOf val)"
    using Mem_Set_rep [OF assms(1) refl, of now key val expiration] by blast
  have n: "n = length ks"
  proof (rule ccontr)
    assume "n \<noteq> length ks"
    with c'(2) c'(5) [rule_format, of "length ks"] have "sint (maxMemory c) < sint (used c + sizeOf val)" by simp
    with assms(4) show False by simp
  qed
  have "d |` set (take n ks) = d" using ks n by (auto simp: restrict_map_def fun_eq_iff domIff)
  moreover have "entry_size d key = sizeOf (item_value old)" using assms(3) by (simp add: entry_size_def)
  ultimately have "used c' = total_size (d(key \<mapsto> ?item)) + sizeOf (item_value old)" and "lru_rep c' (d(key \<mapsto> ?item)) (key # filter (\<lambda>j. j \<noteq> key) ks)"
    using c'(3,4) n total_upd(1) [OF fin, of key ?item] assms(2) by simp_all
  with c'(1) show ?thesis by blast
qed

theorem lru_overwrite_leaks_witness:
  "\<exists>c1 c2. Mem_Set 1 ''a'' (VString ''xyz'') 10
      (NewMemCacheMemory (NewMemoryCache 1 (\<lambda>_ _. False) []) () 100) = Some (Inr (), c1) \<and>
    Mem_Set 2 ''a'' VInt64 10 c1 = Some (Inr (), c2) \<and> used c2 = 8 + 19"
proof -
  let ?item = "\<lparr>item_value = VString ''xyz'', item_expiration = 11\<rparr>"
  obtain c1 where c1: "Mem_Set 1 ''a'' (VString ''xyz'') 10 (NewMemCacheMemory (NewMemoryCache 1 (\<lambda>_ _. False) []) () 100) = Some (Inr (), c1)"
      "lru_rep c1 [''a'' \<mapsto> ?item] [''a'']" "used c1 = 19" "maxMemory c1 = 100"
    using Mem_Set_rep [OF lru_new(1) [of "()" 100] refl, of 1 "''a''" "VString ''xyz''" 10] lru_new(2) [of "()" 100]
    by (auto simp: restrict_map_def NewMemCacheMemory_def)
  have "total_size [''a'' \<mapsto> ?item] = 19" by (simp add: total_size_def entry_size_def)
  then obtain c2 ks2 where c2: "Mem_Set 2 ''a'' VInt64 10 c1 = Some (Inr (), c2)"
      "used c2 = total_size ([''a'' \<mapsto> ?item](''a'' \<mapsto> \<lparr>item_value = VInt64, item_expiration = 2 + 10\<rparr>)) + sizeOf (item_value ?item)"
    using lru_overwrite_leaks [OF c1(2), of "''a''" ?item VInt64 2 10] c1(3,4) by auto
  from c2(2) have "used c2 = 8 + 19" by (simp add: total_size_def entry_size_def)
  with c1(1) c2(1) show ?thesis by blast
qed

lemma evict_calls_lift:
  "\<exists>e'. evict_calls (lift_callback cb) L (Some e) = Some e' \<and> usedMemory e' = usedMemory e \<and> accessList e' = accessList e"
proof (induction L arbitrary: e)
  case (Cons p L)
  obtain k item where p: "p = (k, item)" by force
  show ?case
    using Cons.IH [of "e\<lparr>origin_state := call_evict cb k (item_value item) (origin_state e)\<rparr>"]
    by (simp add: p lift_callback_call)
qed simp

text \<open>With asynchronous clean-up the memory accounting is bypassed: the cleaner keeps the callback
  the cache had when it was built, not the one \<open>NewMemCacheMemory\<close> wraps around it, so a clean-up
  task purges expired entries while the memory estimate and the access list stay as they were.\<close>

theorem lru_async_cleaner_bypasses_accounting:
  assumes "skipmap_rep sm d" "0 \<le> shardIndex task" "shardIndex task < SkipMap_ShardCount sm"
  shows "\<exists>cl sm' e'. mc_cleaner (mcm_cache (NewMemCacheMemory
        (NewMemoryCache numCPU rnd [WithAsyncCleanup True, WithEvictionCallback (lift_callback cb)]) u maxMem)) = Some cl \<and>
    processTask cl task sm (Some e) = Some (sm', Some e') \<and>
    skipmap_rep sm' (purge (task_now task) (\<lambda>k. int (shard_index (sm_mask sm) k) = shardIndex task) d) \<and>
    usedMemory e' = usedMemory e \<and> accessList e' = accessList e"
proof -
  let ?c = "NewMemoryCache numCPU rnd [WithAsyncCleanup True, WithEvictionCallback (lift_callback cb)]"
  obtain cl where cl: "mc_cleaner (mcm_cache (NewMemCacheMemory ?c u maxMem)) = Some cl" "cl_onEvict cl = lift_callback cb"
    by (simp add: NewMemCacheMemory_def NewMemoryCache_def default_cache_def WithAsyncCleanup_def WithEvictionCallback_def
        Cleaner_Start_def NewCleaner_def WithCleanerWorkerCount_def WithCleanerQueueSize_def WithCleanerEvictionCallback_def
        DefaultQueueSize_def Let_def)
  have "nat (shardIndex task) < length (sm_shards sm)"
    using assms by (simp add: SkipMap_ShardCount_def skipmap_rep_def nat_less_iff)
  from processTask_rep [OF assms(1,2) this, of cl "Some e"] obtain sm' L where
      "processTask cl task sm (Some e) = Some (sm', evict_calls (lift_callback cb) L (Some e))"
      "skipmap_rep sm' (purge (task_now task) (\<lambda>k. int (shard_index (sm_mask sm) k) = shardIndex task) d)"
    unfolding cl(2) by blast
  with cl(1) evict_calls_lift [of cb L e] show ?thesis by auto
qed

theorem lru_async_cleaner_bypasses_accounting_witness:
  "\<exists>sm cl sm' e'. skipmap_rep sm [''a'' \<mapsto> \<lparr>item_value = VInt64, item_expiration = 5\<rparr>] \<and>
     mc_cleaner (mcm_cache (NewMemCacheMemory
        (NewMemoryCache 1 (\<lambda>_ _. False) [WithAsyncCleanup True, WithEvictionCallback (lift_callback None)]) () 100)) = Some cl \<and>
     processTask cl \<lparr>shardIndex = int (shard_index (sm_mask sm) ''a''), task_now = 10\<rparr> sm
       (Some \<lparr>usedMemory = 8, accessList = newDoubleLinkedList, origin_state = ()\<rparr>) = Some (sm', Some e') \<and>
     skipmap_rep sm' Map.empty \<and> usedMemory e' = 8"
proof -
  let ?item = "\<lparr>item_value = VInt64, item_expiration = 5\<rparr>"
  obtain sm where sm: "skipmap_rep sm [''a'' \<mapsto> ?item]" using item_map_exists [of "''a''" ?item] by blast
  have lt: "int (shard_index (sm_mask sm) ''a'') < SkipMap_ShardCount sm"
    using sm by (auto simp: skipmap_rep_def shards_rep_def SkipMap_ShardCount_def)
  have "purge 10 (\<lambda>k. int (shard_index (sm_mask sm) k) = int (shard_index (sm_mask sm) ''a'')) [''a'' \<mapsto> ?item] = Map.empty"
    by (auto simp: purge_def item_expired_def fun_eq_iff)
  with lru_async_cleaner_bypasses_accounting [OF sm, of "\<lparr>shardIndex = int (shard_index (sm_mask sm) ''a''), task_now = 10\<rparr>"
      1 "\<lambda>_ _. False" None "()" 100 "\<lparr>usedMemory = 8, accessList = newDoubleLinkedList, origin_state = ()\<rparr>"] sm lt
  show ?thesis by auto
qed

end
