(* ===== verification/ConstHash.thy ===== *)
theory ConstHash
  imports Prelude
begin

text \<open>
  The consistent-hash ring of \<^verbatim>\<open>src/cache/consthash.go\<close>: virtual nodes hashed onto the ring of
  32-bit values, lookup by binary search for the next virtual node, replica selection by walking on
  from there. The hash function is the field \<open>hashFunc\<close> (the IEEE CRC-32 of \<^verbatim>\<open>hash/crc32\<close> by
  default); the properties hold for every hash function, collisions included, unless they say so.
\<close>

section \<open>Hashing and searching\<close>

definition crc32_step :: "u32 \<Rightarrow> u32" where
  "crc32_step c = (if bit c 0 then drop_bit 1 c XOR 0xEDB88320 else drop_bit 1 c)"

definition crc32_ChecksumIEEE :: "string \<Rightarrow> u32" where
  "crc32_ChecksumIEEE s = NOT (foldl (\<lambda>c b. (crc32_step ^^ 8) (c XOR of_char b)) (NOT 0) s)"

fun itoa :: "nat \<Rightarrow> string" where
  "itoa n = (if n < 10 then [char_of (48 + n)] else itoa (n div 10) @ [char_of (48 + n mod 10)])"

declare itoa.simps [simp del]

text \<open>\<open>sort.Search\<close> of the standard library.\<close>

function sort_Search :: "(nat \<Rightarrow> bool) \<Rightarrow> nat \<Rightarrow> nat \<Rightarrow> nat" where
  "sort_Search f i j =
     (if i < j
      then (let h = (i + j) div 2 in if \<not> f h then sort_Search f (h + 1) j else sort_Search f i h)
      else i)"
  by pat_completeness auto
termination
  by (relation "measure (\<lambda>(f, i, j). j - i)") (auto simp: Let_def)

declare sort_Search.simps [simp del]

section \<open>State and operations\<close>

record ConsistentHash =
  hashFunc :: "string \<Rightarrow> u32"
  replicas :: int
  sortedHashes :: "u32 list"
  hashMap :: "(u32 \<times> string) list"
  weights :: "int gomap"
  nodeHashes :: "u32 list gomap"

definition defaultReplicas :: int where
  "defaultReplicas = 100"

definition NewConsistentHash :: "int \<Rightarrow> (string \<Rightarrow> u32) option \<Rightarrow> ConsistentHash" where
  "NewConsistentHash reps fn =
     \<lparr>hashFunc = (case fn of None \<Rightarrow> crc32_ChecksumIEEE | Some f \<Rightarrow> f),
      replicas = (if reps \<le> 0 then defaultReplicas else reps),
      sortedHashes = [], hashMap = [], weights = [], nodeHashes = []\<rparr>"

definition removeWithoutLock :: "string \<Rightarrow> ConsistentHash \<Rightarrow> ConsistentHash" where
  "removeWithoutLock node c =
     (case map_of (nodeHashes c) node of
        None \<Rightarrow> c
      | Some hashes \<Rightarrow>
          c\<lparr>hashMap := fold AList.delete hashes (hashMap c),
            sortedHashes := filter (\<lambda>h. h \<notin> set hashes) (sortedHashes c),
            weights := AList.delete node (weights c),
            nodeHashes := AList.delete node (nodeHashes c)\<rparr>)"

definition virtual_hashes :: "ConsistentHash \<Rightarrow> string \<Rightarrow> int \<Rightarrow> u32 list" where
  "virtual_hashes c node weight =
     map (\<lambda>i. hashFunc c (node @ '':'' @ itoa i)) [0..<nat (replicas c * weight)]"

definition Ring_Add :: "string \<Rightarrow> int \<Rightarrow> ConsistentHash \<Rightarrow> ConsistentHash" where
  "Ring_Add node weight c =
     (let weight = (if weight \<le> 0 then 1 else weight);
          c = (if map_of (weights c) node \<noteq> None then removeWithoutLock node c else c);
          hashes = virtual_hashes c node weight
      in c\<lparr>weights := AList.update node weight (weights c),
           sortedHashes := sort (sortedHashes c @ hashes),
           hashMap := fold (\<lambda>h. AList.update h node) hashes (hashMap c),
           nodeHashes := AList.update node hashes (nodeHashes c)\<rparr>)"

definition Ring_Remove :: "string \<Rightarrow> ConsistentHash \<Rightarrow> ConsistentHash" where
  "Ring_Remove node c = removeWithoutLock node c"

definition ring_search :: "u32 \<Rightarrow> ConsistentHash \<Rightarrow> nat" where
  "ring_search hash c =
     (let n = length (sortedHashes c) in
      if n = 0 then 0
      else (let idx = sort_Search (\<lambda>i. hash \<le> sortedHashes c ! i) 0 n in if idx = n then 0 else idx))"

text \<open>A Go map read of an absent key gives the zero value, the empty string.\<close>

definition node_at :: "ConsistentHash \<Rightarrow> nat \<Rightarrow> string option" where
  "node_at c idx =
     (if idx < length (sortedHashes c)
      then Some (case map_of (hashMap c) (sortedHashes c ! idx) of None \<Rightarrow> '''' | Some node \<Rightarrow> node) else None)"

definition Ring_Get :: "string \<Rightarrow> ConsistentHash \<Rightarrow> string option" where
  "Ring_Get key c =
     (if length (sortedHashes c) = 0 then Some '''' else node_at c (ring_search (hashFunc c key) c))"

text \<open>The walk of \<open>GetN\<close>; \<open>uniqueNodes\<close> is the set of the elements of \<open>result\<close>.\<close>

partial_function (option) getn_loop :: "ConsistentHash \<Rightarrow> int \<Rightarrow> nat \<Rightarrow> string list \<Rightarrow> string list option" where
  "getn_loop c count idx result =
     (if int (length result) < count \<and> length result < length (weights c)
      then (let idx = (if length (sortedHashes c) \<le> idx then 0 else idx) in
            case node_at c idx of
              None \<Rightarrow> None
            | Some node \<Rightarrow> getn_loop c count ((idx + 1) mod length (sortedHashes c))
                (if node \<in> set result then result else result @ [node]))
      else Some result)"

declare getn_loop.simps [code]

definition Ring_GetN :: "string \<Rightarrow> int \<Rightarrow> ConsistentHash \<Rightarrow> string list option" where
  "Ring_GetN key count c =
     (if length (sortedHashes c) = 0 \<or> length (weights c) = 0 then Some []
      else if count < 0 then None
      else getn_loop c count (ring_search (hashFunc c key) c) [])"

definition Ring_GetNodes :: "ConsistentHash \<Rightarrow> string list" where
  "Ring_GetNodes c = map fst (weights c)"

section \<open>Searching\<close>

lemma sort_Search_spec:
  assumes "\<And>a b. a \<le> b \<Longrightarrow> b < n \<Longrightarrow> f a \<Longrightarrow> f b" "i \<le> j" "j \<le> n" "\<forall>k<i. \<not> f k" "\<forall>k. j \<le> k \<and> k < n \<longrightarrow> f k"
  shows "(\<forall>k < sort_Search f i j. \<not> f k) \<and> (\<forall>k. sort_Search f i j \<le> k \<and> k < n \<longrightarrow> f k) \<and> sort_Search f i j \<le> n"
  using assms
proof (induction f i j rule: sort_Search.induct)
  case (1 f i j)
  show ?case
  proof (cases "i < j")
    case True
    define h where "h = (i + j) div 2"
    have h: "i \<le> h" "h < j" using True by (auto simp: h_def)
    show ?thesis
    proof (cases "f h")
      case True
      have "\<forall>k. h \<le> k \<and> k < n \<longrightarrow> f k" using 1(3) True by blast
      with 1(2) [OF \<open>i < j\<close> h_def] True 1(3-6) h show ?thesis
        by (subst (1 2 3) sort_Search.simps) (simp add: h_def [symmetric] Let_def)
    next
      case False
      have "\<forall>k<h + 1. \<not> f k" using 1(3) [of _ h] False h 1(5) by (metis Suc_eq_plus1 less_Suc_eq_le order_less_le_trans)
      with 1(1) [OF \<open>i < j\<close> h_def] False 1(3-7) h show ?thesis
        by (subst (1 2 3) sort_Search.simps) (simp add: h_def [symmetric] Let_def)
    qed
  next
    case False
    then have "sort_Search f i j = i" by (subst sort_Search.simps) simp
    with False 1(4-7) show ?thesis by auto
  qed
qed

text \<open>The virtual node that owns a hash: the next one on the ring, the least of all when there is
  none above.\<close>

definition successor :: "u32 set \<Rightarrow> u32 \<Rightarrow> u32" where
  "successor H x = (if \<exists>h\<in>H. x \<le> h then Min {h \<in> H. x \<le> h} else Min H)"

lemma ring_search_successor:
  assumes "sorted (sortedHashes c)" "sortedHashes c \<noteq> []"
  shows "ring_search x c < length (sortedHashes c)" "sortedHashes c ! ring_search x c = successor (set (sortedHashes c)) x"
proof -
  let ?hs = "sortedHashes c" and ?n = "length (sortedHashes c)"
  let ?i = "sort_Search (\<lambda>i. x \<le> ?hs ! i) 0 ?n"
  have mono: "?hs ! a \<le> ?hs ! b" if "a \<le> b" "b < ?n" for a b using assms(1) that by (simp add: sorted_iff_nth_mono)
  have "(\<forall>k<?i. \<not> x \<le> ?hs ! k) \<and> (\<forall>k. ?i \<le> k \<and> k < ?n \<longrightarrow> x \<le> ?hs ! k) \<and> ?i \<le> ?n"
  proof (rule sort_Search_spec)
    show "x \<le> ?hs ! b" if "a \<le> b" "b < ?n" "x \<le> ?hs ! a" for a b
      using that(3) mono [OF that(1,2)] by (rule order_trans)
  qed auto
  then have lo: "\<And>k. k < ?i \<Longrightarrow> \<not> x \<le> ?hs ! k" and hi: "\<And>k. ?i \<le> k \<Longrightarrow> k < ?n \<Longrightarrow> x \<le> ?hs ! k" and le: "?i \<le> ?n"
    by blast+
  have idx: "ring_search x c = (if ?i = ?n then 0 else ?i)" using assms(2) by (simp add: ring_search_def Let_def)
  then show "ring_search x c < ?n" using le assms(2) by auto
  show "?hs ! ring_search x c = successor (set ?hs) x"
  proof (cases "?i = ?n")
    case True
    then have "\<not> (\<exists>h\<in>set ?hs. x \<le> h)" using lo by (metis in_set_conv_nth)
    moreover have "Min (set ?hs) = ?hs ! 0"
      using mono assms(2) by (intro Min_eqI) (auto simp: in_set_conv_nth)
    ultimately show ?thesis using idx True by (simp add: successor_def)
  next
    case False
    then have i: "?i < ?n" using le by simp
    have "Min {h \<in> set ?hs. x \<le> h} = ?hs ! ?i"
    proof (rule Min_eqI)
      fix y assume "y \<in> {h \<in> set ?hs. x \<le> h}"
      then obtain k where k: "k < ?n" "?hs ! k = y" "x \<le> y" by (auto simp: in_set_conv_nth)
      then have "?i \<le> k" using lo [of k] by (metis not_le)
      with mono k show "?hs ! ?i \<le> y" by auto
    qed (use i hi [of ?i] in auto)
    moreover have "\<exists>h\<in>set ?hs. x \<le> h" using hi [of ?i] i by (meson nth_mem order_refl)
    ultimately show ?thesis using idx False by (simp add: successor_def)
  qed
qed

section \<open>The invariant of the ring\<close>

text \<open>The sorted list holds exactly the hashes of the hash map, every hash belongs to a node of the
  ring and is recorded as one of its hashes.\<close>

definition ring_inv :: "ConsistentHash \<Rightarrow> bool" where
  "ring_inv c \<longleftrightarrow> sorted (sortedHashes c) \<and> set (sortedHashes c) = dom (map_of (hashMap c)) \<and>
     distinct (map fst (hashMap c)) \<and> wf_gomap (weights c) \<and> wf_gomap (nodeHashes c) \<and>
     dom (map_of (nodeHashes c)) = dom (map_of (weights c)) \<and>
     (\<forall>h n. map_of (hashMap c) h = Some n \<longrightarrow> (\<exists>hs. map_of (nodeHashes c) n = Some hs \<and> h \<in> set hs))"

lemma ring_invD:
  assumes "ring_inv c"
  shows "sorted (sortedHashes c)" "set (sortedHashes c) = dom (map_of (hashMap c))" "distinct (map fst (hashMap c))"
    "wf_gomap (weights c)" "wf_gomap (nodeHashes c)" "dom (map_of (nodeHashes c)) = dom (map_of (weights c))"
    "\<And>h n. map_of (hashMap c) h = Some n \<Longrightarrow> \<exists>hs. map_of (nodeHashes c) n = Some hs \<and> h \<in> set hs"
  using assms by (auto simp: ring_inv_def)

lemma fold_delete:
  "map_of (fold AList.delete hs m) h = (if h \<in> set hs then None else map_of m h)"
  "distinct (map fst m) \<Longrightarrow> distinct (map fst (fold AList.delete hs m))"
proof (induction hs arbitrary: m)
  case (Cons x hs)
  { case 1 show ?case using Cons(1) [of "AList.delete x m"] by (auto simp: delete_conv') }
  { case 2 then show ?case using Cons(2) [of "AList.delete x m"] by (simp add: distinct_delete) }
qed simp_all

lemma fold_update:
  "map_of (fold (\<lambda>h. AList.update h n) hs m) h = (if h \<in> set hs then Some n else map_of m h)"
  "distinct (map fst m) \<Longrightarrow> distinct (map fst (fold (\<lambda>h. AList.update h n) hs m))"
proof (induction hs arbitrary: m)
  case (Cons x hs)
  { case 1 show ?case using Cons(1) [of "AList.update x n m"] by (auto simp: update_conv') }
  { case 2 then show ?case using Cons(2) [of "AList.update x n m"] by (simp add: distinct_update) }
qed simp_all

lemma remove_maps:
  assumes "map_of (nodeHashes c) node = Some hs"
  shows "map_of (hashMap (removeWithoutLock node c)) h = (if h \<in> set hs then None else map_of (hashMap c) h)"
    "sortedHashes (removeWithoutLock node c) = filter (\<lambda>h. h \<notin> set hs) (sortedHashes c)"
    "map_of (weights (removeWithoutLock node c)) = (map_of (weights c))(node := None)"
    "map_of (nodeHashes (removeWithoutLock node c)) = (map_of (nodeHashes c))(node := None)"
  using assms by (simp_all add: removeWithoutLock_def fold_delete)

lemma remove_hashFunc [simp]: "hashFunc (removeWithoutLock node c) = hashFunc c" "replicas (removeWithoutLock node c) = replicas c"
  by (simp_all add: removeWithoutLock_def split: option.splits)

lemma removeWithoutLock_inv:
  assumes inv: "ring_inv c"
  shows "ring_inv (removeWithoutLock node c)"
proof (cases "map_of (nodeHashes c) node")
  case None
  then show ?thesis using inv by (simp add: removeWithoutLock_def)
next
  case (Some hs)
  note D = ring_invD [OF inv] and R = remove_maps [OF Some]
  have "\<exists>hs'. map_of (nodeHashes (removeWithoutLock node c)) n = Some hs' \<and> h \<in> set hs'"
    if "map_of (hashMap (removeWithoutLock node c)) h = Some n" for h n
    using that D(7) [of h n] Some by (auto simp: R split: if_splits)
  moreover have "set (sortedHashes (removeWithoutLock node c)) = dom (map_of (hashMap (removeWithoutLock node c)))"
    using D(2) by (auto simp: R dom_def)
  moreover have "sorted (sortedHashes (removeWithoutLock node c))" using D(1) by (simp add: R sorted_wrt_filter)
  moreover have "distinct (map fst (hashMap (removeWithoutLock node c)))" "wf_gomap (weights (removeWithoutLock node c))"
      "wf_gomap (nodeHashes (removeWithoutLock node c))"
    using D(3-5) Some by (simp_all add: removeWithoutLock_def fold_delete)
  moreover have "dom (map_of (nodeHashes (removeWithoutLock node c))) = dom (map_of (weights (removeWithoutLock node c)))"
    using D(6) by (simp add: R)
  ultimately show ?thesis by (simp add: ring_inv_def)
qed

text \<open>\<open>Add\<close> first removes a node of that name.\<close>

definition without :: "string \<Rightarrow> ConsistentHash \<Rightarrow> ConsistentHash" where
  "without node c = (if map_of (weights c) node \<noteq> None then removeWithoutLock node c else c)"

definition eff_weight :: "int \<Rightarrow> int" where
  "eff_weight w = (if w \<le> 0 then 1 else w)"

lemma Ring_Add_fields:
  "hashFunc (Ring_Add node w c) = hashFunc c" "replicas (Ring_Add node w c) = replicas c"
  "sortedHashes (Ring_Add node w c) = sort (sortedHashes (without node c) @ virtual_hashes c node (eff_weight w))"
  "map_of (hashMap (Ring_Add node w c)) h =
     (if h \<in> set (virtual_hashes c node (eff_weight w)) then Some node else map_of (hashMap (without node c)) h)"
  "map_of (weights (Ring_Add node w c)) = (map_of (weights (without node c)))(node \<mapsto> eff_weight w)"
  "map_of (nodeHashes (Ring_Add node w c)) = (map_of (nodeHashes (without node c)))(node \<mapsto> virtual_hashes c node (eff_weight w))"
  by (auto simp: Ring_Add_def Let_def without_def eff_weight_def virtual_hashes_def fold_update)

lemma without_inv: "ring_inv c \<Longrightarrow> ring_inv (without node c)"
  by (simp add: without_def removeWithoutLock_inv)

lemma without_absent:
  assumes "ring_inv c"
  shows "map_of (weights (without node c)) node = None" "map_of (nodeHashes (without node c)) node = None"
proof -
  have "map_of (weights (without node c)) node = None"
  proof (cases "map_of (weights c) node")
    case (Some w)
    then obtain hs where "map_of (nodeHashes c) node = Some hs" using ring_invD(6) [OF assms] by blast
    with Some show ?thesis by (simp add: without_def remove_maps)
  qed (simp add: without_def)
  then show "map_of (weights (without node c)) node = None" "map_of (nodeHashes (without node c)) node = None"
    using ring_invD(6) [OF without_inv [OF assms, of node]] by (auto simp: domIff)
qed

lemma Ring_Add_inv:
  assumes inv: "ring_inv c"
  shows "ring_inv (Ring_Add node w c)"
proof -
  note D = ring_invD [OF without_inv [OF inv, of node]] and F = Ring_Add_fields and A = without_absent [OF inv, of node]
  have "\<exists>hs. map_of (nodeHashes (Ring_Add node w c)) n = Some hs \<and> h \<in> set hs"
    if "map_of (hashMap (Ring_Add node w c)) h = Some n" for h n
    using that D(7) [of h n] A(2) by (auto simp: F split: if_splits)
  moreover have "set (sortedHashes (Ring_Add node w c)) = dom (map_of (hashMap (Ring_Add node w c)))"
    using D(2) by (auto simp: F dom_def)
  moreover have "distinct (map fst (hashMap (Ring_Add node w c)))" "wf_gomap (weights (Ring_Add node w c))"
      "wf_gomap (nodeHashes (Ring_Add node w c))"
    using D(3-5) by (simp_all add: Ring_Add_def Let_def without_def fold_update split: if_splits)
  moreover have "dom (map_of (nodeHashes (Ring_Add node w c))) = dom (map_of (weights (Ring_Add node w c)))"
    using D(6) by (simp add: F)
  ultimately show ?thesis by (simp add: ring_inv_def F)
qed

lemma NewConsistentHash_inv: "ring_inv (NewConsistentHash reps fn)"
  by (simp add: ring_inv_def NewConsistentHash_def)

section \<open>Lookup\<close>

definition ring_owner :: "ConsistentHash \<Rightarrow> string \<Rightarrow> string option" where
  "ring_owner c key = map_of (hashMap c) (successor (dom (map_of (hashMap c))) (hashFunc c key))"

lemma ring_empty: "ring_inv c \<Longrightarrow> sortedHashes c = [] \<longleftrightarrow> map_of (hashMap c) = Map.empty"
  using ring_invD(2) [of c] by (metis dom_eq_empty_conv set_empty)

lemma successor_in: "finite H \<Longrightarrow> H \<noteq> {} \<Longrightarrow> successor H x \<in> H"
  using Min_in [of "{h \<in> H. x \<le> h}"] Min_in [of H] by (auto simp: successor_def)

lemma node_at_search:
  assumes "ring_inv c" "sortedHashes c \<noteq> []"
  shows "node_at c (ring_search (hashFunc c key) c) = ring_owner c key" "ring_owner c key \<noteq> None"
proof -
  note D = ring_invD [OF assms(1)] and s = ring_search_successor [OF ring_invD(1) [OF assms(1)] assms(2), of "hashFunc c key"]
  have "successor (dom (map_of (hashMap c))) (hashFunc c key) \<in> dom (map_of (hashMap c))"
    using D(2) assms(2) by (intro successor_in) (auto simp: finite_dom_map_of)
  then show "ring_owner c key \<noteq> None" by (auto simp: ring_owner_def)
  then show "node_at c (ring_search (hashFunc c key) c) = ring_owner c key"
    using s D(2) by (auto simp: node_at_def ring_owner_def)
qed

lemma Ring_Get_owner:
  assumes "ring_inv c"
  shows "Ring_Get key c = Some (case ring_owner c key of None \<Rightarrow> '''' | Some n \<Rightarrow> n)"
proof (cases "sortedHashes c = []")
  case True
  then have "ring_owner c key = None" using ring_empty [OF assms] by (simp add: ring_owner_def)
  with True show ?thesis by (simp add: Ring_Get_def)
next
  case False
  then show ?thesis using node_at_search [OF assms False, of key] by (auto simp: Ring_Get_def)
qed

lemma ring_owner_node: "ring_inv c \<Longrightarrow> ring_owner c key = Some n \<Longrightarrow> n \<in> dom (map_of (weights c))"
  using ring_invD(6,7) [of c] by (fastforce simp: ring_owner_def)

section \<open>Moving keys\<close>

lemma successor_subset:
  assumes "finite H" "H' \<subseteq> H" "successor H x \<in> H'"
  shows "successor H' x = successor H x"
proof -
  have fin: "finite H'" using assms(1,2) finite_subset by blast
  show ?thesis
  proof (cases "\<exists>h\<in>H. x \<le> h")
    case True
    then have s: "successor H x = Min {h \<in> H. x \<le> h}" by (simp add: successor_def)
    moreover have "successor H x \<in> {h \<in> H. x \<le> h}" unfolding s using assms(1) True by (intro Min_in) auto
    ultimately have "Min {h \<in> H'. x \<le> h} = successor H x" using assms fin by (intro Min_eqI) auto
    moreover have "\<exists>h\<in>H'. x \<le> h" using \<open>successor H x \<in> {h \<in> H. x \<le> h}\<close> assms(3) by blast
    ultimately show ?thesis by (simp add: successor_def)
  next
    case False
    then have "successor H x = Min H" "\<not> (\<exists>h\<in>H'. x \<le> h)" using assms(2) by (auto simp: successor_def)
    moreover from this have "Min H' = successor H x" using assms fin by (intro Min_eqI) auto
    ultimately show ?thesis by (simp add: successor_def)
  qed
qed

lemma ring_owner_remove:
  assumes inv: "ring_inv c" and hs: "map_of (nodeHashes c) node = Some hs" and own: "\<forall>h\<in>set hs. map_of (hashMap c) h = Some node"
    and other: "ring_owner c key = Some n" "n \<noteq> node"
  shows "ring_owner (Ring_Remove node c) key = Some n"
proof -
  let ?H = "dom (map_of (hashMap c))" and ?c = "Ring_Remove node c"
  let ?s = "successor ?H (hashFunc c key)"
  have m: "map_of (hashMap ?c) h = (if h \<in> set hs then None else map_of (hashMap c) h)" for h
    using remove_maps(1) [OF hs] by (simp add: Ring_Remove_def)
  have s: "map_of (hashMap c) ?s = Some n" using other(1) by (simp add: ring_owner_def)
  then have "?s \<notin> set hs" using own other(2) by auto
  moreover have "dom (map_of (hashMap ?c)) \<subseteq> ?H" by (auto simp: m dom_def split: if_splits)
  ultimately have "successor (dom (map_of (hashMap ?c))) (hashFunc c key) = ?s"
    using s by (intro successor_subset) (auto simp: finite_dom_map_of m)
  then show ?thesis using s \<open>?s \<notin> set hs\<close> by (simp add: ring_owner_def m) (simp add: Ring_Remove_def)
qed

lemma ring_owner_add:
  assumes inv: "ring_inv c" and new: "map_of (weights c) node = None"
  shows "ring_owner (Ring_Add node w c) key = ring_owner c key \<or> ring_owner (Ring_Add node w c) key = Some node"
proof -
  let ?c = "Ring_Add node w c" and ?V = "set (virtual_hashes c node (eff_weight w))"
  let ?s = "successor (dom (map_of (hashMap ?c))) (hashFunc c key)"
  have m: "map_of (hashMap ?c) h = (if h \<in> ?V then Some node else map_of (hashMap c) h)" for h
    using new by (simp add: Ring_Add_fields without_def)
  show ?thesis
  proof (cases "?s \<in> ?V")
    case True
    then show ?thesis by (simp add: ring_owner_def Ring_Add_fields)
  next
    case False
    show ?thesis
    proof (cases "map_of (hashMap ?c) = Map.empty")
      case True
      then have "map_of (hashMap c) = Map.empty" using m by (metis (no_types) option.distinct(1) ext)
      with True show ?thesis by (simp add: ring_owner_def)
    next
      case nonempty: False
      have "?s \<in> dom (map_of (hashMap ?c))" using nonempty by (intro successor_in) (auto simp: finite_dom_map_of)
      then have "?s \<in> dom (map_of (hashMap c))" using False m by (metis domIff)
      moreover have "dom (map_of (hashMap c)) \<subseteq> dom (map_of (hashMap ?c))" by (auto simp: m dom_def)
      ultimately have "successor (dom (map_of (hashMap c))) (hashFunc c key) = ?s"
        by (intro successor_subset) (auto simp: finite_dom_map_of)
      with False show ?thesis by (simp add: ring_owner_def m) (simp add: Ring_Add_fields(1))
    qed
  qed
qed

section \<open>Replica selection\<close>

text \<open>Every node of the ring owns at least one position: no node has lost all its virtual nodes to
  collisions.\<close>

definition ring_full :: "ConsistentHash \<Rightarrow> bool" where
  "ring_full c \<longleftrightarrow> ran (map_of (hashMap c)) = dom (map_of (weights c))"

lemma node_at_Some:
  assumes "ring_inv c" "i < length (sortedHashes c)"
  obtains n where "node_at c i = Some n" "map_of (hashMap c) (sortedHashes c ! i) = Some n" "n \<in> dom (map_of (weights c))"
proof -
  have "sortedHashes c ! i \<in> dom (map_of (hashMap c))" using ring_invD(2) [OF assms(1)] assms(2) by (metis nth_mem)
  then obtain n where n: "map_of (hashMap c) (sortedHashes c ! i) = Some n" by blast
  moreover have "n \<in> dom (map_of (weights c))" using ring_invD(6,7) [OF assms(1)] n by blast
  ultimately show thesis using that assms(2) by (auto simp: node_at_def)
qed

lemma getn_loop_spec:
  assumes inv: "ring_inv c" and n: "n = length (sortedHashes c)" "0 < n" and "idx < n" "distinct result"
    and "set result \<subseteq> dom (map_of (weights c))" "int (length result) \<le> count"
    and "\<forall>nd\<in>dom (map_of (weights c)). nd \<in> set result \<or> (\<exists>k<m. node_at c ((idx + k) mod n) = Some nd)"
  shows "\<exists>ys. getn_loop c count idx result = Some (result @ ys) \<and> distinct (result @ ys) \<and>
    set ys \<subseteq> dom (map_of (weights c)) \<and> int (length (result @ ys)) = min count (int (length (weights c))) \<and>
    (result = [] \<and> ys \<noteq> [] \<longrightarrow> node_at c idx = Some (hd ys))"
  using assms(4-)
proof (induction m arbitrary: idx result)
  case 0
  then have "set result = dom (map_of (weights c))" by auto
  then have "length result = length (weights c)"
    using 0(2) length_gomap_card [OF ring_invD(4) [OF inv]] by (metis distinct_card)
  with 0 show ?case by (intro exI [of _ "[]"]) (subst getn_loop.simps, simp)
next
  case (Suc m)
  have le: "length result \<le> length (weights c)"
    using Suc.prems(2,3) length_gomap_card [OF ring_invD(4) [OF inv]]
    by (metis card_mono distinct_card finite_dom_map_of)
  show ?case
  proof (cases "int (length result) < count \<and> length result < length (weights c)")
    case False
    with Suc.prems le show ?thesis by (intro exI [of _ "[]"]) (subst getn_loop.simps, auto)
  next
    case True
    obtain nd where nd: "node_at c idx = Some nd" "nd \<in> dom (map_of (weights c))"
      using node_at_Some [OF inv, of idx] Suc.prems(1) n(1) by metis
    let ?r = "if nd \<in> set result then result else result @ [nd]"
    have step: "getn_loop c count idx result = getn_loop c count ((idx + 1) mod n) ?r"
      using True nd(1) Suc.prems(1) n(1) by (subst getn_loop.simps) simp
    have cover: "\<forall>x\<in>dom (map_of (weights c)). x \<in> set ?r \<or> (\<exists>k<m. node_at c (((idx + 1) mod n + k) mod n) = Some x)"
    proof
      fix x assume x: "x \<in> dom (map_of (weights c))"
      then consider "x \<in> set result" | k where "k < Suc m" "node_at c ((idx + k) mod n) = Some x" using Suc.prems(5) by blast
      then show "x \<in> set ?r \<or> (\<exists>k<m. node_at c (((idx + 1) mod n + k) mod n) = Some x)"
      proof cases
        case (2 k)
        show ?thesis
        proof (cases k)
          case 0
          with 2 nd(1) Suc.prems(1) show ?thesis by auto
        next
          case (Suc j)
          with 2 have "node_at c (((idx + 1) mod n + j) mod n) = Some x" by (simp add: mod_add_left_eq)
          with 2 Suc show ?thesis by auto
        qed
      qed auto
    qed
    have "\<exists>ys. getn_loop c count ((idx + 1) mod n) ?r = Some (?r @ ys) \<and> distinct (?r @ ys) \<and>
        set ys \<subseteq> dom (map_of (weights c)) \<and> int (length (?r @ ys)) = min count (int (length (weights c))) \<and>
        (?r = [] \<and> ys \<noteq> [] \<longrightarrow> node_at c ((idx + 1) mod n) = Some (hd ys))"
      using cover Suc.prems(2-4) nd(2) True n(2) by (intro Suc.IH) auto
    then obtain ys where ys: "getn_loop c count idx result = Some (?r @ ys)" "distinct (?r @ ys)"
        "set ys \<subseteq> dom (map_of (weights c))" "int (length (?r @ ys)) = min count (int (length (weights c)))"
      unfolding step by blast
    show ?thesis
    proof (cases "nd \<in> set result")
      case True
      with ys show ?thesis by (intro exI [of _ ys]) auto
    next
      case False
      with ys nd show ?thesis by (intro exI [of _ "nd # ys"]) auto
    qed
  qed
qed

lemma Ring_GetN_full:
  assumes inv: "ring_inv c" and full: "ring_full c" and "0 \<le> count" "weights c \<noteq> []"
  shows "\<exists>ns. Ring_GetN key count c = Some ns \<and> distinct ns \<and> set ns \<subseteq> dom (map_of (weights c)) \<and>
    int (length ns) = min count (int (length (weights c))) \<and> (0 < count \<longrightarrow> ring_owner c key = Some (hd ns))"
proof -
  have "dom (map_of (weights c)) \<noteq> {}" using assms(4) by simp
  then have "map_of (hashMap c) \<noteq> Map.empty" using full unfolding ring_full_def by (metis ran_empty)
  then have ne: "sortedHashes c \<noteq> []" using ring_empty [OF inv] by simp
  let ?n = "length (sortedHashes c)" and ?i = "ring_search (hashFunc c key) c"
  have i: "?i < ?n" using ring_search_successor(1) [OF ring_invD(1) [OF inv] ne] by blast
  have cover: "\<exists>k<?n. node_at c ((?i + k) mod ?n) = Some nd" if nd: "nd \<in> dom (map_of (weights c))" for nd
  proof -
    obtain h where h: "map_of (hashMap c) h = Some nd" using nd full by (auto simp: ring_full_def ran_def)
    then obtain j where j: "j < ?n" "sortedHashes c ! j = h" using ring_invD(2) [OF inv] by (metis domI in_set_conv_nth)
    let ?k = "(j + ?n - ?i) mod ?n"
    have "(?i + ?k) mod ?n = j" using i j(1) by (simp add: mod_add_right_eq)
    moreover have "?k < ?n" using ne by (intro mod_less_divisor) simp
    ultimately show ?thesis using h j by (intro exI [of _ ?k]) (auto simp: node_at_def)
  qed
  have "\<exists>ys. getn_loop c count ?i [] = Some ([] @ ys) \<and> distinct ([] @ ys) \<and>
      set ys \<subseteq> dom (map_of (weights c)) \<and> int (length ([] @ ys)) = min count (int (length (weights c))) \<and>
      ([] = ([] :: string list) \<and> ys \<noteq> [] \<longrightarrow> node_at c ?i = Some (hd ys))"
    using i cover assms(3) by (intro getn_loop_spec [OF inv refl, where m = ?n]) auto
  then obtain ys where "getn_loop c count ?i [] = Some ys" "distinct ys"
      "set ys \<subseteq> dom (map_of (weights c))" "int (length ys) = min count (int (length (weights c)))"
      "ys \<noteq> [] \<longrightarrow> node_at c ?i = Some (hd ys)" by auto
  moreover from this(4) assms(4) have "0 < count \<longrightarrow> ys \<noteq> []" by (auto simp: min_def split: if_splits)
  ultimately show ?thesis using ne assms(3,4) node_at_search [OF inv ne, of key] by (auto simp: Ring_GetN_def)
qed

section \<open>Properties\<close>

datatype ring_op = RAdd string int | RRemove string

fun ring_step :: "ring_op \<Rightarrow> ConsistentHash \<Rightarrow> ConsistentHash" where
  "ring_step (RAdd node w) c = Ring_Add node w c"
| "ring_step (RRemove node) c = Ring_Remove node c"

fun member_step :: "ring_op \<Rightarrow> string set \<Rightarrow> string set" where
  "member_step (RAdd node w) N = insert node N"
| "member_step (RRemove node) N = N - {node}"

lemma ring_step_inv:
  assumes "ring_inv c" "dom (map_of (weights c)) = N"
  shows "ring_inv (ring_step p c) \<and> dom (map_of (weights (ring_step p c))) = member_step p N"
proof (cases p)
  case (RAdd node w)
  have "dom (map_of (weights (without node c))) = N - {node}"
  proof (cases "map_of (nodeHashes c) node")
    case None
    then have "map_of (weights c) node = None" using ring_invD(6) [OF assms(1)] by (auto simp: domIff)
    with assms(2) show ?thesis by (auto simp: without_def)
  next
    case (Some hs)
    then have "map_of (weights c) node \<noteq> None" using ring_invD(6) [OF assms(1)] by blast
    with assms(2) show ?thesis by (simp add: without_def remove_maps [OF Some])
  qed
  with RAdd show ?thesis using Ring_Add_inv [OF assms(1)] by (auto simp: Ring_Add_fields)
next
  case (RRemove node)
  show ?thesis
  proof (cases "map_of (nodeHashes c) node")
    case None
    then have "node \<notin> N" using ring_invD(6) [OF assms(1)] assms(2) by (auto simp: domIff)
    with RRemove None assms show ?thesis by (simp add: Ring_Remove_def removeWithoutLock_def)
  next
    case (Some hs)
    with RRemove assms removeWithoutLock_inv [OF assms(1)] show ?thesis
      by (simp add: Ring_Remove_def remove_maps [OF Some])
  qed
qed

lemma ring_run_inv:
  assumes "ring_inv c" "dom (map_of (weights c)) = N"
  shows "ring_inv (fold ring_step ops c) \<and> dom (map_of (weights (fold ring_step ops c))) = fold member_step ops N"
  using assms
proof (induction ops arbitrary: c N)
  case (Cons p ops)
  then show ?case using ring_step_inv [OF Cons.prems, of p] by simp
qed simp


text \<open>C12. Adding a node moves keys only to that node: after \<open>Add\<close> of a node that was not on the ring,
  every key is still served by the node that served it before or by the new one.\<close>

theorem ring_add_minimal_disruption:
  assumes "ring_inv c" "map_of (weights c) node = None" "sortedHashes c \<noteq> []"
  shows "Ring_Get key (Ring_Add node w c) = Ring_Get key c \<or> Ring_Get key (Ring_Add node w c) = Some node"
  using ring_owner_add [OF assms(1,2), of w key] Ring_Get_owner [OF Ring_Add_inv [OF assms(1)], of key node w]
    Ring_Get_owner [OF assms(1), of key] by auto

text \<open>Removing a node moves only the keys it served: if no virtual node of the removed node has
  been taken over by another node, every key served by another node keeps it.\<close>

theorem ring_remove_minimal_disruption:
  assumes "ring_inv c" "map_of (nodeHashes c) node = Some hs" "\<forall>h\<in>set hs. map_of (hashMap c) h = Some node"
    and "Ring_Get key c = Some n" "n \<noteq> node" "sortedHashes c \<noteq> []"
  shows "Ring_Get key (Ring_Remove node c) = Some n"
proof -
  have "ring_owner c key = Some n"
    using Ring_Get_owner [OF assms(1), of key] node_at_search(2) [OF assms(1,6), of key] assms(4) by auto
  from ring_owner_remove [OF assms(1-3) this assms(5)]
  show ?thesis using Ring_Get_owner [OF removeWithoutLock_inv [OF assms(1)], of key node] by (simp add: Ring_Remove_def)
qed

text \<open>A small ring for the witnesses: one virtual node per node, placed by the first letter.\<close>

definition letter_hash :: "string \<Rightarrow> u32" where
  "letter_hash s = (case s of [] \<Rightarrow> 0 | ch # _ \<Rightarrow> of_char ch)"

definition abc_ring :: ConsistentHash where
  "abc_ring = fold ring_step [RAdd ''b'' 1, RAdd ''d'' 1] (NewConsistentHash 1 (Some letter_hash))"

lemma abc_ring_inv: "ring_inv abc_ring"
  using ring_run_inv [OF NewConsistentHash_inv, of 1 "Some letter_hash" "{}" "[RAdd ''b'' 1, RAdd ''d'' 1]"]
  by (simp add: abc_ring_def NewConsistentHash_def)

lemma abc_ring_fields:
  "sortedHashes abc_ring = [98, 100]" "hashMap abc_ring = [(98, ''b''), (100, ''d'')]"
  "weights abc_ring = [(''b'', 1), (''d'', 1)]" "nodeHashes abc_ring = [(''b'', [98]), (''d'', [100])]"
  by (code_simp, code_simp, code_simp, code_simp)

theorem ring_add_minimal_disruption_witness:
  "Ring_Get ''c'' abc_ring = Some ''d'' \<and> Ring_Get ''c'' (Ring_Add ''x'' 1 abc_ring) \<in> {Some ''d'', Some ''x''}"
proof -
  have "Ring_Get ''c'' abc_ring = Some ''d''" by code_simp
  with ring_add_minimal_disruption [OF abc_ring_inv, of "''x''" "''c''" 1] show ?thesis by (auto simp: abc_ring_fields)
qed

theorem ring_remove_minimal_disruption_witness:
  "Ring_Get ''c'' abc_ring = Some ''d'' \<and> Ring_Get ''c'' (Ring_Remove ''b'' abc_ring) = Some ''d''"
proof -
  have "Ring_Get ''c'' abc_ring = Some ''d''" by code_simp
  with ring_remove_minimal_disruption [OF abc_ring_inv, of "''b''" "[98]" "''c''" "''d''"] show ?thesis
    by (simp add: abc_ring_fields)
qed

text \<open>C13. When every node of the ring owns a position, \<open>GetN\<close> terminates for every non-negative count
  and returns distinct nodes of the ring, as many as asked for or all of them when there are fewer;
  the first is the node that \<open>Get\<close> returns.\<close>

theorem ring_getN_correct:
  assumes "ring_inv c" "ring_full c" "0 \<le> count" "weights c \<noteq> []"
  shows "\<exists>ns. Ring_GetN key count c = Some ns \<and> distinct ns \<and> set ns \<subseteq> set (Ring_GetNodes c) \<and>
    int (length ns) = min count (int (length (Ring_GetNodes c))) \<and> (0 < count \<longrightarrow> Ring_Get key c = Some (hd ns))"
  using Ring_GetN_full [OF assms, of key] Ring_Get_owner [OF assms(1), of key]
  by (auto simp: Ring_GetNodes_def dom_map_of_conv_image_fst)

theorem ring_getN_correct_witness:
  "\<exists>ns. Ring_GetN ''c'' 5 abc_ring = Some ns \<and> distinct ns \<and> length ns = 2 \<and> hd ns = ''d''"
proof -
  have "ring_full abc_ring"
    unfolding ring_full_def abc_ring_fields by (subst ran_distinct) (auto simp: dom_map_of_conv_image_fst)
  moreover have "Ring_Get ''c'' abc_ring = Some ''d''" by code_simp
  moreover have "weights abc_ring \<noteq> []" "length (Ring_GetNodes abc_ring) = 2" by (simp_all add: abc_ring_fields Ring_GetNodes_def)
  ultimately obtain ns where ns: "Ring_GetN ''c'' 5 abc_ring = Some ns" "distinct ns" "int (length ns) = min 5 2"
      "Some ''d'' = Some (hd ns)"
    using ring_getN_correct [OF abc_ring_inv, of 5 "''c''"] by auto
  then have "length ns = 2" "hd ns = ''d''" by simp_all
  with ns(1,2) show ?thesis by blast
qed

definition collided :: ConsistentHash where
  "collided = fold ring_step [RAdd ''a'' 1, RAdd ''b'' 1] (NewConsistentHash 1 (Some (\<lambda>_. 0)))"

lemma collided_fields:
  "sortedHashes collided = [0, 0]" "hashMap collided = [(0, ''b'')]" "weights collided = [(''a'', 1), (''b'', 1)]"
  by (code_simp, code_simp, code_simp)

lemma collided_length: "length (sortedHashes collided) = 2" "length (weights collided) = 2"
  by (simp_all add: collided_fields)

lemma collided_loop:
  "getn_loop c count idx result = Some ns \<Longrightarrow> \<not> (c = collided \<and> count = 2 \<and> set result \<subseteq> {''b''} \<and> distinct result)"
proof (rule getn_loop.raw_induct [where P = "\<lambda>c count idx result ns.
    \<not> (c = collided \<and> count = 2 \<and> set result \<subseteq> {''b''} \<and> distinct result)"])
  fix loop :: "ConsistentHash \<Rightarrow> int \<Rightarrow> nat \<Rightarrow> string list \<Rightarrow> string list option" and c count idx result ns
  assume IH: "\<And>c count idx result ns. loop c count idx result = Some ns \<Longrightarrow>
      \<not> (c = collided \<and> count = 2 \<and> set result \<subseteq> {''b''} \<and> distinct result)"
    and body: "(if int (length result) < count \<and> length result < length (weights c)
      then let idx = if length (sortedHashes c) \<le> idx then 0 else idx
           in case node_at c idx of None \<Rightarrow> None
              | Some node \<Rightarrow> loop c count ((idx + 1) mod length (sortedHashes c))
                   (if node \<in> set result then result else result @ [node])
      else Some result) = Some ns"
  show "\<not> (c = collided \<and> count = 2 \<and> set result \<subseteq> {''b''} \<and> distinct result)"
  proof
    assume a: "c = collided \<and> count = 2 \<and> set result \<subseteq> {''b''} \<and> distinct result"
    then have ab: "c = collided" "count = 2" by auto
  have l: "length result < 2"
  proof (cases result)
    case (Cons x xs)
    with a show ?thesis by (cases xs) auto
  qed simp
  have "node_at collided i = Some ''b''" if "i < 2" for i
    using that by (cases i) (auto simp: node_at_def collided_fields less_2_cases_iff)
  moreover have "(if 2 \<le> idx then 0 else idx) < 2" by simp
  ultimately have n: "node_at collided (if 2 \<le> idx then 0 else idx) = Some ''b''" by blast
  let ?r = "if ''b'' \<in> set result then result else result @ [''b'']"
  have "loop collided 2 (((if 2 \<le> idx then 0 else idx) + 1) mod 2) ?r = Some ns"
    using body l n unfolding ab by (simp add: collided_length Let_def)
  from IH [OF this] a show False by (auto split: if_splits)
  qed
qed simp

text \<open>When collisions leave a node without a position, \<open>GetN\<close> may never return: with a hash
  function that maps both nodes to the same value the walk goes round the ring forever, looking for
  a second distinct node that it cannot meet.\<close>

theorem ring_getN_diverges:
  "ring_inv collided \<and> Ring_GetNodes collided = [''a'', ''b''] \<and> Ring_GetN key 2 collided = None"
proof -
  have "ring_inv collided"
    using ring_run_inv [OF NewConsistentHash_inv, of 1 "Some (\<lambda>_. 0)" "{}" "[RAdd ''a'' 1, RAdd ''b'' 1]"]
    by (simp add: collided_def NewConsistentHash_def)
  moreover have "getn_loop collided 2 i [] = None" for i
    using collided_loop [of collided 2 i "[]"] by (cases "getn_loop collided 2 i []") auto
  ultimately show ?thesis by (simp add: Ring_GetN_def Ring_GetNodes_def collided_fields)
qed

end
