(* ===== verification/NodeSharding.thy ===== *)
theory NodeSharding
  imports MemCache ConstHash
begin

text \<open>
  The node-sharded cache of \<^verbatim>\<open>src/cache/nodesharding.go\<close> and its options (also those of
  \<^verbatim>\<open>src/cache/option.go\<close>). The caches of the nodes are objects behind the \<open>Cache\<close> interface: the
  map from node ids holds references into a store, so one cache may serve several ids; the
  interface's operations are arguments. Inside the contract of a cache it is proved that the sharded
  cache meets the same contract, for any replica factor; the interpretation on the memory cache
  gives the properties.
\<close>

section \<open>State and options\<close>

record 'c NodeShardedCache =
  nsc_ring :: ConsistentHash
  nsc_nodes :: "nat gomap"
  nsc_store :: "nat \<Rightarrow> 'c"
  nsc_replicaFactor :: int

type_synonym 'c NodeShardedOption = "'c NodeShardedCache \<Rightarrow> 'c NodeShardedCache"

definition WithReplicaFactor :: "int \<Rightarrow> 'c NodeShardedOption" where
  "WithReplicaFactor factor nsc = (if factor > 0 then nsc\<lparr>nsc_replicaFactor := factor\<rparr> else nsc)"

definition WithHashReplicas :: "int \<Rightarrow> 'c NodeShardedOption" where
  "WithHashReplicas reps nsc = nsc\<lparr>nsc_ring := (nsc_ring nsc)\<lparr>replicas := reps\<rparr>\<rparr>"

definition WithCustomHashFunc :: "(string \<Rightarrow> u32) option \<Rightarrow> 'c NodeShardedOption" where
  "WithCustomHashFunc fn nsc =
     (let oldRing = nsc_ring nsc;
          newRing = fold (\<lambda>nodeID ring.
              Ring_Add nodeID (case map_of (weights oldRing) nodeID of None \<Rightarrow> 1 | Some w \<Rightarrow> w) ring)
            (Ring_GetNodes oldRing) (NewConsistentHash defaultReplicas fn)
      in nsc\<lparr>nsc_ring := newRing\<rparr>)"

text \<open>With a negative number of virtual nodes the ring's \<open>Add\<close> panics on a negative capacity; the properties
  take a number that is not.\<close>

text \<open>The options that \<^verbatim>\<open>option.go\<close> repeats for \<open>NodeShardedCacheOption\<close> do the same.\<close>

definition WithNodeReplicaFactor :: "int \<Rightarrow> 'c NodeShardedOption" where
  "WithNodeReplicaFactor factor nsc = (if factor > 0 then nsc\<lparr>nsc_replicaFactor := factor\<rparr> else nsc)"

definition WithNodeHashReplicas :: "int \<Rightarrow> 'c NodeShardedOption" where
  "WithNodeHashReplicas reps nsc = nsc\<lparr>nsc_ring := (nsc_ring nsc)\<lparr>replicas := reps\<rparr>\<rparr>"

definition WithNodeCustomHashFunc :: "(string \<Rightarrow> u32) option \<Rightarrow> 'c NodeShardedOption" where
  "WithNodeCustomHashFunc fn nsc =
     (let oldRing = nsc_ring nsc;
          newRing = fold (\<lambda>nodeID ring.
              Ring_Add nodeID (case map_of (weights oldRing) nodeID of None \<Rightarrow> 1 | Some w \<Rightarrow> w) ring)
            (Ring_GetNodes oldRing) (NewConsistentHash defaultReplicas fn)
      in nsc\<lparr>nsc_ring := newRing\<rparr>)"

text \<open>\<open>store\<close> holds the cache objects that exist in the program.\<close>

definition NewNodeShardedCache :: "(nat \<Rightarrow> 'c) \<Rightarrow> 'c NodeShardedOption list \<Rightarrow> 'c NodeShardedCache" where
  "NewNodeShardedCache store options = fold (\<lambda>opt nsc. opt nsc) options
     \<lparr>nsc_ring = NewConsistentHash defaultReplicas None, nsc_nodes = [], nsc_store = store, nsc_replicaFactor = 1\<rparr>"

section \<open>Operations\<close>

text \<open>A cache argument is a reference, \<open>None\<close> for nil.\<close>

definition Nsc_AddNode :: "string \<Rightarrow> nat option \<Rightarrow> int \<Rightarrow> 'c NodeShardedCache \<Rightarrow> (gerror + unit) \<times> 'c NodeShardedCache" where
  "Nsc_AddNode nodeID cache weight nsc =
     (case cache of
        None \<Rightarrow> (Inl (Errorf ''cache cannot be nil''), nsc)
      | Some ref \<Rightarrow>
          if map_of (nsc_nodes nsc) nodeID \<noteq> None then (Inl (Errorf ''node already exists: %s''), nsc)
          else (Inr (), nsc\<lparr>nsc_ring := Ring_Add nodeID weight (nsc_ring nsc),
                            nsc_nodes := AList.update nodeID ref (nsc_nodes nsc)\<rparr>))"

definition Nsc_RemoveNode :: "string \<Rightarrow> 'c NodeShardedCache \<Rightarrow> (gerror + unit) \<times> 'c NodeShardedCache" where
  "Nsc_RemoveNode nodeID nsc =
     (if map_of (nsc_nodes nsc) nodeID = None then (Inl (Errorf ''node does not exist: %s''), nsc)
      else (Inr (), nsc\<lparr>nsc_ring := Ring_Remove nodeID (nsc_ring nsc),
                        nsc_nodes := AList.delete nodeID (nsc_nodes nsc)\<rparr>))"

text \<open>The nodes of a key and the caches that exist for them.\<close>

definition Nsc_nodeIDs :: "string \<Rightarrow> 'c NodeShardedCache \<Rightarrow> string list option" where
  "Nsc_nodeIDs key nsc =
     (if nsc_replicaFactor nsc > 1 then Ring_GetN key (nsc_replicaFactor nsc) (nsc_ring nsc)
      else do { n \<leftarrow> Ring_Get key (nsc_ring nsc); Some [n] })"

definition Nsc_nodeCaches :: "string list \<Rightarrow> 'c NodeShardedCache \<Rightarrow> nat list" where
  "Nsc_nodeCaches nodeIDs nsc = List.map_filter (\<lambda>nodeID. map_of (nsc_nodes nsc) nodeID) nodeIDs"

text \<open>Reading the caches one after the other until one has the key, primary first.\<close>

fun read_caches :: "('c, 'v) cache_get \<Rightarrow> instant \<Rightarrow> string \<Rightarrow> nat list \<Rightarrow> (nat \<Rightarrow> 'c) \<Rightarrow> ((gerror + 'v) \<times> (nat \<Rightarrow> 'c)) option" where
  "read_caches get now key [] st = Some (Inl ErrKeyNotFound, st)"
| "read_caches get now key (r # rs) st = do {
     (v, c) \<leftarrow> get now key (st r);
     case v of Inr x \<Rightarrow> Some (Inr x, st(r := c)) | Inl _ \<Rightarrow> read_caches get now key rs (st(r := c)) }"

definition Nsc_Get :: "('c, 'v) cache_get \<Rightarrow> instant \<Rightarrow> string \<Rightarrow> 'c NodeShardedCache
    \<Rightarrow> ((gerror + 'v) \<times> 'c NodeShardedCache) option" where
  "Nsc_Get get now key nsc =
     (if nsc_nodes nsc = [] then Some (Inl (Errorf ''no nodes available''), nsc)
      else do {
        nodeIDs \<leftarrow> Nsc_nodeIDs key nsc;
        (r, st) \<leftarrow> read_caches get now key (Nsc_nodeCaches nodeIDs nsc) (nsc_store nsc);
        Some (r, nsc\<lparr>nsc_store := st\<rparr>) })"

text \<open>Writing to the caches in order, keeping every error.\<close>

fun each_cache :: "('c \<Rightarrow> ((gerror + unit) \<times> 'c) option) \<Rightarrow> nat list \<Rightarrow> (nat \<Rightarrow> 'c) \<Rightarrow> ((gerror + unit) list \<times> (nat \<Rightarrow> 'c)) option" where
  "each_cache f [] st = Some ([], st)"
| "each_cache f (r # rs) st = do {
     (e, c) \<leftarrow> f (st r); (es, st') \<leftarrow> each_cache f rs (st(r := c)); Some (e # es, st') }"

definition Nsc_Set :: "('c, 'v) cache_put \<Rightarrow> instant \<Rightarrow> string \<Rightarrow> 'v \<Rightarrow> duration \<Rightarrow> 'c NodeShardedCache
    \<Rightarrow> ((gerror + unit) \<times> 'c NodeShardedCache) option" where
  "Nsc_Set put now key val expiration nsc =
     (if nsc_nodes nsc = [] then Some (Inl (Errorf ''no nodes available''), nsc)
      else do {
        nodeIDs \<leftarrow> Nsc_nodeIDs key nsc;
        let caches = Nsc_nodeCaches nodeIDs nsc;
        if caches = [] then Some (Inl (Errorf ''no nodes available to set key %s''), nsc)
        else do {
          (errs, st) \<leftarrow> each_cache (put now key val expiration) caches (nsc_store nsc);
          let primaryErr = hd errs;
          let backupErrors = filter (\<lambda>e. e \<noteq> Inr ()) (tl errs);
          Some (if primaryErr \<noteq> Inr () \<and> length backupErrors < length caches - 1 then Inr ()
                else if primaryErr \<noteq> Inr () then primaryErr else Inr (),
                nsc\<lparr>nsc_store := st\<rparr>) } })"

definition Nsc_Del :: "'c cache_del \<Rightarrow> string \<Rightarrow> 'c NodeShardedCache \<Rightarrow> ((gerror + unit) \<times> 'c NodeShardedCache) option" where
  "Nsc_Del del key nsc =
     (if nsc_nodes nsc = [] then Some (Inr (), nsc)
      else do {
        nodeIDs \<leftarrow> Nsc_nodeIDs key nsc;
        let caches = Nsc_nodeCaches nodeIDs nsc;
        (errs, st) \<leftarrow> each_cache (del key) caches (nsc_store nsc);
        let failed = filter (\<lambda>e. e \<noteq> Inr ()) errs;
        Some (if length failed = length caches \<and> 0 < length caches
              then Inl (Errorf ''failed to delete from all nodes'') else Inr (),
              nsc\<lparr>nsc_store := st\<rparr>) })"

definition Nsc_GetNodeIDs :: "'c NodeShardedCache \<Rightarrow> string list" where
  "Nsc_GetNodeIDs nsc = Ring_GetNodes (nsc_ring nsc)"

definition Nsc_GetNodeCount :: "'c NodeShardedCache \<Rightarrow> int" where
  "Nsc_GetNodeCount nsc = int (length (nsc_nodes nsc))"

definition Nsc_ReplicaFactor :: "'c NodeShardedCache \<Rightarrow> int" where
  "Nsc_ReplicaFactor nsc = nsc_replicaFactor nsc"

record ClusterInfo =
  node_count :: int
  replica_factor :: int
  ci_nodes :: "string list"

definition Nsc_GetClusterInfo :: "'c NodeShardedCache \<Rightarrow> ClusterInfo" where
  "Nsc_GetClusterInfo nsc =
     \<lparr>node_count = int (length (nsc_nodes nsc)), replica_factor = nsc_replicaFactor nsc, ci_nodes = map fst (nsc_nodes nsc)\<rparr>"

section \<open>Routing\<close>

text \<open>Ring and node map agree, and every node owns a position of the ring.\<close>

definition nsc_inv :: "'c NodeShardedCache \<Rightarrow> bool" where
  "nsc_inv nsc \<longleftrightarrow> ring_inv (nsc_ring nsc) \<and> wf_gomap (nsc_nodes nsc) \<and>
     dom (map_of (nsc_nodes nsc)) = dom (map_of (weights (nsc_ring nsc)))"

definition nsc_ready :: "'c NodeShardedCache \<Rightarrow> bool" where
  "nsc_ready nsc \<longleftrightarrow> nsc_inv nsc \<and> ring_full (nsc_ring nsc) \<and> nsc_nodes nsc \<noteq> []"

definition key_refs :: "string \<Rightarrow> 'c NodeShardedCache \<Rightarrow> nat list" where
  "key_refs key nsc = (case Nsc_nodeIDs key nsc of None \<Rightarrow> [] | Some ids \<Rightarrow> Nsc_nodeCaches ids nsc)"

lemma Nsc_nodeIDs_ready:
  assumes "nsc_ready nsc"
  shows "\<exists>ids. Nsc_nodeIDs key nsc = Some ids \<and> ids \<noteq> [] \<and> distinct ids \<and> set ids \<subseteq> dom (map_of (nsc_nodes nsc)) \<and>
    Ring_Get key (nsc_ring nsc) = Some (hd ids)"
proof -
  let ?c = "nsc_ring nsc"
  have inv: "ring_inv ?c" "ring_full ?c" and dom: "dom (map_of (nsc_nodes nsc)) = dom (map_of (weights ?c))"
    using assms by (auto simp: nsc_ready_def nsc_inv_def)
  have "dom (map_of (weights ?c)) \<noteq> {}" using assms dom by (auto simp: nsc_ready_def dom_map_of_conv_image_fst)
  then have ne: "weights ?c \<noteq> []" "map_of (hashMap ?c) \<noteq> Map.empty" using inv(2) unfolding ring_full_def by (auto, metis ran_empty)
  then have "sortedHashes ?c \<noteq> []" using ring_empty [OF inv(1)] by simp
  from node_at_search(2) [OF inv(1) this, of key] obtain n where n: "ring_owner ?c key = Some n" by blast
  then have "n \<in> dom (map_of (weights ?c))" by (rule ring_owner_node [OF inv(1)])
  moreover have "Ring_Get key ?c = Some n" using Ring_Get_owner [OF inv(1), of key] n by simp
  moreover have "\<exists>ns. Ring_GetN key (nsc_replicaFactor nsc) ?c = Some ns \<and> distinct ns \<and> set ns \<subseteq> dom (map_of (weights ?c)) \<and>
      ns \<noteq> [] \<and> n = hd ns" if rf: "nsc_replicaFactor nsc > 1"
  proof -
    obtain ns where ns: "Ring_GetN key (nsc_replicaFactor nsc) ?c = Some ns" "distinct ns" "set ns \<subseteq> dom (map_of (weights ?c))"
        "int (length ns) = min (nsc_replicaFactor nsc) (int (length (weights ?c)))" "ring_owner ?c key = Some (hd ns)"
      using Ring_GetN_full [OF inv, of "nsc_replicaFactor nsc" key] rf ne(1) by auto
    have "ns \<noteq> []" using ns(4) rf ne(1) by (auto simp: min_def split: if_splits)
    with ns n show ?thesis by auto
  qed
  ultimately show ?thesis using dom by (auto simp: Nsc_nodeIDs_def)
qed

lemma key_refs_ready:
  assumes "nsc_ready nsc"
  shows "key_refs key nsc \<noteq> []" "set (key_refs key nsc) \<subseteq> ran (map_of (nsc_nodes nsc))"
    "\<exists>ids. Nsc_nodeIDs key nsc = Some ids \<and> Nsc_nodeCaches ids nsc = key_refs key nsc"
proof -
  obtain ids where ids: "Nsc_nodeIDs key nsc = Some ids" "ids \<noteq> []" "set ids \<subseteq> dom (map_of (nsc_nodes nsc))"
    using Nsc_nodeIDs_ready [OF assms] by blast
  then obtain i ids' where i: "ids = i # ids'" "i \<in> dom (map_of (nsc_nodes nsc))" by (cases ids) auto
  then show "key_refs key nsc \<noteq> []" using ids(1) by (auto simp: key_refs_def Nsc_nodeCaches_def List.map_filter_simps)
  show "set (key_refs key nsc) \<subseteq> ran (map_of (nsc_nodes nsc))"
    using ids by (auto simp: key_refs_def Nsc_nodeCaches_def map_filter_def ran_def)
  show "\<exists>ids. Nsc_nodeIDs key nsc = Some ids \<and> Nsc_nodeCaches ids nsc = key_refs key nsc"
    using ids(1) by (simp add: key_refs_def)
qed

lemma Nsc_nodeCaches_store [simp]: "Nsc_nodeCaches ids (nsc\<lparr>nsc_store := st\<rparr>) = Nsc_nodeCaches ids nsc"
  by (simp add: Nsc_nodeCaches_def)

lemma key_refs_store [simp]: "key_refs key (nsc\<lparr>nsc_store := st\<rparr>) = key_refs key nsc"
  by (simp add: key_refs_def Nsc_nodeIDs_def split: option.splits)

lemma nsc_ready_store [simp]: "nsc_ready (nsc\<lparr>nsc_store := st\<rparr>) = nsc_ready nsc"
  by (simp add: nsc_ready_def nsc_inv_def)

section \<open>The contract of the sharded cache\<close>

text \<open>Every cache that holds an entry for a key holds the same one, and an entry of the abstract map
  is held by at least one of the key's caches (others may have dropped it when it expired).\<close>

definition nsc_rep :: "('c \<Rightarrow> 'v ttl_map \<Rightarrow> bool) \<Rightarrow> 'c NodeShardedCache \<Rightarrow> 'v ttl_map \<Rightarrow> bool" where
  "nsc_rep rep nsc m \<longleftrightarrow> nsc_ready nsc \<and>
     (\<exists>M. (\<forall>r\<in>ran (map_of (nsc_nodes nsc)). rep (nsc_store nsc r) (M r)) \<and>
       (\<forall>k. \<forall>r\<in>set (key_refs k nsc). M r k = None \<or> M r k = m k) \<and>
       (\<forall>k. m k \<noteq> None \<longrightarrow> (\<exists>r\<in>set (key_refs k nsc). M r k = m k)))"

context ttl_cache
begin

lemma read_caches_spec:
  assumes "\<forall>r\<in>R. rep (st r) (M r)" "set rs \<subseteq> R" "\<forall>r\<in>set rs. M r k = None \<or> M r k = m k"
  shows "\<exists>st' M'. read_caches get now k rs st =
      Some (get_result (if \<exists>r\<in>set rs. M r k = m k then live now m k else None), st') \<and>
    (\<forall>r\<in>R. rep (st' r) (M' r) \<and> purges now (M r) (M' r))"
  using assms
proof (induction rs arbitrary: st M)
  case Nil
  then show ?case by (intro exI [of _ st] exI [of _ M]) simp
next
  case (Cons r rs)
  obtain c' m' where c': "get now k (st r) = Some (get_result (live now (M r) k), c')" "rep c' m'" "purges now (M r) m'"
    using get_law [of "st r" "M r"] Cons.prems by fastforce
  let ?M = "M(r := m')"
  have rep1: "\<forall>q\<in>R. rep ((st(r := c')) q) (?M q) \<and> purges now (M q) (?M q)" using Cons.prems(1) c' by auto
  show ?case
  proof (cases "live now (M r) k")
    case (Some v)
    then have "M r k = m k" using Cons.prems(3) by (auto simp: live_def)
    moreover from this have "live now m k = Some v" using Some by (simp add: live_def)
    ultimately show ?thesis
      using c'(1) Some rep1 by (intro exI [of _ "st(r := c')"] exI [of _ ?M]) auto
  next
    case None
    have hd: "M r k = m k \<Longrightarrow> live now m k = None" using None by (simp add: live_def)
    have "m' k = M r k \<or> m' k = None" using spec [OF c'(3) [unfolded purges_def], of k] by auto
    moreover have "M r k = None \<or> M r k = m k" using Cons.prems(3) by auto
    moreover have tl: "M q k = None \<or> M q k = m k" if "q \<in> set rs" for q
      using Cons.prems(3) that by auto
    ultimately have hd': "m' k = None \<or> m' k = m k" by metis
    have agree: "\<forall>q\<in>set rs. ?M q k = None \<or> ?M q k = m k"
    proof
      fix q assume "q \<in> set rs"
      then show "?M q k = None \<or> ?M q k = m k" using tl [of q] hd' by (cases "q = r") simp_all
    qed
    have "\<forall>q\<in>R. rep ((st(r := c')) q) (?M q)" "set rs \<subseteq> R" using rep1 Cons.prems(2) by (blast, simp)
    from Cons.IH [OF this agree] obtain st' M' where 1: "read_caches get now k rs (st(r := c')) =
          Some (get_result (if \<exists>q\<in>set rs. ?M q k = m k then live now m k else None), st')"
        "\<forall>q\<in>R. rep (st' q) (M' q) \<and> purges now (?M q) (M' q)"
      by blast
    have "(if \<exists>q\<in>set rs. ?M q k = m k then live now m k else None) =
        (if \<exists>q\<in>set (r # rs). M q k = m k then live now m k else None)"
    proof (cases "live now m k")
      case (Some v)
      then have ne: "M r k \<noteq> m k" "m k \<noteq> None" using hd by (auto simp: live_def split: option.splits)
      then have "m' k \<noteq> m k" using spec [OF c'(3) [unfolded purges_def], of k] by auto
      with ne show ?thesis by auto
    qed simp
    moreover have "\<forall>q\<in>R. rep (st' q) (M' q) \<and> purges now (M q) (M' q)"
      using 1(2) rep1 purges_trans by blast
    moreover have "read_caches get now k (r # rs) st = read_caches get now k rs (st(r := c'))" using c'(1) None by simp
    ultimately show ?thesis using 1(1) by (intro exI [of _ st'] exI [of _ M']) simp
  qed
qed

lemma each_cache_spec:
  assumes f: "\<And>c m. rep c m \<Longrightarrow> \<exists>c'. f c = Some (Inr (), c') \<and> rep c' (m(k := x))"
    and "\<forall>r\<in>R. rep (st r) (M r)" "set rs \<subseteq> R"
  shows "\<exists>st'. each_cache f rs st = Some (replicate (length rs) (Inr ()), st') \<and>
    (\<forall>r\<in>R. rep (st' r) (if r \<in> set rs then (M r)(k := x) else M r))"
  using assms(2,3)
proof (induction rs arbitrary: st M)
  case (Cons r rs)
  obtain c' where c': "f (st r) = Some (Inr (), c')" "rep c' ((M r)(k := x))"
    using f [of "st r" "M r"] Cons.prems by auto
  let ?M = "M(r := (M r)(k := x))"
  have 1: "\<forall>q\<in>R. rep ((st(r := c')) q) (?M q)" using Cons.prems(1) c' by auto
  have 2: "set rs \<subseteq> R" using Cons.prems(2) by auto
  obtain st' where st': "each_cache f rs (st(r := c')) = Some (replicate (length rs) (Inr ()), st')"
      "\<forall>q\<in>R. rep (st' q) (if q \<in> set rs then (?M q)(k := x) else ?M q)"
    using Cons.IH [OF 1 2] by blast
  have "(if q \<in> set rs then (?M q)(k := x) else ?M q) = (if q \<in> set (r # rs) then (M q)(k := x) else M q)" for q
    by auto
  with st' c'(1) show ?case by simp
qed simp

lemma nsc_update:
  assumes "nsc_rep rep nsc m" and f: "\<And>c m. rep c m \<Longrightarrow> \<exists>c'. f c = Some (Inr (), c') \<and> rep c' (m(k := x))"
  shows "\<exists>st. each_cache f (key_refs k nsc) (nsc_store nsc) = Some (replicate (length (key_refs k nsc)) (Inr ()), st) \<and>
    nsc_rep rep (nsc\<lparr>nsc_store := st\<rparr>) (m(k := x))"
proof -
  obtain M where ready: "nsc_ready nsc" and M: "\<forall>r\<in>ran (map_of (nsc_nodes nsc)). rep (nsc_store nsc r) (M r)"
      "\<And>j r. r \<in> set (key_refs j nsc) \<Longrightarrow> M r j = None \<or> M r j = m j"
      "\<And>j. m j \<noteq> None \<Longrightarrow> \<exists>r\<in>set (key_refs j nsc). M r j = m j"
    using assms(1) by (auto simp: nsc_rep_def)
  obtain st where st: "each_cache f (key_refs k nsc) (nsc_store nsc) = Some (replicate (length (key_refs k nsc)) (Inr ()), st)"
      "\<forall>r\<in>ran (map_of (nsc_nodes nsc)). rep (st r) (if r \<in> set (key_refs k nsc) then (M r)(k := x) else M r)"
    using each_cache_spec [where f = f and k = k and x = x and rs = "key_refs k nsc", OF _ M(1) key_refs_ready(2) [OF ready]] f by blast
  let ?M = "\<lambda>r. if r \<in> set (key_refs k nsc) then (M r)(k := x) else M r"
  have "?M r j = None \<or> ?M r j = (m(k := x)) j" if "r \<in> set (key_refs j nsc)" for r j using M(2) [OF that] that by auto
  moreover have "\<exists>r\<in>set (key_refs j nsc). ?M r j = (m(k := x)) j" if mj: "(m(k := x)) j \<noteq> None" for j
  proof (cases "j = k")
    case True
    obtain r where "r \<in> set (key_refs k nsc)" using key_refs_ready(1) [OF ready, of k] by (cases "key_refs k nsc") auto
    with True show ?thesis by (intro bexI [of _ r]) auto
  next
    case False
    then obtain r where "r \<in> set (key_refs j nsc)" "M r j = m j" using M(3) [of j] mj by auto
    with False show ?thesis by (intro bexI [of _ r]) auto
  qed
  ultimately have "nsc_rep rep (nsc\<lparr>nsc_store := st\<rparr>) (m(k := x))"
    unfolding nsc_rep_def nsc_ready_store key_refs_store using ready st(2) by (intro conjI exI [of _ ?M]) auto
  with st(1) show ?thesis by blast
qed

lemma nsc_get_law:
  assumes "nsc_rep rep nsc m"
  shows "\<exists>nsc' m'. Nsc_Get get now k nsc = Some (get_result (live now m k), nsc') \<and> nsc_rep rep nsc' m' \<and> purges now m m'"
proof -
  obtain M where ready: "nsc_ready nsc" and M: "\<forall>r\<in>ran (map_of (nsc_nodes nsc)). rep (nsc_store nsc r) (M r)"
      "\<And>j r. r \<in> set (key_refs j nsc) \<Longrightarrow> M r j = None \<or> M r j = m j"
      "\<And>j. m j \<noteq> None \<Longrightarrow> \<exists>r\<in>set (key_refs j nsc). M r j = m j"
    using assms by (auto simp: nsc_rep_def)
  have agree: "\<forall>r\<in>set (key_refs k nsc). M r k = None \<or> M r k = m k" using M(2) by blast
  obtain st M' where st: "read_caches get now k (key_refs k nsc) (nsc_store nsc) =
        Some (get_result (if \<exists>r\<in>set (key_refs k nsc). M r k = m k then live now m k else None), st)"
      "\<forall>r\<in>ran (map_of (nsc_nodes nsc)). rep (st r) (M' r) \<and> purges now (M r) (M' r)"
    using read_caches_spec [where m = m and k = k and now = now and rs = "key_refs k nsc", OF M(1) key_refs_ready(2) [OF ready] agree] by blast
  have "(if \<exists>r\<in>set (key_refs k nsc). M r k = m k then live now m k else None) = live now m k"
    using M(3) [of k] by (cases "m k") (auto simp: live_def)
  moreover obtain ids where "Nsc_nodeIDs k nsc = Some ids" "Nsc_nodeCaches ids nsc = key_refs k nsc"
    using key_refs_ready(3) [OF ready] by blast
  moreover have "nsc_nodes nsc \<noteq> []" using ready by (simp add: nsc_ready_def)
  ultimately have get: "Nsc_Get get now k nsc = Some (get_result (live now m k), nsc\<lparr>nsc_store := st\<rparr>)"
    using st(1) by (simp add: Nsc_Get_def)
  define m' where "m' j = (if \<exists>r\<in>set (key_refs j nsc). M' r j = m j then m j else None)" for j
  have pg: "M' r j = M r j \<or> M' r j = None \<and> live now (M r) j = None" if "r \<in> set (key_refs j nsc)" for r j
    using st(2) key_refs_ready(2) [OF ready] that by (auto simp: purges_def)
  have "M' r j = None \<or> M' r j = m' j" if "r \<in> set (key_refs j nsc)" for r j
    using pg [OF that] M(2) [OF that] that by (auto simp: m'_def)
  moreover have "\<exists>r\<in>set (key_refs j nsc). M' r j = m' j" if "m' j \<noteq> None" for j
    using that by (auto simp: m'_def split: if_splits)
  ultimately have "nsc_rep rep (nsc\<lparr>nsc_store := st\<rparr>) m'"
    unfolding nsc_rep_def nsc_ready_store key_refs_store using ready st(2) by (intro conjI exI [of _ M']) auto
  moreover have "purges now m m'"
    unfolding purges_def
  proof
    fix j
    show "m' j = m j \<or> m' j = None \<and> live now m j = None"
    proof (cases "m j = None")
      case False
      then obtain r where r: "r \<in> set (key_refs j nsc)" "M r j = m j" using M(3) by blast
      from pg [OF r(1)] r show ?thesis by (auto simp: m'_def live_def)
    qed (simp add: m'_def)
  qed
  ultimately show ?thesis using get by blast
qed

lemma nsc_ttl_cache: "ttl_cache (nsc_rep rep) (Nsc_Get get) (Nsc_Set put) (Nsc_Del del)"
proof
  fix nsc :: "'c NodeShardedCache" and m :: "'v ttl_map" and now k
  assume rep: "nsc_rep rep nsc m"
  then have ready: "nsc_ready nsc" by (simp add: nsc_rep_def)
  then have ne: "nsc_nodes nsc \<noteq> []" "key_refs k nsc \<noteq> []" using key_refs_ready(1) by (auto simp: nsc_ready_def)
  obtain ids where ids: "Nsc_nodeIDs k nsc = Some ids" "Nsc_nodeCaches ids nsc = key_refs k nsc"
    using key_refs_ready(3) [OF ready] by blast
  have hd: "hd (replicate (length (key_refs k nsc)) (Inr ())) = Inr ()" using ne(2) by (cases "key_refs k nsc") auto
  show "\<exists>nsc' m'. Nsc_Get get now k nsc = Some (get_result (live now m k), nsc') \<and> nsc_rep rep nsc' m' \<and> purges now m m'"
    using rep by (rule nsc_get_law)
  show "\<exists>nsc'. Nsc_Set put now k v e nsc = Some (Inr (), nsc') \<and> nsc_rep rep nsc' (m(k \<mapsto> (v, now + e)))" for v e
    using nsc_update [where f = "put now k v e" and k = k, OF rep put_law] ids ne hd by (auto simp: Nsc_Set_def Let_def)
  show "\<exists>nsc'. Nsc_Del del k nsc = Some (Inr (), nsc') \<and> nsc_rep rep nsc' (m(k := None))"
    using nsc_update [where f = "del k" and k = k, OF rep del_law] ids ne by (auto simp: Nsc_Del_def Let_def filter_empty_conv)
qed

end

interpretation nscm: ttl_cache "nsc_rep mem_rep" "Nsc_Get MemCache_Get" "Nsc_Set MemCache_Set" "Nsc_Del MemCache_Del"
  by (rule mem.nsc_ttl_cache)

section \<open>Membership\<close>

datatype nsc_op = NAdd string "nat option" int | NRemove string

fun nsc_step :: "nsc_op \<Rightarrow> 'c NodeShardedCache \<Rightarrow> (gerror + unit) \<times> 'c NodeShardedCache" where
  "nsc_step (NAdd nodeID cache w) nsc = Nsc_AddNode nodeID cache w nsc"
| "nsc_step (NRemove nodeID) nsc = Nsc_RemoveNode nodeID nsc"

fun nodes_step :: "nsc_op \<Rightarrow> (string \<rightharpoonup> nat) \<Rightarrow> (gerror + unit) \<times> (string \<rightharpoonup> nat)" where
  "nodes_step (NAdd nodeID cache w) N =
     (case cache of None \<Rightarrow> (Inl (Errorf ''cache cannot be nil''), N)
      | Some ref \<Rightarrow> if nodeID \<in> dom N then (Inl (Errorf ''node already exists: %s''), N) else (Inr (), N(nodeID \<mapsto> ref)))"
| "nodes_step (NRemove nodeID) N =
     (if nodeID \<in> dom N then (Inr (), N(nodeID := None)) else (Inl (Errorf ''node does not exist: %s''), N))"

lemma nsc_inv_ring:
  assumes "nsc_inv nsc" "dom (map_of nodes) = member_step p (dom (map_of (nsc_nodes nsc)))" "wf_gomap nodes"
  shows "nsc_inv (nsc\<lparr>nsc_ring := ring_step p (nsc_ring nsc), nsc_nodes := nodes\<rparr>)"
  using ring_step_inv [of "nsc_ring nsc" "dom (map_of (nsc_nodes nsc))" p] assms by (simp add: nsc_inv_def)

lemma nsc_step_inv:
  assumes "nsc_inv nsc"
  shows "nsc_inv (snd (nsc_step p nsc)) \<and>
    nodes_step p (map_of (nsc_nodes nsc)) = (fst (nsc_step p nsc), map_of (nsc_nodes (snd (nsc_step p nsc))))"
proof (cases p)
  case (NAdd nodeID cache w)
  have wf: "wf_gomap (nsc_nodes nsc)" using assms by (simp add: nsc_inv_def)
  have "nsc_inv (nsc\<lparr>nsc_ring := ring_step (RAdd nodeID w) (nsc_ring nsc), nsc_nodes := AList.update nodeID ref (nsc_nodes nsc)\<rparr>)" for ref
    using wf by (intro nsc_inv_ring [OF assms]) (auto simp: update_conv' wf_gomap_def distinct_update)
  with assms NAdd show ?thesis
    by (auto simp: Nsc_AddNode_def update_conv' domIff split: option.splits)
next
  case (NRemove nodeID)
  have wf: "wf_gomap (nsc_nodes nsc)" using assms by (simp add: nsc_inv_def)
  have "nsc_inv (nsc\<lparr>nsc_ring := ring_step (RRemove nodeID) (nsc_ring nsc), nsc_nodes := AList.delete nodeID (nsc_nodes nsc)\<rparr>)"
    using wf by (intro nsc_inv_ring [OF assms]) (auto simp: delete_conv' wf_gomap_def distinct_delete)
  with assms NRemove show ?thesis
    by (auto simp: Nsc_RemoveNode_def delete_conv' domIff)
qed

lemma nsc_run_inv:
  assumes "nsc_inv nsc"
  shows "nsc_inv (fold (\<lambda>p s. snd (nsc_step p s)) ops nsc) \<and>
    map_of (nsc_nodes (fold (\<lambda>p s. snd (nsc_step p s)) ops nsc)) = fold (\<lambda>p N. snd (nodes_step p N)) ops (map_of (nsc_nodes nsc))"
  using assms
proof (induction ops arbitrary: nsc)
  case (Cons p ops)
  then show ?case using nsc_step_inv [OF Cons.prems, of p] by simp
qed simp

lemma NewNodeShardedCache_inv: "nsc_inv (NewNodeShardedCache store [WithReplicaFactor f, WithCustomHashFunc fn, WithHashReplicas reps])"
  "nsc_nodes (NewNodeShardedCache store [WithReplicaFactor f, WithCustomHashFunc fn, WithHashReplicas reps]) = []"
  by (auto simp: NewNodeShardedCache_def WithReplicaFactor_def WithCustomHashFunc_def WithHashReplicas_def nsc_inv_def
      NewConsistentHash_def Ring_GetNodes_def wf_gomap_def ring_inv_def)

text \<open>Adding and removing nodes, in any order and with any arguments: a nil cache, a duplicate id
  and an unknown id are refused with their errors and change nothing, the node map holds exactly the
  nodes added and not removed since, and ring and node map always name the same nodes.\<close>

theorem nodesharding_membership_correct:
  "let nsc = fold (\<lambda>p s. snd (nsc_step p s)) ops (NewNodeShardedCache store [WithReplicaFactor f, WithCustomHashFunc fn, WithHashReplicas (int n)]);
       N = fold (\<lambda>p N. snd (nodes_step p N)) ops Map.empty in
   nsc_inv nsc \<and> map_of (nsc_nodes nsc) = N \<and> set (Nsc_GetNodeIDs nsc) = dom N \<and>
   Nsc_GetNodeCount nsc = int (card (dom N)) \<and> fst (nsc_step p nsc) = fst (nodes_step p N)"
proof -
  let ?nsc = "fold (\<lambda>p s. snd (nsc_step p s)) ops (NewNodeShardedCache store [WithReplicaFactor f, WithCustomHashFunc fn, WithHashReplicas (int n)])"
  have inv: "nsc_inv ?nsc" "map_of (nsc_nodes ?nsc) = fold (\<lambda>p N. snd (nodes_step p N)) ops Map.empty"
    using nsc_run_inv [OF NewNodeShardedCache_inv(1) [of store f fn "int n"], of ops] by (simp_all add: NewNodeShardedCache_inv(2))
  then have "length (nsc_nodes ?nsc) = card (dom (map_of (nsc_nodes ?nsc)))"
    by (simp add: nsc_inv_def length_gomap_card)
  moreover have "set (Nsc_GetNodeIDs ?nsc) = dom (map_of (nsc_nodes ?nsc))"
    using inv(1) by (simp add: nsc_inv_def Nsc_GetNodeIDs_def Ring_GetNodes_def dom_map_of_conv_image_fst)
  ultimately show ?thesis using inv nsc_step_inv [OF inv(1), of p] by (simp add: Let_def Nsc_GetNodeCount_def)
qed

text \<open>C14. A node-sharded cache over memory caches that start empty behaves like one cache: on a ring
  where every node has a position, for any replica factor and any sequence of operations at
  non-decreasing times, every \<open>Get\<close> returns what the sequence says is live, and every call returns.\<close>

theorem nodesharding_run_correct:
  assumes "nsc_inv nsc" "ring_full (nsc_ring nsc)" "nsc_nodes nsc \<noteq> []"
    and "\<forall>r\<in>ran (map_of (nsc_nodes nsc)). mem_rep (nsc_store nsc r) Map.empty" "sorted (map fst ops)"
  shows "\<exists>nsc'. cache_run (Nsc_Get MemCache_Get) (Nsc_Set MemCache_Set) (Nsc_Del MemCache_Del) ops nsc =
    Some (spec_run ops Map.empty, nsc')"
proof -
  have "nsc_rep mem_rep nsc Map.empty"
    unfolding nsc_rep_def nsc_ready_def using assms(1-4) by (intro conjI exI [of _ "\<lambda>_. Map.empty"]) auto
  then show ?thesis
    using nscm.cache_run_refines [where ops = ops and now = "if ops = [] then 0 else fst (hd ops)"] assms(5) same_from_refl
    by (cases ops) fastforce+
qed

definition two_nodes :: "((int, unit) MemoryCache \<times> unit) NodeShardedCache" where
  "two_nodes = fold (\<lambda>p s. snd (nsc_step p s)) [NAdd ''b'' (Some 0) 1, NAdd ''d'' (Some 1) 1]
     (NewNodeShardedCache (\<lambda>_. (NewMemoryCache 4 (\<lambda>_ _. False) [], ()))
       [WithReplicaFactor 2, WithCustomHashFunc (Some letter_hash), WithHashReplicas 1])"

lemma two_nodes_fields:
  "hashMap (nsc_ring two_nodes) = [(98, ''b''), (100, ''d'')]" "weights (nsc_ring two_nodes) = [(''b'', 1), (''d'', 1)]"
  "nsc_nodes two_nodes = [(''b'', 0), (''d'', 1)]"
  by (code_simp, code_simp, code_simp)

lemma two_nodes_store: "nsc_store two_nodes r = (NewMemoryCache 4 (\<lambda>_ _. False) [], ())"
  by (simp add: two_nodes_def Nsc_AddNode_def NewNodeShardedCache_def WithReplicaFactor_def WithCustomHashFunc_def WithHashReplicas_def Let_def)

theorem nodesharding_run_correct_witness:
  "\<exists>nsc'. cache_run (Nsc_Get MemCache_Get) (Nsc_Set MemCache_Set) (Nsc_Del MemCache_Del)
     [(1, OpSet ''c'' 7 10), (5, OpGet ''c''), (12, OpGet ''c'')] two_nodes =
   Some ([None, Some (Inr 7), Some (Inl ErrKeyNotFound)], nsc')"
proof -
  have "nsc_inv two_nodes" unfolding two_nodes_def using nsc_run_inv [OF NewNodeShardedCache_inv(1)] by blast
  moreover have "ring_full (nsc_ring two_nodes)"
    unfolding ring_full_def two_nodes_fields by (subst ran_distinct) (auto simp: dom_map_of_conv_image_fst)
  moreover have "mem_rep (nsc_store two_nodes r) Map.empty" for r
    unfolding two_nodes_store by (rule mem_rep_new) (simp add: default_cache_def DefaultShardCount_def)
  ultimately show ?thesis
    using nodesharding_run_correct [of two_nodes "[(1, OpSet ''c'' 7 10), (5, OpGet ''c''), (12, OpGet ''c'')]"]
    by (simp add: two_nodes_fields)
qed

end
