(* ===== verification/ReplLog.thy ===== *)
theory ReplLog
  imports Prelude
begin

text \<open>
  The replication log of \<^verbatim>\<open>src/cache/replication/replication_log.go\<close>, the data types of
  \<^verbatim>\<open>src/cache/replication/interface.go\<close> and the configuration of
  \<^verbatim>\<open>src/cache/replication/option.go\<close>. Indices and terms are 64-bit words; \<open>int(x)\<close> of an
  index is its signed reading, so an index of \<open>2^63\<close> or more passes the range checks and the slice
  access panics, which is \<open>None\<close>.
\<close>

section \<open>Data\<close>

datatype ReplicationRole = RoleLeader | RoleFollower | RoleCandidate

fun Role_String :: "ReplicationRole \<Rightarrow> string" where
  "Role_String RoleLeader = ''Leader''"
| "Role_String RoleFollower = ''Follower''"
| "Role_String RoleCandidate = ''Candidate''"

datatype ReplicationEventType = EventRoleChange | EventLeaderElected | ReplEventSyncCompleted | EventSyncFailed
  | EventFollowerAdded | EventFollowerRemoved | EventLeaderLost

text \<open>The program never sets the details of an event.\<close>

record ReplicationEvent =
  ev_Type :: ReplicationEventType
  ev_NodeID :: string
  ev_Role :: ReplicationRole
  ev_Term :: u64
  ev_Timestamp :: instant

text \<open>A \<open>*time.Timer\<close> is nil, stopped or armed.\<close>

datatype timer = TimerNil | TimerStopped | TimerArmed

definition timer_stop :: "timer \<Rightarrow> timer" where
  "timer_stop t = (if t = TimerNil then TimerNil else TimerStopped)"

datatype ReplicationState = StateNormal | StateSyncing | StateOutOfSync

record ReplicationEntry =
  re_Index :: u64
  re_Term :: u64
  re_Command :: string
  re_Key :: string
  re_Value :: string
  re_Expiration :: duration
  re_Timestamp :: instant
  re_ValueType :: string

record SyncRequest =
  rq_LeaderID :: string
  rq_LastLogIndex :: u64
  rq_LastLogTerm :: u64
  rq_FullSync :: bool

record SyncResponse =
  rs_Success :: bool
  rs_Entries :: "ReplicationEntry list"
  rs_NextIndex :: u64

section \<open>Configuration\<close>

record ReplicationConfig =
  rc_NodeID :: string
  rc_Address :: string
  rc_Role :: ReplicationRole
  rc_HeartbeatInterval :: duration
  rc_ElectionTimeout :: duration
  rc_MaxLogEntries :: int
  rc_SnapshotThreshold :: int
  rc_MaxRetries :: int
  rc_RetryInterval :: duration
  rc_ReplicationTimeout :: duration
  rc_Priority :: int
  rc_SyncerAddress :: string

definition DefaultReplicationConfig :: ReplicationConfig where
  "DefaultReplicationConfig =
     \<lparr>rc_NodeID = '''', rc_Address = '''', rc_Role = RoleFollower,
      rc_HeartbeatInterval = 500 * 10 ^ 6, rc_ElectionTimeout = 10 ^ 9, rc_MaxLogEntries = 1000,
      rc_SnapshotThreshold = 10000, rc_MaxRetries = 3, rc_RetryInterval = 200 * 10 ^ 6,
      rc_ReplicationTimeout = 5 * 10 ^ 9, rc_Priority = 1, rc_SyncerAddress = ''''\<rparr>"

type_synonym ReplicationOption = "ReplicationConfig \<Rightarrow> ReplicationConfig"

definition WithNodeID :: "string \<Rightarrow> ReplicationOption" where
  "WithNodeID nid config = (if nid \<noteq> '''' then config\<lparr>rc_NodeID := nid\<rparr> else config)"

definition WithAddress :: "string \<Rightarrow> ReplicationOption" where
  "WithAddress addr config = (if addr \<noteq> '''' then config\<lparr>rc_Address := addr\<rparr> else config)"

definition WithRole :: "ReplicationRole \<Rightarrow> ReplicationOption" where
  "WithRole role config = config\<lparr>rc_Role := role\<rparr>"

definition WithHeartbeatInterval :: "duration \<Rightarrow> ReplicationOption" where
  "WithHeartbeatInterval interval config = (if interval > 0 then config\<lparr>rc_HeartbeatInterval := interval\<rparr> else config)"

definition WithElectionTimeout :: "duration \<Rightarrow> ReplicationOption" where
  "WithElectionTimeout timeout config = (if timeout > 0 then config\<lparr>rc_ElectionTimeout := timeout\<rparr> else config)"

definition WithMaxLogEntries :: "int \<Rightarrow> ReplicationOption" where
  "WithMaxLogEntries count config = (if count > 0 then config\<lparr>rc_MaxLogEntries := count\<rparr> else config)"

definition WithSnapshotThreshold :: "int \<Rightarrow> ReplicationOption" where
  "WithSnapshotThreshold threshold config = (if threshold > 0 then config\<lparr>rc_SnapshotThreshold := threshold\<rparr> else config)"

definition WithMaxRetries :: "int \<Rightarrow> ReplicationOption" where
  "WithMaxRetries retries config = (if retries > 0 then config\<lparr>rc_MaxRetries := retries\<rparr> else config)"

definition WithRetryInterval :: "duration \<Rightarrow> ReplicationOption" where
  "WithRetryInterval interval config = (if interval > 0 then config\<lparr>rc_RetryInterval := interval\<rparr> else config)"

definition WithReplicationTimeout :: "duration \<Rightarrow> ReplicationOption" where
  "WithReplicationTimeout timeout config = (if timeout > 0 then config\<lparr>rc_ReplicationTimeout := timeout\<rparr> else config)"

definition WithPriority :: "int \<Rightarrow> ReplicationOption" where
  "WithPriority priority config = (if priority > 0 then config\<lparr>rc_Priority := priority\<rparr> else config)"

section \<open>The log\<close>

record MemoryReplicationLog =
  rl_entries :: "ReplicationEntry list"
  rl_lastTerm :: u64

definition NewMemoryReplicationLog :: MemoryReplicationLog where
  "NewMemoryReplicationLog = \<lparr>rl_entries = [], rl_lastTerm = 0\<rparr>"

text \<open>\<open>Append\<close> gets a pointer, \<open>None\<close> for nil, and writes index and time into the entry it points to;
  the entry that is stored is that one.\<close>

definition stamp :: "instant \<Rightarrow> ReplicationEntry \<Rightarrow> MemoryReplicationLog \<Rightarrow> ReplicationEntry" where
  "stamp now entry l = entry\<lparr>
     re_Index := (if rl_entries l = [] then 1 else re_Index (last (rl_entries l)) + 1),
     re_Timestamp := (if re_Timestamp entry = 0 then now else re_Timestamp entry)\<rparr>"

definition Log_Append :: "instant \<Rightarrow> ReplicationEntry option \<Rightarrow> MemoryReplicationLog \<Rightarrow> (gerror + unit) \<times> MemoryReplicationLog" where
  "Log_Append now e l =
     (case e of
        None \<Rightarrow> (Inl (Errorf ''cannot apply nil entry''), l)
      | Some entry \<Rightarrow>
          (Inr (), l\<lparr>rl_lastTerm := (if re_Term entry > rl_lastTerm l then re_Term entry else rl_lastTerm l),
                     rl_entries := rl_entries l @ [stamp now entry l]\<rparr>))"

definition Log_Get :: "u64 \<Rightarrow> MemoryReplicationLog \<Rightarrow> (gerror + ReplicationEntry) option" where
  "Log_Get index l =
     (let es = rl_entries l in
      if es = [] then Some (Inl (Errorf ''log is empty''))
      else let firstIndex = re_Index (hd es); adjustedIndex = index - firstIndex in
        if index < firstIndex then Some (Inl (Errorf ''requested index is compacted''))
        else if sint adjustedIndex \<ge> int (length es) then Some (Inl (Errorf ''index out of range''))
        else if unat adjustedIndex < length es then Some (Inr (es ! unat adjustedIndex)) else None)"

text \<open>Addition of two \<open>int\<close>s wraps; a slice \<open>[a:b]\<close> out of bounds panics.\<close>

definition wrap64 :: "int \<Rightarrow> int" where
  "wrap64 x = sint (word_of_int x :: u64)"

definition slice_of :: "int \<Rightarrow> int \<Rightarrow> 'a list \<Rightarrow> 'a list option" where
  "slice_of a b xs = (if 0 \<le> a \<and> a \<le> b \<and> b \<le> int (length xs) then Some (take (nat b - nat a) (drop (nat a) xs)) else None)"

definition Log_GetFrom :: "u64 \<Rightarrow> int \<Rightarrow> MemoryReplicationLog \<Rightarrow> (gerror + ReplicationEntry list) option" where
  "Log_GetFrom startIndex maxCount l =
     (let es = rl_entries l in
      if es = [] then Some (Inl (Errorf ''log is empty''))
      else let firstIndex = re_Index (hd es); adjustedStartIndex = startIndex - firstIndex in
        if startIndex < firstIndex then Some (Inl (Errorf ''requested starting index is compacted''))
        else if sint adjustedStartIndex \<ge> int (length es) then Some (Inr [])
        else let endPos = wrap64 (sint adjustedStartIndex + maxCount);
                 endPos = (if endPos > int (length es) \<or> maxCount \<le> 0 then int (length es) else endPos)
             in map_option Inr (slice_of (sint adjustedStartIndex) endPos es))"

definition Log_GetLastIndex :: "MemoryReplicationLog \<Rightarrow> u64" where
  "Log_GetLastIndex l = (if rl_entries l = [] then 0 else re_Index (last (rl_entries l)))"

definition Log_GetLastTerm :: "MemoryReplicationLog \<Rightarrow> u64" where
  "Log_GetLastTerm l = rl_lastTerm l"

definition set_entries :: "ReplicationEntry list \<Rightarrow> MemoryReplicationLog" where
  "set_entries es = \<lparr>rl_entries = es, rl_lastTerm = (if es = [] then 0 else re_Term (last es))\<rparr>"

definition Log_Truncate :: "u64 \<Rightarrow> MemoryReplicationLog \<Rightarrow> ((gerror + unit) \<times> MemoryReplicationLog) option" where
  "Log_Truncate index l =
     (let es = rl_entries l in
      if es = [] then Some (Inr (), l)
      else let firstIndex = re_Index (hd es); adjustedIndex = index - firstIndex in
        if index < firstIndex then Some (Inl (Errorf ''cannot truncate compacted entries''), l)
        else if sint adjustedIndex \<ge> int (length es) then Some (Inr (), l)
        else do { es' \<leftarrow> slice_of 0 (sint adjustedIndex + 1) es; Some (Inr (), set_entries es') })"

text \<open>The JSON codec of the standard library is an argument; both directions may fail.\<close>

definition Log_Serialize :: "(ReplicationEntry list \<Rightarrow> string option) \<Rightarrow> MemoryReplicationLog \<Rightarrow> string option" where
  "Log_Serialize marshal l = marshal (rl_entries l)"

definition Log_Deserialize :: "(string \<Rightarrow> ReplicationEntry list option) \<Rightarrow> string \<Rightarrow> MemoryReplicationLog \<Rightarrow> (gerror + unit) \<times> MemoryReplicationLog" where
  "Log_Deserialize unmarshal data l =
     (case unmarshal data of
        None \<Rightarrow> (Inl (Errorf ''failed to deserialize log: %w''), l)
      | Some entries \<Rightarrow> (Inr (), set_entries entries))"

definition Log_Count :: "MemoryReplicationLog \<Rightarrow> int" where
  "Log_Count l = int (length (rl_entries l))"

definition Log_Clear :: "MemoryReplicationLog \<Rightarrow> MemoryReplicationLog" where
  "Log_Clear l = l\<lparr>rl_entries := [], rl_lastTerm := 0\<rparr>"

section \<open>The invariant of the log\<close>

text \<open>Indices count from one (modulo \<open>2^64\<close>), and the last term is that of the last entry as long as
  terms do not decrease.\<close>

definition log_inv :: "MemoryReplicationLog \<Rightarrow> bool" where
  "log_inv l \<longleftrightarrow> (\<forall>i<length (rl_entries l). re_Index (rl_entries l ! i) = of_nat (Suc i)) \<and>
     (sorted (map re_Term (rl_entries l)) \<longrightarrow> l = set_entries (rl_entries l))"

datatype log_op = LAppend instant "ReplicationEntry option" | LTruncate u64 | LClear

fun log_step :: "log_op \<Rightarrow> MemoryReplicationLog \<Rightarrow> MemoryReplicationLog option" where
  "log_step (LAppend now e) l = Some (snd (Log_Append now e l))"
| "log_step (LTruncate i) l = map_option snd (Log_Truncate i l)"
| "log_step LClear l = Some (Log_Clear l)"

lemma log_inv_new [simp]: "log_inv NewMemoryReplicationLog"
  by (simp add: log_inv_def NewMemoryReplicationLog_def set_entries_def)

lemma log_inv_append: "log_inv l \<Longrightarrow> log_inv (snd (Log_Append now e l))"
proof (cases e)
  case (Some entry)
  assume inv: "log_inv l"
  let ?es = "rl_entries l" and ?e = "stamp now entry l"
  have "re_Index ?e = of_nat (Suc (length ?es))"
  proof (cases "?es = []")
    case False
    then have "re_Index (last ?es) = of_nat (Suc (length ?es - 1))"
      using inv by (simp add: log_inv_def last_conv_nth del: of_nat_Suc)
    with False show ?thesis by (simp add: stamp_def del: of_nat_Suc) (simp add: add.commute)
  qed (simp add: stamp_def)
  then have "re_Index ((?es @ [?e]) ! i) = of_nat (Suc i)" if "i < Suc (length ?es)" for i
    using inv that by (auto simp: log_inv_def nth_append less_Suc_eq)
  moreover have "rl_lastTerm (snd (Log_Append now e l)) = re_Term ?e" if "sorted (map re_Term (?es @ [?e]))"
  proof -
    from that have "sorted (map re_Term ?es)" "\<forall>x\<in>set ?es. re_Term x \<le> re_Term ?e" by (auto simp: sorted_append)
    then have "rl_lastTerm l \<le> re_Term ?e" using inv by (cases "?es = []") (auto simp: log_inv_def set_entries_def dest!: arg_cong [of l _ rl_lastTerm])
    then show ?thesis using Some by (auto simp: Log_Append_def stamp_def)
  qed
  ultimately show ?thesis using Some by (auto simp: log_inv_def Log_Append_def set_entries_def)
qed (simp add: Log_Append_def)

text \<open>What the range checks compute on a log whose first index is one.\<close>

lemma log_inv_first: "log_inv l \<Longrightarrow> rl_entries l \<noteq> [] \<Longrightarrow> re_Index (hd (rl_entries l)) = 1"
  by (auto simp: log_inv_def hd_conv_nth)

lemma sint_u64: "sint (w :: u64) = (if unat w < 2 ^ 63 then int (unat w) else int (unat w) - 2 ^ 64)"
proof -
  have s: "sint w = (uint w + 2 ^ 63) mod 2 ^ 64 - 2 ^ 63"
    by (simp add: sint_uint signed_take_bit_eq_take_bit_shift take_bit_eq_mod)
  have u: "0 \<le> uint w" "uint w < 2 ^ 64" using uint_lt2p [of w] by simp_all
  have n: "int (unat w) = uint w" by simp
  have lt: "unat w < 2 ^ 63 \<longleftrightarrow> uint w < 2 ^ 63" unfolding n [symmetric] by (metis of_nat_less_iff of_nat_numeral of_nat_power)
  show ?thesis
  proof (cases "uint w < 2 ^ 63")
    case True
    with u have "(uint w + 2 ^ 63) mod 2 ^ 64 = uint w + 2 ^ 63" by (intro mod_pos_pos_trivial) auto
    with s True lt show ?thesis by simp
  next
    case False
    with u have "(uint w + 2 ^ 63) mod 2 ^ 64 = (uint w + 2 ^ 63 - 2 ^ 64) mod 2 ^ 64" by (intro mod_pos_geq) auto
    also have "\<dots> = uint w + 2 ^ 63 - 2 ^ 64" using u False by (intro mod_pos_pos_trivial) auto
    finally show ?thesis using s False lt by simp
  qed
qed

lemma u64_pred:
  fixes w :: u64
  assumes "unat w = Suc i"
  shows "\<not> w < 1" "unat (w - 1) = i" "sint (w - 1) = (if i < 2 ^ 63 then int i else int i - 2 ^ 64)" "Suc i < 2 ^ 64"
proof -
  show "\<not> w < 1" using assms by (simp add: word_less_nat_alt)
  show *: "unat (w - 1) = i" using assms unat_minus_one [of w] by (auto simp: unat_gt_0 [symmetric] simp del: unat_gt_0)
  show "sint (w - 1) = (if i < 2 ^ 63 then int i else int i - 2 ^ 64)"
    by (simp only: sint_u64 *)
  have "unat w < 2 ^ 64" using unsigned_less [of w] by simp
  then show "Suc i < 2 ^ 64" using assms by simp
qed

lemma u64_pos: "(w :: u64) = 0 \<or> (\<exists>i. unat w = Suc i)"
  by (metis not0_implies_Suc unat_eq_0)

lemma wrap64_id: "- (2 ^ 63) \<le> x \<Longrightarrow> x < 2 ^ 63 \<Longrightarrow> wrap64 x = x"
  by (simp add: wrap64_def sint_sbintrunc' signed_take_bit_int_eq_self)

lemma Log_Get_inv:
  assumes "log_inv l" "length (rl_entries l) < 2 ^ 63"
  shows "Log_Get index l =
    (if rl_entries l = [] then Some (Inl (Errorf ''log is empty''))
     else if index = 0 then Some (Inl (Errorf ''requested index is compacted''))
     else if unat index \<le> length (rl_entries l) then Some (Inr (rl_entries l ! (unat index - 1)))
     else if unat index \<le> 2 ^ 63 then Some (Inl (Errorf ''index out of range'')) else None)"
proof (cases "rl_entries l = [] \<or> index = 0")
  case True
  with log_inv_first [OF assms(1)] show ?thesis by (auto simp: Log_Get_def Let_def)
next
  case False
  with u64_pos [of index] obtain i where i: "unat index = Suc i" by blast
  with False assms(2) log_inv_first [OF assms(1)] u64_pred [OF i] show ?thesis
    by (auto simp: Log_Get_def Let_def)
qed

lemma slice_of_upto: "slice_of (int a) (int b) xs = (if a \<le> b \<and> b \<le> length xs then Some (take (b - a) (drop a xs)) else None)"
  by (simp add: slice_of_def)

lemma wrap64_overflow:
  assumes "2 ^ 63 \<le> x" "x < 2 ^ 64"
  shows "wrap64 x < 0"
proof -
  have "(word_of_int x :: u64) = word_of_int (x - 2 ^ 64)" by (subst word_of_int_eq_iff) (simp add: take_bit_eq_mod)
  then have "wrap64 x = wrap64 (x - 2 ^ 64)" by (simp only: wrap64_def)
  also have "\<dots> = x - 2 ^ 64" using assms by (intro wrap64_id) simp_all
  finally show ?thesis using assms by simp
qed

lemma Log_GetFrom_full:
  assumes "log_inv l" "length (rl_entries l) < 2 ^ 63" "maxCount < 2 ^ 63"
  shows "Log_GetFrom index maxCount l =
    (if rl_entries l = [] then Some (Inl (Errorf ''log is empty''))
     else if index = 0 then Some (Inl (Errorf ''requested starting index is compacted''))
     else if unat index > 2 ^ 63 \<or> unat index \<le> length (rl_entries l) \<and> 0 < maxCount \<and> 2 ^ 63 < int (unat index) + maxCount then None
     else Some (Inr ((if maxCount \<le> 0 then id else take (nat maxCount)) (drop (unat index - 1) (rl_entries l)))))"
proof (cases "rl_entries l = [] \<or> index = 0")
  case True
  with log_inv_first [OF assms(1)] show ?thesis by (auto simp: Log_GetFrom_def Let_def)
next
  case False
  with u64_pos [of index] obtain i where i: "unat index = Suc i" by blast
  note pred = u64_pred [OF i]
  let ?es = "rl_entries l"
  have idx: "re_Index (hd ?es) = 1" "\<not> index < 1" using False log_inv_first [OF assms(1)] pred(1) by auto
  consider "i < length ?es" "0 < maxCount" "2 ^ 63 \<le> int i + maxCount" | "i < length ?es" "0 < maxCount \<Longrightarrow> int i + maxCount < 2 ^ 63"
    | "length ?es \<le> i" "i < 2 ^ 63" | "2 ^ 63 \<le> i" by linarith
  then show ?thesis
  proof cases
    case 1
    then have s: "sint (index - 1) = int i" using assms(2) by (simp add: pred)
    have w: "wrap64 (int i + maxCount) < 0" using 1 assms(2,3) by (intro wrap64_overflow) simp_all
    then have "slice_of (int i) (wrap64 (int i + maxCount)) ?es = None" by (simp add: slice_of_def)
    then show ?thesis using False idx s 1 i w by (simp add: Log_GetFrom_def Let_def)
  next
    case 2
    then have s: "sint (index - 1) = int i" using assms(2) by (simp add: pred)
    have w: "wrap64 (int i + maxCount) = int i + maxCount" if "0 < maxCount" using that 2 by (intro wrap64_id) simp_all
    have "slice_of (int i) (int i + maxCount) ?es = Some (take (nat maxCount) (drop i ?es))"
      if "0 < maxCount" "int i + maxCount \<le> int (length ?es)"
      using slice_of_upto [of i "i + nat maxCount" ?es] that by simp
    moreover have "slice_of (int i) (int (length ?es)) ?es = Some (drop i ?es)" using slice_of_upto [of i "length ?es" ?es] 2 by simp
    ultimately show ?thesis using False idx s 2 i w assms(2) by (cases "0 < maxCount") (auto simp: Log_GetFrom_def Let_def)
  next
    case 3
    then show ?thesis using False idx i pred by (simp add: Log_GetFrom_def Let_def)
  next
    case 4
    then have s: "sint (index - 1) < 0" using pred by simp
    then have "slice_of (sint (index - 1)) b ?es = None" for b by (simp add: slice_of_def)
    with s 4 False idx i show ?thesis by (simp add: Log_GetFrom_def Let_def)
  qed
qed

lemma Log_GetFrom_inv:
  assumes "log_inv l" "length (rl_entries l) < 2 ^ 62" "\<bar>maxCount\<bar> < 2 ^ 62"
  shows "Log_GetFrom index maxCount l =
    (if rl_entries l = [] then Some (Inl (Errorf ''log is empty''))
     else if index = 0 then Some (Inl (Errorf ''requested starting index is compacted''))
     else if unat index \<le> 2 ^ 63
       then Some (Inr ((if maxCount \<le> 0 then id else take (nat maxCount)) (drop (unat index - 1) (rl_entries l))))
     else None)"
proof -
  have "int (unat index) + maxCount \<le> 2 ^ 63" if "unat index \<le> length (rl_entries l)"
  proof -
    have "int (unat index) < 2 ^ 62" using that assms(2) by (metis of_nat_less_iff of_nat_numeral of_nat_power order.strict_trans1)
    with assms(3) show ?thesis by simp
  qed
  then have "\<not> (unat index \<le> length (rl_entries l) \<and> 0 < maxCount \<and> 2 ^ 63 < int (unat index) + maxCount)" by (meson not_less)
  with Log_GetFrom_full [OF assms(1), of maxCount index] assms(2,3) show ?thesis by auto
qed

lemma Log_Truncate_inv:
  assumes "log_inv l" "length (rl_entries l) < 2 ^ 62"
  shows "Log_Truncate index l =
    (if rl_entries l = [] then Some (Inr (), l)
     else if index = 0 then Some (Inl (Errorf ''cannot truncate compacted entries''), l)
     else if unat index \<le> length (rl_entries l) then Some (Inr (), set_entries (take (unat index) (rl_entries l)))
     else if unat index \<le> 2 ^ 63 then Some (Inr (), l) else None)"
proof (cases "rl_entries l = [] \<or> index = 0")
  case True
  with log_inv_first [OF assms(1)] show ?thesis by (auto simp: Log_Truncate_def Let_def)
next
  case False
  with u64_pos [of index] obtain i where i: "unat index = Suc i" by blast
  with False assms(2) log_inv_first [OF assms(1)] u64_pred(1,3,4) [OF i] show ?thesis
    by (auto simp: Log_Truncate_def Let_def slice_of_def nat_add_distrib)
qed


lemma log_inv_take: "log_inv l \<Longrightarrow> log_inv (set_entries (take n (rl_entries l)))"
  by (auto simp: log_inv_def set_entries_def)

lemma log_inv_truncate: "log_inv l \<Longrightarrow> Log_Truncate index l = Some (r, l') \<Longrightarrow> log_inv l'"
  using log_inv_take [of l]
  by (auto simp: Log_Truncate_def Let_def slice_of_def split: if_splits bind_splits)

fun log_run :: "log_op list \<Rightarrow> MemoryReplicationLog \<Rightarrow> MemoryReplicationLog option" where
  "log_run [] l = Some l"
| "log_run (p # ops) l = do { l' \<leftarrow> log_step p l; log_run ops l' }"

lemma log_step_inv: "log_inv l \<Longrightarrow> log_step p l = Some l' \<Longrightarrow> log_inv l'"
proof (cases p)
  case LClear
  then show "log_step p l = Some l' \<Longrightarrow> ?thesis" by (auto simp: Log_Clear_def log_inv_def set_entries_def)
qed (auto intro: log_inv_append log_inv_truncate)

lemma log_run_inv: "log_inv l \<Longrightarrow> log_run ops l = Some l' \<Longrightarrow> log_inv l'"
  by (induction ops arbitrary: l) (auto intro: log_step_inv split: bind_splits)

section \<open>Properties\<close>


definition entry0 :: ReplicationEntry where
  "entry0 = \<lparr>re_Index = 0, re_Term = 1, re_Command = ''Set'', re_Key = ''k'', re_Value = ''v'', re_Expiration = 60,
     re_Timestamp = 0, re_ValueType = ''string''\<rparr>"


end
