(* ===== verification/Syncer.thy ===== *)
theory Syncer
  imports ReplLog MemCache
begin

text \<open>
  The data synchroniser of \<^verbatim>\<open>src/cache/replication/syncer.go\<close>: the log and the local cache it
  writes, the channel of recorded operations, the client side of a synchronisation with its retries
  and its paging, and the handlers of its HTTP server. The network, the clock and the context of a
  call are an environment with a state of its own. The cache is an interface; the properties are
  proved inside its contract and instantiated with the memory cache.
\<close>

section \<open>State\<close>

record 'c MemorySyncer =
  sy_localCache :: 'c
  sy_nodeID :: string
  sy_log :: MemoryReplicationLog
  sy_config :: ReplicationConfig
  sy_logCh :: "ReplicationEntry list"
  sy_running :: bool
  sy_stopClosed :: bool
  sy_httpServer :: bool
  sy_listening :: bool

definition NewMemorySyncer :: "string \<Rightarrow> 'c \<Rightarrow> MemoryReplicationLog \<Rightarrow> ReplicationOption list \<Rightarrow> 'c MemorySyncer" where
  "NewMemorySyncer nodeID localCache l options =
     \<lparr>sy_localCache = localCache, sy_nodeID = nodeID, sy_log = l,
      sy_config = fold (\<lambda>opt config. opt config) options DefaultReplicationConfig,
      sy_logCh = [], sy_running = False, sy_stopClosed = False, sy_httpServer = False, sy_listening = False\<rparr>"

text \<open>\<open>StartHTTPServer\<close> does nothing when a server object exists, listening or not; it never fails.\<close>

definition Syncer_StartHTTPServer :: "'c MemorySyncer \<Rightarrow> (gerror + unit) \<times> 'c MemorySyncer" where
  "Syncer_StartHTTPServer s =
     (if sy_httpServer s then (Inr (), s) else (Inr (), s\<lparr>sy_httpServer := True, sy_listening := True\<rparr>))"

definition Syncer_Start :: "'c MemorySyncer \<Rightarrow> (gerror + unit) \<times> 'c MemorySyncer" where
  "Syncer_Start s =
     (if sy_running s then (Inr (), s)
      else case Syncer_StartHTTPServer (s\<lparr>sy_running := True\<rparr>) of
        (Inl _, s') \<Rightarrow> (Inl (Errorf ''failed to start HTTP server: %w''), s'\<lparr>sy_running := False\<rparr>)
      | (Inr _, s') \<Rightarrow> (Inr (), s'))"

definition Syncer_Stop :: "'c MemorySyncer \<Rightarrow> (gerror + unit) \<times> 'c MemorySyncer" where
  "Syncer_Stop s =
     (if \<not> sy_running s then (Inr (), s)
      else (Inr (), s\<lparr>sy_listening := False, sy_stopClosed := True, sy_running := False\<rparr>))"

section \<open>Applying entries\<close>

definition applyEntryToLocal :: "('c, 'a anyval) cache_put \<Rightarrow> 'c cache_del \<Rightarrow> instant \<Rightarrow> ReplicationEntry option \<Rightarrow> 'c \<Rightarrow> ((gerror + unit) \<times> 'c) option" where
  "applyEntryToLocal put del now e c =
     (case e of
        None \<Rightarrow> Some (Inl (Errorf ''nil entry''), c)
      | Some entry \<Rightarrow>
          if re_Command entry = ''Set'' then
            put now (re_Key entry)
              (if re_ValueType entry = ''string'' then AnyString (re_Value entry) else AnyBytes (re_Value entry))
              (re_Expiration entry) c
          else if re_Command entry = ''Del'' then del (re_Key entry) c
          else Some (Inl (Errorf ''unknown command: %s''), c))"

fun ApplySync :: "('c, 'a anyval) cache_put \<Rightarrow> 'c cache_del \<Rightarrow> instant \<Rightarrow> ReplicationEntry list \<Rightarrow> 'c MemorySyncer
    \<Rightarrow> ((gerror + unit) \<times> 'c MemorySyncer) option" where
  "ApplySync put del now [] s = Some (Inr (), s)"
| "ApplySync put del now (entry # ents) s = do {
     (err, c) \<leftarrow> applyEntryToLocal put del now (Some entry) (sy_localCache s);
     let s = s\<lparr>sy_localCache := c\<rparr>;
     case err of
       Inl _ \<Rightarrow> Some (Inl (Errorf ''failed to apply entry: %w''), s)
     | Inr _ \<Rightarrow> (case Log_Append now (Some entry) (sy_log s) of
           (Inl _, l) \<Rightarrow> Some (Inl (Errorf ''failed to append entry to local log: %w''), s)
         | (Inr _, l) \<Rightarrow> ApplySync put del now ents (s\<lparr>sy_log := l\<rparr>)) }"

text \<open>One round of \<open>processLogEntries\<close>: the head of the channel is applied, its error ignored. When
  \<open>stopCh\<close> is closed \<open>select\<close> may take either branch, which \<open>pickStop\<close> chooses; the first result says
  whether the loop goes on.\<close>

definition processLogEntries_step :: "('c, 'a anyval) cache_put \<Rightarrow> 'c cache_del \<Rightarrow> instant \<Rightarrow> bool \<Rightarrow> 'c MemorySyncer
    \<Rightarrow> (bool \<times> 'c MemorySyncer) option" where
  "processLogEntries_step put del now pickStop s =
     (if sy_stopClosed s \<and> (pickStop \<or> sy_logCh s = []) then Some (False, s)
      else case sy_logCh s of
        [] \<Rightarrow> Some (True, s)
      | entry # ch \<Rightarrow> do {
          (_, c) \<leftarrow> applyEntryToLocal put del now (Some entry) (sy_localCache s);
          Some (True, s\<lparr>sy_localCache := c, sy_logCh := ch\<rparr>) })"

section \<open>Recording operations\<close>

definition send_logCh :: "ReplicationEntry \<Rightarrow> 'c MemorySyncer \<Rightarrow> (gerror + unit) \<times> 'c MemorySyncer" where
  "send_logCh entry s =
     (if sy_running s then
        if length (sy_logCh s) < 1000 then (Inr (), s\<lparr>sy_logCh := sy_logCh s @ [entry]\<rparr>)
        else (Inl (Errorf ''log channel is full, entry discarded''), s)
      else (Inr (), s))"

definition RecordSetOperation :: "instant \<Rightarrow> string \<Rightarrow> string \<Rightarrow> duration \<Rightarrow> u64 \<Rightarrow> 'c MemorySyncer \<Rightarrow> (gerror + unit) \<times> 'c MemorySyncer" where
  "RecordSetOperation now key val expiration trm s =
     (let entry = \<lparr>re_Index = 0, re_Term = trm, re_Command = ''Set'', re_Key = key, re_Value = val,
          re_Expiration = expiration, re_Timestamp = now, re_ValueType = ''string''\<rparr>
      in case Log_Append now (Some entry) (sy_log s) of
           (Inl _, l) \<Rightarrow> (Inl (Errorf ''failed to append Set operation to log: %w''), s)
         | (Inr _, l) \<Rightarrow> send_logCh (stamp now entry (sy_log s)) (s\<lparr>sy_log := l\<rparr>))"

definition RecordDelOperation :: "instant \<Rightarrow> string \<Rightarrow> u64 \<Rightarrow> 'c MemorySyncer \<Rightarrow> (gerror + unit) \<times> 'c MemorySyncer" where
  "RecordDelOperation now key trm s =
     (let entry = \<lparr>re_Index = 0, re_Term = trm, re_Command = ''Del'', re_Key = key, re_Value = '''',
          re_Expiration = 0, re_Timestamp = now, re_ValueType = ''''\<rparr>
      in case Log_Append now (Some entry) (sy_log s) of
           (Inl _, l) \<Rightarrow> (Inl (Errorf ''failed to append Del operation to log: %w''), s)
         | (Inr _, l) \<Rightarrow> send_logCh (stamp now entry (sy_log s)) (s\<lparr>sy_log := l\<rparr>))"

text \<open>The loop stops at the first entry younger than the cutoff.\<close>

fun cutoff_index :: "instant \<Rightarrow> ReplicationEntry list \<Rightarrow> u64 \<Rightarrow> u64" where
  "cutoff_index cutoff [] truncateIndex = truncateIndex"
| "cutoff_index cutoff (entry # ents) truncateIndex =
     (if re_Timestamp entry > cutoff then truncateIndex else cutoff_index cutoff ents (re_Index entry))"

definition CleanupExpiredEntries :: "instant \<Rightarrow> duration \<Rightarrow> 'c MemorySyncer \<Rightarrow> ((gerror + unit) \<times> 'c MemorySyncer) option" where
  "CleanupExpiredEntries now maxAge s = do {
     r \<leftarrow> Log_GetFrom 1 (sint (Log_GetLastIndex (sy_log s))) (sy_log s);
     case r of
       Inl _ \<Rightarrow> Some (Inl (Errorf ''failed to get log entries: %w''), s)
     | Inr ents \<Rightarrow>
         let truncateIndex = cutoff_index (now - maxAge) ents 0 in
         if truncateIndex > 0 then do {
           (e, l) \<leftarrow> Log_Truncate truncateIndex (sy_log s);
           Some (case e of Inl _ \<Rightarrow> Inl (Errorf ''failed to truncate log: %w'') | Inr _ \<Rightarrow> Inr (), s\<lparr>sy_log := l\<rparr>) }
         else Some (Inr (), s) }"

section \<open>Serving a synchronisation\<close>

definition HandleSyncRequest :: "SyncRequest \<Rightarrow> 'c MemorySyncer \<Rightarrow> (gerror + SyncResponse) option" where
  "HandleSyncRequest req s =
     (let startIndex = (if rq_FullSync req then 0 else rq_LastLogIndex req) in do {
        r \<leftarrow> Log_GetFrom (startIndex + 1) (rc_MaxLogEntries (sy_config s)) (sy_log s);
        case r of
          Inl _ \<Rightarrow> Some (if startIndex > 0 then Inl (Errorf ''failed to get log entries: %w'')
                         else Inr \<lparr>rs_Success = True, rs_Entries = [], rs_NextIndex = Log_GetLastIndex (sy_log s)\<rparr>)
        | Inr ents \<Rightarrow> Some (Inr \<lparr>rs_Success = True, rs_Entries = ents,
            rs_NextIndex = (if ents \<noteq> [] then re_Index (last ents) else Log_GetLastIndex (sy_log s))\<rparr>) })"

text \<open>A body that is read from a request: \<open>None\<close> when reading fails, \<open>Some None\<close> when it is no JSON of
  the expected type. The handlers return the status and the body of the answer.\<close>

type_synonym 'r body = "'r option option"

definition http_sync :: "bool \<Rightarrow> SyncRequest body \<Rightarrow> 'c MemorySyncer \<Rightarrow> (int \<times> SyncResponse option) option" where
  "http_sync post body s =
     (if \<not> post then Some (405, None)
      else case body of
        None \<Rightarrow> Some (400, None)
      | Some None \<Rightarrow> Some (400, None)
      | Some (Some req) \<Rightarrow> do {
          r \<leftarrow> HandleSyncRequest req s;
          Some (case r of Inl _ \<Rightarrow> (500, None) | Inr resp \<Rightarrow> (200, Some resp)) })"

definition http_receive :: "('c, 'a anyval) cache_put \<Rightarrow> 'c cache_del \<Rightarrow> instant \<Rightarrow> bool \<Rightarrow> SyncResponse body \<Rightarrow> 'c MemorySyncer
    \<Rightarrow> (int \<times> 'c MemorySyncer) option" where
  "http_receive put del now post body s =
     (if \<not> post then Some (405, s)
      else case body of
        None \<Rightarrow> Some (400, s)
      | Some None \<Rightarrow> Some (400, s)
      | Some (Some resp) \<Rightarrow> do {
          (r, s') \<leftarrow> ApplySync put del now (rs_Entries resp) s;
          Some (case r of Inl _ \<Rightarrow> 500 | Inr _ \<Rightarrow> 200, s') })"

section \<open>Requesting a synchronisation\<close>

text \<open>What a request over HTTP gives, and the environment of a call: the network's answers, the clock,
  the error of the context once it is done, and the wait between two attempts, which the context may
  end.\<close>

datatype 'r reply = NoRequest | SendFailed | Replied int "'r body"

record 'n env =
  e_net :: "SyncRequest \<Rightarrow> 'n \<Rightarrow> SyncResponse reply \<times> 'n"
  e_clock :: "'n \<Rightarrow> instant"
  e_ctxErr :: "'n \<Rightarrow> gerror option"
  e_wait :: "duration \<Rightarrow> 'n \<Rightarrow> gerror option \<times> 'n"

partial_function (option) sendSyncRequest ::
  "('c, 'a anyval) cache_put \<Rightarrow> 'c cache_del \<Rightarrow> 'n env \<Rightarrow> SyncRequest \<Rightarrow> 'n \<Rightarrow> 'c MemorySyncer
   \<Rightarrow> ((gerror + unit) \<times> 'n \<times> 'c MemorySyncer) option" where
  "sendSyncRequest put del env req n s =
     (case e_net env req n of (reply, n') \<Rightarrow>
      (case reply of
        NoRequest \<Rightarrow> Some (Inl (Errorf ''failed to create HTTP request: %w''), n', s)
      | SendFailed \<Rightarrow> Some (Inl (Errorf ''failed to send sync request: %w''), n', s)
      | Replied status body \<Rightarrow>
          if status \<noteq> 200 then Some (Inl (Errorf ''received non-OK response: %s''), n', s)
          else case body of
            None \<Rightarrow> Some (Inl (Errorf ''failed to read response body: %w''), n', s)
          | Some None \<Rightarrow> Some (Inl (Errorf ''failed to unmarshal sync response: %w''), n', s)
          | Some (Some syncResp) \<Rightarrow>
              if \<not> rs_Success syncResp then Some (Inl (Errorf ''sync request failed on remote node''), n', s)
              else case ApplySync put del (e_clock env n') (rs_Entries syncResp) s of
                None \<Rightarrow> None
              | Some (Inl _, s') \<Rightarrow> Some (Inl (Errorf ''failed to apply sync entries: %w''), n', s')
              | Some (Inr _, s') \<Rightarrow>
                  if rs_NextIndex syncResp > 0 then
                    sendSyncRequest put del env
                      \<lparr>rq_LeaderID = sy_nodeID s', rq_LastLogIndex = rs_NextIndex syncResp,
                       rq_LastLogTerm = rq_LastLogTerm req, rq_FullSync = False\<rparr> n' s'
                  else Some (Inr (), n', s')))"

fun retry_loop :: "nat \<Rightarrow> ('c, 'a anyval) cache_put \<Rightarrow> 'c cache_del \<Rightarrow> 'n env \<Rightarrow> SyncRequest \<Rightarrow> 'n \<Rightarrow> 'c MemorySyncer
    \<Rightarrow> ((gerror + unit) \<times> 'n \<times> 'c MemorySyncer) option" where
  "retry_loop 0 put del env req n s = Some (Inl (Errorf ''sync failed after %d retries: %w''), n, s)"
| "retry_loop (Suc k) put del env req n s =
     (case e_ctxErr env n of
        Some err \<Rightarrow> Some (Inl err, n, s)
      | None \<Rightarrow> do {
          (r, n1, s1) \<leftarrow> sendSyncRequest put del env req n s;
          case r of
            Inr _ \<Rightarrow> Some (Inr (), n1, s1)
          | Inl _ \<Rightarrow>
              if k = 0 then Some (Inl (Errorf ''sync failed after %d retries: %w''), n1, s1)
              else (case e_wait env (rc_RetryInterval (sy_config s1)) n1 of
                  (Some err, n2) \<Rightarrow> Some (Inl err, n2, s1)
                | (None, n2) \<Rightarrow> retry_loop k put del env req n2 s1) })"

definition syncWithRetries :: "('c, 'a anyval) cache_put \<Rightarrow> 'c cache_del \<Rightarrow> 'n env \<Rightarrow> SyncRequest \<Rightarrow> 'n \<Rightarrow> 'c MemorySyncer
    \<Rightarrow> ((gerror + unit) \<times> 'n \<times> 'c MemorySyncer) option" where
  "syncWithRetries put del env req n s = retry_loop (nat (rc_MaxRetries (sy_config s))) put del env req n s"

definition FullSync :: "('c, 'a anyval) cache_put \<Rightarrow> 'c cache_del \<Rightarrow> 'n env \<Rightarrow> 'n \<Rightarrow> 'c MemorySyncer
    \<Rightarrow> ((gerror + unit) \<times> 'n \<times> 'c MemorySyncer) option" where
  "FullSync put del env n s = syncWithRetries put del env
     \<lparr>rq_LeaderID = sy_nodeID s, rq_LastLogIndex = 0, rq_LastLogTerm = 0, rq_FullSync = True\<rparr> n s"

definition IncrementalSync :: "('c, 'a anyval) cache_put \<Rightarrow> 'c cache_del \<Rightarrow> 'n env \<Rightarrow> u64 \<Rightarrow> 'n \<Rightarrow> 'c MemorySyncer
    \<Rightarrow> ((gerror + unit) \<times> 'n \<times> 'c MemorySyncer) option" where
  "IncrementalSync put del env startIndex n s = syncWithRetries put del env
     \<lparr>rq_LeaderID = sy_nodeID s, rq_LastLogIndex = startIndex, rq_LastLogTerm = Log_GetLastTerm (sy_log s), rq_FullSync = False\<rparr> n s"

section \<open>Replaying entries\<close>

definition known :: "ReplicationEntry \<Rightarrow> bool" where
  "known e \<longleftrightarrow> re_Command e = ''Set'' \<or> re_Command e = ''Del''"

definition replay1 :: "instant \<Rightarrow> ReplicationEntry \<Rightarrow> 'a anyval ttl_map \<Rightarrow> 'a anyval ttl_map" where
  "replay1 now e m =
     (if re_Command e = ''Set''
      then m(re_Key e \<mapsto> (if re_ValueType e = ''string'' then AnyString (re_Value e) else AnyBytes (re_Value e), now + re_Expiration e))
      else m(re_Key e := None))"

abbreviation replay :: "instant \<Rightarrow> ReplicationEntry list \<Rightarrow> 'a anyval ttl_map \<Rightarrow> 'a anyval ttl_map" where
  "replay now \<equiv> fold (replay1 now)"

text \<open>An entry without its index and time, which \<open>Append\<close> sets.\<close>

definition cmd_of :: "ReplicationEntry \<Rightarrow> ReplicationEntry" where
  "cmd_of e = e\<lparr>re_Index := 0, re_Timestamp := 0\<rparr>"

lemma cmd_of_stamp [simp]: "cmd_of (stamp now e l) = cmd_of e"
  by (simp add: cmd_of_def stamp_def)

lemma cmd_of_known: "cmd_of e = cmd_of e' \<Longrightarrow> known e = known e'" "cmd_of e = cmd_of e' \<Longrightarrow> replay1 now e = replay1 now e'"
proof -
  assume eq: "cmd_of e = cmd_of e'"
  have "re_Command e = re_Command e'" "re_Key e = re_Key e'" "re_Value e = re_Value e'" "re_Expiration e = re_Expiration e'"
      "re_ValueType e = re_ValueType e'"
    using arg_cong [OF eq, of re_Command] arg_cong [OF eq, of re_Key] arg_cong [OF eq, of re_Value]
      arg_cong [OF eq, of re_Expiration] arg_cong [OF eq, of re_ValueType] by (simp_all add: cmd_of_def)
  then show "known e = known e'" "replay1 now e = replay1 now e'" by (auto simp: known_def replay1_def fun_eq_iff)
qed

text \<open>A leader that serves its log over a network that answers \<open>n\<close> more requests before the deadline of
  the context.\<close>

definition serve :: "SyncRequest \<Rightarrow> 'c MemorySyncer \<Rightarrow> SyncResponse reply" where
  "serve req L = (case http_sync True (Some (Some req)) L of
     None \<Rightarrow> SendFailed | Some (status, resp) \<Rightarrow> Replied status (Some resp))"

definition deadline_env :: "'c MemorySyncer \<Rightarrow> instant \<Rightarrow> nat env" where
  "deadline_env L now =
     \<lparr>e_net = (\<lambda>req n. case n of 0 \<Rightarrow> (SendFailed, 0) | Suc n' \<Rightarrow> (serve req L, n')), e_clock = (\<lambda>_. now),
      e_ctxErr = (\<lambda>n. if n = 0 then Some (Errorf ''context deadline exceeded'') else None),
      e_wait = (\<lambda>_ n. (if n = 0 then Some (Errorf ''context deadline exceeded'') else None, n))\<rparr>"

lemma deadline_env_simps [simp]:
  "e_net (deadline_env L now) req 0 = (SendFailed, 0)" "e_net (deadline_env L now) req (Suc n) = (serve req L, n)"
  "e_clock (deadline_env L now) n = now" "e_ctxErr (deadline_env L now) (Suc n) = None"
  "e_ctxErr (deadline_env L now) 0 = Some (Errorf ''context deadline exceeded'')"
  "e_wait (deadline_env L now) d 0 = (Some (Errorf ''context deadline exceeded''), 0)"
  by (simp_all add: deadline_env_def)

definition serves :: "'c MemorySyncer \<Rightarrow> bool" where
  "serves L \<longleftrightarrow> log_inv (sy_log L) \<and> rl_entries (sy_log L) \<noteq> [] \<and> length (rl_entries (sy_log L)) < 2 ^ 62 \<and>
     (\<forall>e\<in>set (rl_entries (sy_log L)). known e) \<and> 0 < rc_MaxLogEntries (sy_config L) \<and> rc_MaxLogEntries (sy_config L) < 2 ^ 62"

lemma take_page:
  assumes "i' = min (length es) (i + M)" "i' \<le> j" "j \<le> length es" "i \<le> length es"
  shows "take (j - i) (drop i es) = take M (drop i es) @ take (j - i') (drop i' es)"
proof -
  have "take M (drop i es) = take (i' - i) (drop i es)" using assms by (auto simp: min_def)
  moreover have "i \<le> i'" using assms by auto
  ultimately show ?thesis using take_add [of "i' - i" "j - i'" "drop i es"] assms by simp
qed

lemma unat_small: "n < 2 ^ 63 \<Longrightarrow> unat (of_nat n :: u64) = n"
  by (simp add: unat_of_nat take_bit_nat_eq_self)

lemma log_index: "log_inv l \<Longrightarrow> 0 < n \<Longrightarrow> n \<le> length (rl_entries l) \<Longrightarrow> re_Index (rl_entries l ! (n - 1)) = of_nat n"
  by (cases n) (auto simp: log_inv_def simp del: of_nat_Suc)

lemma log_last_index: "log_inv l \<Longrightarrow> Log_GetLastIndex l = of_nat (length (rl_entries l))"
  using log_index [of l "length (rl_entries l)"] by (auto simp: Log_GetLastIndex_def last_conv_nth)

lemma HandleSyncRequest_page:
  assumes "serves L" "i \<le> length (rl_entries (sy_log L))"
    and "rq_FullSync req \<longrightarrow> i = 0" "\<not> rq_FullSync req \<longrightarrow> rq_LastLogIndex req = of_nat i"
  shows "HandleSyncRequest req L = Some (Inr \<lparr>rs_Success = True,
      rs_Entries = take (nat (rc_MaxLogEntries (sy_config L))) (drop i (rl_entries (sy_log L))),
      rs_NextIndex = of_nat (min (length (rl_entries (sy_log L))) (i + nat (rc_MaxLogEntries (sy_config L))))\<rparr>)"
proof -
  let ?es = "rl_entries (sy_log L)" and ?M = "nat (rc_MaxLogEntries (sy_config L))"
  let ?page = "take ?M (drop i ?es)"
  have sv: "log_inv (sy_log L)" "?es \<noteq> []" "length ?es < 2 ^ 62" "\<bar>rc_MaxLogEntries (sy_config L)\<bar> < 2 ^ 62" "0 < ?M"
    using assms(1) by (auto simp: serves_def)
  have start: "(if rq_FullSync req then 0 else rq_LastLogIndex req) + 1 = of_nat (Suc i)" using assms(3,4) by auto
  have u: "unat (of_nat (Suc i) :: u64) = Suc i" using sv(3) assms(2) by (intro unat_small) simp
  have "Log_GetFrom (of_nat (Suc i)) (rc_MaxLogEntries (sy_config L)) (sy_log L) = Some (Inr ?page)"
    using Log_GetFrom_inv [OF sv(1,3,4), of "of_nat (Suc i)"] sv(2,3,5) assms(2) unfolding u
    by (auto simp: u simp flip: unat_eq_0 simp del: of_nat_Suc)
  moreover have "(if ?page \<noteq> [] then re_Index (last ?page) else Log_GetLastIndex (sy_log L)) = of_nat (min (length ?es) (i + ?M))"
  proof (cases "?page = []")
    case True
    then have "i = length ?es" using sv(5) assms(2) by simp
    then show ?thesis using True log_last_index [OF sv(1)] by simp
  next
    case False
    then have "last ?page = ?es ! (min (length ?es) (i + ?M) - 1)" "i < length ?es"
      using sv(5) by (auto simp: last_conv_nth min_def)
    then show ?thesis using False log_index [OF sv(1), of "min (length ?es) (i + ?M)"] sv(2,5) by simp
  qed
  ultimately show ?thesis unfolding HandleSyncRequest_def Let_def start by simp
qed

text \<open>The synchroniser as a client of the cache contract.\<close>

locale repl_cache = ttl_cache rep get put del
  for rep :: "'c \<Rightarrow> 'a anyval ttl_map \<Rightarrow> bool" and get put del
begin

lemma applyEntryToLocal_rep:
  assumes "rep c m" "known e"
  shows "\<exists>c'. applyEntryToLocal put del now (Some e) c = Some (Inr (), c') \<and> rep c' (replay1 now e m)"
proof (cases "re_Command e = ''Set''")
  case True
  with put_law [OF assms(1)] show ?thesis by (simp add: applyEntryToLocal_def replay1_def)
next
  case False
  with assms(2) del_law [OF assms(1)] show ?thesis by (simp add: applyEntryToLocal_def replay1_def known_def)
qed

text \<open>\<open>ApplySync\<close> applies and logs the entries up to the first unknown command.\<close>

lemma ApplySync_rep:
  assumes "rep (sy_localCache s) m"
  shows "\<exists>c l. ApplySync put del now es s =
      Some (if list_all known es then Inr () else Inl (Errorf ''failed to apply entry: %w''), s\<lparr>sy_localCache := c, sy_log := l\<rparr>) \<and>
    rep c (replay now (takeWhile known es) m) \<and>
    map cmd_of (rl_entries l) = map cmd_of (rl_entries (sy_log s)) @ map cmd_of (takeWhile known es) \<and>
    (log_inv (sy_log s) \<longrightarrow> log_inv l)"
  using assms
proof (induction es arbitrary: s m)
  case Nil
  then show ?case by (intro exI [of _ "sy_localCache s"] exI [of _ "sy_log s"]) simp
next
  case (Cons e es)
  show ?case
  proof (cases "known e")
    case False
    then have "applyEntryToLocal put del now (Some e) (sy_localCache s) = Some (Inl (Errorf ''unknown command: %s''), sy_localCache s)"
      by (simp add: applyEntryToLocal_def known_def)
    with False Cons.prems show ?thesis by (intro exI [of _ "sy_localCache s"] exI [of _ "sy_log s"]) simp
  next
    case True
    obtain c where c: "applyEntryToLocal put del now (Some e) (sy_localCache s) = Some (Inr (), c)" "rep c (replay1 now e m)"
      using applyEntryToLocal_rep [OF Cons.prems True] by blast
    obtain l1 where l: "Log_Append now (Some e) (sy_log s) = (Inr (), l1)" "map cmd_of (rl_entries l1) = map cmd_of (rl_entries (sy_log s)) @ [cmd_of e]"
      by (simp add: Log_Append_def)
    let ?s = "s\<lparr>sy_localCache := c, sy_log := l1\<rparr>"
    have "rep (sy_localCache ?s) (replay1 now e m)" using c by simp
    from Cons.IH [OF this] obtain c' l' where
      1: "ApplySync put del now es ?s = Some (if list_all known es then Inr () else Inl (Errorf ''failed to apply entry: %w''),
            ?s\<lparr>sy_localCache := c', sy_log := l'\<rparr>)" "rep c' (replay now (takeWhile known es) (replay1 now e m))"
          "map cmd_of (rl_entries l') = map cmd_of (rl_entries l1) @ map cmd_of (takeWhile known es)" "log_inv l1 \<longrightarrow> log_inv l'"
      by auto
    have "ApplySync put del now (e # es) s = ApplySync put del now es ?s" using c l(1) by (simp add: Let_def)
    moreover have "log_inv (sy_log s) \<longrightarrow> log_inv l'" using 1(4) log_inv_append [of "sy_log s" now "Some e"] l(1) by simp
    ultimately show ?thesis using 1 l(2) True by (intro exI [of _ c'] exI [of _ l']) simp
  qed
qed

text \<open>Paging through the leader's log from position \<open>i\<close> with \<open>k\<close> requests left before the deadline.\<close>

lemma sendSyncRequest_pages:
  assumes "serves L" "rep (sy_localCache s) m" "i \<le> length (rl_entries (sy_log L))"
    and "rq_FullSync req \<longrightarrow> i = 0" "\<not> rq_FullSync req \<longrightarrow> rq_LastLogIndex req = of_nat i"
  shows "\<exists>c l j. sendSyncRequest put del (deadline_env L now) req k s =
      Some (Inl (Errorf ''failed to send sync request: %w''), 0, s\<lparr>sy_localCache := c, sy_log := l\<rparr>) \<and>
    i \<le> j \<and> j \<le> length (rl_entries (sy_log L)) \<and> (length (rl_entries (sy_log L)) - i \<le> k \<longrightarrow> j = length (rl_entries (sy_log L))) \<and>
    rep c (replay now (take (j - i) (drop i (rl_entries (sy_log L)))) m) \<and>
    map cmd_of (rl_entries l) = map cmd_of (rl_entries (sy_log s)) @ map cmd_of (take (j - i) (drop i (rl_entries (sy_log L))))"
  using assms(2-)
proof (induction k arbitrary: i req s m)
  case 0
  then show ?case
    by (intro exI [of _ "sy_localCache s"] exI [of _ "sy_log s"] exI [of _ i])
      (subst sendSyncRequest.simps, simp)
next
  case (Suc k)
  let ?es = "rl_entries (sy_log L)" and ?M = "nat (rc_MaxLogEntries (sy_config L))"
  let ?page = "take ?M (drop i ?es)" and ?i' = "min (length ?es) (i + ?M)"
  have handle: "HandleSyncRequest req L = Some (Inr \<lparr>rs_Success = True, rs_Entries = ?page, rs_NextIndex = of_nat ?i'\<rparr>)"
    using HandleSyncRequest_page [OF assms(1) Suc.prems(2,3,4)] .
  have pos: "0 < ?i'" "?i' \<le> length ?es" "i \<le> ?i'" "0 < ?M" using assms(1) Suc.prems(2) by (auto simp: serves_def)
  have gt: "(of_nat ?i' :: u64) > 0"
    using pos assms(1) unat_small [of ?i'] by (auto simp: serves_def word_gt_0 word_unat_eq_iff)
  have known: "list_all known ?page" "takeWhile known ?page = ?page"
    using assms(1) by (auto simp: serves_def list_all_iff takeWhile_eq_all_conv dest!: in_set_takeD in_set_dropD)
  obtain c l where 1: "ApplySync put del now ?page s = Some (Inr (), s\<lparr>sy_localCache := c, sy_log := l\<rparr>)"
      "rep c (replay now ?page m)" "map cmd_of (rl_entries l) = map cmd_of (rl_entries (sy_log s)) @ map cmd_of ?page"
    using ApplySync_rep [OF Suc.prems(1), of now ?page] known by auto
  let ?s = "s\<lparr>sy_localCache := c, sy_log := l\<rparr>"
  let ?req = "\<lparr>rq_LeaderID = sy_nodeID ?s, rq_LastLogIndex = of_nat ?i', rq_LastLogTerm = rq_LastLogTerm req, rq_FullSync = False\<rparr>"
  have step: "sendSyncRequest put del (deadline_env L now) req (Suc k) s = sendSyncRequest put del (deadline_env L now) ?req k ?s"
    by (subst sendSyncRequest.simps) (use handle 1(1) gt in \<open>simp add: serve_def http_sync_def\<close>)
  obtain c' l' j where 2: "sendSyncRequest put del (deadline_env L now) ?req k ?s =
        Some (Inl (Errorf ''failed to send sync request: %w''), 0, ?s\<lparr>sy_localCache := c', sy_log := l'\<rparr>)"
      "?i' \<le> j" "j \<le> length ?es" "length ?es - ?i' \<le> k \<longrightarrow> j = length ?es"
      "rep c' (replay now (take (j - ?i') (drop ?i' ?es)) (replay now ?page m))"
      "map cmd_of (rl_entries l') = map cmd_of (rl_entries l) @ map cmd_of (take (j - ?i') (drop ?i' ?es))"
    using Suc.IH [of ?s "replay now ?page m" ?i' ?req] 1(2) pos(2) by auto
  have split: "take (j - i) (drop i ?es) = ?page @ take (j - ?i') (drop ?i' ?es)"
    by (rule take_page [OF refl 2(2,3) Suc.prems(2)])
  have "length ?es - i \<le> Suc k \<longrightarrow> j = length ?es" using 2(4) pos by auto
  with 2 1(3) step split pos(3) show ?case by (intro exI [of _ c'] exI [of _ l'] exI [of _ j]) auto
qed

text \<open>The retries of a request for the log from its start.\<close>

lemma syncWithRetries_outcome:
  assumes "serves L" "rep (sy_localCache s) m" "0 < rc_MaxRetries (sy_config s)" "rq_FullSync req \<or> rq_LastLogIndex req = 0"
  shows "\<exists>err c l j. syncWithRetries put del (deadline_env L now) req k s = Some (Inl err, 0, s\<lparr>sy_localCache := c, sy_log := l\<rparr>) \<and>
    (length (rl_entries (sy_log L)) \<le> k \<longrightarrow> j = length (rl_entries (sy_log L))) \<and>
    rep c (replay now (take j (rl_entries (sy_log L))) m) \<and>
    map cmd_of (rl_entries l) = map cmd_of (rl_entries (sy_log s)) @ map cmd_of (take j (rl_entries (sy_log L)))"
proof -
  obtain q where q: "nat (rc_MaxRetries (sy_config s)) = Suc q" using assms(3) by (cases "nat (rc_MaxRetries (sy_config s))") auto
  obtain c l j where 1: "sendSyncRequest put del (deadline_env L now) req k s =
        Some (Inl (Errorf ''failed to send sync request: %w''), 0, s\<lparr>sy_localCache := c, sy_log := l\<rparr>)"
      "length (rl_entries (sy_log L)) \<le> k \<longrightarrow> j = length (rl_entries (sy_log L))"
      "rep c (replay now (take j (rl_entries (sy_log L))) m)"
      "map cmd_of (rl_entries l) = map cmd_of (rl_entries (sy_log s)) @ map cmd_of (take j (rl_entries (sy_log L)))"
    using sendSyncRequest_pages [OF assms(1,2), of 0 req now k] assms(4) by auto
  show ?thesis
  proof (cases k)
    case 0
    have "s\<lparr>sy_localCache := sy_localCache s, sy_log := sy_log s\<rparr> = s" by simp
    moreover have "rl_entries (sy_log L) \<noteq> []" using assms(1) by (simp add: serves_def)
    ultimately show ?thesis using 0 q assms(2)
      by (intro exI [of _ "Errorf ''context deadline exceeded''"] exI [of _ "sy_localCache s"] exI [of _ "sy_log s"] exI [of _ 0])
        (simp add: syncWithRetries_def)
  next
    case (Suc k')
    let ?err = "if q = 0 then Errorf ''sync failed after %d retries: %w'' else Errorf ''context deadline exceeded''"
    have "syncWithRetries put del (deadline_env L now) req k s = Some (Inl ?err, 0, s\<lparr>sy_localCache := c, sy_log := l\<rparr>)"
      using q 1(1) Suc by (simp add: syncWithRetries_def)
    with 1(2-) show ?thesis by blast
  qed
qed

end

interpretation rmem: repl_cache mem_rep MemCache_Get MemCache_Set MemCache_Del
  by unfold_locales


section \<open>Properties\<close>

text \<open>\<open>ApplySync\<close> on a memory cache applies to it, in order, the entries before the first one with
  an unknown command and appends exactly these to the local log, which stays well formed; it returns
  an error exactly when there is such an entry.\<close>

theorem applySync_correct:
  assumes "mem_rep (sy_localCache s) m" "log_inv (sy_log s)"
  shows "\<exists>c l. ApplySync MemCache_Set MemCache_Del now es s =
      Some (if list_all known es then Inr () else Inl (Errorf ''failed to apply entry: %w''), s\<lparr>sy_localCache := c, sy_log := l\<rparr>) \<and>
    mem_rep c (replay now (takeWhile known es) m) \<and> log_inv l \<and>
    map cmd_of (rl_entries l) = map cmd_of (rl_entries (sy_log s)) @ map cmd_of (takeWhile known es)"
  using rmem.ApplySync_rep [OF assms(1), of now es] assms(2) by blast

definition syncer0 :: "string \<Rightarrow> ((unit anyval, unit) MemoryCache \<times> unit) MemorySyncer" where
  "syncer0 nid = NewMemorySyncer nid (NewMemoryCache 4 (\<lambda>_ _. False) [], ()) NewMemoryReplicationLog []"

lemma syncer0_rep: "mem_rep (sy_localCache (syncer0 nid)) Map.empty" "sy_log (syncer0 nid) = NewMemoryReplicationLog"
  "sy_config (syncer0 nid) = DefaultReplicationConfig"
  using mem_rep_new [of "[]" 4 "\<lambda>_ _. False" "()"]
  by (simp_all add: syncer0_def NewMemorySyncer_def default_cache_def DefaultShardCount_def)

theorem applySync_correct_witness:
  "\<exists>c l. ApplySync MemCache_Set MemCache_Del 9 [entry0, entry0\<lparr>re_Command := ''Inc''\<rparr>, entry0] (syncer0 ''n'') =
      Some (Inl (Errorf ''failed to apply entry: %w''), (syncer0 ''n'')\<lparr>sy_localCache := c, sy_log := l\<rparr>) \<and>
    mem_rep c [''k'' \<mapsto> (AnyString ''v'', 69)] \<and> map cmd_of (rl_entries l) = [entry0]"
proof -
  let ?es = "[entry0, entry0\<lparr>re_Command := ''Inc''\<rparr>, entry0]"
  have k: "known entry0" "\<not> known (entry0\<lparr>re_Command := ''Inc''\<rparr>)" by (simp_all add: known_def entry0_def)
  then have v: "takeWhile known ?es = [entry0]" "list_all known ?es = False" by simp_all
  have r: "replay 9 [entry0] Map.empty = [''k'' \<mapsto> (AnyString ''v'', 69)]" "map cmd_of [entry0] = [entry0]"
    by (simp_all add: replay1_def entry0_def cmd_of_def)
  have e: "map cmd_of (rl_entries (sy_log (syncer0 ''n''))) @ [entry0] = [entry0]" by (simp add: syncer0_rep NewMemoryReplicationLog_def)
  have "log_inv (sy_log (syncer0 ''n''))" by (simp add: syncer0_rep)
  from applySync_correct [OF syncer0_rep(1) this, of 9 ?es, unfolded v r e if_False] show ?thesis
    by (elim exE conjE) (intro exI conjI)
qed


definition leader0 :: "((unit anyval, unit) MemoryCache \<times> unit) MemorySyncer" where
  "leader0 = snd (RecordDelOperation 2 ''x'' 1 (snd (RecordSetOperation 1 ''k'' ''v'' 60 1 (syncer0 ''L''))))"

lemma leader0_log: "map cmd_of (rl_entries (sy_log leader0)) =
    [entry0, entry0\<lparr>re_Command := ''Del'', re_Key := ''x'', re_Value := '''', re_Expiration := 0, re_ValueType := ''''\<rparr>]"
  by (simp add: leader0_def RecordSetOperation_def RecordDelOperation_def Let_def Log_Append_def send_logCh_def syncer0_rep
      NewMemoryReplicationLog_def cmd_of_def stamp_def entry0_def)

lemma Record_inv:
  "log_inv (sy_log s) \<Longrightarrow> log_inv (sy_log (snd (RecordSetOperation now key val expiration trm s)))"
  "log_inv (sy_log s) \<Longrightarrow> log_inv (sy_log (snd (RecordDelOperation now key trm s)))"
  using log_inv_append [of "sy_log s" now "Some \<lparr>re_Index = 0, re_Term = trm, re_Command = ''Set'', re_Key = key, re_Value = val,
          re_Expiration = expiration, re_Timestamp = now, re_ValueType = ''string''\<rparr>"]
    log_inv_append [of "sy_log s" now "Some \<lparr>re_Index = 0, re_Term = trm, re_Command = ''Del'', re_Key = key, re_Value = '''',
          re_Expiration = 0, re_Timestamp = now, re_ValueType = ''''\<rparr>"]
  by (simp_all add: RecordSetOperation_def RecordDelOperation_def Let_def Log_Append_def send_logCh_def)

lemma leader0_serves: "serves leader0"
proof -
  have "map known (rl_entries (sy_log leader0)) = [True, True]" "length (rl_entries (sy_log leader0)) = 2"
    by (simp_all add: leader0_def RecordSetOperation_def RecordDelOperation_def Let_def Log_Append_def send_logCh_def syncer0_rep
      NewMemoryReplicationLog_def stamp_def known_def)
  then have "\<forall>e\<in>set (rl_entries (sy_log leader0)). known e" "rl_entries (sy_log leader0) \<noteq> []" "length (rl_entries (sy_log leader0)) < 2 ^ 62"
    by (auto simp: map_eq_Cons_conv)
  moreover have "log_inv (sy_log leader0)" unfolding leader0_def by (intro Record_inv) (simp add: syncer0_rep)
  moreover have "sy_config leader0 = DefaultReplicationConfig"
    by (simp add: leader0_def RecordSetOperation_def RecordDelOperation_def Let_def Log_Append_def send_logCh_def syncer0_rep)
  ultimately show ?thesis by (simp add: serves_def DefaultReplicationConfig_def)
qed


text \<open>\<open>CleanupExpiredEntries\<close> keeps the entries it should drop: when the log starts with entries
  older than \<open>maxAge\<close>, exactly these remain and every younger entry after them is lost.\<close>

theorem cleanup_keeps_expired:
  assumes "log_inv (sy_log s)" "rl_entries (sy_log s) \<noteq> []" "length (rl_entries (sy_log s)) < 2 ^ 62"
  shows "CleanupExpiredEntries now maxAge s = Some (Inr (),
    let old = takeWhile (\<lambda>e. re_Timestamp e \<le> now - maxAge) (rl_entries (sy_log s)) in
    if old = [] then s else s\<lparr>sy_log := set_entries old\<rparr>)"
proof -
  let ?es = "rl_entries (sy_log s)" and ?old = "takeWhile (\<lambda>e. re_Timestamp e \<le> now - maxAge) (rl_entries (sy_log s))"
  have n: "sint (Log_GetLastIndex (sy_log s)) = int (length ?es)"
    using assms(3) unat_small [of "length ?es"] by (simp add: log_last_index [OF assms(1)] sint_u64)
  have "Log_GetFrom 1 (int (length ?es)) (sy_log s) = Some (Inr ?es)"
    using Log_GetFrom_inv [OF assms(1,3), of "int (length ?es)" 1] assms(2,3) by simp
  moreover have "cutoff_index (now - maxAge) es t = (let old = takeWhile (\<lambda>e. re_Timestamp e \<le> now - maxAge) es in
      if old = [] then t else re_Index (last old))" for es t
    by (induction es arbitrary: t) (auto simp: Let_def)
  moreover have "re_Index (last ?old) = of_nat (length ?old)" if ne: "?old \<noteq> []"
  proof -
    have le: "length ?old \<le> length ?es" "length ?old \<noteq> 0" using ne length_takeWhile_le by auto
    then have "last ?old = ?es ! (length ?old - 1)" using ne by (simp add: last_conv_nth takeWhile_nth)
    then show ?thesis using log_index [OF assms(1), of "length ?old"] le by simp
  qed
  moreover have "Log_Truncate (of_nat (length ?old)) (sy_log s) = Some (Inr (), set_entries ?old)" "(of_nat (length ?old) :: u64) > 0"
    if ne: "?old \<noteq> []"
  proof -
    have le: "length ?old \<le> length ?es" "length ?old \<noteq> 0" using ne length_takeWhile_le by auto
    have u: "unat (of_nat (length ?old) :: u64) = length ?old" using le assms(3) by (intro unat_small) simp
    then show "(of_nat (length ?old) :: u64) > 0" using le by (simp add: word_gt_0 flip: unat_eq_0)
    have "take (length ?old) ?es = ?old" by (metis takeWhile_eq_take length_takeWhile_le min.absorb1 length_take)
    with u le show "Log_Truncate (of_nat (length ?old)) (sy_log s) = Some (Inr (), set_entries ?old)"
      using Log_Truncate_inv [OF assms(1,3), of "of_nat (length ?old)"] assms(2,3) by (simp flip: unat_eq_0)
  qed
  ultimately show ?thesis by (simp add: CleanupExpiredEntries_def n Let_def)
qed


theorem cleanup_keeps_expired_witness:
  "map_option (\<lambda>(r, s). (r, map re_Timestamp (rl_entries (sy_log s)))) (CleanupExpiredEntries 10 8 leader0) = Some (Inr (), [1, 2]) \<and>
   map_option (\<lambda>(r, s). (r, map re_Timestamp (rl_entries (sy_log s)))) (CleanupExpiredEntries 10 9 leader0) = Some (Inr (), [1])"
proof -
  have L: "log_inv (sy_log leader0)" "rl_entries (sy_log leader0) \<noteq> []" "length (rl_entries (sy_log leader0)) < 2 ^ 62"
    using leader0_serves by (simp_all add: serves_def)
  have "map re_Timestamp (rl_entries (sy_log leader0)) = [1, 2]"
    by (simp add: leader0_def RecordSetOperation_def RecordDelOperation_def Let_def Log_Append_def send_logCh_def syncer0_rep
      NewMemoryReplicationLog_def stamp_def)
  then obtain a b where "rl_entries (sy_log leader0) = [a, b]" "re_Timestamp a = 1" "re_Timestamp b = 2"
    by (auto simp: map_eq_Cons_conv)
  then show ?thesis
    using cleanup_keeps_expired [OF L, of 10 8] cleanup_keeps_expired [OF L, of 10 9] by (simp add: Let_def set_entries_def)
qed


end
