(* ===== verification/ReplNodes.thy ===== *)
theory ReplNodes
  imports Syncer
begin

text \<open>
  The replication nodes: \<^verbatim>\<open>src/cache/replication/leader.go\<close> and
  \<^verbatim>\<open>src/cache/replication/follower.go\<close>. A node's cache and log are those of its synchroniser,
  which the program shares between them. Goroutines are operations of their own: the background
  synchronisation that \<open>AddFollower\<close> starts, one firing of the heartbeat timer, one firing of the
  heartbeat monitor; a timer is nil, stopped or armed. Closing a closed channel panics.
\<close>

section \<open>The leader\<close>

record 'c LeaderNode =
  ld_nodeID :: string
  ld_role :: ReplicationRole
  ld_leaderID :: string
  ld_config :: ReplicationConfig
  ld_syncer :: "'c MemorySyncer"
  ld_followers :: "string gomap"
  ld_followerStatus :: "ReplicationState gomap"
  ld_heartbeatTimer :: timer
  ld_stopClosed :: bool
  ld_running :: bool
  ld_currentTerm :: u64

definition NewLeaderNode :: "string \<Rightarrow> 'c MemorySyncer \<Rightarrow> ReplicationOption list \<Rightarrow> 'c LeaderNode" where
  "NewLeaderNode nodeID syncer options =
     \<lparr>ld_nodeID = nodeID, ld_role = RoleLeader, ld_leaderID = nodeID,
      ld_config = fold (\<lambda>opt config. opt config) options DefaultReplicationConfig, ld_syncer = syncer,
      ld_followers = [], ld_followerStatus = [], ld_heartbeatTimer = TimerNil, ld_stopClosed = False,
      ld_running = False, ld_currentTerm = 1\<rparr>"

definition Leader_startHeartbeat :: "'c LeaderNode \<Rightarrow> 'c LeaderNode" where
  "Leader_startHeartbeat l = l\<lparr>ld_heartbeatTimer := TimerArmed\<rparr>"

definition Leader_Start :: "'c LeaderNode \<Rightarrow> (gerror + unit) \<times> 'c LeaderNode" where
  "Leader_Start l =
     (if ld_running l then (Inr (), l)
      else case Syncer_Start (ld_syncer l) of
        (Inl _, s) \<Rightarrow> (Inl (Errorf ''failed to start syncer: %w''), l\<lparr>ld_syncer := s\<rparr>)
      | (Inr _, s) \<Rightarrow> (Inr (), Leader_startHeartbeat (l\<lparr>ld_running := True, ld_syncer := s\<rparr>)))"

definition Leader_Stop :: "'c LeaderNode \<Rightarrow> ((gerror + unit) \<times> 'c LeaderNode) option" where
  "Leader_Stop l =
     (if \<not> ld_running l then Some (Inr (), l)
      else if ld_stopClosed l then None
      else let l = l\<lparr>ld_heartbeatTimer := timer_stop (ld_heartbeatTimer l), ld_stopClosed := True\<rparr> in
        case Syncer_Stop (ld_syncer l) of
          (Inl _, s) \<Rightarrow> Some (Inl (Errorf ''failed to stop syncer: %w''), l\<lparr>ld_syncer := s\<rparr>)
        | (Inr _, s) \<Rightarrow> Some (Inr (), l\<lparr>ld_syncer := s, ld_running := False\<rparr>))"

definition Leader_GetRole :: "'c LeaderNode \<Rightarrow> ReplicationRole" where
  "Leader_GetRole l = ld_role l"

definition Leader_SetRole :: "ReplicationRole \<Rightarrow> 'c LeaderNode \<Rightarrow> 'c LeaderNode" where
  "Leader_SetRole role l =
     (let prevRole = ld_role l; l = l\<lparr>ld_role := role\<rparr> in
      if prevRole \<noteq> role then
        if role = RoleLeader then Leader_startHeartbeat (l\<lparr>ld_leaderID := ld_nodeID l\<rparr>)
        else l\<lparr>ld_heartbeatTimer := timer_stop (ld_heartbeatTimer l)\<rparr>
      else l)"

definition Leader_GetLeader :: "'c LeaderNode \<Rightarrow> string" where
  "Leader_GetLeader l = ld_leaderID l"

text \<open>\<open>AddFollower\<close> and the goroutine it starts.\<close>

definition Leader_AddFollower :: "string \<Rightarrow> string \<Rightarrow> 'c LeaderNode \<Rightarrow> (gerror + unit) \<times> 'c LeaderNode" where
  "Leader_AddFollower nodeID address l =
     (if map_of (ld_followers l) nodeID \<noteq> None then (Inl (Errorf ''follower '%s' already exists''), l)
      else (Inr (), l\<lparr>ld_followers := AList.update nodeID address (ld_followers l),
                      ld_followerStatus := AList.update nodeID StateOutOfSync (ld_followerStatus l)\<rparr>))"

definition Leader_addFollower_sync :: "('c, 'a anyval) cache_put \<Rightarrow> 'c cache_del \<Rightarrow> 'n env \<Rightarrow> string \<Rightarrow> 'n \<Rightarrow> 'c LeaderNode
    \<Rightarrow> ('n \<times> 'c LeaderNode) option" where
  "Leader_addFollower_sync put del env nodeID n l = do {
     (err, n', s) \<leftarrow> FullSync put del env n (ld_syncer l);
     let l = l\<lparr>ld_syncer := s\<rparr>;
     Some (n', if err = Inr () then l\<lparr>ld_followerStatus := AList.update nodeID StateNormal (ld_followerStatus l)\<rparr> else l) }"

definition Leader_RemoveFollower :: "string \<Rightarrow> 'c LeaderNode \<Rightarrow> (gerror + unit) \<times> 'c LeaderNode" where
  "Leader_RemoveFollower nodeID l =
     (if map_of (ld_followers l) nodeID = None then (Inl (Errorf ''follower '%s' does not exist''), l)
      else (Inr (), l\<lparr>ld_followers := AList.delete nodeID (ld_followers l),
                      ld_followerStatus := AList.delete nodeID (ld_followerStatus l)\<rparr>))"

definition Leader_GetFollowers :: "'c LeaderNode \<Rightarrow> string gomap" where
  "Leader_GetFollowers l = ld_followers l"

text \<open>What one goroutine of \<open>ReplicateEntries\<close> does for one follower: the network \<open>post\<close> delivers the
  entries to an address. The goroutines share nothing but the status map and the list of errors, so
  they are run one after the other in the order of the map.\<close>

definition set_status :: "string \<Rightarrow> ReplicationState \<Rightarrow> 'c LeaderNode \<Rightarrow> 'c LeaderNode" where
  "set_status nodeID state l = l\<lparr>ld_followerStatus := AList.update nodeID state (ld_followerStatus l)\<rparr>"

definition replicate_one :: "(string \<Rightarrow> SyncResponse \<Rightarrow> 'n \<Rightarrow> unit reply \<times> 'n) \<Rightarrow> string \<Rightarrow> string \<Rightarrow> 'n \<Rightarrow> 'c LeaderNode
    \<Rightarrow> (gerror list \<times> 'n \<times> 'c LeaderNode) option" where
  "replicate_one post nodeID address n l = do {
     r \<leftarrow> Log_GetFrom (0 + 1) (rc_MaxLogEntries (ld_config l)) (sy_log (ld_syncer l));
     case r of
       Inl _ \<Rightarrow> Some ([Errorf ''failed to get log entries: %w''], n, l)
     | Inr ents \<Rightarrow>
         (case post address \<lparr>rs_Success = True, rs_Entries = ents, rs_NextIndex = Log_GetLastIndex (sy_log (ld_syncer l)) + 1\<rparr> n of
            (NoRequest, n') \<Rightarrow> Some ([Errorf ''failed to create HTTP request: %w''], n', l)
          | (SendFailed, n') \<Rightarrow> Some ([Errorf ''failed to send sync data to %s: %w''], n', set_status nodeID StateOutOfSync l)
          | (Replied status _, n') \<Rightarrow>
              if status \<noteq> 200 then Some ([Errorf ''follower %s returned non-OK status: %s''], n', set_status nodeID StateOutOfSync l)
              else Some ([], n', set_status nodeID StateNormal l)) }"

fun replicate_loop :: "(string \<Rightarrow> SyncResponse \<Rightarrow> 'n \<Rightarrow> unit reply \<times> 'n) \<Rightarrow> string gomap \<Rightarrow> 'n \<Rightarrow> 'c LeaderNode
    \<Rightarrow> (gerror list \<times> 'n \<times> 'c LeaderNode) option" where
  "replicate_loop post [] n l = Some ([], n, l)"
| "replicate_loop post ((nodeID, address) # followers) n l = do {
     (errs, n1, l1) \<leftarrow> replicate_one post nodeID address n l;
     (errs', n2, l2) \<leftarrow> replicate_loop post followers n1 l1;
     Some (errs @ errs', n2, l2) }"

definition Leader_ReplicateEntries :: "(string \<Rightarrow> SyncResponse \<Rightarrow> 'n \<Rightarrow> unit reply \<times> 'n) \<Rightarrow> 'n \<Rightarrow> 'c LeaderNode
    \<Rightarrow> ((gerror + unit) \<times> 'n \<times> 'c LeaderNode) option" where
  "Leader_ReplicateEntries post n l =
     (if ld_role l \<noteq> RoleLeader then Some (Inl (Errorf ''not the leader''), n, l)
      else if ld_followers l = [] then Some (Inr (), n, l)
      else do {
        (syncErrors, n', l') \<leftarrow> replicate_loop post (ld_followers l) n l;
        Some (case syncErrors of [] \<Rightarrow> Inr () | err # _ \<Rightarrow> Inl err, n', l') })"

text \<open>\<open>RequestSync\<close> of both nodes answers itself; \<open>SendHeartbeat\<close> calls it for every follower.\<close>

definition Leader_RequestSync :: "string \<Rightarrow> SyncRequest \<Rightarrow> gerror + SyncResponse" where
  "Leader_RequestSync target req = Inr \<lparr>rs_Success = True, rs_Entries = [], rs_NextIndex = 0\<rparr>"

definition Leader_SendHeartbeat :: "'c LeaderNode \<Rightarrow> (gerror + unit) \<times> 'c LeaderNode" where
  "Leader_SendHeartbeat l =
     (Inr (), fold (\<lambda>(nodeID, address) l.
        case Leader_RequestSync address \<lparr>rq_LeaderID = ld_nodeID l, rq_LastLogIndex = 0, rq_LastLogTerm = ld_currentTerm l, rq_FullSync = False\<rparr> of
          Inl _ \<Rightarrow> set_status nodeID StateOutOfSync l | Inr _ \<Rightarrow> l) (ld_followers l) l)"

definition Leader_heartbeat_tick :: "'c LeaderNode \<Rightarrow> 'c LeaderNode" where
  "Leader_heartbeat_tick l =
     (let l = snd (Leader_SendHeartbeat l) in
      if ld_running l \<and> ld_role l = RoleLeader then l\<lparr>ld_heartbeatTimer := TimerArmed\<rparr> else l)"

definition Leader_ApplyEntry :: "('c, 'a anyval) cache_put \<Rightarrow> 'c cache_del \<Rightarrow> instant \<Rightarrow> ReplicationEntry option \<Rightarrow> 'c \<Rightarrow> ((gerror + unit) \<times> 'c) option" where
  "Leader_ApplyEntry put del now e c =
     (case e of
        None \<Rightarrow> Some (Inl (Errorf ''cannot apply nil entry''), c)
      | Some entry \<Rightarrow>
          if re_Command entry = ''Set'' then put now (re_Key entry) (AnyBytes (re_Value entry)) (re_Expiration entry) c
          else if re_Command entry = ''Del'' then del (re_Key entry) c
          else Some (Inl (Errorf ''unknown command: %s''), c))"

definition Leader_GetLog :: "'c LeaderNode \<Rightarrow> MemoryReplicationLog" where
  "Leader_GetLog l = sy_log (ld_syncer l)"

definition Leader_UpdateFollowerStatus :: "string \<Rightarrow> ReplicationState \<Rightarrow> 'c LeaderNode \<Rightarrow> 'c LeaderNode" where
  "Leader_UpdateFollowerStatus nodeID state l =
     (if map_of (ld_followers l) nodeID \<noteq> None then set_status nodeID state l else l)"

definition Leader_GetFollowerStatus :: "'c LeaderNode \<Rightarrow> ReplicationState gomap" where
  "Leader_GetFollowerStatus l = ld_followerStatus l"

section \<open>The follower\<close>

text \<open>The election callback runs on a state \<open>'u\<close> of its owner; the calls started are counted there.\<close>

record ('c, 'u) FollowerNode =
  fo_nodeID :: string
  fo_role :: ReplicationRole
  fo_leaderID :: string
  fo_leaderAddr :: string
  fo_config :: ReplicationConfig
  fo_syncer :: "'c MemorySyncer"
  fo_heartbeatTimer :: timer
  fo_heartbeatTimeout :: duration
  fo_lastHeartbeat :: instant
  fo_stopClosed :: bool
  fo_running :: bool
  fo_syncState :: ReplicationState
  fo_currentTerm :: u64
  fo_onLeaderFail :: "('u \<Rightarrow> 'u) option"

definition NewFollowerNode :: "instant \<Rightarrow> string \<Rightarrow> 'c MemorySyncer \<Rightarrow> ReplicationOption list \<Rightarrow> ('c, 'u) FollowerNode" where
  "NewFollowerNode now nodeID syncer options =
     (let config = fold (\<lambda>opt config. opt config) options DefaultReplicationConfig in
      \<lparr>fo_nodeID = nodeID, fo_role = RoleFollower, fo_leaderID = '''', fo_leaderAddr = '''', fo_config = config,
       fo_syncer = syncer, fo_heartbeatTimer = TimerNil, fo_heartbeatTimeout = rc_ElectionTimeout config,
       fo_lastHeartbeat = now, fo_stopClosed = False, fo_running = False, fo_syncState = StateOutOfSync,
       fo_currentTerm = 0, fo_onLeaderFail = None\<rparr>)"

definition Follower_Start :: "('c, 'u) FollowerNode \<Rightarrow> (gerror + unit) \<times> ('c, 'u) FollowerNode" where
  "Follower_Start f =
     (if fo_running f then (Inr (), f) else (Inr (), f\<lparr>fo_running := True, fo_heartbeatTimer := TimerArmed\<rparr>))"

definition Follower_Stop :: "('c, 'u) FollowerNode \<Rightarrow> ((gerror + unit) \<times> ('c, 'u) FollowerNode) option" where
  "Follower_Stop f =
     (if \<not> fo_running f then Some (Inr (), f)
      else if fo_stopClosed f then None
      else Some (Inr (), f\<lparr>fo_heartbeatTimer := timer_stop (fo_heartbeatTimer f), fo_stopClosed := True, fo_running := False\<rparr>))"

definition Follower_GetRole :: "('c, 'u) FollowerNode \<Rightarrow> ReplicationRole" where
  "Follower_GetRole f = fo_role f"

definition Follower_SetRole :: "ReplicationRole \<Rightarrow> ('c, 'u) FollowerNode \<Rightarrow> ('c, 'u) FollowerNode" where
  "Follower_SetRole role f = f\<lparr>fo_role := role\<rparr>"

definition Follower_GetLeader :: "('c, 'u) FollowerNode \<Rightarrow> string" where
  "Follower_GetLeader f = fo_leaderID f"

definition Follower_SetLeader :: "instant \<Rightarrow> string \<Rightarrow> string \<Rightarrow> ('c, 'u) FollowerNode \<Rightarrow> ('c, 'u) FollowerNode" where
  "Follower_SetLeader now leaderID leaderAddr f =
     f\<lparr>fo_leaderID := leaderID, fo_leaderAddr := leaderAddr, fo_lastHeartbeat := now\<rparr>"

text \<open>The two synchronisations of a follower; the network \<open>env\<close> depends on the address asked.\<close>

definition Follower_SyncFromLeader :: "('c, 'a anyval) cache_put \<Rightarrow> 'c cache_del \<Rightarrow> (string \<Rightarrow> 'n env) \<Rightarrow> 'n \<Rightarrow> ('c, 'u) FollowerNode
    \<Rightarrow> ((gerror + unit) \<times> 'n \<times> ('c, 'u) FollowerNode) option" where
  "Follower_SyncFromLeader put del env n f =
     (if fo_leaderAddr f = '''' then Some (Inl (Errorf ''no leader available for sync''), n, f)
      else do {
        let f = f\<lparr>fo_syncState := StateSyncing\<rparr>;
        (err, n', s) \<leftarrow> IncrementalSync put del (env (fo_leaderAddr f)) (Log_GetLastIndex (sy_log (fo_syncer f))) n (fo_syncer f);
        Some (case err of
            Inl _ \<Rightarrow> (Inl (Errorf ''failed to sync from leader: %w''), n', f\<lparr>fo_syncer := s, fo_syncState := StateOutOfSync\<rparr>)
          | Inr _ \<Rightarrow> (Inr (), n', f\<lparr>fo_syncer := s, fo_syncState := StateNormal\<rparr>)) })"

definition Follower_RequestFullSync :: "('c, 'a anyval) cache_put \<Rightarrow> 'c cache_del \<Rightarrow> (string \<Rightarrow> 'n env) \<Rightarrow> 'n \<Rightarrow> ('c, 'u) FollowerNode
    \<Rightarrow> ((gerror + unit) \<times> 'n \<times> ('c, 'u) FollowerNode) option" where
  "Follower_RequestFullSync put del env n f =
     (if fo_leaderAddr f = '''' then Some (Inl (Errorf ''no leader available for full sync''), n, f)
      else do {
        let f = f\<lparr>fo_syncState := StateSyncing\<rparr>;
        (err, n', s) \<leftarrow> FullSync put del (env (fo_leaderAddr f)) n (fo_syncer f);
        Some (case err of
            Inl _ \<Rightarrow> (Inl (Errorf ''failed to perform full sync: %w''), n', f\<lparr>fo_syncer := s, fo_syncState := StateOutOfSync\<rparr>)
          | Inr _ \<Rightarrow> (Inr (), n', f\<lparr>fo_syncer := s, fo_syncState := StateNormal\<rparr>)) })"

definition Follower_HandleHeartbeat :: "instant \<Rightarrow> string \<Rightarrow> u64 \<Rightarrow> ('c, 'u) FollowerNode \<Rightarrow> (gerror + unit) \<times> ('c, 'u) FollowerNode" where
  "Follower_HandleHeartbeat now leaderID trm f =
     (Inr (), f\<lparr>fo_currentTerm := (if trm > fo_currentTerm f then trm else fo_currentTerm f), fo_lastHeartbeat := now,
                fo_leaderID := (if fo_leaderID f = '''' then leaderID else fo_leaderID f)\<rparr>)"

definition Follower_PromoteToLeader :: "('c, 'u) FollowerNode \<Rightarrow> (gerror + unit) \<times> ('c, 'u) FollowerNode" where
  "Follower_PromoteToLeader f =
     (Inr (), f\<lparr>fo_currentTerm := fo_currentTerm f + 1, fo_role := RoleLeader, fo_leaderID := fo_nodeID f,
                fo_heartbeatTimer := timer_stop (fo_heartbeatTimer f)\<rparr>)"

definition Follower_RequestSync :: "string \<Rightarrow> SyncRequest \<Rightarrow> gerror + SyncResponse" where
  "Follower_RequestSync target req = Inr \<lparr>rs_Success = True, rs_Entries = [], rs_NextIndex = 0\<rparr>"

definition Follower_ApplyEntry :: "('c, 'a anyval) cache_put \<Rightarrow> 'c cache_del \<Rightarrow> instant \<Rightarrow> ReplicationEntry option \<Rightarrow> 'c \<Rightarrow> ((gerror + unit) \<times> 'c) option" where
  "Follower_ApplyEntry put del now e c =
     (case e of
        None \<Rightarrow> Some (Inl (Errorf ''cannot apply nil entry''), c)
      | Some entry \<Rightarrow>
          if re_Command entry = ''Set'' then put now (re_Key entry) (AnyBytes (re_Value entry)) (re_Expiration entry) c
          else if re_Command entry = ''Del'' then del (re_Key entry) c
          else Some (Inl (Errorf ''unknown command: %s''), c))"

definition Follower_GetLog :: "('c, 'u) FollowerNode \<Rightarrow> MemoryReplicationLog" where
  "Follower_GetLog f = sy_log (fo_syncer f)"

text \<open>One firing of the heartbeat monitor; the callback it starts acts on \<open>u\<close>.\<close>

definition Follower_monitor_tick :: "instant \<Rightarrow> ('c, 'u) FollowerNode \<Rightarrow> 'u \<Rightarrow> ('c, 'u) FollowerNode \<times> 'u" where
  "Follower_monitor_tick now f u =
     (f\<lparr>fo_heartbeatTimer := TimerArmed\<rparr>,
      if now - fo_lastHeartbeat f > fo_heartbeatTimeout f
      then (case fo_onLeaderFail f of None \<Rightarrow> u | Some callback \<Rightarrow> callback u) else u)"

definition Follower_SetElectionCallback :: "('u \<Rightarrow> 'u) option \<Rightarrow> ('c, 'u) FollowerNode \<Rightarrow> ('c, 'u) FollowerNode" where
  "Follower_SetElectionCallback callback f = f\<lparr>fo_onLeaderFail := callback\<rparr>"

definition Follower_GetSyncState :: "('c, 'u) FollowerNode \<Rightarrow> ReplicationState" where
  "Follower_GetSyncState f = fo_syncState f"

definition Follower_GetCurrentTerm :: "('c, 'u) FollowerNode \<Rightarrow> u64" where
  "Follower_GetCurrentTerm f = fo_currentTerm f"

definition Follower_UpdateLastHeartbeat :: "instant \<Rightarrow> ('c, 'u) FollowerNode \<Rightarrow> ('c, 'u) FollowerNode" where
  "Follower_UpdateLastHeartbeat now f = f\<lparr>fo_lastHeartbeat := now\<rparr>"

section \<open>The leader's followers\<close>

text \<open>The steps of a leader and of the goroutines that share its state, in any interleaving; a round of
  \<open>ReplicateEntries\<close> works on a copy of the follower map, so it may report on any follower.\<close>

inductive leader_step :: "('c, 'a anyval) cache_put \<Rightarrow> 'c cache_del \<Rightarrow> 'c LeaderNode \<Rightarrow> 'c LeaderNode \<Rightarrow> bool"
  for put :: "('c, 'a anyval) cache_put" and del :: "'c cache_del" where
  AddFollower: "leader_step put del l (snd (Leader_AddFollower nodeID address l))"
| SyncDone: "Leader_addFollower_sync put del (env :: nat env) nodeID n l = Some (n', l') \<Longrightarrow> leader_step put del l l'"
| RemoveFollower: "leader_step put del l (snd (Leader_RemoveFollower nodeID l))"
| Replicate: "replicate_one post nodeID address (n :: nat) l = Some (errs, n', l') \<Longrightarrow> leader_step put del l l'"
| Update: "leader_step put del l (Leader_UpdateFollowerStatus nodeID state l)"
| Tick: "leader_step put del l (Leader_heartbeat_tick l)"
| SetRole: "leader_step put del l (Leader_SetRole role l)"
| Start: "leader_step put del l (snd (Leader_Start l))"
| Stop: "Leader_Stop l = Some (r, l') \<Longrightarrow> leader_step put del l l'"

inductive leader_reachable :: "('c, 'a anyval) cache_put \<Rightarrow> 'c cache_del \<Rightarrow> 'c LeaderNode \<Rightarrow> bool"
  for put :: "('c, 'a anyval) cache_put" and del :: "'c cache_del" where
  init: "leader_reachable put del (NewLeaderNode nodeID syncer options)"
| step: "leader_reachable put del l \<Longrightarrow> leader_step put del l l' \<Longrightarrow> leader_reachable put del l'"

definition leader_inv :: "'c LeaderNode \<Rightarrow> bool" where
  "leader_inv l \<longleftrightarrow> wf_gomap (ld_followers l) \<and> wf_gomap (ld_followerStatus l) \<and>
     dom (map_of (ld_followers l)) \<subseteq> dom (map_of (ld_followerStatus l)) \<and>
     (ld_running l \<longrightarrow> ld_heartbeatTimer l \<noteq> TimerNil) \<and> (ld_role l = RoleLeader \<longrightarrow> ld_leaderID l = ld_nodeID l)"

lemma leader_inv_status: "leader_inv l \<Longrightarrow> leader_inv (set_status nodeID state l)"
  by (auto simp: leader_inv_def set_status_def)

lemma SendHeartbeat_id [simp]: "snd (Leader_SendHeartbeat l) = l"
proof -
  have "fold (\<lambda>(nodeID, address) l. l) xs l = l" for xs :: "(string \<times> string) list" by (induction xs) auto
  then show ?thesis by (simp add: Leader_SendHeartbeat_def Leader_RequestSync_def)
qed

lemma leader_step_inv:
  assumes "leader_step put del l l'" "leader_inv l"
  shows "leader_inv l'"
  using assms
proof (induction rule: leader_step.induct)
  case (SyncDone env nodeID n l n' l')
  then have "\<exists>s. l' = l\<lparr>ld_syncer := s\<rparr> \<or> l' = set_status nodeID StateNormal (l\<lparr>ld_syncer := s\<rparr>)"
    by (auto simp: Leader_addFollower_sync_def set_status_def Let_def split: bind_splits if_splits)
  moreover have "leader_inv (l\<lparr>ld_syncer := s\<rparr>)" for s using SyncDone.prems by (simp add: leader_inv_def)
  ultimately show ?case using leader_inv_status by auto
next
  case (Replicate post nodeID address n l errs n' l')
  then have "l' = l \<or> (\<exists>state. l' = set_status nodeID state l)"
    by (auto simp: replicate_one_def split: bind_splits sum.splits prod.splits reply.splits if_splits)
  with Replicate.prems leader_inv_status show ?case by auto
qed (auto simp: leader_inv_def Leader_AddFollower_def Leader_RemoveFollower_def Leader_UpdateFollowerStatus_def set_status_def
    Leader_heartbeat_tick_def Leader_SetRole_def Leader_startHeartbeat_def Leader_Start_def Leader_Stop_def timer_stop_def Let_def
    split: if_splits prod.splits sum.splits)

lemma leader_reachable_inv: "leader_reachable put del l \<Longrightarrow> leader_inv l"
proof (induction rule: leader_reachable.induct)
  case (init nodeID syncer options)
  show ?case by (simp add: NewLeaderNode_def leader_inv_def)
qed (rule leader_step_inv)

section \<open>A round of replication\<close>

text \<open>The followers' synchronisers by address, and the delivery of a response to one of them.\<close>

definition follower_post :: "('c, 'a anyval) cache_put \<Rightarrow> 'c cache_del \<Rightarrow> instant \<Rightarrow> string \<Rightarrow> SyncResponse \<Rightarrow> (string \<Rightarrow> 'c MemorySyncer)
    \<Rightarrow> unit reply \<times> (string \<Rightarrow> 'c MemorySyncer)" where
  "follower_post put del now addr resp st =
     (case http_receive put del now True (Some (Some resp)) (st addr) of
        None \<Rightarrow> (SendFailed, st) | Some (status, s) \<Rightarrow> (Replied status None, st(addr := s)))"

definition page_of :: "'c LeaderNode \<Rightarrow> ReplicationEntry list" where
  "page_of l = take (nat (rc_MaxLogEntries (ld_config l))) (rl_entries (sy_log (ld_syncer l)))"

definition can_replicate :: "'c LeaderNode \<Rightarrow> bool" where
  "can_replicate l \<longleftrightarrow> serves ((ld_syncer l)\<lparr>sy_config := ld_config l\<rparr>)"

lemma can_replicate_page:
  assumes "can_replicate l"
  shows "Log_GetFrom (0 + 1) (rc_MaxLogEntries (ld_config l)) (sy_log (ld_syncer l)) = Some (Inr (page_of l))"
    "list_all known (page_of l)" "takeWhile known (page_of l) = page_of l"
proof -
  have sv: "log_inv (sy_log (ld_syncer l))" "rl_entries (sy_log (ld_syncer l)) \<noteq> []" "length (rl_entries (sy_log (ld_syncer l))) < 2 ^ 62"
      "\<forall>e\<in>set (rl_entries (sy_log (ld_syncer l))). known e" "\<bar>rc_MaxLogEntries (ld_config l)\<bar> < 2 ^ 62" "0 < rc_MaxLogEntries (ld_config l)"
    using assms by (auto simp: can_replicate_def serves_def)
  show "Log_GetFrom (0 + 1) (rc_MaxLogEntries (ld_config l)) (sy_log (ld_syncer l)) = Some (Inr (page_of l))"
    using Log_GetFrom_inv [OF sv(1,3,5), of 1] sv(2,6) by (simp add: page_of_def)
  have all: "\<forall>e\<in>set (page_of l). known e" using sv(4) by (auto simp: page_of_def dest: in_set_takeD)
  then show "list_all known (page_of l)" "takeWhile known (page_of l) = page_of l"
    by (simp_all add: list_all_iff takeWhile_eq_all_conv)
qed

lemma set_status_frame [simp]:
  "page_of (set_status nodeID state l) = page_of l" "can_replicate (set_status nodeID state l) = can_replicate l"
  "map_of (ld_followerStatus (set_status nodeID state l)) = (map_of (ld_followerStatus l))(nodeID \<mapsto> state)"
  by (simp_all add: page_of_def can_replicate_def set_status_def)

context repl_cache
begin

lemma replicate_one_rep:
  assumes "can_replicate l" "rep (sy_localCache (st addr)) m"
  shows "\<exists>c lg. replicate_one (follower_post put del now) nodeID addr st l =
      Some ([], st(addr := (st addr)\<lparr>sy_localCache := c, sy_log := lg\<rparr>), set_status nodeID StateNormal l) \<and>
    rep c (replay now (page_of l) m) \<and> map cmd_of (rl_entries lg) = map cmd_of (rl_entries (sy_log (st addr))) @ map cmd_of (page_of l)"
proof -
  obtain c lg where 1: "ApplySync put del now (page_of l) (st addr) = Some (Inr (), (st addr)\<lparr>sy_localCache := c, sy_log := lg\<rparr>)"
      "rep c (replay now (page_of l) m)" "map cmd_of (rl_entries lg) = map cmd_of (rl_entries (sy_log (st addr))) @ map cmd_of (page_of l)"
    using ApplySync_rep [OF assms(2), of now "page_of l"] can_replicate_page(2,3) [OF assms(1)] by auto
  then have "replicate_one (follower_post put del now) nodeID addr st l =
      Some ([], st(addr := (st addr)\<lparr>sy_localCache := c, sy_log := lg\<rparr>), set_status nodeID StateNormal l)"
    unfolding replicate_one_def can_replicate_page(1) [OF assms(1)] by (simp add: follower_post_def http_receive_def)
  with 1(2,3) show ?thesis by blast
qed

lemma replicate_loop_rep:
  assumes "can_replicate l" "\<forall>addr\<in>snd ` set fs. rep (sy_localCache (st addr)) (M addr)" "distinct (map snd fs)"
  shows "\<exists>st' l'. replicate_loop (follower_post put del now) fs st l = Some ([], st', l') \<and>
    map_of (ld_followerStatus l') = map_of (ld_followerStatus l) ++ (\<lambda>i. if i \<in> fst ` set fs then Some StateNormal else None) \<and>
    (\<forall>addr\<in>snd ` set fs. rep (sy_localCache (st' addr)) (replay now (page_of l) (M addr)) \<and>
       map cmd_of (rl_entries (sy_log (st' addr))) = map cmd_of (rl_entries (sy_log (st addr))) @ map cmd_of (page_of l)) \<and>
    (\<forall>addr. addr \<notin> snd ` set fs \<longrightarrow> st' addr = st addr)"
  using assms
proof (induction fs arbitrary: l st)
  case Nil
  then show ?case by (intro exI [of _ st] exI [of _ l]) (simp add: map_add_def fun_eq_iff)
next
  case (Cons f fs)
  obtain i a where f: "f = (i, a)" by force
  have "rep (sy_localCache (st a)) (M a)" using Cons.prems(2) f by simp
  from replicate_one_rep [where st = st and addr = a, OF Cons.prems(1) this, of now i] obtain c lg where
    1: "replicate_one (follower_post put del now) i a st l = Some ([], st(a := (st a)\<lparr>sy_localCache := c, sy_log := lg\<rparr>), set_status i StateNormal l)"
      "rep c (replay now (page_of l) (M a))" "map cmd_of (rl_entries lg) = map cmd_of (rl_entries (sy_log (st a))) @ map cmd_of (page_of l)" by blast
  let ?st = "st(a := (st a)\<lparr>sy_localCache := c, sy_log := lg\<rparr>)" and ?l = "set_status i StateNormal l"
  have new: "a \<notin> snd ` set fs" using Cons.prems(3) f by auto
  then have other: "?st addr = st addr" if "addr \<in> snd ` set fs" for addr using that by auto
  have "\<forall>addr\<in>snd ` set fs. rep (sy_localCache (?st addr)) (M addr)" using Cons.prems(2) other f by (simp del: fun_upd_apply)
  with Cons.IH [of ?l ?st] Cons.prems(1,3) f obtain st' l' where
    2: "replicate_loop (follower_post put del now) fs ?st ?l = Some ([], st', l')"
      "map_of (ld_followerStatus l') = map_of (ld_followerStatus ?l) ++ (\<lambda>i. if i \<in> fst ` set fs then Some StateNormal else None)"
      "\<forall>addr\<in>snd ` set fs. rep (sy_localCache (st' addr)) (replay now (page_of l) (M addr)) \<and>
         map cmd_of (rl_entries (sy_log (st' addr))) = map cmd_of (rl_entries (sy_log (?st addr))) @ map cmd_of (page_of l)"
      "\<forall>addr. addr \<notin> snd ` set fs \<longrightarrow> st' addr = ?st addr"
    by (auto simp del: fun_upd_apply)
  have "replicate_loop (follower_post put del now) (f # fs) st l = Some ([], st', l')" using 1(1) 2(1) f by simp
  moreover have "map_of (ld_followerStatus l') = map_of (ld_followerStatus l) ++ (\<lambda>j. if j \<in> fst ` set (f # fs) then Some StateNormal else None)"
    unfolding 2(2) using f by (auto simp: map_add_def fun_eq_iff)
  moreover have "st' a = ?st a" using 2(4) new by blast
  ultimately show ?case
    using 2(3,4) 1(2,3) other f by (intro exI [of _ st'] exI [of _ l']) (simp del: replicate_loop.simps)
qed

end


section \<open>Properties\<close>

text \<open>In every state a leader can reach, however its operations, its replication rounds and the
  background synchronisations interleave, every follower has a status, a running leader has a
  heartbeat timer, and a node in the role of leader names itself as the leader.\<close>

theorem leader_status_total:
  assumes "leader_reachable put del l"
  shows "dom (map_of (ld_followers l)) \<subseteq> dom (map_of (ld_followerStatus l)) \<and>
    (ld_running l \<longrightarrow> ld_heartbeatTimer l \<noteq> TimerNil) \<and> (Leader_GetRole l = RoleLeader \<longrightarrow> Leader_GetLeader l = ld_nodeID l)"
  using leader_reachable_inv [OF assms] by (simp add: leader_inv_def Leader_GetRole_def Leader_GetLeader_def)

theorem leader_status_total_witness:
  "\<exists>st. map_of (ld_followerStatus (snd (Leader_AddFollower ''f'' ''addr'' (NewLeaderNode ''l'' (syncer0 ''l'') [])))) ''f'' = Some st"
proof -
  let ?l = "snd (Leader_AddFollower ''f'' ''addr'' (NewLeaderNode ''l'' (syncer0 ''l'') []))"
  have "leader_reachable MemCache_Set MemCache_Del ?l"
    by (rule leader_reachable.step [OF leader_reachable.init leader_step.AddFollower])
  from leader_status_total [OF this] have "dom (map_of (ld_followers ?l)) \<subseteq> dom (map_of (ld_followerStatus ?l))" by simp
  moreover have "''f'' \<in> dom (map_of (ld_followers ?l))" by (simp add: Leader_AddFollower_def NewLeaderNode_def)
  ultimately show ?thesis by blast
qed


definition leader1 :: "((unit anyval, unit) MemoryCache \<times> unit) LeaderNode" where
  "leader1 = snd (Leader_AddFollower ''f'' ''addr'' (NewLeaderNode ''L'' leader0 []))"

lemma leader1_simps:
  "ld_role leader1 = RoleLeader" "ld_followers leader1 = [(''f'', ''addr'')]" "ld_syncer leader1 = leader0" "ld_config leader1 = DefaultReplicationConfig"
  by (simp_all add: leader1_def Leader_AddFollower_def NewLeaderNode_def)


text \<open>Adding a follower with an empty log marks it as in sync although it gets nothing: the background
  synchronisation asks the follower for its log instead of sending the leader's, so nothing but the
  follower's status changes, whatever the leader's log holds.\<close>

theorem addFollower_sends_nothing:
  assumes "rl_entries (sy_log F) = []" "0 < rc_MaxRetries (sy_config (ld_syncer l))" "map_of (ld_followers l) nodeID = None"
  shows "Leader_addFollower_sync put del (deadline_env F now) nodeID (Suc k) (snd (Leader_AddFollower nodeID addr l)) =
    Some (k, set_status nodeID StateNormal (snd (Leader_AddFollower nodeID addr l)))"
proof -
  let ?l = "snd (Leader_AddFollower nodeID addr l)"
  let ?req = "\<lparr>rq_LeaderID = sy_nodeID (ld_syncer l), rq_LastLogIndex = 0, rq_LastLogTerm = 0, rq_FullSync = True\<rparr>"
  obtain q where q: "nat (rc_MaxRetries (sy_config (ld_syncer l))) = Suc q"
    using assms(2) by (cases "nat (rc_MaxRetries (sy_config (ld_syncer l)))") auto
  have "serve ?req F = Replied 200 (Some (Some \<lparr>rs_Success = True, rs_Entries = [], rs_NextIndex = 0\<rparr>))"
    by (simp add: serve_def http_sync_def HandleSyncRequest_def Log_GetFrom_def Log_GetLastIndex_def Let_def assms(1))
  then have "sendSyncRequest put del (deadline_env F now) ?req (Suc k) (ld_syncer l) = Some (Inr (), k, ld_syncer l)"
    by (subst sendSyncRequest.simps) simp
  then have "FullSync put del (deadline_env F now) (Suc k) (ld_syncer l) = Some (Inr (), k, ld_syncer l)"
    by (simp add: FullSync_def syncWithRetries_def q)
  moreover have "ld_syncer ?l = ld_syncer l" by (simp add: Leader_AddFollower_def assms(3))
  ultimately show ?thesis by (simp add: Leader_addFollower_sync_def set_status_def Let_def)
qed

theorem addFollower_sends_nothing_witness:
  "Leader_addFollower_sync MemCache_Set MemCache_Del (deadline_env (syncer0 ''g'') 9) ''g'' 5 (snd (Leader_AddFollower ''g'' ''a'' leader1)) =
    Some (4, set_status ''g'' StateNormal (snd (Leader_AddFollower ''g'' ''a'' leader1)))"
proof -
  have "rl_entries (sy_log (syncer0 ''g'')) = []" by (simp add: syncer0_rep NewMemoryReplicationLog_def)
  moreover have "0 < rc_MaxRetries (sy_config (ld_syncer leader1))"
    by (simp add: leader1_simps leader0_def RecordSetOperation_def RecordDelOperation_def Let_def Log_Append_def send_logCh_def syncer0_rep
        DefaultReplicationConfig_def)
  moreover have "map_of (ld_followers leader1) ''g'' = None" by (simp add: leader1_simps)
  ultimately show ?thesis using addFollower_sends_nothing [of "syncer0 ''g''" leader1 "''g''" MemCache_Set MemCache_Del 9 4 "''a''"] by simp
qed

text \<open>What any sequence of heartbeats does to a follower: its term becomes the highest it has seen,
  and its leader is the first non-empty id it ever got; a later leader, even with a higher term, is
  never adopted.\<close>

theorem heartbeats_keep_first_leader:
  "let f' = fold (\<lambda>(now, leaderID, trm) f. snd (Follower_HandleHeartbeat now leaderID trm f)) hbs f in
   Follower_GetCurrentTerm f' = fold (\<lambda>(_, _, trm) t. max trm t) hbs (Follower_GetCurrentTerm f) \<and>
   Follower_GetLeader f' = (case dropWhile (\<lambda>i. i = '''') (Follower_GetLeader f # map (\<lambda>(_, leaderID, _). leaderID) hbs) of
      [] \<Rightarrow> '''' | i # _ \<Rightarrow> i) \<and>
   Follower_GetRole f' = Follower_GetRole f"
  unfolding Let_def
proof (induction hbs arbitrary: f)
  case Nil
  then show ?case by simp
next
  case (Cons hb hbs)
  obtain now i t where hb: "hb = (now, i, t)" by (cases hb) auto
  let ?f = "snd (Follower_HandleHeartbeat now i t f)"
  have "Follower_GetCurrentTerm ?f = max t (Follower_GetCurrentTerm f)" "Follower_GetRole ?f = Follower_GetRole f"
      "Follower_GetLeader ?f = (if Follower_GetLeader f = '''' then i else Follower_GetLeader f)"
    by (auto simp: Follower_HandleHeartbeat_def Follower_GetCurrentTerm_def Follower_GetRole_def Follower_GetLeader_def max_def)
  with Cons.IH [of ?f] hb show ?case by auto
qed

lemma Syncer_start_stop_ok: "\<exists>s'. Syncer_Start s = (Inr (), s')" "\<exists>s'. Syncer_Stop s = (Inr (), s')"
  by (simp_all add: Syncer_Start_def Syncer_StartHTTPServer_def Syncer_Stop_def)

lemma Leader_start_stop:
  assumes "\<not> ld_running l"
  shows "\<not> ld_stopClosed l \<Longrightarrow> \<exists>l'. Leader_Stop (snd (Leader_Start l)) = Some (Inr (), l') \<and> \<not> ld_running l' \<and> ld_stopClosed l'"
    "ld_stopClosed l \<Longrightarrow> Leader_Stop (snd (Leader_Start l)) = None"
proof -
  obtain s where s: "Syncer_Start (ld_syncer l) = (Inr (), s)" using Syncer_start_stop_ok(1) by blast
  obtain s' where s': "Syncer_Stop s = (Inr (), s')" using Syncer_start_stop_ok(2) by blast
  have "Leader_Start l = (Inr (), Leader_startHeartbeat (l\<lparr>ld_running := True, ld_syncer := s\<rparr>))"
    using assms s by (simp add: Leader_Start_def)
  with s' show "\<not> ld_stopClosed l \<Longrightarrow> \<exists>l'. Leader_Stop (snd (Leader_Start l)) = Some (Inr (), l') \<and> \<not> ld_running l' \<and> ld_stopClosed l'"
    "ld_stopClosed l \<Longrightarrow> Leader_Stop (snd (Leader_Start l)) = None"
    by (simp_all add: Leader_Stop_def Leader_startHeartbeat_def Let_def)
qed

lemma Follower_start_stop:
  assumes "\<not> fo_running f"
  shows "\<not> fo_stopClosed f \<Longrightarrow> \<exists>f'. Follower_Stop (snd (Follower_Start f)) = Some (Inr (), f') \<and> \<not> fo_running f' \<and> fo_stopClosed f'"
    "fo_stopClosed f \<Longrightarrow> Follower_Stop (snd (Follower_Start f)) = None"
  using assms by (simp_all add: Follower_Stop_def Follower_Start_def)

text \<open>Neither node can be stopped a second time: \<open>Stop\<close> closes \<open>stopCh\<close>, \<open>Start\<close> does not make a new
  one, so after start, stop and start again the next \<open>Stop\<close> panics.\<close>

theorem restarted_node_panics_on_stop:
  "(\<exists>l. Leader_Stop (snd (Leader_Start (NewLeaderNode nodeID syncer options))) = Some (Inr (), l) \<and>
      Leader_Stop (snd (Leader_Start l)) = None) \<and>
   (\<exists>f. Follower_Stop (snd (Follower_Start (NewFollowerNode now nodeID syncer options))) = Some (Inr (), f) \<and>
      Follower_Stop (snd (Follower_Start f)) = None)"
proof (rule conjI)
  have "\<not> ld_running (NewLeaderNode nodeID syncer options)" "\<not> ld_stopClosed (NewLeaderNode nodeID syncer options)"
    by (simp_all add: NewLeaderNode_def)
  from Leader_start_stop(1) [OF this] show "\<exists>l. Leader_Stop (snd (Leader_Start (NewLeaderNode nodeID syncer options))) = Some (Inr (), l) \<and>
      Leader_Stop (snd (Leader_Start l)) = None" using Leader_start_stop(2) by blast
  have "\<not> fo_running (NewFollowerNode now nodeID syncer options)" "\<not> fo_stopClosed (NewFollowerNode now nodeID syncer options)"
    by (simp_all add: NewFollowerNode_def Let_def)
  from Follower_start_stop(1) [OF this] show "\<exists>f. Follower_Stop (snd (Follower_Start (NewFollowerNode now nodeID syncer options))) = Some (Inr (), f) \<and>
      Follower_Stop (snd (Follower_Start f)) = None" using Follower_start_stop(2) by blast
qed


end
