(* ===== verification/Consistency.thy ===== *)
theory Consistency
  imports MemCache
begin

text \<open>
  The consistency strategies of \<^verbatim>\<open>src/cache/consistency\<close>: cache aside, write through and the
  strategy that notifies other nodes over a message queue, with their options. The cache is the
  \<open>Cache\<close> interface; the data source and the message publisher are interfaces that the user
  implements, so their operations are arguments. \<open>source_laws\<close> says what a data
  source promises: a load changes nothing and gives the stored value when it succeeds, a store or removal that succeeds does its
  work, and one that fails may have changed the key it was for, and no other. The properties hold for any such source; failures may come at
  any call. The two sources that the repository has, the databases of \<^verbatim>\<open>src/example/consistent\<close>, are shown to keep the promise.
\<close>

section \<open>Options\<close>

record CacheAsideOptions =
  ca_DefaultTTL :: duration
  ca_WriteOnMiss :: bool

record WriteThroughOptions =
  wt_DefaultTTL :: duration
  wt_DelayedWrite :: bool
  wt_WriteDelay :: duration

record MQNotifierOptions =
  mq_DefaultTTL :: duration
  mq_Topic :: string
  mq_MaxRetries :: int
  mq_RetryDelay :: duration

definition DefaultTTL :: duration where
  "DefaultTTL = 300 * 10 ^ 9"

definition defaultCacheAsideOptions :: CacheAsideOptions where
  "defaultCacheAsideOptions = \<lparr>ca_DefaultTTL = DefaultTTL, ca_WriteOnMiss = True\<rparr>"

definition defaultWriteThroughOptions :: WriteThroughOptions where
  "defaultWriteThroughOptions = \<lparr>wt_DefaultTTL = DefaultTTL, wt_DelayedWrite = False, wt_WriteDelay = 100 * 10 ^ 6\<rparr>"

definition defaultMQNotifierOptions :: MQNotifierOptions where
  "defaultMQNotifierOptions = \<lparr>mq_DefaultTTL = DefaultTTL, mq_Topic = ''cache:consistency'', mq_MaxRetries = 3, mq_RetryDelay = 500 * 10 ^ 6\<rparr>"

text \<open>An option gets the options of some strategy as an \<open>interface{}\<close> and changes those of its own.\<close>

datatype strategy_options = OCacheAside CacheAsideOptions | OWriteThrough WriteThroughOptions | OMQNotifier MQNotifierOptions

type_synonym strategy_option = "strategy_options \<Rightarrow> strategy_options"

fun WithCacheAsideTTL :: "duration \<Rightarrow> strategy_option" where
  "WithCacheAsideTTL ttl (OCacheAside opts) = OCacheAside (opts\<lparr>ca_DefaultTTL := ttl\<rparr>)"
| "WithCacheAsideTTL ttl opts = opts"

fun WithCacheAsideWriteOnMiss :: "bool \<Rightarrow> strategy_option" where
  "WithCacheAsideWriteOnMiss writeOnMiss (OCacheAside opts) = OCacheAside (opts\<lparr>ca_WriteOnMiss := writeOnMiss\<rparr>)"
| "WithCacheAsideWriteOnMiss writeOnMiss opts = opts"

fun WithWriteThroughTTL :: "duration \<Rightarrow> strategy_option" where
  "WithWriteThroughTTL ttl (OWriteThrough opts) = OWriteThrough (opts\<lparr>wt_DefaultTTL := ttl\<rparr>)"
| "WithWriteThroughTTL ttl opts = opts"

fun WithDelayedWrite :: "bool \<Rightarrow> duration \<Rightarrow> strategy_option" where
  "WithDelayedWrite delayed delay (OWriteThrough opts) =
     OWriteThrough (let opts = opts\<lparr>wt_DelayedWrite := delayed\<rparr> in if delay > 0 then opts\<lparr>wt_WriteDelay := delay\<rparr> else opts)"
| "WithDelayedWrite delayed delay opts = opts"

fun WithMQTopic :: "string \<Rightarrow> strategy_option" where
  "WithMQTopic topic (OMQNotifier opts) = OMQNotifier (if topic \<noteq> '''' then opts\<lparr>mq_Topic := topic\<rparr> else opts)"
| "WithMQTopic topic opts = opts"

fun WithMQRetry :: "int \<Rightarrow> duration \<Rightarrow> strategy_option" where
  "WithMQRetry maxRetries retryDelay (OMQNotifier opts) =
     OMQNotifier (let opts = (if maxRetries \<ge> 0 then opts\<lparr>mq_MaxRetries := maxRetries\<rparr> else opts)
                  in if retryDelay > 0 then opts\<lparr>mq_RetryDelay := retryDelay\<rparr> else opts)"
| "WithMQRetry maxRetries retryDelay opts = opts"

fun WithMQNotifierTTL :: "duration \<Rightarrow> strategy_option" where
  "WithMQNotifierTTL ttl (OMQNotifier opts) = OMQNotifier (opts\<lparr>mq_DefaultTTL := ttl\<rparr>)"
| "WithMQNotifierTTL ttl opts = opts"

section \<open>The interfaces\<close>

text \<open>A data source of type \<open>'s\<close>.\<close>

record ('s, 'v) DataSource =
  ds_Load :: "string \<Rightarrow> 's \<Rightarrow> (gerror + 'v) \<times> 's"
  ds_Store :: "string \<Rightarrow> 'v \<Rightarrow> 's \<Rightarrow> (gerror + unit) \<times> 's"
  ds_Remove :: "string \<Rightarrow> 's \<Rightarrow> (gerror + unit) \<times> 's"

definition source_laws :: "('s, 'v) DataSource \<Rightarrow> ('s \<Rightarrow> string \<rightharpoonup> 'v) \<Rightarrow> bool" where
  "source_laws ds view \<longleftrightarrow>
     (\<forall>k s r s'. ds_Load ds k s = (r, s') \<longrightarrow> view s' = view s \<and> (case r of Inr v \<Rightarrow> view s k = Some v | Inl _ \<Rightarrow> True)) \<and>
     (\<forall>k v s r s'. ds_Store ds k v s = (r, s') \<longrightarrow>
        (case r of Inr _ \<Rightarrow> view s' = (view s)(k \<mapsto> v) | Inl _ \<Rightarrow> \<forall>j. j \<noteq> k \<longrightarrow> view s' j = view s j)) \<and>
     (\<forall>k s r s'. ds_Remove ds k s = (r, s') \<longrightarrow>
        (case r of Inr _ \<Rightarrow> view s' = (view s)(k := None) | Inl _ \<Rightarrow> \<forall>j. j \<noteq> k \<longrightarrow> view s' j = view s j))"

text \<open>The database of the write-through example. \<open>operationCount\<close> is a Go map, which reads 0 for a key
  that it does not have. Sleeping for \<open>accessDelay\<close> changes nothing of the state.\<close>

record 'v MockDatabase =
  db_data :: "string \<rightharpoonup> 'v"
  operationCount :: "string \<rightharpoonup> int"
  accessDelay :: duration

definition NewMockDatabase :: "duration \<Rightarrow> 'v MockDatabase" where
  "NewMockDatabase delay =
     \<lparr>db_data = Map.empty, operationCount = [''load'' \<mapsto> 0, ''store'' \<mapsto> 0, ''remove'' \<mapsto> 0], accessDelay = delay\<rparr>"

definition count_operation :: "string \<Rightarrow> 'v MockDatabase \<Rightarrow> 'v MockDatabase" where
  "count_operation name db = db\<lparr>operationCount := (operationCount db)
     (name \<mapsto> (case operationCount db name of None \<Rightarrow> 0 | Some n \<Rightarrow> n) + 1)\<rparr>"

definition MockDatabase_Load :: "string \<Rightarrow> 'v MockDatabase \<Rightarrow> (gerror + 'v) \<times> 'v MockDatabase" where
  "MockDatabase_Load key db = (let db = count_operation ''load'' db in
     case db_data db key of
       None \<Rightarrow> (Inl (Errorf ''key %s not found in database''), db)
     | Some value \<Rightarrow> (Inr value, db))"

definition MockDatabase_Store :: "string \<Rightarrow> 'v \<Rightarrow> 'v MockDatabase \<Rightarrow> (gerror + unit) \<times> 'v MockDatabase" where
  "MockDatabase_Store key value db = (let db = count_operation ''store'' db in
     (Inr (), db\<lparr>db_data := (db_data db)(key \<mapsto> value)\<rparr>))"

definition MockDatabase_Remove :: "string \<Rightarrow> 'v MockDatabase \<Rightarrow> (gerror + unit) \<times> 'v MockDatabase" where
  "MockDatabase_Remove key db = (let db = count_operation ''remove'' db in
     (Inr (), db\<lparr>db_data := (db_data db)(key := None)\<rparr>))"

definition GetOperationCounts :: "'v MockDatabase \<Rightarrow> string \<rightharpoonup> int" where
  "GetOperationCounts db = operationCount db"

definition mock_database :: "('v MockDatabase, 'v) DataSource" where
  "mock_database = \<lparr>ds_Load = MockDatabase_Load, ds_Store = MockDatabase_Store, ds_Remove = MockDatabase_Remove\<rparr>"

text \<open>The database of the cache-aside example, which does not count.\<close>

record 'v AsideDatabase =
  aside_data :: "string \<rightharpoonup> 'v"
  aside_accessDelay :: duration

definition NewAsideDatabase :: "duration \<Rightarrow> 'v AsideDatabase" where
  "NewAsideDatabase delay = \<lparr>aside_data = Map.empty, aside_accessDelay = delay\<rparr>"

definition AsideDatabase_Load :: "string \<Rightarrow> 'v AsideDatabase \<Rightarrow> (gerror + 'v) \<times> 'v AsideDatabase" where
  "AsideDatabase_Load key db = (case aside_data db key of
       None \<Rightarrow> (Inl (Errorf ''key %s not found in database''), db)
     | Some value \<Rightarrow> (Inr value, db))"

definition AsideDatabase_Store :: "string \<Rightarrow> 'v \<Rightarrow> 'v AsideDatabase \<Rightarrow> (gerror + unit) \<times> 'v AsideDatabase" where
  "AsideDatabase_Store key value db = (Inr (), db\<lparr>aside_data := (aside_data db)(key \<mapsto> value)\<rparr>)"

definition AsideDatabase_Remove :: "string \<Rightarrow> 'v AsideDatabase \<Rightarrow> (gerror + unit) \<times> 'v AsideDatabase" where
  "AsideDatabase_Remove key db = (Inr (), db\<lparr>aside_data := (aside_data db)(key := None)\<rparr>)"

definition aside_database :: "('v AsideDatabase, 'v) DataSource" where
  "aside_database = \<lparr>ds_Load = AsideDatabase_Load, ds_Store = AsideDatabase_Store, ds_Remove = AsideDatabase_Remove\<rparr>"

text \<open>The state of a strategy: its cache, the data source, the delayed writes that are still to run and
  the publisher of messages.\<close>

record ('c, 's, 'v, 'p) strategy =
  st_cache :: 'c
  st_source :: 's
  st_pending :: "(string \<times> 'v) list"
  st_publisher :: 'p

text \<open>What the three strategies share: reading through the cache. \<open>write\<close> says whether a miss is
  written back.\<close>

definition read_through :: "('c, 'v) cache_get \<Rightarrow> ('c, 'v) cache_put \<Rightarrow> ('s, 'v) DataSource \<Rightarrow> bool \<Rightarrow> duration \<Rightarrow> instant \<Rightarrow> string
    \<Rightarrow> ('c, 's, 'v, 'p) strategy \<Rightarrow> ((gerror + 'v) \<times> ('c, 's, 'v, 'p) strategy) option" where
  "read_through get put ds write ttl now key st = do {
     (r, c) \<leftarrow> get now key (st_cache st);
     let st = st\<lparr>st_cache := c\<rparr>;
     case r of
       Inr v \<Rightarrow> Some (Inr v, st)
     | Inl err \<Rightarrow>
         if err \<noteq> ErrKeyNotFound then Some (Inl err, st)
         else (case ds_Load ds key (st_source st) of
             (Inl _, s) \<Rightarrow> Some (Inl (Errorf ''failed to load from data source: %w''), st\<lparr>st_source := s\<rparr>)
           | (Inr v, s) \<Rightarrow>
               if write then do {
                 (_, c') \<leftarrow> put now key v ttl (st_cache st);
                 Some (Inr v, st\<lparr>st_source := s, st_cache := c'\<rparr>) }
               else Some (Inr v, st\<lparr>st_source := s\<rparr>)) }"

section \<open>Cache aside\<close>

definition CacheAside_Get :: "('c, 'v) cache_get \<Rightarrow> ('c, 'v) cache_put \<Rightarrow> ('s, 'v) DataSource \<Rightarrow> CacheAsideOptions \<Rightarrow> instant \<Rightarrow> string
    \<Rightarrow> ('c, 's, 'v, 'p) strategy \<Rightarrow> ((gerror + 'v) \<times> ('c, 's, 'v, 'p) strategy) option" where
  "CacheAside_Get get put ds opts now key st = read_through get put ds (ca_WriteOnMiss opts) (ca_DefaultTTL opts) now key st"

definition CacheAside_Set :: "('c, 'v) cache_put \<Rightarrow> ('s, 'v) DataSource \<Rightarrow> instant \<Rightarrow> string \<Rightarrow> 'v \<Rightarrow> duration
    \<Rightarrow> ('c, 's, 'v, 'p) strategy \<Rightarrow> ((gerror + unit) \<times> ('c, 's, 'v, 'p) strategy) option" where
  "CacheAside_Set put ds now key val expiration st =
     (case ds_Store ds key val (st_source st) of
        (Inl _, s) \<Rightarrow> Some (Inl (Errorf ''failed to store in data source: %w''), st\<lparr>st_source := s\<rparr>)
      | (Inr _, s) \<Rightarrow> do {
          (r, c) \<leftarrow> put now key val expiration (st_cache st);
          Some (case r of Inl _ \<Rightarrow> Inl (Errorf ''data source updated but cache set failed: %w'') | Inr _ \<Rightarrow> Inr (),
                st\<lparr>st_source := s, st_cache := c\<rparr>) })"

definition CacheAside_Del :: "'c cache_del \<Rightarrow> ('s, 'v) DataSource \<Rightarrow> string
    \<Rightarrow> ('c, 's, 'v, 'p) strategy \<Rightarrow> ((gerror + unit) \<times> ('c, 's, 'v, 'p) strategy) option" where
  "CacheAside_Del del ds key st = do {
     (_, c) \<leftarrow> del key (st_cache st);
     Some (case ds_Remove ds key (st_source st) of
         (Inl _, s) \<Rightarrow> (Inl (Errorf ''failed to remove from data source: %w''), st\<lparr>st_source := s, st_cache := c\<rparr>)
       | (Inr _, s) \<Rightarrow> (Inr (), st\<lparr>st_source := s, st_cache := c\<rparr>)) }"

definition CacheAside_Invalidate :: "'c cache_del \<Rightarrow> string \<Rightarrow> ('c, 's, 'v, 'p) strategy \<Rightarrow> ((gerror + unit) \<times> ('c, 's, 'v, 'p) strategy) option" where
  "CacheAside_Invalidate del key st = do { (r, c) \<leftarrow> del key (st_cache st); Some (r, st\<lparr>st_cache := c\<rparr>) }"

section \<open>Write through\<close>

definition WriteThrough_Get :: "('c, 'v) cache_get \<Rightarrow> ('c, 'v) cache_put \<Rightarrow> ('s, 'v) DataSource \<Rightarrow> WriteThroughOptions \<Rightarrow> instant \<Rightarrow> string
    \<Rightarrow> ('c, 's, 'v, 'p) strategy \<Rightarrow> ((gerror + 'v) \<times> ('c, 's, 'v, 'p) strategy) option" where
  "WriteThrough_Get get put ds opts now key st = read_through get put ds True (wt_DefaultTTL opts) now key st"

text \<open>A delayed write is queued; the goroutine that runs it later ignores its error.\<close>

definition WriteThrough_Set :: "('c, 'v) cache_put \<Rightarrow> 'c cache_del \<Rightarrow> ('s, 'v) DataSource \<Rightarrow> WriteThroughOptions \<Rightarrow> instant \<Rightarrow> string \<Rightarrow> 'v \<Rightarrow> duration
    \<Rightarrow> ('c, 's, 'v, 'p) strategy \<Rightarrow> ((gerror + unit) \<times> ('c, 's, 'v, 'p) strategy) option" where
  "WriteThrough_Set put del ds opts now key val expiration st =
     (if wt_DelayedWrite opts then do {
        (r, c) \<leftarrow> put now key val expiration (st_cache st);
        Some (case r of
            Inl _ \<Rightarrow> (Inl (Errorf ''failed to set cache: %w''), st\<lparr>st_cache := c\<rparr>)
          | Inr _ \<Rightarrow> (Inr (), st\<lparr>st_cache := c, st_pending := st_pending st @ [(key, val)]\<rparr>)) }
      else case ds_Store ds key val (st_source st) of
          (Inl _, s) \<Rightarrow> Some (Inl (Errorf ''failed to store in data source: %w''), st\<lparr>st_source := s\<rparr>)
        | (Inr _, s) \<Rightarrow> do {
            (r, c) \<leftarrow> put now key val expiration (st_cache st);
            case r of
              Inl _ \<Rightarrow> do {
                (_, c') \<leftarrow> del key c;
                Some (Inl (Errorf ''data source updated but cache set failed: %w''), st\<lparr>st_source := s, st_cache := c'\<rparr>) }
            | Inr _ \<Rightarrow> Some (Inr (), st\<lparr>st_source := s, st_cache := c\<rparr>) })"

definition WriteThrough_flush :: "('s, 'v) DataSource \<Rightarrow> nat \<Rightarrow> ('c, 's, 'v, 'p) strategy \<Rightarrow> ('c, 's, 'v, 'p) strategy" where
  "WriteThrough_flush ds i st =
     (if i < length (st_pending st)
      then let (key, val) = st_pending st ! i in
        st\<lparr>st_source := snd (ds_Store ds key val (st_source st)),
           st_pending := take i (st_pending st) @ drop (Suc i) (st_pending st)\<rparr>
      else st)"

definition WriteThrough_Del :: "'c cache_del \<Rightarrow> ('s, 'v) DataSource \<Rightarrow> string
    \<Rightarrow> ('c, 's, 'v, 'p) strategy \<Rightarrow> ((gerror + unit) \<times> ('c, 's, 'v, 'p) strategy) option" where
  "WriteThrough_Del del ds key st =
     (case ds_Remove ds key (st_source st) of
        (Inl _, s) \<Rightarrow> Some (Inl (Errorf ''failed to remove from data source: %w''), st\<lparr>st_source := s\<rparr>)
      | (Inr _, s) \<Rightarrow> do { (_, c) \<leftarrow> del key (st_cache st); Some (Inr (), st\<lparr>st_source := s, st_cache := c\<rparr>) })"

definition WriteThrough_Invalidate :: "'c cache_del \<Rightarrow> string \<Rightarrow> ('c, 's, 'v, 'p) strategy \<Rightarrow> ((gerror + unit) \<times> ('c, 's, 'v, 'p) strategy) option" where
  "WriteThrough_Invalidate del key st = do { (r, c) \<leftarrow> del key (st_cache st); Some (r, st\<lparr>st_cache := c\<rparr>) }"

definition NewCacheAsideStrategy :: "'c \<Rightarrow> 's \<Rightarrow> 'p \<Rightarrow> strategy_option list \<Rightarrow> CacheAsideOptions \<times> ('c, 's, 'v, 'p) strategy" where
  "NewCacheAsideStrategy cache source p opts =
     (case fold (\<lambda>opt o'. opt o') opts (OCacheAside defaultCacheAsideOptions) of OCacheAside o' \<Rightarrow> o' | _ \<Rightarrow> defaultCacheAsideOptions,
      \<lparr>st_cache = cache, st_source = source, st_pending = [], st_publisher = p\<rparr>)"

definition NewWriteThroughStrategy :: "'c \<Rightarrow> 's \<Rightarrow> 'p \<Rightarrow> strategy_option list \<Rightarrow> WriteThroughOptions \<times> ('c, 's, 'v, 'p) strategy" where
  "NewWriteThroughStrategy cache source p opts =
     (case fold (\<lambda>opt o'. opt o') opts (OWriteThrough defaultWriteThroughOptions) of OWriteThrough o' \<Rightarrow> o' | _ \<Rightarrow> defaultWriteThroughOptions,
      \<lparr>st_cache = cache, st_source = source, st_pending = [], st_publisher = p\<rparr>)"

section \<open>Message queue notification\<close>

record CacheMessage =
  msg_Type :: string
  msg_Key :: string
  msg_Data :: string
  msg_Timestamp :: int

definition UnixNano :: "instant \<Rightarrow> int" where
  "UnixNano now = now - 62135596800 * 10 ^ 9"

type_synonym 'p publish = "string \<Rightarrow> CacheMessage \<Rightarrow> 'p \<Rightarrow> (gerror + unit) \<times> 'p"

text \<open>The message is published as JSON, which the publisher delivers: \<open>publish\<close> takes the message, a
  handler gets it back, or \<open>None\<close> when what arrives is no such JSON.\<close>

fun publish_retries :: "nat \<Rightarrow> 'p publish \<Rightarrow> string \<Rightarrow> CacheMessage \<Rightarrow> 'p \<Rightarrow> (gerror + unit) \<times> 'p" where
  "publish_retries 0 publish topic msg p = (Inl (Errorf ''failed to publish message after %d retries: %w''), p)"
| "publish_retries (Suc n) publish topic msg p =
     (case publish topic msg p of
        (Inr _, p') \<Rightarrow> (Inr (), p')
      | (Inl _, p') \<Rightarrow> publish_retries n publish topic msg p')"

definition publishWithRetry :: "'p publish \<Rightarrow> MQNotifierOptions \<Rightarrow> CacheMessage \<Rightarrow> 'p \<Rightarrow> (gerror + unit) \<times> 'p" where
  "publishWithRetry publish opts msg p =
     (case publish (mq_Topic opts) msg p of
        (Inr _, p') \<Rightarrow> (Inr (), p')
      | (Inl _, p') \<Rightarrow> publish_retries (nat (mq_MaxRetries opts)) publish (mq_Topic opts) msg p')"

definition NewMQNotifierStrategy :: "(string \<Rightarrow> 'p \<Rightarrow> (gerror + unit) \<times> 'p) \<Rightarrow> 'c \<Rightarrow> 's \<Rightarrow> 'p \<Rightarrow> strategy_option list
    \<Rightarrow> MQNotifierOptions \<times> ('c, 's, 'v, 'p) strategy" where
  "NewMQNotifierStrategy subscribe cache source p opts =
     (let options = (case fold (\<lambda>opt o'. opt o') opts (OMQNotifier defaultMQNotifierOptions) of OMQNotifier o' \<Rightarrow> o' | _ \<Rightarrow> defaultMQNotifierOptions)
      in (options, \<lparr>st_cache = cache, st_source = source, st_pending = [], st_publisher = snd (subscribe (mq_Topic options) p)\<rparr>))"

definition MQ_Get :: "('c, 'v) cache_get \<Rightarrow> ('c, 'v) cache_put \<Rightarrow> ('s, 'v) DataSource \<Rightarrow> MQNotifierOptions \<Rightarrow> instant \<Rightarrow> string
    \<Rightarrow> ('c, 's, 'v, 'p) strategy \<Rightarrow> ((gerror + 'v) \<times> ('c, 's, 'v, 'p) strategy) option" where
  "MQ_Get get put ds opts now key st = read_through get put ds True (mq_DefaultTTL opts) now key st"

definition notify :: "'p publish \<Rightarrow> MQNotifierOptions \<Rightarrow> string \<Rightarrow> instant \<Rightarrow> string \<Rightarrow> ('c, 's, 'v, 'p) strategy
    \<Rightarrow> (gerror + unit) \<times> ('c, 's, 'v, 'p) strategy" where
  "notify publish opts typ now key st =
     (case publishWithRetry publish opts \<lparr>msg_Type = typ, msg_Key = key, msg_Data = '''', msg_Timestamp = UnixNano now\<rparr> (st_publisher st) of
        (r, p) \<Rightarrow> (r, st\<lparr>st_publisher := p\<rparr>))"

definition MQ_Set :: "('c, 'v) cache_put \<Rightarrow> ('s, 'v) DataSource \<Rightarrow> 'p publish \<Rightarrow> MQNotifierOptions \<Rightarrow> instant \<Rightarrow> string \<Rightarrow> 'v \<Rightarrow> duration
    \<Rightarrow> ('c, 's, 'v, 'p) strategy \<Rightarrow> ((gerror + unit) \<times> ('c, 's, 'v, 'p) strategy) option" where
  "MQ_Set put ds publish opts now key val expiration st =
     (case ds_Store ds key val (st_source st) of
        (Inl _, s) \<Rightarrow> Some (Inl (Errorf ''failed to store in data source: %w''), st\<lparr>st_source := s\<rparr>)
      | (Inr _, s) \<Rightarrow> do {
          (_, c) \<leftarrow> put now key val expiration (st_cache st);
          Some (notify publish opts ''update'' now key (st\<lparr>st_source := s, st_cache := c\<rparr>)) })"

definition MQ_Del :: "'c cache_del \<Rightarrow> ('s, 'v) DataSource \<Rightarrow> 'p publish \<Rightarrow> MQNotifierOptions \<Rightarrow> instant \<Rightarrow> string
    \<Rightarrow> ('c, 's, 'v, 'p) strategy \<Rightarrow> ((gerror + unit) \<times> ('c, 's, 'v, 'p) strategy) option" where
  "MQ_Del del ds publish opts now key st =
     (case ds_Remove ds key (st_source st) of
        (Inl _, s) \<Rightarrow> Some (Inl (Errorf ''failed to remove from data source: %w''), st\<lparr>st_source := s\<rparr>)
      | (Inr _, s) \<Rightarrow> do {
          (_, c) \<leftarrow> del key (st_cache st);
          Some (notify publish opts ''invalidate'' now key (st\<lparr>st_source := s, st_cache := c\<rparr>)) })"

definition MQ_Invalidate :: "'c cache_del \<Rightarrow> 'p publish \<Rightarrow> MQNotifierOptions \<Rightarrow> instant \<Rightarrow> string
    \<Rightarrow> ('c, 's, 'v, 'p) strategy \<Rightarrow> ((gerror + unit) \<times> ('c, 's, 'v, 'p) strategy) option" where
  "MQ_Invalidate del publish opts now key st = do {
     (r, c) \<leftarrow> del key (st_cache st);
     let st = st\<lparr>st_cache := c\<rparr>;
     Some (case r of Inl err \<Rightarrow> (Inl err, st) | Inr _ \<Rightarrow> notify publish opts ''invalidate'' now key st) }"

text \<open>A message that cannot be decoded ends the process (\<open>log.Fatalf\<close>).\<close>

definition handleMessage :: "'c cache_del \<Rightarrow> CacheMessage option \<Rightarrow> ('c, 's, 'v, 'p) strategy \<Rightarrow> ('c, 's, 'v, 'p) strategy option" where
  "handleMessage del msg st =
     (case msg of
        None \<Rightarrow> None
      | Some message \<Rightarrow>
          if msg_Type message = ''invalidate'' \<or> msg_Type message = ''update''
          then do { (_, c) \<leftarrow> del (msg_Key message) (st_cache st); Some (st\<lparr>st_cache := c\<rparr>) }
          else Some st)"

definition MQ_Close :: "('p \<Rightarrow> (gerror + unit) \<times> 'p) \<Rightarrow> ('c, 's, 'v, 'p) strategy \<Rightarrow> (gerror + unit) \<times> ('c, 's, 'v, 'p) strategy" where
  "MQ_Close close st = (case close (st_publisher st) of (r, p) \<Rightarrow> (r, st\<lparr>st_publisher := p\<rparr>))"

section \<open>Coherence\<close>

text \<open>One operation of a strategy, \<open>None\<close> as result where there is no value.\<close>

datatype strategy_kind = CacheAside CacheAsideOptions | WriteThrough WriteThroughOptions | MQNotifier MQNotifierOptions

datatype 'v strategy_op = SGet string | SSet string 'v duration | SDel string | SInvalidate string | SMessage CacheMessage

definition noval :: "((gerror + unit) \<times> 'a) option \<Rightarrow> ((gerror + 'v) option \<times> 'a) option" where
  "noval x = map_option (\<lambda>(_, st). (None, st)) x"

definition val :: "((gerror + 'v) \<times> 'a) option \<Rightarrow> ((gerror + 'v) option \<times> 'a) option" where
  "val x = map_option (\<lambda>(r, st). (Some r, st)) x"

fun strategy_step :: "('c, 'v) cache_get \<Rightarrow> ('c, 'v) cache_put \<Rightarrow> 'c cache_del \<Rightarrow> ('s, 'v) DataSource \<Rightarrow> 'p publish \<Rightarrow> strategy_kind
    \<Rightarrow> instant \<times> 'v strategy_op \<Rightarrow> ('c, 's, 'v, 'p) strategy \<Rightarrow> ((gerror + 'v) option \<times> ('c, 's, 'v, 'p) strategy) option" where
  "strategy_step get put del ds publish (CacheAside opts) (now, SGet k) st = val (CacheAside_Get get put ds opts now k st)"
| "strategy_step get put del ds publish (WriteThrough opts) (now, SGet k) st = val (WriteThrough_Get get put ds opts now k st)"
| "strategy_step get put del ds publish (MQNotifier opts) (now, SGet k) st = val (MQ_Get get put ds opts now k st)"
| "strategy_step get put del ds publish (CacheAside opts) (now, SSet k v e) st = noval (CacheAside_Set put ds now k v e st)"
| "strategy_step get put del ds publish (WriteThrough opts) (now, SSet k v e) st = noval (WriteThrough_Set put del ds opts now k v e st)"
| "strategy_step get put del ds publish (MQNotifier opts) (now, SSet k v e) st = noval (MQ_Set put ds publish opts now k v e st)"
| "strategy_step get put del ds publish (CacheAside opts) (now, SDel k) st = noval (CacheAside_Del del ds k st)"
| "strategy_step get put del ds publish (WriteThrough opts) (now, SDel k) st = noval (WriteThrough_Del del ds k st)"
| "strategy_step get put del ds publish (MQNotifier opts) (now, SDel k) st = noval (MQ_Del del ds publish opts now k st)"
| "strategy_step get put del ds publish (CacheAside opts) (now, SInvalidate k) st = noval (CacheAside_Invalidate del k st)"
| "strategy_step get put del ds publish (WriteThrough opts) (now, SInvalidate k) st = noval (WriteThrough_Invalidate del k st)"
| "strategy_step get put del ds publish (MQNotifier opts) (now, SInvalidate k) st = noval (MQ_Invalidate del publish opts now k st)"
| "strategy_step get put del ds publish (MQNotifier opts) (now, SMessage msg) st = map_option (Pair None) (handleMessage del (Some msg) st)"
| "strategy_step get put del ds publish kind (now, SMessage msg) st = Some (None, st)"

text \<open>After a store or a removal that failed, the source may or may not hold the new value, and the cache keeps the old one: the key is
  in doubt until a write of it succeeds or it leaves the cache. \<open>CacheAside\<close> deletes from the cache before it removes from the source.\<close>

fun doubtful :: "('s, 'v) DataSource \<Rightarrow> strategy_kind \<Rightarrow> 's \<Rightarrow> 'v strategy_op \<Rightarrow> string set \<Rightarrow> string set" where
  "doubtful ds kind s (SGet k) U = U"
| "doubtful ds kind s (SSet k v e) U = (if isl (fst (ds_Store ds k v s)) then insert k U else U - {k})"
| "doubtful ds kind s (SDel k) U =
     (case kind of CacheAside _ \<Rightarrow> U - {k} | _ \<Rightarrow> if isl (fst (ds_Remove ds k s)) then insert k U else U - {k})"
| "doubtful ds kind s (SInvalidate k) U = U - {k}"
| "doubtful ds kind s (SMessage msg) U =
     (case kind of MQNotifier _ \<Rightarrow> if msg_Type msg = ''invalidate'' \<or> msg_Type msg = ''update'' then U - {msg_Key msg} else U | _ \<Rightarrow> U)"

text \<open>A run is right when every operation returns and every read of a key that is not in doubt gives the value the source holds at
  that moment, or an error when the source cannot be read.\<close>

definition read_right :: "('s, 'v) DataSource \<Rightarrow> ('s \<Rightarrow> string \<rightharpoonup> 'v) \<Rightarrow> string set \<Rightarrow> 's \<Rightarrow> 'v strategy_op \<Rightarrow> (gerror + 'v) option \<Rightarrow> bool" where
  "read_right ds view U s op r =
     (case (op, r) of
        (SGet k, Some (Inr v)) \<Rightarrow> k \<in> U \<or> view s k = Some v
      | (SGet k, Some (Inl _)) \<Rightarrow> isl (fst (ds_Load ds k s))
      | _ \<Rightarrow> True)"

fun run_right :: "('c, 'v) cache_get \<Rightarrow> ('c, 'v) cache_put \<Rightarrow> 'c cache_del \<Rightarrow> ('s, 'v) DataSource \<Rightarrow> ('s \<Rightarrow> string \<rightharpoonup> 'v) \<Rightarrow> 'p publish \<Rightarrow> strategy_kind
    \<Rightarrow> (instant \<times> 'v strategy_op) list \<Rightarrow> string set \<Rightarrow> ('c, 's, 'v, 'p) strategy \<Rightarrow> bool" where
  "run_right get put del ds view publish kind [] U st = True"
| "run_right get put del ds view publish kind (p # ops) U st =
     (case strategy_step get put del ds publish kind p st of
        None \<Rightarrow> False
      | Some (r, st') \<Rightarrow> read_right ds view U (st_source st) (snd p) r
          \<and> run_right get put del ds view publish kind ops (doubtful ds kind (st_source st) (snd p) U) st')"

definition coherent :: "('c \<Rightarrow> 'v ttl_map \<Rightarrow> bool) \<Rightarrow> ('s \<Rightarrow> string \<rightharpoonup> 'v) \<Rightarrow> string set \<Rightarrow> ('c, 's, 'v, 'p) strategy \<Rightarrow> bool" where
  "coherent rep view U st \<longleftrightarrow> (\<exists>m. rep (st_cache st) m \<and> (\<forall>k v t. m k = Some (v, t) \<longrightarrow> k \<in> U \<or> view (st_source st) k = Some v))"

lemma coherentI: "rep (st_cache st) m \<Longrightarrow> (\<And>k v t. m k = Some (v, t) \<Longrightarrow> k \<notin> U \<Longrightarrow> view (st_source st) k = Some v) \<Longrightarrow> coherent rep view U st"
  by (auto simp: coherent_def)

lemma source_lawsD:
  assumes "source_laws ds view"
  shows "view (snd (ds_Load ds k s)) = view s"
    "fst (ds_Load ds k s) = Inr v \<Longrightarrow> view s k = Some v"
    "\<not> isl (fst (ds_Store ds k v s)) \<Longrightarrow> view (snd (ds_Store ds k v s)) = (view s)(k \<mapsto> v)"
    "j \<noteq> k \<Longrightarrow> view (snd (ds_Store ds k v s)) j = view s j"
    "\<not> isl (fst (ds_Remove ds k s)) \<Longrightarrow> view (snd (ds_Remove ds k s)) = (view s)(k := None)"
    "j \<noteq> k \<Longrightarrow> view (snd (ds_Remove ds k s)) j = view s j"
proof -
  have 1: "view s' = view s \<and> (case r of Inr v \<Rightarrow> view s k = Some v | Inl _ \<Rightarrow> True)" if "ds_Load ds k s = (r, s')" for r s'
    using assms that unfolding source_laws_def by blast
  show "view (snd (ds_Load ds k s)) = view s" "fst (ds_Load ds k s) = Inr v \<Longrightarrow> view s k = Some v"
    using 1 by (cases "ds_Load ds k s"; auto)+
  have 2: "case r of Inr _ \<Rightarrow> view s' = (view s)(k \<mapsto> v) | Inl _ \<Rightarrow> \<forall>j. j \<noteq> k \<longrightarrow> view s' j = view s j" if "ds_Store ds k v s = (r, s')" for r s'
    using assms that unfolding source_laws_def by blast
  show "\<not> isl (fst (ds_Store ds k v s)) \<Longrightarrow> view (snd (ds_Store ds k v s)) = (view s)(k \<mapsto> v)"
    "j \<noteq> k \<Longrightarrow> view (snd (ds_Store ds k v s)) j = view s j"
    using 2 by (cases "ds_Store ds k v s"; auto split: sum.splits)+
  have 3: "case r of Inr _ \<Rightarrow> view s' = (view s)(k := None) | Inl _ \<Rightarrow> \<forall>j. j \<noteq> k \<longrightarrow> view s' j = view s j" if "ds_Remove ds k s = (r, s')" for r s'
    using assms that unfolding source_laws_def by blast
  show "\<not> isl (fst (ds_Remove ds k s)) \<Longrightarrow> view (snd (ds_Remove ds k s)) = (view s)(k := None)"
    "j \<noteq> k \<Longrightarrow> view (snd (ds_Remove ds k s)) j = view s j"
    using 3 by (cases "ds_Remove ds k s"; auto split: sum.splits)+
qed

text \<open>The two databases are data sources; they forget nothing and only a load of a missing key fails.\<close>

lemma mock_database_laws: "source_laws mock_database db_data"
  by (auto simp: source_laws_def mock_database_def MockDatabase_Load_def MockDatabase_Store_def MockDatabase_Remove_def
      count_operation_def Let_def split: option.splits)

lemma aside_database_laws: "source_laws aside_database aside_data"
  by (auto simp: source_laws_def aside_database_def AsideDatabase_Load_def AsideDatabase_Store_def AsideDatabase_Remove_def
      split: option.splits)

lemma mock_database_counts:
  "GetOperationCounts (snd (ds_Load mock_database k db)) = GetOperationCounts (count_operation ''load'' db)"
  "GetOperationCounts (snd (ds_Store mock_database k v db)) = GetOperationCounts (count_operation ''store'' db)"
  "GetOperationCounts (snd (ds_Remove mock_database k db)) = GetOperationCounts (count_operation ''remove'' db)"
  by (simp_all add: GetOperationCounts_def mock_database_def MockDatabase_Load_def MockDatabase_Store_def
      MockDatabase_Remove_def Let_def split: option.split)

lemma notify_fields [simp]:
  "st_cache (snd (notify publish opts typ now k st)) = st_cache st" "st_source (snd (notify publish opts typ now k st)) = st_source st"
  by (simp_all add: notify_def split: prod.split)

context ttl_cache
begin

lemma read_through_right:
  assumes laws: "source_laws ds view" and coh: "coherent rep view U st"
  shows "\<exists>r st'. read_through get put ds w ttl now k st = Some (r, st') \<and> coherent rep view U st' \<and>
    read_right ds view U (st_source st) (SGet k) (Some r)"
proof -
  obtain m where m: "rep (st_cache st) m" "\<And>j v t. m j = Some (v, t) \<Longrightarrow> j \<in> U \<or> view (st_source st) j = Some v"
    using coh by (auto simp: coherent_def)
  obtain c m' where g: "get now k (st_cache st) = Some (get_result (live now m k), c)" "rep c m'" "purges now m m'"
    using get_law [OF m(1)] by blast
  have m': "view (st_source st) j = Some v" if "m' j = Some (v, t)" "j \<notin> U" for j v t
    using spec [OF g(3) [unfolded purges_def], of j] m(2) [of j v t] that by auto
  obtain r s where ld: "ds_Load ds k (st_source st) = (r, s)" by force
  then have vs: "view s = view (st_source st)" using source_lawsD(1) [OF laws, of k "st_source st"] by simp
  show ?thesis
  proof (cases "live now m k")
    case (Some v)
    then obtain t where "m k = Some (v, t)" by (auto simp: live_def split: option.splits if_splits)
    then have "k \<in> U \<or> view (st_source st) k = Some v" by (rule m(2))
    moreover have "coherent rep view U (st\<lparr>st_cache := c\<rparr>)" using g(2) m' by (intro coherentI) auto
    ultimately show ?thesis using g(1) Some by (simp add: read_through_def read_right_def Let_def)
  next
    case None
    show ?thesis
    proof (cases r)
      case (Inl e)
      have "coherent rep view U (st\<lparr>st_cache := c, st_source := s\<rparr>)" using g(2) m' vs by (intro coherentI) auto
      then show ?thesis using g(1) None Inl ld by (simp add: read_through_def read_right_def Let_def)
    next
      case (Inr v)
      have v: "view (st_source st) k = Some v" using source_lawsD(2) [OF laws, of k "st_source st" v] ld Inr by simp
      obtain c' where p: "put now k v ttl c = Some (Inr (), c')" "rep c' (m'(k \<mapsto> (v, now + ttl)))" using put_law [OF g(2)] by blast
      have "coherent rep view U (st\<lparr>st_cache := c, st_source := s\<rparr>)" using g(2) m' vs by (intro coherentI) auto
      moreover have "coherent rep view U (st\<lparr>st_source := s, st_cache := c'\<rparr>)"
        using p(2) m' vs v by (intro coherentI) (auto split: if_splits)
      ultimately show ?thesis using g(1) None Inr ld v p(1) by (cases w) (simp_all add: read_through_def read_right_def Let_def)
    qed
  qed
qed

lemma coherent_put:
  assumes "coherent rep view U st" "view s = (view (st_source st))(k \<mapsto> v)"
  shows "\<exists>c. put now k v e (st_cache st) = Some (Inr (), c) \<and> coherent rep view (U - {k}) (st\<lparr>st_source := s, st_cache := c\<rparr>)"
proof -
  obtain m where m: "rep (st_cache st) m" "\<And>j v t. m j = Some (v, t) \<Longrightarrow> j \<notin> U \<Longrightarrow> view (st_source st) j = Some v"
    using assms(1) by (auto simp: coherent_def)
  obtain c where c: "put now k v e (st_cache st) = Some (Inr (), c)" "rep c (m(k \<mapsto> (v, now + e)))" using put_law [OF m(1)] by blast
  have "coherent rep view (U - {k}) (st\<lparr>st_source := s, st_cache := c\<rparr>)"
    using c(2) m(2) assms(2) by (intro coherentI) (auto split: if_splits)
  with c(1) show ?thesis by blast
qed

text \<open>A deletion from the cache takes a key out of doubt, whatever happens to it in the source.\<close>

lemma coherent_del:
  assumes "coherent rep view U st" "\<And>j. j \<noteq> k \<Longrightarrow> view s j = view (st_source st) j"
  shows "\<exists>c. del k (st_cache st) = Some (Inr (), c) \<and> coherent rep view (U - {k}) (st\<lparr>st_source := s, st_cache := c\<rparr>)"
proof -
  obtain m where m: "rep (st_cache st) m" "\<And>j v t. m j = Some (v, t) \<Longrightarrow> j \<notin> U \<Longrightarrow> view (st_source st) j = Some v"
    using assms(1) by (auto simp: coherent_def)
  obtain c where c: "del k (st_cache st) = Some (Inr (), c)" "rep c (m(k := None))" using del_law [OF m(1)] by blast
  then have "coherent rep view (U - {k}) (st\<lparr>st_source := s, st_cache := c\<rparr>)"
    using assms(2) m(2) by (intro coherentI) (auto split: if_splits)
  with c(1) show ?thesis by blast
qed

lemma coherent_source:
  "coherent rep view U st \<Longrightarrow> (\<And>j. j \<noteq> k \<Longrightarrow> view s j = view (st_source st) j) \<Longrightarrow> coherent rep view (insert k U) (st\<lparr>st_source := s\<rparr>)"
proof -
  assume coh: "coherent rep view U st" and other: "\<And>j. j \<noteq> k \<Longrightarrow> view s j = view (st_source st) j"
  obtain m where "rep (st_cache st) m" "\<And>j v t. m j = Some (v, t) \<Longrightarrow> j \<notin> U \<Longrightarrow> view (st_source st) j = Some v"
    using coh by (auto simp: coherent_def)
  with other show ?thesis by (intro coherentI [of _ _ m]) auto
qed

lemma coherent_notify: "coherent rep view U (snd (notify publish opts typ now k st)) = coherent rep view U st"
  by (simp add: coherent_def)

lemma strategy_set_right:
  assumes laws: "source_laws ds view" and coh: "coherent rep view U st"
    and "kind = CacheAside ca \<or> (kind = WriteThrough wt \<and> \<not> wt_DelayedWrite wt) \<or> kind = MQNotifier mq"
  shows "\<exists>st'. strategy_step get put del ds publish kind (now, SSet k v e) st = Some (None, st')
    \<and> coherent rep view (doubtful ds kind (st_source st) (SSet k v e) U) st'"
proof (cases "ds_Store ds k v (st_source st)")
  case (Pair r s)
  have other: "view s j = view (st_source st) j" if "j \<noteq> k" for j
    using source_lawsD(4) [OF laws that, of v "st_source st"] Pair by simp
  show ?thesis
  proof (cases r)
    case (Inl x)
    with coherent_source [OF coh other, of k] Pair assms(3) show ?thesis
      by (auto simp: noval_def CacheAside_Set_def WriteThrough_Set_def MQ_Set_def)
  next
    case (Inr u)
    have "view s = (view (st_source st))(k \<mapsto> v)" using source_lawsD(3) [OF laws, of k v "st_source st"] Pair Inr by simp
    from coherent_put [OF coh this] obtain c where
      c: "put now k v e (st_cache st) = Some (Inr (), c)" "coherent rep view (U - {k}) (st\<lparr>st_source := s, st_cache := c\<rparr>)" by blast
    with Inr Pair assms(3) show ?thesis
      by (auto simp: noval_def CacheAside_Set_def WriteThrough_Set_def MQ_Set_def coherent_notify prod.case_eq_if)
  qed
qed

lemma strategy_del_right:
  assumes laws: "source_laws ds view" and coh: "coherent rep view U st"
  shows "\<exists>st'. strategy_step get put del ds publish kind (now, SDel k) st = Some (None, st')
    \<and> coherent rep view (doubtful ds kind (st_source st) (SDel k) U) st'"
proof -
  obtain r s where rm: "ds_Remove ds k (st_source st) = (r, s)" by force
  have other: "view s j = view (st_source st) j" if "j \<noteq> k" for j
    using source_lawsD(6) [OF laws that, of "st_source st"] rm by simp
  from coherent_del [OF coh other, of k] obtain c where
    c: "del k (st_cache st) = Some (Inr (), c)" "coherent rep view (U - {k}) (st\<lparr>st_source := s, st_cache := c\<rparr>)" by blast
  have "coherent rep view (insert k U) (st\<lparr>st_source := s\<rparr>)" by (rule coherent_source [OF coh other])
  with rm c show ?thesis
    by (cases kind; cases r)
      (auto simp: noval_def CacheAside_Del_def WriteThrough_Del_def MQ_Del_def coherent_notify prod.case_eq_if)
qed

lemma strategy_invalidate_right:
  assumes coh: "coherent rep view U st"
  shows "\<exists>st'. strategy_step get put del ds publish kind (now, SInvalidate k) st = Some (None, st')
      \<and> coherent rep view (doubtful ds kind (st_source st) (SInvalidate k) U) st'"
    "\<exists>st'. strategy_step get put del ds publish kind (now, SMessage msg) st = Some (None, st')
      \<and> coherent rep view (doubtful ds kind (st_source st) (SMessage msg) U) st'"
proof -
  from coherent_del [OF coh, of k "st_source st"] obtain c1 where
    c1: "del k (st_cache st) = Some (Inr (), c1)" "coherent rep view (U - {k}) (st\<lparr>st_cache := c1\<rparr>)" by auto
  then show "\<exists>st'. strategy_step get put del ds publish kind (now, SInvalidate k) st = Some (None, st')
      \<and> coherent rep view (doubtful ds kind (st_source st) (SInvalidate k) U) st'"
    by (cases kind)
      (auto simp: noval_def CacheAside_Invalidate_def WriteThrough_Invalidate_def MQ_Invalidate_def coherent_notify Let_def prod.case_eq_if)
  from coherent_del [OF coh, of "msg_Key msg" "st_source st"] obtain c2 where
    c2: "del (msg_Key msg) (st_cache st) = Some (Inr (), c2)" "coherent rep view (U - {msg_Key msg}) (st\<lparr>st_cache := c2\<rparr>)" by auto
  then show "\<exists>st'. strategy_step get put del ds publish kind (now, SMessage msg) st = Some (None, st')
      \<and> coherent rep view (doubtful ds kind (st_source st) (SMessage msg) U) st'"
    using coh by (cases kind) (auto simp: handleMessage_def)
qed

lemma strategy_run_right:
  assumes laws: "source_laws ds view" and coh: "coherent rep view U st"
    and kind: "kind = CacheAside ca \<or> (kind = WriteThrough wt \<and> \<not> wt_DelayedWrite wt) \<or> kind = MQNotifier mq"
  shows "run_right get put del ds view publish kind ops U st"
  using coh
proof (induction ops arbitrary: U st)
  case (Cons p ops)
  obtain now q where p: "p = (now, q)" by force
  have "\<exists>r st'. strategy_step get put del ds publish kind p st = Some (r, st')
      \<and> coherent rep view (doubtful ds kind (st_source st) q U) st' \<and> read_right ds view U (st_source st) q r"
  proof (cases q)
    case (SGet k)
    obtain w ttl where "strategy_step get put del ds publish kind p st = val (read_through get put ds w ttl now k st)"
      using kind p SGet by (auto simp: CacheAside_Get_def WriteThrough_Get_def MQ_Get_def)
    with read_through_right [OF laws Cons.prems, of w ttl now k] SGet show ?thesis by (auto simp: val_def)
  next
    case (SSet k v e)
    with strategy_set_right [OF laws Cons.prems kind, of publish now k v e] p show ?thesis by (auto simp: read_right_def simp del: doubtful.simps)
  next
    case (SDel k)
    with strategy_del_right [OF laws Cons.prems, of publish kind now k] p show ?thesis by (auto simp: read_right_def simp del: doubtful.simps)
  next
    case (SInvalidate k)
    with strategy_invalidate_right(1) [OF Cons.prems, of ds publish kind now k] p show ?thesis
      by (auto simp: read_right_def simp del: doubtful.simps)
  next
    case (SMessage msg)
    with strategy_invalidate_right(2) [OF Cons.prems, of ds publish kind now msg] p show ?thesis
      by (auto simp: read_right_def simp del: doubtful.simps)
  qed
  then show ?case using Cons.IH p by auto
qed simp

end


section \<open>Properties\<close>


text \<open>A source that fails to confirm the writes of one key, although it has done them.\<close>

definition flaky_database :: "string \<Rightarrow> ('v AsideDatabase, 'v) DataSource" where
  "flaky_database bad = \<lparr>ds_Load = AsideDatabase_Load,
     ds_Store = (\<lambda>k v db. let (r, db') = AsideDatabase_Store k v db in (if k = bad then Inl (Errorf ''timeout'') else r, db')),
     ds_Remove = (\<lambda>k db. let (r, db') = AsideDatabase_Remove k db in (if k = bad then Inl (Errorf ''timeout'') else r, db'))\<rparr>"

lemma flaky_database_laws: "source_laws (flaky_database bad) aside_data"
  by (auto simp: source_laws_def flaky_database_def AsideDatabase_Load_def AsideDatabase_Store_def AsideDatabase_Remove_def
      split: option.splits)


text \<open>Publishing a change makes at most one attempt more than \<open>MaxRetries\<close>, stops at the first success
  and reports an error only when every attempt failed; the publisher here counts its calls and fails
  the first \<open>fails\<close> of them.\<close>

theorem publishWithRetry_bounded:
  "publishWithRetry (\<lambda>topic msg n. (if n < fails then Inl err else Inr (), n + 1)) opts msg (0 :: nat) =
     (if fails \<le> nat (mq_MaxRetries opts) then (Inr (), fails + 1)
      else (Inl (Errorf ''failed to publish message after %d retries: %w''), nat (mq_MaxRetries opts) + 1))"
proof -
  have "publish_retries k (\<lambda>topic msg n. (if n < fails then Inl err else Inr (), n + 1)) topic msg n =
     (if k = 0 then (Inl (Errorf ''failed to publish message after %d retries: %w''), n)
      else if fails < n + k then (Inr (), max fails n + 1)
      else (Inl (Errorf ''failed to publish message after %d retries: %w''), n + k))" for k topic n
    by (induction k arbitrary: n) (auto simp: max_def)
  then show ?thesis by (auto simp: publishWithRetry_def max_def)
qed


end
