(* ===== verification/RedisLock.thy ===== *)
theory RedisLock
  imports Complex_Main Prelude
begin

text \<open>
  The distributed lock of \<^verbatim>\<open>src/distributelock\<close>: the lock with its retry loop, the Lua scripts, the
  watchdog that renews it, the options and the back-off. The Redis server is not part of the program:
  its commands are arguments, and \<open>redis_laws\<close> states what the scripts rely on (a key has at most one
  value until it expires). A request may get lost before the server runs the script, its reply after.
  Time is the server's, in milliseconds. The system of any number of clients of one key is a step
  relation.
\<close>

section \<open>The server\<close>

datatype fault = NoFault | LostRequest gerror | LostReply gerror

record 'r Redis =
  rd_time :: "'r \<Rightarrow> int"
  rd_EXISTS :: "string \<Rightarrow> 'r \<Rightarrow> int"
  rd_SET_PX :: "string \<Rightarrow> string \<Rightarrow> int \<Rightarrow> 'r \<Rightarrow> 'r"
  rd_GET :: "string \<Rightarrow> 'r \<Rightarrow> string option"
  rd_DEL :: "string \<Rightarrow> 'r \<Rightarrow> 'r"
  rd_PEXPIRE :: "string \<Rightarrow> int \<Rightarrow> 'r \<Rightarrow> int \<times> 'r"
  rd_fault :: "'r \<Rightarrow> fault"

text \<open>The value of a key that has not expired.\<close>

definition alive :: "('r \<Rightarrow> string \<rightharpoonup> string \<times> int) \<Rightarrow> 'r Redis \<Rightarrow> string \<Rightarrow> 'r \<Rightarrow> string option" where
  "alive view rd key r = (case view r key of None \<Rightarrow> None | Some (v, t) \<Rightarrow> if rd_time rd r < t then Some v else None)"

definition redis_laws :: "'r Redis \<Rightarrow> ('r \<Rightarrow> string \<rightharpoonup> string \<times> int) \<Rightarrow> bool" where
  "redis_laws rd view \<longleftrightarrow>
     (\<forall>k r. rd_EXISTS rd k r = (if alive view rd k r = None then 0 else 1)) \<and>
     (\<forall>k r. rd_GET rd k r = alive view rd k r) \<and>
     (\<forall>k v px r. 0 < px \<longrightarrow> view (rd_SET_PX rd k v px r) = (view r)(k \<mapsto> (v, rd_time rd r + px)) \<and> rd_time rd (rd_SET_PX rd k v px r) = rd_time rd r) \<and>
     (\<forall>k r. view (rd_DEL rd k r) = (view r)(k := None) \<and> rd_time rd (rd_DEL rd k r) = rd_time rd r) \<and>
     (\<forall>k px r v. 0 < px \<longrightarrow> alive view rd k r = Some v \<longrightarrow>
        fst (rd_PEXPIRE rd k px r) = 1 \<and> view (snd (rd_PEXPIRE rd k px r)) = (view r)(k \<mapsto> (v, rd_time rd r + px)) \<and>
        rd_time rd (snd (rd_PEXPIRE rd k px r)) = rd_time rd r)"

section \<open>Scripts\<close>

definition lockScript :: "'r Redis \<Rightarrow> string \<Rightarrow> string \<Rightarrow> int \<Rightarrow> 'r \<Rightarrow> int \<times> 'r" where
  "lockScript rd key val px r = (if rd_EXISTS rd key r = 0 then (1, rd_SET_PX rd key val px r) else (0, r))"

definition unlockScript :: "'r Redis \<Rightarrow> string \<Rightarrow> string \<Rightarrow> 'r \<Rightarrow> int \<times> 'r" where
  "unlockScript rd key val r = (if rd_GET rd key r = Some val then (1, rd_DEL rd key r) else (0, r))"

definition refreshScript :: "'r Redis \<Rightarrow> string \<Rightarrow> string \<Rightarrow> int \<Rightarrow> 'r \<Rightarrow> int \<times> 'r" where
  "refreshScript rd key val px r = (if rd_GET rd key r = Some val then rd_PEXPIRE rd key px r else (0, r))"

definition eval_script :: "'r Redis \<Rightarrow> ('r \<Rightarrow> int \<times> 'r) \<Rightarrow> 'r \<Rightarrow> (gerror + int) \<times> 'r" where
  "eval_script rd script r =
     (case rd_fault rd r of
        NoFault \<Rightarrow> (Inr (fst (script r)), snd (script r))
      | LostRequest err \<Rightarrow> (Inl err, r)
      | LostReply err \<Rightarrow> (Inl err, snd (script r)))"

section \<open>Options\<close>

text \<open>Floating point numbers are rationals; rounding is not modelled.\<close>

record ExponentialBackoff =
  eb_InitialInterval :: duration
  eb_MaxInterval :: duration
  eb_Multiplier :: rat

fun backoff_loop :: "nat \<Rightarrow> ExponentialBackoff \<Rightarrow> rat \<Rightarrow> duration" where
  "backoff_loop 0 e interval = \<lfloor>interval\<rfloor>"
| "backoff_loop (Suc n) e interval =
     (let interval = interval * eb_Multiplier e in
      if interval > of_int (eb_MaxInterval e) then eb_MaxInterval e else backoff_loop n e interval)"

definition NextBackoff :: "ExponentialBackoff \<Rightarrow> int \<Rightarrow> duration" where
  "NextBackoff e retryCount = backoff_loop (nat retryCount) e (of_int (eb_InitialInterval e))"

record LockOption =
  lo_Expiration :: duration
  lo_EnableWatchdog :: bool
  lo_RetryInterval :: duration
  lo_RetryTimes :: int
  lo_BlockWaiting :: bool
  lo_MaxRetries :: int
  lo_BackoffStrategy :: "(int \<Rightarrow> duration) option"

type_synonym lock_option = "LockOption \<Rightarrow> LockOption"

definition WithExpiration :: "duration \<Rightarrow> lock_option" where
  "WithExpiration expiration opt = opt\<lparr>lo_Expiration := expiration\<rparr>"

definition WithWatchdog :: "bool \<Rightarrow> lock_option" where
  "WithWatchdog enable opt = opt\<lparr>lo_EnableWatchdog := enable\<rparr>"

definition Lock_WithRetryInterval :: "duration \<Rightarrow> lock_option" where
  "Lock_WithRetryInterval interval opt = opt\<lparr>lo_RetryInterval := interval\<rparr>"

definition WithRetryTimes :: "int \<Rightarrow> lock_option" where
  "WithRetryTimes n opt = opt\<lparr>lo_RetryTimes := n\<rparr>"

definition WithBlockWaiting :: "bool \<Rightarrow> lock_option" where
  "WithBlockWaiting block opt = opt\<lparr>lo_BlockWaiting := block\<rparr>"

definition DefaultOption :: LockOption where
  "DefaultOption = \<lparr>lo_Expiration = 30 * 10 ^ 9, lo_EnableWatchdog = True, lo_RetryInterval = 100 * 10 ^ 6, lo_RetryTimes = 0,
     lo_BlockWaiting = True, lo_MaxRetries = 0, lo_BackoffStrategy = None\<rparr>"

text \<open>\<open>int64(Expiration / time.Millisecond)\<close>, rounding towards zero.\<close>

definition expireMS :: "LockOption \<Rightarrow> int" where
  "expireMS opt = (if lo_Expiration opt \<ge> 0 then lo_Expiration opt div 10 ^ 6 else - ((- lo_Expiration opt) div 10 ^ 6))"

section \<open>The lock and its watchdogs\<close>

record WatchDog =
  wd_interval :: duration
  wd_isRunning :: bool
  wd_stopClosed :: bool

type_synonym watchdog_option = "WatchDog \<Rightarrow> WatchDog"

definition WithInterval :: "duration \<Rightarrow> watchdog_option" where
  "WithInterval interval dog = dog\<lparr>wd_interval := interval\<rparr>"

definition NewWatchDog :: "watchdog_option list \<Rightarrow> WatchDog" where
  "NewWatchDog opts = fold (\<lambda>opt dog. opt dog) opts \<lparr>wd_interval = 500 * 10 ^ 6, wd_isRunning = False, wd_stopClosed = False\<rparr>"

definition WatchDog_Start :: "WatchDog \<Rightarrow> WatchDog" where
  "WatchDog_Start dog = (if wd_isRunning dog then dog else dog\<lparr>wd_isRunning := True\<rparr>)"

definition WatchDog_Stop :: "WatchDog \<Rightarrow> WatchDog" where
  "WatchDog_Stop dog = (if wd_isRunning dog then dog\<lparr>wd_isRunning := False, wd_stopClosed := True\<rparr> else dog)"

text \<open>All watchdogs a lock has ever started are kept; \<open>lk_watchdog\<close> is the one it points to.\<close>

record RedisLock =
  lk_key :: string
  lk_val :: string
  lk_options :: LockOption
  lk_dogs :: "WatchDog list"
  lk_watchdog :: "nat option"
  lk_isLocked :: bool

definition NewRedisLock :: "string \<Rightarrow> string \<Rightarrow> lock_option list \<Rightarrow> RedisLock" where
  "NewRedisLock uuid key opts = \<lparr>lk_key = key, lk_val = uuid, lk_options = fold (\<lambda>opt o'. opt o') opts DefaultOption,
     lk_dogs = [], lk_watchdog = None, lk_isLocked = False\<rparr>"

definition start_watchdog :: "watchdog_option list \<Rightarrow> RedisLock \<Rightarrow> RedisLock" where
  "start_watchdog opts l =
     (if lo_EnableWatchdog (lk_options l)
      then l\<lparr>lk_dogs := lk_dogs l @ [WatchDog_Start (NewWatchDog opts)], lk_watchdog := Some (length (lk_dogs l))\<rparr> else l)"

definition tryAcquire :: "'r Redis \<Rightarrow> RedisLock \<Rightarrow> 'r \<Rightarrow> (gerror + bool) \<times> 'r" where
  "tryAcquire rd l r =
     (case eval_script rd (lockScript rd (lk_key l) (lk_val l) (expireMS (lk_options l))) r of
        (Inl err, r') \<Rightarrow> (Inl err, r') | (Inr res, r') \<Rightarrow> (Inr (res = 1), r'))"

text \<open>The retry loop; \<open>wait\<close> is the \<open>select\<close> on the context and the timer, during which the state of
  the server goes on.\<close>

partial_function (option) lock_loop :: "'r Redis \<Rightarrow> (duration \<Rightarrow> 'r \<Rightarrow> gerror option \<times> 'r) \<Rightarrow> int \<Rightarrow> RedisLock \<Rightarrow> 'r
    \<Rightarrow> ((gerror + unit) \<times> RedisLock \<times> 'r) option" where
  "lock_loop rd wait retryCnt l r =
     (case tryAcquire rd l r of
        (Inl err, r') \<Rightarrow> Some (Inl err, l, r')
      | (Inr success, r') \<Rightarrow>
          (let l' = (if success then start_watchdog [] (l\<lparr>lk_isLocked := True\<rparr>) else l) in
           if retryCnt > lo_RetryTimes (lk_options l') then Some (Inl ErrLockAcquireFailed, l', r')
           else (let waitTime = (case lo_BackoffStrategy (lk_options l') of Some next \<Rightarrow> next retryCnt | None \<Rightarrow> lo_RetryInterval (lk_options l')) in
             if \<not> lo_BlockWaiting (lk_options l') then Some (Inl ErrLockAcquireFailed, l', r')
             else case wait waitTime r' of
                 (Some err, r'') \<Rightarrow> Some (Inl err, l', r'')
               | (None, r'') \<Rightarrow> lock_loop rd wait (retryCnt + 1) l' r'')))"

definition RedisLock_Lock :: "'r Redis \<Rightarrow> (duration \<Rightarrow> 'r \<Rightarrow> gerror option \<times> 'r) \<Rightarrow> RedisLock \<Rightarrow> 'r
    \<Rightarrow> ((gerror + unit) \<times> RedisLock \<times> 'r) option" where
  "RedisLock_Lock rd wait l r = (if lk_isLocked l then Some (Inl ErrLockAlreadyHeld, l, r) else lock_loop rd wait 0 l r)"

definition RedisLock_TryLock :: "'r Redis \<Rightarrow> RedisLock \<Rightarrow> 'r \<Rightarrow> (gerror + unit) \<times> RedisLock \<times> 'r" where
  "RedisLock_TryLock rd l r =
     (if lk_isLocked l then (Inl ErrLockAlreadyHeld, l, r)
      else case tryAcquire rd l r of
        (Inl err, r') \<Rightarrow> (Inl err, l, r')
      | (Inr success, r') \<Rightarrow>
          if \<not> success then (Inl ErrLockAcquireFailed, l, r')
          else (Inr (), start_watchdog [WithInterval (500 * 10 ^ 6)] (l\<lparr>lk_isLocked := True\<rparr>), r'))"

definition stop_watchdog :: "RedisLock \<Rightarrow> RedisLock" where
  "stop_watchdog l =
     (case lk_watchdog l of
        None \<Rightarrow> l
      | Some i \<Rightarrow> l\<lparr>lk_dogs := (lk_dogs l)[i := WatchDog_Stop (lk_dogs l ! i)], lk_watchdog := None\<rparr>)"

definition RedisLock_Unlock :: "'r Redis \<Rightarrow> RedisLock \<Rightarrow> 'r \<Rightarrow> (gerror + unit) \<times> RedisLock \<times> 'r" where
  "RedisLock_Unlock rd l r =
     (if \<not> lk_isLocked l then (Inl ErrLockNotHeld, l, r)
      else let l' = stop_watchdog l in
        case eval_script rd (unlockScript rd (lk_key l) (lk_val l)) r of
          (Inl err, r') \<Rightarrow> (Inl err, l', r')
        | (Inr res, r') \<Rightarrow> (if res = 0 then Inl ErrLockNotHeld else Inr (), l'\<lparr>lk_isLocked := False\<rparr>, r'))"

definition RedisLock_Refresh :: "'r Redis \<Rightarrow> RedisLock \<Rightarrow> 'r \<Rightarrow> (gerror + unit) \<times> RedisLock \<times> 'r" where
  "RedisLock_Refresh rd l r =
     (if \<not> lk_isLocked l then (Inl ErrLockNotHeld, l, r)
      else case eval_script rd (refreshScript rd (lk_key l) (lk_val l) (expireMS (lk_options l))) r of
        (Inl err, r') \<Rightarrow> (Inl err, l, r')
      | (Inr res, r') \<Rightarrow> if res = 0 then (Inl ErrLockNotHeld, l\<lparr>lk_isLocked := False\<rparr>, r') else (Inr (), l, r'))"

text \<open>One tick of a watchdog: it renews the lock and stops itself when that fails. A watchdog that is being
  stopped may tick once more, so a tick does not look at its state.\<close>

definition watchdog_tick :: "'r Redis \<Rightarrow> nat \<Rightarrow> RedisLock \<Rightarrow> 'r \<Rightarrow> RedisLock \<times> 'r" where
  "watchdog_tick rd i l r =
     (if i < length (lk_dogs l) then
        (case RedisLock_Refresh rd l r of
           (Inr _, l', r') \<Rightarrow> (l', r')
         | (Inl _, l', r') \<Rightarrow> (l'\<lparr>lk_dogs := (lk_dogs l')[i := WatchDog_Stop (lk_dogs l' ! i)]\<rparr>, r'))
      else (l, r))"

section \<open>Clients of one key\<close>

text \<open>The state of the server and of the clients, and for each client the instant until which it may rely
  on the lock: its last successful acquisition or renewal plus the expiration, given up when it calls
  \<open>Unlock\<close>.\<close>

record 'r lock_sys =
  ls_redis :: 'r
  ls_locks :: "nat \<Rightarrow> RedisLock"
  ls_lease :: "nat \<Rightarrow> int"

definition put_client :: "nat \<Rightarrow> RedisLock \<Rightarrow> 'r \<Rightarrow> int option \<Rightarrow> 'r lock_sys \<Rightarrow> 'r lock_sys" where
  "put_client i l r lease s = s\<lparr>ls_redis := r, ls_locks := (ls_locks s)(i := l),
     ls_lease := (case lease of None \<Rightarrow> ls_lease s | Some t \<Rightarrow> (ls_lease s)(i := t))\<rparr>"

definition until :: "'r Redis \<Rightarrow> RedisLock \<Rightarrow> 'r \<Rightarrow> bool \<Rightarrow> int option" where
  "until rd l r ok = (if ok then Some (rd_time rd r + expireMS (lk_options l)) else None)"

inductive lock_step :: "'r Redis \<Rightarrow> ('r \<Rightarrow> string \<rightharpoonup> string \<times> int) \<Rightarrow> string \<Rightarrow> 'r lock_sys \<Rightarrow> 'r lock_sys \<Rightarrow> bool"
  for rd :: "'r Redis" and view :: "'r \<Rightarrow> string \<rightharpoonup> string \<times> int" and key :: string where
  TryLock: "RedisLock_TryLock rd (ls_locks s i) (ls_redis s) = (res, l, r) \<Longrightarrow>
    lock_step rd view key s (put_client i l r (until rd l (ls_redis s) (res = Inr ())) s)"
| LockAttempt: "tryAcquire rd (ls_locks s i) (ls_redis s) = (res, r) \<Longrightarrow>
    l = (if res = Inr True then start_watchdog [] ((ls_locks s i)\<lparr>lk_isLocked := True\<rparr>) else ls_locks s i) \<Longrightarrow>
    lock_step rd view key s (put_client i l r (until rd l (ls_redis s) (res = Inr True)) s)"
| Unlock: "RedisLock_Unlock rd (ls_locks s i) (ls_redis s) = (res, l, r) \<Longrightarrow>
    lock_step rd view key s (put_client i l r (Some (rd_time rd (ls_redis s))) s)"
| Refresh: "RedisLock_Refresh rd (ls_locks s i) (ls_redis s) = (res, l, r) \<Longrightarrow>
    lock_step rd view key s (put_client i l r (until rd l (ls_redis s) (res = Inr ())) s)"
| DogTick: "watchdog_tick rd k (ls_locks s i) (ls_redis s) = (l, r) \<Longrightarrow>
    ok \<longleftrightarrow> k < length (lk_dogs (ls_locks s i)) \<and> fst (RedisLock_Refresh rd (ls_locks s i) (ls_redis s)) = Inr () \<Longrightarrow>
    lock_step rd view key s (put_client i l r (until rd l (ls_redis s) ok) s)"
| Time: "rd_time rd (ls_redis s) \<le> rd_time rd r \<Longrightarrow> view r key = view (ls_redis s) key \<Longrightarrow>
    lock_step rd view key s (s\<lparr>ls_redis := r\<rparr>)"

inductive lock_reachable :: "'r Redis \<Rightarrow> ('r \<Rightarrow> string \<rightharpoonup> string \<times> int) \<Rightarrow> string \<Rightarrow> (nat \<Rightarrow> string) \<Rightarrow> (nat \<Rightarrow> lock_option list) \<Rightarrow> 'r lock_sys \<Rightarrow> bool"
  for rd :: "'r Redis" and view :: "'r \<Rightarrow> string \<rightharpoonup> string \<times> int" and key :: string and uuid :: "nat \<Rightarrow> string" and opts :: "nat \<Rightarrow> lock_option list" where
  init: "lock_reachable rd view key uuid opts
    \<lparr>ls_redis = r, ls_locks = (\<lambda>i. NewRedisLock (uuid i) key (opts i)), ls_lease = (\<lambda>_. rd_time rd r)\<rparr>"
| step: "lock_reachable rd view key uuid opts s \<Longrightarrow> lock_step rd view key s s' \<Longrightarrow> lock_reachable rd view key uuid opts s'"

definition holds :: "'r Redis \<Rightarrow> 'r lock_sys \<Rightarrow> nat \<Rightarrow> bool" where
  "holds rd s i \<longleftrightarrow> lk_isLocked (ls_locks s i) \<and> rd_time rd (ls_redis s) < ls_lease s i"

definition lock_inv :: "'r Redis \<Rightarrow> ('r \<Rightarrow> string \<rightharpoonup> string \<times> int) \<Rightarrow> string \<Rightarrow> (nat \<Rightarrow> string) \<Rightarrow> 'r lock_sys \<Rightarrow> bool" where
  "lock_inv rd view key uuid s \<longleftrightarrow>
     (\<forall>i. lk_key (ls_locks s i) = key \<and> lk_val (ls_locks s i) = uuid i \<and> 0 < expireMS (lk_options (ls_locks s i)) \<and>
        ls_lease s i \<le> rd_time rd (ls_redis s) + expireMS (lk_options (ls_locks s i)) \<and>
        (holds rd s i \<longrightarrow> (\<exists>t\<ge>ls_lease s i. view (ls_redis s) key = Some (uuid i, t))))"

text \<open>The scripts under the laws of the server.\<close>

lemma lockScript_cases:
  assumes "redis_laws rd view" "0 < px"
  shows "alive view rd k r = None \<Longrightarrow> lockScript rd k v px r = (1, rd_SET_PX rd k v px r) \<and>
      view (rd_SET_PX rd k v px r) = (view r)(k \<mapsto> (v, rd_time rd r + px)) \<and> rd_time rd (rd_SET_PX rd k v px r) = rd_time rd r"
    "alive view rd k r \<noteq> None \<Longrightarrow> lockScript rd k v px r = (0, r)"
  using assms by (simp_all add: redis_laws_def lockScript_def)

lemma unlockScript_cases:
  assumes "redis_laws rd view"
  shows "alive view rd k r = Some v \<Longrightarrow> unlockScript rd k v r = (1, rd_DEL rd k r) \<and>
      view (rd_DEL rd k r) = (view r)(k := None) \<and> rd_time rd (rd_DEL rd k r) = rd_time rd r"
    "alive view rd k r \<noteq> Some v \<Longrightarrow> unlockScript rd k v r = (0, r)"
  using assms by (simp_all add: redis_laws_def unlockScript_def)

lemma refreshScript_cases:
  assumes "redis_laws rd view" "0 < px"
  shows "alive view rd k r = Some v \<Longrightarrow> fst (refreshScript rd k v px r) = 1 \<and>
      view (snd (refreshScript rd k v px r)) = (view r)(k \<mapsto> (v, rd_time rd r + px)) \<and> rd_time rd (snd (refreshScript rd k v px r)) = rd_time rd r"
    "alive view rd k r \<noteq> Some v \<Longrightarrow> refreshScript rd k v px r = (0, r)"
  using assms by (simp_all add: redis_laws_def refreshScript_def)

lemma holds_alive: "lock_inv rd view key uuid s \<Longrightarrow> holds rd s i \<Longrightarrow> alive view rd key (ls_redis s) = Some (uuid i)"
  by (force simp: lock_inv_def holds_def alive_def)

text \<open>A step of one client keeps the invariant when it leaves the server to the others as it was, or takes
  a free key, and the client itself is covered by what the server says.\<close>

lemma lock_inv_client:
  assumes inv: "lock_inv rd view key uuid s" and "inj uuid"
    and l: "lk_key l = key" "lk_val l = uuid i" "lk_options l = lk_options (ls_locks s i)"
    and time: "rd_time rd r = rd_time rd (ls_redis s)"
    and others: "view r key = view (ls_redis s) key \<or> alive view rd key (ls_redis s) \<in> {None, Some (uuid i)}"
    and lease: "case lease of None \<Rightarrow> True | Some t \<Rightarrow> t \<le> rd_time rd r + expireMS (lk_options l)"
    and own: "lk_isLocked l \<Longrightarrow> rd_time rd r < (case lease of None \<Rightarrow> ls_lease s i | Some t \<Rightarrow> t) \<Longrightarrow>
      \<exists>t\<ge>(case lease of None \<Rightarrow> ls_lease s i | Some t \<Rightarrow> t). view r key = Some (uuid i, t)"
  shows "lock_inv rd view key uuid (put_client i l r lease s)"
proof -
  have other: "\<exists>t\<ge>ls_lease s j. view r key = Some (uuid j, t)" if "j \<noteq> i" "holds rd s j" for j
  proof -
    have "alive view rd key (ls_redis s) = Some (uuid j)" by (rule holds_alive [OF inv that(2)])
    then have "view r key = view (ls_redis s) key" using others that(1) \<open>inj uuid\<close> by (auto simp: inj_eq)
    with inv that(2) show ?thesis by (auto simp: lock_inv_def)
  qed
  show ?thesis
    unfolding lock_inv_def
  proof
    fix j
    show "lk_key (ls_locks (put_client i l r lease s) j) = key \<and> lk_val (ls_locks (put_client i l r lease s) j) = uuid j \<and>
        0 < expireMS (lk_options (ls_locks (put_client i l r lease s) j)) \<and>
        ls_lease (put_client i l r lease s) j \<le> rd_time rd (ls_redis (put_client i l r lease s)) + expireMS (lk_options (ls_locks (put_client i l r lease s) j)) \<and>
        (holds rd (put_client i l r lease s) j \<longrightarrow>
          (\<exists>t\<ge>ls_lease (put_client i l r lease s) j. view (ls_redis (put_client i l r lease s)) key = Some (uuid j, t)))"
    proof (cases "j = i")
      case True
      with inv l time lease own show ?thesis by (cases lease) (auto simp: lock_inv_def put_client_def holds_def)
    next
      case False
      with inv other [OF False] time show ?thesis by (cases lease) (auto simp: lock_inv_def put_client_def holds_def)
    qed
  qed
qed


lemma start_watchdog_fields [simp]:
  "lk_key (start_watchdog os l) = lk_key l" "lk_val (start_watchdog os l) = lk_val l" "lk_options (start_watchdog os l) = lk_options l"
  "lk_isLocked (start_watchdog os l) = lk_isLocked l"
  by (simp_all add: start_watchdog_def)

lemma stop_watchdog_fields [simp]:
  "lk_key (stop_watchdog l) = lk_key l" "lk_val (stop_watchdog l) = lk_val l" "lk_options (stop_watchdog l) = lk_options l"
  "lk_isLocked (stop_watchdog l) = lk_isLocked l"
  by (simp_all add: stop_watchdog_def split: option.splits)

lemma lock_invD:
  assumes "lock_inv rd view key uuid s"
  shows "lk_key (ls_locks s i) = key" "lk_val (ls_locks s i) = uuid i" "0 < expireMS (lk_options (ls_locks s i))"
    "ls_lease s i \<le> rd_time rd (ls_redis s) + expireMS (lk_options (ls_locks s i))"
    "holds rd s i \<Longrightarrow> \<exists>t\<ge>ls_lease s i. view (ls_redis s) key = Some (uuid i, t)"
  using assms by (auto simp: lock_inv_def)

text \<open>An attempt to take the lock, by \<open>TryLock\<close> or in the loop of \<open>Lock\<close>.\<close>

lemma acquire_inv:
  assumes laws: "redis_laws rd view" and "inj uuid" and inv: "lock_inv rd view key uuid s"
    and acq: "tryAcquire rd (ls_locks s i) (ls_redis s) = (res, r)"
    and l: "lk_key l = key" "lk_val l = uuid i" "lk_options l = lk_options (ls_locks s i)"
    and locked: "res \<noteq> Inr True \<Longrightarrow> lk_isLocked l = lk_isLocked (ls_locks s i)"
  shows "lock_inv rd view key uuid (put_client i l r (until rd l (ls_redis s) (res = Inr True)) s)"
proof -
  let ?r0 = "ls_redis s" and ?px = "expireMS (lk_options (ls_locks s i))"
  let ?sc = "lockScript rd key (uuid i) ?px"
  note D = lock_invD [OF inv]
  have acq': "(case eval_script rd ?sc ?r0 of (Inl err, r') \<Rightarrow> (Inl err, r') | (Inr n, r') \<Rightarrow> (Inr (n = 1), r')) = (res, r)"
    using acq D(1,2) [of i] by (simp add: tryAcquire_def)
  show ?thesis
  proof (cases "alive view rd key ?r0")
    case None
    note sc = lockScript_cases(1) [OF laws D(3) [of i], where k = key and r = ?r0 and v = "uuid i", OF None]
    have nohold: "\<not> holds rd s i" using holds_alive [OF inv, of i] None by auto
    have r: "r = ?r0 \<and> res \<noteq> Inr True \<or> r = rd_SET_PX rd key (uuid i) ?px ?r0"
      using acq' sc by (auto simp: eval_script_def split: fault.splits)
    show ?thesis
    proof (rule lock_inv_client [OF inv \<open>inj uuid\<close> l])
      show "rd_time rd r = rd_time rd ?r0" using r sc by auto
      show "view r key = view ?r0 key \<or> alive view rd key ?r0 \<in> {None, Some (uuid i)}" using None by simp
      show "case until rd l ?r0 (res = Inr True) of None \<Rightarrow> True | Some t \<Rightarrow> t \<le> rd_time rd r + expireMS (lk_options l)"
        using r sc l(3) by (auto simp: until_def)
      show "\<exists>t\<ge>case until rd l ?r0 (res = Inr True) of None \<Rightarrow> ls_lease s i | Some t \<Rightarrow> t. view r key = Some (uuid i, t)"
        if "lk_isLocked l" "rd_time rd r < (case until rd l ?r0 (res = Inr True) of None \<Rightarrow> ls_lease s i | Some t \<Rightarrow> t)"
        using that r sc l(3) nohold locked by (auto simp: until_def holds_def split: if_splits)
    qed
  next
    case (Some v)
    then have "?sc ?r0 = (0, ?r0)" using lockScript_cases(2) [OF laws D(3)] by blast
    then have r: "r = ?r0" "res \<noteq> Inr True" using acq' by (auto simp: eval_script_def split: fault.splits)
    show ?thesis
      by (rule lock_inv_client [OF inv \<open>inj uuid\<close> l]) (use r D(5) [of i] locked in \<open>auto simp: until_def holds_def\<close>)
  qed
qed

lemma refresh_inv:
  assumes laws: "redis_laws rd view" and "inj uuid" and inv: "lock_inv rd view key uuid s"
    and ref: "RedisLock_Refresh rd (ls_locks s i) (ls_redis s) = (res, l0, r)"
    and l: "lk_key l = key" "lk_val l = uuid i" "lk_options l = lk_options (ls_locks s i)" "lk_isLocked l = lk_isLocked l0"
  shows "lock_inv rd view key uuid (put_client i l r (until rd l (ls_redis s) (res = Inr ())) s)"
proof -
  let ?r0 = "ls_redis s" and ?px = "expireMS (lk_options (ls_locks s i))"
  let ?sc = "refreshScript rd key (uuid i) ?px"
  note D = lock_invD [OF inv]
  show ?thesis
  proof (cases "lk_isLocked (ls_locks s i) \<and> alive view rd key ?r0 = Some (uuid i)")
    case True
    note sc = refreshScript_cases(1) [OF laws D(3) conjunct2 [OF True]]
    have r: "r = ?r0 \<and> res \<noteq> Inr () \<or> r = snd (?sc ?r0)" and l0: "lk_isLocked l0"
      using ref True sc D(1,2) [of i] by (auto simp: RedisLock_Refresh_def eval_script_def split: fault.splits)
    show ?thesis
    proof (rule lock_inv_client [OF inv \<open>inj uuid\<close> l(1,2,3)])
      show "rd_time rd r = rd_time rd ?r0" using r sc by auto
      show "view r key = view ?r0 key \<or> alive view rd key ?r0 \<in> {None, Some (uuid i)}" using True by simp
      show "case until rd l ?r0 (res = Inr ()) of None \<Rightarrow> True | Some t \<Rightarrow> t \<le> rd_time rd r + expireMS (lk_options l)"
        using r sc l(3) by (auto simp: until_def)
      show "\<exists>t\<ge>case until rd l ?r0 (res = Inr ()) of None \<Rightarrow> ls_lease s i | Some t \<Rightarrow> t. view r key = Some (uuid i, t)"
        if "lk_isLocked l" "rd_time rd r < (case until rd l ?r0 (res = Inr ()) of None \<Rightarrow> ls_lease s i | Some t \<Rightarrow> t)"
        using that r sc l(3) True D(4,5) [of i] by (auto simp: until_def holds_def split: if_splits)
    qed
  next
    case False
    have r: "r = ?r0" "res \<noteq> Inr ()" "lk_isLocked l0 \<Longrightarrow> lk_isLocked (ls_locks s i)"
      using ref False refreshScript_cases(2) [OF laws D(3) [of i], of key ?r0 "uuid i"] D(1,2) [of i]
      by (auto simp: RedisLock_Refresh_def eval_script_def split: fault.splits if_splits)
    show ?thesis
      by (rule lock_inv_client [OF inv \<open>inj uuid\<close> l(1,2,3)]) (use r D(5) [of i] l(4) in \<open>auto simp: until_def holds_def\<close>)
  qed
qed

lemma unlock_inv:
  assumes laws: "redis_laws rd view" and "inj uuid" and inv: "lock_inv rd view key uuid s"
    and un: "RedisLock_Unlock rd (ls_locks s i) (ls_redis s) = (res, l, r)"
  shows "lock_inv rd view key uuid (put_client i l r (Some (rd_time rd (ls_redis s))) s)"
proof -
  let ?r0 = "ls_redis s"
  note D = lock_invD [OF inv]
  have l: "lk_key l = key" "lk_val l = uuid i" "lk_options l = lk_options (ls_locks s i)"
    using un D(1,2) [of i] by (auto simp: RedisLock_Unlock_def Let_def split: if_splits prod.splits sum.splits)
  have r: "r = ?r0 \<or> r = snd (unlockScript rd key (uuid i) ?r0)"
    using un D(1,2) [of i] by (auto simp: RedisLock_Unlock_def eval_script_def Let_def split: if_splits fault.splits)
  have "rd_time rd r = rd_time rd ?r0 \<and> (view r key = view ?r0 key \<or> alive view rd key ?r0 \<in> {None, Some (uuid i)})"
    using r unlockScript_cases [OF laws, of key ?r0 "uuid i"] by (cases "alive view rd key ?r0 = Some (uuid i)") auto
  with D(3) [of i] l(3) show ?thesis by (intro lock_inv_client [OF inv \<open>inj uuid\<close> l]) auto
qed

lemma lock_step_inv:
  assumes "lock_step rd view key s s'" "redis_laws rd view" "inj uuid" "lock_inv rd view key uuid s"
  shows "lock_inv rd view key uuid s'"
  using assms
proof (induction rule: lock_step.induct)
  case (TryLock s i res l r)
  show ?case
  proof (cases "lk_isLocked (ls_locks s i)")
    case True
    then have "l = ls_locks s i" "r = ls_redis s" "res \<noteq> Inr ()" using TryLock.hyps by (auto simp: RedisLock_TryLock_def)
    with TryLock.prems lock_invD [OF TryLock.prems(3), of i] show ?thesis
      by (intro lock_inv_client) (auto simp: until_def holds_def)
  next
    case False
    obtain q where q: "tryAcquire rd (ls_locks s i) (ls_redis s) = (q, r)" "(res = Inr ()) = (q = Inr True)"
        "l = (if q = Inr True then start_watchdog [WithInterval (500 * 10 ^ 6)] ((ls_locks s i)\<lparr>lk_isLocked := True\<rparr>) else ls_locks s i)"
      using TryLock.hyps False by (auto simp: RedisLock_TryLock_def split: prod.splits sum.splits if_splits)
    show ?thesis unfolding q(2)
      by (rule acquire_inv [OF TryLock.prems q(1)]) (use q(3) lock_invD [OF TryLock.prems(3), of i] in auto)
  qed
next
  case (LockAttempt s i res r l)
  show ?case
    by (rule acquire_inv [OF LockAttempt.prems LockAttempt.hyps(1)]) (use LockAttempt.hyps(2) lock_invD [OF LockAttempt.prems(3), of i] in auto)
next
  case (Unlock s i res l r)
  show ?case by (rule unlock_inv [OF Unlock.prems Unlock.hyps])
next
  case (Refresh s i res l r)
  have "lk_key l = key" "lk_val l = uuid i" "lk_options l = lk_options (ls_locks s i)"
    using Refresh.hyps lock_invD(1,2) [OF Refresh.prems(3), of i]
    by (auto simp: RedisLock_Refresh_def split: if_splits prod.splits sum.splits)
  then show ?case by (rule refresh_inv [OF Refresh.prems Refresh.hyps _ _ _ refl])
next
  case (DogTick k s i l r ok)
  obtain res l0 r0 where ref: "RedisLock_Refresh rd (ls_locks s i) (ls_redis s) = (res, l0, r0)" by (cases "RedisLock_Refresh rd (ls_locks s i) (ls_redis s)")
  have l0: "lk_key l0 = key" "lk_val l0 = uuid i" "lk_options l0 = lk_options (ls_locks s i)"
    using ref lock_invD(1,2) [OF DogTick.prems(3), of i]
    by (auto simp: RedisLock_Refresh_def split: if_splits prod.splits sum.splits)
  show ?case
  proof (cases "k < length (lk_dogs (ls_locks s i))")
    case True
    have "r = r0" "lk_key l = lk_key l0" "lk_val l = lk_val l0" "lk_options l = lk_options l0" "lk_isLocked l = lk_isLocked l0" "ok = (res = Inr ())"
      using DogTick.hyps True ref by (auto simp: watchdog_tick_def split: sum.splits)
    with l0 show ?thesis using refresh_inv [OF DogTick.prems ref, of l] by simp
  next
    case False
    then have "l = ls_locks s i" "r = ls_redis s" "\<not> ok" using DogTick.hyps by (auto simp: watchdog_tick_def)
    with DogTick.prems lock_invD [OF DogTick.prems(3), of i] show ?thesis
      by (intro lock_inv_client) (auto simp: until_def holds_def)
  qed
next
  case (Time s r)
  then have "holds rd s i" if "holds rd (s\<lparr>ls_redis := r\<rparr>) i" for i using that by (auto simp: holds_def)
  moreover have "ls_lease s i \<le> rd_time rd r + expireMS (lk_options (ls_locks s i))" for i
    using lock_invD(4) [OF Time.prems(3), of i] Time.hyps(1) by linarith
  ultimately show ?case using Time.hyps(2) lock_invD [OF Time.prems(3)] unfolding lock_inv_def by auto
qed


lemma lock_reachable_inv:
  assumes "lock_reachable rd view key uuid opts s" "redis_laws rd view" "inj uuid"
    and "\<And>i. 0 < expireMS (lk_options (NewRedisLock (uuid i) key (opts i)))"
  shows "lock_inv rd view key uuid s"
  using assms(1)
proof (induction rule: lock_reachable.induct)
  case (init r)
  have "0 < expireMS (lk_options (NewRedisLock (uuid i) key (opts i)))" for i by (rule assms(4))
  then show ?case by (auto simp: lock_inv_def holds_def NewRedisLock_def intro: order_less_imp_le)
next
  case (step s s')
  show ?case by (rule lock_step_inv [OF step.hyps(2) assms(2,3) step.IH])
qed

section \<open>A server for the witnesses\<close>

text \<open>The time and the keys with their expiration instants.\<close>

type_synonym redis_map = "int \<times> (string \<times> string \<times> int) list"

definition redis_live :: "string \<Rightarrow> redis_map \<Rightarrow> string option" where
  "redis_live k r = (case map_of (snd r) k of None \<Rightarrow> None | Some (v, t) \<Rightarrow> if fst r < t then Some v else None)"

definition redis0 :: "redis_map Redis" where
  "redis0 = \<lparr>rd_time = fst, rd_EXISTS = (\<lambda>k r. if redis_live k r = None then 0 else 1),
     rd_SET_PX = (\<lambda>k v px r. (fst r, AList.update k (v, fst r + px) (snd r))), rd_GET = redis_live,
     rd_DEL = (\<lambda>k r. (fst r, AList.delete k (snd r))),
     rd_PEXPIRE = (\<lambda>k px r. case redis_live k r of None \<Rightarrow> (0, r) | Some v \<Rightarrow> (1, fst r, AList.update k (v, fst r + px) (snd r))),
     rd_fault = (\<lambda>_. NoFault)\<rparr>"

lemma redis0_laws: "redis_laws redis0 (\<lambda>r. map_of (snd r))"
  by (auto simp: redis_laws_def redis0_def alive_def redis_live_def split: option.splits if_splits)

section \<open>Properties\<close>

text \<open>C24. Mutual exclusion: whatever the clients of a key do in whatever order, with requests and replies
  lost at any point and watchdogs ticking, at most one client has acquired or renewed the lock within
  its expiration time, provided their values are distinct and expirations positive.\<close>

theorem lock_mutual_exclusion:
  assumes "redis_laws rd view" "inj uuid" "\<And>i. 0 < expireMS (lk_options (NewRedisLock (uuid i) key (opts i)))"
    and "lock_reachable rd view key uuid opts s" "holds rd s i" "holds rd s j"
  shows "i = j"
proof -
  have inv: "lock_inv rd view key uuid s" by (rule lock_reachable_inv [OF assms(4,1,2,3)])
  from holds_alive [OF inv assms(5)] holds_alive [OF inv assms(6)] have "uuid i = uuid j" by simp
  with assms(2) show ?thesis by (simp add: inj_eq)
qed

definition two_clients :: "redis_map lock_sys" where
  "two_clients = \<lparr>ls_redis = (5, []), ls_locks = (\<lambda>i. NewRedisLock (replicate i CHR ''u'') ''k'' []), ls_lease = (\<lambda>_. 5)\<rparr>"

definition client0_locked :: "redis_map lock_sys" where
  "client0_locked = (case RedisLock_TryLock redis0 (ls_locks two_clients 0) (ls_redis two_clients) of
     (res, l, r) \<Rightarrow> put_client 0 l r (until redis0 l (ls_redis two_clients) (res = Inr ())) two_clients)"

theorem lock_mutual_exclusion_witness: "holds redis0 client0_locked 0 \<and> \<not> holds redis0 client0_locked 1"
proof -
  let ?u = "\<lambda>i. replicate i CHR ''u''" and ?v = "\<lambda>r :: redis_map. map_of (snd r)"
  have "lock_reachable redis0 ?v ''k'' ?u (\<lambda>_. []) two_clients"
    using lock_reachable.init [of redis0 ?v "''k''" ?u "\<lambda>_. []" "(5, [])"] by (simp add: two_clients_def redis0_def)
  moreover have "lock_step redis0 ?v ''k'' two_clients client0_locked"
    unfolding client0_locked_def by (auto split: prod.split intro: lock_step.TryLock)
  ultimately have reach: "lock_reachable redis0 ?v ''k'' ?u (\<lambda>_. []) client0_locked" by (rule lock_reachable.step)
  have inj: "inj ?u" by (rule injI) (metis length_replicate)
  have px: "0 < expireMS (lk_options (NewRedisLock (?u i) ''k'' []))" for i
    by (simp add: NewRedisLock_def DefaultOption_def expireMS_def)
  have h: "holds redis0 client0_locked 0"
    by (simp add: holds_def client0_locked_def two_clients_def RedisLock_TryLock_def tryAcquire_def eval_script_def lockScript_def redis0_def
        redis_live_def NewRedisLock_def put_client_def until_def start_watchdog_def DefaultOption_def expireMS_def)
  with lock_mutual_exclusion [OF redis0_laws inj px reach h, of 1] show ?thesis by auto
qed

lemma lock_loop_error: "lock_loop rd wait n l r = Some res \<Longrightarrow> fst res \<noteq> Inr ()"
proof (rule lock_loop.raw_induct [where P = "\<lambda>rd wait n l r res. fst res \<noteq> Inr ()"])
  fix loop :: "'a Redis \<Rightarrow> (duration \<Rightarrow> 'a \<Rightarrow> gerror option \<times> 'a) \<Rightarrow> int \<Rightarrow> RedisLock \<Rightarrow> 'a \<Rightarrow> ((gerror + unit) \<times> RedisLock \<times> 'a) option"
    and rd wait n l r res
  assume IH: "\<And>rd wait n l r res. loop rd wait n l r = Some res \<Longrightarrow> fst res \<noteq> Inr ()"
    and body: "(case tryAcquire rd l r of
        (Inl err, r') \<Rightarrow> Some (Inl err, l, r')
      | (Inr success, r') \<Rightarrow>
          (let l' = (if success then start_watchdog [] (l\<lparr>lk_isLocked := True\<rparr>) else l) in
           if lo_RetryTimes (lk_options l') < n then Some (Inl ErrLockAcquireFailed, l', r')
           else (let waitTime = (case lo_BackoffStrategy (lk_options l') of None \<Rightarrow> lo_RetryInterval (lk_options l') | Some next \<Rightarrow> next n) in
             if \<not> lo_BlockWaiting (lk_options l') then Some (Inl ErrLockAcquireFailed, l', r')
             else case wait waitTime r' of
                 (None, r'') \<Rightarrow> loop rd wait (n + 1) l' r''
               | (Some err, r'') \<Rightarrow> Some (Inl err, l', r'')))) = Some res"
  show "fst res \<noteq> Inr ()"
    using body IH by (auto simp: Let_def split: prod.splits sum.splits if_splits option.splits)
qed assumption

text \<open>C25. \<open>Lock\<close> never returns success: after it has taken the lock it goes on retrying. With the default
  options and a free key it takes the lock, starts the watchdog, finds the key taken by itself at the
  next attempt and reports \<open>ErrLockAcquireFailed\<close>, while the lock is held and renewed.\<close>

theorem lock_fails_while_holding:
  assumes "redis_laws rd view" "\<And>r. rd_fault rd r = NoFault" "alive view rd key r = None"
    and "\<And>r. \<exists>r'. wait (100 * 10 ^ 6) r = (None, r') \<and> view r' = view r \<and> rd_time rd r' = rd_time rd r + 100"
  shows "(\<exists>l r'. RedisLock_Lock rd wait (NewRedisLock uuid key []) r = Some (Inl ErrLockAcquireFailed, l, r') \<and>
      lk_isLocked l \<and> map wd_isRunning (lk_dogs l) = [True] \<and> alive view rd key r' = Some uuid) \<and>
    RedisLock_Lock rd wait' l0 r0 \<noteq> Some (Inr (), l1, r1)"
proof (rule conjI)
  let ?l = "NewRedisLock uuid key []" and ?r1 = "rd_SET_PX rd key uuid 30000 r"
  let ?l1 = "start_watchdog [] (?l\<lparr>lk_isLocked := True\<rparr>)"
  have opts: "lk_options ?l = DefaultOption" "lk_key ?l = key" "lk_val ?l = uuid" "expireMS DefaultOption = 30000"
      "lo_RetryTimes DefaultOption = 0" "lo_BackoffStrategy DefaultOption = None" "lo_RetryInterval DefaultOption = 100 * 10 ^ 6"
      "lo_BlockWaiting DefaultOption"
    by (simp_all add: NewRedisLock_def DefaultOption_def expireMS_def)
  note sc = lockScript_cases(1) [where k = key and r = r and v = uuid and px = 30000, OF assms(1) _ assms(3), simplified]
  obtain r2 where r2: "wait (100 * 10 ^ 6) ?r1 = (None, r2)" "view r2 = view ?r1" "rd_time rd r2 = rd_time rd ?r1 + 100"
    using assms(4) by blast
  have alive2: "alive view rd key r2 = Some uuid" using r2(2,3) sc by (simp add: alive_def)
  have first: "tryAcquire rd ?l r = (Inr True, ?r1)" using sc by (simp add: tryAcquire_def eval_script_def assms(2) opts)
  have "lockScript rd key uuid 30000 r2 = (0, r2)" using lockScript_cases(2) [OF assms(1), of 30000 key r2 uuid] alive2 by simp
  then have second: "tryAcquire rd ?l1 r2 = (Inr False, r2)" by (simp add: tryAcquire_def eval_script_def assms(2) opts)
  have "RedisLock_Lock rd wait ?l r = lock_loop rd wait 0 ?l r" by (simp add: RedisLock_Lock_def NewRedisLock_def)
  also have "\<dots> = lock_loop rd wait 1 ?l1 r2"
    by (subst lock_loop.simps) (use first r2(1) in \<open>simp add: opts Let_def\<close>)
  also have "\<dots> = Some (Inl ErrLockAcquireFailed, ?l1, r2)"
    by (subst lock_loop.simps) (use second in \<open>simp add: opts Let_def\<close>)
  finally have "RedisLock_Lock rd wait ?l r = Some (Inl ErrLockAcquireFailed, ?l1, r2)" .
  moreover have "lk_isLocked ?l1" "map wd_isRunning (lk_dogs ?l1) = [True]"
    by (simp_all add: start_watchdog_def NewRedisLock_def DefaultOption_def WatchDog_Start_def NewWatchDog_def)
  ultimately show "\<exists>l r'. RedisLock_Lock rd wait ?l r = Some (Inl ErrLockAcquireFailed, l, r') \<and>
      lk_isLocked l \<and> map wd_isRunning (lk_dogs l) = [True] \<and> alive view rd key r' = Some uuid"
    using alive2 by (intro exI [of _ ?l1] exI [of _ r2] conjI)
  show "RedisLock_Lock rd wait' l0 r0 \<noteq> Some (Inr (), l1, r1)"
    using lock_loop_error [of rd wait' 0 l0 r0 "(Inr (), l1, r1)"] by (auto simp: RedisLock_Lock_def)
qed

theorem lock_fails_while_holding_witness:
  "\<exists>l r'. RedisLock_Lock redis0 (\<lambda>d r. (None, fst r + d div 10 ^ 6, snd r)) (NewRedisLock ''u'' ''k'' []) (5, []) =
     Some (Inl ErrLockAcquireFailed, l, r') \<and> lk_isLocked l"
proof -
  have "alive (\<lambda>r. map_of (snd r)) redis0 ''k'' (5, []) = None" by (simp add: alive_def)
  moreover have "rd_fault redis0 r = NoFault" for r by (simp add: redis0_def)
  moreover have "\<exists>r'. (\<lambda>d r. (None, fst r + d div 10 ^ 6, snd r)) (100 * 10 ^ 6) r = (None, r') \<and>
      map_of (snd r') = map_of (snd r) \<and> rd_time redis0 r' = rd_time redis0 r + 100" for r :: redis_map
    by (simp add: redis0_def)
  ultimately show ?thesis
    using lock_fails_while_holding [OF redis0_laws, of "''k''" "(5, [])" "\<lambda>d r. (None, fst r + d div 10 ^ 6, snd r)" "''u''"] by blast
qed


end
