(* ===== verification/Membership.thy ===== *)
theory Membership
  imports ReplLog
begin

text \<open>
  Cluster membership: the event publisher (\<^verbatim>\<open>src/cache/cluster/events.go\<close>), the member list with
  its failure detection (\<^verbatim>\<open>src/cache/cluster/membership.go\<close>), the gossip protocol
  (\<^verbatim>\<open>src/cache/cluster/gossip.go\<close>), the payloads it sends (\<^verbatim>\<open>src/cache/cluster/protocol.go\<close>) and
  the node options (\<^verbatim>\<open>src/cache/cluster/option.go\<close>). Goroutines are operations of their own: one
  tick of the probe loop, the end of a probe, one round of gossip. Messages carry their payload as a
  value; a payload that is no JSON of its type is \<open>None\<close>. Maps of metadata are values, nil is \<open>None\<close>.
\<close>

section \<open>Options\<close>

record NodeConfig =
  nc_ID :: string
  nc_BindAddr :: string
  nc_GossipInterval :: duration
  nc_SyncInterval :: duration
  nc_ProbeInterval :: duration
  nc_ProbeTimeout :: duration
  nc_SuspicionMult :: int
  nc_SyncConcurrency :: int
  nc_VirtualNodes :: int
  nc_MaxRetries :: int
  nc_RetryInterval :: duration
  nc_EventBufferSize :: int

type_synonym NodeOption = "NodeConfig \<Rightarrow> NodeConfig"

definition Node_WithNodeID :: "string \<Rightarrow> NodeOption" where
  "Node_WithNodeID nid c = c\<lparr>nc_ID := nid\<rparr>"

definition WithBindAddr :: "string \<Rightarrow> NodeOption" where
  "WithBindAddr addr c = c\<lparr>nc_BindAddr := addr\<rparr>"

definition WithGossipInterval :: "duration \<Rightarrow> NodeOption" where
  "WithGossipInterval interval c = (if interval > 0 then c\<lparr>nc_GossipInterval := interval\<rparr> else c)"

definition WithSyncInterval :: "duration \<Rightarrow> NodeOption" where
  "WithSyncInterval interval c = (if interval > 0 then c\<lparr>nc_SyncInterval := interval\<rparr> else c)"

definition WithProbeInterval :: "duration \<Rightarrow> NodeOption" where
  "WithProbeInterval interval c = (if interval > 0 then c\<lparr>nc_ProbeInterval := interval\<rparr> else c)"

definition WithProbeTimeout :: "duration \<Rightarrow> NodeOption" where
  "WithProbeTimeout timeout c = (if timeout > 0 then c\<lparr>nc_ProbeTimeout := timeout\<rparr> else c)"

definition WithSuspicionMult :: "int \<Rightarrow> NodeOption" where
  "WithSuspicionMult mult c = (if mult > 0 then c\<lparr>nc_SuspicionMult := mult\<rparr> else c)"

definition WithSyncConcurrency :: "int \<Rightarrow> NodeOption" where
  "WithSyncConcurrency concurrency c = (if concurrency > 0 then c\<lparr>nc_SyncConcurrency := concurrency\<rparr> else c)"

definition WithVirtualNodes :: "int \<Rightarrow> NodeOption" where
  "WithVirtualNodes count c = (if count > 0 then c\<lparr>nc_VirtualNodes := count\<rparr> else c)"

definition Node_WithMaxRetries :: "int \<Rightarrow> NodeOption" where
  "Node_WithMaxRetries retries c = (if retries > 0 then c\<lparr>nc_MaxRetries := retries\<rparr> else c)"

definition Node_WithRetryInterval :: "duration \<Rightarrow> NodeOption" where
  "Node_WithRetryInterval interval c = (if interval > 0 then c\<lparr>nc_RetryInterval := interval\<rparr> else c)"

definition WithEventBufferSize :: "int \<Rightarrow> NodeOption" where
  "WithEventBufferSize n c = (if n > 0 then c\<lparr>nc_EventBufferSize := n\<rparr> else c)"

definition DefaultNodeConfig :: NodeConfig where
  "DefaultNodeConfig = \<lparr>nc_ID = '''', nc_BindAddr = '''', nc_GossipInterval = 10 ^ 9, nc_SyncInterval = 30 * 10 ^ 9,
     nc_ProbeInterval = 10 ^ 9, nc_ProbeTimeout = 500 * 10 ^ 6, nc_SuspicionMult = 3, nc_SyncConcurrency = 5, nc_VirtualNodes = 100,
     nc_MaxRetries = 3, nc_RetryInterval = 10 ^ 9, nc_EventBufferSize = 100\<rparr>"

section \<open>Events\<close>

datatype EventType = EventNodeJoin | EventNodeLeave | EventNodeFailed | EventNodeRecovered | EventSyncCompleted
  | ClusterEventRoleChange | ClusterEventLeaderElected

datatype detail = NoDetail | DString string | DBool bool | DInt int | DReplication ReplicationEvent

record ClusterEvent =
  ce_Type :: EventType
  ce_NodeID :: string
  ce_Time :: instant
  ce_Details :: detail

text \<open>A channel: what is buffered in it and whether it is closed. \<open>ep_channels\<close> are the channels given to
  subscribers, \<open>ep_subscribers\<close> those in use, \<open>ep_eventCh\<close> is nil after \<open>Close\<close>.\<close>

record channel =
  ch_buffer :: "ClusterEvent list"
  ch_closed :: bool

record EventPublisher =
  ep_eventCh :: "ClusterEvent list option"
  ep_channels :: "channel list"
  ep_subscribers :: "nat list"
  ep_bufferSize :: int

definition NewEventPublisher :: "int \<Rightarrow> EventPublisher" where
  "NewEventPublisher bufferSize =
     \<lparr>ep_eventCh = Some [], ep_channels = [], ep_subscribers = [], ep_bufferSize = (if bufferSize \<le> 0 then 100 else bufferSize)\<rparr>"

definition Publisher_Subscribe :: "EventPublisher \<Rightarrow> nat \<times> EventPublisher" where
  "Publisher_Subscribe p =
     (length (ep_channels p), p\<lparr>ep_channels := ep_channels p @ [\<lparr>ch_buffer = [], ch_closed = False\<rparr>],
                                ep_subscribers := ep_subscribers p @ [length (ep_channels p)]\<rparr>)"

definition try_send :: "int \<Rightarrow> ClusterEvent \<Rightarrow> ClusterEvent list \<Rightarrow> ClusterEvent list" where
  "try_send cap event buf = (if int (length buf) < cap then buf @ [event] else buf)"

text \<open>The loop over the subscribers.\<close>

definition on_subscribers :: "(channel \<Rightarrow> channel) \<Rightarrow> nat list \<Rightarrow> channel list \<Rightarrow> channel list" where
  "on_subscribers f subs chs = fold (\<lambda>i chs. chs[i := f (chs ! i)]) subs chs"

definition Publisher_Publish :: "ClusterEvent \<Rightarrow> EventPublisher \<Rightarrow> EventPublisher" where
  "Publisher_Publish event p =
     p\<lparr>ep_channels := on_subscribers (\<lambda>sub. sub\<lparr>ch_buffer := try_send (ep_bufferSize p) event (ch_buffer sub)\<rparr>)
         (ep_subscribers p) (ep_channels p),
       ep_eventCh := map_option (try_send (ep_bufferSize p) event) (ep_eventCh p)\<rparr>"

definition Publisher_Close :: "EventPublisher \<Rightarrow> EventPublisher" where
  "Publisher_Close p =
     p\<lparr>ep_channels := on_subscribers (\<lambda>sub. sub\<lparr>ch_closed := True\<rparr>) (ep_subscribers p) (ep_channels p),
       ep_subscribers := [], ep_eventCh := None\<rparr>"

definition Publisher_Events :: "EventPublisher \<Rightarrow> ClusterEvent list option" where
  "Publisher_Events p = ep_eventCh p"

definition NewNodeJoinEvent :: "instant \<Rightarrow> string \<Rightarrow> string \<Rightarrow> ClusterEvent" where
  "NewNodeJoinEvent now nodeID addr = \<lparr>ce_Type = EventNodeJoin, ce_NodeID = nodeID, ce_Time = now, ce_Details = DString addr\<rparr>"

definition NewNodeLeaveEvent :: "instant \<Rightarrow> string \<Rightarrow> bool \<Rightarrow> ClusterEvent" where
  "NewNodeLeaveEvent now nodeID graceful = \<lparr>ce_Type = EventNodeLeave, ce_NodeID = nodeID, ce_Time = now, ce_Details = DBool graceful\<rparr>"

definition NewNodeFailedEvent :: "instant \<Rightarrow> string \<Rightarrow> string \<Rightarrow> ClusterEvent" where
  "NewNodeFailedEvent now nodeID reason = \<lparr>ce_Type = EventNodeFailed, ce_NodeID = nodeID, ce_Time = now, ce_Details = DString reason\<rparr>"

definition NewNodeRecoveredEvent :: "instant \<Rightarrow> string \<Rightarrow> ClusterEvent" where
  "NewNodeRecoveredEvent now nodeID = \<lparr>ce_Type = EventNodeRecovered, ce_NodeID = nodeID, ce_Time = now, ce_Details = NoDetail\<rparr>"

definition NewSyncCompletedEvent :: "instant \<Rightarrow> string \<Rightarrow> int \<Rightarrow> ClusterEvent" where
  "NewSyncCompletedEvent now nodeID keyCount = \<lparr>ce_Type = EventSyncCompleted, ce_NodeID = nodeID, ce_Time = now, ce_Details = DInt keyCount\<rparr>"

section \<open>The member list\<close>

datatype NodeStatus = NodeStatusUp | NodeStatusSuspect | NodeStatusDown | NodeStatusLeft

record NodeInfo =
  ni_ID :: string
  ni_Addr :: string
  ni_Status :: NodeStatus
  ni_LastSeen :: instant
  ni_Metadata :: "string gomap option"

record Membership =
  mb_localID :: string
  mb_localAddr :: string
  mb_members :: "NodeInfo gomap"
  mb_suspectTime :: "instant gomap"
  mb_suspicionMult :: int
  mb_probeInterval :: duration
  mb_probeTimeout :: duration
  mb_probeIndex :: int
  mb_events :: "EventPublisher option"
  mb_stopClosed :: bool
  mb_running :: bool

definition NewMembership :: "string \<Rightarrow> string \<Rightarrow> EventPublisher option \<Rightarrow> NodeConfig \<Rightarrow> Membership" where
  "NewMembership localID localAddr events config =
     \<lparr>mb_localID = localID, mb_localAddr = localAddr, mb_members = [], mb_suspectTime = [],
      mb_suspicionMult = nc_SuspicionMult config, mb_probeInterval = nc_ProbeInterval config, mb_probeTimeout = nc_ProbeTimeout config,
      mb_probeIndex = 0, mb_events = events, mb_stopClosed = False, mb_running = False\<rparr>"

definition publish :: "ClusterEvent \<Rightarrow> Membership \<Rightarrow> Membership" where
  "publish event m = m\<lparr>mb_events := map_option (Publisher_Publish event) (mb_events m)\<rparr>"

definition addLocalNode :: "instant \<Rightarrow> Membership \<Rightarrow> Membership" where
  "addLocalNode now m = m\<lparr>mb_members := AList.update (mb_localID m)
     \<lparr>ni_ID = mb_localID m, ni_Addr = mb_localAddr m, ni_Status = NodeStatusUp, ni_LastSeen = now, ni_Metadata = Some [(''self'', ''true'')]\<rparr>
     (mb_members m)\<rparr>"

definition Membership_Start :: "instant \<Rightarrow> Membership \<Rightarrow> (gerror + unit) \<times> Membership" where
  "Membership_Start now m = (if mb_running m then (Inr (), m) else (Inr (), addLocalNode now (m\<lparr>mb_running := True\<rparr>)))"

definition Membership_Stop :: "Membership \<Rightarrow> (gerror + unit) \<times> Membership" where
  "Membership_Stop m = (if \<not> mb_running m then (Inr (), m) else (Inr (), m\<lparr>mb_stopClosed := True, mb_running := False\<rparr>))"

definition Members :: "Membership \<Rightarrow> NodeInfo list" where
  "Members m = map snd (mb_members m)"

definition merge_metadata :: "string gomap option \<Rightarrow> string gomap option \<Rightarrow> string gomap option" where
  "merge_metadata old new =
     (case new of None \<Rightarrow> old | Some kvs \<Rightarrow> Some (fold (\<lambda>(k, v). AList.update k v) kvs (case old of None \<Rightarrow> [] | Some o' \<Rightarrow> o')))"

definition AddMember :: "instant \<Rightarrow> string \<Rightarrow> string \<Rightarrow> string gomap option \<Rightarrow> Membership \<Rightarrow> Membership" where
  "AddMember now nodeID addr metadata m =
     (case map_of (mb_members m) nodeID of
        Some existing \<Rightarrow> m\<lparr>mb_members := AList.update nodeID
          (existing\<lparr>ni_Addr := addr, ni_Metadata := merge_metadata (ni_Metadata existing) metadata, ni_Status := NodeStatusUp, ni_LastSeen := now\<rparr>)
          (mb_members m)\<rparr>
      | None \<Rightarrow> publish (NewNodeJoinEvent now nodeID addr)
          (m\<lparr>mb_members := AList.update nodeID
             \<lparr>ni_ID = nodeID, ni_Addr = addr, ni_Status = NodeStatusUp, ni_LastSeen = now, ni_Metadata = metadata\<rparr> (mb_members m)\<rparr>))"

definition RemoveMember :: "instant \<Rightarrow> string \<Rightarrow> bool \<Rightarrow> Membership \<Rightarrow> Membership" where
  "RemoveMember now nodeID graceful m =
     (if map_of (mb_members m) nodeID = None then m
      else (publish (NewNodeLeaveEvent now nodeID graceful) m)
        \<lparr>mb_suspectTime := AList.delete nodeID (mb_suspectTime m), mb_members := AList.delete nodeID (mb_members m)\<rparr>)"

definition set_node :: "string \<Rightarrow> (NodeInfo \<Rightarrow> NodeInfo) \<Rightarrow> Membership \<Rightarrow> Membership" where
  "set_node nodeID f m =
     (case map_of (mb_members m) nodeID of None \<Rightarrow> m | Some node \<Rightarrow> m\<lparr>mb_members := AList.update nodeID (f node) (mb_members m)\<rparr>)"

definition MarkSuspect :: "instant \<Rightarrow> string \<Rightarrow> Membership \<Rightarrow> Membership" where
  "MarkSuspect now nodeID m =
     (case map_of (mb_members m) nodeID of
        None \<Rightarrow> m
      | Some node \<Rightarrow>
          if ni_Status node \<noteq> NodeStatusUp then m
          else (set_node nodeID (\<lambda>n. n\<lparr>ni_Status := NodeStatusSuspect\<rparr>) m)\<lparr>mb_suspectTime := AList.update nodeID now (mb_suspectTime m)\<rparr>)"

definition MarkAlive :: "instant \<Rightarrow> string \<Rightarrow> Membership \<Rightarrow> Membership" where
  "MarkAlive now nodeID m =
     (case map_of (mb_members m) nodeID of
        None \<Rightarrow> m
      | Some node \<Rightarrow>
          let m' = (if ni_Status node = NodeStatusSuspect then publish (NewNodeRecoveredEvent now nodeID) m else m) in
          (set_node nodeID (\<lambda>n. n\<lparr>ni_Status := NodeStatusUp, ni_LastSeen := now\<rparr>) m')\<lparr>mb_suspectTime := AList.delete nodeID (mb_suspectTime m')\<rparr>)"

definition MarkFailed :: "instant \<Rightarrow> string \<Rightarrow> string \<Rightarrow> Membership \<Rightarrow> Membership" where
  "MarkFailed now nodeID reason m =
     (case map_of (mb_members m) nodeID of
        None \<Rightarrow> m
      | Some node \<Rightarrow> publish (NewNodeFailedEvent now nodeID reason) (set_node nodeID (\<lambda>n. n\<lparr>ni_Status := NodeStatusDown\<rparr>) m))"

definition GetNodeAddr :: "string \<Rightarrow> Membership \<Rightarrow> gerror + string" where
  "GetNodeAddr nodeID m =
     (case map_of (mb_members m) nodeID of None \<Rightarrow> Inl (Errorf ''node not found: %s'') | Some node \<Rightarrow> Inr (ni_Addr node))"

definition GetNodeByAddr :: "string \<Rightarrow> Membership \<Rightarrow> gerror + string" where
  "GetNodeByAddr addr m =
     (case filter (\<lambda>(_, node). ni_Addr node = addr) (mb_members m) of
        [] \<Rightarrow> Inl (Errorf ''no node found with address: %s'') | (nid, _) # _ \<Rightarrow> Inr nid)"

definition IsCoordinator :: "Membership \<Rightarrow> bool" where
  "IsCoordinator m = list_all (\<lambda>(nid, node). \<not> (nid < mb_localID m \<and> ni_Status node = NodeStatusUp)) (mb_members m)"

text \<open>The tick of the probe loop.\<close>

definition check_suspected :: "instant \<Rightarrow> string \<Rightarrow> instant \<Rightarrow> Membership \<Rightarrow> Membership" where
  "check_suspected now nodeID since m =
     (if now - since > wrap64 (mb_suspicionMult m * mb_probeInterval m) then
        (case map_of (mb_members m) nodeID of
           Some node \<Rightarrow>
             if ni_Status node \<noteq> NodeStatusSuspect then m\<lparr>mb_suspectTime := AList.delete nodeID (mb_suspectTime m)\<rparr>
             else publish (NewNodeFailedEvent now nodeID ''probe timeout exceeded'') (set_node nodeID (\<lambda>n. n\<lparr>ni_Status := NodeStatusDown\<rparr>) m)
         | None \<Rightarrow> m\<lparr>mb_suspectTime := AList.delete nodeID (mb_suspectTime m)\<rparr>)
      else m)"

definition checkSuspectedNodes :: "instant \<Rightarrow> Membership \<Rightarrow> Membership" where
  "checkSuspectedNodes now m = fold (\<lambda>(nodeID, since). check_suspected now nodeID since) (mb_suspectTime m) m"

definition nodesToProbe :: "Membership \<Rightarrow> (string \<times> string) list" where
  "nodesToProbe m = map (\<lambda>(nid, node). (nid, ni_Addr node))
     (filter (\<lambda>(nid, node). nid \<noteq> mb_localID m \<and> ni_Status node = NodeStatusUp) (mb_members m))"

definition probeNextNode :: "Membership \<Rightarrow> (string \<times> string) option \<times> Membership" where
  "probeNextNode m =
     (let nodes = nodesToProbe m in
      if nodes = [] then (None, m)
      else let index = (if mb_probeIndex m \<ge> int (length nodes) then 0 else mb_probeIndex m) in
        (Some (nodes ! nat index), m\<lparr>mb_probeIndex := (index + 1) mod int (length nodes)\<rparr>))"

text \<open>The end of a probe: an answer in time, or an error or a timeout.\<close>

definition probe_done :: "instant \<Rightarrow> string \<Rightarrow> bool \<Rightarrow> Membership \<Rightarrow> Membership" where
  "probe_done now nodeID answered m = (if answered then MarkAlive now nodeID m else MarkSuspect now nodeID m)"

definition SetLocalMetadata :: "string gomap option \<Rightarrow> Membership \<Rightarrow> Membership" where
  "SetLocalMetadata metadata m =
     set_node (mb_localID m) (\<lambda>n. n\<lparr>ni_Metadata := Some (case metadata of None \<Rightarrow> [] | Some kvs \<Rightarrow> fold (\<lambda>(k, v). AList.update k v) kvs [])\<rparr>) m"

section \<open>Gossip\<close>

record GossipNodeInfo =
  gn_ID :: string
  gn_Address :: string
  gn_Status :: int
  gn_LastSeen :: int
  gn_Metadata :: "string gomap option"

definition status_code :: "NodeStatus \<Rightarrow> int" where
  "status_code st = (case st of NodeStatusUp \<Rightarrow> 0 | NodeStatusSuspect \<Rightarrow> 1 | NodeStatusDown \<Rightarrow> 2 | NodeStatusLeft \<Rightarrow> 3)"

record Gossiper =
  gs_localID :: string
  gs_interval :: duration
  gs_fanout :: int
  gs_stopClosed :: bool
  gs_running :: bool

definition NewGossiper :: "string \<Rightarrow> NodeConfig \<Rightarrow> Gossiper" where
  "NewGossiper localID config =
     \<lparr>gs_localID = localID, gs_interval = (if nc_GossipInterval config \<le> 0 then 10 ^ 9 else nc_GossipInterval config), gs_fanout = 3,
      gs_stopClosed = False, gs_running = False\<rparr>"

definition Gossiper_Start :: "Gossiper \<Rightarrow> (gerror + unit) \<times> Gossiper" where
  "Gossiper_Start g = (if gs_running g then (Inr (), g) else (Inr (), g\<lparr>gs_running := True\<rparr>))"

definition Gossiper_Stop :: "Gossiper \<Rightarrow> (gerror + unit) \<times> Gossiper" where
  "Gossiper_Stop g = (if \<not> gs_running g then (Inr (), g) else (Inr (), g\<lparr>gs_stopClosed := True, gs_running := False\<rparr>))"

text \<open>\<open>perm\<close> is the permutation that the generator draws for a number of nodes.\<close>

definition selectRandomNodes :: "(nat \<Rightarrow> nat list) \<Rightarrow> int \<Rightarrow> NodeInfo list \<Rightarrow> NodeInfo list" where
  "selectRandomNodes perm n members =
     (if int (length members) \<le> n then members
      else map (\<lambda>i. members ! (perm (length members) ! i)) [0..<nat n])"

definition gossip_info :: "NodeInfo \<Rightarrow> GossipNodeInfo" where
  "gossip_info member =
     \<lparr>gn_ID = ni_ID member, gn_Address = ni_Addr member, gn_Status = status_code (ni_Status member),
      gn_LastSeen = ni_LastSeen member - 62135596800 * 10 ^ 9, gn_Metadata = Some (case ni_Metadata member of None \<Rightarrow> [] | Some kvs \<Rightarrow> kvs)\<rparr>"

text \<open>The messages a round of gossip sends: the addresses and the nodes in the payload.\<close>

definition spreadGossip :: "(nat \<Rightarrow> nat list) \<Rightarrow> Gossiper \<Rightarrow> Membership \<Rightarrow> (string \<times> GossipNodeInfo list) list" where
  "spreadGossip perm g m =
     (let members = Members m; otherNodes = filter (\<lambda>member. ni_ID member \<noteq> gs_localID g) members in
      if otherNodes = [] then []
      else let payload = map gossip_info members;
               targetCount = (if int (length otherNodes) < gs_fanout g then int (length otherNodes) else gs_fanout g)
           in map (\<lambda>target. (ni_Addr target, payload)) (selectRandomNodes perm targetCount otherNodes))"

definition handle_node :: "instant \<Rightarrow> string \<Rightarrow> string \<Rightarrow> GossipNodeInfo \<Rightarrow> Membership \<Rightarrow> Membership" where
  "handle_node now localID sender node m =
     (if gn_ID node = localID then m
      else if gn_Status node = 0 then MarkAlive now (gn_ID node) (AddMember now (gn_ID node) (gn_Address node) (gn_Metadata node) m)
      else if gn_Status node = 1 then MarkSuspect now (gn_ID node) (AddMember now (gn_ID node) (gn_Address node) (gn_Metadata node) m)
      else if gn_Status node = 2 then MarkFailed now (gn_ID node) (''reported down by '' @ sender) m
      else if gn_Status node = 3 then RemoveMember now (gn_ID node) True m
      else m)"

definition HandleGossip :: "instant \<Rightarrow> bool \<Rightarrow> string \<Rightarrow> GossipNodeInfo list option \<Rightarrow> Gossiper \<Rightarrow> Membership \<Rightarrow> (gerror + unit) \<times> Membership" where
  "HandleGossip now isGossip sender payload g m =
     (if \<not> isGossip then (Inr (), m)
      else case payload of
        None \<Rightarrow> (Inl (Errorf ''json''), m)
      | Some nodes \<Rightarrow> (Inr (), fold (handle_node now (gs_localID g) sender) nodes m))"

section \<open>The publisher\<close>

text \<open>Every channel that is still subscribed is open and no buffer holds more than the capacity of its
  channel: a send never hits a closed channel, which would panic.\<close>

definition publisher_inv :: "EventPublisher \<Rightarrow> bool" where
  "publisher_inv p \<longleftrightarrow>
     ep_bufferSize p > 0 \<and> distinct (ep_subscribers p)
     \<and> list_all (\<lambda>i. i < length (ep_channels p) \<and> \<not> ch_closed (ep_channels p ! i)) (ep_subscribers p)
     \<and> list_all (\<lambda>c. int (length (ch_buffer c)) \<le> ep_bufferSize p) (ep_channels p)
     \<and> (case ep_eventCh p of None \<Rightarrow> True | Some buf \<Rightarrow> int (length buf) \<le> ep_bufferSize p)"

lemma length_on_subscribers [simp]: "length (on_subscribers f subs chs) = length chs"
  unfolding on_subscribers_def by (induction subs arbitrary: chs) auto

lemma nth_on_subscribers:
  "distinct subs \<Longrightarrow> j < length chs \<Longrightarrow>
   on_subscribers f subs chs ! j = (if j \<in> set subs then f (chs ! j) else chs ! j)"
  unfolding on_subscribers_def
proof (induction subs arbitrary: chs)
  case (Cons i subs)
  then show ?case by (cases "i = j") auto
qed simp

lemma publisher_inv_new: "publisher_inv (NewEventPublisher n)"
  by (simp add: publisher_inv_def NewEventPublisher_def)

lemma publisher_inv_subscribe: "publisher_inv p \<Longrightarrow> publisher_inv (snd (Publisher_Subscribe p))"
  by (auto simp: publisher_inv_def Publisher_Subscribe_def list_all_iff nth_append split: option.splits)

lemma try_send_bound: "0 < cap \<Longrightarrow> int (length buf) \<le> cap \<Longrightarrow> int (length (try_send cap event buf)) \<le> cap"
  by (simp add: try_send_def)

lemma publisher_inv_publish: "publisher_inv p \<Longrightarrow> publisher_inv (Publisher_Publish event p)"
  by (auto simp: publisher_inv_def Publisher_Publish_def list_all_iff nth_on_subscribers try_send_bound
      all_set_conv_all_nth split: option.splits)

lemma publisher_inv_close: "publisher_inv p \<Longrightarrow> publisher_inv (Publisher_Close p)"
  by (auto simp: publisher_inv_def Publisher_Close_def list_all_iff nth_on_subscribers all_set_conv_all_nth)

section \<open>What each operation does to the member table\<close>

lemma publish_fields [simp]:
  "mb_members (publish e m) = mb_members m" "mb_suspectTime (publish e m) = mb_suspectTime m"
  "mb_localID (publish e m) = mb_localID m" "mb_suspicionMult (publish e m) = mb_suspicionMult m"
  "mb_probeInterval (publish e m) = mb_probeInterval m"
  by (simp_all add: publish_def)

lemma set_node_fields [simp]:
  "mb_suspectTime (set_node k f m) = mb_suspectTime m" "mb_localID (set_node k f m) = mb_localID m"
  "mb_suspicionMult (set_node k f m) = mb_suspicionMult m" "mb_probeInterval (set_node k f m) = mb_probeInterval m"
  by (simp_all add: set_node_def split: option.splits)

lemma set_node_members [simp]:
  "map_of (mb_members (set_node k f m)) = (map_of (mb_members m))(k := map_option f (map_of (mb_members m) k))"
  by (auto simp: set_node_def split: option.splits)

lemma wf_set_node [simp]: "wf_gomap (mb_members m) \<Longrightarrow> wf_gomap (mb_members (set_node k f m))"
  by (simp add: set_node_def split: option.splits)

text \<open>The invariant of the member list: a node is filed under its own ID, a suspected node has the time at
  which it became suspected, such a time belongs to a member, and the local node is never suspected
  nor failed.\<close>

definition membership_inv :: "Membership \<Rightarrow> bool" where
  "membership_inv m \<longleftrightarrow>
     wf_gomap (mb_members m) \<and> wf_gomap (mb_suspectTime m)
     \<and> list_all (\<lambda>(k, n). ni_ID n = k \<and> (ni_Status n = NodeStatusSuspect \<longrightarrow> map_of (mb_suspectTime m) k \<noteq> None)
                         \<and> (k = mb_localID m \<longrightarrow> ni_Status n = NodeStatusUp)) (mb_members m)
     \<and> list_all (\<lambda>(k, _). map_of (mb_members m) k \<noteq> None) (mb_suspectTime m)"

lemma wf_gomap_list_all: "wf_gomap m \<Longrightarrow> list_all (\<lambda>(k, v). P k v) m \<longleftrightarrow> (\<forall>k v. map_of m k = Some v \<longrightarrow> P k v)"
  by (auto simp: wf_gomap_def list_all_iff)

lemma membership_inv_alt:
  "membership_inv m \<longleftrightarrow>
     wf_gomap (mb_members m) \<and> wf_gomap (mb_suspectTime m)
     \<and> (\<forall>k n. map_of (mb_members m) k = Some n \<longrightarrow>
          ni_ID n = k \<and> (ni_Status n = NodeStatusSuspect \<longrightarrow> map_of (mb_suspectTime m) k \<noteq> None)
          \<and> (k = mb_localID m \<longrightarrow> ni_Status n = NodeStatusUp))
     \<and> (\<forall>k t. map_of (mb_suspectTime m) k = Some t \<longrightarrow> map_of (mb_members m) k \<noteq> None)"
  unfolding membership_inv_def by (auto simp: wf_gomap_list_all cong: conj_cong)

lemma inv_new: "membership_inv (NewMembership localID localAddr events config)"
  by (simp add: membership_inv_def NewMembership_def)

lemma inv_publish [simp]: "membership_inv (publish e m) = membership_inv m"
  by (simp add: membership_inv_def)

lemma inv_AddMember: "membership_inv m \<Longrightarrow> membership_inv (AddMember now nid addr md m)"
  by (auto simp: membership_inv_alt AddMember_def split: option.splits if_splits)

lemma inv_RemoveMember: "membership_inv m \<Longrightarrow> membership_inv (RemoveMember now nid graceful m)"
  by (auto simp: membership_inv_alt RemoveMember_def split: if_splits)

lemma inv_MarkSuspect: "membership_inv m \<Longrightarrow> nid \<noteq> mb_localID m \<Longrightarrow> membership_inv (MarkSuspect now nid m)"
  by (auto simp: membership_inv_alt MarkSuspect_def split: option.splits if_splits)

lemma inv_MarkAlive: "membership_inv m \<Longrightarrow> membership_inv (MarkAlive now nid m)"
  by (auto simp: membership_inv_alt MarkAlive_def Let_def split: option.splits if_splits)

lemma inv_MarkFailed: "membership_inv m \<Longrightarrow> nid \<noteq> mb_localID m \<Longrightarrow> membership_inv (MarkFailed now nid reason m)"
  by (auto simp: membership_inv_alt MarkFailed_def split: option.splits if_splits)

lemma inv_Start: "membership_inv m \<Longrightarrow> membership_inv (snd (Membership_Start now m))"
  by (auto simp: membership_inv_alt Membership_Start_def addLocalNode_def split: if_splits)

lemma inv_SetLocalMetadata: "membership_inv m \<Longrightarrow> membership_inv (SetLocalMetadata md m)"
  by (auto simp: membership_inv_alt SetLocalMetadata_def split: if_splits)

lemma inv_check_suspected: "membership_inv m \<Longrightarrow> membership_inv (check_suspected now nid since m)"
  by (auto simp: membership_inv_alt check_suspected_def split: option.splits if_splits)

lemma localID_simps [simp]:
  "mb_localID (AddMember now nid addr md m) = mb_localID m" "mb_localID (RemoveMember now nid g m) = mb_localID m"
  "mb_localID (MarkSuspect now nid m) = mb_localID m" "mb_localID (MarkAlive now nid m) = mb_localID m"
  "mb_localID (MarkFailed now nid reason m) = mb_localID m" "mb_localID (check_suspected now nid since m) = mb_localID m"
  by (simp_all add: AddMember_def RemoveMember_def MarkSuspect_def MarkAlive_def MarkFailed_def check_suspected_def Let_def split: option.splits)

lemma inv_checkSuspectedNodes:
  "membership_inv m \<Longrightarrow> membership_inv (checkSuspectedNodes now m)" "mb_localID (checkSuspectedNodes now m) = mb_localID m"
proof -
  have "membership_inv m \<Longrightarrow> membership_inv (fold (\<lambda>(nodeID, since). check_suspected now nodeID since) sts m)"
       "mb_localID (fold (\<lambda>(nodeID, since). check_suspected now nodeID since) sts m) = mb_localID m" for sts
    by (induction sts arbitrary: m) (auto simp: inv_check_suspected)
  then show "membership_inv m \<Longrightarrow> membership_inv (checkSuspectedNodes now m)" "mb_localID (checkSuspectedNodes now m) = mb_localID m"
    by (simp_all add: checkSuspectedNodes_def)
qed

lemma inv_handle_node:
  "membership_inv m \<Longrightarrow> membership_inv (handle_node now (mb_localID m) sender node m)"
  "mb_localID (handle_node now lid sender node m) = mb_localID m"
  by (auto simp: handle_node_def inv_AddMember inv_MarkAlive inv_MarkSuspect inv_MarkFailed inv_RemoveMember)

lemma inv_HandleGossip:
  assumes "membership_inv m" "gs_localID g = mb_localID m"
  shows "membership_inv (snd (HandleGossip now isGossip sender payload g m))"
    and "mb_localID (snd (HandleGossip now isGossip sender payload g m)) = mb_localID m"
proof -
  have "membership_inv (fold (handle_node now (mb_localID m) sender) nodes m)
      \<and> mb_localID (fold (handle_node now (mb_localID m) sender) nodes m) = mb_localID m" for nodes
    using assms(1)
  proof (induction nodes arbitrary: m)
    case (Cons node nodes)
    show ?case using Cons.IH [of "handle_node now (mb_localID m) sender node m"] Cons.prems by (simp add: inv_handle_node)
  qed simp
  then show "membership_inv (snd (HandleGossip now isGossip sender payload g m))"
    "mb_localID (snd (HandleGossip now isGossip sender payload g m)) = mb_localID m"
    using assms by (auto simp: HandleGossip_def split: option.splits)
qed


section \<open>Reachable member lists\<close>

text \<open>
  The steps of a running node: start and stop, the join, leave, ping and gossip messages it handles, a tick
  of the probe loop, which may put a probe in flight, and the end of a probe. \<open>probes\<close> are the nodes whose
  probes are in flight.
\<close>

definition probe_tick :: "instant \<Rightarrow> string list \<Rightarrow> Membership \<Rightarrow> string list \<times> Membership" where
  "probe_tick now probes m =
     (let (target, m') = probeNextNode (checkSuspectedNodes now m) in
      (case target of None \<Rightarrow> probes | Some (nid, _) \<Rightarrow> nid # probes, m'))"

inductive detector_step :: "string list \<times> Membership \<Rightarrow> string list \<times> Membership \<Rightarrow> bool" where
  start: "detector_step (probes, m) (probes, snd (Membership_Start now m))"
| stop: "detector_step (probes, m) (probes, snd (Membership_Stop m))"
| join: "detector_step (probes, m) (probes, AddMember now nid addr md m)"
| leave: "detector_step (probes, m) (probes, RemoveMember now nid graceful m)"
| ping: "detector_step (probes, m) (probes, MarkAlive now nid m)"
| metadata: "detector_step (probes, m) (probes, SetLocalMetadata md m)"
| gossip: "gs_localID g = mb_localID m \<Longrightarrow> detector_step (probes, m) (probes, snd (HandleGossip now isGossip sender payload g m))"
| tick: "detector_step (probes, m) (probe_tick now probes m)"
| probed: "nid \<in> set probes \<Longrightarrow> detector_step (probes, m) (remove1 nid probes, probe_done now nid answered m)"

inductive detector_reachable :: "string \<Rightarrow> string list \<times> Membership \<Rightarrow> bool" for localID where
  init: "detector_reachable localID ([], NewMembership localID localAddr events config)"
| step: "detector_reachable localID s \<Longrightarrow> detector_step s s' \<Longrightarrow> detector_reachable localID s'"

inductive_cases detector_stepE: "detector_step (probes, m) s'"

lemma probeNextNode_fields:
  assumes "probeNextNode m = (target, m')"
  shows "membership_inv m' = membership_inv m" "mb_localID m' = mb_localID m" "mb_members m' = mb_members m"
    and "target = Some (nid, addr) \<Longrightarrow> 0 \<le> mb_probeIndex m \<Longrightarrow>
         nid \<noteq> mb_localID m \<and> (\<exists>n. (nid, n) \<in> set (mb_members m) \<and> ni_Status n = NodeStatusUp \<and> ni_Addr n = addr)"
    and "0 \<le> mb_probeIndex m \<Longrightarrow> 0 \<le> mb_probeIndex m'"
proof -
  show "membership_inv m' = membership_inv m" "mb_localID m' = mb_localID m" "mb_members m' = mb_members m"
    "0 \<le> mb_probeIndex m \<Longrightarrow> 0 \<le> mb_probeIndex m'"
    using assms by (auto simp: probeNextNode_def Let_def membership_inv_def split: if_splits)
  assume t: "target = Some (nid, addr)" "0 \<le> mb_probeIndex m"
  have "(nid, addr) \<in> set (nodesToProbe m)"
    using assms t unfolding probeNextNode_def Let_def in_set_conv_nth
    by (auto split: if_splits intro: exI [of _ "nat (mb_probeIndex m)"])
  then show "nid \<noteq> mb_localID m \<and> (\<exists>n. (nid, n) \<in> set (mb_members m) \<and> ni_Status n = NodeStatusUp \<and> ni_Addr n = addr)" by (auto simp: nodesToProbe_def)
qed

lemma probe_done_inv:
  "membership_inv m \<Longrightarrow> nid \<noteq> mb_localID m \<Longrightarrow> membership_inv (probe_done now nid answered m)"
  "mb_localID (probe_done now nid answered m) = mb_localID m"
  by (simp_all add: probe_done_def inv_MarkAlive inv_MarkSuspect)

lemma probeIndex_simps [simp]:
  "mb_probeIndex (publish e m) = mb_probeIndex m"
  "mb_probeIndex (set_node k f m) = mb_probeIndex m"
  "mb_probeIndex (AddMember now nid addr md m) = mb_probeIndex m" "mb_probeIndex (RemoveMember now nid g m) = mb_probeIndex m"
  "mb_probeIndex (MarkSuspect now nid m) = mb_probeIndex m" "mb_probeIndex (MarkAlive now nid m) = mb_probeIndex m"
  "mb_probeIndex (MarkFailed now nid reason m) = mb_probeIndex m" "mb_probeIndex (check_suspected now nid since m) = mb_probeIndex m"
  "mb_probeIndex (handle_node now lid sender node m) = mb_probeIndex m"
  by (simp_all add: publish_def set_node_def AddMember_def RemoveMember_def MarkSuspect_def MarkAlive_def MarkFailed_def
      check_suspected_def handle_node_def Let_def split: option.splits)

lemma start_stop_fields [simp]:
  "mb_localID (snd (Membership_Start now m)) = mb_localID m" "mb_probeIndex (snd (Membership_Start now m)) = mb_probeIndex m"
  "mb_localID (snd (Membership_Stop m)) = mb_localID m" "mb_probeIndex (snd (Membership_Stop m)) = mb_probeIndex m"
  "membership_inv (snd (Membership_Stop m)) = membership_inv m"
  "mb_localID (SetLocalMetadata md m) = mb_localID m" "mb_probeIndex (SetLocalMetadata md m) = mb_probeIndex m"
  by (simp_all add: Membership_Start_def Membership_Stop_def addLocalNode_def SetLocalMetadata_def membership_inv_def)

lemma probeIndex_fold [simp]:
  "mb_probeIndex (checkSuspectedNodes now m) = mb_probeIndex m"
  "mb_probeIndex (snd (HandleGossip now isGossip sender payload g m)) = mb_probeIndex m"
proof -
  have "mb_probeIndex (fold (\<lambda>(nodeID, since). check_suspected now nodeID since) sts m) = mb_probeIndex m" for sts
    by (induction sts arbitrary: m) auto
  then show "mb_probeIndex (checkSuspectedNodes now m) = mb_probeIndex m" by (simp add: checkSuspectedNodes_def)
  have "mb_probeIndex (fold (handle_node now lid sender) nodes m) = mb_probeIndex m" for lid nodes
    by (induction nodes arbitrary: m) auto
  then show "mb_probeIndex (snd (HandleGossip now isGossip sender payload g m)) = mb_probeIndex m"
    by (simp add: HandleGossip_def split: option.splits)
qed

definition detector_inv :: "string \<Rightarrow> string list \<times> Membership \<Rightarrow> bool" where
  "detector_inv localID s \<longleftrightarrow>
     membership_inv (snd s) \<and> mb_localID (snd s) = localID \<and> localID \<notin> set (fst s) \<and> 0 \<le> mb_probeIndex (snd s)"

lemma detector_inv_tick:
  assumes "detector_inv localID (probes, m)"
  shows "detector_inv localID (probe_tick now probes m)"
proof -
  obtain target m' where p: "probeNextNode (checkSuspectedNodes now m) = (target, m')" by fastforce
  have m: "membership_inv m" "mb_localID m = localID" "0 \<le> mb_probeIndex m" "localID \<notin> set probes"
    using assms by (simp_all add: detector_inv_def)
  have "membership_inv m'" "mb_localID m' = localID" "0 \<le> mb_probeIndex m'"
    using probeNextNode_fields(1,2,5) [OF p] m by (simp_all add: inv_checkSuspectedNodes)
  moreover have "nid \<noteq> localID" if "target = Some (nid, addr)" for nid addr
    using probeNextNode_fields(4) [OF p that] m by (simp add: inv_checkSuspectedNodes)
  ultimately show ?thesis
    using m(4) by (cases target) (auto simp: detector_inv_def probe_tick_def p)
qed

lemma detector_inv_step: "detector_step s s' \<Longrightarrow> detector_inv localID s \<Longrightarrow> detector_inv localID s'"
proof (induction rule: detector_step.induct)
  case (tick probes m now)
  then show ?case by (rule detector_inv_tick)
next
  case (probed nid probes m now answered)
  then have "nid \<noteq> mb_localID m" "membership_inv m" by (auto simp: detector_inv_def)
  then show ?case using probed
    by (auto simp: detector_inv_def probe_done_inv dest: notin_set_remove1) (simp add: probe_done_def)
qed (auto simp: detector_inv_def inv_Start inv_AddMember inv_RemoveMember inv_MarkAlive inv_SetLocalMetadata inv_HandleGossip)

text \<open>Cluster membership under every interleaving of starting and stopping, join, leave, ping and gossip
  messages, ticks of the probe loop and ends of probes: each node is filed once, under its own ID; every suspected
  node has a recorded time of suspicion, so that it can time out, and every recorded time belongs to a member; the
  local node, as long as it is a member, is up, whatever other nodes gossip about it, and no probe of it is in flight.\<close>

theorem membership_reachable_inv:
  assumes "detector_reachable localID (probes, m)"
  shows "wf_gomap (mb_members m) \<and> localID \<notin> set probes
    \<and> (\<forall>k n. map_of (mb_members m) k = Some n \<longrightarrow>
         ni_ID n = k \<and> (ni_Status n = NodeStatusSuspect \<longrightarrow> map_of (mb_suspectTime m) k \<noteq> None)
         \<and> (k = localID \<longrightarrow> ni_Status n = NodeStatusUp))
    \<and> (\<forall>k t. map_of (mb_suspectTime m) k = Some t \<longrightarrow> map_of (mb_members m) k \<noteq> None)"
proof -
  have "detector_inv localID s" if "detector_reachable localID s" for s
    using that
  proof (induction rule: detector_reachable.induct)
    case (init localAddr events config)
    show ?case by (simp add: detector_inv_def inv_new) (simp add: NewMembership_def)
  qed (rule detector_inv_step)
  from this [OF assms] show ?thesis by (simp add: detector_inv_def membership_inv_alt)
qed

text \<open>A node that starts and hears of node b, which its peer suspects.\<close>

definition peer_b :: GossipNodeInfo where
  "peer_b = \<lparr>gn_ID = ''b'', gn_Address = ''b:1'', gn_Status = 1, gn_LastSeen = 0, gn_Metadata = None\<rparr>"

definition node_a :: Membership where
  "node_a = snd (HandleGossip 7 True ''c'' (Some [peer_b]) (NewGossiper ''a'' DefaultNodeConfig)
     (snd (Membership_Start 5 (NewMembership ''a'' ''a:1'' None DefaultNodeConfig))))"

lemma node_a_reachable: "detector_reachable ''a'' ([], node_a)"
proof -
  let ?m0 = "NewMembership ''a'' ''a:1'' None DefaultNodeConfig" and ?g = "NewGossiper ''a'' DefaultNodeConfig"
  have 1: "detector_reachable ''a'' ([], snd (Membership_Start 5 ?m0))"
    by (rule detector_reachable.step [OF detector_reachable.init detector_step.start])
  have "gs_localID ?g = mb_localID (snd (Membership_Start 5 ?m0))" by (simp add: NewGossiper_def NewMembership_def)
  from detector_reachable.step [OF 1 detector_step.gossip [OF this]] show ?thesis unfolding node_a_def .
qed

lemmas node_a_eval = node_a_def HandleGossip_def Membership_Start_def addLocalNode_def NewMembership_def NewGossiper_def
  DefaultNodeConfig_def handle_node_def peer_b_def AddMember_def MarkSuspect_def set_node_def publish_def

theorem membership_reachable_inv_witness:
  "map_of (mb_members node_a) ''b'' \<noteq> None \<and> ni_Status (the (map_of (mb_members node_a) ''b'')) = NodeStatusSuspect
   \<and> map_of (mb_suspectTime node_a) ''b'' \<noteq> None"
proof -
  have "map_of (mb_members node_a) ''b'' \<noteq> None \<and> ni_Status (the (map_of (mb_members node_a) ''b'')) = NodeStatusSuspect"
    by (simp add: node_a_eval)
  then show ?thesis using membership_reachable_inv [OF node_a_reachable] by auto
qed

section \<open>Suspicion and its timeout\<close>

definition expired_in :: "instant \<Rightarrow> duration \<Rightarrow> instant gomap \<Rightarrow> string \<Rightarrow> bool" where
  "expired_in now timeout sts k = (case map_of sts k of None \<Rightarrow> False | Some since \<Rightarrow> now - since > timeout)"

lemma expired_in_simps [simp]:
  "expired_in now timeout [] k = False"
  "expired_in now timeout ((nid, since) # sts) k = (if k = nid then now - since > timeout else expired_in now timeout sts k)"
  by (simp_all add: expired_in_def)

lemma expired_in_absent: "k \<notin> fst ` set sts \<Longrightarrow> \<not> expired_in now timeout sts k"
  by (simp add: expired_in_def map_of_eq_None_iff [symmetric])

definition suspicion_expired :: "instant \<Rightarrow> Membership \<Rightarrow> string \<Rightarrow> bool" where
  "suspicion_expired now m k = expired_in now (wrap64 (mb_suspicionMult m * mb_probeInterval m)) (mb_suspectTime m) k"

lemma check_suspected_config [simp]:
  "mb_suspicionMult (check_suspected now k since m) = mb_suspicionMult m"
  "mb_probeInterval (check_suspected now k since m) = mb_probeInterval m"
  by (simp_all add: check_suspected_def split: option.splits)

lemma check_suspected_members:
  "map_of (mb_members (check_suspected now k since m)) =
     (map_of (mb_members m))(k := map_option (\<lambda>n. if now - since > wrap64 (mb_suspicionMult m * mb_probeInterval m) \<and> ni_Status n = NodeStatusSuspect
        then n\<lparr>ni_Status := NodeStatusDown\<rparr> else n) (map_of (mb_members m) k))"
  by (auto simp: check_suspected_def fun_eq_iff split: option.splits)

lemma check_suspected_times:
  "map_of (mb_suspectTime (check_suspected now k since m)) =
     (if now - since > wrap64 (mb_suspicionMult m * mb_probeInterval m) \<and> map_option ni_Status (map_of (mb_members m) k) \<noteq> Some NodeStatusSuspect
      then (map_of (mb_suspectTime m))(k := None) else map_of (mb_suspectTime m))"
  by (auto simp: check_suspected_def split: option.splits)

lemma check_fold_members:
  "distinct (map fst sts) \<Longrightarrow>
   map_of (mb_members (fold (\<lambda>(nodeID, since). check_suspected now nodeID since) sts m)) k =
     map_option (\<lambda>n. if expired_in now (wrap64 (mb_suspicionMult m * mb_probeInterval m)) sts k \<and> ni_Status n = NodeStatusSuspect
       then n\<lparr>ni_Status := NodeStatusDown\<rparr> else n) (map_of (mb_members m) k)"
proof (induction sts arbitrary: m)
  case (Cons st sts)
  obtain nid since where st: "st = (nid, since)" by fastforce
  show ?case using Cons.IH Cons.prems
    by (cases "k = nid") (auto simp: st check_suspected_members expired_in_absent option.map_comp o_def intro!: option.map_cong0)
qed (simp add: option.map_ident)

lemma check_fold_times:
  "distinct (map fst sts) \<Longrightarrow>
   map_of (mb_suspectTime (fold (\<lambda>(nodeID, since). check_suspected now nodeID since) sts m)) k =
     (if expired_in now (wrap64 (mb_suspicionMult m * mb_probeInterval m)) sts k \<and> map_option ni_Status (map_of (mb_members m) k) \<noteq> Some NodeStatusSuspect
      then None else map_of (mb_suspectTime m) k)"
proof (induction sts arbitrary: m)
  case (Cons st sts)
  obtain nid since where st: "st = (nid, since)" by fastforce
  show ?case using Cons.IH Cons.prems
    by (cases "k = nid") (auto simp: st check_suspected_members check_suspected_times expired_in_absent)
qed simp

text \<open>The failure detector's timeout: a check at time \<open>now\<close> turns exactly those members down that are
  suspected and whose suspicion is older than \<open>suspicionMult * probeInterval\<close>, a product of 64 bits; every other member is left as it is,
  and the time of a suspicion is dropped only when it has expired and the member is no longer suspected.\<close>

theorem suspicion_timeout_exact:
  assumes "wf_gomap (mb_suspectTime m)"
  shows "map_of (mb_members (checkSuspectedNodes now m)) k =
      (case map_of (mb_members m) k of
         None \<Rightarrow> None
       | Some n \<Rightarrow> Some (if suspicion_expired now m k \<and> ni_Status n = NodeStatusSuspect then n\<lparr>ni_Status := NodeStatusDown\<rparr> else n))
    \<and> map_of (mb_suspectTime (checkSuspectedNodes now m)) k =
      (if suspicion_expired now m k \<and> map_option ni_Status (map_of (mb_members m) k) \<noteq> Some NodeStatusSuspect
       then None else map_of (mb_suspectTime m) k)"
  using check_fold_members [of "mb_suspectTime m" now m k] check_fold_times [of "mb_suspectTime m" now m k] assms
  by (simp add: checkSuspectedNodes_def wf_gomap_def suspicion_expired_def split: option.splits)

theorem suspicion_timeout_exact_witness:
  "map_option ni_Status (map_of (mb_members (checkSuspectedNodes (3 * 10 ^ 9 + 8) node_a)) ''b'') = Some NodeStatusDown
   \<and> map_option ni_Status (map_of (mb_members (checkSuspectedNodes (3 * 10 ^ 9 + 7) node_a)) ''b'') = Some NodeStatusSuspect"
proof -
  have wf: "wf_gomap (mb_suspectTime node_a)" by (simp add: node_a_eval wf_gomap_def)
  show ?thesis
    using suspicion_timeout_exact [OF wf, of "3 * 10 ^ 9 + 8" "''b''"] suspicion_timeout_exact [OF wf, of "3 * 10 ^ 9 + 7" "''b''"]
    by (simp add: node_a_eval suspicion_expired_def expired_in_def wrap64_id)
qed

section \<open>Gossip\<close>

text \<open>One tick of the detector at time \<open>t\<close>, then a gossip message that reports a node.\<close>

definition gossip_round :: "Gossiper \<Rightarrow> string \<Rightarrow> GossipNodeInfo \<Rightarrow> instant \<Rightarrow> Membership \<Rightarrow> Membership" where
  "gossip_round g sender node t m = snd (HandleGossip t True sender (Some [node]) g (checkSuspectedNodes t m))"

definition suspected_since :: "string \<Rightarrow> instant \<Rightarrow> duration \<Rightarrow> Membership \<Rightarrow> bool" where
  "suspected_since k t0 timeout m \<longleftrightarrow>
     wf_gomap (mb_suspectTime m) \<and> wrap64 (mb_suspicionMult m * mb_probeInterval m) = timeout
     \<and> map_option ni_Status (map_of (mb_members m) k) = Some NodeStatusSuspect \<and> map_of (mb_suspectTime m) k = Some t0"

lemma checkSuspected_keeps:
  assumes "suspected_since k t0 timeout m" "t - t0 \<le> timeout"
  shows "suspected_since k t0 timeout (checkSuspectedNodes t m)"
proof -
  have wf: "wf_gomap (mb_suspectTime m)" and susp: "map_of (mb_suspectTime m) k = Some t0"
    using assms(1) by (simp_all add: suspected_since_def)
  have cfg: "mb_suspicionMult (fold (\<lambda>(nid, s). check_suspected t nid s) sts m) = mb_suspicionMult m
      \<and> mb_probeInterval (fold (\<lambda>(nid, s). check_suspected t nid s) sts m) = mb_probeInterval m
      \<and> (wf_gomap (mb_suspectTime m) \<longrightarrow> wf_gomap (mb_suspectTime (fold (\<lambda>(nid, s). check_suspected t nid s) sts m)))" for sts
  proof (induction sts arbitrary: m)
    case (Cons st sts)
    then show ?case by (cases st) (auto simp: check_suspected_def split: option.splits if_splits)
  qed simp
  have "\<not> expired_in t timeout (mb_suspectTime m) k" using assms(2) susp by (simp add: expired_in_def)
  then show ?thesis
    using assms cfg [of "mb_suspectTime m"] wf
      check_fold_members [of "mb_suspectTime m" t m k] check_fold_times [of "mb_suspectTime m" t m k]
    by (simp add: suspected_since_def checkSuspectedNodes_def wf_gomap_def [of "mb_suspectTime m"] option.map_comp o_def)
qed

lemma handle_suspect_resets:
  assumes "suspected_since (gn_ID node) t0 timeout m" "gn_ID node \<noteq> localID" "gn_Status node = 1"
  shows "suspected_since (gn_ID node) t timeout (handle_node t localID sender node m)"
  using assms
  by (auto simp: suspected_since_def handle_node_def AddMember_def MarkSuspect_def set_node_def)

text \<open>The suspicion timeout can be postponed for ever: as long as gossip that reports the suspected node as
  suspected arrives before the timeout, every check finds the suspicion fresh, because handling the message first
  marks the node up and then suspects it anew. After any number of such rounds the node is still suspected, with the
  time of the last message. Two nodes that both suspect a dead third keep it from ever being marked failed.\<close>

theorem gossip_postpones_failure:
  assumes "suspected_since (gn_ID node) t0 timeout m" "gn_ID node \<noteq> gs_localID g" "gn_Status node = 1"
    and "successively (\<lambda>t t'. t' - t \<le> timeout) (t0 # ts)"
  shows "suspected_since (gn_ID node) (last (t0 # ts)) timeout (fold (gossip_round g sender node) ts m)"
  using assms(1,4)
proof (induction ts arbitrary: t0 m)
  case (Cons t ts)
  have "suspected_since (gn_ID node) t0 timeout (checkSuspectedNodes t m)"
    using Cons.prems by (intro checkSuspected_keeps) simp_all
  then have "suspected_since (gn_ID node) t timeout (gossip_round g sender node t m)"
    using assms(2,3) by (simp add: gossip_round_def HandleGossip_def handle_suspect_resets)
  from Cons.IH [OF this] Cons.prems(2) show ?case by simp
qed simp

theorem gossip_postpones_failure_witness:
  "suspected_since ''b'' (5 * 10 ^ 9) (3 * 10 ^ 9)
     (fold (gossip_round (NewGossiper ''a'' DefaultNodeConfig) ''c'' peer_b) [1 * 10 ^ 9, 2 * 10 ^ 9, 3 * 10 ^ 9, 4 * 10 ^ 9, 5 * 10 ^ 9] node_a)"
proof -
  have "suspected_since (gn_ID peer_b) 7 (3 * 10 ^ 9) node_a"
    by (simp add: suspected_since_def wf_gomap_def node_a_eval wrap64_id)
  from gossip_postpones_failure [OF this, of "NewGossiper ''a'' DefaultNodeConfig" "[1 * 10 ^ 9, 2 * 10 ^ 9, 3 * 10 ^ 9, 4 * 10 ^ 9, 5 * 10 ^ 9]" "''c''"]
  show ?thesis by (simp add: peer_b_def NewGossiper_def)
qed

text \<open>A round of gossip reaches as many distinct members as the fanout allows, never the node itself, and each
  message carries all members. \<open>rand.Perm\<close> draws a permutation of the indices.\<close>

lemma selectRandomNodes_sub:
  assumes "\<And>n. distinct (perm n) \<and> set (perm n) = {0..<n}" "distinct ms" "0 \<le> n"
  shows "set (selectRandomNodes perm n ms) \<subseteq> set ms \<and> distinct (selectRandomNodes perm n ms)
    \<and> length (selectRandomNodes perm n ms) = min (nat n) (length ms)"
proof (cases "int (length ms) \<le> n")
  case False
  let ?p = "perm (length ms)"
  have len: "length ?p = length ms" using assms(1) [of "length ms"] distinct_card [of ?p] by simp
  have bound: "?p ! i < length ms" if "i < length ms" for i
    using assms(1) [of "length ms"] len that nth_mem [of i ?p] by auto
  have inj: "inj_on (\<lambda>i. ms ! (?p ! i)) {0..<nat n}"
  proof (rule inj_onI)
    fix i j assume "i \<in> {0..<nat n}" "j \<in> {0..<nat n}" and eq: "ms ! (?p ! i) = ms ! (?p ! j)"
    then have lt: "i < length ms" "j < length ms" using False by auto
    then have "?p ! i = ?p ! j" using eq nth_eq_iff_index_eq [OF assms(2) bound [OF lt(1)] bound [OF lt(2)]] by simp
    then show "i = j" using lt len nth_eq_iff_index_eq [of ?p i j] assms(1) [of "length ms"] by simp
  qed
  show ?thesis using False inj bound by (auto simp: selectRandomNodes_def distinct_map intro!: nth_mem)
qed (auto simp: selectRandomNodes_def assms)

lemma spreadGossip_targets:
  assumes "\<And>n. distinct (perm n) \<and> set (perm n) = {0..<n}" "membership_inv m" "0 \<le> gs_fanout g"
  shows "\<exists>targets. distinct targets \<and> set targets \<subseteq> {n \<in> set (Members m). ni_ID n \<noteq> gs_localID g}
      \<and> length targets = min (nat (gs_fanout g)) (length (filter (\<lambda>n. ni_ID n \<noteq> gs_localID g) (Members m)))
      \<and> spreadGossip perm g m = map (\<lambda>target. (ni_Addr target, map gossip_info (Members m))) targets"
proof -
  let ?others = "filter (\<lambda>n. ni_ID n \<noteq> gs_localID g) (Members m)"
  let ?n = "if int (length ?others) < gs_fanout g then int (length ?others) else gs_fanout g"
  have "distinct (map ni_ID (Members m))"
  proof -
    have "map ni_ID (Members m) = map fst (mb_members m)"
      using assms(2) by (auto simp: Members_def membership_inv_def list_all_iff)
    then show ?thesis using assms(2) by (simp add: membership_inv_def wf_gomap_def)
  qed
  then have d: "distinct ?others" by (metis distinct_filter distinct_map)
  have "selectRandomNodes perm ?n [] = []" by (auto simp: selectRandomNodes_def)
  then have "spreadGossip perm g m = map (\<lambda>target. (ni_Addr target, map gossip_info (Members m))) (selectRandomNodes perm ?n ?others)"
    by (cases "?others = []") (simp_all add: spreadGossip_def Let_def)
  moreover have "nat ?n = min (nat (gs_fanout g)) (length ?others) \<or> ?n = int (length ?others)" by auto
  ultimately show ?thesis
    using selectRandomNodes_sub [OF assms(1) d, of ?n] assms(3)
    by (intro exI [of _ "selectRandomNodes perm ?n ?others"]) (auto split: if_splits)
qed

text \<open>Members that see the same nodes up agree on the coordinator, and there is at most one.\<close>

lemma coordinator_unique:
  assumes "\<And>k. (\<exists>n. (k, n) \<in> set (mb_members m) \<and> ni_Status n = NodeStatusUp) = (\<exists>n. (k, n) \<in> set (mb_members m') \<and> ni_Status n = NodeStatusUp)"
    and "(mb_localID m, n) \<in> set (mb_members m)" "ni_Status n = NodeStatusUp"
    and "(mb_localID m', n') \<in> set (mb_members m')" "ni_Status n' = NodeStatusUp"
    and "IsCoordinator m" "IsCoordinator m'"
  shows "mb_localID m = mb_localID m'"
proof -
  have "\<not> mb_localID m' < mb_localID m" "\<not> mb_localID m < mb_localID m'"
    using assms unfolding IsCoordinator_def list_all_iff by blast+
  then show ?thesis by simp
qed

end
