(* ===== verification/Election.thy ===== *)
theory Election
  imports Membership
begin

text \<open>
  Leader election (\<^verbatim>\<open>src/cache/cluster/election.go\<close>). The mutex of the manager is part of its state: an
  operation that locks it returns (\<open>Returns\<close>), or waits for it for ever (\<open>Blocked\<close>), leaving the state it has
  reached behind, or panics (\<open>Panicked\<close>). Goroutines are operations of their own: one firing of the election
  timer, one firing of the heartbeat timer, one answer to a vote request. Messages are values; the JSON codecs of
  their payloads are not modelled.
\<close>

section \<open>Configuration and messages\<close>

record ElectionConfig =
  ec_ElectionTimeout :: duration
  ec_HeartbeatInterval :: duration
  ec_MinElectionTimeout :: duration
  ec_MaxElectionTimeout :: duration
  ec_Priority :: int
  ec_NodeID :: string
  ec_LastLogIndex :: u64
  ec_LastLogTerm :: u64

definition DefaultElectionConfig :: ElectionConfig where
  "DefaultElectionConfig = \<lparr>ec_ElectionTimeout = 500 * 10 ^ 6, ec_HeartbeatInterval = 250 * 10 ^ 6, ec_MinElectionTimeout = 400 * 10 ^ 6,
     ec_MaxElectionTimeout = 600 * 10 ^ 6, ec_Priority = 1, ec_NodeID = '''', ec_LastLogIndex = 0, ec_LastLogTerm = 0\<rparr>"

type_synonym ElectionOption = "ElectionConfig \<Rightarrow> ElectionConfig"

definition Election_WithElectionTimeout :: "duration \<Rightarrow> ElectionOption" where
  "Election_WithElectionTimeout timeout c = (if timeout > 0 then c\<lparr>ec_ElectionTimeout := timeout\<rparr> else c)"

definition Election_WithHeartbeatInterval :: "duration \<Rightarrow> ElectionOption" where
  "Election_WithHeartbeatInterval interval c = (if interval > 0 then c\<lparr>ec_HeartbeatInterval := interval\<rparr> else c)"

definition Election_WithPriority :: "int \<Rightarrow> ElectionOption" where
  "Election_WithPriority priority c = (if priority > 0 then c\<lparr>ec_Priority := priority\<rparr> else c)"

record Heartbeat =
  hb_Term :: u64
  hb_LeaderID :: string

record VoteRequest =
  vq_Term :: u64
  vq_CandidateID :: string
  vq_LastLogIndex :: u64
  vq_LastLogTerm :: u64
  vq_Priority :: int

record VoteResponse =
  vr_Term :: u64
  vr_VoteGranted :: bool
  vr_VotedFor :: string

section \<open>The manager\<close>

record ElectionManager =
  em_nodeID :: string
  em_currentTerm :: u64
  em_currentLeader :: string
  em_config :: ElectionConfig
  em_role :: ReplicationRole
  em_events :: EventPublisher
  em_votesReceived :: "bool gomap"
  em_votedFor :: string
  em_lastHeartbeat :: instant
  em_lastLogIndex :: u64
  em_lastLogTerm :: u64
  em_running :: bool
  em_stopClosed :: bool
  em_mu :: bool
  em_electionTimer :: timer
  em_heartbeatTimer :: timer

datatype 'a outcome = Returns 'a ElectionManager | Blocked ElectionManager | Panicked

definition NewElectionManager :: "instant \<Rightarrow> string \<Rightarrow> EventPublisher \<Rightarrow> ElectionOption list \<Rightarrow> ElectionManager" where
  "NewElectionManager now nodeID events options =
     \<lparr>em_nodeID = nodeID, em_currentTerm = 0, em_currentLeader = '''',
      em_config = fold (\<lambda>option. option) options (DefaultElectionConfig\<lparr>ec_NodeID := nodeID\<rparr>), em_role = RoleFollower, em_events = events,
      em_votesReceived = [], em_votedFor = '''', em_lastHeartbeat = now, em_lastLogIndex = 0, em_lastLogTerm = 0, em_running = False,
      em_stopClosed = False, em_mu = False, em_electionTimer = TimerNil, em_heartbeatTimer = TimerNil\<rparr>"

text \<open>\<open>em.mu.Lock()\<close>, the critical section, and \<open>em.mu.Unlock()\<close>, deferred or not.\<close>

definition with_lock :: "(ElectionManager \<Rightarrow> 'a outcome) \<Rightarrow> ElectionManager \<Rightarrow> 'a outcome" where
  "with_lock body em =
     (if em_mu em then Blocked em
      else case body (em\<lparr>em_mu := True\<rparr>) of
        Returns r em' \<Rightarrow> Returns r (em'\<lparr>em_mu := False\<rparr>) | Blocked em' \<Rightarrow> Blocked em' | Panicked \<Rightarrow> Panicked)"

definition resetElectionTimer :: "ElectionManager \<Rightarrow> ElectionManager" where
  "resetElectionTimer em = em\<lparr>em_electionTimer := TimerArmed\<rparr>"

definition publishRoleChangeEvent :: "instant \<Rightarrow> ReplicationRole \<Rightarrow> ElectionManager \<Rightarrow> ElectionManager" where
  "publishRoleChangeEvent now newRole em =
     (let event = \<lparr>ev_Type = EventRoleChange, ev_NodeID = em_nodeID em, ev_Role = newRole, ev_Term = em_currentTerm em, ev_Timestamp = now\<rparr>
      in em\<lparr>em_events := Publisher_Publish
           \<lparr>ce_Type = ClusterEventRoleChange, ce_NodeID = em_nodeID em, ce_Time = now, ce_Details = DReplication event\<rparr> (em_events em)\<rparr>)"

definition publishLeaderElectedEvent :: "instant \<Rightarrow> ElectionManager \<Rightarrow> ElectionManager" where
  "publishLeaderElectedEvent now em =
     (let event = \<lparr>ev_Type = EventLeaderElected, ev_NodeID = em_nodeID em, ev_Role = RoleLeader, ev_Term = em_currentTerm em, ev_Timestamp = now\<rparr>
      in em\<lparr>em_events := Publisher_Publish
           \<lparr>ce_Type = ClusterEventLeaderElected, ce_NodeID = em_nodeID em, ce_Time = now, ce_Details = DReplication event\<rparr> (em_events em)\<rparr>)"

definition Election_Start :: "ElectionManager \<Rightarrow> unit outcome" where
  "Election_Start = with_lock (\<lambda>em.
     if em_running em then Returns () em else Returns () (resetElectionTimer (em\<lparr>em_running := True\<rparr>)))"

definition Election_Stop :: "ElectionManager \<Rightarrow> unit outcome" where
  "Election_Stop = with_lock (\<lambda>em.
     if \<not> em_running em then Returns () em
     else if em_stopClosed em then Panicked
     else Returns () (em\<lparr>em_stopClosed := True, em_running := False, em_electionTimer := timer_stop (em_electionTimer em),
                         em_heartbeatTimer := timer_stop (em_heartbeatTimer em)\<rparr>))"

text \<open>The addresses to which vote requests and heartbeats are sent: every other member that is up or suspected.\<close>

definition election_targets :: "string \<Rightarrow> Membership \<Rightarrow> string list" where
  "election_targets nodeID m =
     concat (map (\<lambda>member. case GetNodeAddr (ni_ID member) m of Inl _ \<Rightarrow> [] | Inr addr \<Rightarrow> [addr])
       (filter (\<lambda>member. ni_ID member \<noteq> nodeID \<and> (ni_Status member = NodeStatusUp \<or> ni_Status member = NodeStatusSuspect)) (Members m)))"

text \<open>\<open>startElection\<close> returns the requests that its goroutine sends.\<close>

definition startElection :: "instant \<Rightarrow> Membership \<Rightarrow> ElectionManager \<Rightarrow> (string \<times> VoteRequest) list outcome" where
  "startElection now m = with_lock (\<lambda>em.
     let em' = resetElectionTimer (publishRoleChangeEvent now RoleCandidate
           (em\<lparr>em_currentTerm := em_currentTerm em + 1, em_role := RoleCandidate, em_votedFor := em_nodeID em,
               em_votesReceived := [(em_nodeID em, True)]\<rparr>));
         voteReq = \<lparr>vq_Term = em_currentTerm em', vq_CandidateID = em_nodeID em', vq_LastLogIndex = em_lastLogIndex em',
                    vq_LastLogTerm = em_lastLogTerm em', vq_Priority = ec_Priority (em_config em')\<rparr>
     in Returns (map (\<lambda>addr. (addr, voteReq)) (election_targets (em_nodeID em') m)) em')"

text \<open>One firing of the election timer.\<close>

definition electionLoop_fire :: "instant \<Rightarrow> Membership \<Rightarrow> ElectionManager \<Rightarrow> (string \<times> VoteRequest) list outcome" where
  "electionLoop_fire now m em =
     (case with_lock (\<lambda>em. Returns (em_role em) em) em of
        Returns role em' \<Rightarrow> if role \<noteq> RoleLeader then startElection now m em' else Returns [] em'
      | Blocked em' \<Rightarrow> Blocked em' | Panicked \<Rightarrow> Panicked)"

definition startHeartbeat :: "ElectionManager \<Rightarrow> unit outcome" where
  "startHeartbeat = with_lock (\<lambda>em. Returns () (em\<lparr>em_heartbeatTimer := TimerArmed\<rparr>))"

definition becomeLeader :: "instant \<Rightarrow> ElectionManager \<Rightarrow> unit outcome" where
  "becomeLeader now em =
     (if em_role em = RoleLeader then Returns () em
      else let em1 = publishLeaderElectedEvent now (publishRoleChangeEvent now RoleLeader
                 (em\<lparr>em_role := RoleLeader, em_currentLeader := em_nodeID em\<rparr>))
           in startHeartbeat (em1\<lparr>em_electionTimer := timer_stop (em_electionTimer em1)\<rparr>))"

definition becomeFollower :: "instant \<Rightarrow> string \<Rightarrow> ElectionManager \<Rightarrow> ElectionManager" where
  "becomeFollower now leaderID em =
     (if em_role em = RoleFollower \<and> em_currentLeader em = leaderID then em
      else let em1 = resetElectionTimer (em\<lparr>em_role := RoleFollower, em_currentLeader := leaderID\<rparr>);
               em2 = em1\<lparr>em_heartbeatTimer := timer_stop (em_heartbeatTimer em1)\<rparr>
           in if em_role em \<noteq> RoleFollower then publishRoleChangeEvent now RoleFollower em2 else em2)"

definition handleVoteResponse :: "instant \<Rightarrow> Membership \<Rightarrow> string \<Rightarrow> VoteResponse \<Rightarrow> ElectionManager \<Rightarrow> unit outcome" where
  "handleVoteResponse now m voterID resp = with_lock (\<lambda>em.
     if em_role em \<noteq> RoleCandidate \<or> vr_Term resp \<noteq> em_currentTerm em then Returns () em
     else if vr_Term resp > em_currentTerm em then
       Returns () (becomeFollower now (vr_VotedFor resp) (em\<lparr>em_currentTerm := vr_Term resp\<rparr>))
     else
       let em' = (if vr_VoteGranted resp then em\<lparr>em_votesReceived := AList.update voterID True (em_votesReceived em)\<rparr> else em);
           votesNeeded = length (Members m) div 2 + 1
       in if length (em_votesReceived em') \<ge> votesNeeded then becomeLeader now em' else Returns () em')"

text \<open>\<open>sendHeartbeat\<close> and one firing of the heartbeat timer: whether the goroutine goes on, and the messages.\<close>

definition sendHeartbeat :: "u64 \<Rightarrow> string \<Rightarrow> string \<Rightarrow> Membership \<Rightarrow> (string \<times> Heartbeat) list" where
  "sendHeartbeat term leaderID nodeID m = map (\<lambda>addr. (addr, \<lparr>hb_Term = term, hb_LeaderID = leaderID\<rparr>)) (election_targets nodeID m)"

definition heartbeat_fire :: "Membership \<Rightarrow> ElectionManager \<Rightarrow> (bool \<times> (string \<times> Heartbeat) list) outcome" where
  "heartbeat_fire m = with_lock (\<lambda>em.
     if em_role em \<noteq> RoleLeader then Returns (False, []) em
     else Returns (True, sendHeartbeat (em_currentTerm em) (em_nodeID em) (em_nodeID em) m) (em\<lparr>em_heartbeatTimer := TimerArmed\<rparr>))"

definition HandleVoteRequest :: "instant \<Rightarrow> VoteRequest \<Rightarrow> ElectionManager \<Rightarrow> VoteResponse outcome" where
  "HandleVoteRequest now req = with_lock (\<lambda>em.
     let reject = (\<lambda>em. Returns \<lparr>vr_Term = em_currentTerm em, vr_VoteGranted = False, vr_VotedFor = em_votedFor em\<rparr> em) in
     if vq_Term req < em_currentTerm em then reject em
     else
       let em1 = (if vq_Term req > em_currentTerm em then
                    let em0 = em\<lparr>em_currentTerm := vq_Term req, em_votedFor := ''''\<rparr>
                    in if em_role em0 \<noteq> RoleFollower then becomeFollower now '''' em0 else em0
                  else em)
       in if em_votedFor em1 \<noteq> '''' \<and> em_votedFor em1 \<noteq> vq_CandidateID req then reject em1
          else if \<not> (vq_LastLogTerm req > em_lastLogTerm em1
                     \<or> vq_LastLogTerm req = em_lastLogTerm em1 \<and> vq_LastLogIndex req \<ge> em_lastLogIndex em1) then reject em1
          else let em2 = resetElectionTimer (em1\<lparr>em_votedFor := vq_CandidateID req\<rparr>)
               in Returns \<lparr>vr_Term = em_currentTerm em2, vr_VoteGranted = True, vr_VotedFor = vq_CandidateID req\<rparr> em2)"

definition Election_HandleHeartbeat :: "instant \<Rightarrow> Heartbeat \<Rightarrow> ElectionManager \<Rightarrow> (gerror + unit) outcome" where
  "Election_HandleHeartbeat now heartbeat = with_lock (\<lambda>em.
     if hb_Term heartbeat < em_currentTerm em then Returns (Inl (Errorf ''heartbeat term %d is smaller than current term %d'')) em
     else
       let em1 = em\<lparr>em_lastHeartbeat := now\<rparr> in
       if hb_Term heartbeat > em_currentTerm em1 then
         Returns (Inr ()) (becomeFollower now (hb_LeaderID heartbeat) (em1\<lparr>em_currentTerm := hb_Term heartbeat\<rparr>))
       else if em_currentLeader em1 \<noteq> hb_LeaderID heartbeat then Returns (Inr ()) (becomeFollower now (hb_LeaderID heartbeat) em1)
       else if em_role em1 \<noteq> RoleFollower then Returns (Inr ()) (becomeFollower now (hb_LeaderID heartbeat) em1)
       else Returns (Inr ()) (resetElectionTimer em1))"

definition Election_GetRole :: "ElectionManager \<Rightarrow> ReplicationRole outcome" where
  "Election_GetRole = with_lock (\<lambda>em. Returns (em_role em) em)"

definition Election_GetLeader :: "ElectionManager \<Rightarrow> string outcome" where
  "Election_GetLeader = with_lock (\<lambda>em. Returns (em_currentLeader em) em)"

definition Election_GetTerm :: "ElectionManager \<Rightarrow> u64 outcome" where
  "Election_GetTerm = with_lock (\<lambda>em. Returns (em_currentTerm em) em)"

definition SetLogInfo :: "u64 \<Rightarrow> u64 \<Rightarrow> ElectionManager \<Rightarrow> unit outcome" where
  "SetLogInfo lastIndex lastTerm = with_lock (\<lambda>em. Returns () (em\<lparr>em_lastLogIndex := lastIndex, em_lastLogTerm := lastTerm\<rparr>))"

section \<open>What each operation does to term, role and votes\<close>

lemma with_lock_Returns:
  "with_lock body em = Returns r em' \<longleftrightarrow> \<not> em_mu em \<and> (\<exists>em1. body (em\<lparr>em_mu := True\<rparr>) = Returns r em1 \<and> em' = em1\<lparr>em_mu := False\<rparr>)"
  by (auto simp: with_lock_def split: outcome.splits)

lemma publish_role_fields [simp]:
  "em_nodeID (publishRoleChangeEvent now r em) = em_nodeID em" "em_currentTerm (publishRoleChangeEvent now r em) = em_currentTerm em"
  "em_role (publishRoleChangeEvent now r em) = em_role em" "em_votedFor (publishRoleChangeEvent now r em) = em_votedFor em"
  "em_votesReceived (publishRoleChangeEvent now r em) = em_votesReceived em" "em_mu (publishRoleChangeEvent now r em) = em_mu em"
  by (simp_all add: publishRoleChangeEvent_def Let_def)

lemma publish_leader_fields [simp]:
  "em_nodeID (publishLeaderElectedEvent now em) = em_nodeID em" "em_currentTerm (publishLeaderElectedEvent now em) = em_currentTerm em"
  "em_role (publishLeaderElectedEvent now em) = em_role em" "em_votedFor (publishLeaderElectedEvent now em) = em_votedFor em"
  "em_votesReceived (publishLeaderElectedEvent now em) = em_votesReceived em" "em_mu (publishLeaderElectedEvent now em) = em_mu em"
  by (simp_all add: publishLeaderElectedEvent_def Let_def)

lemma resetElectionTimer_fields [simp]:
  "em_nodeID (resetElectionTimer em) = em_nodeID em" "em_currentTerm (resetElectionTimer em) = em_currentTerm em"
  "em_role (resetElectionTimer em) = em_role em" "em_votedFor (resetElectionTimer em) = em_votedFor em"
  "em_votesReceived (resetElectionTimer em) = em_votesReceived em" "em_mu (resetElectionTimer em) = em_mu em"
  by (simp_all add: resetElectionTimer_def)

lemma becomeFollower_fields [simp]:
  "em_nodeID (becomeFollower now l em) = em_nodeID em" "em_currentTerm (becomeFollower now l em) = em_currentTerm em"
  "em_role (becomeFollower now l em) = RoleFollower" "em_votedFor (becomeFollower now l em) = em_votedFor em"
  "em_votesReceived (becomeFollower now l em) = em_votesReceived em" "em_mu (becomeFollower now l em) = em_mu em"
  by (simp_all add: becomeFollower_def Let_def)

lemma startElection_effect:
  assumes "startElection now m em = Returns reqs em'"
  shows "em_nodeID em' = em_nodeID em" "em_currentTerm em' = em_currentTerm em + 1" "em_role em' = RoleCandidate"
    "em_votedFor em' = em_nodeID em" "em_votesReceived em' = [(em_nodeID em, True)]" "\<not> em_mu em'"
    "(addr, req) \<in> set reqs \<Longrightarrow> vq_CandidateID req = em_nodeID em \<and> vq_Term req = em_currentTerm em + 1"
  using assms by (auto simp: startElection_def with_lock_Returns Let_def)

lemma HandleVoteRequest_effect:
  assumes "HandleVoteRequest now req em = Returns resp em'"
  shows "em_nodeID em' = em_nodeID em \<and> \<not> em_mu em' \<and> em_votesReceived em' = em_votesReceived em \<and> vr_Term resp = em_currentTerm em'
      \<and> (em_currentTerm em' = em_currentTerm em \<and> em_role em' = em_role em
           \<and> (if vr_VoteGranted resp then em_votedFor em \<in> {'''', vq_CandidateID req} else em_votedFor em' = em_votedFor em)
         \<or> em_currentTerm em < em_currentTerm em' \<and> em_role em' = RoleFollower)
      \<and> (vr_VoteGranted resp \<longrightarrow> em_votedFor em' = vq_CandidateID req)"
  using assms by (auto simp: HandleVoteRequest_def with_lock_Returns Let_def split: if_splits)

lemma HandleHeartbeat_effect:
  assumes "Election_HandleHeartbeat now hb em = Returns r em'"
  shows "em_nodeID em' = em_nodeID em \<and> \<not> em_mu em' \<and> em_votesReceived em' = em_votesReceived em \<and> em_votedFor em' = em_votedFor em
      \<and> em_currentTerm em \<le> em_currentTerm em' \<and> (em_role em' = RoleFollower \<or> em_role em' = em_role em \<and> em_currentTerm em' = em_currentTerm em)"
  using assms by (auto simp: Election_HandleHeartbeat_def with_lock_Returns Let_def split: if_splits)

fun outcome_state :: "'a outcome \<Rightarrow> ElectionManager \<Rightarrow> ElectionManager" where
  "outcome_state (Returns _ em') em = em'"
| "outcome_state (Blocked em') em = em'"
| "outcome_state Panicked em = em"

definition recorded_votes :: "string \<Rightarrow> VoteResponse \<Rightarrow> ElectionManager \<Rightarrow> bool gomap" where
  "recorded_votes voterID resp em = (if vr_VoteGranted resp then AList.update voterID True (em_votesReceived em) else em_votesReceived em)"

lemma becomeLeader_locked:
  assumes "em_mu em" "em_role em \<noteq> RoleLeader"
  shows "\<exists>em'. becomeLeader now em = Blocked em' \<and> em_role em' = RoleLeader \<and> em_mu em' \<and> em_nodeID em' = em_nodeID em
    \<and> em_currentTerm em' = em_currentTerm em \<and> em_votedFor em' = em_votedFor em \<and> em_votesReceived em' = em_votesReceived em"
  using assms by (simp add: becomeLeader_def startHeartbeat_def with_lock_def Let_def)

lemma handleVoteResponse_effect:
  assumes "\<not> em_mu em" and eq: "em' = outcome_state (handleVoteResponse now m voterID resp em) em"
  shows "em' = em \<or> em_role em = RoleCandidate \<and> vr_Term resp = em_currentTerm em
      \<and> em_nodeID em' = em_nodeID em \<and> em_currentTerm em' = em_currentTerm em \<and> em_votedFor em' = em_votedFor em
      \<and> em_votesReceived em' = recorded_votes voterID resp em
      \<and> (if length (Members m) div 2 + 1 \<le> length (em_votesReceived em') then em_role em' = RoleLeader \<and> em_mu em' else em_role em' = RoleCandidate \<and> \<not> em_mu em')"
proof (cases "em_role em = RoleCandidate \<and> vr_Term resp = em_currentTerm em")
  case False
  then have "em' = em\<lparr>em_mu := False\<rparr>" using assms by (auto simp: handleVoteResponse_def with_lock_def)
  then show ?thesis using assms(1) by simp
next
  case True
  let ?em1 = "em\<lparr>em_mu := True, em_votesReceived := recorded_votes voterID resp em\<rparr>"
  obtain em2 where em2: "becomeLeader now ?em1 = Blocked em2" "em_role em2 = RoleLeader" "em_mu em2" "em_nodeID em2 = em_nodeID em"
    "em_currentTerm em2 = em_currentTerm em" "em_votedFor em2 = em_votedFor em" "em_votesReceived em2 = recorded_votes voterID resp em"
    using becomeLeader_locked [of ?em1 now] True by auto
  show ?thesis
    using assms True em2 by (auto simp: handleVoteResponse_def with_lock_def Let_def recorded_votes_def)
qed

section \<open>A network of managers\<close>

text \<open>
  The nodes of a network, the vote requests that have been sent, and the answers, each with the candidate it
  goes to and the voter it comes from: the response of the request's own call, as \<open>startElection\<close> reads it. Messages may be
  lost, delayed and repeated, requests may go to any node, and a node may receive any heartbeat at all. The term does
  not wrap. Member lists may differ from node to node and change at any time; the parameter \<open>K\<close> is a lower bound of the lengths of
  the lists against which votes are counted, and \<open>K = 0\<close> is no restriction.
\<close>

record network =
  nt_node :: "string \<Rightarrow> ElectionManager"
  nt_requests :: "VoteRequest set"
  nt_responses :: "(string \<times> string \<times> VoteResponse) set"

definition set_manager :: "string \<Rightarrow> ElectionManager \<Rightarrow> network \<Rightarrow> network" where
  "set_manager i em s = s\<lparr>nt_node := (nt_node s)(i := em)\<rparr>"

inductive net_step :: "nat \<Rightarrow> string set \<Rightarrow> network \<Rightarrow> network \<Rightarrow> bool" for K N where
  elect: "i \<in> N \<Longrightarrow> em_currentTerm (nt_node s i) \<noteq> - 1 \<Longrightarrow> startElection now m (nt_node s i) = Returns reqs em' \<Longrightarrow>
    net_step K N s ((set_manager i em' s)\<lparr>nt_requests := nt_requests s \<union> snd ` set reqs\<rparr>)"
| vote: "j \<in> N \<Longrightarrow> req \<in> nt_requests s \<Longrightarrow> HandleVoteRequest now req (nt_node s j) = Returns resp em' \<Longrightarrow>
    net_step K N s ((set_manager j em' s)\<lparr>nt_responses := insert (vq_CandidateID req, j, resp) (nt_responses s)\<rparr>)"
| count: "(i, j, resp) \<in> nt_responses s \<Longrightarrow> K \<le> length (Members m) \<Longrightarrow>
    net_step K N s (set_manager i (outcome_state (handleVoteResponse now m j resp (nt_node s i)) (nt_node s i)) s)"
| heartbeat: "j \<in> N \<Longrightarrow> Election_HandleHeartbeat now hb (nt_node s j) = Returns r em' \<Longrightarrow> net_step K N s (set_manager j em' s)"
| loginfo: "j \<in> N \<Longrightarrow> SetLogInfo idx trm (nt_node s j) = Returns u em' \<Longrightarrow> net_step K N s (set_manager j em' s)"

inductive net_reachable :: "nat \<Rightarrow> string set \<Rightarrow> network \<Rightarrow> bool" for K N where
  init: "(\<And>i. i \<in> N \<Longrightarrow> \<exists>now events options. nt_node s i = NewElectionManager now i events options) \<Longrightarrow>
    nt_requests s = {} \<Longrightarrow> nt_responses s = {} \<Longrightarrow> net_reachable K N s"
| step: "net_reachable K N s \<Longrightarrow> net_step K N s s' \<Longrightarrow> net_reachable K N s'"

text \<open>What a manager has promised: its granted votes are of its term or older, those of its term are for the
  candidate it remembers; a candidate or leader has voted for itself and counts only votes of its term.\<close>

definition node_ok :: "nat \<Rightarrow> (string \<times> string \<times> VoteResponse) set \<Rightarrow> string \<Rightarrow> ElectionManager \<Rightarrow> bool" where
  "node_ok K rs i em \<longleftrightarrow> em_nodeID em = i
     \<and> (\<forall>c r. (c, i, r) \<in> rs \<and> vr_VoteGranted r \<longrightarrow> vr_Term r \<le> em_currentTerm em \<and> (vr_Term r = em_currentTerm em \<longrightarrow> em_votedFor em = c))
     \<and> (em_role em \<noteq> RoleFollower \<longrightarrow> em_votedFor em = i \<and> wf_gomap (em_votesReceived em)
         \<and> (\<forall>k \<in> fst ` set (em_votesReceived em). k = i \<or> (\<exists>r. (i, k, r) \<in> rs \<and> vr_VoteGranted r \<and> vr_Term r = em_currentTerm em)))
     \<and> (em_role em = RoleLeader \<longrightarrow> K div 2 + 1 \<le> length (em_votesReceived em))
     \<and> em_mu em = (em_role em = RoleLeader)"

definition net_inv :: "nat \<Rightarrow> string set \<Rightarrow> network \<Rightarrow> bool" where
  "net_inv K N s \<longleftrightarrow> (\<forall>i \<in> N. node_ok K (nt_responses s) i (nt_node s i))
     \<and> (\<forall>req \<in> nt_requests s. vq_CandidateID req \<in> N)
     \<and> (\<forall>c v r. (c, v, r) \<in> nt_responses s \<longrightarrow> c \<in> N \<and> v \<in> N)
     \<and> (\<forall>c c' v r r'. (c, v, r) \<in> nt_responses s \<and> (c', v, r') \<in> nt_responses s \<and> vr_VoteGranted r \<and> vr_VoteGranted r'
          \<and> vr_Term r = vr_Term r' \<longrightarrow> c = c')"

lemma net_invD:
  assumes "net_inv K N s"
  shows "i \<in> N \<Longrightarrow> node_ok K (nt_responses s) i (nt_node s i)"
    and "req \<in> nt_requests s \<Longrightarrow> vq_CandidateID req \<in> N"
    and "(c, v, r) \<in> nt_responses s \<Longrightarrow> c \<in> N \<and> v \<in> N"
    and "(c, v, r) \<in> nt_responses s \<Longrightarrow> (c', v, r') \<in> nt_responses s \<Longrightarrow> vr_VoteGranted r \<Longrightarrow> vr_VoteGranted r' \<Longrightarrow>
         vr_Term r = vr_Term r' \<Longrightarrow> c = c'"
  using assms unfolding net_inv_def by blast+

lemma net_invI:
  assumes "\<And>i. i \<in> N \<Longrightarrow> node_ok K (nt_responses s) i (nt_node s i)"
    and "\<And>req. req \<in> nt_requests s \<Longrightarrow> vq_CandidateID req \<in> N"
    and "\<And>c v r. (c, v, r) \<in> nt_responses s \<Longrightarrow> c \<in> N \<and> v \<in> N"
    and "\<And>c c' v r r'. (c, v, r) \<in> nt_responses s \<Longrightarrow> (c', v, r') \<in> nt_responses s \<Longrightarrow> vr_VoteGranted r \<Longrightarrow> vr_VoteGranted r' \<Longrightarrow>
         vr_Term r = vr_Term r' \<Longrightarrow> c = c'"
  shows "net_inv K N s"
  using assms unfolding net_inv_def by blast

lemma node_okD_vote:
  "node_ok K rs i em \<Longrightarrow> (c, i, r) \<in> rs \<Longrightarrow> vr_VoteGranted r \<Longrightarrow>
   vr_Term r \<le> em_currentTerm em \<and> (vr_Term r = em_currentTerm em \<longrightarrow> em_votedFor em = c)"
  unfolding node_ok_def by blast

lemma node_okI:
  assumes "em_nodeID em = i"
    and "\<And>c r. (c, i, r) \<in> rs \<Longrightarrow> vr_VoteGranted r \<Longrightarrow> vr_Term r \<le> em_currentTerm em \<and> (vr_Term r = em_currentTerm em \<longrightarrow> em_votedFor em = c)"
    and "em_role em \<noteq> RoleFollower \<Longrightarrow> em_votedFor em = i \<and> wf_gomap (em_votesReceived em)"
    and "\<And>k. em_role em \<noteq> RoleFollower \<Longrightarrow> k \<in> fst ` set (em_votesReceived em) \<Longrightarrow>
         k = i \<or> (\<exists>r. (i, k, r) \<in> rs \<and> vr_VoteGranted r \<and> vr_Term r = em_currentTerm em)"
    and "em_role em = RoleLeader \<Longrightarrow> K div 2 + 1 \<le> length (em_votesReceived em)"
    and "em_mu em = (em_role em = RoleLeader)"
  shows "node_ok K rs i em"
  using assms unfolding node_ok_def by blast

lemma node_okD:
  assumes "node_ok K rs i em"
  shows "em_nodeID em = i" "em_mu em = (em_role em = RoleLeader)"
    and "em_role em \<noteq> RoleFollower \<Longrightarrow> em_votedFor em = i" "em_role em \<noteq> RoleFollower \<Longrightarrow> wf_gomap (em_votesReceived em)"
    and "em_role em \<noteq> RoleFollower \<Longrightarrow> k \<in> fst ` set (em_votesReceived em) \<Longrightarrow>
         k = i \<or> (\<exists>r. (i, k, r) \<in> rs \<and> vr_VoteGranted r \<and> vr_Term r = em_currentTerm em)"
    and "em_role em = RoleLeader \<Longrightarrow> K div 2 + 1 \<le> length (em_votesReceived em)"
  using assms unfolding node_ok_def by blast+

lemma node_ok_mono:
  "node_ok K rs i em \<Longrightarrow> v \<noteq> i \<Longrightarrow> node_ok K (insert (c, v, r) rs) i em"
  unfolding node_ok_def by blast

lemma net_inv_set_manager:
  assumes "net_inv K N s" "i \<in> N \<Longrightarrow> node_ok K (nt_responses s) i em"
  shows "net_inv K N (set_manager i em s)"
  using assms by (auto simp: net_inv_def set_manager_def)

lemma word_less_succ: "(x :: u64) \<noteq> - 1 \<Longrightarrow> x < x + 1"
proof -
  assume "x \<noteq> - 1"
  then have "x + 1 \<noteq> 0" by (metis eq_neg_iff_add_eq_0)
  then have "unat (1 + x) = Suc (unat x)" by (simp add: unatSuc add.commute)
  then show ?thesis by (simp add: word_less_nat_alt add.commute)
qed

lemma net_inv_elect:
  assumes inv: "net_inv K N s" and i: "i \<in> N" "em_currentTerm (nt_node s i) \<noteq> - 1"
    and run: "startElection now m (nt_node s i) = Returns reqs em'"
  shows "net_inv K N ((set_manager i em' s)\<lparr>nt_requests := nt_requests s \<union> snd ` set reqs\<rparr>)"
proof -
  note eff = startElection_effect [OF run]
  have ok: "node_ok K (nt_responses s) i (nt_node s i)" using inv i by (simp add: net_inv_def)
  have lt: "em_currentTerm (nt_node s i) < em_currentTerm em'" using word_less_succ [OF i(2)] by (simp add: eff)
  have "node_ok K (nt_responses s) i em'"
  proof (rule node_okI)
    fix c r assume "(c, i, r) \<in> nt_responses s" "vr_VoteGranted r"
    then have "vr_Term r < em_currentTerm em'" using node_okD_vote [OF ok] lt by (meson le_less_trans)
    then show "vr_Term r \<le> em_currentTerm em' \<and> (vr_Term r = em_currentTerm em' \<longrightarrow> em_votedFor em' = c)" by (auto simp: less_imp_le)
  qed (use eff node_okD(1) [OF ok] in \<open>auto simp: wf_gomap_def\<close>)
  from net_inv_set_manager [OF inv this] show ?thesis
    using i eff(7) ok by (auto simp: net_inv_def set_manager_def node_ok_def)
qed

lemma net_inv_vote:
  assumes inv: "net_inv K N s" and j: "j \<in> N" "req \<in> nt_requests s" and N: "'''' \<notin> N"
    and run: "HandleVoteRequest now req (nt_node s j) = Returns resp em'"
  shows "net_inv K N ((set_manager j em' s)\<lparr>nt_responses := insert (vq_CandidateID req, j, resp) (nt_responses s)\<rparr>)"
proof -
  let ?em = "nt_node s j" and ?c = "vq_CandidateID req"
  let ?rs = "insert (?c, j, resp) (nt_responses s)"
  note eff = HandleVoteRequest_effect [OF run]
  have ok: "node_ok K (nt_responses s) j ?em" and c: "?c \<in> N" using net_invD [OF inv] j by simp_all
  have mu: "\<not> em_mu ?em" using run by (simp add: HandleVoteRequest_def with_lock_Returns)
  have old: "vr_Term r \<le> em_currentTerm em' \<and> (vr_Term r = em_currentTerm em' \<longrightarrow> em_votedFor em' = c \<and> (vr_VoteGranted resp \<longrightarrow> c = ?c))"
    if r: "(c, j, r) \<in> nt_responses s" "vr_VoteGranted r" for c r
  proof -
    have "vr_Term r \<le> em_currentTerm ?em \<and> (vr_Term r = em_currentTerm ?em \<longrightarrow> em_votedFor ?em = c)" and "c \<in> N"
      using node_okD_vote [OF ok r] net_invD(3) [OF inv r(1)] by simp_all
    then show ?thesis using eff N by (auto split: if_splits)
  qed
  have same: "em_role em' \<noteq> RoleFollower \<Longrightarrow> em_currentTerm em' = em_currentTerm ?em \<and> em_role em' = em_role ?em \<and> em_votedFor em' = em_votedFor ?em"
    using eff node_okD(1,3) [OF ok] j N by (auto split: if_splits)
  have "node_ok K ?rs j em'"
  proof (rule node_okI)
    fix c r assume "(c, j, r) \<in> ?rs" "vr_VoteGranted r"
    then show "vr_Term r \<le> em_currentTerm em' \<and> (vr_Term r = em_currentTerm em' \<longrightarrow> em_votedFor em' = c)"
      using old [of c r] eff by (cases "(c, j, r) \<in> nt_responses s") simp_all
  next
    fix k assume k: "em_role em' \<noteq> RoleFollower" "k \<in> fst ` set (em_votesReceived em')"
    then have "k = j \<or> (\<exists>r. (j, k, r) \<in> nt_responses s \<and> vr_VoteGranted r \<and> vr_Term r = em_currentTerm em')"
      using node_okD(5) [OF ok] same eff by simp
    then show "k = j \<or> (\<exists>r. (j, k, r) \<in> ?rs \<and> vr_VoteGranted r \<and> vr_Term r = em_currentTerm em')" by blast
  next
    show "em_mu em' = (em_role em' = RoleLeader)" using same eff mu node_okD(2) [OF ok] by auto
  qed (use same eff node_okD(1,3,4,6) [OF ok] in auto)
  then have nodes: "node_ok K ?rs i (((nt_node s)(j := em')) i)" if "i \<in> N" for i
    using net_invD(1) [OF inv that] node_ok_mono [of K "nt_responses s" i "nt_node s i" j] by auto
  have unique: "c1 = c2" if "(c1, v, r1) \<in> ?rs" "(c2, v, r2) \<in> ?rs" "vr_VoteGranted r1" "vr_VoteGranted r2" "vr_Term r1 = vr_Term r2" for c1 c2 v r1 r2
  proof -
    have "c = ?c" if "(c, j, r) \<in> nt_responses s" "vr_VoteGranted r" "vr_Term r = vr_Term resp" "vr_VoteGranted resp" for c r
      using conjunct2 [OF old [OF that(1,2)]] that(3,4) conjunct1 [OF conjunct2 [OF conjunct2 [OF conjunct2 [OF eff]]]] by simp
    then show ?thesis using that net_invD(4) [OF inv] by (metis insert_iff prod.inject)
  qed
  show ?thesis
  proof (rule net_invI)
    fix c1 c2 v r1 r2
    assume "(c1, v, r1) \<in> nt_responses ((set_manager j em' s)\<lparr>nt_responses := ?rs\<rparr>)" "(c2, v, r2) \<in> nt_responses ((set_manager j em' s)\<lparr>nt_responses := ?rs\<rparr>)"
      "vr_VoteGranted r1" "vr_VoteGranted r2" "vr_Term r1 = vr_Term r2"
    then show "c1 = c2" by (intro unique [of c1 v r1 c2 r2]) simp_all
  qed (use nodes c j net_invD(2,3) [OF inv] in \<open>auto simp: set_manager_def\<close>)
qed

lemma net_inv_count:
  assumes inv: "net_inv K N s" and r: "(i, j, resp) \<in> nt_responses s" and card: "K \<le> length (Members m)"
  shows "net_inv K N (set_manager i (outcome_state (handleVoteResponse now m j resp (nt_node s i)) (nt_node s i)) s)"
proof -
  let ?em = "nt_node s i"
  define em' where "em' = outcome_state (handleVoteResponse now m j resp ?em) ?em"
  have ok: "node_ok K (nt_responses s) i ?em" using net_invD(1,3) [OF inv] r by blast
  have "node_ok K (nt_responses s) i em'"
  proof (cases "em_mu ?em")
    case True
    then show ?thesis using ok by (simp add: em'_def handleVoteResponse_def with_lock_def)
  next
    case False
    have "em_role ?em = RoleCandidate \<Longrightarrow> wf_gomap (recorded_votes j resp ?em)
        \<and> (\<forall>k \<in> fst ` set (recorded_votes j resp ?em). k \<in> fst ` set (em_votesReceived ?em) \<or> k = j \<and> vr_VoteGranted resp)"
      using node_okD(4) [OF ok] dom_update [of j True "em_votesReceived ?em"] by (auto simp: recorded_votes_def)
    moreover have "em' = ?em \<or> em_role ?em = RoleCandidate \<and> vr_Term resp = em_currentTerm ?em
      \<and> em_nodeID em' = em_nodeID ?em \<and> em_currentTerm em' = em_currentTerm ?em \<and> em_votedFor em' = em_votedFor ?em
      \<and> em_votesReceived em' = recorded_votes j resp ?em
      \<and> (if length (Members m) div 2 + 1 \<le> length (em_votesReceived em') then em_role em' = RoleLeader \<and> em_mu em' else em_role em' = RoleCandidate \<and> \<not> em_mu em')"
      using handleVoteResponse_effect [OF False em'_def] .
    ultimately consider "em' = ?em" | "em_role ?em = RoleCandidate" "vr_Term resp = em_currentTerm ?em"
      "em_nodeID em' = em_nodeID ?em" "em_currentTerm em' = em_currentTerm ?em" "em_votedFor em' = em_votedFor ?em"
      "em_votesReceived em' = recorded_votes j resp ?em" "em_mu em' = (em_role em' = RoleLeader)"
      "em_role em' = RoleLeader \<Longrightarrow> length (Members m) div 2 + 1 \<le> length (em_votesReceived em')"
      "wf_gomap (recorded_votes j resp ?em)"
      "\<And>k. k \<in> fst ` set (recorded_votes j resp ?em) \<Longrightarrow> k \<in> fst ` set (em_votesReceived ?em) \<or> k = j \<and> vr_VoteGranted resp"
      by (auto split: if_splits)
    then show ?thesis
    proof cases
      case 2
      show ?thesis
      proof (rule node_okI)
        fix k assume "em_role em' \<noteq> RoleFollower" "k \<in> fst ` set (em_votesReceived em')"
        then show "k = i \<or> (\<exists>r. (i, k, r) \<in> nt_responses s \<and> vr_VoteGranted r \<and> vr_Term r = em_currentTerm em')"
          using 2 r node_okD(5) [OF ok, of k] by auto
      next
        assume "em_role em' = RoleLeader"
        then show "K div 2 + 1 \<le> length (em_votesReceived em')" using 2(8) card by linarith
      qed (use 2 ok node_okD [OF ok] node_okD_vote [OF ok] in auto)
    qed (use ok in simp)
  qed
  then show ?thesis using net_inv_set_manager [OF inv] unfolding em'_def by blast
qed

lemma net_inv_step:
  assumes "net_step K N s s'" "net_inv K N s" "'''' \<notin> N"
  shows "net_inv K N s'"
  using assms
proof (induction rule: net_step.induct)
  case (elect i s now m reqs em')
  then show ?case by (intro net_inv_elect)
next
  case (vote j req s now resp em')
  then show ?case by (intro net_inv_vote)
next
  case (count i j resp s m now)
  then show ?case by (intro net_inv_count)
next
  case (heartbeat j now hb s r em')
  have ok: "node_ok K (nt_responses s) j (nt_node s j)" using net_invD(1) heartbeat by blast
  have mu: "\<not> em_mu (nt_node s j)" using heartbeat.hyps by (simp add: Election_HandleHeartbeat_def with_lock_Returns)
  have "node_ok K (nt_responses s) j em'"
  proof (rule node_okI)
    fix c r assume "(c, j, r) \<in> nt_responses s" "vr_VoteGranted r"
    from node_okD_vote [OF ok this] show "vr_Term r \<le> em_currentTerm em' \<and> (vr_Term r = em_currentTerm em' \<longrightarrow> em_votedFor em' = c)"
      using HandleHeartbeat_effect [OF heartbeat.hyps(2)] by (metis order.antisym order.trans)
  qed (use HandleHeartbeat_effect [OF heartbeat.hyps(2)] node_okD [OF ok] mu in auto)
  then show ?case using heartbeat.prems by (intro net_inv_set_manager)
next
  case (loginfo j idx trm s u em')
  have "node_ok K (nt_responses s) j (nt_node s j)" using net_invD(1) loginfo by blast
  then have "node_ok K (nt_responses s) j em'"
    using loginfo.hyps(2) by (auto simp: SetLogInfo_def with_lock_Returns node_ok_def)
  then show ?case using loginfo.prems by (intro net_inv_set_manager)
qed

lemma net_inv_reachable: "net_reachable K N s \<Longrightarrow> '''' \<notin> N \<Longrightarrow> net_inv K N s"
proof (induction rule: net_reachable.induct)
  case (init s)
  have "node_ok K {} i (nt_node s i)" if "i \<in> N" for i
    using init(1) [OF that] by (auto simp: node_ok_def NewElectionManager_def)
  then show ?case using init(2,3) by (simp add: net_inv_def)
qed (rule net_inv_step)

text \<open>A leader's votes come from nodes of the network, one each, and are at least the votes that its shortest member list asks for.\<close>

abbreviation voters :: "network \<Rightarrow> string \<Rightarrow> string set" where
  "voters s i \<equiv> fst ` set (em_votesReceived (nt_node s i))"

lemma leader_voters:
  assumes "net_inv K N s" "i \<in> N" "em_role (nt_node s i) = RoleLeader"
  shows "voters s i \<subseteq> N" "K div 2 + 1 \<le> card (voters s i)"
proof -
  have ok: "node_ok K (nt_responses s) i (nt_node s i)" using net_invD(1) [OF assms(1,2)] .
  show "voters s i \<subseteq> N"
    using node_okD(5) [OF ok] assms(2,3) net_invD(3) [OF assms(1)] by fastforce
  have "card (voters s i) = length (em_votesReceived (nt_node s i))"
    using node_okD(4) [OF ok] assms(3) by (simp add: wf_gomap_def card_set [symmetric] distinct_card flip: set_map)
  then show "K div 2 + 1 \<le> card (voters s i)" using node_okD(6) [OF ok assms(3)] by linarith
qed

text \<open>A voter that two leaders of a term have in common makes them the same node.\<close>

lemma leaders_share_no_voter:
  assumes inv: "net_inv K N s" and ij: "i \<in> N" "j \<in> N"
    and lead: "em_role (nt_node s i) = RoleLeader" "em_role (nt_node s j) = RoleLeader"
    and terms: "em_currentTerm (nt_node s i) = em_currentTerm (nt_node s j)"
    and k: "k \<in> voters s i" "k \<in> voters s j"
  shows "i = j"
proof -
  have ok: "node_ok K (nt_responses s) i (nt_node s i)" "node_ok K (nt_responses s) j (nt_node s j)"
    using net_invD(1) [OF inv] ij by blast+
  have votes: "k = i \<or> (\<exists>r. (i, k, r) \<in> nt_responses s \<and> vr_VoteGranted r \<and> vr_Term r = em_currentTerm (nt_node s i))"
    "k = j \<or> (\<exists>r. (j, k, r) \<in> nt_responses s \<and> vr_VoteGranted r \<and> vr_Term r = em_currentTerm (nt_node s j))"
    using node_okD(5) [OF ok(1)] node_okD(5) [OF ok(2)] k lead by auto
  have own: "em_votedFor (nt_node s i) = i" "em_votedFor (nt_node s j) = j" using node_okD(3) ok lead by auto
  show ?thesis
    using votes own terms node_okD_vote [OF ok(1)] node_okD_vote [OF ok(2)] net_invD(4) [OF inv] by metis
qed

lemma disjoint_quorums:
  assumes "finite N" "A \<subseteq> N" "B \<subseteq> N" "q \<le> card A" "q \<le> card B" "A \<inter> B = {}"
  shows "2 * q \<le> card N"
proof -
  have "card A + card B = card (A \<union> B)" using assms by (metis card_Un_disjoint finite_subset)
  also have "\<dots> \<le> card N" using assms by (simp add: card_mono)
  finally show ?thesis using assms by linarith
qed


text \<open>Three nodes of which a stands for election and b votes for it.\<close>

definition three_members :: Membership where
  "three_members = AddMember 0 ''c'' ''c:1'' None (AddMember 0 ''b'' ''b:1'' None
     (snd (Membership_Start 0 (NewMembership ''a'' ''a:1'' None DefaultNodeConfig))))"

definition fresh_manager :: "string \<Rightarrow> ElectionManager" where
  "fresh_manager i = NewElectionManager 0 i (NewEventPublisher 0) []"

definition net0 :: network where
  "net0 = \<lparr>nt_node = fresh_manager, nt_requests = {}, nt_responses = {}\<rparr>"

definition candidate_a :: ElectionManager where
  "candidate_a = outcome_state (startElection 1 three_members (fresh_manager ''a'')) (fresh_manager ''a'')"

definition request_a :: VoteRequest where
  "request_a = \<lparr>vq_Term = 1, vq_CandidateID = ''a'', vq_LastLogIndex = 0, vq_LastLogTerm = 0, vq_Priority = 1\<rparr>"

definition voter_b :: ElectionManager where
  "voter_b = outcome_state (HandleVoteRequest 2 request_a (fresh_manager ''b'')) (fresh_manager ''b'')"

definition grant_b :: VoteResponse where
  "grant_b = \<lparr>vr_Term = 1, vr_VoteGranted = True, vr_VotedFor = ''a''\<rparr>"

lemmas election_eval = startElection_def HandleVoteRequest_def with_lock_def fresh_manager_def NewElectionManager_def
  resetElectionTimer_def publishRoleChangeEvent_def Let_def request_a_def grant_b_def

lemma three_members_eval: "length (Members three_members) = 3" "election_targets ''a'' three_members = [''b:1'', ''c:1'']"
  by (simp_all add: three_members_def AddMember_def Membership_Start_def NewMembership_def addLocalNode_def publish_def
      Members_def election_targets_def GetNodeAddr_def)

lemma elect_a: "startElection 1 three_members (fresh_manager ''a'') = Returns [(''b:1'', request_a), (''c:1'', request_a)] candidate_a"
  unfolding candidate_a_def by (simp add: election_eval three_members_eval DefaultElectionConfig_def)

lemma vote_b: "HandleVoteRequest 2 request_a (fresh_manager ''b'') = Returns grant_b voter_b"
  unfolding voter_b_def by (simp add: election_eval)

definition net_elected :: network where
  "net_elected = set_manager ''a'' (outcome_state (handleVoteResponse 3 three_members ''b'' grant_b candidate_a) candidate_a)
     \<lparr>nt_node = fresh_manager(''a'' := candidate_a, ''b'' := voter_b), nt_requests = {request_a}, nt_responses = {(''a'', ''b'', grant_b)}\<rparr>"

lemma net_elected_reachable: "net_reachable 3 {''a'', ''b'', ''c''} net_elected"
proof -
  let ?N = "{''a'', ''b'', ''c''}"
  let ?s1 = "\<lparr>nt_node = fresh_manager(''a'' := candidate_a), nt_requests = {request_a}, nt_responses = {}\<rparr>"
  let ?s2 = "\<lparr>nt_node = fresh_manager(''a'' := candidate_a, ''b'' := voter_b), nt_requests = {request_a}, nt_responses = {(''a'', ''b'', grant_b)}\<rparr>"
  have 0: "net_reachable 3 ?N net0" by (rule net_reachable.init) (auto simp: net0_def fresh_manager_def)
  have "net_step 3 ?N net0 ?s1"
    using net_step.elect [of "''a''" ?N net0 1 three_members _ candidate_a 3] elect_a
    by (simp add: net0_def set_manager_def) (simp add: fresh_manager_def NewElectionManager_def)
  moreover have "net_step 3 ?N ?s1 ?s2"
    using net_step.vote [of "''b''" ?N request_a ?s1 2 grant_b voter_b 3] vote_b by (simp add: set_manager_def request_a_def)
  moreover have "net_step 3 ?N ?s2 net_elected"
    using net_step.count [of "''a''" "''b''" grant_b ?s2 3 three_members ?N 3] three_members_eval by (simp add: net_elected_def)
  ultimately show ?thesis using 0 by (meson net_reachable.step)
qed

lemma net_elected_leader: "em_role (nt_node net_elected ''a'') = RoleLeader"
  by (simp add: net_elected_def set_manager_def handleVoteResponse_def candidate_a_def election_eval three_members_eval
      becomeLeader_def startHeartbeat_def publishLeaderElectedEvent_def)


text \<open>With a member list shorter than the network the count is no majority: in a network of four, a knows of b and c, and c knows
  of b and d. Each asks for two votes, b votes for a, d votes for c, and both are leader in term 1.\<close>

definition members_of_c :: Membership where
  "members_of_c = AddMember 0 ''d'' ''d:1'' None (AddMember 0 ''b'' ''b:1'' None
     (snd (Membership_Start 0 (NewMembership ''c'' ''c:1'' None DefaultNodeConfig))))"

definition request_c :: VoteRequest where
  "request_c = \<lparr>vq_Term = 1, vq_CandidateID = ''c'', vq_LastLogIndex = 0, vq_LastLogTerm = 0, vq_Priority = 1\<rparr>"

definition grant_d :: VoteResponse where
  "grant_d = \<lparr>vr_Term = 1, vr_VoteGranted = True, vr_VotedFor = ''c''\<rparr>"

definition candidate_c :: ElectionManager where
  "candidate_c = outcome_state (startElection 1 members_of_c (fresh_manager ''c'')) (fresh_manager ''c'')"

definition voter_d :: ElectionManager where
  "voter_d = outcome_state (HandleVoteRequest 2 request_c (fresh_manager ''d'')) (fresh_manager ''d'')"

lemma members_of_c_eval: "length (Members members_of_c) = 3" "election_targets ''c'' members_of_c = [''b:1'', ''d:1'']"
  by (simp_all add: members_of_c_def AddMember_def Membership_Start_def NewMembership_def addLocalNode_def publish_def
      Members_def election_targets_def GetNodeAddr_def)

lemma elect_c: "startElection 1 members_of_c (fresh_manager ''c'') = Returns [(''b:1'', request_c), (''d:1'', request_c)] candidate_c"
  unfolding candidate_c_def by (simp add: election_eval members_of_c_eval DefaultElectionConfig_def request_c_def)

lemma vote_d: "HandleVoteRequest 2 request_c (fresh_manager ''d'') = Returns grant_d voter_d"
  unfolding voter_d_def by (simp add: election_eval request_c_def grant_d_def)

lemma wins:
  "em_role (outcome_state (handleVoteResponse 3 three_members ''b'' grant_b candidate_a) candidate_a) = RoleLeader"
  "em_currentTerm (outcome_state (handleVoteResponse 3 three_members ''b'' grant_b candidate_a) candidate_a) = 1"
  "em_role (outcome_state (handleVoteResponse 3 members_of_c ''d'' grant_d candidate_c) candidate_c) = RoleLeader"
  "em_currentTerm (outcome_state (handleVoteResponse 3 members_of_c ''d'' grant_d candidate_c) candidate_c) = 1"
  by (simp_all add: handleVoteResponse_def candidate_a_def candidate_c_def election_eval three_members_eval members_of_c_eval
      becomeLeader_def startHeartbeat_def publishLeaderElectedEvent_def grant_d_def)

theorem short_lists_two_leaders:
  "\<exists>s. net_reachable 3 {''a'', ''b'', ''c'', ''d''} s \<and> em_role (nt_node s ''a'') = RoleLeader \<and> em_role (nt_node s ''c'') = RoleLeader
     \<and> em_currentTerm (nt_node s ''a'') = em_currentTerm (nt_node s ''c'')"
proof -
  let ?N = "{''a'', ''b'', ''c'', ''d''}"
  let ?la = "outcome_state (handleVoteResponse 3 three_members ''b'' grant_b candidate_a) candidate_a"
  let ?lc = "outcome_state (handleVoteResponse 3 members_of_c ''d'' grant_d candidate_c) candidate_c"
  let ?f2 = "fresh_manager(''a'' := candidate_a, ''c'' := candidate_c)"
  let ?s1 = "\<lparr>nt_node = fresh_manager(''a'' := candidate_a), nt_requests = {request_a}, nt_responses = {}\<rparr>"
  let ?s2 = "\<lparr>nt_node = ?f2, nt_requests = {request_a, request_c}, nt_responses = {}\<rparr>"
  let ?s3 = "\<lparr>nt_node = ?f2(''b'' := voter_b), nt_requests = {request_a, request_c}, nt_responses = {(''a'', ''b'', grant_b)}\<rparr>"
  let ?s4 = "\<lparr>nt_node = ?f2(''b'' := voter_b, ''d'' := voter_d), nt_requests = {request_a, request_c},
    nt_responses = {(''c'', ''d'', grant_d), (''a'', ''b'', grant_b)}\<rparr>"
  let ?s5 = "set_manager ''a'' ?la ?s4" and ?s6 = "set_manager ''c'' ?lc (set_manager ''a'' ?la ?s4)"
  have term0: "em_currentTerm (fresh_manager i) \<noteq> - 1" for i by (simp add: fresh_manager_def NewElectionManager_def)
  have 0: "net_reachable 3 ?N net0" by (rule net_reachable.init) (auto simp: net0_def fresh_manager_def)
  have "net_step 3 ?N net0 ?s1"
    using net_step.elect [of "''a''" ?N net0 1 three_members _ candidate_a 3] elect_a term0 by (simp add: net0_def set_manager_def)
  from net_reachable.step [OF 0 this] have 1: "net_reachable 3 ?N ?s1" .
  have "net_step 3 ?N ?s1 ?s2"
    using net_step.elect [of "''c''" ?N ?s1 1 members_of_c _ candidate_c 3] elect_c term0 by (simp add: set_manager_def insert_commute)
  from net_reachable.step [OF 1 this] have 2: "net_reachable 3 ?N ?s2" .
  have "net_step 3 ?N ?s2 ?s3"
    using net_step.vote [of "''b''" ?N request_a ?s2 2 grant_b voter_b 3] vote_b by (simp add: set_manager_def request_a_def)
  from net_reachable.step [OF 2 this] have 3: "net_reachable 3 ?N ?s3" .
  have "net_step 3 ?N ?s3 ?s4"
    using net_step.vote [of "''d''" ?N request_c ?s3 2 grant_d voter_d 3] vote_d by (simp add: set_manager_def request_c_def)
  from net_reachable.step [OF 3 this] have 4: "net_reachable 3 ?N ?s4" .
  have "net_step 3 ?N ?s4 ?s5"
    using net_step.count [of "''a''" "''b''" grant_b ?s4 3 three_members ?N 3] three_members_eval by simp
  from net_reachable.step [OF 4 this] have 5: "net_reachable 3 ?N ?s5" .
  have "net_step 3 ?N ?s5 ?s6"
    using net_step.count [of "''c''" "''d''" grant_d ?s5 3 members_of_c ?N 3] members_of_c_eval by (simp add: set_manager_def)
  from net_reachable.step [OF 5 this] show ?thesis by (intro exI [of _ ?s6]) (simp add: set_manager_def wins)
qed

text \<open>The event of a new leader that the manager publishes.\<close>

definition replication_event :: "EventType \<Rightarrow> ReplicationEventType \<Rightarrow> instant \<Rightarrow> ElectionManager \<Rightarrow> ClusterEvent" where
  "replication_event ctype rtype now em = \<lparr>ce_Type = ctype, ce_NodeID = em_nodeID em, ce_Time = now,
     ce_Details = DReplication \<lparr>ev_Type = rtype, ev_NodeID = em_nodeID em, ev_Role = RoleLeader, ev_Term = em_currentTerm em, ev_Timestamp = now\<rparr>\<rparr>"

lemma operations_block:
  assumes "em_mu em"
  shows "Election_Start em = Blocked em" "Election_Stop em = Blocked em" "startElection now m em = Blocked em"
    "electionLoop_fire now m em = Blocked em" "heartbeat_fire m em = Blocked em" "handleVoteResponse now m voterID resp em = Blocked em"
    "HandleVoteRequest now req em = Blocked em" "Election_HandleHeartbeat now hb em = Blocked em" "Election_GetRole em = Blocked em"
    "Election_GetLeader em = Blocked em" "Election_GetTerm em = Blocked em" "SetLogInfo lastIndex lastTerm em = Blocked em"
  using assms by (simp_all add: Election_Start_def Election_Stop_def startElection_def electionLoop_fire_def heartbeat_fire_def
      handleVoteResponse_def HandleVoteRequest_def Election_HandleHeartbeat_def Election_GetRole_def Election_GetLeader_def
      Election_GetTerm_def SetLogInfo_def with_lock_def)

text \<open>C27. A candidate that wins an election never leads: handling the winning vote makes the manager leader, stops its election
  timer and publishes the role change and then the elected leader, and then waits for ever for the mutex that the handler itself holds, so
  that no heartbeat timer is ever started; from then on every operation of the manager, the handling of further votes and the firing of
  both timers included, waits for the mutex too.\<close>

theorem election_winner_blocks:
  assumes "\<not> em_mu em" "em_role em = RoleCandidate" "vr_Term resp = em_currentTerm em"
    and "length (Members m) div 2 + 1 \<le> length (recorded_votes voterID resp em)"
  shows "\<exists>em'. handleVoteResponse now m voterID resp em = Blocked em' \<and> em_role em' = RoleLeader
     \<and> em_currentLeader em' = em_nodeID em \<and> em_currentTerm em' = em_currentTerm em
     \<and> em_heartbeatTimer em' = em_heartbeatTimer em \<and> em_electionTimer em' = timer_stop (em_electionTimer em)
     \<and> em_events em' = Publisher_Publish (replication_event ClusterEventLeaderElected EventLeaderElected now em)
          (Publisher_Publish (replication_event ClusterEventRoleChange EventRoleChange now em) (em_events em))
     \<and> Election_Start em' = Blocked em' \<and> Election_Stop em' = Blocked em' \<and> startElection now' m' em' = Blocked em'
     \<and> electionLoop_fire now' m' em' = Blocked em' \<and> heartbeat_fire m' em' = Blocked em'
     \<and> handleVoteResponse now' m' voterID' resp' em' = Blocked em' \<and> HandleVoteRequest now' req em' = Blocked em'
     \<and> Election_HandleHeartbeat now' hb em' = Blocked em' \<and> Election_GetRole em' = Blocked em' \<and> Election_GetLeader em' = Blocked em'
     \<and> Election_GetTerm em' = Blocked em' \<and> SetLogInfo lastIndex lastTerm em' = Blocked em'"
proof -
  let ?em1 = "em\<lparr>em_mu := True, em_votesReceived := recorded_votes voterID resp em\<rparr>"
  have run: "handleVoteResponse now m voterID resp em =
      (case becomeLeader now ?em1 of Returns r em' \<Rightarrow> Returns r (em'\<lparr>em_mu := False\<rparr>) | Blocked em' \<Rightarrow> Blocked em' | Panicked \<Rightarrow> Panicked)"
    using assms by (auto simp: handleVoteResponse_def with_lock_def Let_def recorded_votes_def)
  define em' where "em' = (publishLeaderElectedEvent now (publishRoleChangeEvent now RoleLeader (?em1\<lparr>em_role := RoleLeader, em_currentLeader := em_nodeID em\<rparr>)))
      \<lparr>em_electionTimer := timer_stop (em_electionTimer em)\<rparr>"
  have "becomeLeader now ?em1 = Blocked em'"
    using assms(2) by (simp add: becomeLeader_def startHeartbeat_def with_lock_def Let_def em'_def publishLeaderElectedEvent_def publishRoleChangeEvent_def)
  moreover have mu: "em_mu em'" and "em_role em' = RoleLeader" "em_currentLeader em' = em_nodeID em" "em_heartbeatTimer em' = em_heartbeatTimer em"
    "em_currentTerm em' = em_currentTerm em" "em_electionTimer em' = timer_stop (em_electionTimer em)"
    "em_events em' = Publisher_Publish (replication_event ClusterEventLeaderElected EventLeaderElected now em)
       (Publisher_Publish (replication_event ClusterEventRoleChange EventRoleChange now em) (em_events em))"
    by (simp_all add: em'_def publishLeaderElectedEvent_def publishRoleChangeEvent_def Let_def replication_event_def)
  ultimately show ?thesis
    by (intro exI [of _ em']) (simp add: run operations_block)
qed

theorem election_winner_blocks_witness:
  "\<exists>em'. handleVoteResponse 3 three_members ''b'' grant_b candidate_a = Blocked em' \<and> Election_GetRole em' = Blocked em'"
proof -
  have "\<not> em_mu candidate_a" "em_role candidate_a = RoleCandidate" "vr_Term grant_b = em_currentTerm candidate_a"
    "length (Members three_members) div 2 + 1 \<le> length (recorded_votes ''b'' grant_b candidate_a)"
    by (simp_all add: candidate_a_def election_eval three_members_eval recorded_votes_def)
  from election_winner_blocks [OF this] show ?thesis by blast
qed

end
