(* ===== verification/ClusterSync.thy ===== *)
theory ClusterSync
  imports Membership MemCache "HOL-Library.Multiset"
begin

text \<open>
  Data synchronisation between the nodes of a cluster (\<^verbatim>\<open>src/cache/cluster/sync.go\<close>, the payloads of
  \<^verbatim>\<open>src/cache/cluster/protocol.go\<close>). The local cache is the \<open>Cache\<close> interface, of which \<open>get\<close> and \<open>put\<close>
  are arguments; its values are byte slices or others. The transport is an argument \<open>send\<close> that gives the reply
  to a request. The tasks of one round run one after another. A call that does not return is \<open>None\<close>.
\<close>

section \<open>Data\<close>

record KeyRange =
  kr_Start :: string
  kr_End :: string

record syncTask =
  tk_targetNode :: string
  tk_keyRange :: KeyRange
  tk_priority :: int

record SyncRequestPayload =
  sq_FromNodeID :: string
  sq_StartKey :: string
  sq_EndKey :: string
  sq_MaxItems :: int

record SyncItem =
  si_Key :: string
  si_Value :: string
  si_Expiration :: duration

record SyncResponsePayload =
  sp_FromNodeID :: string
  sp_Items :: "SyncItem list"
  sp_HasMore :: bool
  sp_NextKey :: string

record SyncManager =
  sm_nodeID :: string
  sm_interval :: duration
  sm_concurrency :: int
  sm_queue :: "syncTask list"
  sm_processing :: "string list"
  sm_stopClosed :: bool
  sm_running :: bool
  sm_maxItems :: int

type_synonym SyncManagerOption = "SyncManager \<Rightarrow> SyncManager"

definition WithSyncerInterval :: "duration \<Rightarrow> SyncManagerOption" where
  "WithSyncerInterval interval s = (if interval > 0 then s\<lparr>sm_interval := interval\<rparr> else s)"

definition WithSyncerConcurrency :: "int \<Rightarrow> SyncManagerOption" where
  "WithSyncerConcurrency concurrency s = (if concurrency > 0 then s\<lparr>sm_concurrency := concurrency\<rparr> else s)"

definition WithMaxSyncItems :: "int \<Rightarrow> SyncManagerOption" where
  "WithMaxSyncItems maxItems s = (if maxItems > 0 then s\<lparr>sm_maxItems := maxItems\<rparr> else s)"

definition NewSyncManager :: "string \<Rightarrow> SyncManagerOption list \<Rightarrow> SyncManager" where
  "NewSyncManager nodeID options = fold (\<lambda>option. option) options
     \<lparr>sm_nodeID = nodeID, sm_interval = 60 * 10 ^ 9, sm_concurrency = 5, sm_queue = [], sm_processing = [],
      sm_stopClosed = False, sm_running = False, sm_maxItems = 100\<rparr>"

definition SyncManager_Start :: "SyncManager \<Rightarrow> (gerror + unit) \<times> SyncManager" where
  "SyncManager_Start sm = (if sm_running sm then (Inr (), sm) else (Inr (), sm\<lparr>sm_running := True\<rparr>))"

definition SyncManager_Stop :: "SyncManager \<Rightarrow> (gerror + unit) \<times> SyncManager" where
  "SyncManager_Stop sm = (if \<not> sm_running sm then (Inr (), sm) else (Inr (), sm\<lparr>sm_stopClosed := True, sm_running := False\<rparr>))"

section \<open>The queue\<close>

text \<open>The loop that moves the task at \<open>i\<close> before the tasks of lower priority.\<close>

fun bubble :: "nat \<Rightarrow> syncTask list \<Rightarrow> syncTask list" where
  "bubble 0 q = q"
| "bubble (Suc i) q =
     (if tk_priority (q ! Suc i) > tk_priority (q ! i) then bubble i (q[Suc i := q ! i, i := q ! Suc i]) else q)"

definition QueueSyncTask :: "string \<Rightarrow> KeyRange \<Rightarrow> int \<Rightarrow> SyncManager \<Rightarrow> SyncManager" where
  "QueueSyncTask targetNode keyRange priority sm =
     (let q = sm_queue sm @ [\<lparr>tk_targetNode = targetNode, tk_keyRange = keyRange, tk_priority = priority\<rparr>] in
      sm\<lparr>sm_queue := (if length q > 1 then bubble (length q - 1) q else q)\<rparr>)"

definition TriggerSync :: "string \<Rightarrow> SyncManager \<Rightarrow> SyncManager" where
  "TriggerSync targetNode sm = QueueSyncTask targetNode \<lparr>kr_Start = '''', kr_End = ''''\<rparr> 2 sm"

text \<open>\<open>draw i\<close> is the number below \<open>i + 1\<close> that the generator returns at \<open>i\<close>.\<close>

fun shuffle :: "(nat \<Rightarrow> nat) \<Rightarrow> nat \<Rightarrow> string list \<Rightarrow> string list" where
  "shuffle draw 0 xs = xs"
| "shuffle draw (Suc i) xs = shuffle draw i (xs[Suc i := xs ! draw (Suc i), draw (Suc i) := xs ! Suc i])"

definition TriggerFullSync :: "(nat \<Rightarrow> nat) \<Rightarrow> string list \<Rightarrow> SyncManager \<Rightarrow> SyncManager" where
  "TriggerFullSync draw nodes sm =
     fold (\<lambda>node sm. if node \<noteq> sm_nodeID sm then QueueSyncTask node \<lparr>kr_Start = '''', kr_End = ''''\<rparr> 1 sm else sm)
       (shuffle draw (length nodes - 1) nodes) sm"

section \<open>Pulling the data of a node\<close>

text \<open>What \<open>Send\<close> gives back: an error, a message of another type, a payload that is no JSON, or a response.\<close>

datatype sync_reply = SendError | WrongType | BadPayload | SyncReply SyncResponsePayload

fun apply_items :: "('c, 'a anyval) cache_put \<Rightarrow> instant \<Rightarrow> SyncItem list \<Rightarrow> 'c \<Rightarrow> (int \<times> 'c) option" where
  "apply_items put now [] c = Some (0, c)"
| "apply_items put now (item # items) c = do {
     (r, c) \<leftarrow> put now (si_Key item) (AnyBytes (si_Value item)) (si_Expiration item) c;
     (n, c) \<leftarrow> apply_items put now items c;
     Some (case r of Inl _ \<Rightarrow> n | Inr _ \<Rightarrow> n + 1, c) }"

definition syncToNode :: "('c, 'a anyval) cache_put \<Rightarrow> (string \<Rightarrow> SyncRequestPayload \<Rightarrow> sync_reply) \<Rightarrow> instant \<Rightarrow> string \<Rightarrow> KeyRange
    \<Rightarrow> SyncManager \<times> 'c \<times> EventPublisher option \<Rightarrow> (SyncManager \<times> 'c \<times> EventPublisher option) option" where
  "syncToNode put send now targetNode keyRange s = do {
     let (sm, c, events) = s;
     let taskKey = targetNode @ ''-'' @ kr_Start keyRange @ ''-'' @ kr_End keyRange;
     if taskKey \<in> set (sm_processing sm) then Some (sm, c, events)
     else do {
       let sm = sm\<lparr>sm_processing := taskKey # sm_processing sm\<rparr>;
       let done = (\<lambda>sm. sm\<lparr>sm_processing := removeAll taskKey (sm_processing sm)\<rparr>);
       let syncReq = \<lparr>sq_FromNodeID = sm_nodeID sm, sq_StartKey = kr_Start keyRange, sq_EndKey = kr_End keyRange, sq_MaxItems = sm_maxItems sm\<rparr>;
       (case send targetNode syncReq of
          SyncReply syncResp \<Rightarrow> do {
            (appliedItems, c) \<leftarrow> apply_items put now (sp_Items syncResp) c;
            let sm = (if sp_HasMore syncResp \<and> sp_NextKey syncResp \<noteq> ''''
                      then QueueSyncTask targetNode \<lparr>kr_Start = sp_NextKey syncResp, kr_End = kr_End keyRange\<rparr> 1 sm else sm);
            Some (done sm, c, map_option (Publisher_Publish (NewSyncCompletedEvent now targetNode appliedItems)) events) }
        | _ \<Rightarrow> Some (done sm, c, events)) } }"

fun run_tasks :: "('c, 'a anyval) cache_put \<Rightarrow> (string \<Rightarrow> SyncRequestPayload \<Rightarrow> sync_reply) \<Rightarrow> instant \<Rightarrow> syncTask list
    \<Rightarrow> SyncManager \<times> 'c \<times> EventPublisher option \<Rightarrow> (SyncManager \<times> 'c \<times> EventPublisher option) option" where
  "run_tasks put send now [] s = Some s"
| "run_tasks put send now (t # ts) s = do {
     s \<leftarrow> syncToNode put send now (tk_targetNode t) (tk_keyRange t) s;
     run_tasks put send now ts s }"

definition processSyncTasks :: "('c, 'a anyval) cache_put \<Rightarrow> (string \<Rightarrow> SyncRequestPayload \<Rightarrow> sync_reply) \<Rightarrow> instant
    \<Rightarrow> SyncManager \<times> 'c \<times> EventPublisher option \<Rightarrow> (SyncManager \<times> 'c \<times> EventPublisher option) option" where
  "processSyncTasks put send now s = do {
     let (sm, c, events) = s;
     if sm_queue sm = [] then Some (sm, c, events)
     else do {
       let taskCount = (if sm_concurrency sm > int (length (sm_queue sm)) then length (sm_queue sm) else nat (sm_concurrency sm));
       run_tasks put send now (take taskCount (sm_queue sm)) (sm\<lparr>sm_queue := drop taskCount (sm_queue sm)\<rparr>, c, events) } }"

section \<open>Answering a request\<close>

fun collect_items :: "('c, 'a anyval) cache_get \<Rightarrow> instant \<Rightarrow> SyncRequestPayload \<Rightarrow> string list \<Rightarrow> SyncItem list \<Rightarrow> 'c
    \<Rightarrow> ((SyncItem list \<times> bool \<times> string) \<times> 'c) option" where
  "collect_items get now req [] items c = Some ((items, False, ''''), c)"
| "collect_items get now req (key # keys) items c =
     (if (sq_StartKey req = '''' \<or> key \<ge> sq_StartKey req) \<and> (sq_EndKey req = '''' \<or> key < sq_EndKey req) then do {
        (value, c) \<leftarrow> get now key c;
        (case value of
           Inr (AnyBytes valueBytes) \<Rightarrow> do {
             let items = items @ [\<lparr>si_Key = key, si_Value = valueBytes, si_Expiration = 300 * 10 ^ 9\<rparr>];
             if sq_MaxItems req > 0 \<and> int (length items) \<ge> sq_MaxItems req then Some ((items, True, key), c)
             else collect_items get now req keys items c }
         | _ \<Rightarrow> collect_items get now req keys items c) }
      else collect_items get now req keys items c)"

definition sync_keys :: "string list" where
  "sync_keys = [''key1'', ''key2'', ''key3'']"

text \<open>A request with a negative number of items panics, where the slice of items is made.\<close>

definition Cluster_HandleSyncRequest :: "('c, 'a anyval) cache_get \<Rightarrow> instant \<Rightarrow> SyncRequestPayload option \<Rightarrow> SyncManager \<Rightarrow> 'c
    \<Rightarrow> ((gerror + SyncResponsePayload) \<times> 'c) option" where
  "Cluster_HandleSyncRequest get now payload sm c =
     (case payload of
        None \<Rightarrow> Some (Inl (Errorf ''failed to unmarshal sync request: %w''), c)
      | Some req \<Rightarrow>
          if sq_MaxItems req < 0 then None
          else do {
            ((items, hasMore, nextKey), c) \<leftarrow> collect_items get now req sync_keys [] c;
            Some (Inr \<lparr>sp_FromNodeID = sm_nodeID sm, sp_Items = items, sp_HasMore = hasMore, sp_NextKey = nextKey\<rparr>, c) })"

section \<open>The queue is a stable sort\<close>

text \<open>The task that is appended moves before the tasks of lower priority, so that the queue holds the tasks in
  order of priority and, for the same priority, in the order in which they were queued.\<close>

lemma bubble_insert:
  "sorted_wrt (\<lambda>s t. tk_priority s \<ge> tk_priority t) q \<Longrightarrow>
   bubble (length q) (q @ t # r) = filter (\<lambda>s. tk_priority s \<ge> tk_priority t) q @ t # filter (\<lambda>s. tk_priority s < tk_priority t) q @ r"
proof (induction q arbitrary: r rule: rev_induct)
  case (snoc s q)
  show ?case
  proof (cases "tk_priority t > tk_priority s")
    case True
    have "bubble (length (q @ [s])) ((q @ [s]) @ t # r) = bubble (length q) (q @ t # s # r)"
      using True by (simp add: nth_append list_update_append)
    then show ?thesis using snoc True by (simp add: sorted_wrt_append)
  next
    case False
    then have "\<forall>s' \<in> set q. tk_priority s' \<ge> tk_priority t" using snoc.prems by (auto simp: sorted_wrt_append)
    then have "filter (\<lambda>s. tk_priority s \<ge> tk_priority t) q = q" "filter (\<lambda>s. tk_priority s < tk_priority t) q = []"
      by (auto simp: filter_empty_conv not_less)
    then show ?thesis using False by (simp add: nth_append)
  qed
qed simp

lemma mset_bubble: "i < length q \<Longrightarrow> mset (bubble i q) = mset q"
proof (induction i q rule: bubble.induct)
  case (2 i q)
  have "mset (q[Suc i := q ! i, i := q ! Suc i]) = mset q" using 2 by (simp add: mset_swap)
  then show ?case using 2 by simp
qed simp

lemma mset_QueueSyncTask:
  "mset (sm_queue (QueueSyncTask target r p sm)) =
   add_mset \<lparr>tk_targetNode = target, tk_keyRange = r, tk_priority = p\<rparr> (mset (sm_queue sm))"
  by (simp add: QueueSyncTask_def Let_def mset_bubble)

definition queue_task :: "syncTask \<Rightarrow> SyncManager \<Rightarrow> SyncManager" where
  "queue_task t = QueueSyncTask (tk_targetNode t) (tk_keyRange t) (tk_priority t)"

lemma queue_task_queue:
  assumes "sorted_wrt (\<lambda>s t. tk_priority s \<ge> tk_priority t) (sm_queue sm)"
  shows "sm_queue (queue_task t sm) =
    filter (\<lambda>s. tk_priority s \<ge> tk_priority t) (sm_queue sm) @ t # filter (\<lambda>s. tk_priority s < tk_priority t) (sm_queue sm)"
  using bubble_insert [OF assms, of t "[]"] by (cases t) (auto simp: queue_task_def QueueSyncTask_def Let_def)

lemma queue_sorted_step:
  assumes "sorted_wrt (\<lambda>s t. tk_priority s \<ge> tk_priority t) q"
  shows "sorted_wrt (\<lambda>s t. tk_priority s \<ge> tk_priority t) (filter (\<lambda>s. tk_priority s \<ge> p) q @ filter (\<lambda>s. tk_priority s < p) q)"
    and "filter (\<lambda>s. tk_priority s = k) (filter (\<lambda>s. tk_priority s \<ge> p) q @ filter (\<lambda>s. tk_priority s < p) q) = filter (\<lambda>s. tk_priority s = k) q"
proof -
  show "sorted_wrt (\<lambda>s t. tk_priority s \<ge> tk_priority t) (filter (\<lambda>s. tk_priority s \<ge> p) q @ filter (\<lambda>s. tk_priority s < p) q)"
    using assms by (auto simp: sorted_wrt_append sorted_wrt_filter)
  have "filter (\<lambda>s. tk_priority s = k) (filter (\<lambda>s. tk_priority s \<ge> p) q) = (if k \<ge> p then filter (\<lambda>s. tk_priority s = k) q else [])"
    "filter (\<lambda>s. tk_priority s = k) (filter (\<lambda>s. tk_priority s < p) q) = (if k < p then filter (\<lambda>s. tk_priority s = k) q else [])"
    by (auto simp: filter_empty_conv intro: filter_cong)
  then show "filter (\<lambda>s. tk_priority s = k) (filter (\<lambda>s. tk_priority s \<ge> p) q @ filter (\<lambda>s. tk_priority s < p) q) = filter (\<lambda>s. tk_priority s = k) q"
    by auto
qed

definition queue_of :: "syncTask list \<Rightarrow> SyncManager \<Rightarrow> bool" where
  "queue_of ts sm \<longleftrightarrow> sorted_wrt (\<lambda>s t. tk_priority s \<ge> tk_priority t) (sm_queue sm) \<and> mset (sm_queue sm) = mset ts
     \<and> (\<forall>k. filter (\<lambda>s. tk_priority s = k) (sm_queue sm) = filter (\<lambda>s. tk_priority s = k) ts)"

lemma queue_of_step:
  assumes "queue_of ts sm"
  shows "queue_of (ts @ [t]) (queue_task t sm)"
proof -
  let ?q = "sm_queue sm" and ?p = "tk_priority t"
  let ?hi = "filter (\<lambda>s. tk_priority s \<ge> ?p) ?q" and ?lo = "filter (\<lambda>s. tk_priority s < ?p) ?q"
  have s: "sorted_wrt (\<lambda>s t. tk_priority s \<ge> tk_priority t) ?q" using assms by (simp add: queue_of_def)
  have q: "sm_queue (queue_task t sm) = ?hi @ t # ?lo" by (rule queue_task_queue [OF s])
  have "sorted_wrt (\<lambda>s t. tk_priority s \<ge> tk_priority t) (?hi @ t # ?lo)"
    using queue_sorted_step(1) [OF s, of ?p] by (auto simp: sorted_wrt_append)
  moreover have "mset (?hi @ t # ?lo) = mset (ts @ [t])"
    using multiset_partition [of "mset ?q" "\<lambda>s. tk_priority s \<ge> ?p"] assms by (simp add: queue_of_def not_le)
  moreover have "filter (\<lambda>s. tk_priority s = k) (?hi @ t # ?lo) = filter (\<lambda>s. tk_priority s = k) (ts @ [t])" for k
  proof -
    have "filter (\<lambda>s. tk_priority s = ?p) ?lo = []" by (auto simp: filter_empty_conv)
    then have "filter (\<lambda>s. tk_priority s = k) (?hi @ t # ?lo) = filter (\<lambda>s. tk_priority s = k) (?hi @ ?lo) @ filter (\<lambda>s. tk_priority s = k) [t]"
      by (cases "k = ?p") auto
    then show ?thesis using queue_sorted_step(2) [OF s, of k ?p] assms by (simp add: queue_of_def)
  qed
  ultimately show ?thesis unfolding queue_of_def q by blast
qed

text \<open>C23. The synchronisation queue: queueing tasks one after another gives the stable sort of the tasks by
  falling priority, so that a task with higher priority is never behind one with lower priority and tasks of the
  same priority are served in the order in which they were queued.\<close>

theorem queue_stable_sort:
  "sm_queue (fold queue_task ts (NewSyncManager nodeID [])) = sort_key (\<lambda>t. - tk_priority t) ts"
proof -
  have "queue_of ts (fold queue_task ts (NewSyncManager nodeID []))"
  proof (induction ts rule: rev_induct)
    case Nil
    show ?case by (simp add: queue_of_def NewSyncManager_def)
  qed (simp add: queue_of_step)
  then show ?thesis
    by (intro properties_for_sort_key [symmetric])
       (auto simp: queue_of_def sorted_map neg_equal_iff_equal eq_commute elim!: sorted_wrt_mono_rel [rotated])
qed

section \<open>What a node answers\<close>

text \<open>The items a request asks for: those of the known keys in its range whose live value is a byte slice.\<close>

definition in_sync_range :: "SyncRequestPayload \<Rightarrow> string \<Rightarrow> bool" where
  "in_sync_range req key \<longleftrightarrow> (sq_StartKey req = '''' \<or> key \<ge> sq_StartKey req) \<and> (sq_EndKey req = '''' \<or> key < sq_EndKey req)"

definition sync_item :: "('a anyval) option \<Rightarrow> string \<Rightarrow> SyncItem option" where
  "sync_item v key = (case v of Some (AnyBytes b) \<Rightarrow> Some \<lparr>si_Key = key, si_Value = b, si_Expiration = 300 * 10 ^ 9\<rparr> | _ \<Rightarrow> None)"

definition wanted_items :: "SyncRequestPayload \<Rightarrow> (string \<Rightarrow> 'a anyval option) \<Rightarrow> string list \<Rightarrow> SyncItem list" where
  "wanted_items req vals keys = List.map_filter (\<lambda>key. if in_sync_range req key then sync_item (vals key) key else None) keys"

text \<open>The response for \<open>wanted\<close> items: all of them, or the first \<open>MaxItems\<close> with the key of the last one.\<close>

definition sync_page :: "SyncRequestPayload \<Rightarrow> SyncItem list \<Rightarrow> SyncItem list \<times> bool \<times> string" where
  "sync_page req wanted =
     (if sq_MaxItems req > 0 \<and> sq_MaxItems req \<le> int (length wanted)
      then (take (nat (sq_MaxItems req)) wanted, True, si_Key (wanted ! (nat (sq_MaxItems req) - 1)))
      else (wanted, False, ''''))"

lemma sync_page_full:
  "sq_MaxItems req > 0 \<Longrightarrow> int (length items) < sq_MaxItems req \<Longrightarrow> sq_MaxItems req \<le> int (length (items @ [x])) \<Longrightarrow>
   sync_page req (items @ x # rest) = (items @ [x], True, si_Key x)"
proof -
  assume a: "sq_MaxItems req > 0" "int (length items) < sq_MaxItems req" "sq_MaxItems req \<le> int (length (items @ [x]))"
  then have "nat (sq_MaxItems req) = Suc (length items)" by simp
  with a show ?thesis by (simp add: sync_page_def nth_append)
qed

definition store_item :: "instant \<Rightarrow> SyncItem \<Rightarrow> 'a anyval ttl_map \<Rightarrow> 'a anyval ttl_map" where
  "store_item now it m = m(si_Key it \<mapsto> (AnyBytes (si_Value it), now + si_Expiration it))"

text \<open>A cache whose values are byte slices or others, as the synchronisation uses it.\<close>

locale byte_cache = ttl_cache rep get put del
  for rep :: "'c \<Rightarrow> 'a anyval ttl_map \<Rightarrow> bool" and get put del
begin

lemma collect_items_correct:
  assumes rep: "rep c m" and room: "sq_MaxItems req > 0 \<longrightarrow> int (length items) < sq_MaxItems req"
  shows "\<exists>c' m'. collect_items get now req keys items c = Some (sync_page req (items @ wanted_items req (live now m) keys), c') \<and> rep c' m' \<and> purges now m m'"
  using rep room
proof (induction keys arbitrary: items c m)
  case Nil
  have "\<not> (sq_MaxItems req > 0 \<and> sq_MaxItems req \<le> int (length items))" using Nil by auto
  then have "collect_items get now req [] items c = Some (sync_page req (items @ wanted_items req (live now m) []), c)"
    by (simp add: wanted_items_def sync_page_def)
  then show ?case using Nil(1) purges_refl by blast
next
  case (Cons key keys)
  show ?case
  proof (cases "in_sync_range req key")
    case False
    then have "collect_items get now req (key # keys) items c = collect_items get now req keys items c"
      "wanted_items req (live now m) (key # keys) = wanted_items req (live now m) keys"
      by (auto simp: in_sync_range_def wanted_items_def)
    then show ?thesis using Cons.IH [OF Cons.prems] by simp
  next
    case True
    obtain c1 m1 where 1: "get now key c = Some (get_result (live now m key), c1)" "rep c1 m1" "purges now m m1"
      using get_law [OF Cons.prems(1)] by blast
    have live: "live now m1 = live now m" using purges_same_from [OF 1(3)] same_from_live by fastforce
    have loop: "collect_items get now req (key # keys) items c = (case sync_item (live now m key) key of
        Some it \<Rightarrow> if sq_MaxItems req > 0 \<and> int (length (items @ [it])) \<ge> sq_MaxItems req then Some ((items @ [it], True, key), c1)
                   else collect_items get now req keys (items @ [it]) c1
      | None \<Rightarrow> collect_items get now req keys items c1)"
      using True 1(1) by (simp add: in_sync_range_def sync_item_def Let_def split: option.splits anyval.splits)
    show ?thesis
    proof (cases "sync_item (live now m key) key")
      case None
      then have "wanted_items req (live now m) (key # keys) = wanted_items req (live now m1) keys" by (simp add: wanted_items_def live)
      then show ?thesis using Cons.IH [OF 1(2) Cons.prems(2)] loop None 1(3) purges_trans by fastforce
    next
      case (Some it)
      have w: "items @ wanted_items req (live now m) (key # keys) = items @ it # wanted_items req (live now m1) keys"
        using True Some by (simp add: wanted_items_def live)
      have k: "si_Key it = key" using Some by (auto simp: sync_item_def split: option.splits anyval.splits)
      show ?thesis
      proof (cases "sq_MaxItems req > 0 \<and> int (length (items @ [it])) \<ge> sq_MaxItems req")
        case True
        then show ?thesis using sync_page_full [of req items it] Cons.prems(2) loop Some w k 1(2,3) by auto
      next
        case False
        then have "sq_MaxItems req > 0 \<longrightarrow> int (length (items @ [it])) < sq_MaxItems req" by auto
        from Cons.IH [OF 1(2) this] obtain c2 m2 where
          "collect_items get now req keys (items @ [it]) c1 = Some (sync_page req ((items @ [it]) @ wanted_items req (live now m1) keys), c2)"
          "rep c2 m2" "purges now m1 m2" by blast
        moreover have "collect_items get now req (key # keys) items c = collect_items get now req keys (items @ [it]) c1"
          unfolding loop Some using False by auto
        ultimately show ?thesis using w purges_trans [OF 1(3)] by (intro exI [of _ c2] exI [of _ m2]) simp
      qed
    qed
  qed
qed

lemma sync_answer_page:
  assumes "rep c m" "sq_MaxItems req \<ge> 0"
  shows "\<exists>c' m'. Cluster_HandleSyncRequest get now (Some req) sm c =
      Some (Inr (let (items, more, next) = sync_page req (wanted_items req (live now m) sync_keys)
                 in \<lparr>sp_FromNodeID = sm_nodeID sm, sp_Items = items, sp_HasMore = more, sp_NextKey = next\<rparr>), c')
    \<and> rep c' m' \<and> purges now m m'"
proof -
  obtain c' m' where "collect_items get now req sync_keys [] c = Some (sync_page req ([] @ wanted_items req (live now m) sync_keys), c')"
    "rep c' m'" "purges now m m'"
    using collect_items_correct [OF assms(1), of req "[]" now sync_keys] assms(2) by auto
  then show ?thesis
    using assms(2) by (intro exI [of _ c'] exI [of _ m']) (simp add: Cluster_HandleSyncRequest_def split: prod.splits)
qed

lemma apply_items_rep:
  "rep c m \<Longrightarrow> \<exists>c'. apply_items put now items c = Some (int (length items), c')
     \<and> rep c' (fold (store_item now) items m)"
proof (induction items arbitrary: c m)
  case (Cons it items)
  obtain c1 where 1: "put now (si_Key it) (AnyBytes (si_Value it)) (si_Expiration it) c = Some (Inr (), c1)"
    "rep c1 (store_item now it m)"
    using put_law [OF Cons.prems] unfolding store_item_def by blast
  from Cons.IH [OF 1(2)] obtain c2 where "apply_items put now items c1 = Some (int (length items), c2)"
    "rep c2 (fold (store_item now) items (store_item now it m))"
    by blast
  with 1(1) show ?case by (intro exI [of _ c2]) simp
qed simp

end

interpretation bmem: byte_cache mem_rep MemCache_Get MemCache_Set MemCache_Del
  by unfold_locales

section \<open>Pulling page by page\<close>

text \<open>The reply of a node with manager \<open>psm\<close> and cache \<open>pc\<close>, and repeated ticks of the synchronisation loop.\<close>

definition peer_reply :: "('c, 'a anyval) cache_get \<Rightarrow> instant \<Rightarrow> SyncManager \<Rightarrow> 'c \<Rightarrow> string \<Rightarrow> SyncRequestPayload \<Rightarrow> sync_reply" where
  "peer_reply get now psm pc addr req =
     (case Cluster_HandleSyncRequest get now (Some req) psm pc of Some (Inr resp, _) \<Rightarrow> SyncReply resp | _ \<Rightarrow> SendError)"

fun sync_rounds :: "('c, 'a anyval) cache_put \<Rightarrow> (string \<Rightarrow> SyncRequestPayload \<Rightarrow> sync_reply) \<Rightarrow> instant \<Rightarrow> nat
    \<Rightarrow> SyncManager \<times> 'c \<times> EventPublisher option \<Rightarrow> (SyncManager \<times> 'c \<times> EventPublisher option) option" where
  "sync_rounds put send now 0 s = Some s"
| "sync_rounds put send now (Suc n) s = do { s \<leftarrow> processSyncTasks put send now s; sync_rounds put send now n s }"

definition pull_task :: "string \<Rightarrow> string \<Rightarrow> int \<Rightarrow> syncTask" where
  "pull_task target start p = \<lparr>tk_targetNode = target, tk_keyRange = \<lparr>kr_Start = start, kr_End = ''''\<rparr>, tk_priority = p\<rparr>"

lemma run_tasks_Nil: "s \<bind> run_tasks put send now [] = s"
  by (cases s) simp_all

context byte_cache
begin

lemma first_page:
  assumes "rep pc pm" "live now pm ''key1'' = Some (AnyBytes b)" "sq_StartKey req \<in> {'''', ''key1''}" "sq_EndKey req = ''''" "sq_MaxItems req = 1"
  shows "peer_reply get now psm pc addr req =
    SyncReply \<lparr>sp_FromNodeID = sm_nodeID psm, sp_Items = [\<lparr>si_Key = ''key1'', si_Value = b, si_Expiration = 300 * 10 ^ 9\<rparr>],
               sp_HasMore = True, sp_NextKey = ''key1''\<rparr>"
proof -
  have "in_sync_range req ''key1''" using assms(3,4) by (auto simp: in_sync_range_def)
  then have "sync_page req (wanted_items req (live now pm) sync_keys) =
      ([\<lparr>si_Key = ''key1'', si_Value = b, si_Expiration = 300 * 10 ^ 9\<rparr>], True, ''key1'')"
    using assms(2,5) by (simp add: sync_page_def wanted_items_def sync_keys_def sync_item_def)
  then show ?thesis using sync_answer_page [OF assms(1), of req now psm] assms(5) by (auto simp: peer_reply_def)
qed

lemma pull_first_page:
  assumes "rep pc pm" "live now pm ''key1'' = Some (AnyBytes b)" "start \<in> {'''', ''key1''}"
    and sm: "sm_maxItems sm = 1" "sm_concurrency sm > 0" "sm_processing sm = []" "sm_queue sm = [pull_task target start p]"
    and rep: "rep c m"
  shows "\<exists>c' ev'. processSyncTasks put (peer_reply get now psm pc) now (sm, c, ev) =
      Some (sm\<lparr>sm_queue := [pull_task target ''key1'' 1]\<rparr>, c', ev') \<and> rep c' (m(''key1'' \<mapsto> (AnyBytes b, now + 300 * 10 ^ 9)))"
proof -
  obtain c' where c': "apply_items put now [\<lparr>si_Key = ''key1'', si_Value = b, si_Expiration = 300 * 10 ^ 9\<rparr>] c = Some (1, c')"
    "rep c' (m(''key1'' \<mapsto> (AnyBytes b, now + 300 * 10 ^ 9)))"
    using apply_items_rep [OF rep, of now "[\<lparr>si_Key = ''key1'', si_Value = b, si_Expiration = 300 * 10 ^ 9\<rparr>]"] by (auto simp: store_item_def)
  have reply: "peer_reply get now psm pc target \<lparr>sq_FromNodeID = sm_nodeID sm, sq_StartKey = start, sq_EndKey = '''', sq_MaxItems = 1\<rparr> =
    SyncReply \<lparr>sp_FromNodeID = sm_nodeID psm, sp_Items = [\<lparr>si_Key = ''key1'', si_Value = b, si_Expiration = 300 * 10 ^ 9\<rparr>],
               sp_HasMore = True, sp_NextKey = ''key1''\<rparr>"
    using assms(3) by (intro first_page [OF assms(1,2)]) auto
  have n: "\<not> 1 < sm_concurrency sm \<Longrightarrow> sm_concurrency sm = 1" using sm(2) by simp
  have "processSyncTasks put (peer_reply get now psm pc) now (sm, c, ev) =
      syncToNode put (peer_reply get now psm pc) now target \<lparr>kr_Start = start, kr_End = ''''\<rparr> (sm\<lparr>sm_queue := []\<rparr>, c, ev)"
    using sm(4) n by (cases "1 < sm_concurrency sm") (simp_all add: processSyncTasks_def Let_def pull_task_def run_tasks_Nil)
  also have "\<dots> = Some (sm\<lparr>sm_queue := [pull_task target ''key1'' 1]\<rparr>, c',
       map_option (Publisher_Publish (NewSyncCompletedEvent now target 1)) ev)"
    using sm(1,3) c'(1) reply by (simp add: syncToNode_def Let_def QueueSyncTask_def pull_task_def del: apply_items.simps)
  finally show ?thesis using c'(2) by blast
qed

lemma pull_never_advances:
  assumes "rep pc pm" "live now pm ''key1'' = Some (AnyBytes b)"
    and "sm_maxItems sm = 1" "sm_concurrency sm > 0" "sm_processing sm = []" "sm_queue sm = [pull_task target '''' p]" and "rep c m"
  shows "\<exists>c' ev'. sync_rounds put (peer_reply get now psm pc) now (Suc n) (sm, c, ev) =
      Some (sm\<lparr>sm_queue := [pull_task target ''key1'' 1]\<rparr>, c', ev') \<and> rep c' (m(''key1'' \<mapsto> (AnyBytes b, now + 300 * 10 ^ 9)))"
proof -
  let ?sm = "sm\<lparr>sm_queue := [pull_task target ''key1'' 1]\<rparr>"
  define m1 where "m1 = m(''key1'' \<mapsto> (AnyBytes b, now + 300 * 10 ^ 9))"
  have idem: "m1(''key1'' \<mapsto> (AnyBytes b, now + 300 * 10 ^ 9)) = m1" by (simp add: m1_def)
  have again: "\<exists>c' ev'. sync_rounds put (peer_reply get now psm pc) now n (?sm, c, ev) = Some (?sm, c', ev') \<and> rep c' m1" if "rep c m1" for c ev
    using that
  proof (induction n arbitrary: c ev)
    case (Suc n)
    obtain c1 ev1 where 1: "processSyncTasks put (peer_reply get now psm pc) now (?sm, c, ev) = Some (?sm, c1, ev1)" "rep c1 m1"
      using pull_first_page [OF assms(1,2) _ _ _ _ _ Suc.prems, of "''key1''" ?sm target 1 psm ev, unfolded idem] assms(3-5) by auto
    then show ?case using Suc.IH [OF 1(2), of ev1] by simp
  qed simp
  obtain c1 ev1 where 1: "processSyncTasks put (peer_reply get now psm pc) now (sm, c, ev) = Some (?sm, c1, ev1)" "rep c1 m1"
    using pull_first_page [OF assms(1,2) _ assms(3-7), of psm ev, folded m1_def] by auto
  then show ?thesis using again [OF 1(2), of ev1] by (simp add: m1_def)
qed

end

text \<open>A request for synchronisation is answered with exactly the byte values, live at the time, of the keys in
  its range among the three keys that the handler knows; with a limit of \<open>MaxItems\<close> it is the first so many of them
  and the key of the last one as the key to go on from. The cache still represents the same live entries.\<close>

theorem sync_answer_correct:
  assumes "mem_rep c m" "sq_MaxItems req \<ge> 0"
  shows "\<exists>resp c' m'. Cluster_HandleSyncRequest MemCache_Get now (Some req) sm c = Some (Inr resp, c') \<and> mem_rep c' m' \<and> live now m' = live now m
    \<and> (sp_Items resp, sp_HasMore resp, sp_NextKey resp) = sync_page req (wanted_items req (live now m) [''key1'', ''key2'', ''key3''])"
proof -
  obtain c' m' where 1: "Cluster_HandleSyncRequest MemCache_Get now (Some req) sm c =
      Some (Inr (let (items, more, next) = sync_page req (wanted_items req (live now m) sync_keys)
                 in \<lparr>sp_FromNodeID = sm_nodeID sm, sp_Items = items, sp_HasMore = more, sp_NextKey = next\<rparr>), c')"
    "mem_rep c' m'" "purges now m m'"
    using bmem.sync_answer_page [OF assms] by blast
  have "live now m' = live now m" using same_from_live [OF purges_same_from [OF 1(3)]] by simp
  then show ?thesis using 1(1,2) by (auto simp: sync_keys_def Let_def split: prod.splits)
qed

text \<open>Page by page synchronisation does not advance: with pages of one item, pulling from a node that holds the
  first key as a byte value asks for the same page in every round. The next request starts at the last key received,
  which is in the range again. After any number of rounds the queue holds the same task, and only the first key has
  been copied.\<close>

theorem sync_paging_never_advances:
  fixes c pc :: "('a anyval, 'u) MemoryCache \<times> 'u"
  assumes "mem_rep pc pm" "live now pm ''key1'' = Some (AnyBytes b)"
    and "sm_maxItems sm = 1" "sm_concurrency sm > 0" "sm_processing sm = []" "sm_queue sm = [pull_task target '''' p]" and "mem_rep c m"
  shows "\<exists>c' ev'. sync_rounds MemCache_Set (peer_reply MemCache_Get now psm pc) now (Suc n) (sm, c, ev) =
      Some (sm\<lparr>sm_queue := [pull_task target ''key1'' 1]\<rparr>, c', ev') \<and> mem_rep c' (m(''key1'' \<mapsto> (AnyBytes b, now + 300 * 10 ^ 9)))"
  by (rule bmem.pull_never_advances [OF assms])

text \<open>A fresh cache, one with a first key, and a manager that pulls pages of one item from its peer.\<close>

definition empty_bytes :: "(unit anyval, unit) MemoryCache \<times> unit" where
  "empty_bytes = (NewMemoryCache 4 (\<lambda>_ _. False) [], ())"

lemma empty_bytes_rep: "mem_rep empty_bytes Map.empty"
  unfolding empty_bytes_def by (rule mem_rep_new) (simp add: default_cache_def DefaultShardCount_def)

definition puller :: SyncManager where
  "puller = TriggerSync ''b:1'' (NewSyncManager ''a'' [WithMaxSyncItems 1])"

lemma puller_simps:
  "sm_maxItems puller = 1" "sm_concurrency puller > 0" "sm_processing puller = []" "sm_queue puller = [pull_task ''b:1'' '''' 2]"
  by (simp_all add: puller_def TriggerSync_def NewSyncManager_def WithMaxSyncItems_def QueueSyncTask_def pull_task_def)

theorem sync_answer_correct_witness:
  "\<exists>resp c'. Cluster_HandleSyncRequest MemCache_Get 5 (Some \<lparr>sq_FromNodeID = ''a'', sq_StartKey = '''', sq_EndKey = '''', sq_MaxItems = 1\<rparr>) puller empty_bytes
     = Some (Inr resp, c') \<and> sp_Items resp = []"
  using sync_answer_correct [OF empty_bytes_rep, of "\<lparr>sq_FromNodeID = ''a'', sq_StartKey = '''', sq_EndKey = '''', sq_MaxItems = 1\<rparr>" 5 puller]
  by (auto simp: sync_page_def wanted_items_def in_sync_range_def sync_item_def)

theorem sync_paging_never_advances_witness:
  "\<exists>(pc :: (unit anyval, unit) MemoryCache \<times> unit) c' ev'.
      sync_rounds MemCache_Set (peer_reply MemCache_Get 5 puller pc) 5 (Suc 41) (puller, empty_bytes, None) =
      Some (puller\<lparr>sm_queue := [pull_task ''b:1'' ''key1'' 1]\<rparr>, c', ev')"
proof -
  obtain pc where "mem_rep (pc :: (unit anyval, unit) MemoryCache \<times> unit) (Map.empty(''key1'' \<mapsto> (AnyBytes ''x'', 3 + 100)))"
    using MemCache_Set_rep [OF empty_bytes_rep, of 3 "''key1''" "AnyBytes ''x''" 100] by auto
  from sync_paging_never_advances [OF this _ puller_simps empty_bytes_rep, of 5 "''x''" puller 41 None]
  have "\<exists>c' ev'. sync_rounds MemCache_Set (peer_reply MemCache_Get 5 puller pc) 5 (Suc 41) (puller, empty_bytes, None) =
      Some (puller\<lparr>sm_queue := [pull_task ''b:1'' ''key1'' 1]\<rparr>, c', ev')"
    by (simp del: sync_rounds.simps) blast
  then show ?thesis by blast
qed

end
