(* ===== verification/ClusterNode.thy ===== *)
theory ClusterNode
  imports ClusterSync
begin

text \<open>
  The cluster node (\<^verbatim>\<open>src/cache/cluster/node.go\<close>), which composes membership, gossip and synchronisation, and
  the cache that a program uses on top of it (\<^verbatim>\<open>src/cache/cluster/cluster_cache.go\<close>). The publisher that the
  parts share is the one in the membership. Starting the transport may fail, which is an argument; sending is an
  argument \<open>send\<close> that gives the reply. A message is its sender and its payload, \<open>None\<close> for a payload that is no
  JSON of its type.
\<close>

section \<open>Messages\<close>

record JoinPayload =
  jp_NodeID :: string
  jp_Address :: string
  jp_Metadata :: "string gomap option"

record LeavePayload =
  lp_NodeID :: string
  lp_Graceful :: bool

datatype NodeMessage =
    MsgJoin string "JoinPayload option" | MsgLeave string "LeavePayload option" | MsgPing string "int option" | MsgPong string int
  | MsgGossip string "GossipNodeInfo list option" | MsgSyncRequest string "SyncRequestPayload option"
  | MsgSyncResponse string SyncResponsePayload | MsgOther string int string

section \<open>The node\<close>

record Node =
  nd_id :: string
  nd_membership :: Membership
  nd_gossiper :: Gossiper
  nd_syncManager :: SyncManager
  nd_config :: NodeConfig
  nd_running :: bool
  nd_stopClosed :: bool

text \<open>\<open>hasCache\<close> says that the cache given is not nil.\<close>

definition NewNode :: "string \<Rightarrow> bool \<Rightarrow> NodeOption list \<Rightarrow> gerror + Node" where
  "NewNode nid hasCache options =
     (if nid = '''' then Inl (Errorf ''node ID cannot be empty'')
      else if \<not> hasCache then Inl (Errorf ''cache cannot be nil'')
      else let config = fold (\<lambda>option. option) options DefaultNodeConfig;
               config = (if nc_ID config = '''' then config\<lparr>nc_ID := nid\<rparr> else config)
           in Inr \<lparr>nd_id = nc_ID config,
                   nd_membership = NewMembership (nc_ID config) (nc_BindAddr config) (Some (NewEventPublisher (nc_EventBufferSize config))) config,
                   nd_gossiper = NewGossiper (nc_ID config) config,
                   nd_syncManager = NewSyncManager (nc_ID config)
                     [WithSyncerInterval (nc_SyncInterval config), WithSyncerConcurrency (nc_SyncConcurrency config), WithMaxSyncItems 1000],
                   nd_config = config, nd_running = False, nd_stopClosed = False\<rparr>)"

definition Node_Start :: "instant \<Rightarrow> gerror option \<Rightarrow> Node \<Rightarrow> (gerror + unit) \<times> Node" where
  "Node_Start now transportErr n =
     (if nd_running n then (Inr (), n)
      else case transportErr of
        Some _ \<Rightarrow> (Inl (Errorf ''failed to start transport: %w''), n)
      | None \<Rightarrow>
          let (r1, m1) = Membership_Start now (nd_membership n); n = n\<lparr>nd_membership := m1\<rparr> in
          case r1 of Inl _ \<Rightarrow> (Inl (Errorf ''failed to start membership: %w''), n)
          | Inr _ \<Rightarrow>
              let (r2, g2) = Gossiper_Start (nd_gossiper n); n = n\<lparr>nd_gossiper := g2\<rparr> in
              (case r2 of Inl _ \<Rightarrow> (Inl (Errorf ''failed to start gossiper: %w''), n\<lparr>nd_membership := snd (Membership_Stop (nd_membership n))\<rparr>)
               | Inr _ \<Rightarrow>
                   let (r3, s3) = SyncManager_Start (nd_syncManager n); n = n\<lparr>nd_syncManager := s3\<rparr> in
                   (case r3 of Inl _ \<Rightarrow> (Inl (Errorf ''failed to start sync manager: %w''),
                        n\<lparr>nd_gossiper := snd (Gossiper_Stop (nd_gossiper n)), nd_membership := snd (Membership_Stop (nd_membership n))\<rparr>)
                    | Inr _ \<Rightarrow> (Inr (), n\<lparr>nd_running := True\<rparr>))))"

definition Node_Stop :: "Node \<Rightarrow> (gerror + unit) \<times> Node" where
  "Node_Stop n =
     (if \<not> nd_running n then (Inr (), n)
      else let m = snd (Membership_Stop (nd_membership n)) in
        (Inr (), n\<lparr>nd_syncManager := snd (SyncManager_Stop (nd_syncManager n)), nd_gossiper := snd (Gossiper_Stop (nd_gossiper n)),
                   nd_membership := m\<lparr>mb_events := map_option Publisher_Close (mb_events m)\<rparr>, nd_stopClosed := True, nd_running := False\<rparr>))"

text \<open>\<open>started\<close> is the time in RFC 3339 format; \<open>send\<close> gives an error or the answer of the node at an address.\<close>

definition Node_Join :: "(string \<Rightarrow> NodeMessage \<Rightarrow> gerror + NodeMessage) \<Rightarrow> instant \<Rightarrow> string \<Rightarrow> string \<Rightarrow> Node \<Rightarrow> (gerror + unit) \<times> Node" where
  "Node_Join send now started seedNodeAddr n =
     (if \<not> nd_running n then (Inl (Errorf ''node is not running''), n)
      else if seedNodeAddr = '''' then (Inl (Errorf ''seed node address cannot be empty''), n)
      else if seedNodeAddr = nc_BindAddr (nd_config n) then (Inr (), n)
      else case send seedNodeAddr (MsgJoin (nd_id n) (Some \<lparr>jp_NodeID = nd_id n, jp_Address = nc_BindAddr (nd_config n),
                                                           jp_Metadata = Some [(''started'', started)]\<rparr>)) of
        Inl _ \<Rightarrow> (Inl (Errorf ''failed to send join message: %w''), n)
      | Inr (MsgJoin _ (Some respPayload)) \<Rightarrow>
          (Inr (), n\<lparr>nd_membership := AddMember now (jp_NodeID respPayload) seedNodeAddr (jp_Metadata respPayload) (nd_membership n),
                     nd_syncManager := TriggerSync seedNodeAddr (nd_syncManager n)\<rparr>)
      | Inr (MsgJoin _ None) \<Rightarrow> (Inl (Errorf ''failed to unmarshal response: %w''), n)
      | Inr _ \<Rightarrow> (Inl (Errorf ''unexpected response type: %d''), n))"

text \<open>\<open>Leave\<close> returns the messages that it sends to the other members.\<close>

definition Node_Leave :: "instant \<Rightarrow> Node \<Rightarrow> (gerror + unit) \<times> (string \<times> NodeMessage) list \<times> Node" where
  "Node_Leave now n =
     (if \<not> nd_running n then (Inl (Errorf ''node is not running''), [], n)
      else let msg = MsgLeave (nd_id n) (Some \<lparr>lp_NodeID = nd_id n, lp_Graceful = True\<rparr>);
               targets = filter (\<lambda>member. ni_ID member \<noteq> nd_id n) (Members (nd_membership n))
           in (Inr (), map (\<lambda>member. (ni_Addr member, msg)) targets, n\<lparr>nd_membership := RemoveMember now (nd_id n) True (nd_membership n)\<rparr>))"

definition Node_Members :: "Node \<Rightarrow> NodeInfo list" where
  "Node_Members n = Members (nd_membership n)"

definition Node_IsCoordinator :: "Node \<Rightarrow> bool" where
  "Node_IsCoordinator n = IsCoordinator (nd_membership n)"

definition Node_Events :: "Node \<Rightarrow> ClusterEvent list option" where
  "Node_Events n = Option.bind (mb_events (nd_membership n)) Publisher_Events"

definition handleJoinMessage :: "instant \<Rightarrow> JoinPayload option \<Rightarrow> Node \<Rightarrow> (gerror + NodeMessage) \<times> Node" where
  "handleJoinMessage now payload n =
     (case payload of
        None \<Rightarrow> (Inl (Errorf ''failed to unmarshal join payload: %w''), n)
      | Some p \<Rightarrow>
          (Inr (MsgJoin (nd_id n) (Some \<lparr>jp_NodeID = nd_id n, jp_Address = nc_BindAddr (nd_config n), jp_Metadata = Some [(''role'', ''seed'')]\<rparr>)),
           n\<lparr>nd_membership := AddMember now (jp_NodeID p) (jp_Address p) (jp_Metadata p) (nd_membership n)\<rparr>))"

definition handleLeaveMessage :: "instant \<Rightarrow> LeavePayload option \<Rightarrow> Node \<Rightarrow> (gerror + NodeMessage) \<times> Node" where
  "handleLeaveMessage now payload n =
     (case payload of
        None \<Rightarrow> (Inl (Errorf ''failed to unmarshal leave payload: %w''), n)
      | Some p \<Rightarrow>
          (Inr (MsgLeave (nd_id n) None), n\<lparr>nd_membership := RemoveMember now (lp_NodeID p) (lp_Graceful p) (nd_membership n)\<rparr>))"

definition handlePingMessage :: "instant \<Rightarrow> string \<Rightarrow> int option \<Rightarrow> Node \<Rightarrow> (gerror + NodeMessage) \<times> Node" where
  "handlePingMessage now sender payload n =
     (case payload of
        None \<Rightarrow> (Inl (Errorf ''failed to unmarshal ping payload: %w''), n)
      | Some sequence \<Rightarrow> (Inr (MsgPong (nd_id n) sequence), n\<lparr>nd_membership := MarkAlive now sender (nd_membership n)\<rparr>))"

definition Node_handleMessage :: "('c, 'a anyval) cache_get \<Rightarrow> instant \<Rightarrow> NodeMessage \<Rightarrow> Node \<times> 'c
    \<Rightarrow> ((gerror + NodeMessage) \<times> Node \<times> 'c) option" where
  "Node_handleMessage get now msg nc =
     (let (n, c) = nc in
      case msg of
        MsgJoin _ payload \<Rightarrow> (let (r, n') = handleJoinMessage now payload n in Some (r, n', c))
      | MsgLeave _ payload \<Rightarrow> (let (r, n') = handleLeaveMessage now payload n in Some (r, n', c))
      | MsgPing sender payload \<Rightarrow> (let (r, n') = handlePingMessage now sender payload n in Some (r, n', c))
      | MsgPong _ _ \<Rightarrow> Some (Inr msg, n, c)
      | MsgGossip sender payload \<Rightarrow>
          (let (r, m) = HandleGossip now True sender payload (nd_gossiper n) (nd_membership n) in
           Some (case r of Inl e \<Rightarrow> Inl e | Inr _ \<Rightarrow> Inr msg, n\<lparr>nd_membership := m\<rparr>, c))
      | MsgSyncRequest _ payload \<Rightarrow> do {
          (r, c) \<leftarrow> Cluster_HandleSyncRequest get now payload (nd_syncManager n) c;
          Some (case r of Inl e \<Rightarrow> Inl e | Inr resp \<Rightarrow> Inr (MsgSyncResponse (nd_id n) resp), n, c) }
      | _ \<Rightarrow> Some (Inl (Errorf ''unknown message type: %d''), n, c))"

section \<open>The cluster cache\<close>

record 'c ClusterCache =
  cc_cache :: 'c
  cc_node :: Node
  cc_syncDelay :: duration

definition WithSyncDelay :: "duration \<Rightarrow> 'c ClusterCache \<Rightarrow> 'c ClusterCache" where
  "WithSyncDelay delay cc = cc\<lparr>cc_syncDelay := delay\<rparr>"

definition NewClusterCache :: "'c option \<Rightarrow> string \<Rightarrow> string \<Rightarrow> NodeOption list \<Rightarrow> gerror + 'c ClusterCache" where
  "NewClusterCache localCache nodeID bindAddr options =
     (if nodeID = '''' then Inl (Errorf ''node ID cannot be empty'')
      else case localCache of
        None \<Rightarrow> Inl (Errorf ''cache cannot be nil'')
      | Some c \<Rightarrow>
          (case NewNode nodeID True ([Node_WithNodeID nodeID, WithBindAddr bindAddr] @ options) of
             Inl _ \<Rightarrow> Inl (Errorf ''failed to create cluster node: %w'')
           | Inr node \<Rightarrow> Inr \<lparr>cc_cache = c, cc_node = node, cc_syncDelay = 100 * 10 ^ 6\<rparr>))"

definition Cluster_Start :: "instant \<Rightarrow> gerror option \<Rightarrow> 'c ClusterCache \<Rightarrow> (gerror + unit) \<times> 'c ClusterCache" where
  "Cluster_Start now transportErr cc = (let (r, n) = Node_Start now transportErr (cc_node cc) in (r, cc\<lparr>cc_node := n\<rparr>))"

definition Cluster_Stop :: "'c ClusterCache \<Rightarrow> (gerror + unit) \<times> 'c ClusterCache" where
  "Cluster_Stop cc = (let (r, n) = Node_Stop (cc_node cc) in (r, cc\<lparr>cc_node := n\<rparr>))"

definition Cluster_Join :: "(string \<Rightarrow> NodeMessage \<Rightarrow> gerror + NodeMessage) \<Rightarrow> instant \<Rightarrow> string \<Rightarrow> string \<Rightarrow> 'c ClusterCache \<Rightarrow> (gerror + unit) \<times> 'c ClusterCache" where
  "Cluster_Join send now started seedNodeAddr cc = (let (r, n) = Node_Join send now started seedNodeAddr (cc_node cc) in (r, cc\<lparr>cc_node := n\<rparr>))"

definition Cluster_Leave :: "instant \<Rightarrow> 'c ClusterCache \<Rightarrow> (gerror + unit) \<times> (string \<times> NodeMessage) list \<times> 'c ClusterCache" where
  "Cluster_Leave now cc = (let (r, msgs, n) = Node_Leave now (cc_node cc) in (r, msgs, cc\<lparr>cc_node := n\<rparr>))"

definition Cluster_Members :: "'c ClusterCache \<Rightarrow> NodeInfo list" where
  "Cluster_Members cc = Node_Members (cc_node cc)"

definition Cluster_Events :: "'c ClusterCache \<Rightarrow> ClusterEvent list option" where
  "Cluster_Events cc = Node_Events (cc_node cc)"

definition Cluster_IsCoordinator :: "'c ClusterCache \<Rightarrow> bool" where
  "Cluster_IsCoordinator cc = Node_IsCoordinator (cc_node cc)"

definition Cluster_SetLocalMetadata :: "string gomap option \<Rightarrow> 'c ClusterCache \<Rightarrow> 'c ClusterCache" where
  "Cluster_SetLocalMetadata metadata cc =
     cc\<lparr>cc_node := (cc_node cc)\<lparr>nd_membership := SetLocalMetadata metadata (nd_membership (cc_node cc))\<rparr>\<rparr>"

text \<open>The goroutine that \<open>broadcastToNodes\<close> starts for one other member: both branches for the operation are still to be written in
  the code, so it sends no message and appends no error. \<open>broadcastToNodes\<close> returns the first error; its second value says
  for which members, by ID and address, a goroutine was started, and what it sent.\<close>

definition broadcast_one :: "string \<Rightarrow> string \<Rightarrow> string \<Rightarrow> gerror list \<times> NodeMessage list" where
  "broadcast_one opType memberID memberAddr = (if opType = ''SET'' then ([], []) else if opType = ''DEL'' then ([], []) else ([], []))"

definition broadcastToNodes :: "string \<Rightarrow> 'c ClusterCache \<Rightarrow> (gerror + unit) \<times> ((string \<times> string) \<times> NodeMessage list) list" where
  "broadcastToNodes opType cc =
     (let others = filter (\<lambda>member. ni_ID member \<noteq> nd_id (cc_node cc)) (Cluster_Members cc);
          runs = map (\<lambda>member. ((ni_ID member, ni_Addr member), broadcast_one opType (ni_ID member) (ni_Addr member))) others;
          errs = concat (map (fst \<circ> snd) runs)
      in (case errs of [] \<Rightarrow> Inr () | e # _ \<Rightarrow> Inl e, map (\<lambda>(to, _, msgs). (to, msgs)) runs))"

text \<open>\<open>Set\<close> and \<open>Del\<close> start \<open>broadcastToNodes\<close> as a goroutine and look at nothing it does.\<close>

definition Cluster_Get :: "('c, 'v) cache_get \<Rightarrow> ('c ClusterCache, 'v) cache_get" where
  "Cluster_Get get now key cc = do {
     (r, c) \<leftarrow> get now key (cc_cache cc);
     Some (case r of Inr val \<Rightarrow> Inr val | Inl err \<Rightarrow> Inl err, cc\<lparr>cc_cache := c\<rparr>) }"

definition Cluster_Set :: "('c, 'v) cache_put \<Rightarrow> ('c ClusterCache, 'v) cache_put" where
  "Cluster_Set put now key val expiration cc = do {
     (r, c) \<leftarrow> put now key val expiration (cc_cache cc);
     let cc = cc\<lparr>cc_cache := c\<rparr>;
     (case r of Inl err \<Rightarrow> Some (Inl err, cc) | Inr _ \<Rightarrow> let _ = broadcastToNodes ''SET'' cc in Some (Inr (), cc)) }"

definition Cluster_Del :: "'c cache_del \<Rightarrow> 'c ClusterCache cache_del" where
  "Cluster_Del del key cc = do {
     (r, c) \<leftarrow> del key (cc_cache cc);
     let cc = cc\<lparr>cc_cache := c\<rparr>;
     (case r of Inl err \<Rightarrow> Some (Inl err, cc) | Inr _ \<Rightarrow> let _ = broadcastToNodes ''DEL'' cc in Some (Inr (), cc)) }"

record ClusterCacheInfo =
  cl_node_id :: string
  cl_address :: string
  cl_is_coordinator :: bool
  cl_member_count :: nat
  cl_up :: nat
  cl_suspect :: nat
  cl_down :: nat
  cl_left :: nat

definition count_status :: "NodeStatus \<Rightarrow> NodeInfo list \<Rightarrow> nat" where
  "count_status st members = fold (\<lambda>member n. if ni_Status member = st then n + 1 else n) members 0"

definition GetClusterInfo :: "'c ClusterCache \<Rightarrow> ClusterCacheInfo" where
  "GetClusterInfo cc =
     (let members = Cluster_Members cc in
      \<lparr>cl_node_id = nd_id (cc_node cc), cl_address = nc_BindAddr (nd_config (cc_node cc)), cl_is_coordinator = Cluster_IsCoordinator cc,
       cl_member_count = length members, cl_up = count_status NodeStatusUp members, cl_suspect = count_status NodeStatusSuspect members,
       cl_down = count_status NodeStatusDown members, cl_left = count_status NodeStatusLeft members\<rparr>)"

section \<open>The cluster cache is a cache\<close>

text \<open>Over any cache that meets the contract, the cluster cache meets it too, and leaves the node alone.\<close>

locale clustered = ttl_cache rep get put del
  for rep :: "'c \<Rightarrow> 'v ttl_map \<Rightarrow> bool" and get put del

sublocale clustered \<subseteq> cc: ttl_cache "\<lambda>cc m. rep (cc_cache cc) m" "Cluster_Get get" "Cluster_Set put" "Cluster_Del del"
proof
  fix cc :: "'c ClusterCache" and m now k
  assume rep: "rep (cc_cache cc) m"
  obtain c' m' where "get now k (cc_cache cc) = Some (get_result (live now m k), c')" "rep c' m'" "purges now m m'"
    using get_law [OF rep] by blast
  then show "\<exists>cc' m'. Cluster_Get get now k cc = Some (get_result (live now m k), cc') \<and> rep (cc_cache cc') m' \<and> purges now m m'"
    by (intro exI [of _ "cc\<lparr>cc_cache := c'\<rparr>"] exI [of _ m']) (auto simp: Cluster_Get_def split: sum.splits)
next
  fix cc :: "'c ClusterCache" and m now k v e
  assume rep: "rep (cc_cache cc) m"
  obtain c' where "put now k v e (cc_cache cc) = Some (Inr (), c')" "rep c' (m(k \<mapsto> (v, now + e)))"
    using put_law [OF rep] by blast
  then show "\<exists>cc'. Cluster_Set put now k v e cc = Some (Inr (), cc') \<and> rep (cc_cache cc') (m(k \<mapsto> (v, now + e)))"
    by (intro exI [of _ "cc\<lparr>cc_cache := c'\<rparr>"]) (simp add: Cluster_Set_def)
next
  fix cc :: "'c ClusterCache" and m k
  assume rep: "rep (cc_cache cc) m"
  obtain c' where "del k (cc_cache cc) = Some (Inr (), c')" "rep c' (m(k := None))"
    using del_law [OF rep] by blast
  then show "\<exists>cc'. Cluster_Del del k cc = Some (Inr (), cc') \<and> rep (cc_cache cc') (m(k := None))"
    by (intro exI [of _ "cc\<lparr>cc_cache := c'\<rparr>"]) (simp add: Cluster_Del_def)
qed

interpretation cmem: clustered mem_rep MemCache_Get MemCache_Set MemCache_Del
  by unfold_locales


definition small_cluster_cache :: "((int, unit) MemoryCache \<times> unit) ClusterCache" where
  "small_cluster_cache = projr (NewClusterCache (Some (NewMemoryCache 4 (\<lambda>_ _. False) [], ())) ''a'' ''a:1'' [])"


text \<open>A write is announced to every other member and reaches none.\<close>

lemma broadcast_reaches_nobody:
  "broadcastToNodes opType cc =
     (Inr (), map (\<lambda>member. ((ni_ID member, ni_Addr member), [])) (filter (\<lambda>member. ni_ID member \<noteq> nd_id (cc_node cc)) (Cluster_Members cc)))"
proof -
  have one: "broadcast_one opType memberID memberAddr = ([], [])" for memberID memberAddr by (simp add: broadcast_one_def)
  have errs: "concat (map (fst \<circ> snd) (map (\<lambda>member. ((ni_ID member, ni_Addr member), [], [])) ms)) = []" for ms
    by (induction ms) simp_all
  show ?thesis unfolding broadcastToNodes_def Let_def one errs by simp
qed

section \<open>Joining and leaving\<close>

text \<open>The messages of a join and of a leave.\<close>

definition join_message :: "string \<Rightarrow> Node \<Rightarrow> NodeMessage" where
  "join_message started n = MsgJoin (nd_id n) (Some \<lparr>jp_NodeID = nd_id n, jp_Address = nc_BindAddr (nd_config n), jp_Metadata = Some [(''started'', started)]\<rparr>)"

definition leave_message :: "Node \<Rightarrow> NodeMessage" where
  "leave_message n = MsgLeave (nd_id n) (Some \<lparr>lp_NodeID = nd_id n, lp_Graceful = True\<rparr>)"

lemma AddMember_map:
  "map_of (mb_members (AddMember now nid addr md m)) = (map_of (mb_members m))(nid \<mapsto>
     (case map_of (mb_members m) nid of
        Some n \<Rightarrow> n\<lparr>ni_Addr := addr, ni_Metadata := merge_metadata (ni_Metadata n) md, ni_Status := NodeStatusUp, ni_LastSeen := now\<rparr>
      | None \<Rightarrow> \<lparr>ni_ID = nid, ni_Addr = addr, ni_Status = NodeStatusUp, ni_LastSeen = now, ni_Metadata = md\<rparr>))"
  by (simp add: AddMember_def split: option.splits)

lemma RemoveMember_map: "map_of (mb_members (RemoveMember now nid g m)) = (map_of (mb_members m))(nid := None)"
  by (auto simp: RemoveMember_def)

text \<open>C20. Joining and leaving: when a running node joins at a seed, whose answer it gets, the seed lists it as up
  with its address, it lists the seed as up under the seed's address, and it has queued a synchronisation with the
  seed. When it then leaves, it sends the seed a message to the address it joined at, and handling that
  message gives the seed back the members it had before, where the node was not a member.\<close>

theorem join_leave_roundtrip:
  fixes get :: "('c, 'a anyval) cache_get"
  assumes run: "nd_running n" and addr: "seedAddr \<noteq> ''''" "seedAddr \<noteq> nc_BindAddr (nd_config n)"
    and ids: "nd_id s \<noteq> nd_id n" and new: "map_of (mb_members (nd_membership s)) (nd_id n) = None"
    and inv: "membership_inv (nd_membership n)" "mb_localID (nd_membership n) = nd_id n"
    and join: "Node_handleMessage get now (join_message started n) (s, c) = Some (reply, s', c')"
    and send: "send seedAddr (join_message started n) = reply"
    and leave: "Node_handleMessage get later (leave_message n) (s', c'') = Some (reply', s'', c3)"
  shows "\<exists>n'. Node_Join send now started seedAddr n = (Inr (), n')
    \<and> map_option (\<lambda>i. (ni_Addr i, ni_Status i)) (map_of (mb_members (nd_membership s')) (nd_id n)) = Some (nc_BindAddr (nd_config n), NodeStatusUp)
    \<and> map_option (\<lambda>i. (ni_Addr i, ni_Status i)) (map_of (mb_members (nd_membership n')) (nd_id s)) = Some (seedAddr, NodeStatusUp)
    \<and> (\<exists>t \<in> set (sm_queue (nd_syncManager n')). tk_targetNode t = seedAddr)
    \<and> (seedAddr, leave_message n) \<in> set (fst (snd (Node_Leave later n')))
    \<and> map_of (mb_members (nd_membership s'')) = map_of (mb_members (nd_membership s))"
proof -
  let ?p = "\<lparr>jp_NodeID = nd_id s, jp_Address = nc_BindAddr (nd_config s), jp_Metadata = Some [(''role'', ''seed'')]\<rparr>"
  have reply: "reply = Inr (MsgJoin (nd_id s) (Some ?p))"
    and s': "nd_membership s' = AddMember now (nd_id n) (nc_BindAddr (nd_config n)) (Some [(''started'', started)]) (nd_membership s)"
    using join by (auto simp: Node_handleMessage_def handleJoinMessage_def join_message_def)
  have s'': "nd_membership s'' = RemoveMember later (nd_id n) True (nd_membership s')"
    using leave by (auto simp: Node_handleMessage_def handleLeaveMessage_def leave_message_def)
  define n' where "n' = n\<lparr>nd_membership := AddMember now (nd_id s) seedAddr (Some [(''role'', ''seed'')]) (nd_membership n),
                         nd_syncManager := TriggerSync seedAddr (nd_syncManager n)\<rparr>"
  have joined: "Node_Join send now started seedAddr n = (Inr (), n')"
    using run addr send by (simp add: Node_Join_def join_message_def reply n'_def)
  have seed: "map_option (\<lambda>i. (ni_Addr i, ni_Status i)) (map_of (mb_members (nd_membership n')) (nd_id s)) = Some (seedAddr, NodeStatusUp)"
    by (simp add: n'_def AddMember_map split: option.splits)
  have queued: "\<exists>t \<in> set (sm_queue (nd_syncManager n')). tk_targetNode t = seedAddr"
    using mset_QueueSyncTask [of seedAddr "\<lparr>kr_Start = '''', kr_End = ''''\<rparr>" 2 "nd_syncManager n"]
    by (simp add: n'_def TriggerSync_def flip: set_mset_mset)
  have "(seedAddr, leave_message n) \<in> set (fst (snd (Node_Leave later n')))"
  proof -
    obtain i where i: "map_of (mb_members (nd_membership n')) (nd_id s) = Some i" "ni_Addr i = seedAddr" using seed by auto
    have "membership_inv (nd_membership n')" unfolding n'_def using inv by (simp add: inv_AddMember)
    then have "ni_ID i = nd_id s" using i by (simp add: membership_inv_alt)
    moreover have "i \<in> set (Members (nd_membership n'))" using map_of_SomeD [OF i(1)] by (force simp: Members_def)
    ultimately show ?thesis using run ids i(2) by (auto simp: Node_Leave_def leave_message_def n'_def Let_def)
  qed
  moreover have "map_of (mb_members (nd_membership s'')) = map_of (mb_members (nd_membership s))"
    using new by (simp add: s'' s' RemoveMember_map AddMember_map fun_upd_idem)
  ultimately show ?thesis
    using joined seed queued by (intro exI [of _ n'] conjI) (simp_all add: s' AddMember_map new)
qed

text \<open>The parts never fail to start.\<close>

lemma Node_Start_eq:
  "Node_Start now err n =
     (if nd_running n then (Inr (), n)
      else if err \<noteq> None then (Inl (Errorf ''failed to start transport: %w''), n)
      else (Inr (), n\<lparr>nd_membership := snd (Membership_Start now (nd_membership n)), nd_gossiper := snd (Gossiper_Start (nd_gossiper n)),
                      nd_syncManager := snd (SyncManager_Start (nd_syncManager n)), nd_running := True\<rparr>))"
  by (simp add: Node_Start_def Membership_Start_def Gossiper_Start_def SyncManager_Start_def Let_def split: option.splits)

definition node_at :: "string \<Rightarrow> string \<Rightarrow> Node" where
  "node_at nid addr = snd (Node_Start 1 None (projr (NewNode nid True [WithBindAddr addr])))"

definition answer_of :: "Node \<Rightarrow> string \<Rightarrow> NodeMessage \<Rightarrow> gerror + NodeMessage" where
  "answer_of s addr msg = fst (the (Node_handleMessage MemCache_Get 2 msg (s, empty_bytes)))"

lemma node_at_simps:
  "nid \<noteq> '''' \<Longrightarrow> nd_id (node_at nid addr) = nid" "nid \<noteq> '''' \<Longrightarrow> nd_running (node_at nid addr)"
  "nid \<noteq> '''' \<Longrightarrow> nc_BindAddr (nd_config (node_at nid addr)) = addr" "nid \<noteq> '''' \<Longrightarrow> mb_localID (nd_membership (node_at nid addr)) = nid"
  "nid \<noteq> '''' \<Longrightarrow> map fst (mb_members (nd_membership (node_at nid addr))) = [nid]"
  by (simp_all add: node_at_def NewNode_def Node_Start_def Membership_Start_def Gossiper_Start_def SyncManager_Start_def addLocalNode_def
      NewMembership_def NewGossiper_def NewSyncManager_def WithBindAddr_def DefaultNodeConfig_def WithSyncerInterval_def
      WithSyncerConcurrency_def WithMaxSyncItems_def Let_def)

lemma node_at_inv: "nid \<noteq> '''' \<Longrightarrow> membership_inv (nd_membership (node_at nid addr))"
  by (simp add: node_at_def NewNode_def Node_Start_eq Let_def inv_Start inv_new)

theorem join_leave_roundtrip_witness:
  "\<exists>n'. Node_Join (answer_of (node_at ''b'' ''b:1'')) 2 ''t'' ''b:1'' (node_at ''a'' ''a:1'') = (Inr (), n')
     \<and> (''b:1'', leave_message (node_at ''a'' ''a:1'')) \<in> set (fst (snd (Node_Leave 3 n')))"
proof -
  let ?a = "node_at ''a'' ''a:1''" and ?b = "node_at ''b'' ''b:1''"
  have new: "map_of (mb_members (nd_membership ?b)) (nd_id ?a) = None"
    using node_at_simps(5) [of "''b''" "''b:1''"] by (simp add: map_of_eq_None_iff node_at_simps flip: set_map)
  obtain reply b' c' where join: "Node_handleMessage MemCache_Get 2 (join_message ''t'' ?a) (?b, empty_bytes) = Some (reply, b', c')"
    by (simp add: Node_handleMessage_def join_message_def handleJoinMessage_def)
  obtain reply' b'' c'' where leave: "Node_handleMessage MemCache_Get 3 (leave_message ?a) (b', c') = Some (reply', b'', c'')"
    by (simp add: Node_handleMessage_def leave_message_def handleLeaveMessage_def)
  have send: "answer_of ?b ''b:1'' (join_message ''t'' ?a) = reply" by (simp add: answer_of_def join)
  show ?thesis
    using join_leave_roundtrip [where n = ?a and s = ?b and seedAddr = "''b:1''" and send = "answer_of ?b", OF _ _ _ _ new node_at_inv _ join send leave]
    by (auto simp: node_at_simps)
qed

section \<open>Reachable nodes\<close>

text \<open>The steps of a node: its life cycle, the messages it handles, the ticks of its probe and synchronisation loops
  and the ends of its probes. \<open>probes\<close> are the nodes whose probes are in flight.\<close>

inductive node_step :: "('c, 'a anyval) cache_get \<Rightarrow> ('c, 'a anyval) cache_put \<Rightarrow> string list \<times> Node \<times> 'c \<Rightarrow> string list \<times> Node \<times> 'c \<Rightarrow> bool"
  for get put where
  start: "node_step get put (probes, n, c) (probes, snd (Node_Start now err n), c)"
| stop: "node_step get put (probes, n, c) (probes, snd (Node_Stop n), c)"
| join: "node_step get put (probes, n, c) (probes, snd (Node_Join send now started addr n), c)"
| leave: "node_step get put (probes, n, c) (probes, snd (snd (Node_Leave now n)), c)"
| message: "Node_handleMessage get now msg (n, c) = Some (r, n', c') \<Longrightarrow> node_step get put (probes, n, c) (probes, n', c')"
| tick: "probe_tick now probes (nd_membership n) = (probes', m) \<Longrightarrow> node_step get put (probes, n, c) (probes', n\<lparr>nd_membership := m\<rparr>, c)"
| probed: "nid \<in> set probes \<Longrightarrow>
    node_step get put (probes, n, c) (remove1 nid probes, n\<lparr>nd_membership := probe_done now nid answered (nd_membership n)\<rparr>, c)"
| sync: "processSyncTasks put sendSync now (nd_syncManager n, c, mb_events (nd_membership n)) = Some (sm, c', events) \<Longrightarrow>
    node_step get put (probes, n, c) (probes, n\<lparr>nd_syncManager := sm, nd_membership := (nd_membership n)\<lparr>mb_events := events\<rparr>\<rparr>, c')"

inductive node_reachable :: "('c, 'a anyval) cache_get \<Rightarrow> ('c, 'a anyval) cache_put \<Rightarrow> string list \<times> Node \<times> 'c \<Rightarrow> bool" for get put where
  init: "NewNode nid True options = Inr n \<Longrightarrow> node_reachable get put ([], n, c)"
| step: "node_reachable get put s \<Longrightarrow> node_step get put s s' \<Longrightarrow> node_reachable get put s'"

definition queue_sorted :: "SyncManager \<Rightarrow> bool" where
  "queue_sorted sm \<longleftrightarrow> sorted_wrt (\<lambda>s t. tk_priority s \<ge> tk_priority t) (sm_queue sm)"

definition node_inv :: "string list \<times> Node \<times> 'c \<Rightarrow> bool" where
  "node_inv s \<longleftrightarrow> (let (probes, n, _) = s in
     detector_inv (nd_id n) (probes, nd_membership n) \<and> gs_localID (nd_gossiper n) = nd_id n \<and> queue_sorted (nd_syncManager n))"

lemma queue_sorted_QueueSyncTask: "queue_sorted sm \<Longrightarrow> queue_sorted (QueueSyncTask target r p sm)"
proof -
  let ?t = "\<lparr>tk_targetNode = target, tk_keyRange = r, tk_priority = p\<rparr>"
  assume "queue_sorted sm"
  then have s: "sorted_wrt (\<lambda>s t. tk_priority s \<ge> tk_priority t) (sm_queue sm)" by (simp add: queue_sorted_def)
  have "sm_queue (QueueSyncTask target r p sm) = filter (\<lambda>s. tk_priority s \<ge> p) (sm_queue sm) @ ?t # filter (\<lambda>s. tk_priority s < p) (sm_queue sm)"
    using queue_task_queue [OF s, of ?t] by (simp add: queue_task_def)
  then show ?thesis using queue_sorted_step(1) [OF s, of p] by (auto simp: queue_sorted_def sorted_wrt_append)
qed

lemma queue_sorted_syncToNode:
  "syncToNode put send now target r (sm, c, ev) = Some (sm', c', ev') \<Longrightarrow> queue_sorted sm \<Longrightarrow> queue_sorted sm'"
proof -
  assume run: "syncToNode put send now target r (sm, c, ev) = Some (sm', c', ev')" and s: "queue_sorted sm"
  have upd: "queue_sorted (x\<lparr>sm_processing := ps\<rparr>) = queue_sorted x" for x ps by (simp add: queue_sorted_def)
  show ?thesis
    using run s by (auto simp: syncToNode_def Let_def bind_eq_Some_conv upd queue_sorted_QueueSyncTask split: if_splits sync_reply.splits)
qed

lemma queue_sorted_process:
  "processSyncTasks put send now (sm, c, ev) = Some (sm', c', ev') \<Longrightarrow> queue_sorted sm \<Longrightarrow> queue_sorted sm'"
proof -
  have tasks: "run_tasks put send now ts (sm, c, ev) = Some (sm', c', ev') \<Longrightarrow> queue_sorted sm \<Longrightarrow> queue_sorted sm'" for ts sm c ev sm' c' ev'
  proof (induction ts arbitrary: sm c ev)
    case (Cons t ts)
    then show ?case by (auto simp: bind_eq_Some_conv dest: queue_sorted_syncToNode)
  qed simp
  assume "processSyncTasks put send now (sm, c, ev) = Some (sm', c', ev')" "queue_sorted sm"
  then show ?thesis
    by (auto simp: processSyncTasks_def Let_def queue_sorted_def sorted_wrt_drop split: if_splits dest!: tasks)
qed

text \<open>Every step of a node is a sequence of steps of its membership, so that the invariants of the membership carry over.\<close>

lemma message_detector:
  assumes "Node_handleMessage get now msg (n, c) = Some (r, n', c')" "gs_localID (nd_gossiper n) = mb_localID (nd_membership n)"
  shows "detector_step (probes, nd_membership n) (probes, nd_membership n') \<or> nd_membership n' = nd_membership n"
    and "nd_id n' = nd_id n" "nd_gossiper n' = nd_gossiper n" "nd_syncManager n' = nd_syncManager n"
proof -
  show "nd_id n' = nd_id n" "nd_gossiper n' = nd_gossiper n" "nd_syncManager n' = nd_syncManager n"
    using assms(1) by (auto simp: Node_handleMessage_def handleJoinMessage_def handleLeaveMessage_def handlePingMessage_def bind_eq_Some_conv
        split: NodeMessage.splits option.splits prod.splits)
  show "detector_step (probes, nd_membership n) (probes, nd_membership n') \<or> nd_membership n' = nd_membership n"
  proof (cases msg)
    case (MsgGossip sender payload)
    then show ?thesis using assms detector_step.gossip [OF assms(2), of probes now True sender payload]
      by (auto simp: Node_handleMessage_def split: prod.splits)
  qed (use assms in \<open>auto simp: Node_handleMessage_def handleJoinMessage_def handleLeaveMessage_def handlePingMessage_def bind_eq_Some_conv
        intro: detector_step.join detector_step.leave detector_step.ping split: option.splits\<close>)
qed

lemma detector_inv_events [simp]: "detector_inv lid (probes, m\<lparr>mb_events := ev\<rparr>) = detector_inv lid (probes, m)"
  by (simp add: detector_inv_def membership_inv_def)

lemma NewSyncManager_queue: "sm_queue (NewSyncManager nid [WithSyncerInterval i, WithSyncerConcurrency k, WithMaxSyncItems mx]) = []"
  by (simp add: NewSyncManager_def WithSyncerInterval_def WithSyncerConcurrency_def WithMaxSyncItems_def)

lemma node_inv_step: "node_step get put s s' \<Longrightarrow> node_inv s \<Longrightarrow> node_inv s'"
proof (induction rule: node_step.induct)
  case (start probes n c now err)
  then show ?case
    using detector_inv_step [OF detector_step.start, of "nd_id n" probes "nd_membership n" now]
    by (auto simp: node_inv_def Node_Start_eq Gossiper_Start_def SyncManager_Start_def queue_sorted_def)
next
  case (stop probes n c)
  then show ?case
    using detector_inv_step [OF detector_step.stop, of "nd_id n" probes "nd_membership n"]
    by (auto simp: node_inv_def Node_Stop_def Gossiper_Stop_def SyncManager_Stop_def queue_sorted_def Let_def)
next
  case (join probes n c send now started addr)
  have "detector_inv (nd_id n) (probes, AddMember now nid addr md (nd_membership n))" for nid md
    using detector_inv_step [OF detector_step.join] join by (simp add: node_inv_def)
  then show ?case using join
    by (auto simp: node_inv_def Node_Join_def TriggerSync_def queue_sorted_QueueSyncTask split: sum.splits NodeMessage.splits option.splits)
next
  case (leave probes n c now)
  then show ?case using detector_inv_step [OF detector_step.leave] by (auto simp: node_inv_def Node_Leave_def Let_def)
next
  case (message now msg n c r n' c' probes)
  then have "gs_localID (nd_gossiper n) = mb_localID (nd_membership n)" by (simp add: node_inv_def detector_inv_def)
  note md = message_detector [OF message.hyps this]
  have inv: "detector_inv (nd_id n) (probes, nd_membership n)" using message.prems by (simp add: node_inv_def)
  have "detector_inv (nd_id n) (probes, nd_membership n')"
    using md(1) [of probes]
  proof
    assume "detector_step (probes, nd_membership n) (probes, nd_membership n')"
    then show ?thesis using inv by (rule detector_inv_step)
  qed (use inv in simp)
  then show ?case using md(2-4) message.prems by (simp add: node_inv_def)
next
  case (tick now probes n probes' m c)
  then show ?case using detector_inv_tick [of "nd_id n" probes "nd_membership n" now] by (simp add: node_inv_def)
next
  case (probed nid probes n c now answered)
  then show ?case using detector_inv_step [OF detector_step.probed] by (simp add: node_inv_def)
next
  case (sync sendSync now n c sm c' events probes)
  then show ?case using queue_sorted_process by (fastforce simp: node_inv_def)
qed

text \<open>C19. A cluster node under every interleaving of its life cycle, messages, probes and synchronisation rounds, over
  any cache and with any replies: its members are filed once and under their own IDs, every suspected member has
  a time of suspicion, the node itself is never suspected or failed in its own list, and its synchronisation queue is
  in order of priority.\<close>

theorem node_reachable_inv:
  assumes "node_reachable get put (probes, n, c)"
  shows "membership_inv (nd_membership n) \<and> mb_localID (nd_membership n) = nd_id n \<and> gs_localID (nd_gossiper n) = nd_id n
    \<and> nd_id n \<notin> set probes \<and> sorted_wrt (\<lambda>s t. tk_priority s \<ge> tk_priority t) (sm_queue (nd_syncManager n))"
proof -
  have "node_inv s" if "node_reachable get put s" for s
    using that
  proof (induction rule: node_reachable.induct)
    case (init nid options n c)
    then show ?case
      by (auto simp: NewNode_def Let_def node_inv_def detector_inv_def inv_new queue_sorted_def NewSyncManager_queue split: if_splits)
         (simp_all add: NewMembership_def NewGossiper_def)
  qed (rule node_inv_step)
  from this [OF assms] show ?thesis by (simp add: node_inv_def detector_inv_def queue_sorted_def)
qed

text \<open>Node a joins at node b and runs a round of probes.\<close>

definition node_joined :: Node where
  "node_joined = snd (Node_Join (answer_of (node_at ''b'' ''b:1'')) 2 ''t'' ''b:1'' (node_at ''a'' ''a:1''))"

lemma node_joined_reachable: "node_reachable MemCache_Get MemCache_Set ([], node_joined, empty_bytes)"
proof -
  have "NewNode ''a'' True [WithBindAddr ''a:1''] = Inr (projr (NewNode ''a'' True [WithBindAddr ''a:1'']))"
    by (simp add: NewNode_def Let_def)
  from node_reachable.init [OF this, of MemCache_Get MemCache_Set empty_bytes]
  have "node_reachable MemCache_Get MemCache_Set ([], node_at ''a'' ''a:1'', empty_bytes)"
    unfolding node_at_def by (rule node_reachable.step) (rule node_step.start)
  then show ?thesis unfolding node_joined_def by (rule node_reachable.step) (rule node_step.join)
qed

theorem node_reachable_inv_witness:
  "membership_inv (nd_membership node_joined) \<and> length (mb_members (nd_membership node_joined)) = 2 \<and> length (sm_queue (nd_syncManager node_joined)) = 1"
proof -
  have "length (mb_members (nd_membership node_joined)) = 2 \<and> length (sm_queue (nd_syncManager node_joined)) = 1"
    by (simp add: node_joined_def Node_Join_def answer_of_def Node_handleMessage_def handleJoinMessage_def node_at_def NewNode_def Node_Start_eq Let_def
        Membership_Start_def addLocalNode_def NewMembership_def WithBindAddr_def DefaultNodeConfig_def AddMember_def publish_def
        SyncManager_Start_def NewSyncManager_def TriggerSync_def QueueSyncTask_def WithSyncerInterval_def WithSyncerConcurrency_def WithMaxSyncItems_def)
  then show ?thesis using node_reachable_inv [OF node_joined_reachable] by simp
qed

end
