(* ===== verification/Distributed.thy ===== *)
theory Distributed
  imports ConstHash
begin

text \<open>
  The client of a remote cache node (\<^verbatim>\<open>src/cache/distributed/remote_cache.go\<close>) and the configuration of a
  distributed cache (\<^verbatim>\<open>src/cache/distributed/distributed_cache.go\<close>). The HTTP transport of the standard library
  is an argument \<open>http\<close>, which maps a request to an outcome and changes the network \<open>'e\<close>, in which the remote
  nodes are; the JSON codec is the pair \<open>marshal\<close>, \<open>unmarshal\<close>. Errors of the client are their full texts, since
  \<open>Get\<close> compares them.
\<close>

section \<open>Configuration\<close>

record DistributedCacheConfig =
  dc_NodeID :: string
  dc_Address :: string
  dc_Weight :: int
  dc_ReplicaFactor :: int
  dc_VirtualNodes :: int
  dc_OperationTimeout :: duration
  dc_MaxRetries :: int
  dc_RetryInterval :: duration

type_synonym DistributedOption = "DistributedCacheConfig \<Rightarrow> DistributedCacheConfig"

definition NewDistributedCacheConfig :: DistributedCacheConfig where
  "NewDistributedCacheConfig = \<lparr>dc_NodeID = '''', dc_Address = '''', dc_Weight = 1, dc_ReplicaFactor = 1, dc_VirtualNodes = 100,
     dc_OperationTimeout = 2 * 10 ^ 9, dc_MaxRetries = 3, dc_RetryInterval = 100 * 10 ^ 6\<rparr>"

definition Dist_WithNodeID :: "string \<Rightarrow> DistributedOption" where
  "Dist_WithNodeID nid cfg = cfg\<lparr>dc_NodeID := nid\<rparr>"

definition Dist_WithAddress :: "string \<Rightarrow> DistributedOption" where
  "Dist_WithAddress addr cfg = cfg\<lparr>dc_Address := addr\<rparr>"

definition Dist_WithWeight :: "int \<Rightarrow> DistributedOption" where
  "Dist_WithWeight weight cfg = (if weight > 0 then cfg\<lparr>dc_Weight := weight\<rparr> else cfg)"

definition Dist_WithReplicaFactor :: "int \<Rightarrow> DistributedOption" where
  "Dist_WithReplicaFactor factor cfg = (if factor > 0 then cfg\<lparr>dc_ReplicaFactor := factor\<rparr> else cfg)"

definition Dist_WithVirtualNodes :: "int \<Rightarrow> DistributedOption" where
  "Dist_WithVirtualNodes count cfg = (if count > 0 then cfg\<lparr>dc_VirtualNodes := count\<rparr> else cfg)"

definition Dist_WithOperationTimeout :: "duration \<Rightarrow> DistributedOption" where
  "Dist_WithOperationTimeout timeout cfg = (if timeout > 0 then cfg\<lparr>dc_OperationTimeout := timeout\<rparr> else cfg)"

definition Dist_WithRetryOptions :: "int \<Rightarrow> duration \<Rightarrow> DistributedOption" where
  "Dist_WithRetryOptions maxRetries interval cfg =
     (let cfg = (if maxRetries > 0 then cfg\<lparr>dc_MaxRetries := maxRetries\<rparr> else cfg)
      in if interval > 0 then cfg\<lparr>dc_RetryInterval := interval\<rparr> else cfg)"

section \<open>The client\<close>

record RemoteCache =
  rm_nodeID :: string
  rm_address :: string
  rm_timeout :: duration
  rm_retries :: int
  rm_interval :: duration
  rm_debugLog :: bool

type_synonym RemoteCacheOption = "RemoteCache \<Rightarrow> RemoteCache"

definition Remote_WithTimeout :: "duration \<Rightarrow> RemoteCacheOption" where
  "Remote_WithTimeout timeout rc = (if timeout > 0 then rc\<lparr>rm_timeout := timeout\<rparr> else rc)"

definition Remote_WithRetry :: "int \<Rightarrow> duration \<Rightarrow> RemoteCacheOption" where
  "Remote_WithRetry retries interval rc =
     (let rc = (if retries > 0 then rc\<lparr>rm_retries := retries\<rparr> else rc)
      in if interval > 0 then rc\<lparr>rm_interval := interval\<rparr> else rc)"

definition Remote_WithDebugLog :: "bool \<Rightarrow> RemoteCacheOption" where
  "Remote_WithDebugLog enabled rc = rc\<lparr>rm_debugLog := enabled\<rparr>"

definition NewRemoteCache :: "string \<Rightarrow> string \<Rightarrow> RemoteCacheOption list \<Rightarrow> RemoteCache" where
  "NewRemoteCache nodeID address options = fold (\<lambda>opt. opt) options
     \<lparr>rm_nodeID = nodeID, rm_address = address, rm_timeout = 2 * 10 ^ 9, rm_retries = 3, rm_interval = 100 * 10 ^ 6, rm_debugLog = False\<rparr>"

text \<open>Bodies of requests, the outcome of an HTTP exchange, and what the client needs of it.\<close>

datatype 'v remote_body = GetBody string | SetBody string 'v int | DelBody string

datatype http_outcome = RequestFailed string | Response nat string

type_synonym 'e http = "duration \<Rightarrow> string \<Rightarrow> string \<Rightarrow> string \<Rightarrow> 'e \<Rightarrow> http_outcome \<times> 'e"

text \<open>\<open>Do\<close> with a body: the text of the error, or the value in the response when one is wanted.\<close>

definition http_Do :: "('v remote_body \<Rightarrow> string option) \<Rightarrow> (string \<Rightarrow> 'v option) \<Rightarrow> 'e http \<Rightarrow> duration \<Rightarrow> string \<Rightarrow> string
    \<Rightarrow> 'v remote_body \<Rightarrow> bool \<Rightarrow> 'e \<Rightarrow> (string + 'v option) \<times> 'e" where
  "http_Do marshal unmarshal http timeout meth url body wanted e =
     (if url = '''' then (Inl ''empty URL'', e)
      else if meth = '''' then (Inl ''empty method'', e)
      else case marshal body of
        None \<Rightarrow> (Inl ''failed to marshal request body: '', e)
      | Some jsonData \<Rightarrow>
          (case http timeout meth url jsonData e of
             (RequestFailed err, e') \<Rightarrow> (Inl (''request failed: '' @ err), e')
           | (Response status text, e') \<Rightarrow>
               if status < 200 \<or> status \<ge> 300 then (Inl (''server returned error status '' @ itoa status @ '': '' @ text), e')
               else if \<not> wanted then (Inr None, e')
               else (case unmarshal text of None \<Rightarrow> (Inl ''failed to unmarshal response: '', e') | Some v \<Rightarrow> (Inr (Some v), e'))))"

text \<open>The attempts that are left after the first \<open>n\<close>.\<close>

fun remote_attempts :: "('e \<Rightarrow> (string + 'r) \<times> 'e) \<Rightarrow> nat \<Rightarrow> 'e \<Rightarrow> (string + 'r) \<times> 'e" where
  "remote_attempts attempt 0 e = attempt e"
| "remote_attempts attempt (Suc n) e = (case attempt e of (Inr r, e') \<Rightarrow> (Inr r, e') | (Inl _, e') \<Rightarrow> remote_attempts attempt n e')"

text \<open>With a negative number of retries, which no option sets, nothing is sent and there is no error.\<close>

definition doWithRetry :: "('v remote_body \<Rightarrow> string option) \<Rightarrow> (string \<Rightarrow> 'v option) \<Rightarrow> 'e http \<Rightarrow> string \<Rightarrow> string
    \<Rightarrow> 'v remote_body \<Rightarrow> bool \<Rightarrow> RemoteCache \<Rightarrow> 'e \<Rightarrow> (string + 'v option) \<times> 'e" where
  "doWithRetry marshal unmarshal http meth url body wanted rc e =
     (if rm_retries rc < 0 then (Inr None, e)
      else remote_attempts (http_Do marshal unmarshal http (rm_timeout rc) meth url body wanted) (nat (rm_retries rc)) e)"

definition remote_url :: "string \<Rightarrow> RemoteCache \<Rightarrow> string" where
  "remote_url path rc = ''http://'' @ rm_address rc @ path"

text \<open>\<open>Duration.Milliseconds\<close> rounds towards zero.\<close>

definition Milliseconds :: "duration \<Rightarrow> int" where
  "Milliseconds d = (if d < 0 then - (- d div 10 ^ 6) else d div 10 ^ 6)"

definition Remote_Get :: "('v remote_body \<Rightarrow> string option) \<Rightarrow> (string \<Rightarrow> 'v option) \<Rightarrow> 'e http \<Rightarrow> string \<Rightarrow> RemoteCache \<Rightarrow> 'e
    \<Rightarrow> (gerror + 'v option) \<times> 'e" where
  "Remote_Get marshal unmarshal http key rc e =
     (case doWithRetry marshal unmarshal http ''POST'' (remote_url ''/cache/get'' rc) (GetBody key) True rc e of
        (Inl err, e') \<Rightarrow> (if err = ''key not found'' then Inl ErrKeyNotFound else Inl (Errorf ''remote get failed: %w''), e')
      | (Inr v, e') \<Rightarrow> (Inr v, e'))"

definition Remote_Set :: "('v remote_body \<Rightarrow> string option) \<Rightarrow> (string \<Rightarrow> 'v option) \<Rightarrow> 'e http \<Rightarrow> string \<Rightarrow> 'v \<Rightarrow> duration \<Rightarrow> RemoteCache \<Rightarrow> 'e
    \<Rightarrow> (gerror + unit) \<times> 'e" where
  "Remote_Set marshal unmarshal http key value expiration rc e =
     (case doWithRetry marshal unmarshal http ''POST'' (remote_url ''/cache/set'' rc) (SetBody key value (Milliseconds expiration)) False rc e of
        (Inl _, e') \<Rightarrow> (Inl (Errorf ''remote set failed: %w''), e')
      | (Inr _, e') \<Rightarrow> (Inr (), e'))"

definition Remote_Del :: "('v remote_body \<Rightarrow> string option) \<Rightarrow> (string \<Rightarrow> 'v option) \<Rightarrow> 'e http \<Rightarrow> string \<Rightarrow> RemoteCache \<Rightarrow> 'e
    \<Rightarrow> (gerror + unit) \<times> 'e" where
  "Remote_Del marshal unmarshal http key rc e =
     (case doWithRetry marshal unmarshal http ''POST'' (remote_url ''/cache/delete'' rc) (DelBody key) False rc e of
        (Inl _, e') \<Rightarrow> (Inl (Errorf ''remote delete failed: %w''), e')
      | (Inr _, e') \<Rightarrow> (Inr (), e'))"

definition Remote_GetLocal :: "string \<Rightarrow> RemoteCache \<Rightarrow> gerror + 'v" where
  "Remote_GetLocal key rc = Inl (Errorf ''GetLocal not supported on remote cache'')"

definition Remote_SetLocal :: "string \<Rightarrow> 'v \<Rightarrow> duration \<Rightarrow> RemoteCache \<Rightarrow> gerror + unit" where
  "Remote_SetLocal key value expiration rc = Inl (Errorf ''SetLocal not supported on remote cache'')"

definition Remote_DelLocal :: "string \<Rightarrow> RemoteCache \<Rightarrow> gerror + unit" where
  "Remote_DelLocal key rc = Inl (Errorf ''DelLocal not supported on remote cache'')"

section \<open>Retries and errors\<close>

text \<open>A network that counts the requests sent.\<close>

definition counted_http :: "'e http \<Rightarrow> (nat \<times> 'e) http" where
  "counted_http http timeout meth url body = (\<lambda>(n, e). let (out, e') = http timeout meth url body e in (out, n + 1, e'))"

lemma http_Do_counts:
  "url \<noteq> '''' \<Longrightarrow> meth \<noteq> '''' \<Longrightarrow> marshal body \<noteq> None \<Longrightarrow>
   \<exists>r e'. http_Do marshal unmarshal (counted_http http) timeout meth url body wanted (n, e) = (r, n + 1, e')"
  by (auto simp: http_Do_def counted_http_def split: prod.splits http_outcome.splits option.splits)

lemma remote_attempts_counts:
  assumes "\<And>n e. \<exists>r e'. attempt (n, e) = (r, n + 1 :: nat, e')"
  shows "\<exists>r k e'. remote_attempts attempt m (n, e) = (r, n + k, e') \<and> 1 \<le> k \<and> k \<le> m + 1 \<and> (k < m + 1 \<longrightarrow> (\<exists>v. r = Inr v))"
proof (induction m arbitrary: n e)
  case 0
  show ?case using assms [of n e] by force
next
  case (Suc m)
  obtain r e' where a: "attempt (n, e) = (r, n + 1, e')" using assms by blast
  show ?case
  proof (cases r)
    case (Inl err)
    obtain r' k e'' where "remote_attempts attempt m (n + 1, e') = (r', n + 1 + k, e'')" "1 \<le> k" "k \<le> m + 1" "k < m + 1 \<longrightarrow> (\<exists>v. r' = Inr v)"
      using Suc.IH [of "n + 1" e'] by blast
    then show ?thesis using a Inl by (intro exI [of _ r'] exI [of _ "k + 1"] exI [of _ e'']) simp
  next
    case (Inr v)
    then show ?thesis using a by (intro exI [of _ r] exI [of _ 1] exI [of _ e']) simp
  qed
qed

text \<open>A remote call is retried a bounded number of times: for any behaviour of the network, a call of \<open>Set\<close> whose
  value can be encoded sends at least one request and at most one more than the configured number of retries, and
  when it sends fewer it is because the last one succeeded, so that the call reports no error.\<close>

theorem remote_set_bounded:
  assumes "rm_retries rc \<ge> 0" "marshal (SetBody key value (Milliseconds expiration)) \<noteq> None"
  shows "\<exists>r k e'. Remote_Set marshal unmarshal (counted_http http) key value expiration rc (0, e) = (r, k, e')
    \<and> 1 \<le> k \<and> int k \<le> rm_retries rc + 1 \<and> (int k < rm_retries rc + 1 \<longrightarrow> r = Inr ())"
proof -
  let ?do = "http_Do marshal unmarshal (counted_http http) (rm_timeout rc) ''POST'' (remote_url ''/cache/set'' rc)
    (SetBody key value (Milliseconds expiration)) False"
  have "\<exists>r e'. ?do (n, e) = (r, n + 1, e')" for n e
    using assms(2) by (intro http_Do_counts) (simp_all add: remote_url_def)
  then obtain r k e' where "remote_attempts ?do (nat (rm_retries rc)) (0, e) = (r, 0 + k, e')" "1 \<le> k" "k \<le> nat (rm_retries rc) + 1"
    "k < nat (rm_retries rc) + 1 \<longrightarrow> (\<exists>v. r = Inr v)"
    using remote_attempts_counts [of ?do "nat (rm_retries rc)" 0 e] by blast
  then show ?thesis
    using assms(1) by (cases r) (auto simp: Remote_Set_def doWithRetry_def)
qed

text \<open>No text of an error of the client is the one that \<open>Get\<close> looks for.\<close>

lemma http_Do_error: "fst (http_Do marshal unmarshal http timeout meth url body wanted e) \<noteq> Inl ''key not found''"
  by (auto simp: http_Do_def split: option.splits prod.splits http_outcome.splits)

lemma remote_attempts_error:
  "(\<And>e. fst (attempt e) \<noteq> Inl t) \<Longrightarrow> fst (remote_attempts attempt n e) \<noteq> Inl t"
proof (induction n arbitrary: e)
  case (Suc n)
  then show ?case by (auto split: prod.splits sum.splits)
qed simp

text \<open>Reading a remote cache never reports that the key does not exist, whatever the remote node answers: the
  client prefixes every error with what it was doing, and \<open>Get\<close> compares the whole text. A missing key is
  reported as a failure of the remote node, or, if the node answers with success, as a value.\<close>

theorem remote_get_never_reports_missing:
  "fst (Remote_Get marshal unmarshal http key rc e) \<noteq> Inl ErrKeyNotFound"
proof -
  have "fst (doWithRetry marshal unmarshal http ''POST'' (remote_url ''/cache/get'' rc) (GetBody key) True rc e) \<noteq> Inl ''key not found''"
    unfolding doWithRetry_def
  proof (cases "rm_retries rc < 0")
    case False
    show "fst (if rm_retries rc < 0 then (Inr None, e) else remote_attempts (http_Do marshal unmarshal http (rm_timeout rc) ''POST''
        (remote_url ''/cache/get'' rc) (GetBody key) True) (nat (rm_retries rc)) e) \<noteq> Inl ''key not found''"
      unfolding if_not_P [OF False] by (rule remote_attempts_error) (rule http_Do_error)
  qed simp
  then show ?thesis by (auto simp: Remote_Get_def split: prod.splits sum.splits)
qed

theorem remote_set_bounded_witness:
  "\<exists>r e'. Remote_Set (\<lambda>_. Some ''{}'') (\<lambda>_. None) (counted_http (\<lambda>_ _ _ _ e. (RequestFailed ''refused'', e))) ''k'' () 5 (NewRemoteCache ''b'' ''b:1'' []) (0, ())
     = (r, 4, e')"
proof -
  let ?http = "counted_http (\<lambda>_ _ _ _ e. (RequestFailed ''refused'', e)) :: (nat \<times> unit) http" and ?rc = "NewRemoteCache ''b'' ''b:1'' []"
  have r: "rm_retries ?rc = 3" by (simp add: NewRemoteCache_def)
  obtain r k e' where k: "Remote_Set (\<lambda>_. Some ''{}'') (\<lambda>_. None) ?http ''k'' () 5 ?rc (0, ()) = (r, k, e')"
    "int k \<le> 4" "int k < 4 \<longrightarrow> r = Inr ()"
    using remote_set_bounded [of ?rc "\<lambda>_. Some ''{}''" "''k''" "()" 5 "\<lambda>_. None" "\<lambda>_ _ _ _ e. (RequestFailed ''refused'', e)" "()"] r by auto
  have "remote_attempts (http_Do (\<lambda>_. Some ''{}'') (\<lambda>_. None) ?http t ''POST'' (remote_url ''/cache/set'' ?rc) b False) n (j, ())
      = (Inl (''request failed: '' @ ''refused''), j + n + 1, ())" for t n j and b :: "unit remote_body"
    by (induction n arbitrary: j) (simp_all add: http_Do_def counted_http_def remote_url_def)
  then have "fst (Remote_Set (\<lambda>_. Some ''{}'') (\<lambda>_. None) ?http ''k'' () 5 ?rc (0, ())) \<noteq> Inr ()"
    using r by (simp add: Remote_Set_def doWithRetry_def)
  then show ?thesis using k by auto
qed

end
