(* ===== verification/ShardedCluster.thy ===== *)
theory ShardedCluster
  imports NodeSharding ClusterNode Distributed
begin

text \<open>
  The node-sharded cache on top of a cluster: the distributor that turns cluster events into changes of the hash
  ring (\<^verbatim>\<open>src/cache/cluster/integration/node_distributor.go\<close>) and the cache that joins both
  (\<^verbatim>\<open>src/cache/cluster/integration/sharded_cluster_cache.go\<close>). The caches of the ring are the local cache, object
  0 of the store, and clients of remote nodes, each a new object. One step of the goroutine that reads the node's
  events is \<open>pump_event\<close>.
\<close>

section \<open>The distributor\<close>

datatype 'c cache_object = LocalObj 'c | RemoteObj RemoteCache

record NodeDistributor =
  di_localNodeID :: string
  di_nodeMap :: "string gomap"

definition NewNodeDistributor :: "string \<Rightarrow> NodeDistributor" where
  "NewNodeDistributor localNodeID = \<lparr>di_localNodeID = localNodeID, di_nodeMap = []\<rparr>"

text \<open>A reference that no node of the cache has.\<close>

definition fresh_ref :: "'c NodeShardedCache \<Rightarrow> nat" where
  "fresh_ref nsc = Suc (fold max (map snd (nsc_nodes nsc)) 0)"

definition add_remote :: "string \<Rightarrow> string \<Rightarrow> 'c cache_object NodeShardedCache \<Rightarrow> (gerror + unit) \<times> 'c cache_object NodeShardedCache" where
  "add_remote nodeID addr nsc =
     (let r = fresh_ref nsc in
      Nsc_AddNode nodeID (Some r) 1 (nsc\<lparr>nsc_store := (nsc_store nsc)(r := RemoteObj (NewRemoteCache nodeID addr []))\<rparr>))"

definition HandleClusterEvent :: "ClusterEvent \<Rightarrow> NodeDistributor \<times> 'c cache_object NodeShardedCache \<Rightarrow> NodeDistributor \<times> 'c cache_object NodeShardedCache" where
  "HandleClusterEvent event s =
     (let (nd, nsc) = s; nodeID = ce_NodeID event in
      case ce_Type event of
        EventNodeJoin \<Rightarrow>
          (case ce_Details event of
             DString nodeAddr \<Rightarrow>
               let nd = nd\<lparr>di_nodeMap := AList.update nodeID nodeAddr (di_nodeMap nd)\<rparr> in
               if nodeID \<noteq> di_localNodeID nd then (nd, snd (add_remote nodeID nodeAddr nsc)) else (nd, nsc)
           | _ \<Rightarrow> (nd, nsc))
      | EventNodeLeave \<Rightarrow>
          if nodeID = di_localNodeID nd then (nd, nsc)
          else (nd\<lparr>di_nodeMap := AList.delete nodeID (di_nodeMap nd)\<rparr>, snd (Nsc_RemoveNode nodeID nsc))
      | EventNodeFailed \<Rightarrow>
          if nodeID = di_localNodeID nd then (nd, nsc)
          else (nd\<lparr>di_nodeMap := AList.delete nodeID (di_nodeMap nd)\<rparr>, snd (Nsc_RemoveNode nodeID nsc))
      | EventNodeRecovered \<Rightarrow>
          if nodeID = di_localNodeID nd then (nd, nsc)
          else (case map_of (di_nodeMap nd) nodeID of None \<Rightarrow> (nd, nsc) | Some nodeAddr \<Rightarrow> (nd, snd (add_remote nodeID nodeAddr nsc)))
      | _ \<Rightarrow> (nd, nsc))"

fun InitFromMembers :: "NodeInfo list \<Rightarrow> NodeDistributor \<times> 'c cache_object NodeShardedCache
    \<Rightarrow> (gerror + unit) \<times> NodeDistributor \<times> 'c cache_object NodeShardedCache" where
  "InitFromMembers [] s = (Inr (), s)"
| "InitFromMembers (member # members) (nd, nsc) =
     (if ni_Status member \<noteq> NodeStatusUp \<and> ni_Status member \<noteq> NodeStatusSuspect \<or> ni_ID member = di_localNodeID nd
      then InitFromMembers members (nd, nsc)
      else let nd = nd\<lparr>di_nodeMap := AList.update (ni_ID member) (ni_Addr member) (di_nodeMap nd)\<rparr>;
               (r, nsc) = add_remote (ni_ID member) (ni_Addr member) nsc
           in case r of Inl _ \<Rightarrow> (Inl (Errorf ''failed to add node %s to hash ring: %w''), nd, nsc)
              | Inr _ \<Rightarrow> InitFromMembers members (nd, nsc))"

definition GetAllNodeAddresses :: "NodeDistributor \<Rightarrow> string gomap" where
  "GetAllNodeAddresses nd = fold (\<lambda>(nid, addr). AList.update nid addr) (di_nodeMap nd) []"

definition Distributor_Clear :: "NodeDistributor \<times> 'c cache_object NodeShardedCache \<Rightarrow> NodeDistributor \<times> 'c cache_object NodeShardedCache" where
  "Distributor_Clear s =
     (let (nd, nsc) = s in
      (nd\<lparr>di_nodeMap := []\<rparr>,
       fold (\<lambda>(nodeID, _) nsc. if nodeID \<noteq> di_localNodeID nd then snd (Nsc_RemoveNode nodeID nsc) else nsc) (di_nodeMap nd) nsc))"

section \<open>The cache\<close>

record 'c ShardedClusterCache =
  sc_shardedCache :: "'c cache_object NodeShardedCache"
  sc_node :: Node
  sc_nodeDistributor :: NodeDistributor
  sc_localNodeID :: string
  sc_address :: string
  sc_running :: bool

type_synonym 'c ShardedClusterCacheOption = "'c ShardedClusterCache \<Rightarrow> 'c ShardedClusterCache"

definition WithVirtualNodeCount :: "int \<Rightarrow> 'c ShardedClusterCacheOption" where
  "WithVirtualNodeCount vnodes scc =
     (if vnodes > 0 then scc\<lparr>sc_shardedCache := WithNodeHashReplicas vnodes (sc_shardedCache scc)\<rparr> else scc)"

definition Sharded_WithReplicaFactor :: "int \<Rightarrow> 'c ShardedClusterCacheOption" where
  "Sharded_WithReplicaFactor factor scc =
     (if factor > 0 then scc\<lparr>sc_shardedCache := WithNodeReplicaFactor factor (sc_shardedCache scc)\<rparr> else scc)"

definition NewShardedClusterCache :: "'c option \<Rightarrow> string \<Rightarrow> string \<Rightarrow> NodeOption list \<Rightarrow> 'c ShardedClusterCacheOption list \<Rightarrow> gerror + 'c ShardedClusterCache" where
  "NewShardedClusterCache localCache nodeID bindAddr clusterOptions cacheOptions =
     (case localCache of
        None \<Rightarrow> Inl (Errorf ''local cache cannot be nil'')
      | Some c \<Rightarrow>
          if nodeID = '''' then Inl (Errorf ''node ID cannot be empty'')
          else if bindAddr = '''' then Inl (Errorf ''bind address cannot be empty'')
          else let (r, shardedCache) = Nsc_AddNode nodeID (Some 0) 1 (NewNodeShardedCache (\<lambda>_. LocalObj c) []) in
            (case r of
               Inl _ \<Rightarrow> Inl (Errorf ''failed to add local cache to sharded cache: %w'')
             | Inr _ \<Rightarrow>
                 (case NewNode nodeID True ([WithBindAddr bindAddr, Node_WithNodeID nodeID] @ clusterOptions) of
                    Inl _ \<Rightarrow> Inl (Errorf ''failed to create cluster node: %w'')
                  | Inr node \<Rightarrow>
                      Inr (fold (\<lambda>opt. opt) cacheOptions
                        \<lparr>sc_shardedCache = shardedCache, sc_node = node, sc_nodeDistributor = NewNodeDistributor nodeID,
                         sc_localNodeID = nodeID, sc_address = bindAddr, sc_running = False\<rparr>))))"

definition Sharded_Start :: "instant \<Rightarrow> gerror option \<Rightarrow> 'c ShardedClusterCache \<Rightarrow> (gerror + unit) \<times> 'c ShardedClusterCache" where
  "Sharded_Start now transportErr scc =
     (if sc_running scc then (Inr (), scc)
      else let (r, n) = Node_Start now transportErr (sc_node scc); scc = scc\<lparr>sc_node := n\<rparr> in
        case r of Inl _ \<Rightarrow> (Inl (Errorf ''failed to start cluster node: %w''), scc) | Inr _ \<Rightarrow> (Inr (), scc\<lparr>sc_running := True\<rparr>))"

definition Sharded_Stop :: "'c ShardedClusterCache \<Rightarrow> (gerror + unit) \<times> 'c ShardedClusterCache" where
  "Sharded_Stop scc =
     (if \<not> sc_running scc then (Inr (), scc)
      else let (r, n) = Node_Stop (sc_node scc); scc = scc\<lparr>sc_node := n\<rparr> in
        case r of Inl _ \<Rightarrow> (Inl (Errorf ''failed to stop cluster node: %w''), scc)
        | Inr _ \<Rightarrow> let (nd, nsc) = Distributor_Clear (sc_nodeDistributor scc, sc_shardedCache scc) in
            (Inr (), scc\<lparr>sc_nodeDistributor := nd, sc_shardedCache := nsc, sc_running := False\<rparr>))"

definition Sharded_Join :: "(string \<Rightarrow> NodeMessage \<Rightarrow> gerror + NodeMessage) \<Rightarrow> instant \<Rightarrow> string \<Rightarrow> string \<Rightarrow> 'c ShardedClusterCache
    \<Rightarrow> (gerror + unit) \<times> 'c ShardedClusterCache" where
  "Sharded_Join send now started seedNodeAddr scc =
     (if \<not> sc_running scc then (Inl (Errorf ''cache not started''), scc)
      else let (r, n) = Node_Join send now started seedNodeAddr (sc_node scc); scc = scc\<lparr>sc_node := n\<rparr> in
        case r of Inl _ \<Rightarrow> (Inl (Errorf ''failed to join cluster: %w''), scc)
        | Inr _ \<Rightarrow>
            let (r, nd, nsc) = InitFromMembers (Node_Members (sc_node scc)) (sc_nodeDistributor scc, sc_shardedCache scc);
                scc = scc\<lparr>sc_nodeDistributor := nd, sc_shardedCache := nsc\<rparr>
            in (case r of Inl _ \<Rightarrow> (Inl (Errorf ''failed to initialize node distributor: %w''), scc) | Inr _ \<Rightarrow> (Inr (), scc)))"

definition Sharded_Leave :: "instant \<Rightarrow> 'c ShardedClusterCache \<Rightarrow> (gerror + unit) \<times> (string \<times> NodeMessage) list \<times> 'c ShardedClusterCache" where
  "Sharded_Leave now scc =
     (if \<not> sc_running scc then (Inr (), [], scc)
      else let (r, msgs, n) = Node_Leave now (sc_node scc) in (r, msgs, scc\<lparr>sc_node := n\<rparr>))"

definition Sharded_Members :: "'c ShardedClusterCache \<Rightarrow> NodeInfo list" where
  "Sharded_Members scc = Node_Members (sc_node scc)"

definition Sharded_IsCoordinator :: "'c ShardedClusterCache \<Rightarrow> bool" where
  "Sharded_IsCoordinator scc = Node_IsCoordinator (sc_node scc)"

text \<open>One step of \<open>handleClusterEvents\<close>: the next event of the channel, if there is one, goes to the distributor.\<close>

definition pump_event :: "'c ShardedClusterCache \<Rightarrow> 'c ShardedClusterCache" where
  "pump_event scc =
     (let m = nd_membership (sc_node scc) in
      case mb_events m of
        None \<Rightarrow> scc
      | Some p \<Rightarrow>
          (case ep_eventCh p of
             Some (event # rest) \<Rightarrow>
               let (nd, nsc) = HandleClusterEvent event (sc_nodeDistributor scc, sc_shardedCache scc) in
               scc\<lparr>sc_node := (sc_node scc)\<lparr>nd_membership := m\<lparr>mb_events := Some (p\<lparr>ep_eventCh := Some rest\<rparr>)\<rparr>\<rparr>,
                   sc_nodeDistributor := nd, sc_shardedCache := nsc\<rparr>
           | _ \<Rightarrow> scc))"

definition Sharded_Get :: "('c cache_object, 'v) cache_get \<Rightarrow> ('c ShardedClusterCache, 'v) cache_get" where
  "Sharded_Get get now key scc = do {
     (r, nsc) \<leftarrow> Nsc_Get get now key (sc_shardedCache scc); Some (r, scc\<lparr>sc_shardedCache := nsc\<rparr>) }"

definition Sharded_Set :: "('c cache_object, 'v) cache_put \<Rightarrow> ('c ShardedClusterCache, 'v) cache_put" where
  "Sharded_Set put now key value expiration scc = do {
     (r, nsc) \<leftarrow> Nsc_Set put now key value expiration (sc_shardedCache scc); Some (r, scc\<lparr>sc_shardedCache := nsc\<rparr>) }"

definition Sharded_Del :: "'c cache_object cache_del \<Rightarrow> 'c ShardedClusterCache cache_del" where
  "Sharded_Del del key scc = do {
     (r, nsc) \<leftarrow> Nsc_Del del key (sc_shardedCache scc); Some (r, scc\<lparr>sc_shardedCache := nsc\<rparr>) }"

definition Sharded_GetNodeCount :: "'c ShardedClusterCache \<Rightarrow> nat" where
  "Sharded_GetNodeCount scc = length (Nsc_GetNodeIDs (sc_shardedCache scc))"

definition Sharded_ReplicaFactor :: "'c ShardedClusterCache \<Rightarrow> int" where
  "Sharded_ReplicaFactor scc = Nsc_ReplicaFactor (sc_shardedCache scc)"

record ShardedClusterInfo = ClusterCacheInfo +
  cl_node_count :: nat
  cl_replica_factor :: int

definition Sharded_GetClusterInfo :: "'c ShardedClusterCache \<Rightarrow> ShardedClusterInfo" where
  "Sharded_GetClusterInfo scc =
     (let members = Sharded_Members scc in
      \<lparr>cl_node_id = sc_localNodeID scc, cl_address = sc_address scc, cl_is_coordinator = Sharded_IsCoordinator scc,
       cl_member_count = length members, cl_up = count_status NodeStatusUp members, cl_suspect = count_status NodeStatusSuspect members,
       cl_down = count_status NodeStatusDown members, cl_left = count_status NodeStatusLeft members,
       cl_node_count = Sharded_GetNodeCount scc, cl_replica_factor = Sharded_ReplicaFactor scc\<rparr>)"

definition Sharded_SetLocalMetadata :: "string gomap option \<Rightarrow> 'c ShardedClusterCache \<Rightarrow> 'c ShardedClusterCache" where
  "Sharded_SetLocalMetadata metadata scc =
     scc\<lparr>sc_node := (sc_node scc)\<lparr>nd_membership := SetLocalMetadata metadata (nd_membership (sc_node scc))\<rparr>\<rparr>"

definition Sharded_Events :: "'c ShardedClusterCache \<Rightarrow> ClusterEvent list option" where
  "Sharded_Events scc = Node_Events (sc_node scc)"

definition Sharded_AddNode :: "string \<Rightarrow> string \<Rightarrow> 'c ShardedClusterCache \<Rightarrow> (gerror + unit) \<times> 'c ShardedClusterCache" where
  "Sharded_AddNode nodeID address scc =
     (let (r, nsc) = add_remote nodeID address (sc_shardedCache scc) in (r, scc\<lparr>sc_shardedCache := nsc\<rparr>))"

definition Sharded_RemoveNode :: "string \<Rightarrow> 'c ShardedClusterCache \<Rightarrow> (gerror + unit) \<times> 'c ShardedClusterCache" where
  "Sharded_RemoveNode nodeID scc =
     (let (r, nsc) = Nsc_RemoveNode nodeID (sc_shardedCache scc) in (r, scc\<lparr>sc_shardedCache := nsc\<rparr>))"

section \<open>The ring follows the events\<close>

text \<open>Which remote nodes the ring has, with the addresses of their clients, and what an event should do to them.\<close>

definition ring_view :: "string \<Rightarrow> 'c cache_object NodeShardedCache \<Rightarrow> string \<rightharpoonup> string" where
  "ring_view lid nsc k =
     (if k = lid then None
      else case map_of (nsc_nodes nsc) k of
        None \<Rightarrow> None
      | Some r \<Rightarrow> (case nsc_store nsc r of RemoteObj rc \<Rightarrow> Some (rm_address rc) | LocalObj _ \<Rightarrow> None))"

definition view_step :: "string \<Rightarrow> ClusterEvent \<Rightarrow> (string \<rightharpoonup> string) \<Rightarrow> (string \<rightharpoonup> string)" where
  "view_step lid event A =
     (let k = ce_NodeID event in
      case (ce_Type event, ce_Details event) of
        (EventNodeJoin, DString addr) \<Rightarrow> if k = lid \<or> k \<in> dom A then A else A(k \<mapsto> addr)
      | (EventNodeLeave, _) \<Rightarrow> A(k := None)
      | (EventNodeFailed, _) \<Rightarrow> A(k := None)
      | _ \<Rightarrow> A)"

definition distributor_inv :: "string \<Rightarrow> NodeDistributor \<times> 'c cache_object NodeShardedCache \<Rightarrow> bool" where
  "distributor_inv lid s \<longleftrightarrow> (let (nd, nsc) = s in
     di_localNodeID nd = lid \<and> nsc_inv nsc \<and> lid \<in> dom (map_of (nsc_nodes nsc))
     \<and> dom (ring_view lid nsc) = dom (map_of (nsc_nodes nsc)) - {lid}
     \<and> dom (map_of (di_nodeMap nd)) - {lid} \<subseteq> dom (map_of (nsc_nodes nsc)))"

lemma fresh_ref_fresh: "map_of (nsc_nodes nsc) k = Some r \<Longrightarrow> r < fresh_ref nsc"
proof -
  have le: "x \<in> set xs \<Longrightarrow> x \<le> fold max xs a" and base: "a \<le> fold max xs a" for x :: nat and xs a
  proof (induction xs arbitrary: a)
    case (Cons y xs)
    { case 1 then show ?case using Cons(1) Cons(2) [of "max y a"] by auto
    next case 2 then show ?case using Cons(2) [of "max y a"] by simp }
  qed simp_all
  assume "map_of (nsc_nodes nsc) k = Some r"
  then have "r \<in> set (map snd (nsc_nodes nsc))" by (force dest: map_of_SomeD)
  from le [OF this, of 0] show ?thesis by (simp add: fresh_ref_def)
qed

lemma nsc_inv_store [simp]: "nsc_inv (nsc\<lparr>nsc_store := st\<rparr>) = nsc_inv nsc"
  by (simp add: nsc_inv_def)

lemma add_remote_nodes:
  assumes "nsc_inv nsc"
  shows "nsc_inv (snd (add_remote k addr nsc))"
    and "map_of (nsc_nodes (snd (add_remote k addr nsc))) =
      (if map_of (nsc_nodes nsc) k \<noteq> None then map_of (nsc_nodes nsc) else (map_of (nsc_nodes nsc))(k \<mapsto> fresh_ref nsc))"
  using nsc_step_inv [of "nsc\<lparr>nsc_store := (nsc_store nsc)(fresh_ref nsc := RemoteObj (NewRemoteCache k addr []))\<rparr>" "NAdd k (Some (fresh_ref nsc)) 1"] assms
  by (auto simp: add_remote_def Let_def Nsc_AddNode_def split: if_splits)

lemma add_remote_view:
  assumes "nsc_inv nsc"
  shows "ring_view lid (snd (add_remote k addr nsc)) =
    (if k = lid \<or> map_of (nsc_nodes nsc) k \<noteq> None then ring_view lid nsc else (ring_view lid nsc)(k \<mapsto> addr))"
proof
  fix j
  let ?s = "snd (add_remote k addr nsc)"
  have store: "nsc_store ?s = (nsc_store nsc)(fresh_ref nsc := RemoteObj (NewRemoteCache k addr []))"
    by (simp add: add_remote_def Let_def Nsc_AddNode_def)
  have old: "nsc_store ?s r = nsc_store nsc r" if "map_of (nsc_nodes nsc) j = Some r" for r
    using fresh_ref_fresh [OF that] by (simp add: store)
  show "ring_view lid ?s j = (if k = lid \<or> map_of (nsc_nodes nsc) k \<noteq> None then ring_view lid nsc else (ring_view lid nsc)(k \<mapsto> addr)) j"
    using old by (auto simp: ring_view_def add_remote_nodes(2) [OF assms] store NewRemoteCache_def split: option.splits)
qed

lemma remove_view:
  assumes "nsc_inv nsc" "k \<noteq> lid"
  shows "nsc_inv (snd (Nsc_RemoveNode k nsc))" "ring_view lid (snd (Nsc_RemoveNode k nsc)) = (ring_view lid nsc)(k := None)"
    and "map_of (nsc_nodes (snd (Nsc_RemoveNode k nsc))) = (map_of (nsc_nodes nsc))(k := None)"
proof -
  show inv: "nsc_inv (snd (Nsc_RemoveNode k nsc))" using nsc_step_inv [OF assms(1), of "NRemove k"] by simp
  show nodes: "map_of (nsc_nodes (snd (Nsc_RemoveNode k nsc))) = (map_of (nsc_nodes nsc))(k := None)"
    by (auto simp: Nsc_RemoveNode_def)
  have store: "nsc_store (snd (Nsc_RemoveNode k nsc)) = nsc_store nsc" by (simp add: Nsc_RemoveNode_def)
  show "ring_view lid (snd (Nsc_RemoveNode k nsc)) = (ring_view lid nsc)(k := None)"
    unfolding ring_view_def nodes store by (simp add: fun_eq_iff)
qed

lemma distributor_invI:
  assumes "di_localNodeID nd = lid" "nsc_inv nsc" "lid \<in> dom (map_of (nsc_nodes nsc))"
    and "dom (ring_view lid nsc) = dom (map_of (nsc_nodes nsc)) - {lid}" "dom (map_of (di_nodeMap nd)) - {lid} \<subseteq> dom (map_of (nsc_nodes nsc))"
  shows "distributor_inv lid (nd, nsc)"
  using assms by (simp add: distributor_inv_def)

lemma distributor_invD:
  assumes "distributor_inv lid (nd, nsc)"
  shows "di_localNodeID nd = lid" "nsc_inv nsc" "lid \<in> dom (map_of (nsc_nodes nsc))"
    and "dom (ring_view lid nsc) = dom (map_of (nsc_nodes nsc)) - {lid}" "dom (map_of (di_nodeMap nd)) - {lid} \<subseteq> dom (map_of (nsc_nodes nsc))"
  using assms by (simp_all add: distributor_inv_def)

text \<open>Adding a remote node that the map knows, or that it gets with the node, and removing one.\<close>

lemma distributor_add:
  assumes inv: "distributor_inv lid (nd, nsc)" and k: "k \<noteq> lid" and nd': "di_localNodeID nd' = lid"
    "dom (map_of (di_nodeMap nd')) \<subseteq> insert k (dom (map_of (di_nodeMap nd)))"
  shows "distributor_inv lid (nd', snd (add_remote k addr nsc))"
    and "ring_view lid (snd (add_remote k addr nsc)) = (if k \<in> dom (ring_view lid nsc) then ring_view lid nsc else (ring_view lid nsc)(k \<mapsto> addr))"
proof -
  note D = distributor_invD [OF inv]
  have in_ring: "map_of (nsc_nodes nsc) k \<noteq> None \<longleftrightarrow> k \<in> dom (ring_view lid nsc)" using D(4) k by auto
  show view: "ring_view lid (snd (add_remote k addr nsc)) = (if k \<in> dom (ring_view lid nsc) then ring_view lid nsc else (ring_view lid nsc)(k \<mapsto> addr))"
    using add_remote_view [OF D(2), of lid k addr] k unfolding in_ring by simp
  have nodes: "dom (map_of (nsc_nodes (snd (add_remote k addr nsc)))) = insert k (dom (map_of (nsc_nodes nsc)))"
    by (auto simp: add_remote_nodes(2) [OF D(2)])
  show "distributor_inv lid (nd', snd (add_remote k addr nsc))"
  proof (rule distributor_invI)
    show "dom (map_of (di_nodeMap nd')) - {lid} \<subseteq> dom (map_of (nsc_nodes (snd (add_remote k addr nsc))))"
      unfolding nodes using nd'(2) D(5) by blast
    show "dom (ring_view lid (snd (add_remote k addr nsc))) = dom (map_of (nsc_nodes (snd (add_remote k addr nsc)))) - {lid}"
      unfolding nodes view using D(4) k by auto
  qed (use nd'(1) D(3) add_remote_nodes(1) [OF D(2)] in \<open>simp_all add: nodes\<close>)
qed

lemma distributor_remove:
  assumes inv: "distributor_inv lid (nd, nsc)" and k: "k \<noteq> lid"
  shows "distributor_inv lid (nd\<lparr>di_nodeMap := AList.delete k (di_nodeMap nd)\<rparr>, snd (Nsc_RemoveNode k nsc))"
  using distributor_invD [OF inv] remove_view [OF distributor_invD(2) [OF inv] k] k
  by (intro distributor_invI) auto

lemma HandleClusterEvent_step:
  assumes inv: "distributor_inv lid s"
  shows "distributor_inv lid (HandleClusterEvent event s) \<and> ring_view lid (snd (HandleClusterEvent event s)) = view_step lid event (ring_view lid (snd s))"
proof -
  obtain nd nsc where s: "s = (nd, nsc)" by force
  let ?k = "ce_NodeID event"
  have i: "distributor_inv lid (nd, nsc)" using inv by (simp add: s)
  note D = distributor_invD [OF i]
  have self: "(ring_view lid nsc)(lid := None) = ring_view lid nsc" by (simp add: ring_view_def fun_eq_iff)
  show ?thesis
  proof (cases "?k = lid")
    case True
    have "distributor_inv lid (nd\<lparr>di_nodeMap := AList.update lid a (di_nodeMap nd)\<rparr>, nsc)" for a
      using D by (intro distributor_invI) auto
    then show ?thesis using True D(1) i self
      by (auto simp: HandleClusterEvent_def s view_step_def Let_def split: EventType.splits detail.splits)
  next
    case False
    note add = distributor_add [OF i False, of "nd\<lparr>di_nodeMap := AList.update ?k a (di_nodeMap nd)\<rparr>" a for a]
      and readd = distributor_add [OF i False, of nd] and rm = distributor_remove [OF i False] remove_view(2) [OF D(2) False]
    have known: "map_of (di_nodeMap nd) ?k = Some a \<Longrightarrow> ?k \<in> dom (ring_view lid nsc)" for a using D(4,5) False by auto
    show ?thesis
      using False D(1) i add readd rm known
      by (auto simp: HandleClusterEvent_def s view_step_def Let_def split: EventType.splits detail.splits option.splits)
  qed
qed


lemma new_sharded_inv:
  assumes "NewShardedClusterCache (Some c) nodeID bindAddr clusterOptions [] = Inr scc"
  shows "distributor_inv nodeID (sc_nodeDistributor scc, sc_shardedCache scc)" "ring_view nodeID (sc_shardedCache scc) = Map.empty"
    and "sc_localNodeID scc = nodeID"
proof -
  let ?nsc0 = "NewNodeShardedCache (\<lambda>_. LocalObj c) []"
  have inv0: "nsc_inv ?nsc0"
    by (auto simp: NewNodeShardedCache_def nsc_inv_def NewConsistentHash_def wf_gomap_def ring_inv_def)
  have nodes0: "nsc_nodes ?nsc0 = []" "nsc_store ?nsc0 = (\<lambda>_. LocalObj c)" by (simp_all add: NewNodeShardedCache_def)
  have scc: "sc_shardedCache scc = snd (Nsc_AddNode nodeID (Some 0) 1 ?nsc0)" "sc_nodeDistributor scc = NewNodeDistributor nodeID" "sc_localNodeID scc = nodeID"
    using assms by (auto simp: NewShardedClusterCache_def split: if_splits sum.splits prod.splits)
  have inv: "nsc_inv (sc_shardedCache scc)" unfolding scc(1) using nsc_step_inv [OF inv0, of "NAdd nodeID (Some 0) 1"] by simp
  have nodes: "map_of (nsc_nodes (sc_shardedCache scc)) = [nodeID \<mapsto> 0]" "nsc_store (sc_shardedCache scc) = (\<lambda>_. LocalObj c)"
    by (simp_all add: scc(1) Nsc_AddNode_def nodes0)
  show view: "ring_view nodeID (sc_shardedCache scc) = Map.empty" by (simp add: ring_view_def nodes fun_eq_iff)
  show "distributor_inv nodeID (sc_nodeDistributor scc, sc_shardedCache scc)"
    using inv by (intro distributor_invI) (simp_all add: scc(2) NewNodeDistributor_def nodes view)
  show "sc_localNodeID scc = nodeID" by (rule scc(3))
qed

definition scc_a :: "unit ShardedClusterCache" where
  "scc_a = projr (NewShardedClusterCache (Some ()) ''a'' ''a:1'' [] [])"

lemma scc_a_new: "NewShardedClusterCache (Some ()) ''a'' ''a:1'' [] [] = Inr scc_a"
  by (simp add: scc_a_def NewShardedClusterCache_def NewNode_def Nsc_AddNode_def NewNodeShardedCache_def Let_def split: sum.splits)


section \<open>From a message to the ring\<close>

text \<open>The events of a node have been read, and there is room for the next.\<close>

definition drained :: "Node \<Rightarrow> bool" where
  "drained n \<longleftrightarrow> (case mb_events (nd_membership n) of None \<Rightarrow> False | Some p \<Rightarrow> ep_eventCh p = Some [] \<and> 0 < ep_bufferSize p)"

lemma publish_drained:
  assumes "drained n" "mb_events m' = map_option (Publisher_Publish event) (mb_events (nd_membership n))"
  shows "\<exists>p. mb_events m' = Some p \<and> ep_eventCh p = Some [event] \<and> 0 < ep_bufferSize p"
  using assms by (auto simp: drained_def Publisher_Publish_def try_send_def split: option.splits)

lemma pump_one:
  assumes "mb_events (nd_membership n) = Some p" "ep_eventCh p = Some [event]" "0 < ep_bufferSize p"
  shows "(sc_nodeDistributor (pump_event (scc\<lparr>sc_node := n\<rparr>)), sc_shardedCache (pump_event (scc\<lparr>sc_node := n\<rparr>)))
      = HandleClusterEvent event (sc_nodeDistributor scc, sc_shardedCache scc)"
    and "mb_members (nd_membership (sc_node (pump_event (scc\<lparr>sc_node := n\<rparr>)))) = mb_members (nd_membership n)"
    and "drained (sc_node (pump_event (scc\<lparr>sc_node := n\<rparr>)))"
  using assms by (simp_all add: pump_event_def drained_def split: prod.splits)


definition started_a :: "unit ShardedClusterCache" where
  "started_a = snd (Sharded_Start 1 None scc_a)"

definition join_b :: JoinPayload where
  "join_b = \<lparr>jp_NodeID = ''b'', jp_Address = ''b:1'', jp_Metadata = None\<rparr>"

lemma started_a_simps:
  "sc_nodeDistributor started_a = sc_nodeDistributor scc_a" "sc_shardedCache started_a = sc_shardedCache scc_a" "drained (sc_node started_a)"
  "map_of (mb_members (nd_membership (sc_node started_a))) ''b'' = None"
  by (simp_all add: started_a_def scc_a_def NewShardedClusterCache_def NewNode_def Nsc_AddNode_def NewNodeShardedCache_def Sharded_Start_def
      Node_Start_eq Membership_Start_def addLocalNode_def NewMembership_def WithBindAddr_def Node_WithNodeID_def DefaultNodeConfig_def
      NewEventPublisher_def drained_def Let_def split: sum.splits)


text \<open>A failed member that comes back is not announced: gossip marks it up again and publishes nothing, so
  that no event puts it back on the ring.\<close>

lemma returning_member_unannounced:
  assumes "map_of (mb_members m) (gn_ID node) = Some info" "ni_Status info = NodeStatusDown" "gn_Status node = 0" "gn_ID node \<noteq> lid"
  shows "map_option ni_Status (map_of (mb_members (handle_node now lid sender node m)) (gn_ID node)) = Some NodeStatusUp"
    and "mb_events (handle_node now lid sender node m) = mb_events m"
  using assms by (simp_all add: handle_node_def MarkAlive_def AddMember_def set_node_def Let_def)

text \<open>Joining fails when the event of the seed has been read before the members are added, because the seed is on the
  ring already.\<close>

lemma init_after_event_fails:
  assumes "distributor_inv lid (nd, nsc)" "ni_Status member = NodeStatusUp" "ni_ID member \<noteq> lid" "ni_ID member \<in> dom (ring_view lid nsc)"
  shows "\<exists>s'. InitFromMembers (member # members) (nd, nsc) = (Inl (Errorf ''failed to add node %s to hash ring: %w''), s')"
proof -
  note D = distributor_invD [OF assms(1)]
  have "map_of (nsc_nodes nsc) (ni_ID member) \<noteq> None" using assms(4) D(4) by auto
  then show ?thesis using assms(2,3) D(1) by (auto simp: add_remote_def Nsc_AddNode_def Let_def)
qed

end
