(* ===== verification/LeaderFollower.thy ===== *)
theory LeaderFollower
  imports ReplNodes ClusterNode
begin

text \<open>
  The leader and follower cluster (\<^verbatim>\<open>src/cache/cluster/integration/leader_follower_cluster.go\<close>), which puts a
  cache, a cluster node, a replication log with its synchroniser and a replication node of either role together.
  The log and the local cache are those of the synchroniser, which the program shares with the replication node:
  \<open>leader_of\<close> and \<open>follower_of\<close> hand the shared synchroniser to the node, \<open>set_leader\<close> and
  \<open>set_follower\<close> take it back. Operations that hold \<open>mu\<close> are atomic, except for \<open>Stop\<close>, which waits for
  the event goroutine while it holds \<open>mu\<close>: its two halves are operations of their own and \<open>lf_mu\<close> says that it
  waits. The event goroutine and the failover goroutines are program counters in the state. A call that panics or does
  not return is \<open>None\<close>.
\<close>

section \<open>State\<close>

text \<open>Where a call of \<open>handleFailover\<close> is: before it locks \<open>mu\<close>, in its \<open>select\<close> with the channel it has
  read, or before \<open>PromoteToLeader\<close> locks \<open>mu\<close>. The event goroutine is not running, in its \<open>select\<close>,
  before the lock of \<open>handleNodeJoin\<close>, or in \<open>handleFailover\<close>.\<close>

datatype failover = AtLock | Waiting nat | AtPromote

datatype handler = HandlerOff | AtSelect | InNodeJoin ClusterEvent | InFailover failover

text \<open>What the options of the constructor set, and the whole state. The channels made for failover are kept with
  their closed state.\<close>

record LfcSettings =
  lf_config :: ReplicationConfig
  lf_currentRole :: ReplicationRole

record 'c LeaderFollowerCluster = LfcSettings +
  lf_nodeID :: string
  lf_address :: string
  lf_clusterNode :: Node
  lf_syncer :: "'c MemorySyncer"
  lf_leaderNode :: "'c LeaderNode option"
  lf_followerNode :: "('c, failover list) FollowerNode option"
  lf_mu :: bool
  lf_running :: bool
  lf_stopClosed :: bool
  lf_failoverChs :: "bool list"
  lf_failoverStopCh :: nat
  lf_handler :: handler
  lf_callbacks :: "failover list"

definition leader_of :: "'c LeaderFollowerCluster \<Rightarrow> 'c LeaderNode option" where
  "leader_of lfc = map_option (\<lambda>l. l\<lparr>ld_syncer := lf_syncer lfc\<rparr>) (lf_leaderNode lfc)"

definition set_leader :: "'c LeaderNode \<Rightarrow> 'c LeaderFollowerCluster \<Rightarrow> 'c LeaderFollowerCluster" where
  "set_leader l lfc = lfc\<lparr>lf_leaderNode := Some l, lf_syncer := ld_syncer l\<rparr>"

definition follower_of :: "'c LeaderFollowerCluster \<Rightarrow> ('c, failover list) FollowerNode option" where
  "follower_of lfc = map_option (\<lambda>f. f\<lparr>fo_syncer := lf_syncer lfc\<rparr>) (lf_followerNode lfc)"

definition set_follower :: "('c, failover list) FollowerNode \<Rightarrow> 'c LeaderFollowerCluster \<Rightarrow> 'c LeaderFollowerCluster" where
  "set_follower f lfc = lfc\<lparr>lf_followerNode := Some f, lf_syncer := fo_syncer f\<rparr>"

section \<open>Construction\<close>

type_synonym LeaderFollowerClusterOption = "LfcSettings \<Rightarrow> LfcSettings"

definition WithSyncerAddress :: "string \<Rightarrow> LeaderFollowerClusterOption" where
  "WithSyncerAddress syncerAddr st = st\<lparr>lf_config := (lf_config st)\<lparr>rc_SyncerAddress := syncerAddr\<rparr>\<rparr>"

definition WithInitialRole :: "ReplicationRole \<Rightarrow> LeaderFollowerClusterOption" where
  "WithInitialRole role st = st\<lparr>lf_currentRole := role\<rparr>"

definition Lfc_WithElectionTimeout :: "duration \<Rightarrow> LeaderFollowerClusterOption" where
  "Lfc_WithElectionTimeout timeout st =
     (if timeout > 0 then st\<lparr>lf_config := (lf_config st)\<lparr>rc_ElectionTimeout := timeout\<rparr>\<rparr> else st)"

definition Lfc_WithHeartbeatInterval :: "duration \<Rightarrow> LeaderFollowerClusterOption" where
  "Lfc_WithHeartbeatInterval interval st =
     (if interval > 0 then st\<lparr>lf_config := (lf_config st)\<lparr>rc_HeartbeatInterval := interval\<rparr>\<rparr> else st)"

text \<open>The options with which the program creates a replication node of a role.\<close>

definition node_options :: "string \<Rightarrow> string \<Rightarrow> ReplicationRole \<Rightarrow> ReplicationConfig \<Rightarrow> ReplicationOption list" where
  "node_options nodeID address role config =
     [WithNodeID nodeID, WithAddress address, WithRole role, WithHeartbeatInterval (rc_HeartbeatInterval config),
      WithElectionTimeout (rc_ElectionTimeout config)]"

definition NewLeaderFollowerCluster :: "instant \<Rightarrow> string \<Rightarrow> string \<Rightarrow> 'c option \<Rightarrow> LeaderFollowerClusterOption list
    \<Rightarrow> gerror + 'c LeaderFollowerCluster" where
  "NewLeaderFollowerCluster now nodeID address localCache options =
     (if nodeID = '''' then Inl (Errorf ''node ID cannot be empty'')
      else case localCache of
        None \<Rightarrow> Inl (Errorf ''local cache cannot be nil'')
      | Some c \<Rightarrow>
          let config = DefaultReplicationConfig\<lparr>rc_NodeID := nodeID, rc_Address := address, rc_SyncerAddress := ''''\<rparr>;
              st = fold (\<lambda>opt. opt) options \<lparr>lf_config = config, lf_currentRole = RoleFollower\<rparr>;
              config = lf_config st; role = lf_currentRole st;
              config = (if rc_SyncerAddress config = '''' then config\<lparr>rc_SyncerAddress := address\<rparr> else config);
              syncer = NewMemorySyncer nodeID c NewMemoryReplicationLog [WithNodeID nodeID, WithAddress (rc_SyncerAddress config)];
              leader = (if role = RoleLeader then Some (NewLeaderNode nodeID syncer (node_options nodeID address RoleLeader config)) else None);
              follower = (if role = RoleLeader then None
                          else Some (NewFollowerNode now nodeID syncer (node_options nodeID address RoleFollower config)))
          in (case NewNode nodeID True [Node_WithNodeID nodeID, WithBindAddr address] of
               Inl _ \<Rightarrow> Inl (Errorf ''failed to create cluster node: %w'')
             | Inr node \<Rightarrow> Inr
                 \<lparr>lf_config = config, lf_currentRole = role, lf_nodeID = nodeID, lf_address = address, lf_clusterNode = node,
                  lf_syncer = syncer, lf_leaderNode = leader, lf_followerNode = follower, lf_mu = False, lf_running = False,
                  lf_stopClosed = False, lf_failoverChs = [False], lf_failoverStopCh = 0, lf_handler = HandlerOff, lf_callbacks = []\<rparr>))"

section \<open>Life cycle\<close>

text \<open>The election callback starts a goroutine that runs \<open>handleFailover\<close>.\<close>

definition setElectionCallback :: "'c LeaderFollowerCluster \<Rightarrow> 'c LeaderFollowerCluster" where
  "setElectionCallback lfc =
     lfc\<lparr>lf_followerNode := map_option (Follower_SetElectionCallback (Some (\<lambda>callbacks. callbacks @ [AtLock]))) (lf_followerNode lfc)\<rparr>"

definition Lfc_stop_parts :: "'c LeaderFollowerCluster \<Rightarrow> 'c LeaderFollowerCluster" where
  "Lfc_stop_parts lfc = lfc\<lparr>lf_syncer := snd (Syncer_Stop (lf_syncer lfc)), lf_clusterNode := snd (Node_Stop (lf_clusterNode lfc))\<rparr>"

definition Lfc_Start :: "instant \<Rightarrow> gerror option \<Rightarrow> 'c LeaderFollowerCluster \<Rightarrow> ((gerror + unit) \<times> 'c LeaderFollowerCluster) option" where
  "Lfc_Start now transportErr lfc =
     (if lf_running lfc then Some (Inr (), lfc)
      else let (r, node) = Node_Start now transportErr (lf_clusterNode lfc); lfc = lfc\<lparr>lf_clusterNode := node\<rparr> in
        case r of
          Inl _ \<Rightarrow> Some (Inl (Errorf ''failed to start cluster node: %w''), lfc)
        | Inr _ \<Rightarrow>
            let (r, syncer) = Syncer_Start (lf_syncer lfc); lfc = lfc\<lparr>lf_syncer := syncer\<rparr> in
            (case r of
               Inl _ \<Rightarrow> Some (Inl (Errorf ''failed to start syncer: %w''), lfc\<lparr>lf_clusterNode := snd (Node_Stop (lf_clusterNode lfc))\<rparr>)
             | Inr _ \<Rightarrow>
                 if lf_currentRole lfc = RoleLeader then do {
                   l \<leftarrow> leader_of lfc;
                   let (r, l) = Leader_Start l; let lfc = set_leader l lfc;
                   Some (case r of
                       Inl _ \<Rightarrow> (Inl (Errorf ''failed to start leader node: %w''), Lfc_stop_parts lfc)
                     | Inr _ \<Rightarrow> (Inr (), lfc\<lparr>lf_handler := AtSelect, lf_running := True\<rparr>)) }
                 else do {
                   f \<leftarrow> follower_of lfc;
                   let (r, f) = Follower_Start f; let lfc = set_follower f lfc;
                   Some (case r of
                       Inl _ \<Rightarrow> (Inl (Errorf ''failed to start follower node: %w''), Lfc_stop_parts lfc)
                     | Inr _ \<Rightarrow> (Inr (), (setElectionCallback lfc)\<lparr>lf_handler := AtSelect, lf_running := True\<rparr>)) }))"

text \<open>\<open>Stop\<close> up to \<open>wg.Wait\<close>, which holds \<open>mu\<close> unless there is nothing to stop, and the rest of it once the event
  goroutine has ended.\<close>

definition close_failover :: "'c LeaderFollowerCluster \<Rightarrow> 'c LeaderFollowerCluster" where
  "close_failover lfc =
     (if lf_failoverChs lfc ! lf_failoverStopCh lfc then lfc
      else lfc\<lparr>lf_failoverChs := (lf_failoverChs lfc)[lf_failoverStopCh lfc := True]\<rparr>)"

definition Lfc_Stop_begin :: "'c LeaderFollowerCluster \<Rightarrow> 'c LeaderFollowerCluster option" where
  "Lfc_Stop_begin lfc =
     (if \<not> lf_running lfc then Some lfc
      else let lfc = close_failover lfc in
        if lf_stopClosed lfc then None else Some (lfc\<lparr>lf_stopClosed := True, lf_mu := True\<rparr>))"

definition first_error :: "gerror + unit \<Rightarrow> gerror + unit \<Rightarrow> gerror + unit" where
  "first_error firstErr r = (case firstErr of Inl e \<Rightarrow> Inl e | Inr _ \<Rightarrow> r)"

definition Lfc_Stop_end :: "'c LeaderFollowerCluster \<Rightarrow> ((gerror + unit) \<times> 'c LeaderFollowerCluster) option" where
  "Lfc_Stop_end lfc = do {
     (firstErr, lfc) \<leftarrow>
       (case (if lf_currentRole lfc = RoleLeader then leader_of lfc else None) of
          Some l \<Rightarrow> do { (r, l) \<leftarrow> Leader_Stop l; Some (r, set_leader l lfc) }
        | None \<Rightarrow>
            (case follower_of lfc of
               Some f \<Rightarrow> do { (r, f) \<leftarrow> Follower_Stop f; Some (r, set_follower f lfc) }
             | None \<Rightarrow> Some (Inr (), lfc)));
     let (r1, syncer) = Syncer_Stop (lf_syncer lfc);
     let (r2, node) = Node_Stop (lf_clusterNode lfc);
     Some (first_error (first_error firstErr r1) r2,
           lfc\<lparr>lf_syncer := syncer, lf_clusterNode := node, lf_running := False, lf_mu := False\<rparr>) }"

section \<open>Membership\<close>

definition set_metadata :: "string gomap \<Rightarrow> 'c LeaderFollowerCluster \<Rightarrow> 'c LeaderFollowerCluster" where
  "set_metadata metadata lfc =
     lfc\<lparr>lf_clusterNode := (lf_clusterNode lfc)\<lparr>nd_membership := SetLocalMetadata (Some metadata) (nd_membership (lf_clusterNode lfc))\<rparr>\<rparr>"

definition find_leader :: "NodeInfo list \<Rightarrow> NodeInfo option" where
  "find_leader members = List.find (\<lambda>member.
     case ni_Metadata member of None \<Rightarrow> False | Some md \<Rightarrow> map_of md ''role'' = Some ''leader'') members"

text \<open>\<open>Join\<close> locks nothing. The result of the full synchronisation is ignored.\<close>

definition Lfc_Join :: "('c, 'a anyval) cache_put \<Rightarrow> 'c cache_del \<Rightarrow> (string \<Rightarrow> NodeMessage \<Rightarrow> gerror + NodeMessage) \<Rightarrow> (string \<Rightarrow> 'n env)
    \<Rightarrow> instant \<Rightarrow> string \<Rightarrow> string \<Rightarrow> 'n \<Rightarrow> 'c LeaderFollowerCluster \<Rightarrow> ((gerror + unit) \<times> 'n \<times> 'c LeaderFollowerCluster) option" where
  "Lfc_Join put del send env now started seedAddr n lfc =
     (let roleStr = (if lf_currentRole lfc = RoleLeader then ''leader'' else ''follower'');
          lfc = set_metadata [(''role'', roleStr), (''syncer_address'', rc_SyncerAddress (lf_config lfc))] lfc;
          (r, node) = Node_Join send now started seedAddr (lf_clusterNode lfc);
          lfc = lfc\<lparr>lf_clusterNode := node\<rparr>
      in case r of
           Inl _ \<Rightarrow> Some (Inl (Errorf ''failed to join cluster: %w''), n, lfc)
         | Inr _ \<Rightarrow>
             (case (follower_of lfc, find_leader (Node_Members (lf_clusterNode lfc))) of
                (Some f, Some member) \<Rightarrow>
                  if lf_currentRole lfc = RoleFollower then do {
                    (_, n, f) \<leftarrow> Follower_RequestFullSync put del env n (Follower_SetLeader now (ni_ID member) (ni_Addr member) f);
                    Some (Inr (), n, set_follower f lfc) }
                  else Some (Inr (), n, lfc)
              | _ \<Rightarrow> Some (Inr (), n, lfc)))"

definition Lfc_Leave :: "instant \<Rightarrow> 'c LeaderFollowerCluster \<Rightarrow> (gerror + unit) \<times> (string \<times> NodeMessage) list \<times> 'c LeaderFollowerCluster" where
  "Lfc_Leave now lfc = (let (r, msgs, node) = Node_Leave now (lf_clusterNode lfc) in (r, msgs, lfc\<lparr>lf_clusterNode := node\<rparr>))"

section \<open>Roles\<close>

definition Lfc_IsLeader :: "'c LeaderFollowerCluster \<Rightarrow> bool" where
  "Lfc_IsLeader lfc = (lf_currentRole lfc = RoleLeader)"

definition Lfc_GetLeader :: "'c LeaderFollowerCluster \<Rightarrow> string" where
  "Lfc_GetLeader lfc =
     (if lf_currentRole lfc = RoleLeader then lf_nodeID lfc
      else case lf_followerNode lfc of Some f \<Rightarrow> Follower_GetLeader f | None \<Rightarrow> '''')"

definition Lfc_PromoteToLeader :: "'c LeaderFollowerCluster \<Rightarrow> ((gerror + unit) \<times> 'c LeaderFollowerCluster) option" where
  "Lfc_PromoteToLeader lfc =
     (if lf_currentRole lfc = RoleLeader then Some (Inr (), lfc)
      else case follower_of lfc of
        None \<Rightarrow> Some (Inr (), lfc)
      | Some f \<Rightarrow> do {
          (r, f) \<leftarrow> Follower_Stop f;
          let lfc = set_follower f lfc;
          case r of
            Inl _ \<Rightarrow> Some (Inl (Errorf ''failed to stop follower node: %w''), lfc)
          | Inr _ \<Rightarrow>
              let (r, l) = Leader_Start (NewLeaderNode (lf_nodeID lfc) (lf_syncer lfc)
                    (node_options (lf_nodeID lfc) (lf_address lfc) RoleLeader (lf_config lfc)));
                  lfc = set_leader l lfc
              in Some (case r of
                  Inl _ \<Rightarrow> (Inl (Errorf ''failed to start leader node: %w''), lfc)
                | Inr _ \<Rightarrow> (Inr (), set_metadata [(''role'', ''leader'')] (lfc\<lparr>lf_currentRole := RoleLeader, lf_followerNode := None\<rparr>))) })"

definition Lfc_DemoteToFollower :: "('c, 'a anyval) cache_put \<Rightarrow> 'c cache_del \<Rightarrow> (string \<Rightarrow> 'n env) \<Rightarrow> instant \<Rightarrow> string \<Rightarrow> string \<Rightarrow> 'n
    \<Rightarrow> 'c LeaderFollowerCluster \<Rightarrow> ((gerror + unit) \<times> 'n \<times> 'c LeaderFollowerCluster) option" where
  "Lfc_DemoteToFollower put del env now leaderID leaderAddr n lfc =
     (if lf_currentRole lfc = RoleFollower then Some (Inr (), n, lfc)
      else case leader_of lfc of
        None \<Rightarrow> Some (Inr (), n, lfc)
      | Some l \<Rightarrow> do {
          (r, l) \<leftarrow> Leader_Stop l;
          let lfc = set_leader l lfc;
          case r of
            Inl _ \<Rightarrow> Some (Inl (Errorf ''failed to stop leader node: %w''), n, lfc)
          | Inr _ \<Rightarrow>
              let f = NewFollowerNode now (lf_nodeID lfc) (lf_syncer lfc)
                    (node_options (lf_nodeID lfc) (lf_address lfc) RoleFollower (lf_config lfc));
                  (r, f) = Follower_Start (Follower_SetLeader now leaderID leaderAddr f);
                  lfc = set_follower f lfc
              in (case r of
                  Inl _ \<Rightarrow> Some (Inl (Errorf ''failed to start follower node: %w''), n, lfc)
                | Inr _ \<Rightarrow> do {
                    let lfc = setElectionCallback lfc;
                    f \<leftarrow> follower_of lfc;
                    (_, n, f) \<leftarrow> Follower_RequestFullSync put del env n f;
                    let lfc = set_follower f lfc;
                    Some (Inr (), n, set_metadata [(''role'', ''follower'')] (lfc\<lparr>lf_currentRole := RoleFollower, lf_leaderNode := None\<rparr>)) }) })"

definition Lfc_AddFollower :: "string \<Rightarrow> string \<Rightarrow> 'c LeaderFollowerCluster \<Rightarrow> (gerror + unit) \<times> 'c LeaderFollowerCluster" where
  "Lfc_AddFollower nodeID address lfc =
     (case leader_of lfc of
        Some l \<Rightarrow>
          if lf_currentRole lfc \<noteq> RoleLeader then (Inl (Errorf ''only leader can add followers''), lfc)
          else let (r, l) = Leader_AddFollower nodeID address l in (r, set_leader l lfc)
      | None \<Rightarrow> (Inl (Errorf ''only leader can add followers''), lfc))"

definition Lfc_RemoveFollower :: "string \<Rightarrow> 'c LeaderFollowerCluster \<Rightarrow> (gerror + unit) \<times> 'c LeaderFollowerCluster" where
  "Lfc_RemoveFollower nodeID lfc =
     (case leader_of lfc of
        Some l \<Rightarrow>
          if lf_currentRole lfc \<noteq> RoleLeader then (Inl (Errorf ''only leader can remove followers''), lfc)
          else let (r, l) = Leader_RemoveFollower nodeID l in (r, set_leader l lfc)
      | None \<Rightarrow> (Inl (Errorf ''only leader can remove followers''), lfc))"

definition Lfc_SyncFromLeader :: "('c, 'a anyval) cache_put \<Rightarrow> 'c cache_del \<Rightarrow> (string \<Rightarrow> 'n env) \<Rightarrow> 'n
    \<Rightarrow> 'c LeaderFollowerCluster \<Rightarrow> ((gerror + unit) \<times> 'n \<times> 'c LeaderFollowerCluster) option" where
  "Lfc_SyncFromLeader put del env n lfc =
     (case follower_of lfc of
        Some f \<Rightarrow>
          if lf_currentRole lfc \<noteq> RoleFollower then Some (Inl (Errorf ''only follower can sync from leader''), n, lfc)
          else do { (r, n, f) \<leftarrow> Follower_SyncFromLeader put del env n f; Some (r, n, set_follower f lfc) }
      | None \<Rightarrow> Some (Inl (Errorf ''only follower can sync from leader''), n, lfc))"

definition Lfc_ReplicateNow :: "(string \<Rightarrow> SyncResponse \<Rightarrow> 'n \<Rightarrow> unit reply \<times> 'n) \<Rightarrow> 'n
    \<Rightarrow> 'c LeaderFollowerCluster \<Rightarrow> ((gerror + unit) \<times> 'n \<times> 'c LeaderFollowerCluster) option" where
  "Lfc_ReplicateNow post n lfc =
     (case leader_of lfc of
        Some l \<Rightarrow>
          if lf_currentRole lfc \<noteq> RoleLeader then Some (Inl (Errorf ''only leader can trigger replication''), n, lfc)
          else do { (r, n, l) \<leftarrow> Leader_ReplicateEntries post n l; Some (r, n, set_leader l lfc) }
      | None \<Rightarrow> Some (Inl (Errorf ''only leader can trigger replication''), n, lfc))"

section \<open>Cluster events and failover\<close>

definition handleNodeJoin :: "ClusterEvent \<Rightarrow> 'c LeaderFollowerCluster \<Rightarrow> 'c LeaderFollowerCluster" where
  "handleNodeJoin event lfc =
     (case leader_of lfc of
        None \<Rightarrow> lfc
      | Some l \<Rightarrow>
          if lf_currentRole lfc \<noteq> RoleLeader then lfc
          else (case ce_Details event of
            DString clusterAddr \<Rightarrow>
              (case List.find (\<lambda>member. ni_ID member = ce_NodeID event) (Node_Members (lf_clusterNode lfc)) of
                 None \<Rightarrow> lfc
               | Some member \<Rightarrow>
                   let syncerAddr = (case Option.bind (ni_Metadata member) (\<lambda>md. map_of md ''syncer_address'') of None \<Rightarrow> '''' | Some a \<Rightarrow> a);
                       syncerAddr = (if syncerAddr = '''' then clusterAddr else syncerAddr)
                   in set_leader (snd (Leader_AddFollower (ce_NodeID event) syncerAddr l)) lfc)
          | _ \<Rightarrow> lfc))"

text \<open>\<open>handleNodeFailure\<close> up to its call of \<open>handleFailover\<close>, which it leaves to the goroutine.\<close>

definition handleNodeFailure :: "ClusterEvent \<Rightarrow> 'c LeaderFollowerCluster \<Rightarrow> bool \<times> 'c LeaderFollowerCluster" where
  "handleNodeFailure event lfc =
     (case (lf_currentRole lfc, follower_of lfc, leader_of lfc) of
        (RoleFollower, Some f, _) \<Rightarrow> (ce_NodeID event = Follower_GetLeader f, lfc)
      | (RoleLeader, _, Some l) \<Rightarrow> (False, set_leader (snd (Leader_RemoveFollower (ce_NodeID event) l)) lfc)
      | _ \<Rightarrow> (False, lfc))"

text \<open>The locked part of \<open>handleFailover\<close>: a closed channel is replaced by a new one. The result is the channel that
  the wait listens to.\<close>

definition handleFailover_lock :: "'c LeaderFollowerCluster \<Rightarrow> nat \<times> 'c LeaderFollowerCluster" where
  "handleFailover_lock lfc =
     (let lfc = (if lf_failoverChs lfc ! lf_failoverStopCh lfc
                 then lfc\<lparr>lf_failoverChs := lf_failoverChs lfc @ [False], lf_failoverStopCh := length (lf_failoverChs lfc)\<rparr> else lfc)
      in (lf_failoverStopCh lfc, lfc))"

definition failover_waitTime :: "'c LeaderFollowerCluster \<Rightarrow> duration" where
  "failover_waitTime lfc = (100 + rc_Priority (lf_config lfc) * 50) * 10 ^ 6"

text \<open>One move of a call of \<open>handleFailover\<close>: \<open>None\<close> when it has to wait for \<open>mu\<close> or for its \<open>select\<close>, and with no
  program counter when it has ended. \<open>timeout\<close> says that the wait has passed; when the channel is closed as well,
  \<open>pickTimer\<close> chooses. A panic in \<open>PromoteToLeader\<close> ends the program, so that there is no next state.\<close>

definition failover_move :: "bool \<Rightarrow> bool \<Rightarrow> failover \<Rightarrow> 'c LeaderFollowerCluster \<Rightarrow> (failover option \<times> 'c LeaderFollowerCluster) option" where
  "failover_move timeout pickTimer pc lfc =
     (case pc of
        AtLock \<Rightarrow> if lf_mu lfc then None else let (ch, lfc) = handleFailover_lock lfc in Some (Some (Waiting ch), lfc)
      | Waiting ch \<Rightarrow>
          if timeout \<and> (pickTimer \<or> \<not> lf_failoverChs lfc ! ch) then Some (Some AtPromote, lfc)
          else if lf_failoverChs lfc ! ch then Some (None, lfc)
          else None
      | AtPromote \<Rightarrow> if lf_mu lfc then None else map_option (\<lambda>(_, lfc). (None, lfc)) (Lfc_PromoteToLeader lfc))"

text \<open>The \<open>select\<close> of the event goroutine: a closed \<open>stopCh\<close> ends it, unless an event is there too and \<open>pickEvent\<close>
  chooses it.\<close>

definition next_event :: "Node \<Rightarrow> (ClusterEvent \<times> Node) option" where
  "next_event n =
     (case mb_events (nd_membership n) of
        None \<Rightarrow> None
      | Some p \<Rightarrow>
          (case ep_eventCh p of
             Some (event # rest) \<Rightarrow> Some (event, n\<lparr>nd_membership := (nd_membership n)\<lparr>mb_events := Some (p\<lparr>ep_eventCh := Some rest\<rparr>)\<rparr>\<rparr>)
           | _ \<Rightarrow> None))"

definition handleClusterEvents_select :: "bool \<Rightarrow> 'c LeaderFollowerCluster \<Rightarrow> 'c LeaderFollowerCluster option" where
  "handleClusterEvents_select pickEvent lfc =
     (case next_event (lf_clusterNode lfc) of
        None \<Rightarrow> if lf_stopClosed lfc then Some (lfc\<lparr>lf_handler := HandlerOff\<rparr>) else None
      | Some (event, node) \<Rightarrow>
          if lf_stopClosed lfc \<and> \<not> pickEvent then Some (lfc\<lparr>lf_handler := HandlerOff\<rparr>)
          else let lfc = lfc\<lparr>lf_clusterNode := node\<rparr> in
            Some (if ce_Type event = EventNodeJoin then lfc\<lparr>lf_handler := InNodeJoin event\<rparr>
                  else if ce_Type event = EventNodeLeave \<or> ce_Type event = EventNodeFailed then
                    let (failover, lfc) = handleNodeFailure event lfc in
                    lfc\<lparr>lf_handler := (if failover then InFailover AtLock else AtSelect)\<rparr>
                  else lfc))"

text \<open>One move of the event goroutine.\<close>

definition handler_move :: "bool \<Rightarrow> bool \<Rightarrow> 'c LeaderFollowerCluster \<Rightarrow> 'c LeaderFollowerCluster option" where
  "handler_move timeout pick lfc =
     (case lf_handler lfc of
        HandlerOff \<Rightarrow> None
      | AtSelect \<Rightarrow> handleClusterEvents_select pick lfc
      | InNodeJoin event \<Rightarrow> if lf_mu lfc then None else Some ((handleNodeJoin event lfc)\<lparr>lf_handler := AtSelect\<rparr>)
      | InFailover pc \<Rightarrow>
          map_option (\<lambda>(pc', lfc). lfc\<lparr>lf_handler := (case pc' of None \<Rightarrow> AtSelect | Some pc \<Rightarrow> InFailover pc)\<rparr>)
            (failover_move timeout pick pc lfc))"

section \<open>Data\<close>

text \<open>The JSON encoding of other values, \<open>None\<close> for an error, is an argument.\<close>

definition value_bytes :: "('a \<Rightarrow> string option) \<Rightarrow> 'a anyval \<Rightarrow> string option" where
  "value_bytes marshal val = (case val of AnyBytes v \<Rightarrow> Some v | AnyString v \<Rightarrow> Some v | AnyOther v \<Rightarrow> marshal v)"

definition set_cache :: "'c \<Rightarrow> 'c LeaderFollowerCluster \<Rightarrow> 'c LeaderFollowerCluster" where
  "set_cache c lfc = lfc\<lparr>lf_syncer := (lf_syncer lfc)\<lparr>sy_localCache := c\<rparr>\<rparr>"

definition Lfc_Get :: "('c, 'v) cache_get \<Rightarrow> ('c LeaderFollowerCluster, 'v) cache_get" where
  "Lfc_Get get now key lfc = do { (r, c) \<leftarrow> get now key (sy_localCache (lf_syncer lfc)); Some (r, set_cache c lfc) }"

definition Lfc_Set :: "('c, 'a anyval) cache_put \<Rightarrow> ('a \<Rightarrow> string option) \<Rightarrow> ('c LeaderFollowerCluster, 'a anyval) cache_put" where
  "Lfc_Set put marshal now key val expiration lfc = do {
     (r, c) \<leftarrow> put now key val expiration (sy_localCache (lf_syncer lfc));
     let lfc = set_cache c lfc;
     Some (case r of
         Inl err \<Rightarrow> (Inl err, lfc)
       | Inr _ \<Rightarrow>
           if lf_currentRole lfc = RoleLeader then
             (case value_bytes marshal val of
                None \<Rightarrow> (Inl (Errorf ''failed to marshal value: %w''), lfc)
              | Some valueBytes \<Rightarrow>
                  let (r, syncer) = RecordSetOperation now key valueBytes expiration 1 (lf_syncer lfc); lfc = lfc\<lparr>lf_syncer := syncer\<rparr> in
                  (case r of Inl _ \<Rightarrow> (Inl (Errorf ''failed to record set operation: %w''), lfc) | Inr _ \<Rightarrow> (Inr (), lfc)))
           else (Inr (), lfc)) }"

definition Lfc_Del :: "'c cache_del \<Rightarrow> instant \<Rightarrow> 'c LeaderFollowerCluster cache_del" where
  "Lfc_Del del now key lfc = do {
     (r, c) \<leftarrow> del key (sy_localCache (lf_syncer lfc));
     let lfc = set_cache c lfc;
     Some (case r of
         Inl err \<Rightarrow> (Inl err, lfc)
       | Inr _ \<Rightarrow>
           if lf_currentRole lfc = RoleLeader then
             let (r, syncer) = RecordDelOperation now key 1 (lf_syncer lfc); lfc = lfc\<lparr>lf_syncer := syncer\<rparr> in
             (case r of Inl _ \<Rightarrow> (Inl (Errorf ''failed to record delete operation: %w''), lfc) | Inr _ \<Rightarrow> (Inr (), lfc))
           else (Inr (), lfc)) }"

record LfcInfo =
  li_nodeID :: string
  li_address :: string
  li_role :: string
  li_followers :: "string gomap option"
  li_leader :: "string option"
  li_members :: "string gomap"
  li_memberCount :: nat

definition Lfc_GetClusterInfo :: "'c LeaderFollowerCluster \<Rightarrow> LfcInfo" where
  "Lfc_GetClusterInfo lfc =
     (let members = Node_Members (lf_clusterNode lfc);
          followers = (if lf_currentRole lfc = RoleLeader then map_option Leader_GetFollowers (lf_leaderNode lfc) else None)
      in \<lparr>li_nodeID = lf_nodeID lfc, li_address = lf_address lfc, li_role = Role_String (lf_currentRole lfc), li_followers = followers,
          li_leader = (if followers = None then Some (Lfc_GetLeader lfc) else None),
          li_members = fold (\<lambda>member. AList.update (ni_ID member) (ni_Addr member)) members [], li_memberCount = length members\<rparr>)"

section \<open>The cluster as a cache\<close>

text \<open>A sequence of timed calls with their results, what the abstract cache answers, and the commands that the calls
  record.\<close>

fun lfc_call :: "('c, 'a anyval) cache_get \<Rightarrow> ('c, 'a anyval) cache_put \<Rightarrow> 'c cache_del \<Rightarrow> ('a \<Rightarrow> string option)
    \<Rightarrow> instant \<times> 'a anyval cache_op \<Rightarrow> 'c LeaderFollowerCluster \<Rightarrow> ((gerror + 'a anyval option) \<times> 'c LeaderFollowerCluster) option" where
  "lfc_call get put del marshal (now, OpGet k) lfc = do { (r, lfc) \<leftarrow> Lfc_Get get now k lfc; Some (map_sum id Some r, lfc) }"
| "lfc_call get put del marshal (now, OpSet k v e) lfc = do { (r, lfc) \<leftarrow> Lfc_Set put marshal now k v e lfc; Some (map_sum id (\<lambda>_. None) r, lfc) }"
| "lfc_call get put del marshal (now, OpDel k) lfc = do { (r, lfc) \<leftarrow> Lfc_Del del now k lfc; Some (map_sum id (\<lambda>_. None) r, lfc) }"

fun lfc_run :: "('c, 'a anyval) cache_get \<Rightarrow> ('c, 'a anyval) cache_put \<Rightarrow> 'c cache_del \<Rightarrow> ('a \<Rightarrow> string option)
    \<Rightarrow> (instant \<times> 'a anyval cache_op) list \<Rightarrow> 'c LeaderFollowerCluster \<Rightarrow> ((gerror + 'a anyval option) list \<times> 'c LeaderFollowerCluster) option" where
  "lfc_run get put del marshal [] lfc = Some ([], lfc)"
| "lfc_run get put del marshal (p # ops) lfc = do {
     (r, lfc) \<leftarrow> lfc_call get put del marshal p lfc; (rs, lfc) \<leftarrow> lfc_run get put del marshal ops lfc; Some (r # rs, lfc) }"

definition call_result :: "(gerror + 'v) option \<Rightarrow> gerror + 'v option" where
  "call_result r = (case r of None \<Rightarrow> Inr None | Some x \<Rightarrow> map_sum id Some x)"

fun call_entries :: "('a \<Rightarrow> string option) \<Rightarrow> instant \<times> 'a anyval cache_op \<Rightarrow> ReplicationEntry list" where
  "call_entries marshal (now, OpGet k) = []"
| "call_entries marshal (now, OpSet k v e) =
     [\<lparr>re_Index = 0, re_Term = 1, re_Command = ''Set'', re_Key = k, re_Value = the (value_bytes marshal v), re_Expiration = e,
       re_Timestamp = 0, re_ValueType = ''string''\<rparr>]"
| "call_entries marshal (now, OpDel k) =
     [\<lparr>re_Index = 0, re_Term = 1, re_Command = ''Del'', re_Key = k, re_Value = '''', re_Expiration = 0, re_Timestamp = 0, re_ValueType = ''''\<rparr>]"

definition marshals :: "('a \<Rightarrow> string option) \<Rightarrow> instant \<times> 'a anyval cache_op \<Rightarrow> bool" where
  "marshals marshal p = (case snd p of OpSet k v e \<Rightarrow> value_bytes marshal v \<noteq> None | _ \<Rightarrow> True)"

definition commands :: "'c LeaderFollowerCluster \<Rightarrow> ReplicationEntry list" where
  "commands lfc = map cmd_of (rl_entries (sy_log (lf_syncer lfc)))"

definition log_room :: "nat \<Rightarrow> 'c LeaderFollowerCluster \<Rightarrow> bool" where
  "log_room n lfc \<longleftrightarrow> sy_running (lf_syncer lfc) \<longrightarrow> length (sy_logCh (lf_syncer lfc)) + n \<le> 1000"

lemma RecordSet_ok:
  assumes "sy_running s \<longrightarrow> length (sy_logCh s) < 1000"
  shows "\<exists>s'. RecordSetOperation now key val expiration trm s = (Inr (), s') \<and> sy_localCache s' = sy_localCache s \<and> sy_running s' = sy_running s
    \<and> length (sy_logCh s') \<le> Suc (length (sy_logCh s))
    \<and> map cmd_of (rl_entries (sy_log s')) = map cmd_of (rl_entries (sy_log s)) @
        [\<lparr>re_Index = 0, re_Term = trm, re_Command = ''Set'', re_Key = key, re_Value = val, re_Expiration = expiration, re_Timestamp = 0, re_ValueType = ''string''\<rparr>]"
  using assms by (simp add: RecordSetOperation_def Log_Append_def send_logCh_def Let_def) (simp add: cmd_of_def)

lemma RecordDel_ok:
  assumes "sy_running s \<longrightarrow> length (sy_logCh s) < 1000"
  shows "\<exists>s'. RecordDelOperation now key trm s = (Inr (), s') \<and> sy_localCache s' = sy_localCache s \<and> sy_running s' = sy_running s
    \<and> length (sy_logCh s') \<le> Suc (length (sy_logCh s))
    \<and> map cmd_of (rl_entries (sy_log s')) = map cmd_of (rl_entries (sy_log s)) @
        [\<lparr>re_Index = 0, re_Term = trm, re_Command = ''Del'', re_Key = key, re_Value = '''', re_Expiration = 0, re_Timestamp = 0, re_ValueType = ''''\<rparr>]"
  using assms by (simp add: RecordDelOperation_def Log_Append_def send_logCh_def Let_def) (simp add: cmd_of_def)

lemma set_cache_simps [simp]:
  "sy_localCache (lf_syncer (set_cache c lfc)) = c" "lf_currentRole (set_cache c lfc) = lf_currentRole lfc"
  "commands (set_cache c lfc) = commands lfc" "log_room n (set_cache c lfc) = log_room n lfc"
  "sy_log (lf_syncer (set_cache c lfc)) = sy_log (lf_syncer lfc)"
  by (simp_all add: set_cache_def commands_def log_room_def)

text \<open>What a call leaves of the rest of the state.\<close>

definition keeps :: "'c LeaderFollowerCluster \<Rightarrow> 'c LeaderFollowerCluster \<Rightarrow> bool" where
  "keeps lfc lfc' \<longleftrightarrow> lfc\<lparr>lf_syncer := lf_syncer lfc'\<rparr> = lfc' \<and> sy_config (lf_syncer lfc') = sy_config (lf_syncer lfc) \<and>
     (log_inv (sy_log (lf_syncer lfc)) \<longrightarrow> log_inv (sy_log (lf_syncer lfc')))"

lemma keeps_trans: "keeps lfc lfc1 \<Longrightarrow> keeps lfc1 lfc2 \<Longrightarrow> keeps lfc lfc2"
proof -
  assume 1: "keeps lfc lfc1" and 2: "keeps lfc1 lfc2"
  then have "(lfc\<lparr>lf_syncer := lf_syncer lfc1\<rparr>)\<lparr>lf_syncer := lf_syncer lfc2\<rparr> = lfc2" unfolding keeps_def by simp
  then have "lfc\<lparr>lf_syncer := lf_syncer lfc2\<rparr> = lfc2" by simp
  then show ?thesis using 1 2 by (simp add: keeps_def)
qed

lemma keeps_refl [simp]: "keeps lfc lfc"
  by (simp add: keeps_def)

lemma keeps_set_cache [simp]: "keeps lfc (set_cache c lfc)"
  by (simp add: keeps_def set_cache_def)

lemma Record_config [simp]:
  "sy_config (snd (RecordSetOperation now k b e trm s)) = sy_config s" "sy_config (snd (RecordDelOperation now k trm s)) = sy_config s"
  by (simp_all add: RecordSetOperation_def RecordDelOperation_def Log_Append_def send_logCh_def Let_def)

lemma keeps_record:
  "keeps lfc (lfc\<lparr>lf_syncer := snd (RecordSetOperation now k b e trm (lf_syncer lfc))\<rparr>)"
  "keeps lfc (lfc\<lparr>lf_syncer := snd (RecordDelOperation now k trm (lf_syncer lfc))\<rparr>)"
  using Record_inv by (auto simp: keeps_def)

lemma keeps_role: "keeps lfc lfc' \<Longrightarrow> lf_currentRole lfc' = lf_currentRole lfc"
  unfolding keeps_def by (elim conjE, drule arg_cong [of _ _ lf_currentRole]) simp

text \<open>Over any cache that meets the contract, a call answers as the cache does, and a leader records it.\<close>

context repl_cache
begin

lemma lfc_call_rep:
  assumes "rep (sy_localCache (lf_syncer lfc)) m" "log_room (Suc n) lfc" "lf_currentRole lfc = RoleLeader \<Longrightarrow> marshals marshal p"
  shows "\<exists>lfc' m'. lfc_call get put del marshal p lfc = Some (call_result (fst (spec_step p m)), lfc') \<and> rep (sy_localCache (lf_syncer lfc')) m'
    \<and> same_from (fst p) (snd (spec_step p m)) m' \<and> log_room n lfc' \<and> keeps lfc lfc'
    \<and> commands lfc' = commands lfc @ (if lf_currentRole lfc = RoleLeader then call_entries marshal p else [])"
proof -
  obtain now q where p: "p = (now, q)" by force
  have room: "log_room n lfc" "sy_running (lf_syncer lfc) \<longrightarrow> length (sy_logCh (lf_syncer lfc)) < 1000" using assms(2) by (auto simp: log_room_def)
  show ?thesis
  proof (cases q)
    case (OpGet k)
    obtain c' m' where "get now k (sy_localCache (lf_syncer lfc)) = Some (get_result (live now m k), c')" "rep c' m'" "purges now m m'"
      using get_law [OF assms(1)] by blast
    then show ?thesis using p OpGet room(1)
      by (intro exI [of _ "set_cache c' lfc"] exI [of _ m']) (simp add: Lfc_Get_def call_result_def purges_same_from)
  next
    case (OpSet k v e)
    obtain c' where c': "put now k v e (sy_localCache (lf_syncer lfc)) = Some (Inr (), c')" "rep c' (m(k \<mapsto> (v, now + e)))"
      using put_law [OF assms(1)] by blast
    show ?thesis
    proof (cases "lf_currentRole lfc = RoleLeader")
      case True
      then obtain b where b: "value_bytes marshal v = Some b" using assms(3) p OpSet by (auto simp: marshals_def)
      let ?s = "lf_syncer (set_cache c' lfc)"
      obtain s' where s': "RecordSetOperation now k b e 1 ?s = (Inr (), s')" "sy_localCache s' = sy_localCache ?s" "sy_running s' = sy_running ?s"
          "length (sy_logCh s') \<le> Suc (length (sy_logCh ?s))"
          "map cmd_of (rl_entries (sy_log s')) = map cmd_of (rl_entries (sy_log ?s)) @
            [\<lparr>re_Index = 0, re_Term = 1, re_Command = ''Set'', re_Key = k, re_Value = b, re_Expiration = e, re_Timestamp = 0, re_ValueType = ''string''\<rparr>]"
        using RecordSet_ok [of ?s now k b e 1] room(2) by (auto simp: set_cache_def)
      have "keeps lfc ((set_cache c' lfc)\<lparr>lf_syncer := s'\<rparr>)"
        using keeps_trans [OF keeps_set_cache keeps_record(1) [of "set_cache c' lfc" now k b e 1]] s'(1) by simp
      then show ?thesis using p OpSet c' True b s' assms(2)
        by (intro exI [of _ "(set_cache c' lfc)\<lparr>lf_syncer := s'\<rparr>"] exI [of _ "m(k \<mapsto> (v, now + e))"])
           (auto simp: Lfc_Set_def call_result_def commands_def log_room_def set_cache_def)
    next
      case False
      then show ?thesis using p OpSet c' room(1)
        by (intro exI [of _ "set_cache c' lfc"] exI [of _ "m(k \<mapsto> (v, now + e))"]) (simp add: Lfc_Set_def call_result_def)
    qed
  next
    case (OpDel k)
    obtain c' where c': "del k (sy_localCache (lf_syncer lfc)) = Some (Inr (), c')" "rep c' (m(k := None))"
      using del_law [OF assms(1)] by blast
    show ?thesis
    proof (cases "lf_currentRole lfc = RoleLeader")
      case True
      let ?s = "lf_syncer (set_cache c' lfc)"
      obtain s' where s': "RecordDelOperation now k 1 ?s = (Inr (), s')" "sy_localCache s' = sy_localCache ?s" "sy_running s' = sy_running ?s"
          "length (sy_logCh s') \<le> Suc (length (sy_logCh ?s))"
          "map cmd_of (rl_entries (sy_log s')) = map cmd_of (rl_entries (sy_log ?s)) @
            [\<lparr>re_Index = 0, re_Term = 1, re_Command = ''Del'', re_Key = k, re_Value = '''', re_Expiration = 0, re_Timestamp = 0, re_ValueType = ''''\<rparr>]"
        using RecordDel_ok [of ?s now k 1] room(2) by (auto simp: set_cache_def)
      have "keeps lfc ((set_cache c' lfc)\<lparr>lf_syncer := s'\<rparr>)"
        using keeps_trans [OF keeps_set_cache keeps_record(2) [of "set_cache c' lfc" now k 1]] s'(1) by simp
      then show ?thesis using p OpDel c' True s' assms(2)
        by (intro exI [of _ "(set_cache c' lfc)\<lparr>lf_syncer := s'\<rparr>"] exI [of _ "m(k := None)"])
           (auto simp: Lfc_Del_def call_result_def commands_def log_room_def set_cache_def)
    next
      case False
      then show ?thesis using p OpDel c' room(1)
        by (intro exI [of _ "set_cache c' lfc"] exI [of _ "m(k := None)"]) (simp add: Lfc_Del_def call_result_def)
    qed
  qed
qed

lemma lfc_run_rep:
  assumes "rep (sy_localCache (lf_syncer lfc)) m" "same_from t m m0" "sorted (t # map fst ops)" "log_room (length ops) lfc"
    and "lf_currentRole lfc = RoleLeader \<Longrightarrow> list_all (marshals marshal) ops"
  shows "\<exists>lfc'. lfc_run get put del marshal ops lfc = Some (map call_result (spec_run ops m0), lfc') \<and> keeps lfc lfc'
    \<and> commands lfc' = commands lfc @ (if lf_currentRole lfc = RoleLeader then concat (map (call_entries marshal) ops) else [])"
  using assms
proof (induction ops arbitrary: lfc m m0 t)
  case (Cons p ops)
  have t: "t \<le> fst p" "sorted (fst p # map fst ops)" using Cons.prems(3) by auto
  have sf: "same_from (fst p) m m0" using Cons.prems(2) t(1) by (rule same_from_later)
  have live: "fst (spec_step p m) = fst (spec_step p m0)" "same_from (fst p) (snd (spec_step p m)) (snd (spec_step p m0))"
    using same_from_live [OF sf] same_from_upd [OF sf] sf by (cases p; cases "snd p"; auto)+
  obtain lfc1 m1 where 1: "lfc_call get put del marshal p lfc = Some (call_result (fst (spec_step p m)), lfc1)" "rep (sy_localCache (lf_syncer lfc1)) m1"
      "same_from (fst p) (snd (spec_step p m)) m1" "log_room (length ops) lfc1" "keeps lfc lfc1"
      "commands lfc1 = commands lfc @ (if lf_currentRole lfc = RoleLeader then call_entries marshal p else [])"
    using lfc_call_rep [OF Cons.prems(1), of "length ops" marshal p] Cons.prems(4,5) by auto
  have role: "lf_currentRole lfc1 = lf_currentRole lfc" using keeps_role [OF 1(5)] .
  obtain lfc2 where 2: "lfc_run get put del marshal ops lfc1 = Some (map call_result (spec_run ops (snd (spec_step p m0))), lfc2)" "keeps lfc1 lfc2"
      "commands lfc2 = commands lfc1 @ (if lf_currentRole lfc1 = RoleLeader then concat (map (call_entries marshal) ops) else [])"
    using Cons.IH [OF 1(2) same_from_trans [OF same_from_sym [OF 1(3)] live(2)] t(2) 1(4)] Cons.prems(5) role by auto
  show ?case using 1(1,6) 2(1,3) live(1) role keeps_trans [OF 1(5) 2(2)] by auto
qed simp

end


definition lfc_at :: "ReplicationRole \<Rightarrow> string \<Rightarrow> ((unit anyval, unit) MemoryCache \<times> unit) LeaderFollowerCluster" where
  "lfc_at role nid = projr (NewLeaderFollowerCluster 1 nid (nid @ '':1'') (Some (NewMemoryCache 4 (\<lambda>_ _. False) [], ())) [WithInitialRole role])"

lemma lfc_at_new:
  "nid \<noteq> '''' \<Longrightarrow>
    NewLeaderFollowerCluster 1 nid (nid @ '':1'') (Some (NewMemoryCache 4 (\<lambda>_ _. False) [], ())) [WithInitialRole role] = Inr (lfc_at role nid)"
  by (simp add: lfc_at_def NewLeaderFollowerCluster_def NewNode_def Let_def split: sum.splits)

lemma lfc_at_simps:
  assumes "nid \<noteq> ''''"
  shows "lf_currentRole (lfc_at role nid) = role" "mem_rep (sy_localCache (lf_syncer (lfc_at role nid))) Map.empty"
    "sy_log (lf_syncer (lfc_at role nid)) = NewMemoryReplicationLog" "\<not> sy_running (lf_syncer (lfc_at role nid))"
  using assms
  by (simp_all add: lfc_at_def NewLeaderFollowerCluster_def WithInitialRole_def NewNode_def NewMemorySyncer_def Let_def mem_rep_new default_cache_def
      DefaultShardCount_def split: sum.splits)



end
