(* ===== verification/Failover.thy ===== *)
theory Failover
  imports LeaderFollower
begin

text \<open>
  The leader and follower cluster as a whole: its steps under every interleaving of the calls of its clients, its own
  goroutines, those of its replication node and synchroniser and those of its cluster node; the invariants of its
  reachable states; what becomes of \<open>Stop\<close>; failover.
\<close>

section \<open>What a synchronisation keeps\<close>

text \<open>A synchronisation changes the cache and the log of the synchroniser only, and keeps the log well formed.\<close>

definition syncs_to :: "'c MemorySyncer \<Rightarrow> 'c MemorySyncer \<Rightarrow> bool" where
  "syncs_to s s' \<longleftrightarrow> (\<exists>c l. s' = s\<lparr>sy_localCache := c, sy_log := l\<rparr>) \<and> (log_inv (sy_log s) \<longrightarrow> log_inv (sy_log s'))"

lemma syncs_to_refl [simp]: "syncs_to s s"
  unfolding syncs_to_def by (metis MemorySyncer.surjective MemorySyncer.update_convs(1,3))

lemma syncs_to_trans [trans]: "syncs_to s s1 \<Longrightarrow> syncs_to s1 s2 \<Longrightarrow> syncs_to s s2"
proof -
  assume 1: "syncs_to s s1" and 2: "syncs_to s1 s2"
  obtain c l where "s2 = s\<lparr>sy_localCache := c, sy_log := l\<rparr>" using 1 2 by (auto simp: syncs_to_def)
  with 1 2 show ?thesis unfolding syncs_to_def by blast
qed

lemma syncs_to_cache [simp]: "syncs_to s (s\<lparr>sy_localCache := c\<rparr>)"
  unfolding syncs_to_def by (intro conjI exI [of _ c] exI [of _ "sy_log s"]) simp_all

lemma syncs_toD:
  assumes "syncs_to s s'"
  shows "log_inv (sy_log s) \<Longrightarrow> log_inv (sy_log s')" "sy_running s' = sy_running s" "sy_listening s' = sy_listening s"
    "sy_httpServer s' = sy_httpServer s" "sy_logCh s' = sy_logCh s" "sy_nodeID s' = sy_nodeID s"
  using assms by (auto simp: syncs_to_def)

lemma ApplySync_syncs: "ApplySync put del now es s = Some (r, s') \<Longrightarrow> syncs_to s s'"
proof (induction put del now es s arbitrary: r s' rule: ApplySync.induct)
  case (2 put del now entry ents s)
  obtain err c where c: "applyEntryToLocal put del now (Some entry) (sy_localCache s) = Some (err, c)"
    using "2.prems" by (auto simp: bind_eq_Some_conv)
  let ?s = "s\<lparr>sy_localCache := c\<rparr>"
  show ?case
  proof (cases err)
    case (Inl e)
    then show ?thesis using "2.prems" c by auto
  next
    case (Inr u)
    obtain l where l: "Log_Append now (Some entry) (sy_log s) = (Inr (), l)" by (simp add: Log_Append_def)
    have "syncs_to s (?s\<lparr>sy_log := l\<rparr>)"
      using log_inv_append [of "sy_log s" now "Some entry"] l unfolding syncs_to_def by auto
    moreover have "syncs_to (?s\<lparr>sy_log := l\<rparr>) s'"
      using "2.IH" [OF c refl refl Inr _ refl, where ya = l] "2.prems" c l Inr by simp
    ultimately show ?thesis by (rule syncs_to_trans)
  qed
qed simp

lemma sendSyncRequest_syncs_aux: "sendSyncRequest put del env req n s = Some y \<Longrightarrow> syncs_to s (snd (snd y))"
proof (erule sendSyncRequest.raw_induct [rotated], goal_cases)
  case (1 send put del env req n s y)
  obtain reply n1 where net: "e_net env req n = (reply, n1)" by force
  show ?case
  proof (cases reply)
    case (Replied status body)
    show ?thesis
    proof (cases "status = 200 \<and> (\<exists>resp. body = Some (Some resp) \<and> rs_Success resp)")
      case True
      then obtain resp where resp: "body = Some (Some resp)" "status = 200" "rs_Success resp" by blast
      with 1(2) net Replied obtain r1 s1 where ap: "ApplySync put del (e_clock env n1) (rs_Entries resp) s = Some (r1, s1)"
        by (auto split: option.splits)
      note s1 = ApplySync_syncs [OF ap]
      show ?thesis
        using 1(2) net Replied resp ap s1 syncs_to_trans [OF s1 1(1)] by (auto split: sum.splits if_splits)
    qed (use 1(2) net Replied in \<open>auto split: option.splits if_splits\<close>)
  qed (use 1(2) net in auto)
qed

lemma sendSyncRequest_syncs: "sendSyncRequest put del env req n s = Some (r, n', s') \<Longrightarrow> syncs_to s s'"
  using sendSyncRequest_syncs_aux by fastforce

lemma retry_loop_syncs: "retry_loop k put del env req n s = Some (r, n', s') \<Longrightarrow> syncs_to s s'"
proof (induction k put del env req n s arbitrary: r n' s' rule: retry_loop.induct)
  case (2 k put del env req n s)
  show ?case
  proof (cases "e_ctxErr env n")
    case None
    then obtain r1 n1 s1 where send: "sendSyncRequest put del env req n s = Some (r1, n1, s1)"
      using "2.prems" by (auto simp: bind_eq_Some_conv)
    note s1 = sendSyncRequest_syncs [OF send]
    show ?thesis
      using "2.prems" "2.IH" None send s1 syncs_to_trans [OF s1] by (auto split: sum.splits if_splits prod.splits option.splits)
  qed (use "2.prems" in auto)
qed simp

lemma FullSync_syncs: "FullSync put del env n s = Some (r, n', s') \<Longrightarrow> syncs_to s s'"
  unfolding FullSync_def syncWithRetries_def by (rule retry_loop_syncs)

lemma IncrementalSync_syncs: "IncrementalSync put del env i n s = Some (r, n', s') \<Longrightarrow> syncs_to s s'"
  unfolding IncrementalSync_def syncWithRetries_def by (rule retry_loop_syncs)

section \<open>Steps\<close>

text \<open>The two halves of \<open>Set\<close> and \<open>Del\<close>, the local one and the locked one, are steps of their own.\<close>

definition callbacks_after :: "nat \<Rightarrow> failover option \<Rightarrow> failover list \<Rightarrow> failover list" where
  "callbacks_after i pc pcs = (case pc of Some p \<Rightarrow> pcs[i := p] | None \<Rightarrow> take i pcs @ drop (Suc i) pcs)"

inductive lfc_step :: "('c, 'a anyval) cache_get \<Rightarrow> ('c, 'a anyval) cache_put \<Rightarrow> 'c cache_del
    \<Rightarrow> string list \<times> 'c LeaderFollowerCluster \<Rightarrow> string list \<times> 'c LeaderFollowerCluster \<Rightarrow> bool"
  for get put del where
  start: "\<not> lf_mu lfc \<Longrightarrow> Lfc_Start now err lfc = Some (r, lfc') \<Longrightarrow> lfc_step get put del (probes, lfc) (probes, lfc')"
| stop_begin: "\<not> lf_mu lfc \<Longrightarrow> Lfc_Stop_begin lfc = Some lfc' \<Longrightarrow> lfc_step get put del (probes, lfc) (probes, lfc')"
| stop_end: "lf_mu lfc \<Longrightarrow> lf_handler lfc = HandlerOff \<Longrightarrow> Lfc_Stop_end lfc = Some (r, lfc') \<Longrightarrow>
    lfc_step get put del (probes, lfc) (probes, lfc')"
| join: "Lfc_Join put del send (env :: string \<Rightarrow> nat env) now started addr n lfc = Some (r, n', lfc') \<Longrightarrow>
    lfc_step get put del (probes, lfc) (probes, lfc')"
| leave: "lfc_step get put del (probes, lfc) (probes, snd (snd (Lfc_Leave now lfc)))"
| promote: "\<not> lf_mu lfc \<Longrightarrow> Lfc_PromoteToLeader lfc = Some (r, lfc') \<Longrightarrow> lfc_step get put del (probes, lfc) (probes, lfc')"
| demote: "\<not> lf_mu lfc \<Longrightarrow> Lfc_DemoteToFollower put del (env :: string \<Rightarrow> nat env) now lid addr n lfc = Some (r, n', lfc') \<Longrightarrow>
    lfc_step get put del (probes, lfc) (probes, lfc')"
| add_follower: "\<not> lf_mu lfc \<Longrightarrow> lfc_step get put del (probes, lfc) (probes, snd (Lfc_AddFollower nid addr lfc))"
| remove_follower: "\<not> lf_mu lfc \<Longrightarrow> lfc_step get put del (probes, lfc) (probes, snd (Lfc_RemoveFollower nid lfc))"
| sync_from_leader: "\<not> lf_mu lfc \<Longrightarrow> Lfc_SyncFromLeader put del (env :: string \<Rightarrow> nat env) n lfc = Some (r, n', lfc') \<Longrightarrow>
    lfc_step get put del (probes, lfc) (probes, lfc')"
| replicate_now: "\<not> lf_mu lfc \<Longrightarrow> Lfc_ReplicateNow post (n :: nat) lfc = Some (r, n', lfc') \<Longrightarrow> lfc_step get put del (probes, lfc) (probes, lfc')"
| handler: "handler_move timeout pick lfc = Some lfc' \<Longrightarrow> lfc_step get put del (probes, lfc) (probes, lfc')"
| callback: "i < length (lf_callbacks lfc) \<Longrightarrow> failover_move timeout pick (lf_callbacks lfc ! i) lfc = Some (pc, lfc') \<Longrightarrow>
    lfc_step get put del (probes, lfc) (probes, lfc'\<lparr>lf_callbacks := callbacks_after i pc (lf_callbacks lfc)\<rparr>)"
| monitor: "follower_of lfc = Some f \<Longrightarrow> fo_running f \<Longrightarrow> Follower_monitor_tick now f (lf_callbacks lfc) = (f', callbacks) \<Longrightarrow>
    lfc_step get put del (probes, lfc) (probes, (set_follower f' lfc)\<lparr>lf_callbacks := callbacks\<rparr>)"
| heartbeat: "leader_of lfc = Some l \<Longrightarrow> lfc_step get put del (probes, lfc) (probes, set_leader (Leader_heartbeat_tick l) lfc)"
| added_sync: "leader_of lfc = Some l \<Longrightarrow> Leader_addFollower_sync put del (env :: nat env) nid n l = Some (n', l') \<Longrightarrow>
    lfc_step get put del (probes, lfc) (probes, set_leader l' lfc)"
| old_leader_sync: "FullSync put del (env :: nat env) n (lf_syncer lfc) = Some (r, n', s) \<Longrightarrow>
    lfc_step get put del (probes, lfc) (probes, lfc\<lparr>lf_syncer := s\<rparr>)"
| log_entry: "processLogEntries_step put del now pick (lf_syncer lfc) = Some (go, s) \<Longrightarrow>
    lfc_step get put del (probes, lfc) (probes, lfc\<lparr>lf_syncer := s\<rparr>)"
| receive: "http_receive put del now post body (lf_syncer lfc) = Some (status, s) \<Longrightarrow>
    lfc_step get put del (probes, lfc) (probes, lfc\<lparr>lf_syncer := s\<rparr>)"
| local: "lfc_step get put del (probes, lfc) (probes, set_cache c lfc)"
| record_set: "\<not> lf_mu lfc \<Longrightarrow> lf_currentRole lfc = RoleLeader \<Longrightarrow>
    lfc_step get put del (probes, lfc) (probes, lfc\<lparr>lf_syncer := snd (RecordSetOperation now key val expiration 1 (lf_syncer lfc))\<rparr>)"
| record_del: "\<not> lf_mu lfc \<Longrightarrow> lf_currentRole lfc = RoleLeader \<Longrightarrow>
    lfc_step get put del (probes, lfc) (probes, lfc\<lparr>lf_syncer := snd (RecordDelOperation now key 1 (lf_syncer lfc))\<rparr>)"
| node: "node_step get put (probes, lf_clusterNode lfc, sy_localCache (lf_syncer lfc)) (probes', n', c') \<Longrightarrow>
    lfc_step get put del (probes, lfc) (probes', set_cache c' (lfc\<lparr>lf_clusterNode := n'\<rparr>))"

inductive lfc_reachable :: "('c, 'a anyval) cache_get \<Rightarrow> ('c, 'a anyval) cache_put \<Rightarrow> 'c cache_del
    \<Rightarrow> string list \<times> 'c LeaderFollowerCluster \<Rightarrow> bool" for get put del where
  init: "NewLeaderFollowerCluster now nodeID address (Some c) options = Inr lfc \<Longrightarrow> lfc_reachable get put del ([], lfc)"
| step: "lfc_reachable get put del s \<Longrightarrow> lfc_step get put del s s' \<Longrightarrow> lfc_reachable get put del s'"

section \<open>Roles\<close>

definition leader_ok :: "string \<Rightarrow> 'c LeaderNode \<Rightarrow> bool" where
  "leader_ok nid l \<longleftrightarrow> leader_inv l \<and> ld_nodeID l = nid \<and> ld_role l = RoleLeader \<and> log_inv (sy_log (ld_syncer l))"

definition follower_ok :: "string \<Rightarrow> ('c, 'u) FollowerNode \<Rightarrow> bool" where
  "follower_ok nid f \<longleftrightarrow> fo_nodeID f = nid \<and> fo_role f = RoleFollower \<and> log_inv (sy_log (fo_syncer f))"

definition role_inv :: "'c LeaderFollowerCluster \<Rightarrow> bool" where
  "role_inv lfc \<longleftrightarrow>
     (if lf_currentRole lfc = RoleLeader
      then lf_followerNode lfc = None \<and> (\<exists>l. leader_of lfc = Some l \<and> leader_ok (lf_nodeID lfc) l)
      else lf_leaderNode lfc = None \<and> (\<exists>f. follower_of lfc = Some f \<and> follower_ok (lf_nodeID lfc) f))"

text \<open>Starting and stopping the parts never gives an error.\<close>

lemma Syncer_Start_Stop_simps [simp]:
  "sy_log (snd (Syncer_Start s)) = sy_log s" "sy_log (snd (Syncer_Stop s)) = sy_log s"
  "fst (Syncer_Start s) = Inr ()" "fst (Syncer_Stop s) = Inr ()"
  "sy_localCache (snd (Syncer_Start s)) = sy_localCache s" "sy_localCache (snd (Syncer_Stop s)) = sy_localCache s"
  by (simp_all add: Syncer_Start_def Syncer_StartHTTPServer_def Syncer_Stop_def)

lemma Syncer_Start_eq: "Syncer_Start s = (Inr (), snd (Syncer_Start s))"
  by (rule prod_eqI) simp_all

lemma Leader_Start_eq:
  "Leader_Start l = (Inr (), if ld_running l then l
     else l\<lparr>ld_running := True, ld_syncer := snd (Syncer_Start (ld_syncer l)), ld_heartbeatTimer := TimerArmed\<rparr>)"
  by (subst Leader_Start_def, subst Syncer_Start_eq) (simp add: Leader_startHeartbeat_def)

lemma Leader_Stop_eq:
  "Leader_Stop l =
     (if \<not> ld_running l then Some (Inr (), l) else if ld_stopClosed l then None
      else Some (Inr (), l\<lparr>ld_heartbeatTimer := timer_stop (ld_heartbeatTimer l), ld_stopClosed := True,
                           ld_syncer := snd (Syncer_Stop (ld_syncer l)), ld_running := False\<rparr>))"
  by (simp add: Leader_Stop_def Syncer_Stop_def Let_def)

lemma leader_ok_Start: "leader_ok nid l \<Longrightarrow> leader_ok nid (snd (Leader_Start l))"
  using leader_step_inv [OF leader_step.Start, of l] by (simp add: leader_ok_def Leader_Start_eq)

lemma leader_ok_Stop: "Leader_Stop l = Some (r, l') \<Longrightarrow> leader_ok nid l \<Longrightarrow> leader_ok nid l'"
  using leader_step_inv [OF leader_step.Stop, of l r l'] by (auto simp: leader_ok_def Leader_Stop_eq split: if_splits)

lemma leader_frame [simp]:
  "ld_nodeID (snd (Leader_AddFollower k addr l)) = ld_nodeID l" "ld_nodeID (snd (Leader_RemoveFollower k l)) = ld_nodeID l"
  "ld_role (snd (Leader_AddFollower k addr l)) = ld_role l" "ld_role (snd (Leader_RemoveFollower k l)) = ld_role l"
  "ld_syncer (snd (Leader_AddFollower k addr l)) = ld_syncer l" "ld_syncer (snd (Leader_RemoveFollower k l)) = ld_syncer l"
  "ld_nodeID (Leader_heartbeat_tick l) = ld_nodeID l" "ld_role (Leader_heartbeat_tick l) = ld_role l"
  "ld_syncer (Leader_heartbeat_tick l) = ld_syncer l"
  by (simp_all add: Leader_AddFollower_def Leader_RemoveFollower_def Leader_heartbeat_tick_def Let_def)

lemma leader_ok_ops:
  "leader_ok nid l \<Longrightarrow> leader_ok nid (snd (Leader_AddFollower k addr l))"
  "leader_ok nid l \<Longrightarrow> leader_ok nid (snd (Leader_RemoveFollower k l))"
  "leader_ok nid l \<Longrightarrow> leader_ok nid (Leader_heartbeat_tick l)"
  using leader_step_inv [OF leader_step.AddFollower] leader_step_inv [OF leader_step.RemoveFollower] leader_step_inv [OF leader_step.Tick]
  by (auto simp: leader_ok_def)

lemma leader_ok_sync:
  assumes "Leader_addFollower_sync put del (env :: nat env) k n l = Some (n', l')" "leader_ok nid l"
  shows "leader_ok nid l'" and "syncs_to (ld_syncer l) (ld_syncer l')"
proof -
  obtain r s where s: "FullSync put del env n (ld_syncer l) = Some (r, n', s)" "ld_syncer l' = s" "ld_nodeID l' = ld_nodeID l" "ld_role l' = ld_role l"
    using assms(1) by (auto simp: Leader_addFollower_sync_def bind_eq_Some_conv Let_def)
  note sync = FullSync_syncs [OF s(1)]
  show "syncs_to (ld_syncer l) (ld_syncer l')" using sync s by simp
  show "leader_ok nid l'"
    using leader_step_inv [OF leader_step.SyncDone [OF assms(1)]] assms(2) s syncs_toD(1) [OF sync] by (simp add: leader_ok_def)
qed

lemma set_status_ok: "leader_ok nid l \<Longrightarrow> leader_ok nid (set_status k st l)"
  by (simp add: leader_ok_def leader_inv_status) (simp add: set_status_def)

lemma replicate_one_frame:
  assumes "replicate_one post k addr n l = Some (errs, n', l')"
  shows "l' = l \<or> (\<exists>st. l' = set_status k st l)"
proof -
  obtain r where r: "Log_GetFrom (0 + 1) (rc_MaxLogEntries (ld_config l)) (sy_log (ld_syncer l)) = Some r"
    using assms by (auto simp: replicate_one_def bind_eq_Some_conv)
  show ?thesis
  proof (cases r)
    case (Inr ents)
    obtain reply n1 where "post addr \<lparr>rs_Success = True, rs_Entries = ents, rs_NextIndex = Log_GetLastIndex (sy_log (ld_syncer l)) + 1\<rparr> n = (reply, n1)"
      by force
    then show ?thesis using assms r Inr by (cases reply) (auto simp: replicate_one_def split: if_splits)
  qed (use assms r in \<open>auto simp: replicate_one_def\<close>)
qed

lemma replicate_loop_ok:
  "replicate_loop post fs n l = Some (errs, n', l') \<Longrightarrow> leader_ok nid l \<Longrightarrow> leader_ok nid l' \<and> ld_syncer l' = ld_syncer l"
proof (induction fs arbitrary: n l errs n' l')
  case (Cons a fs)
  obtain k addr where a: "a = (k, addr)" by force
  obtain e1 n1 l1 e2 where 1: "replicate_one post k addr n l = Some (e1, n1, l1)" "replicate_loop post fs n1 l1 = Some (e2, n', l')"
    using Cons.prems(1) by (auto simp: a bind_eq_Some_conv)
  from replicate_one_frame [OF 1(1)] Cons.prems(2) have "leader_ok nid l1 \<and> ld_syncer l1 = ld_syncer l"
    by (auto simp: set_status_ok) (simp add: set_status_def)
  with Cons.IH [OF 1(2)] show ?case by simp
qed simp

lemma ReplicateEntries_ok:
  "Leader_ReplicateEntries post n l = Some (r, n', l') \<Longrightarrow> leader_ok nid l \<Longrightarrow> leader_ok nid l' \<and> ld_syncer l' = ld_syncer l"
  using replicate_loop_ok by (fastforce simp: Leader_ReplicateEntries_def bind_eq_Some_conv split: if_splits)

lemma Follower_Stop_ok: "Follower_Stop f = Some (r, f') \<Longrightarrow> follower_ok nid f \<Longrightarrow> follower_ok nid f' \<and> fo_syncer f' = fo_syncer f"
  by (auto simp: Follower_Stop_def follower_ok_def split: if_splits)

lemma Follower_SyncFromLeader_frame:
  assumes "Follower_SyncFromLeader put del env n f = Some (r, n', f')"
  shows "\<exists>s st. f' = f\<lparr>fo_syncState := st, fo_syncer := s\<rparr> \<and> syncs_to (fo_syncer f) s"
proof (cases "fo_leaderAddr f = ''''")
  case True
  then show ?thesis using assms by (intro exI [of _ "fo_syncer f"] exI [of _ "fo_syncState f"]) (simp add: Follower_SyncFromLeader_def)
next
  case False
  then obtain err n1 s where
    s: "IncrementalSync put del (env (fo_leaderAddr f)) (Log_GetLastIndex (sy_log (fo_syncer f))) n (fo_syncer f) = Some (err, n1, s)"
    using assms(1) by (auto simp: Follower_SyncFromLeader_def bind_eq_Some_conv Let_def)
  then show ?thesis using assms False IncrementalSync_syncs [OF s]
    by (intro exI [of _ s] exI [of _ "fo_syncState f'"]) (cases err, auto simp: Follower_SyncFromLeader_def)
qed

lemma Follower_RequestFullSync_frame:
  assumes "Follower_RequestFullSync put del env n f = Some (r, n', f')"
  shows "\<exists>s st. f' = f\<lparr>fo_syncState := st, fo_syncer := s\<rparr> \<and> syncs_to (fo_syncer f) s"
proof (cases "fo_leaderAddr f = ''''")
  case True
  then show ?thesis using assms by (intro exI [of _ "fo_syncer f"] exI [of _ "fo_syncState f"]) (simp add: Follower_RequestFullSync_def)
next
  case False
  then obtain err n1 s where s: "FullSync put del (env (fo_leaderAddr f)) n (fo_syncer f) = Some (err, n1, s)"
    using assms(1) by (auto simp: Follower_RequestFullSync_def bind_eq_Some_conv Let_def)
  then show ?thesis using assms False FullSync_syncs [OF s]
    by (intro exI [of _ s] exI [of _ "fo_syncState f'"]) (cases err, auto simp: Follower_RequestFullSync_def)
qed

lemma follower_sync_ok:
  "Follower_SyncFromLeader put del env n f = Some (r, n', f') \<Longrightarrow> follower_ok nid f \<Longrightarrow> follower_ok nid f'"
  "Follower_RequestFullSync put del env n f = Some (r, n', f') \<Longrightarrow> follower_ok nid f \<Longrightarrow> follower_ok nid f'"
  by (auto dest!: Follower_SyncFromLeader_frame Follower_RequestFullSync_frame simp: follower_ok_def syncs_toD(1))

lemma fo_onLeaderFail_sync:
  "Follower_SyncFromLeader put del env n f = Some (r, n', f') \<Longrightarrow> fo_onLeaderFail f' = fo_onLeaderFail f"
  "Follower_RequestFullSync put del env n f = Some (r, n', f') \<Longrightarrow> fo_onLeaderFail f' = fo_onLeaderFail f"
  by (auto dest!: Follower_SyncFromLeader_frame Follower_RequestFullSync_frame)

text \<open>Handing the shared synchroniser back and forth.\<close>

lemma leader_of_simps [simp]:
  "leader_of (set_leader l lfc) = Some l" "follower_of (set_follower f lfc) = Some f"
  "lf_followerNode (set_leader l lfc) = lf_followerNode lfc" "lf_leaderNode (set_follower f lfc) = lf_leaderNode lfc"
  "lf_currentRole (set_leader l lfc) = lf_currentRole lfc" "lf_currentRole (set_follower f lfc) = lf_currentRole lfc"
  "lf_nodeID (set_leader l lfc) = lf_nodeID lfc" "lf_nodeID (set_follower f lfc) = lf_nodeID lfc"
  "lf_syncer (set_leader l lfc) = ld_syncer l" "lf_syncer (set_follower f lfc) = fo_syncer f"
  "lf_clusterNode (set_leader l lfc) = lf_clusterNode lfc" "lf_clusterNode (set_follower f lfc) = lf_clusterNode lfc"
  by (simp_all add: leader_of_def follower_of_def set_leader_def set_follower_def)

lemma role_inv_set_leader: "lf_currentRole lfc = RoleLeader \<Longrightarrow> role_inv lfc \<Longrightarrow> leader_ok (lf_nodeID lfc) l \<Longrightarrow> role_inv (set_leader l lfc)"
  by (simp add: role_inv_def)

lemma role_inv_set_follower:
  "lf_currentRole lfc \<noteq> RoleLeader \<Longrightarrow> role_inv lfc \<Longrightarrow> follower_ok (lf_nodeID lfc) f \<Longrightarrow> role_inv (set_follower f lfc)"
  by (simp add: role_inv_def)

text \<open>Fields on which the invariant does not depend.\<close>

definition same_roles :: "'c LeaderFollowerCluster \<Rightarrow> 'c LeaderFollowerCluster \<Rightarrow> bool" where
  "same_roles lfc lfc' \<longleftrightarrow> lf_currentRole lfc' = lf_currentRole lfc \<and> lf_nodeID lfc' = lf_nodeID lfc \<and>
     lf_leaderNode lfc' = lf_leaderNode lfc \<and> lf_followerNode lfc' = lf_followerNode lfc"

lemma role_inv_same:
  assumes "role_inv lfc" "same_roles lfc lfc'" "log_inv (sy_log (lf_syncer lfc)) \<Longrightarrow> log_inv (sy_log (lf_syncer lfc'))"
  shows "role_inv lfc'"
  using assms by (auto simp: role_inv_def same_roles_def leader_of_def follower_of_def leader_ok_def follower_ok_def leader_inv_def split: if_splits)

lemma role_inv_log: "role_inv lfc \<Longrightarrow> log_inv (sy_log (lf_syncer lfc))"
  by (auto simp: role_inv_def leader_of_def follower_of_def leader_ok_def follower_ok_def split: if_splits)

lemma role_inv_updates [simp]:
  "role_inv (lfc\<lparr>lf_clusterNode := node\<rparr>) = role_inv lfc" "role_inv (lfc\<lparr>lf_mu := b\<rparr>) = role_inv lfc"
  "role_inv (lfc\<lparr>lf_running := b\<rparr>) = role_inv lfc" "role_inv (lfc\<lparr>lf_stopClosed := b\<rparr>) = role_inv lfc"
  "role_inv (lfc\<lparr>lf_failoverChs := chs\<rparr>) = role_inv lfc" "role_inv (lfc\<lparr>lf_failoverStopCh := k\<rparr>) = role_inv lfc"
  "role_inv (lfc\<lparr>lf_handler := h\<rparr>) = role_inv lfc" "role_inv (lfc\<lparr>lf_callbacks := cs\<rparr>) = role_inv lfc"
  "role_inv (set_metadata md lfc) = role_inv lfc"
  by (simp_all add: role_inv_def leader_of_def follower_of_def set_metadata_def)

lemma role_inv_syncer: "role_inv lfc \<Longrightarrow> (log_inv (sy_log (lf_syncer lfc)) \<Longrightarrow> log_inv (sy_log s)) \<Longrightarrow> role_inv (lfc\<lparr>lf_syncer := s\<rparr>)"
  by (erule role_inv_same) (simp_all add: same_roles_def)

lemma role_inv_set_cache [simp]: "role_inv lfc \<Longrightarrow> role_inv (set_cache c lfc)"
  unfolding set_cache_def by (rule role_inv_syncer) simp_all

lemma role_inv_setElectionCallback: "role_inv lfc \<Longrightarrow> role_inv (setElectionCallback lfc)"
  by (auto simp: role_inv_def setElectionCallback_def leader_of_def follower_of_def follower_ok_def Follower_SetElectionCallback_def split: if_splits)

lemma role_inv_leaderD: "role_inv lfc \<Longrightarrow> leader_of lfc = Some l \<Longrightarrow> lf_currentRole lfc = RoleLeader \<and> leader_ok (lf_nodeID lfc) l"
  by (auto simp: role_inv_def leader_of_def split: if_splits)

lemma role_inv_followerD: "role_inv lfc \<Longrightarrow> follower_of lfc = Some f \<Longrightarrow> lf_currentRole lfc \<noteq> RoleLeader \<and> follower_ok (lf_nodeID lfc) f"
  by (auto simp: role_inv_def follower_of_def split: if_splits)

lemma role_inv_leader_op: "role_inv lfc \<Longrightarrow> leader_of lfc = Some l \<Longrightarrow> leader_ok (lf_nodeID lfc) l' \<Longrightarrow> role_inv (set_leader l' lfc)"
  using role_inv_leaderD role_inv_set_leader by blast

lemma role_inv_follower_op: "role_inv lfc \<Longrightarrow> follower_of lfc = Some f \<Longrightarrow> follower_ok (lf_nodeID lfc) f' \<Longrightarrow> role_inv (set_follower f' lfc)"
  using role_inv_followerD role_inv_set_follower by blast

text \<open>The life cycle without the errors that cannot occur.\<close>

definition started_parts :: "instant \<Rightarrow> gerror option \<Rightarrow> 'c LeaderFollowerCluster \<Rightarrow> 'c LeaderFollowerCluster" where
  "started_parts now err lfc = lfc\<lparr>lf_clusterNode := snd (Node_Start now err (lf_clusterNode lfc)), lf_syncer := snd (Syncer_Start (lf_syncer lfc))\<rparr>"

lemma Lfc_Start_eq:
  "Lfc_Start now err lfc =
     (if lf_running lfc then Some (Inr (), lfc)
      else case fst (Node_Start now err (lf_clusterNode lfc)) of
        Inl _ \<Rightarrow> Some (Inl (Errorf ''failed to start cluster node: %w''), lfc\<lparr>lf_clusterNode := snd (Node_Start now err (lf_clusterNode lfc))\<rparr>)
      | Inr _ \<Rightarrow> let lfc1 = started_parts now err lfc in
          if lf_currentRole lfc1 = RoleLeader
          then map_option (\<lambda>l. (Inr (), (set_leader (snd (Leader_Start l)) lfc1)\<lparr>lf_handler := AtSelect, lf_running := True\<rparr>)) (leader_of lfc1)
          else map_option (\<lambda>f. (Inr (), (setElectionCallback (set_follower (snd (Follower_Start f)) lfc1))\<lparr>lf_handler := AtSelect, lf_running := True\<rparr>))
                 (follower_of lfc1))"
proof -
  have f: "Follower_Start f = (Inr (), snd (Follower_Start f))" for f :: "('c, failover list) FollowerNode" by (simp add: Follower_Start_def)
  have l: "Leader_Start l = (Inr (), snd (Leader_Start l))" for l :: "'c LeaderNode" by (simp add: Leader_Start_eq)
  show ?thesis
    unfolding Lfc_Start_def started_parts_def
    by (subst l, subst f, subst Syncer_Start_eq) (auto simp: Let_def case_prod_unfold map_option_case split: sum.splits option.splits)
qed

definition stopped_parts :: "'c LeaderFollowerCluster \<Rightarrow> 'c LeaderFollowerCluster" where
  "stopped_parts lfc = lfc\<lparr>lf_syncer := snd (Syncer_Stop (lf_syncer lfc)), lf_clusterNode := snd (Node_Stop (lf_clusterNode lfc)),
     lf_running := False, lf_mu := False\<rparr>"

lemma Lfc_Stop_end_cases:
  assumes "Lfc_Stop_end lfc = Some (r, lfc')" "role_inv lfc"
  obtains (leader) l r' l' where "lf_currentRole lfc = RoleLeader" "leader_of lfc = Some l" "Leader_Stop l = Some (r', l')" "lfc' = stopped_parts (set_leader l' lfc)"
    | (follower) f r' f' where "lf_currentRole lfc \<noteq> RoleLeader" "follower_of lfc = Some f" "Follower_Stop f = Some (r', f')" "lfc' = stopped_parts (set_follower f' lfc)"
proof (cases "lf_currentRole lfc = RoleLeader")
  case True
  then obtain l where "leader_of lfc = Some l" using assms(2) by (auto simp: role_inv_def)
  then show ?thesis using True assms(1) leader
    by (auto simp: Lfc_Stop_end_def stopped_parts_def bind_eq_Some_conv case_prod_unfold Let_def)
next
  case False
  then obtain f where "follower_of lfc = Some f" using assms(2) by (auto simp: role_inv_def)
  then show ?thesis using False assms(1) follower
    by (auto simp: Lfc_Stop_end_def stopped_parts_def bind_eq_Some_conv case_prod_unfold Let_def)
qed

lemma role_inv_Start:
  assumes "Lfc_Start now err lfc = Some (r, lfc')" "role_inv lfc"
  shows "role_inv lfc'"
proof (cases "lf_running lfc \<or> (\<exists>e. fst (Node_Start now err (lf_clusterNode lfc)) = Inl e)")
  case True
  then show ?thesis using assms by (auto simp: Lfc_Start_eq split: if_splits)
next
  case False
  let ?lfc1 = "started_parts now err lfc"
  have inv1: "role_inv ?lfc1" unfolding started_parts_def by (rule role_inv_syncer) (simp_all add: assms(2))
  have start: "Lfc_Start now err lfc =
      (if lf_currentRole ?lfc1 = RoleLeader
       then map_option (\<lambda>l. (Inr (), (set_leader (snd (Leader_Start l)) ?lfc1)\<lparr>lf_handler := AtSelect, lf_running := True\<rparr>)) (leader_of ?lfc1)
       else map_option (\<lambda>f. (Inr (), (setElectionCallback (set_follower (snd (Follower_Start f)) ?lfc1))\<lparr>lf_handler := AtSelect, lf_running := True\<rparr>))
              (follower_of ?lfc1))"
    using False by (cases "fst (Node_Start now err (lf_clusterNode lfc))") (auto simp: Lfc_Start_eq Let_def)
  show ?thesis
  proof (cases "lf_currentRole ?lfc1 = RoleLeader")
    case True
    then obtain l where l: "leader_of ?lfc1 = Some l" "leader_ok (lf_nodeID ?lfc1) l" using inv1 by (auto simp: role_inv_def)
    from True assms(1) start l(1) role_inv_leader_op [OF inv1 l(1) leader_ok_Start [OF l(2)]] show ?thesis by auto
  next
    case False
    then obtain f where f: "follower_of ?lfc1 = Some f" "follower_ok (lf_nodeID ?lfc1) f" using inv1 by (auto simp: role_inv_def)
    then have "follower_ok (lf_nodeID ?lfc1) (snd (Follower_Start f))" by (simp add: follower_ok_def Follower_Start_def)
    from False assms(1) start f(1) role_inv_setElectionCallback [OF role_inv_follower_op [OF inv1 f(1) this]] show ?thesis by auto
  qed
qed

lemma role_inv_Stop:
  "Lfc_Stop_begin lfc = Some lfc' \<Longrightarrow> role_inv lfc \<Longrightarrow> role_inv lfc'"
  by (auto simp: Lfc_Stop_begin_def close_failover_def Let_def split: if_splits)

lemma role_inv_stopped: "role_inv lfc \<Longrightarrow> role_inv (stopped_parts lfc)"
  using role_inv_syncer [of lfc "snd (Syncer_Stop (lf_syncer lfc))"] by (simp add: stopped_parts_def)

lemma role_inv_Stop_end: "Lfc_Stop_end lfc = Some (r, lfc') \<Longrightarrow> role_inv lfc \<Longrightarrow> role_inv lfc'"
  by (erule (1) Lfc_Stop_end_cases)
     (auto dest: role_inv_leaderD role_inv_followerD leader_ok_Stop Follower_Stop_ok intro!: role_inv_stopped role_inv_leader_op role_inv_follower_op)

text \<open>\<open>PromoteToLeader\<close> and \<open>DemoteToFollower\<close> when they have something to do.\<close>

definition new_leader :: "'c LeaderFollowerCluster \<Rightarrow> 'c LeaderNode" where
  "new_leader lfc = NewLeaderNode (lf_nodeID lfc) (lf_syncer lfc) (node_options (lf_nodeID lfc) (lf_address lfc) RoleLeader (lf_config lfc))"

definition new_follower :: "instant \<Rightarrow> 'c LeaderFollowerCluster \<Rightarrow> ('c, failover list) FollowerNode" where
  "new_follower now lfc = NewFollowerNode now (lf_nodeID lfc) (lf_syncer lfc) (node_options (lf_nodeID lfc) (lf_address lfc) RoleFollower (lf_config lfc))"

lemma Promote_eq:
  assumes "follower_of lfc = Some f" "lf_currentRole lfc \<noteq> RoleLeader"
  shows "Lfc_PromoteToLeader lfc =
    (if fo_running f \<and> fo_stopClosed f then None
     else Some (Inr (), set_metadata [(''role'', ''leader'')] ((set_leader (snd (Leader_Start (new_leader lfc))) lfc)\<lparr>lf_currentRole := RoleLeader, lf_followerNode := None\<rparr>)))"
proof -
  have "fo_syncer f = lf_syncer lfc" using assms(1) by (auto simp: follower_of_def)
  then show ?thesis using assms
    by (auto simp: Lfc_PromoteToLeader_def Follower_Stop_def Leader_Start_eq new_leader_def set_leader_def set_follower_def Let_def)
qed

lemma new_leader_ok: "log_inv (sy_log (lf_syncer lfc)) \<Longrightarrow> leader_ok (lf_nodeID lfc) (new_leader lfc)"
  by (simp add: leader_ok_def new_leader_def NewLeaderNode_def leader_inv_def)

lemma role_inv_Promote:
  assumes "Lfc_PromoteToLeader lfc = Some (r, lfc')" "role_inv lfc"
  shows "role_inv lfc'"
proof (cases "lf_currentRole lfc = RoleLeader")
  case True
  then show ?thesis using assms by (simp add: Lfc_PromoteToLeader_def)
next
  case False
  then obtain f where f: "follower_of lfc = Some f" using assms(2) by (auto simp: role_inv_def)
  have lfc': "lfc' = set_metadata [(''role'', ''leader'')] ((set_leader (snd (Leader_Start (new_leader lfc))) lfc)\<lparr>lf_currentRole := RoleLeader, lf_followerNode := None\<rparr>)"
    using assms(1) by (simp add: Promote_eq [OF f False] split: if_splits)
  have "leader_ok (lf_nodeID lfc) (snd (Leader_Start (new_leader lfc)))"
    by (intro leader_ok_Start new_leader_ok role_inv_log assms(2))
  then show ?thesis unfolding lfc' role_inv_updates by (simp add: role_inv_def set_leader_def leader_of_def)
qed

lemma new_follower_ok: "log_inv (sy_log (lf_syncer lfc)) \<Longrightarrow> follower_ok (lf_nodeID lfc) (new_follower now lfc)"
  by (simp add: follower_ok_def new_follower_def NewFollowerNode_def Let_def)

lemma Demote_cases:
  assumes "Lfc_DemoteToFollower put del env now lid addr n lfc = Some (r, n', lfc')"
  obtains (same) "lfc' = lfc"
    | (demoted) l l' f f' e n1 where "leader_of lfc = Some l" "Leader_Stop l = Some (Inr (), l')"
      "f = (new_follower now (set_leader l' lfc))\<lparr>fo_leaderID := lid, fo_leaderAddr := addr, fo_lastHeartbeat := now, fo_running := True,
              fo_heartbeatTimer := TimerArmed, fo_onLeaderFail := Some (\<lambda>callbacks. callbacks @ [AtLock])\<rparr>"
      "Follower_RequestFullSync put del env n f = Some (e, n1, f')"
      "lfc' = set_metadata [(''role'', ''follower'')] ((set_follower f' (set_leader l' lfc))\<lparr>lf_currentRole := RoleFollower, lf_leaderNode := None\<rparr>)"
proof (cases "lf_currentRole lfc = RoleFollower \<or> leader_of lfc = None")
  case True
  then show ?thesis using assms same by (auto simp: Lfc_DemoteToFollower_def split: if_splits)
next
  case False
  then obtain l where l: "leader_of lfc = Some l" "lf_currentRole lfc \<noteq> RoleFollower" by auto
  then obtain r1 l' where stop: "Leader_Stop l = Some (r1, l')" using assms by (auto simp: Lfc_DemoteToFollower_def bind_eq_Some_conv)
  then have r1: "r1 = Inr ()" by (auto simp: Leader_Stop_eq split: if_splits)
  let ?f = "(new_follower now (set_leader l' lfc))\<lparr>fo_leaderID := lid, fo_leaderAddr := addr, fo_lastHeartbeat := now, fo_running := True,
              fo_heartbeatTimer := TimerArmed, fo_onLeaderFail := Some (\<lambda>callbacks. callbacks @ [AtLock])\<rparr>"
  have "Follower_Start (Follower_SetLeader now lid addr (new_follower now (set_leader l' lfc))) =
      (Inr (), (new_follower now (set_leader l' lfc))\<lparr>fo_leaderID := lid, fo_leaderAddr := addr, fo_lastHeartbeat := now, fo_running := True, fo_heartbeatTimer := TimerArmed\<rparr>)"
    by (simp add: Follower_Start_def Follower_SetLeader_def new_follower_def NewFollowerNode_def Let_def)
  with assms l stop r1 have "do { (e, n, f) \<leftarrow> Follower_RequestFullSync put del env n ?f;
      Some (Inr (), n, set_metadata [(''role'', ''follower'')]
        ((set_follower f (setElectionCallback (set_follower ?f (set_leader l' lfc))))\<lparr>lf_currentRole := RoleFollower, lf_leaderNode := None\<rparr>)) } = Some (r, n', lfc')"
    by (simp add: Lfc_DemoteToFollower_def Let_def del: leader_of_simps flip: new_follower_def)
       (simp add: setElectionCallback_def set_follower_def follower_of_def Follower_SetElectionCallback_def)
  then show ?thesis using demoted [OF l(1) _ refl, of l'] stop r1
    by (auto simp: bind_eq_Some_conv setElectionCallback_def set_follower_def)
qed

lemma role_inv_Demote:
  assumes "Lfc_DemoteToFollower put del env now lid addr n lfc = Some (r, n', lfc')" "role_inv lfc"
  shows "role_inv lfc'"
  using assms(1)
proof (cases rule: Demote_cases)
  case (demoted l l' f f' e n1)
  have l': "leader_ok (lf_nodeID lfc) l'" using demoted(1,2) assms(2) by (auto dest: role_inv_leaderD leader_ok_Stop)
  have "follower_ok (lf_nodeID lfc) f"
    using new_follower_ok [of "set_leader l' lfc" now] l' by (simp add: demoted(3) follower_ok_def leader_ok_def)
  with demoted(4) have "follower_ok (lf_nodeID lfc) f'" by (auto dest: follower_sync_ok(2))
  then show ?thesis unfolding demoted(5) role_inv_updates by (simp add: role_inv_def follower_of_def set_follower_def set_leader_def)
qed (use assms(2) in simp)


text \<open>Joining changes the cluster node, and the follower when a leader is found.\<close>

lemma Join_cases:
  assumes "Lfc_Join put del send env now started addr n lfc = Some (r, n', lfc')"
  obtains (node) node where "lfc' = lfc\<lparr>lf_clusterNode := node\<rparr>"
    | (follower) node f f' e n1 lid laddr where "follower_of lfc = Some f"
      "Follower_RequestFullSync put del env n (Follower_SetLeader now lid laddr f) = Some (e, n1, f')"
      "lfc' = set_follower f' (lfc\<lparr>lf_clusterNode := node\<rparr>)"
proof -
  have f: "follower_of (lfc\<lparr>lf_clusterNode := node\<rparr>) = follower_of lfc" for node by (simp add: follower_of_def)
  show ?thesis
    using assms node follower
    by (auto simp: Lfc_Join_def Let_def case_prod_unfold set_metadata_def f bind_eq_Some_conv split: sum.splits option.splits if_splits)
qed

lemma role_inv_Join:
  assumes "Lfc_Join put del send env now started addr n lfc = Some (r, n', lfc')" "role_inv lfc"
  shows "role_inv lfc'"
  using assms(1)
proof (cases rule: Join_cases)
  case (follower node f f' e n1 lid laddr)
  have "follower_ok (lf_nodeID lfc) (Follower_SetLeader now lid laddr f)"
    using role_inv_followerD [OF assms(2) follower(1)] by (simp add: follower_ok_def Follower_SetLeader_def)
  with follower(2) have "follower_ok (lf_nodeID lfc) f'" by (auto dest: follower_sync_ok(2))
  moreover have "follower_of (lfc\<lparr>lf_clusterNode := node\<rparr>) = Some f" using follower(1) by (simp add: follower_of_def)
  ultimately show ?thesis unfolding follower(3) using assms(2) by (intro role_inv_follower_op) simp_all
qed (use assms(2) in simp)

lemma role_inv_events:
  "role_inv lfc \<Longrightarrow> role_inv (handleNodeJoin event lfc)" "role_inv lfc \<Longrightarrow> role_inv (snd (handleNodeFailure event lfc))"
  by (auto simp: handleNodeJoin_def handleNodeFailure_def Let_def dest: role_inv_leaderD intro!: role_inv_leader_op leader_ok_ops
      split: option.splits detail.splits ReplicationRole.splits)

lemma role_inv_failover_move:
  "failover_move timeout pick pc lfc = Some (pc', lfc') \<Longrightarrow> role_inv lfc \<Longrightarrow> role_inv lfc'"
  by (auto simp: failover_move_def handleFailover_lock_def Let_def dest: role_inv_Promote split: failover.splits if_splits)

lemma role_inv_select: "handleClusterEvents_select pick lfc = Some lfc' \<Longrightarrow> role_inv lfc \<Longrightarrow> role_inv lfc'"
  using role_inv_events(2) [of "lfc\<lparr>lf_clusterNode := node\<rparr>" for node]
  by (auto simp: handleClusterEvents_select_def Let_def case_prod_unfold split: option.splits if_splits)

lemma role_inv_handler_move: "handler_move timeout pick lfc = Some lfc' \<Longrightarrow> role_inv lfc \<Longrightarrow> role_inv lfc'"
  by (cases "lf_handler lfc")
     (auto simp: handler_move_def role_inv_events dest: role_inv_select role_inv_failover_move split: if_splits)

lemma role_inv_syncs: "role_inv lfc \<Longrightarrow> syncs_to (lf_syncer lfc) s \<Longrightarrow> role_inv (lfc\<lparr>lf_syncer := s\<rparr>)"
  by (erule role_inv_syncer) (rule syncs_toD(1))

lemma log_inv_processLogEntries:
  "processLogEntries_step put del now pick s = Some (go, s') \<Longrightarrow> log_inv (sy_log s) \<Longrightarrow> log_inv (sy_log s')"
  by (auto simp: processLogEntries_step_def bind_eq_Some_conv split: if_splits list.splits)

lemma http_receive_syncs: "http_receive put del now post body s = Some (status, s') \<Longrightarrow> syncs_to s s'"
  by (auto simp: http_receive_def bind_eq_Some_conv dest: ApplySync_syncs split: if_splits option.splits)

lemma role_inv_step:
  assumes "lfc_step get put del s s'" "role_inv (snd s)"
  shows "role_inv (snd s')"
  using assms
proof (induction rule: lfc_step.induct)
  case (leave probes lfc now)
  then show ?case by (simp add: Lfc_Leave_def case_prod_unfold Let_def)
next
  case (add_follower lfc probes nid addr)
  then show ?case by (auto simp: Lfc_AddFollower_def Let_def case_prod_unfold dest: role_inv_leaderD intro!: role_inv_leader_op leader_ok_ops split: option.splits)
next
  case (remove_follower lfc probes nid)
  then show ?case by (auto simp: Lfc_RemoveFollower_def Let_def case_prod_unfold dest: role_inv_leaderD intro!: role_inv_leader_op leader_ok_ops split: option.splits)
next
  case (sync_from_leader lfc env n r n' lfc' probes)
  then show ?case
    by (auto simp: Lfc_SyncFromLeader_def bind_eq_Some_conv dest: role_inv_followerD follower_sync_ok(1) intro!: role_inv_follower_op
        split: option.splits if_splits)
next
  case (replicate_now lfc post n r n' lfc' probes)
  then show ?case
    by (auto simp: Lfc_ReplicateNow_def bind_eq_Some_conv dest: role_inv_leaderD ReplicateEntries_ok intro!: role_inv_leader_op split: option.splits if_splits)
next
  case (monitor lfc f now f' callbacks probes)
  then show ?case
    by (auto simp: Follower_monitor_tick_def follower_ok_def dest: role_inv_followerD intro!: role_inv_follower_op)
next
  case (added_sync lfc l env nid n n' l' probes)
  then show ?case by (auto dest: role_inv_leaderD leader_ok_sync intro!: role_inv_leader_op)
next
  case (record_set lfc probes now key val expiration)
  then show ?case by (auto intro!: role_inv_syncer Record_inv)
next
  case (record_del lfc probes now key)
  then show ?case by (auto intro!: role_inv_syncer Record_inv)
next
  case (log_entry now pick lfc go s probes)
  then show ?case using role_inv_syncer [OF _ log_inv_processLogEntries [OF log_entry.hyps]] by simp
qed (auto dest: role_inv_Start role_inv_Stop role_inv_Stop_end role_inv_Promote role_inv_Demote role_inv_Join role_inv_handler_move
      role_inv_failover_move role_inv_leaderD FullSync_syncs http_receive_syncs intro: role_inv_syncs role_inv_leader_op leader_ok_ops)


section \<open>Goroutines and channels\<close>

fun waits_below :: "nat \<Rightarrow> failover \<Rightarrow> bool" where
  "waits_below n (Waiting ch) = (ch < n)"
| "waits_below n _ = True"

fun handler_below :: "nat \<Rightarrow> handler \<Rightarrow> bool" where
  "handler_below n (InFailover pc) = waits_below n pc"
| "handler_below n _ = True"

lemma waits_below_mono: "waits_below n pc \<Longrightarrow> n \<le> n' \<Longrightarrow> waits_below n' pc"
  by (cases pc) auto

lemma handler_below_mono: "handler_below n h \<Longrightarrow> n \<le> n' \<Longrightarrow> handler_below n' h"
  by (cases h) (auto intro: waits_below_mono)

definition callback_ok :: "'c LeaderFollowerCluster \<Rightarrow> bool" where
  "callback_ok lfc \<longleftrightarrow> (case lf_followerNode lfc of None \<Rightarrow> True
     | Some f \<Rightarrow> fo_onLeaderFail f = None \<or> fo_onLeaderFail f = Some (\<lambda>callbacks. callbacks @ [AtLock]))"

definition sched_inv :: "'c LeaderFollowerCluster \<Rightarrow> bool" where
  "sched_inv lfc \<longleftrightarrow> lf_failoverStopCh lfc < length (lf_failoverChs lfc) \<and>
     (\<forall>pc \<in> set (lf_callbacks lfc). waits_below (length (lf_failoverChs lfc)) pc) \<and>
     handler_below (length (lf_failoverChs lfc)) (lf_handler lfc) \<and>
     (lf_handler lfc \<noteq> HandlerOff \<longrightarrow> lf_running lfc) \<and>
     (lf_mu lfc \<longrightarrow> lf_running lfc \<and> lf_stopClosed lfc \<and> lf_failoverChs lfc ! lf_failoverStopCh lfc) \<and>
     callback_ok lfc"

text \<open>What the operations that do not touch the goroutines keep.\<close>

definition same_sched :: "'c LeaderFollowerCluster \<Rightarrow> 'c LeaderFollowerCluster \<Rightarrow> bool" where
  "same_sched lfc lfc' \<longleftrightarrow> lf_failoverStopCh lfc' = lf_failoverStopCh lfc \<and> lf_failoverChs lfc' = lf_failoverChs lfc \<and>
     lf_callbacks lfc' = lf_callbacks lfc \<and> lf_handler lfc' = lf_handler lfc \<and> lf_running lfc' = lf_running lfc \<and>
     lf_mu lfc' = lf_mu lfc \<and> lf_stopClosed lfc' = lf_stopClosed lfc \<and>
     (callback_ok lfc \<longrightarrow> callback_ok lfc')"

lemma same_sched_inv: "same_sched lfc lfc' \<Longrightarrow> sched_inv lfc \<Longrightarrow> sched_inv lfc'"
  by (simp add: same_sched_def sched_inv_def)

lemma same_sched_refl [simp]: "same_sched lfc lfc"
  by (simp add: same_sched_def)

lemma same_sched_updates [simp]:
  "same_sched lfc (lfc\<lparr>lf_clusterNode := node\<rparr>)" "same_sched lfc (lfc\<lparr>lf_syncer := s\<rparr>)" "same_sched lfc (set_leader l lfc)"
  "same_sched lfc (set_cache c lfc)" "same_sched lfc (set_metadata md lfc)"
  "same_sched lfc (set_cache c (lfc\<lparr>lf_clusterNode := node\<rparr>))"
  by (simp_all add: same_sched_def callback_ok_def set_leader_def set_cache_def set_metadata_def)

lemma same_sched_follower:
  "follower_of lfc = Some f \<Longrightarrow> fo_onLeaderFail f' = fo_onLeaderFail f \<Longrightarrow> same_sched lfc (set_follower f' lfc)"
  "follower_of lfc = Some f \<Longrightarrow> fo_onLeaderFail f' = fo_onLeaderFail f \<Longrightarrow> same_sched lfc (set_follower f' (lfc\<lparr>lf_clusterNode := node\<rparr>))"
  by (auto simp: same_sched_def callback_ok_def set_follower_def follower_of_def)


lemma same_sched_Promote:
  assumes "Lfc_PromoteToLeader lfc = Some (r, lfc')"
  shows "same_sched lfc lfc'"
proof (cases "lf_currentRole lfc = RoleLeader \<or> follower_of lfc = None")
  case True
  then show ?thesis using assms by (auto simp: Lfc_PromoteToLeader_def split: if_splits)
next
  case False
  then obtain f where f: "follower_of lfc = Some f" "lf_currentRole lfc \<noteq> RoleLeader" by auto
  from assms show ?thesis by (auto simp: Promote_eq [OF f] same_sched_def callback_ok_def set_metadata_def set_leader_def split: if_splits)
qed

lemma same_sched_Demote: "Lfc_DemoteToFollower put del env now lid addr n lfc = Some (r, n', lfc') \<Longrightarrow> same_sched lfc lfc'"
proof (erule Demote_cases, simp)
  fix l l' f f' e n1
  assume "f = (new_follower now (set_leader l' lfc))\<lparr>fo_leaderID := lid, fo_leaderAddr := addr, fo_lastHeartbeat := now, fo_running := True,
              fo_heartbeatTimer := TimerArmed, fo_onLeaderFail := Some (\<lambda>callbacks. callbacks @ [AtLock])\<rparr>"
    and "Follower_RequestFullSync put del env n f = Some (e, n1, f')"
    and lfc': "lfc' = set_metadata [(''role'', ''follower'')] ((set_follower f' (set_leader l' lfc))\<lparr>lf_currentRole := RoleFollower, lf_leaderNode := None\<rparr>)"
  then have "fo_onLeaderFail f' = Some (\<lambda>callbacks. callbacks @ [AtLock])" using fo_onLeaderFail_sync(2) by fastforce
  then show "same_sched lfc lfc'" by (simp add: lfc' same_sched_def callback_ok_def set_metadata_def set_follower_def set_leader_def)
qed

lemma same_sched_Join: "Lfc_Join put del send env now started addr n lfc = Some (r, n', lfc') \<Longrightarrow> same_sched lfc lfc'"
  by (erule Join_cases) (auto dest!: fo_onLeaderFail_sync simp: Follower_SetLeader_def intro!: same_sched_follower)

lemma same_sched_events: "same_sched lfc (handleNodeJoin event lfc)" "same_sched lfc (snd (handleNodeFailure event lfc))"
  by (auto simp: handleNodeJoin_def handleNodeFailure_def Let_def split: option.splits detail.splits ReplicationRole.splits)


lemma sched_inv_failover_move:
  assumes "failover_move timeout pick pc lfc = Some (pc', lfc')" "sched_inv lfc"
  shows "sched_inv lfc'" "waits_below (length (lf_failoverChs lfc)) pc \<Longrightarrow> (case pc' of None \<Rightarrow> True | Some p \<Rightarrow> waits_below (length (lf_failoverChs lfc')) p)"
    "lf_callbacks lfc' = lf_callbacks lfc" "lf_handler lfc' = lf_handler lfc" "lf_running lfc' = lf_running lfc"
proof -
  consider (lock) "pc = AtLock" "\<not> lf_mu lfc" | (wait) ch where "pc = Waiting ch" "lfc' = lfc" "pc' = Some AtPromote \<or> pc' = None"
    | (promote) r where "pc = AtPromote" "Lfc_PromoteToLeader lfc = Some (r, lfc')" "pc' = None"
    using assms(1) by (cases pc) (auto simp: failover_move_def split: if_splits)
  then have "sched_inv lfc' \<and> (waits_below (length (lf_failoverChs lfc)) pc \<longrightarrow> (case pc' of None \<Rightarrow> True | Some p \<Rightarrow> waits_below (length (lf_failoverChs lfc')) p))
    \<and> lf_callbacks lfc' = lf_callbacks lfc \<and> lf_handler lfc' = lf_handler lfc \<and> lf_running lfc' = lf_running lfc"
  proof cases
    case lock
    then have pc': "pc' = Some (Waiting (lf_failoverStopCh lfc'))" "lfc' = snd (handleFailover_lock lfc)"
      using assms(1) by (auto simp: failover_move_def handleFailover_lock_def Let_def)
    have "sched_inv lfc'"
      using assms(2) lock(2) unfolding pc'(2)
      by (auto simp: handleFailover_lock_def sched_inv_def callback_ok_def Let_def intro: waits_below_mono handler_below_mono)
    then show ?thesis unfolding pc'(1) by (simp add: sched_inv_def) (simp add: pc'(2) handleFailover_lock_def Let_def)
  next
    case wait
    then show ?thesis using assms(2) by auto
  next
    case promote
    from same_sched_Promote [OF promote(2)] show ?thesis using promote same_sched_inv [OF _ assms(2)] by (auto simp: same_sched_def)
  qed
  then show "sched_inv lfc'" "waits_below (length (lf_failoverChs lfc)) pc \<Longrightarrow> (case pc' of None \<Rightarrow> True | Some p \<Rightarrow> waits_below (length (lf_failoverChs lfc')) p)"
    "lf_callbacks lfc' = lf_callbacks lfc" "lf_handler lfc' = lf_handler lfc" "lf_running lfc' = lf_running lfc" by blast+
qed

lemma sched_inv_handler [simp]:
  "sched_inv lfc \<Longrightarrow> sched_inv (lfc\<lparr>lf_handler := HandlerOff\<rparr>)"
  "sched_inv lfc \<Longrightarrow> lf_running lfc \<Longrightarrow> sched_inv (lfc\<lparr>lf_handler := AtSelect\<rparr>)"
  "sched_inv lfc \<Longrightarrow> lf_running lfc \<Longrightarrow> sched_inv (lfc\<lparr>lf_handler := InNodeJoin event\<rparr>)"
  "sched_inv lfc \<Longrightarrow> lf_running lfc \<Longrightarrow> waits_below (length (lf_failoverChs lfc)) pc \<Longrightarrow> sched_inv (lfc\<lparr>lf_handler := InFailover pc\<rparr>)"
  by (simp_all add: sched_inv_def callback_ok_def)

lemma sched_inv_running: "sched_inv lfc \<Longrightarrow> lf_handler lfc \<noteq> HandlerOff \<Longrightarrow> lf_running lfc"
  by (simp add: sched_inv_def)

lemma sched_inv_select:
  assumes "handleClusterEvents_select pick lfc = Some lfc'" "sched_inv lfc" "lf_handler lfc = AtSelect"
  shows "sched_inv lfc'"
proof -
  have run: "lf_running lfc" using assms(2,3) by (simp add: sched_inv_def)
  have node: "sched_inv (lfc\<lparr>lf_clusterNode := n\<rparr>)" for n by (rule same_sched_inv [OF _ assms(2)]) simp
  have ev: "sched_inv (snd (handleNodeFailure e (lfc\<lparr>lf_clusterNode := n\<rparr>)))" "lf_running (snd (handleNodeFailure e (lfc\<lparr>lf_clusterNode := n\<rparr>)))" for e n
    using same_sched_inv [OF same_sched_events(2) node] same_sched_events(2) [of "lfc\<lparr>lf_clusterNode := n\<rparr>" e] run by (auto simp: same_sched_def)
  show ?thesis
    using assms(1,2) run node ev by (auto simp: handleClusterEvents_select_def Let_def case_prod_unfold split: option.splits if_splits)
qed

lemma sched_inv_handler_move:
  assumes "handler_move timeout pick lfc = Some lfc'" "sched_inv lfc"
  shows "sched_inv lfc'"
proof (cases "lf_handler lfc")
  case AtSelect
  then show ?thesis using assms sched_inv_select by (auto simp: handler_move_def)
next
  case (InNodeJoin event)
  then show ?thesis using assms same_sched_inv [OF same_sched_events(1) assms(2), of event] same_sched_events(1) [of lfc event] sched_inv_running [OF assms(2)]
    by (auto simp: handler_move_def same_sched_def split: if_splits)
next
  case (InFailover pc)
  then obtain pc' lfc1 where 1: "failover_move timeout pick pc lfc = Some (pc', lfc1)"
      "lfc' = lfc1\<lparr>lf_handler := (case pc' of None \<Rightarrow> AtSelect | Some pc \<Rightarrow> InFailover pc)\<rparr>"
    using assms(1) by (auto simp: handler_move_def)
  have "waits_below (length (lf_failoverChs lfc)) pc" using assms(2) InFailover by (simp add: sched_inv_def)
  with 1(2) sched_inv_failover_move [OF 1(1) assms(2)] sched_inv_running [OF assms(2)] InFailover show ?thesis
    by (auto split: option.splits)
qed (use assms in \<open>simp add: handler_move_def\<close>)


lemma sched_inv_Start:
  assumes "Lfc_Start now err lfc = Some (r, lfc')" "sched_inv lfc"
  shows "sched_inv lfc'"
proof (cases "lf_running lfc \<or> (\<exists>e. fst (Node_Start now err (lf_clusterNode lfc)) = Inl e)")
  case True
  then show ?thesis using assms same_sched_inv [OF same_sched_updates(1) assms(2)] by (auto simp: Lfc_Start_eq split: if_splits)
next
  case False
  then obtain u where u: "fst (Node_Start now err (lf_clusterNode lfc)) = Inr u" by (cases "fst (Node_Start now err (lf_clusterNode lfc))") auto
  show ?thesis
    using assms u False
    by (auto simp: Lfc_Start_eq started_parts_def Let_def sched_inv_def callback_ok_def set_leader_def set_follower_def setElectionCallback_def
        Follower_SetElectionCallback_def split: if_splits option.splits)
qed

lemma sched_inv_Stop: "Lfc_Stop_begin lfc = Some lfc' \<Longrightarrow> sched_inv lfc \<Longrightarrow> sched_inv lfc'"
  by (auto simp: Lfc_Stop_begin_def close_failover_def sched_inv_def callback_ok_def Let_def split: if_splits)

lemma sched_inv_Stop_end:
  assumes "Lfc_Stop_end lfc = Some (r, lfc')" "role_inv lfc" "sched_inv lfc" "lf_handler lfc = HandlerOff"
  shows "sched_inv lfc'"
  using assms(1,2)
proof (cases rule: Lfc_Stop_end_cases)
  case (leader l r' l')
  then show ?thesis using assms(3,4) by (simp add: stopped_parts_def set_leader_def sched_inv_def callback_ok_def)
next
  case (follower f r' f')
  then have "fo_onLeaderFail f' = fo_onLeaderFail f" by (auto simp: Follower_Stop_def split: if_splits)
  then show ?thesis using follower assms(3,4) by (auto simp: stopped_parts_def set_follower_def follower_of_def sched_inv_def callback_ok_def)
qed

lemma set_callbacks_after: "set (callbacks_after i pc pcs) \<subseteq> set pcs \<union> (case pc of None \<Rightarrow> {} | Some p \<Rightarrow> {p})"
  by (auto simp: callbacks_after_def dest: in_set_takeD in_set_dropD split: option.splits dest!: set_update_subset_insert [THEN subsetD])

lemma sched_inv_callback:
  assumes "i < length (lf_callbacks lfc)" "failover_move timeout pick (lf_callbacks lfc ! i) lfc = Some (pc, lfc')" "sched_inv lfc"
  shows "sched_inv (lfc'\<lparr>lf_callbacks := callbacks_after i pc (lf_callbacks lfc)\<rparr>)"
proof -
  note mv = sched_inv_failover_move [OF assms(2,3)]
  have "waits_below (length (lf_failoverChs lfc)) (lf_callbacks lfc ! i)" using assms(1,3) by (simp add: sched_inv_def)
  from mv(2) [OF this] have "\<forall>p \<in> (case pc of None \<Rightarrow> {} | Some p \<Rightarrow> {p}). waits_below (length (lf_failoverChs lfc')) p" by (simp split: option.splits)
  moreover have "\<forall>p \<in> set (lf_callbacks lfc). waits_below (length (lf_failoverChs lfc')) p" using mv(1,3) by (simp add: sched_inv_def)
  ultimately have "\<forall>p \<in> set (callbacks_after i pc (lf_callbacks lfc)). waits_below (length (lf_failoverChs lfc')) p"
    using set_callbacks_after [of i pc "lf_callbacks lfc"] by blast
  with mv(1) show ?thesis by (simp add: sched_inv_def callback_ok_def)
qed

lemma sched_inv_monitor:
  assumes "follower_of lfc = Some f" "Follower_monitor_tick now f (lf_callbacks lfc) = (f', callbacks)" "sched_inv lfc"
  shows "sched_inv ((set_follower f' lfc)\<lparr>lf_callbacks := callbacks\<rparr>)"
proof -
  have "callback_ok lfc" using assms(3) by (simp add: sched_inv_def)
  then have "fo_onLeaderFail f = None \<or> fo_onLeaderFail f = Some (\<lambda>callbacks. callbacks @ [AtLock])" using assms(1) by (auto simp: callback_ok_def follower_of_def)
  with assms(2) have "callbacks = lf_callbacks lfc \<or> callbacks = lf_callbacks lfc @ [AtLock]" "fo_onLeaderFail f' = fo_onLeaderFail f"
    by (auto simp: Follower_monitor_tick_def)
  then have "\<forall>pc \<in> set callbacks. waits_below (length (lf_failoverChs lfc)) pc" using assms(3) by (auto simp: sched_inv_def)
  then show ?thesis using same_sched_inv [OF same_sched_follower(1) [OF assms(1) \<open>fo_onLeaderFail f' = fo_onLeaderFail f\<close>] assms(3)]
    by (simp add: sched_inv_def callback_ok_def set_follower_def)
qed

lemma same_sched_calls:
  "same_sched lfc (snd (snd (Lfc_Leave now lfc)))" "same_sched lfc (snd (Lfc_AddFollower nid addr lfc))" "same_sched lfc (snd (Lfc_RemoveFollower nid lfc))"
  "Lfc_SyncFromLeader put del env n lfc = Some (r, n', lfc') \<Longrightarrow> same_sched lfc lfc'"
  "Lfc_ReplicateNow post n lfc = Some (r, n', lfc') \<Longrightarrow> same_sched lfc lfc'"
  by (auto simp: Lfc_Leave_def Lfc_AddFollower_def Lfc_RemoveFollower_def Lfc_SyncFromLeader_def Lfc_ReplicateNow_def Let_def case_prod_unfold
      bind_eq_Some_conv dest!: fo_onLeaderFail_sync(1) intro: same_sched_follower split: option.splits if_splits)

lemmas same_sched_all = same_sched_calls same_sched_Promote same_sched_Demote same_sched_Join same_sched_updates

lemma sched_inv_step:
  assumes "lfc_step get put del s s'" "sched_inv (snd s)" "role_inv (snd s)"
  shows "sched_inv (snd s')"
  using assms
proof (induction rule: lfc_step.induct)
  case (callback i lfc timeout pick pc lfc' probes)
  then show ?case using sched_inv_callback by simp
next
  case (monitor lfc f now f' callbacks probes)
  then show ?case using sched_inv_monitor by simp
next
  case (stop_end lfc r lfc' probes)
  then show ?case using sched_inv_Stop_end by simp
qed (auto dest: sched_inv_Start sched_inv_Stop sched_inv_handler_move intro: same_sched_inv same_sched_all)


section \<open>Reachable states\<close>

lemma new_cluster_inv:
  assumes "NewLeaderFollowerCluster now nodeID address (Some c) options = Inr lfc"
  shows "role_inv lfc" "sched_inv lfc"
  using assms
  by (auto simp: NewLeaderFollowerCluster_def Let_def role_inv_def sched_inv_def callback_ok_def leader_of_def follower_of_def leader_ok_def
      follower_ok_def leader_inv_def NewLeaderNode_def NewFollowerNode_def NewMemorySyncer_def split: if_splits sum.splits)

lemma reachable_inv: "lfc_reachable get put del s \<Longrightarrow> role_inv (snd s) \<and> sched_inv (snd s)"
  by (induction rule: lfc_reachable.induct) (simp_all add: new_cluster_inv role_inv_step sched_inv_step)

text \<open>C29. A node of a leader and follower cluster, in every state that any interleaving of calls, events, timers, messages,
  synchronisations and replication reaches: it has exactly one replication node, a leader node exactly when its role
  is leader; that node has the cluster node's identity and its own role agrees; a leader names itself as leader and has a
  status for every follower; the log is well formed; an event goroutine runs only while the cluster does, and \<open>Stop\<close> waits
  only with both stop channels closed.\<close>

theorem lfc_reachable_roles:
  assumes "lfc_reachable get put del (probes, lfc)"
  shows "(Lfc_IsLeader lfc \<longleftrightarrow> lf_leaderNode lfc \<noteq> None) \<and> (lf_leaderNode lfc = None \<longleftrightarrow> lf_followerNode lfc \<noteq> None)
    \<and> (\<forall>l. lf_leaderNode lfc = Some l \<longrightarrow> ld_nodeID l = lf_nodeID lfc \<and> Leader_GetRole l = RoleLeader \<and> Leader_GetLeader l = Lfc_GetLeader lfc
          \<and> dom (map_of (ld_followers l)) \<subseteq> dom (map_of (ld_followerStatus l)))
    \<and> (\<forall>f. lf_followerNode lfc = Some f \<longrightarrow> fo_nodeID f = lf_nodeID lfc \<and> Follower_GetRole f = RoleFollower \<and> Follower_GetLeader f = Lfc_GetLeader lfc)
    \<and> log_inv (sy_log (lf_syncer lfc)) \<and> (lf_handler lfc \<noteq> HandlerOff \<longrightarrow> lf_running lfc)
    \<and> (lf_mu lfc \<longrightarrow> lf_running lfc \<and> lf_stopClosed lfc \<and> lf_failoverChs lfc ! lf_failoverStopCh lfc)"
proof -
  have inv: "role_inv lfc" "sched_inv lfc" using reachable_inv [OF assms] by simp_all
  show ?thesis
  proof (cases "lf_currentRole lfc = RoleLeader")
    case True
    with inv(1) obtain l where l: "lf_leaderNode lfc = Some l" "lf_followerNode lfc = None" "leader_ok (lf_nodeID lfc) (l\<lparr>ld_syncer := lf_syncer lfc\<rparr>)"
      by (auto simp: role_inv_def leader_of_def)
    with True inv(2) show ?thesis
      by (simp add: leader_ok_def leader_inv_def sched_inv_def Lfc_IsLeader_def Lfc_GetLeader_def Leader_GetRole_def Leader_GetLeader_def)
  next
    case False
    with inv show ?thesis
      by (auto simp: role_inv_def follower_of_def follower_ok_def sched_inv_def Lfc_IsLeader_def Lfc_GetLeader_def Follower_GetRole_def Follower_GetLeader_def)
  qed
qed

section \<open>Stopping\<close>

text \<open>C31. Stopping a running cluster for the first time returns: when the event goroutine is in its \<open>select\<close> and sees the
  closed \<open>stopCh\<close>, it ends, and \<open>Stop\<close> goes on to stop the replication node, the synchroniser and the cluster node, and
  returns without an error and without holding the lock.\<close>

theorem stop_returns:
  assumes "lfc_reachable get put del (probes, lfc)" "lf_running lfc" "\<not> lf_mu lfc" "\<not> lf_stopClosed lfc" "lf_handler lfc = AtSelect"
    and "\<forall>l. lf_leaderNode lfc = Some l \<longrightarrow> \<not> ld_stopClosed l" "\<forall>f. lf_followerNode lfc = Some f \<longrightarrow> \<not> fo_stopClosed f"
  shows "\<exists>lfc1 lfc2 lfc3. Lfc_Stop_begin lfc = Some lfc1 \<and> handler_move timeout False lfc1 = Some lfc2 \<and> lf_handler lfc2 = HandlerOff
    \<and> Lfc_Stop_end lfc2 = Some (Inr (), lfc3) \<and> \<not> lf_running lfc3 \<and> \<not> lf_mu lfc3 \<and> \<not> nd_running (lf_clusterNode lfc3) \<and> \<not> sy_running (lf_syncer lfc3)
    \<and> lf_currentRole lfc3 = lf_currentRole lfc \<and> sy_log (lf_syncer lfc3) = sy_log (lf_syncer lfc) \<and> sy_localCache (lf_syncer lfc3) = sy_localCache (lf_syncer lfc)"
proof -
  define lfc1 where "lfc1 = (close_failover lfc)\<lparr>lf_stopClosed := True, lf_mu := True\<rparr>"
  let ?lfc2 = "lfc1\<lparr>lf_handler := HandlerOff\<rparr>"
  have inv: "role_inv lfc" using reachable_inv [OF assms(1)] by simp
  have begins: "Lfc_Stop_begin lfc = Some lfc1" using assms(2,4) by (simp add: Lfc_Stop_begin_def lfc1_def close_failover_def Let_def)
  have move: "handler_move timeout False lfc1 = Some ?lfc2"
    using assms(5) by (simp add: handler_move_def handleClusterEvents_select_def lfc1_def close_failover_def split: option.splits)
  have parts: "lf_currentRole ?lfc2 = lf_currentRole lfc" "leader_of ?lfc2 = leader_of lfc" "follower_of ?lfc2 = follower_of lfc"
      "lf_syncer ?lfc2 = lf_syncer lfc" "lf_clusterNode ?lfc2 = lf_clusterNode lfc"
    by (simp_all add: lfc1_def close_failover_def leader_of_def follower_of_def)
  have node: "fst (Node_Stop n) = Inr ()" "\<not> nd_running (snd (Node_Stop n))" for n by (simp_all add: Node_Stop_def Let_def)
  have sync: "\<not> sy_running (snd (Syncer_Stop s))" for s :: "'a MemorySyncer" by (simp add: Syncer_Stop_def)
  have "\<exists>lfc3. Lfc_Stop_end ?lfc2 = Some (Inr (), lfc3) \<and> \<not> lf_running lfc3 \<and> \<not> lf_mu lfc3 \<and> \<not> nd_running (lf_clusterNode lfc3) \<and> \<not> sy_running (lf_syncer lfc3)
    \<and> lf_currentRole lfc3 = lf_currentRole lfc \<and> sy_log (lf_syncer lfc3) = sy_log (lf_syncer lfc) \<and> sy_localCache (lf_syncer lfc3) = sy_localCache (lf_syncer lfc)"
  proof (cases "lf_currentRole lfc = RoleLeader")
    case True
    then obtain l where l: "leader_of lfc = Some l" using inv by (auto simp: role_inv_def)
    then have "\<not> ld_stopClosed l" "ld_syncer l = lf_syncer lfc" using assms(6) by (auto simp: leader_of_def)
    then show ?thesis using True l parts node sync
      by (auto simp: Lfc_Stop_end_def Leader_Stop_eq case_prod_unfold Let_def first_error_def)
  next
    case False
    then obtain f where f: "follower_of lfc = Some f" using inv by (auto simp: role_inv_def)
    then have "\<not> fo_stopClosed f" "fo_syncer f = lf_syncer lfc" using assms(7) by (auto simp: follower_of_def)
    then show ?thesis using False f parts node sync
      by (auto simp: Lfc_Stop_end_def Follower_Stop_def case_prod_unfold Let_def first_error_def)
  qed
  then show ?thesis by - (rule exI [of _ lfc1], rule exI [of _ ?lfc2], use begins move in simp)
qed

text \<open>The event goroutine needs the lock.\<close>

definition wants_lock :: "handler \<Rightarrow> bool" where
  "wants_lock h = (case h of InNodeJoin _ \<Rightarrow> True | InFailover AtLock \<Rightarrow> True | InFailover AtPromote \<Rightarrow> True | _ \<Rightarrow> False)"

lemma handler_blocked: "lf_mu lfc \<Longrightarrow> wants_lock (lf_handler lfc) \<Longrightarrow> handler_move timeout pick lfc = None"
  by (auto simp: handler_move_def wants_lock_def failover_move_def split: handler.splits failover.splits)

lemma same_sched_lock: "same_sched lfc lfc' \<Longrightarrow> lf_mu lfc' = lf_mu lfc \<and> lf_handler lfc' = lf_handler lfc"
  by (simp add: same_sched_def)

lemma stuck_step:
  assumes "lfc_step get put del s s'" "lf_mu (snd s)" "wants_lock (lf_handler (snd s))"
  shows "lf_mu (snd s') \<and> lf_handler (snd s') = lf_handler (snd s)"
  using assms
proof (induction rule: lfc_step.induct)
  case (callback i lfc timeout pick pc lfc' probes)
  then have "lfc' = lfc" by (auto simp: failover_move_def split: failover.splits if_splits)
  then show ?case using callback by simp
next
  case (stop_end lfc r lfc' probes)
  then show ?case by (simp add: wants_lock_def)
next
  case (handler timeout pick lfc lfc' probes)
  then show ?case by (simp add: handler_blocked)
next
  case (monitor lfc f now f' callbacks probes)
  then show ?case by (simp add: set_follower_def)
qed (auto dest: same_sched_lock [OF same_sched_Join] simp: same_sched_lock [OF same_sched_calls(1)] same_sched_lock [OF same_sched_updates(1)]
      same_sched_lock [OF same_sched_updates(2)] same_sched_lock [OF same_sched_updates(3)] same_sched_lock [OF same_sched_updates(4)]
      same_sched_lock [OF same_sched_updates(6)])

text \<open>C32. \<open>Stop\<close> can wait for ever: once it holds the lock while the event goroutine is about to take it, for a join event or
  for a failover, no sequence of steps of the cluster, of its parts or of its clients ends the wait; the lock is never
  released and the goroutine never moves.\<close>

theorem stop_deadlock:
  assumes "(lfc_step get put del)\<^sup>*\<^sup>* (probes, lfc) (probes', lfc')" "lf_mu lfc" "wants_lock (lf_handler lfc)"
  shows "lf_mu lfc' \<and> lf_handler lfc' = lf_handler lfc \<and> handler_move timeout pick lfc' = None"
proof -
  have "lf_mu (snd s') \<and> lf_handler (snd s') = lf_handler (snd s)" if "(lfc_step get put del)\<^sup>*\<^sup>* s s'" "lf_mu (snd s)" "wants_lock (lf_handler (snd s))" for s s'
    using that by (induction rule: rtranclp_induct) (auto dest: stuck_step)
  from this [OF assms(1)] assms(2,3) show ?thesis by (simp add: handler_blocked)
qed


text \<open>Started nodes.\<close>

definition lfc_started :: "ReplicationRole \<Rightarrow> string \<Rightarrow> ((unit anyval, unit) MemoryCache \<times> unit) LeaderFollowerCluster" where
  "lfc_started role nid = snd (the (Lfc_Start 1 None (lfc_at role nid)))"

lemmas lfc_at_defs = lfc_at_def NewLeaderFollowerCluster_def WithInitialRole_def NewNode_def NewMemorySyncer_def NewMembership_def
  NewEventPublisher_def NewGossiper_def NewSyncManager_def DefaultNodeConfig_def Node_WithNodeID_def WithBindAddr_def

lemma lfc_at_parts:
  assumes "nid \<noteq> ''''"
  shows "\<not> lf_running (lfc_at role nid)" "\<not> lf_mu (lfc_at role nid)" "\<not> lf_stopClosed (lfc_at role nid)" "lf_nodeID (lfc_at role nid) = nid"
    "lf_failoverChs (lfc_at role nid) = [False]" "lf_failoverStopCh (lfc_at role nid) = 0"
    "\<not> nd_running (lf_clusterNode (lfc_at role nid))"
    "\<exists>p. mb_events (nd_membership (lf_clusterNode (lfc_at role nid))) = Some p \<and> ep_eventCh p = Some [] \<and> 0 < ep_bufferSize p"
    "\<not> mb_running (nd_membership (lf_clusterNode (lfc_at role nid)))" "mb_members (nd_membership (lf_clusterNode (lfc_at role nid))) = []"
    "mb_localID (nd_membership (lf_clusterNode (lfc_at role nid))) = nid"
    "lf_leaderNode (lfc_at role nid) = (if role = RoleLeader then Some (new_leader (lfc_at role nid)) else None)"
    "lf_followerNode (lfc_at role nid) = (if role = RoleLeader then None else Some (new_follower 1 (lfc_at role nid)))"
  using assms by (simp_all add: lfc_at_defs new_leader_def new_follower_def Let_def split: sum.splits)

lemma Lfc_Start_at:
  assumes "nid \<noteq> ''''"
  shows "Lfc_Start 1 None (lfc_at role nid) = Some (Inr (), lfc_started role nid)"
  using assms by (simp add: lfc_started_def Lfc_Start_eq Node_Start_eq lfc_at_parts lfc_at_simps started_parts_def leader_of_def follower_of_def Let_def)

lemma lfc_started_simps:
  assumes "nid \<noteq> ''''"
  shows "lf_running (lfc_started role nid)" "\<not> lf_mu (lfc_started role nid)" "\<not> lf_stopClosed (lfc_started role nid)" "lf_handler (lfc_started role nid) = AtSelect"
    "lf_currentRole (lfc_started role nid) = role" "lf_nodeID (lfc_started role nid) = nid"
    "lf_leaderNode (lfc_started role nid) = Some l \<Longrightarrow> \<not> ld_stopClosed l" "lf_followerNode (lfc_started role nid) = Some f \<Longrightarrow> \<not> fo_stopClosed f"
    "lf_failoverChs (lfc_started role nid) = [False]" "lf_failoverStopCh (lfc_started role nid) = 0"
  using assms
  by (auto simp: lfc_started_def Lfc_Start_eq Node_Start_eq lfc_at_parts lfc_at_simps started_parts_def leader_of_def follower_of_def Let_def
      set_leader_def set_follower_def setElectionCallback_def Follower_Start_def Leader_Start_eq new_leader_def NewLeaderNode_def new_follower_def
      NewFollowerNode_def Follower_SetElectionCallback_def split: if_splits)

lemma lfc_started_reachable: "nid \<noteq> '''' \<Longrightarrow> lfc_reachable MemCache_Get MemCache_Set MemCache_Del ([], lfc_started role nid)"
  by (rule lfc_reachable.step [OF lfc_reachable.init [OF lfc_at_new]]) (auto intro: lfc_step.start [OF _ Lfc_Start_at] simp: lfc_at_parts)

theorem lfc_reachable_roles_witness:
  "Lfc_IsLeader (lfc_started RoleLeader ''a'') \<and> lf_leaderNode (lfc_started RoleLeader ''a'') \<noteq> None \<and> lf_followerNode (lfc_started RoleLeader ''a'') = None
    \<and> lf_followerNode (lfc_started RoleFollower ''b'') \<noteq> None"
  using lfc_reachable_roles [OF lfc_started_reachable, of "''a''" RoleLeader] lfc_reachable_roles [OF lfc_started_reachable, of "''b''" RoleFollower]
  by (auto simp: Lfc_IsLeader_def lfc_started_simps)

theorem stop_returns_witness:
  "\<exists>lfc1 lfc2 lfc3. Lfc_Stop_begin (lfc_started RoleFollower ''a'') = Some lfc1 \<and> handler_move False False lfc1 = Some lfc2
    \<and> Lfc_Stop_end lfc2 = Some (Inr (), lfc3) \<and> \<not> lf_running lfc3"
  using stop_returns [OF lfc_started_reachable, of "''a''" RoleFollower False] lfc_started_simps [of "''a''" RoleFollower] by blast

text \<open>A follower that handles the join of node c, reads the event and is stopped then.\<close>

definition join_c :: JoinPayload where
  "join_c = \<lparr>jp_NodeID = ''c'', jp_Address = ''c:1'', jp_Metadata = None\<rparr>"

lemma join_event_read:
  "\<exists>lfc :: ((unit anyval, unit) MemoryCache \<times> unit) LeaderFollowerCluster. lfc_reachable MemCache_Get MemCache_Set MemCache_Del ([], lfc)
    \<and> lf_running lfc \<and> \<not> lf_mu lfc \<and> \<not> lf_stopClosed lfc
    \<and> (\<exists>event. lf_handler lfc = InNodeJoin event)"
proof -
  let ?s = "lfc_started RoleFollower ''a''"
  let ?n = "lf_clusterNode ?s" and ?c = "sy_localCache (lf_syncer ?s)"
  obtain r n' where msg: "Node_handleMessage MemCache_Get 2 (MsgJoin ''c'' (Some join_c)) (?n, ?c) = Some (r, n', ?c)"
      "nd_membership n' = AddMember 2 ''c'' ''c:1'' None (nd_membership ?n)"
    by (simp add: Node_handleMessage_def handleJoinMessage_def join_c_def)
  let ?s1 = "set_cache ?c (?s\<lparr>lf_clusterNode := n'\<rparr>)"
  have r1: "lfc_reachable MemCache_Get MemCache_Set MemCache_Del ([], ?s1)"
    by (rule lfc_reachable.step [OF lfc_started_reachable lfc_step.node [OF node_step.message [OF msg(1)]]]) simp
  have mem: "nd_membership ?n = snd (Membership_Start 1 (nd_membership (lf_clusterNode (lfc_at RoleFollower ''a''))))"
    by (simp add: lfc_started_def Lfc_Start_eq Node_Start_eq lfc_at_parts lfc_at_simps started_parts_def follower_of_def setElectionCallback_def Let_def)
  obtain p where p: "mb_events (nd_membership (lf_clusterNode (lfc_at RoleFollower ''a''))) = Some p" "ep_eventCh p = Some []" "0 < ep_bufferSize p"
    using lfc_at_parts(8) [of "''a''" RoleFollower] by auto
  have "\<exists>node. next_event n' = Some (NewNodeJoinEvent 2 ''c'' ''c:1'', node)"
    using p by (simp add: next_event_def msg(2) mem Membership_Start_def addLocalNode_def lfc_at_parts AddMember_def publish_def Publisher_Publish_def try_send_def)
  then obtain node where ev: "next_event n' = Some (NewNodeJoinEvent 2 ''c'' ''c:1'', node)" by blast
  let ?s2 = "?s1\<lparr>lf_clusterNode := node, lf_handler := InNodeJoin (NewNodeJoinEvent 2 ''c'' ''c:1'')\<rparr>"
  have "handler_move False True ?s1 = Some ?s2"
    using ev lfc_started_simps [of "''a''" RoleFollower]
    by (simp add: handler_move_def handleClusterEvents_select_def set_cache_def NewNodeJoinEvent_def)
  with r1 have "lfc_reachable MemCache_Get MemCache_Set MemCache_Del ([], ?s2)" by (blast intro: lfc_reachable.step lfc_step.handler)
  moreover have "lf_running ?s2" "\<not> lf_mu ?s2" "\<not> lf_stopClosed ?s2" using lfc_started_simps [of "''a''" RoleFollower] by (simp_all add: set_cache_def)
  ultimately show ?thesis by (intro exI [of _ ?s2]) simp
qed

theorem stop_deadlock_witness:
  "\<exists>lfc :: ((unit anyval, unit) MemoryCache \<times> unit) LeaderFollowerCluster. lfc_reachable MemCache_Get MemCache_Set MemCache_Del ([], lfc)
    \<and> lf_mu lfc \<and> wants_lock (lf_handler lfc) \<and> handler_move True True lfc = None"
proof -
  obtain lfc :: "((unit anyval, unit) MemoryCache \<times> unit) LeaderFollowerCluster" and event where 1: "lfc_reachable MemCache_Get MemCache_Set MemCache_Del ([], lfc)" "lf_running lfc" "\<not> lf_mu lfc" "\<not> lf_stopClosed lfc"
      "lf_handler lfc = InNodeJoin event" using join_event_read by blast
  let ?s = "(close_failover lfc)\<lparr>lf_stopClosed := True, lf_mu := True\<rparr>"
  have begins: "Lfc_Stop_begin lfc = Some ?s" using 1 by (simp add: Lfc_Stop_begin_def close_failover_def Let_def)
  have "lfc_reachable MemCache_Get MemCache_Set MemCache_Del ([], ?s)"
    by (rule lfc_reachable.step [OF 1(1) lfc_step.stop_begin [OF 1(3) begins]])
  moreover have "wants_lock (lf_handler ?s)" using 1(5) by (simp add: close_failover_def wants_lock_def)
  moreover from this have "handler_move True True ?s = None"
    using stop_deadlock [OF rtranclp.rtrancl_refl, where lfc = ?s and timeout = True and pick = True] by simp
  ultimately show ?thesis by (intro exI [of _ ?s]) simp
qed

section \<open>The server of the synchroniser\<close>

text \<open>A synchroniser that has had a server and listens no more.\<close>

definition deaf :: "'c MemorySyncer \<Rightarrow> bool" where
  "deaf s \<longleftrightarrow> sy_httpServer s \<and> \<not> sy_listening s"

lemma deaf_ops [simp]:
  "deaf s \<Longrightarrow> deaf (snd (Syncer_Start s))" "deaf s \<Longrightarrow> deaf (snd (Syncer_Stop s))" "deaf (s\<lparr>sy_localCache := c\<rparr>) = deaf s"
  "deaf (snd (RecordSetOperation now k b e trm s)) = deaf s" "deaf (snd (RecordDelOperation now k trm s)) = deaf s"
  by (simp_all add: deaf_def Syncer_Start_def Syncer_StartHTTPServer_def Syncer_Stop_def RecordSetOperation_def RecordDelOperation_def Log_Append_def
      send_logCh_def Let_def)

lemma deaf_syncs: "syncs_to s s' \<Longrightarrow> deaf s \<Longrightarrow> deaf s'"
  by (simp add: deaf_def syncs_toD)

lemma leader_of_syncer: "leader_of lfc = Some l \<Longrightarrow> ld_syncer l = lf_syncer lfc" "follower_of lfc = Some f \<Longrightarrow> fo_syncer f = lf_syncer lfc"
  by (auto simp: leader_of_def follower_of_def)

lemma deaf_Leader_Start: "deaf (ld_syncer l) \<Longrightarrow> deaf (ld_syncer (snd (Leader_Start l)))"
  by (simp add: Leader_Start_eq)

lemma deaf_Start:
  assumes "Lfc_Start now err lfc = Some (r, lfc')" "deaf (lf_syncer lfc)"
  shows "deaf (lf_syncer lfc')"
proof -
  have cb: "lf_syncer (setElectionCallback x) = lf_syncer x" for x :: "'a LeaderFollowerCluster" by (simp add: setElectionCallback_def)
  have fs: "fo_syncer (snd (Follower_Start f)) = fo_syncer f" for f :: "('a, failover list) FollowerNode" by (simp add: Follower_Start_def)
  have parts: "deaf (lf_syncer (started_parts now err lfc))" using assms(2) by (simp add: started_parts_def)
  from assms show ?thesis
    by (auto simp: Lfc_Start_eq Let_def cb fs leader_of_syncer parts intro!: deaf_Leader_Start split: if_splits sum.splits)
qed

lemma deaf_roles:
  "Lfc_PromoteToLeader lfc = Some (r, lfc') \<Longrightarrow> deaf (lf_syncer lfc) \<Longrightarrow> deaf (lf_syncer lfc')"
  "Lfc_DemoteToFollower put del env now lid addr n lfc = Some (q, n', lfc2) \<Longrightarrow> deaf (lf_syncer lfc) \<Longrightarrow> deaf (lf_syncer lfc2)"
proof -
  assume promote: "Lfc_PromoteToLeader lfc = Some (r, lfc')" and d: "deaf (lf_syncer lfc)"
  show "deaf (lf_syncer lfc')"
  proof (cases "lf_currentRole lfc = RoleLeader \<or> follower_of lfc = None")
    case False
    then obtain f where f: "follower_of lfc = Some f" "lf_currentRole lfc \<noteq> RoleLeader" by auto
    have "deaf (ld_syncer (snd (Leader_Start (new_leader lfc))))" using d by (intro deaf_Leader_Start) (simp add: new_leader_def NewLeaderNode_def)
    then show ?thesis using promote by (auto simp: Promote_eq [OF f] set_metadata_def split: if_splits)
  qed (use promote d in \<open>auto simp: Lfc_PromoteToLeader_def split: if_splits\<close>)
next
  assume "Lfc_DemoteToFollower put del env now lid addr n lfc = Some (q, n', lfc2)" and d: "deaf (lf_syncer lfc)"
  then show "deaf (lf_syncer lfc2)"
  proof (cases rule: Demote_cases)
    case (demoted l l' f f' e n1)
    have "deaf (ld_syncer l')" using demoted(1,2) d by (auto simp: Leader_Stop_eq leader_of_syncer split: if_splits)
    then have "deaf (fo_syncer f)" by (simp add: demoted(3) new_follower_def NewFollowerNode_def Let_def)
    then have "deaf (fo_syncer f')" using Follower_RequestFullSync_frame [OF demoted(4)] deaf_syncs by auto
    then show ?thesis by (simp add: demoted(5) set_metadata_def)
  qed simp
qed

lemma deaf_Join: "Lfc_Join put del send env now started addr n lfc = Some (r, n', lfc') \<Longrightarrow> deaf (lf_syncer lfc) \<Longrightarrow> deaf (lf_syncer lfc')"
  by (erule Join_cases) (auto dest!: Follower_RequestFullSync_frame leader_of_syncer(2) simp: Follower_SetLeader_def deaf_syncs)

lemma deaf_moves:
  "failover_move timeout pick pc lfc = Some (pc', lfc') \<Longrightarrow> deaf (lf_syncer lfc) \<Longrightarrow> deaf (lf_syncer lfc')"
  "handler_move timeout pick lfc = Some lfc2 \<Longrightarrow> deaf (lf_syncer lfc) \<Longrightarrow> deaf (lf_syncer lfc2)"
proof -
  have fm: "failover_move timeout pick pc lfc = Some (pc', lfc') \<Longrightarrow> deaf (lf_syncer lfc) \<Longrightarrow> deaf (lf_syncer lfc')" for pc pc' lfc'
    by (cases pc) (auto simp: failover_move_def handleFailover_lock_def Let_def dest: deaf_roles(1) split: if_splits)
  have ev: "lf_syncer (handleNodeJoin e x) = lf_syncer x" "lf_syncer (snd (handleNodeFailure e x)) = lf_syncer x" for e and x :: "'a LeaderFollowerCluster"
    by (auto simp: handleNodeJoin_def handleNodeFailure_def Let_def leader_of_syncer split: option.splits detail.splits ReplicationRole.splits)
  show "failover_move timeout pick pc lfc = Some (pc', lfc') \<Longrightarrow> deaf (lf_syncer lfc) \<Longrightarrow> deaf (lf_syncer lfc')" by (rule fm)
  have sel: "handleClusterEvents_select pick lfc = Some lfc2 \<Longrightarrow> lf_syncer lfc2 = lf_syncer lfc"
    by (auto simp: handleClusterEvents_select_def Let_def case_prod_unfold ev split: option.splits if_splits)
  assume "handler_move timeout pick lfc = Some lfc2" "deaf (lf_syncer lfc)"
  then show "deaf (lf_syncer lfc2)"
    by (cases "lf_handler lfc") (auto simp: handler_move_def ev sel dest: fm split: if_splits)
qed

lemma deaf_calls:
  "leader_ok nid l \<Longrightarrow> leader_of lfc = Some l \<Longrightarrow> Lfc_ReplicateNow post n lfc = Some (r, n', lfc') \<Longrightarrow> deaf (lf_syncer lfc) \<Longrightarrow> deaf (lf_syncer lfc')"
  "Lfc_SyncFromLeader put del env n lfc = Some (r, n', lfc') \<Longrightarrow> deaf (lf_syncer lfc) \<Longrightarrow> deaf (lf_syncer lfc')"
  by (auto simp: Lfc_ReplicateNow_def Lfc_SyncFromLeader_def bind_eq_Some_conv deaf_syncs dest!: ReplicateEntries_ok Follower_SyncFromLeader_frame
      dest: leader_of_syncer split: option.splits if_splits)


lemma deaf_step:
  assumes "lfc_step get put del s s'" "role_inv (snd s)" "deaf (lf_syncer (snd s))"
  shows "deaf (lf_syncer (snd s'))"
  using assms
proof (induction rule: lfc_step.induct)
  case (stop_end lfc r lfc' probes)
  have "role_inv lfc" using stop_end.prems by simp
  with stop_end(3) show ?case
  proof (cases rule: Lfc_Stop_end_cases)
    case (leader l r' l')
    then have "deaf (ld_syncer l')" using stop_end.prems(2) by (auto simp: Leader_Stop_eq leader_of_syncer split: if_splits)
    then show ?thesis using leader by (simp add: stopped_parts_def)
  next
    case (follower f r' f')
    then have "deaf (fo_syncer f')" using stop_end.prems(2) by (auto simp: Follower_Stop_def leader_of_syncer split: if_splits)
    then show ?thesis using follower by (simp add: stopped_parts_def)
  qed
next
  case (replicate_now lfc post n r n' lfc' probes)
  show ?case
  proof (cases "leader_of lfc")
    case None
    then show ?thesis using replicate_now by (simp add: Lfc_ReplicateNow_def)
  next
    case (Some l)
    then have "leader_ok (lf_nodeID lfc) l" using replicate_now.prems(1) by (auto dest: role_inv_leaderD)
    from deaf_calls(1) [OF this Some] replicate_now show ?thesis by simp
  qed
next
  case (added_sync lfc l env nid n n' l' probes)
  then have "leader_ok (lf_nodeID lfc) l" by (auto dest: role_inv_leaderD)
  from leader_ok_sync(2) [OF added_sync.hyps(2) this] added_sync show ?case by (auto simp: leader_of_syncer dest: deaf_syncs)
next
  case (log_entry now pick lfc go s probes)
  then have "deaf s" by (auto simp: processLogEntries_step_def deaf_def bind_eq_Some_conv split: if_splits list.splits)
  then show ?case by simp
next
  case (monitor lfc f now f' callbacks probes)
  then show ?case by (auto simp: Follower_monitor_tick_def leader_of_syncer)
next
  case (stop_begin lfc lfc' probes)
  then show ?case by (auto simp: Lfc_Stop_begin_def close_failover_def Let_def split: if_splits)
qed (auto simp: Lfc_Leave_def Lfc_AddFollower_def Lfc_RemoveFollower_def set_cache_def case_prod_unfold Let_def leader_of_syncer split: option.splits
    dest: deaf_Start deaf_roles deaf_Join deaf_moves deaf_calls(2) intro: deaf_syncs [OF FullSync_syncs] deaf_syncs [OF http_receive_syncs])

end
