(* ===== verification/FailoverData.thy ===== *)
theory FailoverData
  imports Failover
begin

text \<open>
  What a failover does and what it keeps: the moves of the event goroutine from a failure event to leadership, the data
  that a follower has synchronised, and what becomes of joins, of writes that the log channel applies again and of a
  demoted leader.
\<close>

section \<open>Promotion\<close>

lemma failover_moves:
  assumes inv: "role_inv lfc" and role: "lf_currentRole lfc = RoleFollower" and h: "lf_handler lfc = AtSelect" and mu: "\<not> lf_mu lfc" "\<not> lf_stopClosed lfc"
    and ev: "next_event (lf_clusterNode lfc) = Some (event, node)" "ce_Type event = EventNodeFailed \<or> ce_Type event = EventNodeLeave"
      "ce_NodeID event = Lfc_GetLeader lfc"
    and fresh: "\<forall>f. lf_followerNode lfc = Some f \<longrightarrow> \<not> fo_stopClosed f"
  shows "\<exists>lfc1 lfc2 lfc3 lfc4 l. handler_move t1 p1 lfc = Some lfc1 \<and> handler_move t2 p2 lfc1 = Some lfc2 \<and> handler_move True True lfc2 = Some lfc3
    \<and> handler_move t4 p4 lfc3 = Some lfc4 \<and> lf_currentRole lfc4 = RoleLeader \<and> lf_nodeID lfc4 = lf_nodeID lfc \<and> lf_handler lfc4 = AtSelect
    \<and> lf_followerNode lfc4 = None \<and> lf_leaderNode lfc4 = Some l \<and> ld_running l \<and> ld_followers l = []
    \<and> lf_syncer lfc4 = snd (Syncer_Start (lf_syncer lfc))
    \<and> lf_clusterNode lfc4 = node\<lparr>nd_membership := SetLocalMetadata (Some [(''role'', ''leader'')]) (nd_membership node)\<rparr>"
proof -
  obtain f where f: "follower_of lfc = Some f" "lf_followerNode lfc \<noteq> None" using inv role by (auto simp: role_inv_def follower_of_def)
  have notclosed: "\<not> fo_stopClosed f" using f fresh by (auto simp: follower_of_def)
  have lead: "Follower_GetLeader f = ce_NodeID event" using ev(3) f role by (auto simp: Lfc_GetLeader_def follower_of_def Follower_GetLeader_def)
  define lfc1 where "lfc1 = lfc\<lparr>lf_clusterNode := node, lf_handler := InFailover AtLock\<rparr>"
  define lfc2 where "lfc2 = (snd (handleFailover_lock lfc1))\<lparr>lf_handler := InFailover (Waiting (fst (handleFailover_lock lfc1)))\<rparr>"
  define lfc3 where "lfc3 = lfc2\<lparr>lf_handler := InFailover AtPromote\<rparr>"
  define l where "l = snd (Leader_Start (new_leader lfc3))"
  define lfc4 where "lfc4 = (set_metadata [(''role'', ''leader'')] ((set_leader l lfc3)\<lparr>lf_currentRole := RoleLeader, lf_followerNode := None\<rparr>))\<lparr>lf_handler := AtSelect\<rparr>"
  have follow: "follower_of (lfc\<lparr>lf_clusterNode := node\<rparr>) = Some f" using f by (simp add: follower_of_def)
  have m1: "handler_move t1 p1 lfc = Some lfc1"
    using h mu(2) ev role follow lead by (auto simp: handler_move_def handleClusterEvents_select_def handleNodeFailure_def lfc1_def Let_def)
  have "lf_handler lfc1 = InFailover AtLock" "\<not> lf_mu lfc1" using mu(1) by (simp_all add: lfc1_def)
  then have m2: "handler_move t2 p2 lfc1 = Some lfc2"
    by (simp add: handler_move_def failover_move_def lfc2_def case_prod_unfold Let_def)
  have m3: "handler_move True True lfc2 = Some lfc3" by (simp add: handler_move_def failover_move_def lfc3_def lfc2_def)
  have lfc3: "follower_of lfc3 = Some f" "lf_currentRole lfc3 = RoleFollower" "\<not> lf_mu lfc3" "lf_syncer lfc3 = lf_syncer lfc" "lf_clusterNode lfc3 = node"
      "lf_nodeID lfc3 = lf_nodeID lfc"
    using f role mu by (auto simp: lfc3_def lfc2_def lfc1_def handleFailover_lock_def follower_of_def Let_def)
  have "Lfc_PromoteToLeader lfc3 = Some (Inr (), set_metadata [(''role'', ''leader'')] ((set_leader l lfc3)\<lparr>lf_currentRole := RoleLeader, lf_followerNode := None\<rparr>))"
    using notclosed lfc3(2) by (simp add: Promote_eq [OF lfc3(1)] l_def)
  then have m4: "handler_move t4 p4 lfc3 = Some lfc4"
    using lfc3(3) by (simp add: handler_move_def failover_move_def lfc4_def lfc3_def)
  have "ld_running l" "ld_followers l = []" "ld_syncer l = snd (Syncer_Start (lf_syncer lfc))"
    by (simp_all add: l_def Leader_Start_eq new_leader_def NewLeaderNode_def lfc3(4))
  with m1 m2 m3 m4 show ?thesis
    by - (rule exI [of _ lfc1], rule exI [of _ lfc2], rule exI [of _ lfc3], rule exI [of _ lfc4], rule exI [of _ l],
       simp, simp add: lfc4_def set_metadata_def set_leader_def lfc3)
qed

text \<open>C30. A follower takes over from its leader: when its event goroutine reads that the leader has failed or left, then, after the
  lock, the wait and the lock again, the node is the leader: it names itself, has a running leader node without
  followers and no follower node, announces its role in its metadata, and its cache and its log are those it had. The moves
  depend on nothing but the node itself, so every follower of the same leader makes them.\<close>

theorem failover_promotes:
  assumes "lfc_reachable get put del (probes, lfc)" "lf_currentRole lfc = RoleFollower" "lf_handler lfc = AtSelect" "\<not> lf_mu lfc" "\<not> lf_stopClosed lfc"
    and "next_event (lf_clusterNode lfc) = Some (event, node)" "ce_Type event = EventNodeFailed \<or> ce_Type event = EventNodeLeave"
      "ce_NodeID event = Lfc_GetLeader lfc"
    and "\<forall>f. lf_followerNode lfc = Some f \<longrightarrow> \<not> fo_stopClosed f"
  shows "\<exists>lfc1 lfc2 lfc3 lfc4. handler_move t1 p1 lfc = Some lfc1 \<and> handler_move t2 p2 lfc1 = Some lfc2 \<and> handler_move True True lfc2 = Some lfc3
    \<and> handler_move t4 p4 lfc3 = Some lfc4 \<and> Lfc_IsLeader lfc4 \<and> Lfc_GetLeader lfc4 = lf_nodeID lfc \<and> lf_handler lfc4 = AtSelect
    \<and> lf_followerNode lfc4 = None \<and> (\<exists>l. lf_leaderNode lfc4 = Some l \<and> ld_running l \<and> ld_followers l = [])
    \<and> sy_localCache (lf_syncer lfc4) = sy_localCache (lf_syncer lfc) \<and> sy_log (lf_syncer lfc4) = sy_log (lf_syncer lfc)
    \<and> lf_clusterNode lfc4 = node\<lparr>nd_membership := SetLocalMetadata (Some [(''role'', ''leader'')]) (nd_membership node)\<rparr>"
proof -
  have "role_inv lfc" using reachable_inv [OF assms(1)] by simp
  from failover_moves [OF this assms(2-), of t1 p1 t2 p2 t4 p4] obtain lfc1 lfc2 lfc3 lfc4 l where
    1: "handler_move t1 p1 lfc = Some lfc1" "handler_move t2 p2 lfc1 = Some lfc2" "handler_move True True lfc2 = Some lfc3" "handler_move t4 p4 lfc3 = Some lfc4"
    and 2: "lf_currentRole lfc4 = RoleLeader" "lf_nodeID lfc4 = lf_nodeID lfc" "lf_handler lfc4 = AtSelect" "lf_followerNode lfc4 = None"
      "lf_leaderNode lfc4 = Some l" "ld_running l" "ld_followers l = []" "lf_syncer lfc4 = snd (Syncer_Start (lf_syncer lfc))"
      "lf_clusterNode lfc4 = node\<lparr>nd_membership := SetLocalMetadata (Some [(''role'', ''leader'')]) (nd_membership node)\<rparr>"
    by blast
  then show ?thesis
    by - (rule exI [of _ lfc1], rule exI [of _ lfc2], rule exI [of _ lfc3], rule exI [of _ lfc4], simp add: Lfc_IsLeader_def Lfc_GetLeader_def)
qed

section \<open>Data\<close>

text \<open>What a replica that applies the leader's writes at \<open>now\<close> holds: the bytes of every value as a string, with the time to
  live counted from \<open>now\<close>.\<close>

fun replica_step :: "('a \<Rightarrow> string option) \<Rightarrow> instant \<Rightarrow> instant \<times> 'a anyval cache_op \<Rightarrow> 'a anyval ttl_map \<Rightarrow> 'a anyval ttl_map" where
  "replica_step marshal now (_, OpGet k) m = m"
| "replica_step marshal now (_, OpSet k v e) m = m(k \<mapsto> (AnyString (the (value_bytes marshal v)), now + e))"
| "replica_step marshal now (_, OpDel k) m = m(k := None)"

lemma replay_commands: "map cmd_of es = map cmd_of es' \<Longrightarrow> (replay now es m :: 'a anyval ttl_map) = replay now es' m"
proof (induction es arbitrary: es' m)
  case (Cons e es)
  then obtain e' es1 where es': "es' = e' # es1" "cmd_of e = cmd_of e'" "map cmd_of es = map cmd_of es1" by (auto simp: map_eq_Cons_conv Cons_eq_map_conv)
  have "(replay1 now e m :: 'a anyval ttl_map) = replay1 now e' m" using cmd_of_known(2) [OF es'(2)] by metis
  then show ?case using Cons.IH [OF es'(3)] es'(1) by simp
qed simp

lemma cmd_of_entries [simp]: "map cmd_of (call_entries marshal p) = call_entries marshal p"
  by (cases p; cases "snd p") (auto simp: cmd_of_def)

lemma replay_calls: "replay now (concat (map (call_entries marshal) ops)) m = fold (replica_step marshal now) ops m"
proof (induction ops arbitrary: m)
  case (Cons p ops)
  have "replay now (call_entries marshal p) m = replica_step marshal now p m" by (cases p; cases "snd p") (auto simp: replay1_def)
  then show ?case using Cons.IH by simp
qed simp

lemma known_entries: "\<forall>e \<in> set (concat (map (call_entries marshal) ops)). known e"
proof -
  have "e \<in> set (call_entries marshal p) \<Longrightarrow> known e" for e p by (cases p; cases "snd p") (auto simp: known_def)
  then show ?thesis by auto
qed

text \<open>A log with exactly the commands of some calls can be served.\<close>

lemma serves_calls:
  assumes "map cmd_of (rl_entries (sy_log L)) = concat (map (call_entries marshal) ops)" "log_inv (sy_log L)"
    and "concat (map (call_entries marshal) ops) \<noteq> []" "length ops < 2 ^ 62" "0 < rc_MaxLogEntries (sy_config L)" "rc_MaxLogEntries (sy_config L) < 2 ^ 62"
  shows "serves L" and "length (rl_entries (sy_log L)) \<le> length ops"
proof -
  have one: "length (call_entries marshal p) \<le> 1" for p by (cases p; cases "snd p") auto
  have "length (concat (map (call_entries marshal) ops)) \<le> length ops"
  proof (induction ops)
    case (Cons p ops)
    then show ?case using one [of p] by simp
  qed simp
  then show len: "length (rl_entries (sy_log L)) \<le> length ops" using arg_cong [OF assms(1), of length] by simp
  have "known e" if "e \<in> set (rl_entries (sy_log L))" for e
  proof -
    have "cmd_of e \<in> set (concat (map (call_entries marshal) ops))" using that assms(1) [symmetric] by simp
    then have "known (cmd_of e)" using known_entries by blast
    then show ?thesis by (simp add: known_def cmd_of_def)
  qed
  then show "serves L" using assms len by (auto simp: serves_def)
qed

lemma Lfc_SyncFromLeader_replica:
  assumes "serves L" "mem_rep (sy_localCache (lf_syncer lfc)) m" "0 < rc_MaxRetries (sy_config (lf_syncer lfc))"
    and "rl_entries (sy_log (lf_syncer lfc)) = []" "lf_currentRole lfc = RoleFollower" "follower_of lfc = Some f" "fo_leaderAddr f \<noteq> ''''"
    and "length (rl_entries (sy_log L)) \<le> k"
  shows "\<exists>r f'. Lfc_SyncFromLeader MemCache_Set MemCache_Del (\<lambda>_. deadline_env L now) k lfc = Some (r, 0, set_follower f' lfc)
    \<and> fo_leaderID f' = fo_leaderID f \<and> fo_stopClosed f' = fo_stopClosed f \<and> mem_rep (sy_localCache (fo_syncer f')) (replay now (rl_entries (sy_log L)) m)
    \<and> map cmd_of (rl_entries (sy_log (fo_syncer f'))) = map cmd_of (rl_entries (sy_log L))"
proof -
  have s: "fo_syncer f = lf_syncer lfc" using assms(6) by (auto simp: follower_of_def)
  obtain err c l j where "IncrementalSync MemCache_Set MemCache_Del (deadline_env L now) 0 k (lf_syncer lfc) =
        Some (Inl err, 0, (lf_syncer lfc)\<lparr>sy_localCache := c, sy_log := l\<rparr>)" "j = length (rl_entries (sy_log L))"
      "mem_rep c (replay now (take j (rl_entries (sy_log L))) m)" "map cmd_of (rl_entries l) = map cmd_of (take j (rl_entries (sy_log L)))"
    using rmem.syncWithRetries_outcome [OF assms(1-3), of "\<lparr>rq_LeaderID = sy_nodeID (lf_syncer lfc), rq_LastLogIndex = 0,
        rq_LastLogTerm = Log_GetLastTerm (sy_log (lf_syncer lfc)), rq_FullSync = False\<rparr>" now k] assms(4,8)
    unfolding IncrementalSync_def by auto
  then show ?thesis using assms(4-7) s
    by (auto simp: Lfc_SyncFromLeader_def Follower_SyncFromLeader_def Log_GetLastIndex_def)
qed


text \<open>What a leader has written survives its failure: a leader with an empty log performs calls that write something; a follower
  with an empty cache and an empty log synchronises from it over a network that answers enough requests before the deadline; then the
  leader fails. The follower becomes the leader, and from then on a read of any key gives exactly what the leader's
  calls have left there: the value that was set last, as a string, until its time to live, counted from the synchronisation, has
  passed, and nothing when it was deleted last or never set. Its log has the leader's commands in their order.\<close>

theorem failover_keeps_data:
  fixes L F :: "(('a anyval, 'u) MemoryCache \<times> 'u) LeaderFollowerCluster"
  assumes leader: "Lfc_IsLeader L" "mem_rep (sy_localCache (lf_syncer L)) mL" "sy_log (lf_syncer L) = NewMemoryReplicationLog" "log_room (length ops) L"
      "0 < rc_MaxLogEntries (sy_config (lf_syncer L))" "rc_MaxLogEntries (sy_config (lf_syncer L)) < 2 ^ 62"
    and calls: "sorted (map fst ops)" "list_all (marshals marshal) ops" "concat (map (call_entries marshal) ops) \<noteq> []" "length ops < 2 ^ 62"
      "lfc_run MemCache_Get MemCache_Set MemCache_Del marshal ops L = Some (rs, L')"
    and follower: "lfc_reachable MemCache_Get MemCache_Set MemCache_Del (probes, F)" "lf_currentRole F = RoleFollower" "lf_handler F = AtSelect" "\<not> lf_mu F"
      "\<not> lf_stopClosed F" "mem_rep (sy_localCache (lf_syncer F)) Map.empty" "rl_entries (sy_log (lf_syncer F)) = []" "0 < rc_MaxRetries (sy_config (lf_syncer F))"
      "lf_followerNode F = Some f" "fo_leaderAddr f \<noteq> ''''" "\<not> fo_stopClosed f"
    and failure: "next_event (lf_clusterNode F) = Some (event, node)" "ce_Type event = EventNodeFailed \<or> ce_Type event = EventNodeLeave" "ce_NodeID event = Lfc_GetLeader F"
    and network: "length ops \<le> k"
  shows "\<exists>r F0 F1 F2 F3 F4. Lfc_SyncFromLeader MemCache_Set MemCache_Del (\<lambda>_. deadline_env (lf_syncer L') now) k F = Some (r, 0, F0)
    \<and> handler_move t1 p1 F0 = Some F1 \<and> handler_move t2 p2 F1 = Some F2 \<and> handler_move True True F2 = Some F3 \<and> handler_move t4 p4 F3 = Some F4
    \<and> Lfc_IsLeader F4 \<and> map cmd_of (rl_entries (sy_log (lf_syncer F4))) = concat (map (call_entries marshal) ops)
    \<and> (\<exists>F5. Lfc_Get MemCache_Get t key F4 = Some (get_result (live t (fold (replica_step marshal now) ops Map.empty) key), F5))"
proof -
  have "sorted (fst (hd ops) # map fst ops)" using calls(1) by (cases ops) auto
  from rmem.lfc_run_rep [OF leader(2) same_from_refl this leader(4), where marshal = marshal] calls(2,5)
  have L': "commands L' = commands L @ concat (map (call_entries marshal) ops)" "keeps L L'" using leader(1) by (auto simp: Lfc_IsLeader_def)
  have cmds: "map cmd_of (rl_entries (sy_log (lf_syncer L'))) = concat (map (call_entries marshal) ops)"
    using L'(1) leader(3) by (simp add: commands_def NewMemoryReplicationLog_def)
  have "log_inv (sy_log (lf_syncer L'))" "sy_config (lf_syncer L') = sy_config (lf_syncer L)" using L'(2) leader(3) by (simp_all add: keeps_def)
  note sv = serves_calls [OF cmds this(1) calls(3,4), unfolded this(2), OF leader(5,6)]
  let ?f = "f\<lparr>fo_syncer := lf_syncer F\<rparr>"
  have f: "follower_of F = Some ?f" using follower(9) by (simp add: follower_of_def)
  have len: "length (rl_entries (sy_log (lf_syncer L'))) \<le> k" using sv(2) network by simp
  obtain r f' where sync: "Lfc_SyncFromLeader MemCache_Set MemCache_Del (\<lambda>_. deadline_env (lf_syncer L') now) k F = Some (r, 0, set_follower f' F)"
      "fo_leaderID f' = fo_leaderID f" "fo_stopClosed f' = fo_stopClosed f"
      "mem_rep (sy_localCache (fo_syncer f')) (replay now (rl_entries (sy_log (lf_syncer L'))) Map.empty)"
      "map cmd_of (rl_entries (sy_log (fo_syncer f'))) = map cmd_of (rl_entries (sy_log (lf_syncer L')))"
    using Lfc_SyncFromLeader_replica [OF sv(1) follower(6,8,7,2) f _ len, of now] follower(10) by auto
  let ?F0 = "set_follower f' F"
  have same: "lf_handler ?F0 = lf_handler F" "lf_mu ?F0 = lf_mu F" "lf_stopClosed ?F0 = lf_stopClosed F" "lf_followerNode ?F0 = Some f'"
    by (simp_all add: set_follower_def)
  have "role_inv ?F0" using role_inv_step [OF lfc_step.sync_from_leader [OF follower(4) sync(1)]] reachable_inv [OF follower(1)] by simp
  moreover have "Lfc_GetLeader ?F0 = Lfc_GetLeader F"
    using follower(2,9) sync(2) by (simp add: Lfc_GetLeader_def same Follower_GetLeader_def)
  ultimately obtain F1 F2 F3 F4 where
    mv: "handler_move t1 p1 ?F0 = Some F1" "handler_move t2 p2 F1 = Some F2" "handler_move True True F2 = Some F3" "handler_move t4 p4 F3 = Some F4"
      "lf_currentRole F4 = RoleLeader" "lf_syncer F4 = snd (Syncer_Start (fo_syncer f'))"
    using failover_moves [of ?F0 event node t1 p1 t2 p2 t4 p4] follower(2,3,4,5,11) failure sync(3) same by auto
  have "replay now (rl_entries (sy_log (lf_syncer L'))) (Map.empty :: 'a anyval ttl_map) = replay now (concat (map (call_entries marshal) ops)) Map.empty"
    by (rule replay_commands) (simp add: cmds map_concat o_def)
  then have "mem_rep (sy_localCache (lf_syncer F4)) (fold (replica_step marshal now) ops Map.empty)" using sync(4) mv(6) by (simp add: replay_calls)
  from mem.get_law [OF this, of t key]
  have "\<exists>F5. Lfc_Get MemCache_Get t key F4 = Some (get_result (live t (fold (replica_step marshal now) ops Map.empty) key), F5)"
    by (auto simp: Lfc_Get_def)
  moreover have "map cmd_of (rl_entries (sy_log (lf_syncer F4))) = concat (map (call_entries marshal) ops)" using sync(5) mv(6) cmds by simp
  ultimately show ?thesis
    by - (rule exI [of _ r], rule exI [of _ ?F0], rule exI [of _ F1], rule exI [of _ F2], rule exI [of _ F3], rule exI [of _ F4],
          simp add: sync(1) mv Lfc_IsLeader_def)
qed


section \<open>A failover from start to end\<close>

text \<open>The events of a node have been read and there is room for the next.\<close>

definition quiet :: "Node \<Rightarrow> bool" where
  "quiet n \<longleftrightarrow> (case mb_events (nd_membership n) of None \<Rightarrow> False | Some p \<Rightarrow> ep_eventCh p = Some [] \<and> 0 < ep_bufferSize p)"

lemma quiet_join:
  assumes "quiet n" "map_of (mb_members (nd_membership n)) k = None"
  shows "\<exists>r n' node. Node_handleMessage get now (MsgJoin sender (Some \<lparr>jp_NodeID = k, jp_Address = addr, jp_Metadata = md\<rparr>)) (n, c) = Some (r, n', c)
    \<and> next_event n' = Some (NewNodeJoinEvent now k addr, node) \<and> quiet node \<and> map_of (mb_members (nd_membership node)) k \<noteq> None"
proof -
  obtain p where "mb_events (nd_membership n) = Some p" "ep_eventCh p = Some []" "0 < ep_bufferSize p" using assms(1) by (auto simp: quiet_def split: option.splits)
  then show ?thesis using assms(2)
    by (simp add: Node_handleMessage_def handleJoinMessage_def quiet_def next_event_def AddMember_def publish_def Publisher_Publish_def try_send_def)
qed

lemma quiet_leave:
  assumes "quiet n" "map_of (mb_members (nd_membership n)) k \<noteq> None"
  shows "\<exists>r n' node. Node_handleMessage get now (MsgLeave sender (Some \<lparr>lp_NodeID = k, lp_Graceful = g\<rparr>)) (n, c) = Some (r, n', c)
    \<and> next_event n' = Some (NewNodeLeaveEvent now k g, node)"
  using assms
  by (auto simp: Node_handleMessage_def handleLeaveMessage_def quiet_def next_event_def RemoveMember_def publish_def Publisher_Publish_def try_send_def split: option.splits)

lemma set_cache_same [simp]: "set_cache (sy_localCache (lf_syncer lfc)) lfc = lfc"
  by (simp add: set_cache_def)

text \<open>A follower that hears of a node joining and then leaving.\<close>

lemma pending_failure:
  assumes reach: "lfc_reachable get put del ([], lfc)" and role: "lf_currentRole lfc \<noteq> RoleLeader" and h: "lf_handler lfc = AtSelect" "\<not> lf_mu lfc" "\<not> lf_stopClosed lfc"
    and q: "quiet (lf_clusterNode lfc)" "map_of (mb_members (nd_membership (lf_clusterNode lfc))) k = None"
  shows "\<exists>n event node. lfc_reachable get put del ([], lfc\<lparr>lf_clusterNode := n\<rparr>) \<and> next_event n = Some (event, node)
    \<and> ce_Type event = EventNodeLeave \<and> ce_NodeID event = k"
proof -
  let ?c = "sy_localCache (lf_syncer lfc)"
  obtain r n1 n2 where 1: "Node_handleMessage get 2 (MsgJoin k (Some \<lparr>jp_NodeID = k, jp_Address = k, jp_Metadata = None\<rparr>)) (lf_clusterNode lfc, ?c) = Some (r, n1, ?c)"
      "next_event n1 = Some (NewNodeJoinEvent 2 k k, n2)" "quiet n2" "map_of (mb_members (nd_membership n2)) k \<noteq> None"
    using quiet_join [OF q, of get 2 k k None ?c] by blast
  obtain r' n3 n4 where 2: "Node_handleMessage get 3 (MsgLeave k (Some \<lparr>lp_NodeID = k, lp_Graceful = True\<rparr>)) (n2, ?c) = Some (r', n3, ?c)"
      "next_event n3 = Some (NewNodeLeaveEvent 3 k True, n4)" using quiet_leave [OF 1(3,4), of get 3 k True ?c] by blast
  have cache: "set_cache ?c (lfc\<lparr>lf_clusterNode := n\<rparr>) = lfc\<lparr>lf_clusterNode := n\<rparr>" for n by (simp add: set_cache_def)
  let ?e = "NewNodeJoinEvent 2 k k"
  let ?lfc1 = "lfc\<lparr>lf_clusterNode := n1\<rparr>" and ?lfc2 = "lfc\<lparr>lf_clusterNode := n2, lf_handler := InNodeJoin ?e\<rparr>" and ?lfc3 = "lfc\<lparr>lf_clusterNode := n2\<rparr>"
  have r1: "lfc_reachable get put del ([], ?lfc1)"
    using lfc_reachable.step [OF reach lfc_step.node [OF node_step.message [OF 1(1)]]] by (simp add: cache)
  have "handler_move False True ?lfc1 = Some ?lfc2" using h 1(2) by (simp add: handler_move_def handleClusterEvents_select_def NewNodeJoinEvent_def)
  with r1 have r2: "lfc_reachable get put del ([], ?lfc2)" by (blast intro: lfc_reachable.step lfc_step.handler)
  have "lf_leaderNode lfc = None" using reachable_inv [OF reach] role by (auto simp: role_inv_def split: if_splits)
  then have "handleNodeJoin ?e ?lfc2 = ?lfc2" by (simp add: handleNodeJoin_def leader_of_def)
  then have "handler_move False True ?lfc2 = Some ?lfc3"
    using h(1,2) by (simp add: handler_move_def)
  with r2 have r3: "lfc_reachable get put del ([], ?lfc3)" by (blast intro: lfc_reachable.step lfc_step.handler)
  have msg: "Node_handleMessage get 3 (MsgLeave k (Some \<lparr>lp_NodeID = k, lp_Graceful = True\<rparr>)) (lf_clusterNode ?lfc3, sy_localCache (lf_syncer ?lfc3)) = Some (r', n3, ?c)"
    using 2(1) by simp
  have "lfc_reachable get put del ([], lfc\<lparr>lf_clusterNode := n3\<rparr>)"
    using lfc_reachable.step [OF r3 lfc_step.node [OF node_step.message [OF msg]]] by (simp add: cache)
  then show ?thesis using 2(2) by (intro exI [of _ n3]) (auto simp: NewNodeLeaveEvent_def)
qed


text \<open>Node b starts as leader and is demoted to follow node a, which does not answer in time.\<close>

definition demoted_b :: "((unit anyval, unit) MemoryCache \<times> unit) LeaderFollowerCluster" where
  "demoted_b = snd (snd (the (Lfc_DemoteToFollower MemCache_Set MemCache_Del (\<lambda>_. deadline_env (syncer0 ''a'') 2) 2 ''a'' ''a:1'' 0 (lfc_started RoleLeader ''b''))))"

lemma started_leader:
  assumes "nid \<noteq> ''''"
  shows "\<exists>l. lf_leaderNode (lfc_started RoleLeader nid) = Some l \<and> ld_running l \<and> \<not> ld_stopClosed l \<and> ld_nodeID l = nid"
    "sy_running (lf_syncer (lfc_started RoleLeader nid))" "sy_httpServer (lf_syncer (lfc_started RoleLeader nid))"
    "sy_localCache (lf_syncer (lfc_started role nid)) = sy_localCache (lf_syncer (lfc_at role nid))"
    "sy_log (lf_syncer (lfc_started role nid)) = NewMemoryReplicationLog" "sy_config (lf_syncer (lfc_started role nid)) = sy_config (lf_syncer (lfc_at role nid))"
    "nd_membership (lf_clusterNode (lfc_started role nid)) = snd (Membership_Start 1 (nd_membership (lf_clusterNode (lfc_at role nid))))"
  using assms
  by (auto simp: lfc_started_def Lfc_Start_eq Node_Start_eq lfc_at_parts lfc_at_simps started_parts_def leader_of_def follower_of_def Let_def
      set_leader_def set_follower_def setElectionCallback_def Follower_Start_def Leader_Start_eq new_leader_def NewLeaderNode_def
      Syncer_Start_def Syncer_StartHTTPServer_def)

lemma sy_config_at: "nid \<noteq> '''' \<Longrightarrow> rc_MaxRetries (sy_config (lf_syncer (lfc_at role nid))) = 3 \<and> rc_MaxLogEntries (sy_config (lf_syncer (lfc_at role nid))) = 1000"
  by (simp add: lfc_at_def NewLeaderFollowerCluster_def WithInitialRole_def NewNode_def NewMemorySyncer_def WithNodeID_def WithAddress_def DefaultReplicationConfig_def
      Let_def split: sum.splits)

lemma FullSync_expired:
  assumes "0 < rc_MaxRetries (sy_config s)"
  shows "FullSync put del (deadline_env L now) 0 s = Some (Inl (Errorf ''context deadline exceeded''), 0, s)"
proof -
  obtain q where "nat (rc_MaxRetries (sy_config s)) = Suc q" using assms by (cases "nat (rc_MaxRetries (sy_config s))") auto
  then show ?thesis by (simp add: FullSync_def syncWithRetries_def)
qed

lemma demote_b:
  "Lfc_DemoteToFollower MemCache_Set MemCache_Del (\<lambda>_. deadline_env (syncer0 ''a'') 2) 2 ''a'' ''a:1'' 0 (lfc_started RoleLeader ''b'') = Some (Inr (), 0, demoted_b)"
  and demoted_b_simps: "lf_currentRole demoted_b = RoleFollower" "lf_handler demoted_b = AtSelect" "\<not> lf_mu demoted_b" "\<not> lf_stopClosed demoted_b"
    "\<exists>f. lf_followerNode demoted_b = Some f \<and> fo_leaderID f = ''a'' \<and> fo_leaderAddr f = ''a:1'' \<and> \<not> fo_stopClosed f"
    "lf_syncer demoted_b = snd (Syncer_Stop (lf_syncer (lfc_started RoleLeader ''b'')))"
    "nd_membership (lf_clusterNode demoted_b) = SetLocalMetadata (Some [(''role'', ''follower'')]) (nd_membership (lf_clusterNode (lfc_started RoleLeader ''b'')))"
proof -
  let ?lfc = "lfc_started RoleLeader ''b''"
  obtain l where l: "lf_leaderNode ?lfc = Some l" "ld_running l" "\<not> ld_stopClosed l" using started_leader(1) [of "''b''"] by auto
  have lead: "leader_of ?lfc = Some (l\<lparr>ld_syncer := lf_syncer ?lfc\<rparr>)" using l by (simp add: leader_of_def)
  have cfg: "rc_MaxRetries (sy_config (snd (Syncer_Stop (lf_syncer ?lfc)))) = 3"
    by (simp add: Syncer_Stop_def started_leader sy_config_at)
  note defs = Lfc_DemoteToFollower_def Leader_Stop_eq lead l Let_def Follower_SetLeader_def Follower_Start_def NewFollowerNode_def setElectionCallback_def
    Follower_SetElectionCallback_def set_leader_def set_follower_def follower_of_def Follower_RequestFullSync_def FullSync_expired cfg
    lfc_started_simps set_metadata_def
  show "Lfc_DemoteToFollower MemCache_Set MemCache_Del (\<lambda>_. deadline_env (syncer0 ''a'') 2) 2 ''a'' ''a:1'' 0 ?lfc = Some (Inr (), 0, demoted_b)"
    and "lf_currentRole demoted_b = RoleFollower" "lf_handler demoted_b = AtSelect" "\<not> lf_mu demoted_b" "\<not> lf_stopClosed demoted_b"
    "\<exists>f. lf_followerNode demoted_b = Some f \<and> fo_leaderID f = ''a'' \<and> fo_leaderAddr f = ''a:1'' \<and> \<not> fo_stopClosed f"
    "lf_syncer demoted_b = snd (Syncer_Stop (lf_syncer ?lfc))"
    "nd_membership (lf_clusterNode demoted_b) = SetLocalMetadata (Some [(''role'', ''follower'')]) (nd_membership (lf_clusterNode ?lfc))"
    by (simp_all add: demoted_b_def defs)
qed

lemma demoted_b_reachable: "lfc_reachable MemCache_Get MemCache_Set MemCache_Del ([], demoted_b)"
  by (rule lfc_reachable.step [OF lfc_started_reachable lfc_step.demote [OF _ demote_b]]) (simp_all add: lfc_started_simps)


lemma quiet_demoted_b: "quiet (lf_clusterNode demoted_b)" "map_of (mb_members (nd_membership (lf_clusterNode demoted_b))) ''a'' = None"
proof -
  obtain p where "mb_events (nd_membership (lf_clusterNode (lfc_at RoleLeader ''b''))) = Some p" "ep_eventCh p = Some []" "0 < ep_bufferSize p"
    using lfc_at_parts(8) [of "''b''" RoleLeader] by auto
  then show "quiet (lf_clusterNode demoted_b)" "map_of (mb_members (nd_membership (lf_clusterNode demoted_b))) ''a'' = None"
    by (simp_all add: quiet_def demoted_b_simps(7) started_leader lfc_at_parts Membership_Start_def addLocalNode_def SetLocalMetadata_def set_node_def)
qed

text \<open>Node b learns that node a, its leader, has left.\<close>

lemma leader_gone:
  "\<exists>n event node. lfc_reachable MemCache_Get MemCache_Set MemCache_Del ([], demoted_b\<lparr>lf_clusterNode := n\<rparr>) \<and> next_event n = Some (event, node)
    \<and> ce_Type event = EventNodeLeave \<and> ce_NodeID event = ''a''"
  by (rule pending_failure [OF demoted_b_reachable _ _ _ _ quiet_demoted_b]) (simp_all add: demoted_b_simps)

lemma GetLeader_demoted_b: "Lfc_GetLeader (demoted_b\<lparr>lf_clusterNode := n\<rparr>) = ''a''"
  using demoted_b_simps(1,5) by (auto simp: Lfc_GetLeader_def Follower_GetLeader_def)

theorem failover_promotes_witness:
  "\<exists>n lfc1 lfc2 lfc3 lfc4. handler_move False False (demoted_b\<lparr>lf_clusterNode := n\<rparr>) = Some lfc1 \<and> handler_move False False lfc1 = Some lfc2
    \<and> handler_move True True lfc2 = Some lfc3 \<and> handler_move False False lfc3 = Some lfc4 \<and> Lfc_IsLeader lfc4"
proof -
  obtain n event node where 1: "lfc_reachable MemCache_Get MemCache_Set MemCache_Del ([], demoted_b\<lparr>lf_clusterNode := n\<rparr>)" "next_event n = Some (event, node)"
      "ce_Type event = EventNodeLeave" "ce_NodeID event = ''a''" using leader_gone by blast
  have "next_event (lf_clusterNode (demoted_b\<lparr>lf_clusterNode := n\<rparr>)) = Some (event, node)" using 1(2) by simp
  from failover_promotes [OF 1(1) _ _ _ _ this, of False False False False False False] show ?thesis
    using demoted_b_simps(1-5) 1(3,4) GetLeader_demoted_b [of n] by (auto intro!: exI [of _ n])
qed

text \<open>Node a writes two keys and deletes one of them; node b synchronises, and reads the other one after the failover.\<close>

definition calls_a :: "(instant \<times> unit anyval cache_op) list" where
  "calls_a = [(1, OpSet ''k'' (AnyBytes ''v'') 60), (2, OpSet ''x'' (AnyString ''w'') 60), (3, OpDel ''x'')]"

theorem failover_keeps_data_witness:
  "\<exists>n rs L' r F0 F1 F2 F3 F4 F5. lfc_run MemCache_Get MemCache_Set MemCache_Del (\<lambda>_. None) calls_a (lfc_at RoleLeader ''a'') = Some (rs, L')
    \<and> Lfc_SyncFromLeader MemCache_Set MemCache_Del (\<lambda>_. deadline_env (lf_syncer L') 10) 5 (demoted_b\<lparr>lf_clusterNode := n\<rparr>) = Some (r, 0, F0)
    \<and> handler_move False False F0 = Some F1 \<and> handler_move False False F1 = Some F2 \<and> handler_move True True F2 = Some F3 \<and> handler_move False False F3 = Some F4
    \<and> Lfc_IsLeader F4 \<and> Lfc_Get MemCache_Get 50 ''k'' F4 = Some (Inr (AnyString ''v''), F5)"
proof -
  let ?L = "lfc_at RoleLeader ''a''" and ?m = "(\<lambda>_. None) :: unit \<Rightarrow> string option"
  obtain n event node where 1: "lfc_reachable MemCache_Get MemCache_Set MemCache_Del ([], demoted_b\<lparr>lf_clusterNode := n\<rparr>)" "next_event n = Some (event, node)"
      "ce_Type event = EventNodeLeave" "ce_NodeID event = ''a''" using leader_gone by blast
  let ?F = "demoted_b\<lparr>lf_clusterNode := n\<rparr>"
  have ev: "next_event (lf_clusterNode ?F) = Some (event, node)" using 1(2) by simp
  obtain f where f: "lf_followerNode ?F = Some f" "fo_leaderAddr f = ''a:1''" "\<not> fo_stopClosed f" using demoted_b_simps(5) by auto
  have ops: "sorted (map fst calls_a)" "list_all (marshals ?m) calls_a" "concat (map (call_entries ?m) calls_a) \<noteq> []" "length calls_a < 2 ^ 62" "length calls_a \<le> 5"
    by (simp_all add: calls_a_def marshals_def value_bytes_def)
  have lead: "Lfc_IsLeader ?L" "mem_rep (sy_localCache (lf_syncer ?L)) Map.empty" "sy_log (lf_syncer ?L) = NewMemoryReplicationLog" "log_room (length calls_a) ?L"
      "0 < rc_MaxLogEntries (sy_config (lf_syncer ?L))" "rc_MaxLogEntries (sy_config (lf_syncer ?L)) < 2 ^ 62"
    by (simp_all add: Lfc_IsLeader_def lfc_at_simps log_room_def sy_config_at)
  have "sorted (1 # map fst calls_a)" by (simp add: calls_a_def)
  from rmem.lfc_run_rep [OF lead(2) same_from_refl this lead(4), where marshal = ?m] ops(2)
  obtain rs L' where run: "lfc_run MemCache_Get MemCache_Set MemCache_Del ?m calls_a ?L = Some (rs, L')" by blast
  have follower: "mem_rep (sy_localCache (lf_syncer ?F)) Map.empty" "rl_entries (sy_log (lf_syncer ?F)) = []" "0 < rc_MaxRetries (sy_config (lf_syncer ?F))"
    by (simp_all add: demoted_b_simps(6) started_leader lfc_at_simps NewMemoryReplicationLog_def) (simp add: Syncer_Stop_def started_leader sy_config_at)
  have k: "live 50 (fold (replica_step ?m 10) calls_a Map.empty) ''k'' = Some (AnyString ''v'')" by (simp add: calls_a_def value_bytes_def live_def)
  show ?thesis
    using failover_keeps_data [OF lead ops(1-4) run 1(1) _ _ _ _ follower f(1) _ f(3) ev _ _ ops(5), of 10 False False False False False False 50 "''k''"]
      demoted_b_simps(1-4) 1(3,4) f(2) GetLeader_demoted_b [of n] run unfolding k by (auto intro!: exI [of _ n])
qed

section \<open>A demoted leader\<close>

text \<open>A leader that has been demoted never serves again: \<open>DemoteToFollower\<close> stops the leader node, which stops the
  synchroniser that the cluster goes on using, and nothing starts its server a second time. Whatever happens afterwards,
  restarting and promotion included, entries that a leader sends to this node are not received.\<close>

theorem demoted_never_listens:
  assumes "lfc_reachable get put del (probes, lfc)" "lf_leaderNode lfc = Some l" "ld_running l" "sy_running (lf_syncer lfc)" "sy_httpServer (lf_syncer lfc)"
    and "Lfc_DemoteToFollower put del (env :: string \<Rightarrow> nat env) now lid addr n lfc = Some (r, n', lfc1)" "\<not> lf_mu lfc"
    and "(lfc_step get put del)\<^sup>*\<^sup>* (probes, lfc1) (probes', lfc')"
  shows "\<not> Lfc_IsLeader lfc1 \<and> \<not> sy_listening (lf_syncer lfc')"
proof -
  have inv: "role_inv lfc" using reachable_inv [OF assms(1)] by simp
  have lead: "leader_of lfc = Some (l\<lparr>ld_syncer := lf_syncer lfc\<rparr>)" using assms(2) by (simp add: leader_of_def)
  have role: "lf_currentRole lfc = RoleLeader" using role_inv_leaderD [OF inv lead] by simp
  have 1: "\<not> Lfc_IsLeader lfc1 \<and> deaf (lf_syncer lfc1)"
    using assms(6)
  proof (cases rule: Demote_cases)
    case same
    then have False using assms(6) role lead
      by (auto simp: Lfc_DemoteToFollower_def Leader_Stop_eq assms(3) bind_eq_Some_conv Let_def case_prod_unfold set_metadata_def
          Follower_Start_def Follower_SetLeader_def NewFollowerNode_def split: if_splits dest: arg_cong [of _ _ lf_currentRole])
    then show ?thesis ..
  next
    case (demoted l0 l' f f' e n1)
    have "deaf (ld_syncer l')" using demoted(1,2) lead assms(3-5) by (auto simp: Leader_Stop_eq deaf_def Syncer_Stop_def split: if_splits)
    then have "deaf (fo_syncer f)" by (simp add: demoted(3) new_follower_def NewFollowerNode_def Let_def)
    then have "deaf (fo_syncer f')" using Follower_RequestFullSync_frame [OF demoted(4)] deaf_syncs by auto
    then show ?thesis by (simp add: demoted(5) set_metadata_def Lfc_IsLeader_def)
  qed
  have "role_inv (snd s) \<and> deaf (lf_syncer (snd s))" if "(lfc_step get put del)\<^sup>*\<^sup>* (probes, lfc1) s" for s
    using that
  proof (induction rule: rtranclp_induct)
    case base
    then show ?case using 1 role_inv_Demote [OF assms(6) inv] by simp
  next
    case (step y z)
    then show ?case using role_inv_step deaf_step by blast
  qed
  from this [OF assms(8)] 1 show ?thesis by (simp add: deaf_def)
qed

theorem demoted_never_listens_witness: "\<not> Lfc_IsLeader demoted_b \<and> \<not> sy_listening (lf_syncer demoted_b)"
proof -
  obtain l where l: "lf_leaderNode (lfc_started RoleLeader ''b'') = Some l" "ld_running l" using started_leader(1) [of "''b''"] by auto
  show ?thesis
    using demoted_never_listens [OF lfc_started_reachable l started_leader(2,3) demote_b _ rtranclp.rtrancl_refl] by (simp add: lfc_started_simps)
qed


section \<open>Joining\<close>

text \<open>A follower never learns of its leader by joining, even at the leader itself: the answer to a join message calls every
  seed ''seed'', so that no member is marked as leader unless one was before.\<close>

definition role_of :: "NodeInfo \<Rightarrow> string option" where
  "role_of i = (case ni_Metadata i of None \<Rightarrow> None | Some md \<Rightarrow> map_of md ''role'')"

lemma find_leader_None:
  "wf_gomap (mb_members m) \<Longrightarrow> find_leader (Members m) = None \<longleftrightarrow> (\<forall>k i. map_of (mb_members m) k = Some i \<longrightarrow> role_of i \<noteq> Some ''leader'')"
proof -
  have "(case ni_Metadata i of None \<Rightarrow> False | Some md \<Rightarrow> map_of md ''role'' = Some ''leader'') = (role_of i = Some ''leader'')" for i
    by (simp add: role_of_def split: option.splits)
  then show "wf_gomap (mb_members m) \<Longrightarrow> ?thesis" unfolding find_leader_def by (auto simp: find_None_iff Members_def wf_gomap_def)
qed

lemma join_finds_no_leader:
  assumes "lf_currentRole lfc = RoleFollower" "membership_inv (nd_membership (lf_clusterNode lfc))" "find_leader (Node_Members (lf_clusterNode lfc)) = None"
    and "nd_running (lf_clusterNode lfc)" "addr \<noteq> ''''" "addr \<noteq> nc_BindAddr (nd_config (lf_clusterNode lfc))"
    and send: "\<And>payload. send addr (MsgJoin (nd_id (lf_clusterNode lfc)) payload) = fst (handleJoinMessage now' payload seed)"
  shows "\<exists>lfc'. Lfc_Join put del send env now started addr n lfc = Some (Inr (), n, lfc') \<and> lf_followerNode lfc' = lf_followerNode lfc"
proof -
  let ?n = "lf_clusterNode lfc" and ?md = "[(''role'', ''follower''), (''syncer_address'', rc_SyncerAddress (lf_config lfc))]"
  let ?m1 = "SetLocalMetadata (Some ?md) (nd_membership ?n)"
  let ?m2 = "AddMember now (nd_id seed) addr (Some [(''role'', ''seed'')]) ?m1"
  have inv: "membership_inv ?m1" "membership_inv ?m2" using assms(2) by (simp_all add: inv_SetLocalMetadata inv_AddMember)
  then have wf: "wf_gomap (mb_members (nd_membership ?n))" "wf_gomap (mb_members ?m1)" "wf_gomap (mb_members ?m2)" using assms(2) by (simp_all add: membership_inv_def)
  have 0: "role_of i \<noteq> Some ''leader''" if "map_of (mb_members (nd_membership ?n)) k = Some i" for k i
    using assms(3) that find_leader_None [OF wf(1)] by (auto simp: Node_Members_def)
  have 1: "role_of i \<noteq> Some ''leader''" if "map_of (mb_members ?m1) k = Some i" for k i
    using that 0 [of k i] by (auto simp: SetLocalMetadata_def set_node_def role_of_def split: option.splits if_splits)
  have "role_of i \<noteq> Some ''leader''" if "map_of (mb_members ?m2) k = Some i" for k i
    using that 1 [of k i] by (auto simp: AddMember_map role_of_def merge_metadata_def split: option.splits if_splits)
  then have none: "find_leader (Members ?m2) = None" using find_leader_None [OF wf(3)] by blast
  have reply: "send addr (MsgJoin (nd_id ?n) (Some p)) = Inr (MsgJoin (nd_id seed) (Some \<lparr>jp_NodeID = nd_id seed, jp_Address = nc_BindAddr (nd_config seed), jp_Metadata = Some [(''role'', ''seed'')]\<rparr>))" for p
    by (simp add: send handleJoinMessage_def)
  show ?thesis
    using assms(1,4-6) reply none by (simp add: Lfc_Join_def set_metadata_def Node_Join_def Node_Members_def Let_def case_prod_unfold split: option.split)
qed

section \<open>Writes that come back\<close>

text \<open>A running leader applies every recorded write a second time when its log channel delivers it. Between two writes of a
  key and the delivery of the second, a read gives the first value again.\<close>

lemma leader_read_goes_back:
  assumes "mem_rep (sy_localCache (lf_syncer lfc)) m" "lf_currentRole lfc = RoleLeader" "sy_running (lf_syncer lfc)" "\<not> sy_stopClosed (lf_syncer lfc)"
    "sy_logCh (lf_syncer lfc) = []" "t \<le> t3 + e1"
  shows "\<exists>lfc1 lfc2 s lfc4. Lfc_Set MemCache_Set marshal t1 key (AnyString v1) e1 lfc = Some (Inr (), lfc1)
    \<and> Lfc_Set MemCache_Set marshal t2 key (AnyString v2) e2 lfc1 = Some (Inr (), lfc2)
    \<and> processLogEntries_step MemCache_Set MemCache_Del t3 pick (lf_syncer lfc2) = Some (True, s)
    \<and> Lfc_Get MemCache_Get t key (lfc2\<lparr>lf_syncer := s\<rparr>) = Some (Inr (AnyString v1), lfc4)"
proof -
  obtain c1 where c1: "MemCache_Set t1 key (AnyString v1) e1 (sy_localCache (lf_syncer lfc)) = Some (Inr (), c1)" "mem_rep c1 (m(key \<mapsto> (AnyString v1, t1 + e1)))"
    using mem.put_law [OF assms(1)] by blast
  obtain c2 where c2: "MemCache_Set t2 key (AnyString v2) e2 c1 = Some (Inr (), c2)" "mem_rep c2 (m(key \<mapsto> (AnyString v1, t1 + e1), key \<mapsto> (AnyString v2, t2 + e2)))"
    using mem.put_law [OF c1(2)] by blast
  obtain c3 where c3: "MemCache_Set t3 key (AnyString v1) e1 c2 = Some (Inr (), c3)" "mem_rep c3 (m(key \<mapsto> (AnyString v1, t1 + e1), key \<mapsto> (AnyString v2, t2 + e2), key \<mapsto> (AnyString v1, t3 + e1)))"
    using mem.put_law [OF c2(2)] by blast
  obtain c4 where c4: "MemCache_Get t key c3 = Some (Inr (AnyString v1), c4)"
    using mem.get_law [OF c3(2), of t key] assms(6) by auto
  show ?thesis
    using assms(2-5) c1(1) c2(1) c3(1) c4
    by (simp add: Lfc_Set_def Lfc_Get_def value_bytes_def RecordSetOperation_def Log_Append_def send_logCh_def set_cache_def processLogEntries_step_def
        applyEntryToLocal_def stamp_def Let_def)
qed


end
