(* ===== verification/ServeMux.thy ===== *)
theory ServeMux
  imports Prelude
begin

text \<open>
  The patterns of \<open>http.ServeMux\<close> (Go 1.23) as far as registering them goes: which patterns are refused, and which two
  conflict. \<open>HandleFunc\<close> panics on both. A pattern is \<open>[METHOD ][HOST]/[PATH]\<close>; a segment of the path is a literal, a wildcard
  \<open>{name}\<close>, a wildcard \<open>{name...}\<close> for the rest, or \<open>{$}\<close> for the end. Of wildcard names only ASCII letters and
  digits are known: a name with other bytes counts as invalid.
\<close>

section \<open>Parsing a pattern\<close>

record segment =
  sg_s :: string
  sg_wild :: bool
  sg_multi :: bool

record pattern =
  pt_method :: string
  pt_host :: string
  pt_segments :: "segment list"

definition char_between :: "char \<Rightarrow> char \<Rightarrow> char \<Rightarrow> bool" where
  "char_between a b c \<longleftrightarrow> (of_char a :: nat) \<le> of_char c \<and> (of_char c :: nat) \<le> of_char b"

definition ascii_letter :: "char \<Rightarrow> bool" where
  "ascii_letter c \<longleftrightarrow> char_between CHR ''a'' CHR ''z'' c \<or> char_between CHR ''A'' CHR ''Z'' c"

definition ascii_digit :: "char \<Rightarrow> bool" where
  "ascii_digit c \<longleftrightarrow> char_between CHR ''0'' CHR ''9'' c"

definition is_token :: "char \<Rightarrow> bool" where
  "is_token c \<longleftrightarrow> ascii_letter c \<or> ascii_digit c \<or> c \<in> set ''!#$%&*+-.^_|~'' \<or> c = CHR 0x27 \<or> c = CHR 0x60"

definition validMethod :: "string \<Rightarrow> bool" where
  "validMethod m \<longleftrightarrow> m \<noteq> [] \<and> list_all is_token m"

definition isValidWildcardName :: "string \<Rightarrow> bool" where
  "isValidWildcardName s \<longleftrightarrow> (case s of [] \<Rightarrow> False
     | c # cs \<Rightarrow> (ascii_letter c \<or> c = CHR ''_'') \<and> list_all (\<lambda>c. ascii_letter c \<or> c = CHR ''_'' \<or> ascii_digit c) cs)"

text \<open>The parts of a string between the occurrences of a character.\<close>

fun split_char :: "char \<Rightarrow> string \<Rightarrow> string list" where
  "split_char x [] = [[]]"
| "split_char x (c # cs) = (if c = x then [] # split_char x cs
     else case split_char x cs of [] \<Rightarrow> [[c]] | p # ps \<Rightarrow> (c # p) # ps)"

fun hex_digit_value :: "char \<Rightarrow> nat option" where
  "hex_digit_value c = (if ascii_digit c then Some (of_char c - 48)
     else if char_between CHR ''a'' CHR ''f'' c then Some (of_char c - 87)
     else if char_between CHR ''A'' CHR ''F'' c then Some (of_char c - 55) else None)"

text \<open>\<open>url.PathUnescape\<close>, \<open>None\<close> for a bad escape, which leaves a segment as it is.\<close>

fun path_unescape :: "string \<Rightarrow> string option" where
  "path_unescape [] = Some []"
| "path_unescape (c # cs) = (if c = CHR ''%'' then
     (case cs of a # b # ds \<Rightarrow> do { x \<leftarrow> hex_digit_value a; y \<leftarrow> hex_digit_value b; ds' \<leftarrow> path_unescape ds; Some (char_of (16 * x + y) # ds') }
      | _ \<Rightarrow> None)
   else map_option (Cons c) (path_unescape cs))"

definition pathUnescape :: "string \<Rightarrow> string" where
  "pathUnescape s = (case path_unescape s of None \<Rightarrow> s | Some t \<Rightarrow> t)"

text \<open>\<open>path.Clean\<close> of a path that begins with a slash, and \<open>cleanPath\<close>, which keeps a slash at the end.\<close>

fun clean_parts :: "string list \<Rightarrow> string list \<Rightarrow> string list" where
  "clean_parts acc [] = rev acc"
| "clean_parts acc (p # ps) = (if p = [] \<or> p = ''.'' then clean_parts acc ps
     else if p = ''..'' then clean_parts (drop 1 acc) ps else clean_parts (p # acc) ps)"

definition cleanPath :: "string \<Rightarrow> string" where
  "cleanPath p = (let np = concat (map (\<lambda>q. CHR ''/'' # q) (clean_parts [] (split_char CHR ''/'' p)))
     in if np = [] then ''/'' else if last p = CHR ''/'' then np @ ''/'' else np)"

text \<open>The segments of a path, given the names of the wildcards before them; the empty last one is a trailing slash.\<close>

definition cut_dots :: "string \<Rightarrow> string \<times> bool" where
  "cut_dots name = (if 3 \<le> length name \<and> drop (length name - 3) name = ''...'' then (take (length name - 3) name, True) else (name, False))"

fun parse_segments :: "string list \<Rightarrow> string list \<Rightarrow> segment list option" where
  "parse_segments seen [] = Some []"
| "parse_segments seen (seg # rest) =
     (if seg = [] \<and> rest = [] then Some [\<lparr>sg_s = [], sg_wild = True, sg_multi = True\<rparr>]
      else if CHR ''{'' \<notin> set seg then map_option (Cons \<lparr>sg_s = pathUnescape seg, sg_wild = False, sg_multi = False\<rparr>) (parse_segments seen rest)
      else if hd seg \<noteq> CHR ''{'' \<or> last seg \<noteq> CHR ''}'' then None
      else let name = butlast (tl seg) in
        if name = ''$'' then (if rest \<noteq> [] then None else Some [\<lparr>sg_s = ''/'', sg_wild = False, sg_multi = False\<rparr>])
        else let (name, multi) = cut_dots name in
          if multi \<and> rest \<noteq> [] \<or> \<not> isValidWildcardName name \<or> name \<in> set seen then None
          else map_option (Cons \<lparr>sg_s = name, sg_wild = True, sg_multi = multi\<rparr>) (parse_segments (name # seen) rest))"

definition is_blank :: "char \<Rightarrow> bool" where
  "is_blank c \<longleftrightarrow> c = CHR '' '' \<or> c = CHR 0x09"

definition parsePattern :: "string \<Rightarrow> pattern option" where
  "parsePattern s =
     (let found = list_ex is_blank s;
          method = (if found then takeWhile (\<lambda>c. \<not> is_blank c) s else []);
          rest = (if found then dropWhile is_blank (dropWhile (\<lambda>c. \<not> is_blank c) s) else s)
      in if method \<noteq> [] \<and> \<not> validMethod method then None
      else if CHR ''/'' \<notin> set rest then None
      else let host = takeWhile (\<lambda>c. c \<noteq> CHR ''/'') rest; path = dropWhile (\<lambda>c. c \<noteq> CHR ''/'') rest
      in if CHR ''{'' \<in> set host then None
      else if method \<noteq> [] \<and> method \<noteq> ''CONNECT'' \<and> path \<noteq> cleanPath path then None
      else map_option (\<lambda>segments. \<lparr>pt_method = method, pt_host = host, pt_segments = segments\<rparr>)
        (parse_segments [] (split_char CHR ''/'' (tl path))))"

section \<open>Conflicts\<close>

datatype relationship = Equivalent | MoreGeneral | MoreSpecific | Disjoint | Overlaps

fun combineRelationships :: "relationship \<Rightarrow> relationship \<Rightarrow> relationship" where
  "combineRelationships Equivalent r = r"
| "combineRelationships Disjoint r = Disjoint"
| "combineRelationships Overlaps r = (if r = Disjoint then Disjoint else Overlaps)"
| "combineRelationships MoreGeneral r = (if r = Equivalent then MoreGeneral else if r = MoreSpecific then Overlaps else r)"
| "combineRelationships MoreSpecific r = (if r = Equivalent then MoreSpecific else if r = MoreGeneral then Overlaps else r)"

definition compareMethods :: "pattern \<Rightarrow> pattern \<Rightarrow> relationship" where
  "compareMethods p q = (let m = pt_method p; n = pt_method q in
     if m = n then Equivalent else if m = [] then MoreGeneral else if n = [] then MoreSpecific
     else if m = ''GET'' \<and> n = ''HEAD'' then MoreGeneral else if n = ''GET'' \<and> m = ''HEAD'' then MoreSpecific else Disjoint)"

definition compareSegments :: "segment \<Rightarrow> segment \<Rightarrow> relationship" where
  "compareSegments s t =
     (if sg_multi s \<and> sg_multi t then Equivalent else if sg_multi s then MoreGeneral else if sg_multi t then MoreSpecific
      else if sg_wild s \<and> sg_wild t then Equivalent
      else if sg_wild s then (if sg_s t = ''/'' then Disjoint else MoreGeneral)
      else if sg_wild t then (if sg_s s = ''/'' then Disjoint else MoreSpecific)
      else if sg_s s = sg_s t then Equivalent else Disjoint)"

definition last_multi :: "segment list \<Rightarrow> bool" where
  "last_multi ss \<longleftrightarrow> ss \<noteq> [] \<and> sg_multi (last ss)"

fun compare_walk :: "relationship \<Rightarrow> bool \<Rightarrow> bool \<Rightarrow> segment list \<Rightarrow> segment list \<Rightarrow> relationship" where
  "compare_walk rel m1 m2 (s # ss) (t # ts) = (let rel = combineRelationships rel (compareSegments s t) in
     if rel = Disjoint then Disjoint else compare_walk rel m1 m2 ss ts)"
| "compare_walk rel m1 m2 [] [] = rel"
| "compare_walk rel m1 m2 [] (t # ts) = (if m1 then combineRelationships rel MoreGeneral else Disjoint)"
| "compare_walk rel m1 m2 (s # ss) [] = (if m2 then combineRelationships rel MoreSpecific else Disjoint)"

definition comparePaths :: "pattern \<Rightarrow> pattern \<Rightarrow> relationship" where
  "comparePaths p q = (let ss = pt_segments p; ts = pt_segments q in
     if length ss \<noteq> length ts \<and> \<not> last_multi ss \<and> \<not> last_multi ts then Disjoint
     else compare_walk Equivalent (last_multi ss) (last_multi ts) ss ts)"

definition conflictsWith :: "pattern \<Rightarrow> pattern \<Rightarrow> bool" where
  "conflictsWith p q \<longleftrightarrow> pt_host p = pt_host q \<and>
     (let mrel = compareMethods p q; rel = (if mrel = Disjoint then Disjoint else combineRelationships mrel (comparePaths p q))
      in rel = Equivalent \<or> rel = Overlaps)"

text \<open>A multiplexer is the list of the patterns that were registered; \<open>None\<close> is the panic.\<close>

definition HandleFunc :: "string \<Rightarrow> string list \<Rightarrow> string list option" where
  "HandleFunc patstr mux = (case parsePattern patstr of
     None \<Rightarrow> None
   | Some p \<Rightarrow>
       if list_ex (\<lambda>q. case parsePattern q of None \<Rightarrow> False | Some q \<Rightarrow> conflictsWith p q) mux then None else Some (mux @ [patstr]))"

section \<open>Plain patterns\<close>

lemma HandleFunc_app: "HandleFunc patstr mux = Some mux' \<Longrightarrow> mux' = mux @ [patstr]"
  by (auto simp: HandleFunc_def split: option.splits if_splits)

lemma HandleFunc_first: "HandleFunc patstr [] = (if parsePattern patstr = None then None else Some [patstr])"
  by (simp add: HandleFunc_def split: option.split)

lemma set_tl_subset: "set (tl xs) \<subseteq> set xs"
  by (cases xs) auto

lemma split_char_sub: "p \<in> set (split_char x s) \<Longrightarrow> set p \<subseteq> set s"
  by (induction s arbitrary: p) (fastforce split: if_splits list.splits)+

lemma parse_segments_plain: "\<forall>p\<in>set ps. CHR ''{'' \<notin> set p \<Longrightarrow> parse_segments seen ps \<noteq> None"
  by (induction ps) auto

text \<open>A pattern without blanks and braces is valid exactly when it has a slash.\<close>

lemma parsePattern_plain:
  assumes "\<not> list_ex is_blank s" "CHR ''{'' \<notin> set s"
  shows "parsePattern s \<noteq> None \<longleftrightarrow> CHR ''/'' \<in> set s"
proof -
  let ?path = "dropWhile (\<lambda>c. c \<noteq> CHR ''/'') s"
  have "set (tl ?path) \<subseteq> set ?path" by (rule set_tl_subset)
  also have "\<dots> \<subseteq> set s" using set_dropWhileD by (rule subsetI)
  finally have "parse_segments [] (split_char CHR ''/'' (tl ?path)) \<noteq> None"
    using assms(2) split_char_sub by (intro parse_segments_plain) blast
  moreover have "CHR ''{'' \<notin> set (takeWhile (\<lambda>c. c \<noteq> CHR ''/'') s)" using assms(2) set_takeWhileD by fastforce
  ultimately show ?thesis using assms(1) by (auto simp: parsePattern_def Let_def)
qed

end
