(* ===== verification/Metrics.thy ===== *)
theory Metrics
  imports MemCache ServeMux
begin

text \<open>
  The monitored cache of \<^verbatim>\<open>src/cache/metrics/\<close>: the configuration (\<^verbatim>\<open>metrics.go\<close>), the
  collector (\<^verbatim>\<open>collector.go\<close>), the exporter (\<^verbatim>\<open>exporter.go\<close>), the HTTP server
  (\<^verbatim>\<open>server.go\<close>), the decorator (\<^verbatim>\<open>decorator.go\<close>) and its options (\<^verbatim>\<open>option.go\<close>).

  The Prometheus client is not part of the program. What the program does with it is the sequence
  of the calls it makes, \<open>pc_calls\<close>, oldest first, each with the metric it is made on. Numbers given
  to it as \<open>float64\<close> are exact rationals here. The exporter has no state of its own: it
  refers to the collector, so its operations are functions of the collector. The ticker goroutines
  are one operation per choice of their \<open>select\<close>; the ending of \<open>Shutdown\<close> and the time a cache
  operation takes are arguments.
\<close>

section \<open>Configuration\<close>

definition TypeCounter :: string where "TypeCounter = ''counter''"
definition TypeGauge :: string where "TypeGauge = ''gauge''"
definition TypeHistogram :: string where "TypeHistogram = ''histogram''"
definition TypeSummary :: string where "TypeSummary = ''summary''"

lemmas metric_types = TypeCounter_def TypeGauge_def TypeHistogram_def TypeSummary_def

record MetricsConfig =
  mcf_Address :: string
  mcf_MetricsPath :: string
  mcf_CollectInterval :: duration
  mcf_EnableMemStats :: bool
  mcf_MemStatsInterval :: duration
  mcf_Namespace :: string
  mcf_Subsystem :: string

definition DefaultMetricsConfig :: MetricsConfig where
  "DefaultMetricsConfig = \<lparr>mcf_Address = '':8080'', mcf_MetricsPath = ''/metrics'',
     mcf_CollectInterval = 15 * 1000000000, mcf_EnableMemStats = True, mcf_MemStatsInterval = 5 * 1000000000,
     mcf_Namespace = ''fyercache'', mcf_Subsystem = ''cache''\<rparr>"

section \<open>The collector\<close>

datatype prom_ctor =
    NewCounter | NewGauge | NewCounterVec "string list" | NewGaugeVec "string list"
  | NewHistogramVec "rat list" "string list" | NewSummaryVec "string list"

record prom_metric =
  pm_ctor :: prom_ctor
  pm_Namespace :: string
  pm_Subsystem :: string
  pm_Name :: string
  pm_Help :: string

datatype prom_call =
    MustRegister prom_metric
  | CounterInc prom_metric "string list"
  | HistogramObserve prom_metric "string list" rat
  | GaugeSet prom_metric int

record PrometheusCollector =
  pc_hitCount :: u64
  pc_missCount :: u64
  pc_hitCounter :: prom_metric
  pc_missCounter :: prom_metric
  pc_requestCounter :: prom_metric
  pc_latencyHistogram :: prom_metric
  pc_memoryGauge :: prom_metric
  pc_itemsGauge :: prom_metric
  pc_namespace :: string
  pc_subsystem :: string
  pc_calls :: "prom_call list"

definition latency_buckets :: "rat list" where
  "latency_buckets = [1/10000, 5/10000, 1/1000, 5/1000, 1/100, 25/1000, 5/100, 1/10, 25/100, 5/10, 1]"

definition NewPrometheusCollector :: "MetricsConfig option \<Rightarrow> PrometheusCollector" where
  "NewPrometheusCollector cfg = (
     let config = (case cfg of None \<Rightarrow> DefaultMetricsConfig | Some c \<Rightarrow> c);
         metric = (\<lambda>ctor name help. \<lparr>pm_ctor = ctor, pm_Namespace = mcf_Namespace config,
            pm_Subsystem = mcf_Subsystem config, pm_Name = name, pm_Help = help\<rparr>);
         hitCounter = metric NewCounter ''hit_count'' ''Total number of cache hits'';
         missCounter = metric NewCounter ''miss_count'' ''Total number of cache misses'';
         requestCounter = metric (NewCounterVec [''operation'']) ''request_count'' ''Total number of cache requests by operation type'';
         latencyHistogram = metric (NewHistogramVec latency_buckets [''operation'']) ''operation_latency_seconds''
           ''Latency distribution of cache operations in seconds'';
         memoryGauge = metric NewGauge ''memory_usage_bytes'' ''Current memory usage of the cache in bytes'';
         itemsGauge = metric NewGauge ''item_count'' ''Current number of items in the cache''
     in \<lparr>pc_hitCount = 0, pc_missCount = 0, pc_hitCounter = hitCounter, pc_missCounter = missCounter,
         pc_requestCounter = requestCounter, pc_latencyHistogram = latencyHistogram,
         pc_memoryGauge = memoryGauge, pc_itemsGauge = itemsGauge,
         pc_namespace = mcf_Namespace config, pc_subsystem = mcf_Subsystem config,
         pc_calls = map MustRegister [hitCounter, missCounter, requestCounter, latencyHistogram, memoryGauge, itemsGauge]\<rparr>)"

definition prom :: "prom_call \<Rightarrow> PrometheusCollector \<Rightarrow> PrometheusCollector" where
  "prom call pc = pc\<lparr>pc_calls := pc_calls pc @ [call]\<rparr>"

definition IncHits :: "PrometheusCollector \<Rightarrow> PrometheusCollector" where
  "IncHits pc = prom (CounterInc (pc_hitCounter pc) []) (pc\<lparr>pc_hitCount := pc_hitCount pc + 1\<rparr>)"

definition IncMisses :: "PrometheusCollector \<Rightarrow> PrometheusCollector" where
  "IncMisses pc = prom (CounterInc (pc_missCounter pc) []) (pc\<lparr>pc_missCount := pc_missCount pc + 1\<rparr>)"

definition IncRequests :: "string \<Rightarrow> PrometheusCollector \<Rightarrow> PrometheusCollector" where
  "IncRequests operation pc = prom (CounterInc (pc_requestCounter pc) [operation]) pc"

definition Seconds :: "duration \<Rightarrow> rat" where
  "Seconds d = of_int d / 1000000000"

definition ObserveLatency :: "string \<Rightarrow> duration \<Rightarrow> PrometheusCollector \<Rightarrow> PrometheusCollector" where
  "ObserveLatency operation d pc = prom (HistogramObserve (pc_latencyHistogram pc) [operation] (Seconds d)) pc"

definition SetMemoryUsage :: "int \<Rightarrow> PrometheusCollector \<Rightarrow> PrometheusCollector" where
  "SetMemoryUsage bytes pc = prom (GaugeSet (pc_memoryGauge pc) bytes) pc"

definition SetItemCount :: "int \<Rightarrow> PrometheusCollector \<Rightarrow> PrometheusCollector" where
  "SetItemCount n pc = prom (GaugeSet (pc_itemsGauge pc) n) pc"

definition Collector_HitRate :: "PrometheusCollector \<Rightarrow> rat" where
  "Collector_HitRate pc = (let total = pc_hitCount pc + pc_missCount pc in
     if total = 0 then 0 else of_nat (unat (pc_hitCount pc)) / of_nat (unat total))"

lemmas collector_defs = IncHits_def IncMisses_def IncRequests_def ObserveLatency_def SetMemoryUsage_def
  SetItemCount_def prom_def

section \<open>The exporter\<close>

definition RegisterMetric :: "string \<Rightarrow> string \<Rightarrow> string \<Rightarrow> string list \<Rightarrow> PrometheusCollector \<Rightarrow> PrometheusCollector" where
  "RegisterMetric name help typ labels pc = (
     let metric = (\<lambda>ctor. \<lparr>pm_ctor = ctor, pm_Namespace = pc_namespace pc, pm_Subsystem = pc_subsystem pc,
            pm_Name = name, pm_Help = help\<rparr>)
     in if typ = TypeCounter then prom (MustRegister (metric (NewCounterVec labels))) pc
        else if typ = TypeGauge then prom (MustRegister (metric (NewGaugeVec labels))) pc
        else if typ = TypeHistogram then prom (MustRegister (metric (NewHistogramVec [] labels))) pc
        else if typ = TypeSummary then prom (MustRegister (metric (NewSummaryVec labels))) pc
        else pc)"

section \<open>The HTTP server\<close>

record HttpServer =
  hs_Addr :: string
  hs_Handler :: "string list"
  hs_shut :: bool

record MetricsServer =
  ms_config :: MetricsConfig
  ms_server :: "HttpServer option"
  ms_running :: bool

definition NewServer :: "MetricsConfig option \<Rightarrow> MetricsServer" where
  "NewServer cfg = \<lparr>ms_config = (case cfg of None \<Rightarrow> DefaultMetricsConfig | Some c \<Rightarrow> c), ms_server = None, ms_running = False\<rparr>"

definition Server_Start :: "MetricsServer \<Rightarrow> MetricsServer option" where
  "Server_Start s = (if ms_running s then Some s else do {
     mux \<leftarrow> HandleFunc (mcf_MetricsPath (ms_config s)) [];
     mux \<leftarrow> HandleFunc ''/health'' mux;
     Some (s\<lparr>ms_server := Some \<lparr>hs_Addr = mcf_Address (ms_config s), hs_Handler = mux, hs_shut = False\<rparr>, ms_running := True\<rparr>) })"

definition Server_Stop :: "gerror option \<Rightarrow> MetricsServer \<Rightarrow> (gerror + unit) \<times> MetricsServer" where
  "Server_Stop shutdown s = (case ms_server s of
     None \<Rightarrow> (Inr (), s)
   | Some h \<Rightarrow> if \<not> ms_running s then (Inr (), s)
     else let s = s\<lparr>ms_server := Some (h\<lparr>hs_shut := True\<rparr>)\<rparr> in
       (case shutdown of
          Some e \<Rightarrow> (Inl e, s)
        | None \<Rightarrow> (Inr (), s\<lparr>ms_running := False\<rparr>)))"

definition handleHealth :: "nat \<times> string" where
  "handleHealth = (200, ''OK'')"

section \<open>The monitored cache\<close>

record 'c MonitoredCache =
  mon_cache :: 'c
  mon_collector :: PrometheusCollector
  mon_server :: "MetricsServer option"
  mon_namespace :: string
  mon_subsystem :: string
  mon_collectInterval :: duration
  mon_memoryUpdateInterval :: duration
  mon_enableMemStats :: bool
  mon_stopped :: bool
  mon_labels :: "string \<rightharpoonup> string"
  mon_running :: bool
  mon_collecting :: bool
  mon_memstats :: bool

text \<open>\<open>mon_stopped\<close> says that \<open>stopCh\<close> is closed; \<open>mon_collecting\<close> and \<open>mon_memstats\<close> that the goroutines
  of \<open>collectMetrics\<close> and \<open>collectMemStats\<close> run.\<close>

subsection \<open>Options\<close>

type_synonym 'c MonitorOption = "'c MonitoredCache \<Rightarrow> 'c MonitoredCache"

definition WithMetricsServer :: "string \<Rightarrow> 'c MonitorOption" where
  "WithMetricsServer addr mc = mc\<lparr>mon_server := Some (NewServer (Some (DefaultMetricsConfig\<lparr>mcf_Address := addr\<rparr>)))\<rparr>"

definition WithMetricsPath :: "string \<Rightarrow> 'c MonitorOption" where
  "WithMetricsPath path mc = (case mon_server mc of
     Some s \<Rightarrow> mc\<lparr>mon_server := Some (s\<lparr>ms_config := (ms_config s)\<lparr>mcf_MetricsPath := path\<rparr>\<rparr>)\<rparr>
   | None \<Rightarrow> mc\<lparr>mon_server := Some (NewServer (Some (DefaultMetricsConfig\<lparr>mcf_MetricsPath := path\<rparr>)))\<rparr>)"

definition WithCollectInterval :: "duration \<Rightarrow> 'c MonitorOption" where
  "WithCollectInterval interval mc = (if interval > 0 then mc\<lparr>mon_collectInterval := interval\<rparr> else mc)"

definition WithMemoryUpdateInterval :: "duration \<Rightarrow> 'c MonitorOption" where
  "WithMemoryUpdateInterval interval mc = (if interval > 0 then mc\<lparr>mon_memoryUpdateInterval := interval\<rparr> else mc)"

definition WithNamespace :: "string \<Rightarrow> 'c MonitorOption" where
  "WithNamespace namespace mc = (if namespace \<noteq> '''' then mc\<lparr>mon_namespace := namespace\<rparr> else mc)"

definition WithSubsystem :: "string \<Rightarrow> 'c MonitorOption" where
  "WithSubsystem subsystem mc = (if subsystem \<noteq> '''' then mc\<lparr>mon_subsystem := subsystem\<rparr> else mc)"

definition WithEnableMemStats :: "bool \<Rightarrow> 'c MonitorOption" where
  "WithEnableMemStats enable mc = mc\<lparr>mon_enableMemStats := enable\<rparr>"

definition WithLabels :: "string gomap \<Rightarrow> 'c MonitorOption" where
  "WithLabels labels mc = mc\<lparr>mon_labels := mon_labels mc ++ map_of labels\<rparr>"

lemmas monitor_option_defs = WithMetricsServer_def WithMetricsPath_def WithCollectInterval_def
  WithMemoryUpdateInterval_def WithNamespace_def WithSubsystem_def WithEnableMemStats_def WithLabels_def

subsection \<open>Creation, stopping and the goroutines\<close>

definition default_monitored :: "'c \<Rightarrow> 'c MonitoredCache" where
  "default_monitored originalCache = (let config = DefaultMetricsConfig in
     \<lparr>mon_cache = originalCache, mon_collector = NewPrometheusCollector (Some config),
      mon_server = Some (NewServer (Some config)),
      mon_namespace = mcf_Namespace config, mon_subsystem = mcf_Subsystem config,
      mon_collectInterval = mcf_CollectInterval config, mon_memoryUpdateInterval = mcf_MemStatsInterval config,
      mon_enableMemStats = mcf_EnableMemStats config, mon_stopped = False, mon_labels = Map.empty,
      mon_running = False, mon_collecting = False, mon_memstats = False\<rparr>)"

definition NewMonitoredCache :: "'c \<Rightarrow> 'c MonitorOption list \<Rightarrow> 'c MonitoredCache option" where
  "NewMonitoredCache originalCache options = (
     let mc = fold (\<lambda>opt. opt) options (default_monitored originalCache);
         mc = mc\<lparr>mon_collecting := True\<rparr>;
         mc = (if mon_enableMemStats mc then mc\<lparr>mon_memstats := True\<rparr> else mc)
     in do {
       mc \<leftarrow> (case mon_server mc of
          None \<Rightarrow> Some mc
        | Some s \<Rightarrow> do { s \<leftarrow> Server_Start s; Some (mc\<lparr>mon_server := Some s\<rparr>) });
       Some (mc\<lparr>mon_running := True\<rparr>) })"

definition Mon_Stop :: "gerror option \<Rightarrow> 'c MonitoredCache \<Rightarrow> ((gerror + unit) \<times> 'c MonitoredCache) option" where
  "Mon_Stop shutdown mc = (if \<not> mon_running mc then Some (Inr (), mc)
     else let (r, mc) = (case mon_server mc of
          Some s \<Rightarrow> if ms_running s then (let (r, s) = Server_Stop shutdown s in (r, mc\<lparr>mon_server := Some s\<rparr>)) else (Inr (), mc)
        | None \<Rightarrow> (Inr (), mc)) in
     (case r of
        Inl e \<Rightarrow> Some (Inl e, mc)
      | Inr _ \<Rightarrow> if mon_stopped mc then None
          else Some (Inr (), mc\<lparr>mon_stopped := True, mon_running := False\<rparr>)))"

text \<open>The wrapped cache may offer \<open>Count\<close>; the caches of the program do not.\<close>

definition getItemCount :: "('c \<Rightarrow> int) option \<Rightarrow> 'c MonitoredCache \<Rightarrow> int" where
  "getItemCount counter mc = (case counter of Some f \<Rightarrow> f (mon_cache mc) | None \<Rightarrow> 0)"

definition collectMetrics :: "bool \<Rightarrow> ('c \<Rightarrow> int) option \<Rightarrow> 'c MonitoredCache \<Rightarrow> 'c MonitoredCache option" where
  "collectMetrics tick counter mc = (if \<not> mon_collecting mc then None
     else if tick then Some (mc\<lparr>mon_collector := SetItemCount (getItemCount counter mc) (mon_collector mc)\<rparr>)
     else if mon_stopped mc then Some (mc\<lparr>mon_collecting := False\<rparr>) else None)"

definition collectMemStatsOnce :: "u64 \<Rightarrow> 'c MonitoredCache \<Rightarrow> 'c MonitoredCache" where
  "collectMemStatsOnce alloc mc = mc\<lparr>mon_collector := SetMemoryUsage (sint alloc) (mon_collector mc)\<rparr>"

definition collectMemStats :: "u64 option \<Rightarrow> 'c MonitoredCache \<Rightarrow> 'c MonitoredCache option" where
  "collectMemStats tick mc = (if \<not> mon_memstats mc then None
     else case tick of
       Some alloc \<Rightarrow> Some (collectMemStatsOnce alloc mc)
     | None \<Rightarrow> if mon_stopped mc then Some (mc\<lparr>mon_memstats := False\<rparr>) else None)"

subsection \<open>Cache operations\<close>

definition Mon_Get :: "('c, 'v) cache_get \<Rightarrow> duration \<Rightarrow> ('c MonitoredCache, 'v) cache_get" where
  "Mon_Get get elapsed now k mc = do {
     (r, c) \<leftarrow> get now k (mon_cache mc);
     let pc = ObserveLatency ''get'' elapsed (IncRequests ''get'' (mon_collector mc));
     let pc = (case r of Inr _ \<Rightarrow> IncHits pc
        | Inl e \<Rightarrow> if e = ErrKeyNotFound then IncMisses pc else pc);
     Some (r, mc\<lparr>mon_cache := c, mon_collector := pc\<rparr>) }"

definition Mon_Set :: "('c, 'v) cache_put \<Rightarrow> duration \<Rightarrow> ('c MonitoredCache, 'v) cache_put" where
  "Mon_Set put elapsed now k v e mc = do {
     (r, c) \<leftarrow> put now k v e (mon_cache mc);
     let pc = ObserveLatency ''set'' elapsed (IncRequests ''set'' (mon_collector mc));
     Some (r, mc\<lparr>mon_cache := c, mon_collector := pc\<rparr>) }"

definition Mon_Del :: "'c cache_del \<Rightarrow> duration \<Rightarrow> 'c MonitoredCache cache_del" where
  "Mon_Del del elapsed k mc = do {
     (r, c) \<leftarrow> del k (mon_cache mc);
     let pc = ObserveLatency ''del'' elapsed (IncRequests ''del'' (mon_collector mc));
     Some (r, mc\<lparr>mon_cache := c, mon_collector := pc\<rparr>) }"

definition Mon_HitRate :: "'c MonitoredCache \<Rightarrow> rat" where
  "Mon_HitRate mc = Collector_HitRate (mon_collector mc)"

section \<open>What the monitored cache answers and reports\<close>

text \<open>The life of a monitored cache: cache operations with the time they take, the goroutines' choices and
  \<open>Stop\<close>, at rising instants. A choice that a goroutine cannot make changes nothing.\<close>

datatype 'v mon_event = MonOp duration "'v cache_op" | MonTick bool | MonMem "u64 option" | MonStop "gerror option"

fun mon_op :: "('c, 'v) cache_get \<Rightarrow> ('c, 'v) cache_put \<Rightarrow> 'c cache_del \<Rightarrow> instant \<Rightarrow> duration \<Rightarrow> 'v cache_op
    \<Rightarrow> 'c MonitoredCache \<Rightarrow> ((gerror + 'v) option \<times> 'c MonitoredCache) option" where
  "mon_op get put del now d (OpGet k) mc = do { (r, mc') \<leftarrow> Mon_Get get d now k mc; Some (Some r, mc') }"
| "mon_op get put del now d (OpSet k v e) mc = do { (r, mc') \<leftarrow> Mon_Set put d now k v e mc; Some (None, mc') }"
| "mon_op get put del now d (OpDel k) mc = do { (r, mc') \<leftarrow> Mon_Del del d k mc; Some (None, mc') }"

fun mon_run :: "('c, 'v) cache_get \<Rightarrow> ('c, 'v) cache_put \<Rightarrow> 'c cache_del \<Rightarrow> (instant \<times> 'v mon_event) list
    \<Rightarrow> 'c MonitoredCache \<Rightarrow> ((gerror + 'v) option list \<times> 'c MonitoredCache) option" where
  "mon_run get put del [] mc = Some ([], mc)"
| "mon_run get put del ((now, MonOp d q) # es) mc = do {
     (r, mc) \<leftarrow> mon_op get put del now d q mc; (rs, mc) \<leftarrow> mon_run get put del es mc; Some (r # rs, mc) }"
| "mon_run get put del ((now, MonTick tick) # es) mc =
     mon_run get put del es (case collectMetrics tick None mc of None \<Rightarrow> mc | Some mc' \<Rightarrow> mc')"
| "mon_run get put del ((now, MonMem tick) # es) mc =
     mon_run get put del es (case collectMemStats tick mc of None \<Rightarrow> mc | Some mc' \<Rightarrow> mc')"
| "mon_run get put del ((now, MonStop shutdown) # es) mc = do {
     (r, mc) \<leftarrow> Mon_Stop shutdown mc; mon_run get put del es mc }"

fun mon_ops :: "(instant \<times> 'v mon_event) list \<Rightarrow> (instant \<times> duration \<times> 'v cache_op) list" where
  "mon_ops [] = []"
| "mon_ops ((now, MonOp d q) # es) = (now, d, q) # mon_ops es"
| "mon_ops (_ # es) = mon_ops es"

definition untimed :: "instant \<times> duration \<times> 'v cache_op \<Rightarrow> instant \<times> 'v cache_op" where
  "untimed p = (fst p, snd (snd p))"

text \<open>The calls that report an operation that took \<open>d\<close> and gave \<open>r\<close>: one request, one observation, and a
  hit or a miss for a read.\<close>

fun op_name :: "'v cache_op \<Rightarrow> string" where
  "op_name (OpGet _) = ''get''"
| "op_name (OpSet _ _ _) = ''set''"
| "op_name (OpDel _) = ''del''"

fun outcome_calls :: "PrometheusCollector \<Rightarrow> (gerror + 'v) option \<Rightarrow> prom_call list" where
  "outcome_calls pc (Some (Inr v)) = [CounterInc (pc_hitCounter pc) []]"
| "outcome_calls pc (Some (Inl e)) = (if e = ErrKeyNotFound then [CounterInc (pc_missCounter pc) []] else [])"
| "outcome_calls pc None = []"

definition op_calls :: "PrometheusCollector \<Rightarrow> instant \<times> duration \<times> 'v cache_op \<Rightarrow> (gerror + 'v) option \<Rightarrow> prom_call list" where
  "op_calls pc p r = [CounterInc (pc_requestCounter pc) [op_name (snd (snd p))],
     HistogramObserve (pc_latencyHistogram pc) [op_name (snd (snd p))] (Seconds (fst (snd p)))] @ outcome_calls pc r"

fun is_gauge :: "prom_call \<Rightarrow> bool" where
  "is_gauge (GaugeSet _ _) = True"
| "is_gauge _ = False"

definition reports :: "'c MonitoredCache \<Rightarrow> prom_call list" where
  "reports mc = filter (\<lambda>c. \<not> is_gauge c) (pc_calls (mon_collector mc))"

fun hit_of :: "(gerror + 'v) option \<Rightarrow> nat" where
  "hit_of (Some (Inr v)) = 1"
| "hit_of _ = 0"

fun miss_of :: "(gerror + 'v) option \<Rightarrow> nat" where
  "miss_of (Some (Inl ErrKeyNotFound)) = 1"
| "miss_of _ = 0"

text \<open>What a monitored cache keeps of its collector \<open>pc\<close> while it has counted \<open>h\<close> hits and \<open>n\<close> misses: the
  metrics stay those registered at creation, and the stop channel is open while it runs.\<close>

definition counted :: "PrometheusCollector \<Rightarrow> nat \<Rightarrow> nat \<Rightarrow> 'c MonitoredCache \<Rightarrow> bool" where
  "counted pc h n mc \<longleftrightarrow> (let c = mon_collector mc in
     c\<lparr>pc_hitCount := 0, pc_missCount := 0, pc_calls := []\<rparr> = pc\<lparr>pc_hitCount := 0, pc_missCount := 0, pc_calls := []\<rparr>
     \<and> pc_hitCount c = of_nat h \<and> pc_missCount c = of_nat n)
   \<and> (mon_running mc \<longrightarrow> \<not> mon_stopped mc)"

lemma counted_metrics:
  assumes "counted pc h n mc"
  shows "pc_hitCounter (mon_collector mc) = pc_hitCounter pc" "pc_missCounter (mon_collector mc) = pc_missCounter pc"
    "pc_requestCounter (mon_collector mc) = pc_requestCounter pc" "pc_latencyHistogram (mon_collector mc) = pc_latencyHistogram pc"
proof -
  from assms have eq: "(mon_collector mc)\<lparr>pc_hitCount := 0, pc_missCount := 0, pc_calls := []\<rparr>
      = pc\<lparr>pc_hitCount := 0, pc_missCount := 0, pc_calls := []\<rparr>"
    by (simp add: counted_def Let_def)
  show "pc_hitCounter (mon_collector mc) = pc_hitCounter pc" using arg_cong [OF eq, of pc_hitCounter] by simp
  show "pc_missCounter (mon_collector mc) = pc_missCounter pc" using arg_cong [OF eq, of pc_missCounter] by simp
  show "pc_requestCounter (mon_collector mc) = pc_requestCounter pc" using arg_cong [OF eq, of pc_requestCounter] by simp
  show "pc_latencyHistogram (mon_collector mc) = pc_latencyHistogram pc" using arg_cong [OF eq, of pc_latencyHistogram] by simp
qed

text \<open>The goroutines and \<open>Stop\<close> touch neither the cache nor the counts; \<open>Stop\<close> returns.\<close>

lemma collectMetrics_frame:
  "collectMetrics tick counter mc = Some mc' \<Longrightarrow>
     mon_cache mc' = mon_cache mc \<and> reports mc' = reports mc \<and> (counted pc h n mc \<longrightarrow> counted pc h n mc')"
  by (auto simp: collectMetrics_def counted_def reports_def collector_defs Let_def split: if_splits)

lemma collectMemStats_frame:
  "collectMemStats tick mc = Some mc' \<Longrightarrow>
     mon_cache mc' = mon_cache mc \<and> reports mc' = reports mc \<and> (counted pc h n mc \<longrightarrow> counted pc h n mc')"
  by (auto simp: collectMemStats_def collectMemStatsOnce_def counted_def reports_def collector_defs Let_def
      split: if_splits option.splits)

lemma Mon_Stop_frame:
  assumes "counted pc h n mc"
  shows "\<exists>r mc'. Mon_Stop shutdown mc = Some (r, mc') \<and> mon_cache mc' = mon_cache mc \<and> reports mc' = reports mc
    \<and> counted pc h n mc'"
  using assms
  by (auto simp: Mon_Stop_def Server_Stop_def counted_def reports_def Let_def split: if_splits option.splits sum.splits)

locale monitored = ttl_cache rep get put del
  for rep :: "'c \<Rightarrow> 'v ttl_map \<Rightarrow> bool" and get put del
begin

lemma mon_op_law:
  assumes "rep (mon_cache mc) m" "counted pc h n mc"
  shows "\<exists>r mc' m'. mon_op get put del now d q mc = Some (r, mc') \<and> r = fst (spec_step (now, q) m)
    \<and> rep (mon_cache mc') m' \<and> same_from now (snd (spec_step (now, q) m)) m'
    \<and> reports mc' = reports mc @ op_calls pc (now, d, q) r
    \<and> counted pc (h + hit_of r) (n + miss_of r) mc'"
proof (cases q)
  case (OpGet k)
  obtain c' m' where 1: "get now k (mon_cache mc) = Some (get_result (live now m k), c')" "rep c' m'" "purges now m m'"
    using get_law [OF assms(1)] by blast
  show ?thesis
    by (rule exI [of _ "Some (get_result (live now m k))"], cases "live now m k")
      (use assms(2) 1 OpGet purges_same_from [OF 1(3)] counted_metrics [OF assms(2)] in \<open>auto simp: Mon_Get_def reports_def
         op_calls_def collector_defs counted_def Let_def\<close>)
next
  case (OpSet k v e)
  obtain c' where "put now k v e (mon_cache mc) = Some (Inr (), c')" "rep c' (m(k \<mapsto> (v, now + e)))"
    using put_law [OF assms(1)] by blast
  with assms(2) OpSet counted_metrics [OF assms(2)] show ?thesis
    by (auto simp: Mon_Set_def reports_def op_calls_def collector_defs counted_def Let_def
        intro!: exI [of _ "m(k \<mapsto> (v, now + e))"])
next
  case (OpDel k)
  obtain c' where "del k (mon_cache mc) = Some (Inr (), c')" "rep c' (m(k := None))"
    using del_law [OF assms(1)] by blast
  with assms(2) OpDel counted_metrics [OF assms(2)] show ?thesis
    by (auto simp: Mon_Del_def reports_def op_calls_def collector_defs counted_def Let_def
        intro!: exI [of _ "m(k := None)"])
qed

end

lemma spec_step_same:
  assumes "same_from now m m'"
  shows "fst (spec_step (now, q) m) = fst (spec_step (now, q) m')"
    and "same_from now (snd (spec_step (now, q) m)) (snd (spec_step (now, q) m'))"
  using assms same_from_live [OF assms] by (cases q; simp add: same_from_upd)+

text \<open>A monitored cache is a cache again, whatever its operations take: \<open>lat\<close> says how long.\<close>

locale monitored_lat = monitored rep get put del
  for rep :: "'c \<Rightarrow> 'v ttl_map \<Rightarrow> bool" and get put del +
  fixes lat :: "instant \<Rightarrow> duration" and del_lat :: duration

sublocale monitored_lat \<subseteq> mon: ttl_cache "\<lambda>mc m. rep (mon_cache mc) m"
  "\<lambda>now. Mon_Get get (lat now) now" "\<lambda>now. Mon_Set put (lat now) now" "Mon_Del del del_lat"
proof
  fix mc :: "'c MonitoredCache" and m now k
  assume rep: "rep (mon_cache mc) m"
  obtain c' m' where "get now k (mon_cache mc) = Some (get_result (live now m k), c')" "rep c' m'" "purges now m m'"
    using get_law [OF rep] by blast
  then show "\<exists>mc' m'. Mon_Get get (lat now) now k mc = Some (get_result (live now m k), mc')
      \<and> rep (mon_cache mc') m' \<and> purges now m m'"
    by (auto simp: Mon_Get_def Let_def)
next
  fix mc :: "'c MonitoredCache" and m now k v e
  assume "rep (mon_cache mc) m"
  from put_law [OF this, of now k v e]
  show "\<exists>mc'. Mon_Set put (lat now) now k v e mc = Some (Inr (), mc') \<and> rep (mon_cache mc') (m(k \<mapsto> (v, now + e)))"
    by (auto simp: Mon_Set_def)
next
  fix mc :: "'c MonitoredCache" and m k
  assume "rep (mon_cache mc) m"
  from del_law [OF this, of k]
  show "\<exists>mc'. Mon_Del del del_lat k mc = Some (Inr (), mc') \<and> rep (mon_cache mc') (m(k := None))"
    by (auto simp: Mon_Del_def)
qed

context monitored
begin

lemma mon_run_refines:
  assumes "rep (mon_cache mc) m" "same_from now m m'" "sorted (now # map fst es)" "counted pc h n mc"
  defines "ops \<equiv> mon_ops es"
  defines "rs \<equiv> spec_run (map untimed ops) m'"
  shows "\<exists>mc'. mon_run get put del es mc = Some (rs, mc')
    \<and> reports mc' = reports mc @ concat (map2 (op_calls pc) ops rs)
    \<and> counted pc (h + sum_list (map hit_of rs)) (n + sum_list (map miss_of rs)) mc'"
  using assms(1-4) unfolding ops_def rs_def
proof (induction es arbitrary: mc m m' now h n)
  case (Cons p es)
  obtain t q where p: "p = (t, q)" by force
  with Cons.prems have t: "now \<le> t" "sorted (t # map fst es)" by auto
  note sf = same_from_later [OF Cons.prems(2) t(1)]
  note same = Cons.IH [OF _ sf t(2)]
  show ?case
  proof (cases q)
    case (MonOp d q')
    obtain r mc1 m1 where 1: "mon_op get put del t d q' mc = Some (r, mc1)" "r = fst (spec_step (t, q') m)"
      "rep (mon_cache mc1) m1" "same_from t (snd (spec_step (t, q') m)) m1"
      "reports mc1 = reports mc @ op_calls pc (t, d, q') r" "counted pc (h + hit_of r) (n + miss_of r) mc1"
      using mon_op_law [OF Cons.prems(1,4)] by blast
    have "same_from t m1 (snd (spec_step (t, q') m'))"
      using same_from_trans [OF same_from_sym [OF 1(4)] spec_step_same(2) [OF sf]] .
    from Cons.IH [OF 1(3) this t(2) 1(6)] 1(1,2,5) spec_step_same(1) [OF sf, of q'] show ?thesis
      by (auto simp: p MonOp untimed_def add.assoc)
  next
    case (MonTick tick)
    obtain mc1 where mc1: "mc1 = (case collectMetrics tick None mc of None \<Rightarrow> mc | Some mc' \<Rightarrow> mc')" by simp
    then have "mon_cache mc1 = mon_cache mc" "reports mc1 = reports mc" "counted pc h n mc1"
      using Cons.prems(4) collectMetrics_frame [of tick None mc mc1 pc h n] by (auto split: option.splits)
    with same [of mc1] Cons.prems(1) mc1 show ?thesis by (auto simp: p MonTick)
  next
    case (MonMem tick)
    obtain mc1 where mc1: "mc1 = (case collectMemStats tick mc of None \<Rightarrow> mc | Some mc' \<Rightarrow> mc')" by simp
    then have "mon_cache mc1 = mon_cache mc" "reports mc1 = reports mc" "counted pc h n mc1"
      using Cons.prems(4) collectMemStats_frame [of tick mc mc1 pc h n] by (auto split: option.splits)
    with same [of mc1] Cons.prems(1) mc1 show ?thesis by (auto simp: p MonMem)
  next
    case (MonStop shutdown)
    obtain r mc1 where "Mon_Stop shutdown mc = Some (r, mc1)" "mon_cache mc1 = mon_cache mc"
      "reports mc1 = reports mc" "counted pc h n mc1"
      using Mon_Stop_frame [OF Cons.prems(4)] by blast
    with same [of mc1] Cons.prems(1) show ?thesis by (auto simp: p MonStop)
  qed
qed simp

end

interpretation mmon: monitored mem_rep MemCache_Get MemCache_Set MemCache_Del
  by unfold_locales

interpretation mlat: monitored_lat mem_rep MemCache_Get MemCache_Set MemCache_Del lat del_lat
  for lat del_lat
  by unfold_locales

text \<open>The options of the package.\<close>

definition monitor_options :: "'c MonitorOption set" where
  "monitor_options = range WithMetricsServer \<union> range WithMetricsPath \<union> range WithCollectInterval
     \<union> range WithMemoryUpdateInterval \<union> range WithNamespace \<union> range WithSubsystem
     \<union> range WithEnableMemStats \<union> range WithLabels"

lemma monitor_option_frame:
  assumes "opt \<in> monitor_options"
  shows "mon_cache (opt mc) = mon_cache mc" "mon_collector (opt mc) = mon_collector mc"
    "mon_stopped (opt mc) = mon_stopped mc"
  using assms by (auto simp: monitor_options_def monitor_option_defs split: option.splits if_splits)

lemma monitor_options_frame:
  assumes "set options \<subseteq> monitor_options"
  shows "mon_cache (fold (\<lambda>opt. opt) options mc) = mon_cache mc
    \<and> mon_collector (fold (\<lambda>opt. opt) options mc) = mon_collector mc
    \<and> mon_stopped (fold (\<lambda>opt. opt) options mc) = mon_stopped mc"
  using assms by (induction options arbitrary: mc) (auto simp: monitor_option_frame)

lemma NewMonitoredCache_collector:
  assumes "NewMonitoredCache c options = Some mc" "set options \<subseteq> monitor_options"
  shows "mon_cache mc = c" "mon_collector mc = NewPrometheusCollector None" "\<not> mon_stopped mc"
proof -
  have d: "mon_cache (default_monitored c) = c" "\<not> mon_stopped (default_monitored c)"
    "mon_collector (default_monitored c) = NewPrometheusCollector None"
    by (simp_all add: default_monitored_def NewPrometheusCollector_def Let_def)
  show "mon_cache mc = c" "mon_collector mc = NewPrometheusCollector None" "\<not> mon_stopped mc"
    using assms(1) monitor_options_frame [OF assms(2), of "default_monitored c"] d
    by (auto simp: NewMonitoredCache_def Let_def split: option.splits if_splits bind_splits)
qed

lemma hits_misses_le: "sum_list (map hit_of rs) + sum_list (map miss_of rs) \<le> length rs"
proof (induction rs)
  case (Cons r rs)
  have "hit_of r + miss_of r \<le> 1" by (cases r rule: miss_of.cases) auto
  with Cons show ?case by simp
qed simp

lemma length_mon_ops: "length (mon_ops es) \<le> length es"
  by (induction es rule: mon_ops.induct) auto

lemma length_spec_run [simp]: "length (spec_run ops m) = length ops"
  by (induction ops arbitrary: m) auto

lemma counted_HitRate:
  assumes "counted pc h n mc" "h + n < 2 ^ 64"
  shows "unat (pc_hitCount (mon_collector mc)) = h" "unat (pc_missCount (mon_collector mc)) = n"
    and "Mon_HitRate mc = (if h + n = 0 then 0 else of_nat h / of_nat (h + n))"
proof -
  from assms(1) have w: "pc_hitCount (mon_collector mc) = of_nat h" "pc_missCount (mon_collector mc) = of_nat n"
    by (simp_all add: counted_def Let_def)
  have u: "unat (of_nat k :: u64) = k" if "k \<le> h + n" for k
    using that assms(2) by (simp add: unat_of_nat take_bit_nat_eq_self)
  have s: "pc_hitCount (mon_collector mc) + pc_missCount (mon_collector mc) = of_nat (h + n)"
    by (simp add: w)
  show "unat (pc_hitCount (mon_collector mc)) = h" "unat (pc_missCount (mon_collector mc)) = n"
    by (simp_all only: w) (simp_all add: u)
  have "(of_nat (h + n) :: u64) = 0 \<longleftrightarrow> unat (of_nat (h + n) :: u64) = 0" by (rule unat_eq_zero [symmetric])
  then have z: "(of_nat (h + n) :: u64) = 0 \<longleftrightarrow> h + n = 0" unfolding u [OF order_refl] .
  show "Mon_HitRate mc = (if h + n = 0 then 0 else of_nat h / of_nat (h + n))"
    unfolding Mon_HitRate_def Collector_HitRate_def s Let_def
    unfolding z u [OF order_refl] w(1) u [OF le_add1] ..
qed

text \<open>C33. The monitored memory cache, created with any options of the package, through any sequence of reads, writes
  and deletions at rising times, ticks of its goroutines and calls of \<open>Stop\<close>: it never panics and answers as the
  abstract map with expiration times does, so monitoring changes no answer; each operation is reported by exactly one
  request and one latency observation and each read by one hit or one miss; the two counters are the numbers of hits
  and misses among the answers, and \<open>HitRate\<close> is their quotient.\<close>

theorem monitored_run_correct:
  assumes "NewMonitoredCache (NewMemoryCache numCPU rnd [], u) options = Some mc" "set options \<subseteq> monitor_options"
    and "sorted (now # map fst es)" "length es < 2 ^ 64"
  shows "let ops = mon_ops es; rs = spec_run (map untimed ops) Map.empty;
      h = sum_list (map hit_of rs); n = sum_list (map miss_of rs) in
    \<exists>mc'. mon_run MemCache_Get MemCache_Set MemCache_Del es mc = Some (rs, mc')
      \<and> reports mc' = reports mc @ concat (map2 (op_calls (NewPrometheusCollector None)) ops rs)
      \<and> unat (pc_hitCount (mon_collector mc')) = h \<and> unat (pc_missCount (mon_collector mc')) = n
      \<and> Mon_HitRate mc' = (if h + n = 0 then 0 else of_nat h / of_nat (h + n))"
proof -
  let ?pc = "NewPrometheusCollector None"
  let ?rs = "spec_run (map untimed (mon_ops es)) Map.empty"
  note new = NewMonitoredCache_collector [OF assms(1,2)]
  have "mem_rep (mon_cache mc) Map.empty"
    unfolding new(1) by (rule mem_rep_new) (simp add: default_cache_def DefaultShardCount_def)
  moreover have "counted ?pc 0 0 mc"
    using new(2,3) by (simp add: counted_def Let_def NewPrometheusCollector_def)
  ultimately obtain mc' where mc': "mon_run MemCache_Get MemCache_Set MemCache_Del es mc = Some (?rs, mc')"
    "reports mc' = reports mc @ concat (map2 (op_calls ?pc) (mon_ops es) ?rs)"
    "counted ?pc (sum_list (map hit_of ?rs)) (sum_list (map miss_of ?rs)) mc'"
    using mmon.mon_run_refines [OF _ same_from_refl assms(3)] by fastforce
  have "sum_list (map hit_of ?rs) + sum_list (map miss_of ?rs) < 2 ^ 64"
    using hits_misses_le [of ?rs] length_mon_ops [of es] assms(4) by simp
  with mc' counted_HitRate [OF mc'(3)] show ?thesis by (auto simp: Let_def)
qed

definition small_monitored :: "((int, unit) MemoryCache \<times> unit) MonitoredCache" where
  "small_monitored = the (NewMonitoredCache (NewMemoryCache 4 (\<lambda>_ _. False) [], ())
     [WithNamespace ''shop'', WithMetricsPath ''/m''])"

lemma small_routes: "HandleFunc ''/m'' [] = Some [''/m'']" "HandleFunc ''/health'' [''/m''] = Some [''/m'', ''/health'']"
  by code_simp+

theorem monitored_run_correct_witness:
  "\<exists>mc'. mon_run MemCache_Get MemCache_Set MemCache_Del
      [(1, MonOp 5 (OpSet ''k'' 7 10)), (5, MonOp 3 (OpGet ''k'')), (6, MonTick True), (7, MonStop None),
       (20, MonOp 2 (OpGet ''k''))] small_monitored
    = Some ([None, Some (Inr 7), Some (Inl ErrKeyNotFound)], mc') \<and> Mon_HitRate mc' = 1 / 2"
proof -
  have "NewMonitoredCache (NewMemoryCache 4 (\<lambda>_ _. False) [], ()) [WithNamespace ''shop'', WithMetricsPath ''/m'']
      = Some small_monitored"
    by (simp add: small_monitored_def NewMonitoredCache_def Let_def default_monitored_def monitor_option_defs
        DefaultMetricsConfig_def NewServer_def Server_Start_def small_routes)
  moreover have "set [WithNamespace ''shop'', WithMetricsPath ''/m''] \<subseteq> monitor_options"
    by (auto simp: monitor_options_def)
  ultimately show ?thesis
    using monitored_run_correct [of 4 "\<lambda>_ _. False" "()" "[WithNamespace ''shop'', WithMetricsPath ''/m'']" small_monitored 0
      "[(1, MonOp 5 (OpSet ''k'' 7 10)), (5, MonOp 3 (OpGet ''k'')), (6, MonTick True), (7, MonStop None),
       (20, MonOp 2 (OpGet ''k''))]"]
    by (auto simp: Let_def untimed_def live_def)
qed

text \<open>The namespace and the subsystem given as options reach no metric: the collector registers its metrics before
  the options are applied.\<close>

lemma namespace_option_ignored:
  assumes "NewMonitoredCache c options = Some mc" "set options \<subseteq> monitor_options"
  shows "\<forall>call\<in>set (pc_calls (mon_collector mc)). \<exists>metric. call = MustRegister metric \<and> pm_Namespace metric = ''fyercache''
    \<and> pm_Subsystem metric = ''cache''"
  using NewMonitoredCache_collector [OF assms] by (simp add: NewPrometheusCollector_def DefaultMetricsConfig_def Let_def)

text \<open>A \<open>Stop\<close> whose shutdown fails leaves the cache running, and a later one completes; a completed one makes
  every further one do nothing.\<close>

lemma Mon_Stop_done: "\<not> mon_running mc \<Longrightarrow> Mon_Stop shutdown mc = Some (Inr (), mc)"
  by (simp add: Mon_Stop_def)

lemma Mon_Stop_Inr: "Mon_Stop shutdown mc = Some (Inr (), mc') \<Longrightarrow> \<not> mon_running mc'"
  by (auto simp: Mon_Stop_def Let_def case_prod_unfold split: if_splits sum.splits)

lemma Mon_Stop_None:
  assumes "Mon_Stop None mc = Some (r, mc')"
  shows "r = Inr ()"
  using assms by (auto simp: Mon_Stop_def Server_Stop_def Let_def split: if_splits option.splits)

lemma Mon_Stop_twice:
  assumes "counted pc h n mc" "Mon_Stop e1 mc = Some (r1, mc1)"
  shows "r1 = Inr () \<Longrightarrow> Mon_Stop e2 mc1 = Some (Inr (), mc1)"
    and "\<exists>mc2. Mon_Stop None mc1 = Some (Inr (), mc2) \<and> \<not> mon_running mc2"
  using Mon_Stop_frame [OF assms(1), of e1] Mon_Stop_frame [of pc h n mc1 None] assms(2)
    Mon_Stop_done Mon_Stop_Inr Mon_Stop_None by fastforce+

end
