(* ===== verification/Json.thy ===== *)
theory Json
  imports ConstHash
begin

text \<open>
  The part of Go's \<^verbatim>\<open>encoding/json\<close> that the program uses: strings are byte strings, quoted with the escapes of
  the encoder and read with those of the decoder, bytes that are no UTF-8 becoming U+FFFD on both sides; a document is cut into
  tokens and read by a machine with a stack of open arrays and objects, as the scanner of the library does, which
  refuses more than 10000 open ones. Reading what was written gives the same value with
  its strings made valid. Also here: the numbers of \<^verbatim>\<open>strconv\<close> and base64, by which a \<open>[]byte\<close> is encoded.
\<close>

section \<open>Numbers\<close>

text \<open>\<open>strconv.Atoi\<close>, \<open>strconv.ParseUint\<close> in base ten and the verb \<open>%d\<close> of \<open>fmt.Sprintf\<close>.\<close>

fun atoi_digits :: "nat \<Rightarrow> string \<Rightarrow> nat option" where
  "atoi_digits acc [] = Some acc"
| "atoi_digits acc (c # cs) = (let d = of_char c in
     if 48 \<le> d \<and> d \<le> 57 then atoi_digits (acc * 10 + (d - 48)) cs else None)"

definition atoi_unsigned :: "string \<Rightarrow> int option" where
  "atoi_unsigned s = (if s = '''' then None else map_option int (atoi_digits 0 s))"

definition Atoi :: "string \<Rightarrow> int option" where
  "Atoi s = do {
     n \<leftarrow> (case s of [] \<Rightarrow> None
       | c # cs \<Rightarrow> if c = CHR ''-'' then map_option uminus (atoi_unsigned cs)
           else if c = CHR ''+'' then atoi_unsigned cs else atoi_unsigned s);
     if - (2 ^ 63) \<le> n \<and> n < 2 ^ 63 then Some n else None }"

definition ParseUint :: "string \<Rightarrow> u64 option" where
  "ParseUint s = do { n \<leftarrow> atoi_unsigned s; if n < 2 ^ 64 then Some (word_of_int n) else None }"

definition sprintd :: "int \<Rightarrow> string" where
  "sprintd i = (if i < 0 then CHR ''-'' # itoa (nat (- i)) else itoa (nat i))"

lemma atoi_digits_append: "atoi_digits acc (xs @ ys) = Option.bind (atoi_digits acc xs) (\<lambda>a. atoi_digits a ys)"
  by (induction xs arbitrary: acc) (auto simp: Let_def)

lemma atoi_digits_itoa: "atoi_digits 0 (itoa n) = Some n"
proof (induction n rule: itoa.induct)
  case (1 n)
  show ?case
  proof (cases "n < 10")
    case True
    then show ?thesis by (subst itoa.simps) simp
  next
    case False
    with 1 show ?thesis by (subst itoa.simps) (simp add: atoi_digits_append)
  qed
qed

lemma itoa_hd: "\<exists>c cs. itoa n = c # cs \<and> 48 \<le> (of_char c :: nat)"
proof (induction n rule: itoa.induct)
  case (1 n)
  then show ?case by (subst itoa.simps) (cases "n < 10", auto)
qed

lemma atoi_unsigned_itoa: "atoi_unsigned (itoa n) = Some (int n)"
  using itoa_hd [of n] by (auto simp: atoi_unsigned_def atoi_digits_itoa)

lemma Atoi_sprintd:
  assumes "- (2 ^ 63) \<le> i" "i < 2 ^ 63"
  shows "Atoi (sprintd i) = Some i"
proof -
  obtain c cs where c: "itoa (nat i) = c # cs" "48 \<le> (of_char c :: nat)" using itoa_hd by blast
  then have "c \<noteq> CHR ''-''" "c \<noteq> CHR ''+''" by auto
  with c(1) atoi_unsigned_itoa [of "nat i"] atoi_unsigned_itoa [of "nat (- i)"] assms show ?thesis by (auto simp: Atoi_def sprintd_def)
qed

lemma ParseUint_itoa: "ParseUint (itoa (unat w)) = Some (w :: u64)"
proof -
  have "uint w < 2 ^ 64" using unsigned_less [of w] by simp
  then show ?thesis by (simp add: ParseUint_def atoi_unsigned_itoa)
qed

section \<open>UTF-8\<close>

abbreviation byte :: "char \<Rightarrow> nat" where
  "byte \<equiv> of_char"

definition cont_byte :: "char \<Rightarrow> bool" where
  "cont_byte c \<longleftrightarrow> 128 \<le> byte c \<and> byte c < 192"

text \<open>The number of bytes of the encoding of a character with which a string begins, and 0 where there is none: what
  \<open>utf8.DecodeRune\<close> accepts. The second byte is restricted after E0, ED, F0 and F4.\<close>

fun utf8_len :: "string \<Rightarrow> nat" where
  "utf8_len [] = 0"
| "utf8_len (c # cs) = (let b = byte c in
     if b < 128 then 1
     else if b < 194 \<or> 245 \<le> b then 0
     else if b < 224 then (case cs of c1 # _ \<Rightarrow> if cont_byte c1 then 2 else 0 | _ \<Rightarrow> 0)
     else if b < 240 then (case cs of
         c1 # c2 # _ \<Rightarrow> if cont_byte c1 \<and> (b = 224 \<longrightarrow> 160 \<le> byte c1) \<and> (b = 237 \<longrightarrow> byte c1 < 160) \<and> cont_byte c2 then 3 else 0
       | _ \<Rightarrow> 0)
     else (case cs of
         c1 # c2 # c3 # _ \<Rightarrow>
           if cont_byte c1 \<and> (b = 240 \<longrightarrow> 144 \<le> byte c1) \<and> (b = 244 \<longrightarrow> byte c1 < 144) \<and> cont_byte c2 \<and> cont_byte c3 then 4 else 0
       | _ \<Rightarrow> 0))"

definition utf8_encode :: "nat \<Rightarrow> string" where
  "utf8_encode r = map char_of
     (if r < 128 then [r]
      else if r < 2048 then [192 + r div 64, 128 + r mod 64]
      else if r < 65536 then [224 + r div 4096, 128 + r div 64 mod 64, 128 + r mod 64]
      else [240 + r div 262144, 128 + r div 4096 mod 64, 128 + r div 64 mod 64, 128 + r mod 64])"

definition rune_error :: string where
  "rune_error = utf8_encode 65533"

text \<open>A string cut into the encodings of its characters; \<open>None\<close> is a byte that belongs to none.\<close>

function chunks :: "string \<Rightarrow> string option list" where
  "chunks s = (if s = [] then []
     else if utf8_len s = 0 then None # chunks (tl s)
     else Some (take (utf8_len s) s) # chunks (drop (utf8_len s) s))"
  by pat_completeness auto
termination by (relation "measure length") auto

declare chunks.simps [simp del]

definition plain_chunk :: "string option \<Rightarrow> string" where
  "plain_chunk c = (case c of None \<Rightarrow> rune_error | Some q \<Rightarrow> q)"

text \<open>The string with each such byte replaced by U+FFFD, and the strings that have none.\<close>

definition to_valid :: "string \<Rightarrow> string" where
  "to_valid s = concat (map plain_chunk (chunks s))"

definition valid_utf8 :: "string \<Rightarrow> bool" where
  "valid_utf8 s \<longleftrightarrow> None \<notin> set (chunks s)"

lemma utf8_len_le: "utf8_len s \<le> length s"
  by (cases s) (auto simp: Let_def split: list.splits)

lemma utf8_len_take: "0 < utf8_len s \<Longrightarrow> utf8_len (take (utf8_len s) s @ r) = utf8_len s"
  by (cases s) (auto simp: Let_def split: list.splits if_splits)

lemma valid_utf8_Nil [simp]: "valid_utf8 []"
  by (simp add: valid_utf8_def chunks.simps)

lemma valid_utf8_ascii: "byte c < 128 \<Longrightarrow> valid_utf8 (c # s) \<longleftrightarrow> valid_utf8 s"
  unfolding valid_utf8_def by (subst chunks.simps) simp

lemma ascii_valid: "\<forall>c\<in>set s. byte c < 128 \<Longrightarrow> valid_utf8 s"
  by (induction s) (auto simp: valid_utf8_ascii)

lemma to_valid_id: "valid_utf8 s \<Longrightarrow> to_valid s = s"
proof (induction s rule: chunks.induct)
  case (1 s)
  have step: "chunks s = (if s = [] then [] else if utf8_len s = 0 then None # chunks (tl s)
      else Some (take (utf8_len s) s) # chunks (drop (utf8_len s) s))" by (rule chunks.simps)
  show ?case
  proof (cases "s = []")
    case False
    with "1.prems" step have n: "utf8_len s \<noteq> 0" "valid_utf8 (drop (utf8_len s) s)" by (auto simp: valid_utf8_def split: if_splits)
    with "1.IH"(2) [OF False] have "to_valid (drop (utf8_len s) s) = drop (utf8_len s) s" by blast
    with step False n(1) show ?thesis by (simp add: to_valid_def plain_chunk_def)
  qed (simp add: to_valid_def chunks.simps)
qed

lemma valid_utf8_chunk: "0 < utf8_len s \<Longrightarrow> valid_utf8 (take (utf8_len s) s @ r) \<longleftrightarrow> valid_utf8 r"
proof -
  assume len: "0 < utf8_len s"
  let ?t = "take (utf8_len s) s @ r"
  have "length (take (utf8_len s) s) = utf8_len s" using utf8_len_le [of s] by simp
  moreover have "?t \<noteq> []" using len by (cases s) auto
  moreover note utf8_len_take [OF len, of r]
  ultimately have "chunks ?t = Some (take (utf8_len s) s) # chunks r" using len by (subst chunks.simps) simp
  then show ?thesis by (simp add: valid_utf8_def)
qed

lemma rune_error_valid: "valid_utf8 (rune_error @ r) \<longleftrightarrow> valid_utf8 r"
proof -
  have "utf8_len rune_error = length rune_error" by (simp add: rune_error_def utf8_encode_def cont_byte_def Let_def)
  then show ?thesis using valid_utf8_chunk [of rune_error r] by (simp add: rune_error_def utf8_encode_def)
qed

lemma valid_to_valid [simp]: "valid_utf8 (to_valid s)"
proof (induction s rule: chunks.induct)
  case (1 s)
  have step: "chunks s = (if s = [] then [] else if utf8_len s = 0 then None # chunks (tl s)
      else Some (take (utf8_len s) s) # chunks (drop (utf8_len s) s))" by (rule chunks.simps)
  show ?case
  proof (cases "s = []")
    case False
    show ?thesis
    proof (cases "utf8_len s = 0")
      case True
      with 1 False step rune_error_valid show ?thesis by (simp add: to_valid_def plain_chunk_def)
    next
      case len: False
      with 1 False step valid_utf8_chunk [of s] show ?thesis by (simp add: to_valid_def plain_chunk_def)
    qed
  qed (simp add: to_valid_def chunks.simps)
qed

lemma to_valid_idem [simp]: "to_valid (to_valid s) = to_valid s"
  by (simp add: to_valid_id)

section \<open>Strings\<close>

definition hex_digit :: "nat \<Rightarrow> char" where
  "hex_digit n = (if n < 10 then char_of (48 + n) else char_of (87 + n))"

definition hex_value :: "char \<Rightarrow> nat option" where
  "hex_value c = (let b = byte c in
     if 48 \<le> b \<and> b \<le> 57 then Some (b - 48)
     else if 97 \<le> b \<and> b \<le> 102 then Some (b - 87)
     else if 65 \<le> b \<and> b \<le> 70 then Some (b - 55)
     else None)"

abbreviation backslash :: char where
  "backslash \<equiv> CHR 0x5C"

abbreviation dquote :: char where
  "dquote \<equiv> CHR 0x22"

definition u_escape :: "nat \<Rightarrow> string" where
  "u_escape r = [backslash, CHR ''u'', hex_digit (r div 4096 mod 16), hex_digit (r div 256 mod 16), hex_digit (r div 16 mod 16),
     hex_digit (r mod 16)]"

text \<open>The encoder escapes what HTML or JavaScript would read as its own, too.\<close>

definition quote_ascii :: "char \<Rightarrow> string" where
  "quote_ascii c =
     (if c = backslash \<or> c = dquote then [backslash, c]
      else if c = CHR 0x08 then [backslash, CHR ''b'']
      else if c = CHR 0x0C then [backslash, CHR ''f'']
      else if c = CHR 0x0A then [backslash, CHR ''n'']
      else if c = CHR 0x0D then [backslash, CHR ''r'']
      else if c = CHR 0x09 then [backslash, CHR ''t'']
      else if byte c < 32 \<or> c = CHR ''<'' \<or> c = CHR ''>'' \<or> c = CHR ''&'' then u_escape (byte c)
      else [c])"

definition quote_chunk :: "string option \<Rightarrow> string" where
  "quote_chunk c = (case c of
     None \<Rightarrow> u_escape 65533
   | Some q \<Rightarrow> if length q = 1 then quote_ascii (hd q)
       else if q = utf8_encode 8232 then u_escape 8232
       else if q = utf8_encode 8233 then u_escape 8233
       else q)"

definition quote_string :: "string \<Rightarrow> string" where
  "quote_string s = [dquote] @ concat (map quote_chunk (chunks s)) @ [dquote]"

fun hex4 :: "string \<Rightarrow> nat option" where
  "hex4 (a # b # c # d # _) = do {
     a \<leftarrow> hex_value a; b \<leftarrow> hex_value b; c \<leftarrow> hex_value c; d \<leftarrow> hex_value d;
     Some (((a * 16 + b) * 16 + c) * 16 + d) }"
| "hex4 _ = None"

text \<open>What follows a backslash: the bytes it stands for, and the rest. A surrogate that is not the first of a pair
  is read as U+FFFD.\<close>

definition unescape_u :: "string \<Rightarrow> (string \<times> string) option" where
  "unescape_u s = (case hex4 s of
     None \<Rightarrow> None
   | Some r \<Rightarrow>
       let rest = drop 4 s in
       if 55296 \<le> r \<and> r < 57344 then
         (case (if take 2 rest = [backslash, CHR ''u''] then hex4 (drop 2 rest) else None) of
            Some r1 \<Rightarrow>
              if r < 56320 \<and> 56320 \<le> r1 \<and> r1 < 57344
              then Some (utf8_encode ((r - 55296) * 1024 + (r1 - 56320) + 65536), drop 6 rest)
              else Some (rune_error, rest)
          | None \<Rightarrow> Some (rune_error, rest))
       else Some (utf8_encode r, rest))"

definition unescape :: "string \<Rightarrow> (string \<times> string) option" where
  "unescape s = (case s of
     [] \<Rightarrow> None
   | e # rest \<Rightarrow>
       if e = dquote \<or> e = backslash \<or> e = CHR ''/'' then Some ([e], rest)
       else if e = CHR ''b'' then Some ([CHR 0x08], rest)
       else if e = CHR ''f'' then Some ([CHR 0x0C], rest)
       else if e = CHR ''n'' then Some ([CHR 0x0A], rest)
       else if e = CHR ''r'' then Some ([CHR 0x0D], rest)
       else if e = CHR ''t'' then Some ([CHR 0x09], rest)
       else if e = CHR ''u'' then unescape_u rest
       else None)"

lemma unescape_shorter: "unescape s = Some (out, rest) \<Longrightarrow> length rest < length s"
  by (auto simp: unescape_def unescape_u_def Let_def split: list.splits if_splits option.splits)

text \<open>After the opening quote: the string, and what follows the closing one.\<close>

function scan_string :: "string \<Rightarrow> (string \<times> string) option" where
  "scan_string s = (case s of
     [] \<Rightarrow> None
   | c # cs \<Rightarrow>
       if c = dquote then Some ([], cs)
       else if c = backslash then
         (case unescape cs of None \<Rightarrow> None | Some (out, rest) \<Rightarrow> map_option (map_prod ((@) out) id) (scan_string rest))
       else if byte c < 32 then None
       else if utf8_len (c # cs) = 0 then map_option (map_prod ((@) rune_error) id) (scan_string cs)
       else map_option (map_prod ((@) (take (utf8_len (c # cs)) (c # cs))) id) (scan_string (drop (utf8_len (c # cs)) (c # cs))))"
  by pat_completeness auto
termination by (relation "measure length") (auto dest: unescape_shorter)

declare scan_string.simps [simp del]

lemma scan_string_shorter: "scan_string s = Some (t, rest) \<Longrightarrow> length rest < length s"
proof (induction s arbitrary: t rest rule: scan_string.induct)
  case (1 s)
  from "1.prems" show ?case
    by (subst (asm) scan_string.simps)
      (fastforce split: list.splits if_splits option.splits prod.splits dest: "1.IH" unescape_shorter)
qed

lemma hex_value_digit [simp]: "n < 16 \<Longrightarrow> hex_value (hex_digit n) = Some n"
  by (simp add: hex_value_def hex_digit_def Let_def)

lemma hex4_u_escape: "r < 65536 \<Longrightarrow> u_escape r @ s = backslash # CHR ''u'' # drop 2 (u_escape r) @ s \<and> hex4 (drop 2 (u_escape r) @ s) = Some r"
proof -
  assume r: "r < 65536"
  define a b where "a = r div 16" and "b = a div 16"
  have "r div 256 = b" "r div 4096 = b div 16" "b div 16 mod 16 = b div 16"
    using r by (simp_all add: a_def b_def flip: div_mult2_eq)
  moreover have "b div 16 * 16 + b mod 16 = b" "b * 16 + a mod 16 = a" "a * 16 + r mod 16 = r"
    unfolding b_def a_def by (rule div_mult_mod_eq)+
  ultimately have "((r div 4096 mod 16 * 16 + r div 256 mod 16) * 16 + r div 16 mod 16) * 16 + r mod 16 = r"
    by (simp only: a_def [symmetric])
  moreover have "hex4 (drop 2 (u_escape r) @ s) = Some (((r div 4096 mod 16 * 16 + r div 256 mod 16) * 16 + r div 16 mod 16) * 16 + r mod 16)"
    by (simp add: u_escape_def)
  ultimately have "hex4 (drop 2 (u_escape r) @ s) = Some r" by (simp only:)
  moreover have "u_escape r @ s = backslash # CHR ''u'' # drop 2 (u_escape r) @ s" by (simp add: u_escape_def)
  ultimately show ?thesis by blast
qed

lemma scan_backslash:
  "scan_string (backslash # s) =
     (case unescape s of None \<Rightarrow> None | Some (out, rest) \<Rightarrow> map_option (map_prod ((@) out) id) (scan_string rest))"
  by (subst scan_string.simps) simp

lemma scan_u_escape:
  assumes "r < 55296 \<or> 57344 \<le> r" "r < 65536"
  shows "scan_string (u_escape r @ s) = map_option (map_prod ((@) (utf8_encode r)) id) (scan_string s)"
proof -
  have "unescape (CHR ''u'' # drop 2 (u_escape r) @ s) = Some (utf8_encode r, s)"
    using hex4_u_escape [OF assms(2), of s] assms(1) by (auto simp: unescape_def unescape_u_def u_escape_def simp del: hex4.simps)
  moreover have "u_escape r @ s = backslash # CHR ''u'' # drop 2 (u_escape r) @ s" using hex4_u_escape [OF assms(2), of s] by blast
  ultimately show ?thesis by (simp only: scan_backslash) simp
qed

lemma scan_ascii:
  assumes "byte c < 128"
  shows "scan_string (quote_ascii c @ s) = map_option (map_prod ((@) [c]) id) (scan_string s)"
proof -
  have len: "utf8_len (c # s) = 1" using assms by simp
  show ?thesis
  proof (cases "c = backslash \<or> c = dquote")
    case True
    then have "quote_ascii c @ s = backslash # c # s" "unescape (c # s) = Some ([c], s)"
      by (auto simp: quote_ascii_def unescape_def)
    then show ?thesis by (simp add: scan_backslash)
  next
    case plain: False
    show ?thesis
    proof (cases "c \<in> {CHR 0x08, CHR 0x0C, CHR 0x0A, CHR 0x0D, CHR 0x09}")
      case True
      then show ?thesis
        by (elim insertE) (simp_all add: quote_ascii_def scan_backslash unescape_def)
    next
      case other: False
      show ?thesis
      proof (cases "byte c < 32 \<or> c = CHR ''<'' \<or> c = CHR ''>'' \<or> c = CHR ''&''")
        case True
        then have "quote_ascii c = u_escape (byte c)" using plain other by (simp add: quote_ascii_def)
        moreover have "utf8_encode (byte c) = [c]" using assms by (simp add: utf8_encode_def)
        ultimately show ?thesis using scan_u_escape [of "byte c" s] assms by simp
      next
        case False
        then have "quote_ascii c = [c]" using plain other by (simp add: quote_ascii_def)
        with False plain len show ?thesis by (subst scan_string.simps) (simp del: utf8_len.simps)
      qed
    qed
  qed
qed

lemma chunk_len: "Some q \<in> set (chunks t) \<Longrightarrow> 0 < length q \<and> utf8_len (q @ s) = length q"
proof (induction t rule: chunks.induct)
  case (1 t)
  have n: "0 < utf8_len t \<Longrightarrow> 0 < length (take (utf8_len t) t) \<and> utf8_len (take (utf8_len t) t @ s) = length (take (utf8_len t) t)"
    using utf8_len_take [of t s] utf8_len_le [of t] by (simp add: min_absorb2)
  from "1.prems" show ?case
    by (subst (asm) chunks.simps) (use n "1.IH" in \<open>auto split: if_splits\<close>)
qed

lemma scan_chunk:
  assumes "c \<in> set (chunks t)"
  shows "scan_string (quote_chunk c @ s) = map_option (map_prod ((@) (plain_chunk c)) id) (scan_string s)"
proof (cases c)
  case None
  then show ?thesis by (simp add: quote_chunk_def plain_chunk_def rune_error_def scan_u_escape)
next
  case (Some q)
  have len: "0 < length q" "utf8_len (q @ r) = length q" for r using chunk_len assms Some by blast+
  then obtain a as where q: "q = a # as" by (cases q) auto
  show ?thesis
  proof (cases "as = []")
    case True
    then have "byte a < 128" using len(2) [of "[]"] q by (auto simp: Let_def split: if_splits)
    with True q Some scan_ascii show ?thesis by (simp add: quote_chunk_def plain_chunk_def)
  next
    case False
    then have a: "128 \<le> byte a" using len(2) [of "[]"] q by (auto simp: Let_def split: if_splits)
    then have "a \<noteq> dquote" "a \<noteq> backslash" by auto
    with a q len(2) [of s] have "scan_string (q @ s) = map_option (map_prod ((@) q) id) (scan_string s)"
      by (subst scan_string.simps) (simp del: utf8_len.simps)
    moreover have "length q \<noteq> 1" using False q by simp
    ultimately show ?thesis using Some by (simp add: quote_chunk_def plain_chunk_def scan_u_escape)
  qed
qed

text \<open>Reading what was quoted gives the string with its invalid bytes replaced.\<close>

lemma scan_chunks:
  "set cs \<subseteq> set (chunks t) \<Longrightarrow>
   scan_string (concat (map quote_chunk cs) @ s) = map_option (map_prod ((@) (concat (map plain_chunk cs))) id) (scan_string s)"
proof (induction cs)
  case (Cons c cs)
  then have "scan_string (quote_chunk c @ concat (map quote_chunk cs) @ s)
      = map_option (map_prod ((@) (plain_chunk c)) id) (scan_string (concat (map quote_chunk cs) @ s))"
    using scan_chunk [of c t "concat (map quote_chunk cs) @ s"] by simp
  with Cons show ?case by (cases "scan_string s") auto
qed (cases "scan_string s", auto)

lemma scan_quote: "scan_string (concat (map quote_chunk (chunks t)) @ dquote # s) = Some (to_valid t, s)"
proof -
  have "scan_string (dquote # s) = Some ([], s)" by (subst scan_string.simps) simp
  then show ?thesis using scan_chunks [of "chunks t" t "dquote # s"] by (simp add: to_valid_def)
qed

section \<open>Tokens\<close>

definition is_digit :: "char \<Rightarrow> bool" where
  "is_digit c \<longleftrightarrow> 48 \<le> byte c \<and> byte c \<le> 57"

definition num_char :: "char \<Rightarrow> bool" where
  "num_char c \<longleftrightarrow> is_digit c \<or> c \<in> {CHR ''-'', CHR ''+'', CHR ''.'', CHR ''e'', CHR ''E''}"

definition exponent_ok :: "string \<Rightarrow> bool" where
  "exponent_ok s \<longleftrightarrow> s = [] \<or> (hd s \<in> {CHR ''e'', CHR ''E''} \<and>
     (let ds = (if tl s \<noteq> [] \<and> hd (tl s) \<in> {CHR ''+'', CHR ''-''} then tl (tl s) else tl s) in ds \<noteq> [] \<and> list_all is_digit ds))"

definition fraction_ok :: "string \<Rightarrow> bool" where
  "fraction_ok s \<longleftrightarrow> (if s \<noteq> [] \<and> hd s = CHR ''.''
     then takeWhile is_digit (tl s) \<noteq> [] \<and> exponent_ok (dropWhile is_digit (tl s)) else exponent_ok s)"

text \<open>The numbers of JSON: no sign but a minus, no leading zero, digits on both sides of the point.\<close>

definition is_number :: "string \<Rightarrow> bool" where
  "is_number s \<longleftrightarrow> (let s = (if s \<noteq> [] \<and> hd s = CHR ''-'' then tl s else s); ds = takeWhile is_digit s in
     ds \<noteq> [] \<and> (hd ds = CHR ''0'' \<longrightarrow> length ds = 1) \<and> fraction_ok (dropWhile is_digit s))"

datatype jtok = TLBrace | TRBrace | TLBracket | TRBracket | TComma | TColon | TNull | TTrue | TFalse | TNum string | TStr string

definition punctuation :: "(char \<times> jtok) list" where
  "punctuation = [(CHR ''{'', TLBrace), (CHR ''}'', TRBrace), (CHR ''['', TLBracket), (CHR '']'', TRBracket), (CHR '','', TComma), (CHR '':'', TColon)]"

text \<open>One token from a string that begins with no white space. A run of the characters of numbers that is no number is an error wherever it
  stands, since none of them can follow a number.\<close>

definition lex1 :: "string \<Rightarrow> (jtok \<times> string) option" where
  "lex1 s = (case s of
     [] \<Rightarrow> None
   | c # cs \<Rightarrow>
       (case map_of punctuation c of
          Some t \<Rightarrow> Some (t, cs)
        | None \<Rightarrow>
            if c = dquote then map_option (map_prod TStr id) (scan_string cs)
            else if num_char c then
              (if is_number (takeWhile num_char s) then Some (TNum (takeWhile num_char s), dropWhile num_char s) else None)
            else if take 4 s = ''null'' then Some (TNull, drop 4 s)
            else if take 4 s = ''true'' then Some (TTrue, drop 4 s)
            else if take 5 s = ''false'' then Some (TFalse, drop 5 s)
            else None))"

definition is_space :: "char \<Rightarrow> bool" where
  "is_space c \<longleftrightarrow> c \<in> {CHR '' '', CHR 0x09, CHR 0x0A, CHR 0x0D}"

lemma lex1_shorter: "lex1 s = Some (t, rest) \<Longrightarrow> length rest < length s"
  using length_dropWhile_le [of num_char "tl s"]
  by (auto simp: lex1_def split: list.splits option.splits if_splits dest: scan_string_shorter)

function json_lex :: "string \<Rightarrow> jtok list option" where
  "json_lex s = (case s of
     [] \<Rightarrow> Some []
   | c # cs \<Rightarrow> if is_space c then json_lex cs
       else (case lex1 s of None \<Rightarrow> None | Some (t, rest) \<Rightarrow> map_option ((#) t) (json_lex rest)))"
  by pat_completeness auto
termination by (relation "measure length") (auto dest: lex1_shorter)

declare json_lex.simps [simp del]

section \<open>Values\<close>

datatype json = JNull | JBool bool | JNum string | JStr string | JArr "json list" | JObj "(string \<times> json) list"

text \<open>The machine that reads tokens: what it expects next, and the arrays and objects that are open, with what they
  have so far.\<close>

datatype jframe = FArr "json list" | FObj "(string \<times> json) list" string

datatype jmode = NeedValue | NeedValueOrEnd | NeedKey | NeedKeyOrEnd | NeedColon | HaveValue json

type_synonym jstate = "jmode \<times> jframe list"

definition maxNestingDepth :: nat where
  "maxNestingDepth = 10000"

definition push_frame :: "jmode \<Rightarrow> jframe \<Rightarrow> jframe list \<Rightarrow> jstate option" where
  "push_frame m f st = (if length st < maxNestingDepth then Some (m, f # st) else None)"

definition begin_value :: "jtok \<Rightarrow> jframe list \<Rightarrow> jstate option" where
  "begin_value t st = (case t of
     TLBrace \<Rightarrow> push_frame NeedKeyOrEnd (FObj [] []) st
   | TLBracket \<Rightarrow> push_frame NeedValueOrEnd (FArr []) st
   | TNull \<Rightarrow> Some (HaveValue JNull, st)
   | TTrue \<Rightarrow> Some (HaveValue (JBool True), st)
   | TFalse \<Rightarrow> Some (HaveValue (JBool False), st)
   | TNum s \<Rightarrow> Some (HaveValue (JNum s), st)
   | TStr s \<Rightarrow> Some (HaveValue (JStr s), st)
   | _ \<Rightarrow> None)"

definition end_value :: "jtok \<Rightarrow> json \<Rightarrow> jframe list \<Rightarrow> jstate option" where
  "end_value t j st = (case st of
     [] \<Rightarrow> None
   | FArr js # st' \<Rightarrow>
       if t = TComma then Some (NeedValue, FArr (js @ [j]) # st')
       else if t = TRBracket then Some (HaveValue (JArr (js @ [j])), st')
       else None
   | FObj ps k # st' \<Rightarrow>
       if t = TComma then Some (NeedKey, FObj (ps @ [(k, j)]) [] # st')
       else if t = TRBrace then Some (HaveValue (JObj (ps @ [(k, j)])), st')
       else None)"

definition json_step :: "jtok \<Rightarrow> jstate \<Rightarrow> jstate option" where
  "json_step t s = (case s of
     (NeedValue, st) \<Rightarrow> begin_value t st
   | (NeedValueOrEnd, FArr js # st) \<Rightarrow> if t = TRBracket then Some (HaveValue (JArr []), st) else begin_value t (FArr js # st)
   | (NeedKeyOrEnd, FObj ps k # st) \<Rightarrow>
       if t = TRBrace then Some (HaveValue (JObj []), st) else (case t of TStr k \<Rightarrow> Some (NeedColon, FObj ps k # st) | _ \<Rightarrow> None)
   | (NeedKey, FObj ps k # st) \<Rightarrow> (case t of TStr k \<Rightarrow> Some (NeedColon, FObj ps k # st) | _ \<Rightarrow> None)
   | (NeedColon, FObj ps k # st) \<Rightarrow> if t = TColon then Some (NeedValue, FObj ps k # st) else None
   | (HaveValue j, st) \<Rightarrow> end_value t j st
   | _ \<Rightarrow> None)"

fun json_steps :: "jtok list \<Rightarrow> jstate \<Rightarrow> jstate option" where
  "json_steps [] s = Some s"
| "json_steps (t # ts) s = Option.bind (json_step t s) (json_steps ts)"

definition json_parse :: "string \<Rightarrow> json option" where
  "json_parse s = do {
     ts \<leftarrow> json_lex s;
     (m, st) \<leftarrow> json_steps ts (NeedValue, []);
     (case m of HaveValue j \<Rightarrow> if st = [] then Some j else None | _ \<Rightarrow> None) }"

text \<open>The encoder writes no white space.\<close>

fun json_print :: "json \<Rightarrow> string" and print_elems :: "json list \<Rightarrow> string" and print_pairs :: "(string \<times> json) list \<Rightarrow> string" where
  "json_print JNull = ''null''"
| "json_print (JBool b) = (if b then ''true'' else ''false'')"
| "json_print (JNum s) = s"
| "json_print (JStr s) = quote_string s"
| "json_print (JArr js) = ''['' @ print_elems js @ '']''"
| "json_print (JObj ps) = ''{'' @ print_pairs ps @ ''}''"
| "print_elems [] = []"
| "print_elems [j] = json_print j"
| "print_elems (j # j' # js) = json_print j @ '','' @ print_elems (j' # js)"
| "print_pairs [] = []"
| "print_pairs [(k, j)] = quote_string k @ '':'' @ json_print j"
| "print_pairs ((k, j) # p # ps) = quote_string k @ '':'' @ json_print j @ '','' @ print_pairs (p # ps)"

section \<open>Reading what was written\<close>

fun json_toks :: "json \<Rightarrow> jtok list" and elem_toks :: "json list \<Rightarrow> jtok list" and pair_toks :: "(string \<times> json) list \<Rightarrow> jtok list" where
  "json_toks JNull = [TNull]"
| "json_toks (JBool b) = [if b then TTrue else TFalse]"
| "json_toks (JNum s) = [TNum s]"
| "json_toks (JStr s) = [TStr (to_valid s)]"
| "json_toks (JArr js) = [TLBracket] @ elem_toks js @ [TRBracket]"
| "json_toks (JObj ps) = [TLBrace] @ pair_toks ps @ [TRBrace]"
| "elem_toks [] = []"
| "elem_toks [j] = json_toks j"
| "elem_toks (j # j' # js) = json_toks j @ [TComma] @ elem_toks (j' # js)"
| "pair_toks [] = []"
| "pair_toks [(k, j)] = [TStr (to_valid k), TColon] @ json_toks j"
| "pair_toks ((k, j) # p # ps) = [TStr (to_valid k), TColon] @ json_toks j @ [TComma] @ pair_toks (p # ps)"

text \<open>A document with the strings made valid; that its numbers are numbers; how deep it is.\<close>

fun json_valid :: "json \<Rightarrow> json" where
  "json_valid (JStr s) = JStr (to_valid s)"
| "json_valid (JArr js) = JArr (map json_valid js)"
| "json_valid (JObj ps) = JObj (map (map_prod to_valid json_valid) ps)"
| "json_valid j = j"

fun json_ok :: "json \<Rightarrow> bool" and elems_ok :: "json list \<Rightarrow> bool" and pairs_ok :: "(string \<times> json) list \<Rightarrow> bool" where
  "json_ok (JNum s) \<longleftrightarrow> is_number s"
| "json_ok (JArr js) \<longleftrightarrow> elems_ok js"
| "json_ok (JObj ps) \<longleftrightarrow> pairs_ok ps"
| "json_ok j \<longleftrightarrow> True"
| "elems_ok [] \<longleftrightarrow> True"
| "elems_ok (j # js) \<longleftrightarrow> json_ok j \<and> elems_ok js"
| "pairs_ok [] \<longleftrightarrow> True"
| "pairs_ok ((k, j) # ps) \<longleftrightarrow> json_ok j \<and> pairs_ok ps"

fun json_depth :: "json \<Rightarrow> nat" and elems_depth :: "json list \<Rightarrow> nat" and pairs_depth :: "(string \<times> json) list \<Rightarrow> nat" where
  "json_depth (JArr js) = Suc (elems_depth js)"
| "json_depth (JObj ps) = Suc (pairs_depth ps)"
| "json_depth j = 0"
| "elems_depth [] = 0"
| "elems_depth (j # js) = max (json_depth j) (elems_depth js)"
| "pairs_depth [] = 0"
| "pairs_depth ((k, j) # ps) = max (json_depth j) (pairs_depth ps)"

lemma exponent_num_chars: "exponent_ok s \<Longrightarrow> list_all num_char s"
  by (cases s; cases "tl s") (auto simp: exponent_ok_def num_char_def list_all_iff split: if_splits)

lemma digits_num_chars: "list_all num_char (takeWhile is_digit s)"
  by (auto simp: list_all_iff num_char_def dest: set_takeWhileD)

lemma num_chars_split: "list_all num_char (dropWhile is_digit s) \<Longrightarrow> list_all num_char s"
  using digits_num_chars [of s] by (metis list_all_append takeWhile_dropWhile_id)

lemma fraction_num_chars: "fraction_ok s \<Longrightarrow> list_all num_char s"
  using num_chars_split [of "tl s"] exponent_num_chars [of s] exponent_num_chars [of "dropWhile is_digit (tl s)"]
  by (cases s) (auto simp: fraction_ok_def num_char_def split: if_splits)

lemma number_num_chars: "is_number s \<Longrightarrow> list_all num_char s \<and> s \<noteq> []"
  using num_chars_split [of "tl s"] num_chars_split [of s] fraction_num_chars
  by (cases s) (auto simp: is_number_def Let_def num_char_def split: if_splits)

definition ends_number :: "string \<Rightarrow> bool" where
  "ends_number r \<longleftrightarrow> r = [] \<or> \<not> num_char (hd r)"

lemma num_char_props: "num_char c \<Longrightarrow> map_of punctuation c = None \<and> c \<noteq> dquote \<and> \<not> is_space c"
proof -
  assume c: "num_char c"
  have "\<not> num_char c"
    if "c \<in> {CHR ''{'', CHR ''}'', CHR ''['', CHR '']'', CHR '','', CHR '':'', dquote, CHR '' '', CHR 0x09, CHR 0x0A, CHR 0x0D}"
    using that by (elim insertE) (simp_all add: num_char_def is_digit_def)
  with c show ?thesis by (simp add: punctuation_def is_space_def) metis
qed

lemma lex_number:
  assumes "is_number n" "ends_number r"
  shows "json_lex (n @ r) = map_option ((#) (TNum n)) (json_lex r)"
proof -
  have n: "\<forall>c\<in>set n. num_char c" "n \<noteq> []" using number_num_chars [OF assms(1)] by (auto simp: list_all_iff)
  have "takeWhile num_char (n @ r) = n" "dropWhile num_char (n @ r) = r"
    using n(1) assms(2) by (cases r; simp add: takeWhile_append dropWhile_append ends_number_def)+
  moreover obtain c cs where c: "n = c # cs" "num_char c" using n by (cases n) auto
  ultimately have "lex1 (n @ r) = Some (TNum n, r)"
    using assms(1) num_char_props [OF c(2)] by (simp add: lex1_def del: takeWhile.simps dropWhile.simps)
  then show ?thesis using c num_char_props [OF c(2)] by (subst json_lex.simps) simp
qed

lemma lex_quote: "json_lex (quote_string t @ r) = map_option ((#) (TStr (to_valid t))) (json_lex r)"
proof -
  have "lex1 (quote_string t @ r) = Some (TStr (to_valid t), r)"
    using scan_quote [of t r] by (simp add: lex1_def quote_string_def punctuation_def)
  then show ?thesis by (subst json_lex.simps) (simp add: quote_string_def is_space_def)
qed

lemma lex_punctuation:
  "map_of punctuation c = Some t \<Longrightarrow> json_lex (c # r) = map_option ((#) t) (json_lex r)"
  by (subst json_lex.simps) (auto simp: lex1_def punctuation_def is_space_def split: if_splits)

lemma lex_word:
  "json_lex (''null'' @ r) = map_option ((#) TNull) (json_lex r)"
  "json_lex (''true'' @ r) = map_option ((#) TTrue) (json_lex r)"
  "json_lex (''false'' @ r) = map_option ((#) TFalse) (json_lex r)"
  by (subst json_lex.simps, simp add: lex1_def punctuation_def is_space_def num_char_def is_digit_def)+

lemmas lex_parts = lex_quote lex_number lex_word [simplified] lex_punctuation punctuation_def

lemma ends_number_punctuation [simp]:
  "c \<in> {CHR '']'', CHR ''}'', CHR '',''} \<Longrightarrow> ends_number (c # r)"
  by (auto simp: ends_number_def num_char_def is_digit_def)

lemma lex_print:
  "json_ok j \<Longrightarrow> ends_number r \<Longrightarrow> json_lex r = Some ts \<Longrightarrow> json_lex (json_print j @ r) = Some (json_toks j @ ts)"
  "elems_ok js \<Longrightarrow> ends_number r \<Longrightarrow> json_lex r = Some ts \<Longrightarrow> json_lex (print_elems js @ r) = Some (elem_toks js @ ts)"
  "pairs_ok ps \<Longrightarrow> ends_number r \<Longrightarrow> json_lex r = Some ts \<Longrightarrow> json_lex (print_pairs ps @ r) = Some (pair_toks ps @ ts)"
proof (induction j and js and ps arbitrary: r ts and r ts and r ts rule: json_print_print_elems_print_pairs.induct)
qed (simp_all add: lex_parts)

lemma steps_toks:
  "json_depth j + length st \<le> maxNestingDepth \<Longrightarrow> m = NeedValue \<or> m = NeedValueOrEnd \<and> (\<exists>js st'. st = FArr js # st') \<Longrightarrow>
     json_steps (json_toks j @ ts) (m, st) = json_steps ts (HaveValue (json_valid j), st)"
  "elems_depth js + length st < maxNestingDepth \<Longrightarrow> js \<noteq> [] \<Longrightarrow> m = NeedValue \<or> m = NeedValueOrEnd \<Longrightarrow>
     json_steps (elem_toks js @ TRBracket # ts) (m, FArr acc # st) = json_steps ts (HaveValue (JArr (acc @ map json_valid js)), st)"
  "pairs_depth ps + length st < maxNestingDepth \<Longrightarrow> ps \<noteq> [] \<Longrightarrow> m = NeedKey \<or> m = NeedKeyOrEnd \<Longrightarrow>
     json_steps (pair_toks ps @ TRBrace # ts) (m, FObj acc' k # st) =
       json_steps ts (HaveValue (JObj (acc' @ map (map_prod to_valid json_valid) ps)), st)"
proof (induction j and js and ps arbitrary: st m ts and st m ts acc and st m ts acc' k rule: json_print_print_elems_print_pairs.induct)
  case (5 js)
  have "json_step TLBracket (m, st) = Some (NeedValueOrEnd, FArr [] # st)"
    using "5.prems" by (auto simp: json_step_def begin_value_def push_frame_def)
  with "5.IH" [of st NeedValueOrEnd ts "[]"] "5.prems"(1) show ?case by (cases "js = []") (auto simp: json_step_def)
next
  case (6 ps)
  have "json_step TLBrace (m, st) = Some (NeedKeyOrEnd, FObj [] [] # st)"
    using "6.prems" by (auto simp: json_step_def begin_value_def push_frame_def)
  with "6.IH" [of st NeedKeyOrEnd ts "[]" "[]"] "6.prems"(1) show ?case by (cases "ps = []") (auto simp: json_step_def)
qed (auto simp: json_step_def begin_value_def end_value_def)

text \<open>Printing a value whose numbers are numbers and which is not too deep, and parsing the text, gives the value
  with its strings made valid.\<close>

lemma parse_print:
  assumes "json_ok j" "json_depth j \<le> maxNestingDepth"
  shows "json_parse (json_print j) = Some (json_valid j)"
proof -
  have "json_lex [] = Some []" by (subst json_lex.simps) simp
  with lex_print(1) [OF assms(1), of "[]"] have "json_lex (json_print j) = Some (json_toks j)" by (simp add: ends_number_def)
  moreover have "json_steps (json_toks j) (NeedValue, []) = Some (HaveValue (json_valid j), [])"
    using steps_toks(1) [of j "[]" NeedValue "[]"] assms(2) by simp
  ultimately show ?thesis by (simp add: json_parse_def)
qed
section \<open>Base64\<close>

definition b64_char :: "nat \<Rightarrow> char" where
  "b64_char n = (if n < 26 then char_of (65 + n) else if n < 52 then char_of (71 + n) else if n < 62 then char_of (n - 4)
     else if n = 62 then CHR ''+'' else CHR ''/'')"

definition b64_value :: "char \<Rightarrow> nat option" where
  "b64_value c = (let b = byte c in
     if 65 \<le> b \<and> b \<le> 90 then Some (b - 65)
     else if 97 \<le> b \<and> b \<le> 122 then Some (b - 71)
     else if 48 \<le> b \<and> b \<le> 57 then Some (b + 4)
     else if c = CHR ''+'' then Some 62
     else if c = CHR ''/'' then Some 63
     else None)"

fun b64_encode :: "string \<Rightarrow> string" where
  "b64_encode [] = []"
| "b64_encode [a] = [b64_char (byte a div 4), b64_char (byte a mod 4 * 16), CHR ''='', CHR ''='']"
| "b64_encode [a, b] = [b64_char (byte a div 4), b64_char (byte a mod 4 * 16 + byte b div 16), b64_char (byte b mod 16 * 4), CHR ''='']"
| "b64_encode (a # b # c # s) =
     [b64_char (byte a div 4), b64_char (byte a mod 4 * 16 + byte b div 16), b64_char (byte b mod 16 * 4 + byte c div 64),
      b64_char (byte c mod 64)] @ b64_encode s"

text \<open>Decoding skips line breaks; only the last four characters can be padded, and the bits that the padding cuts off
  are not looked at.\<close>

fun b64_quads :: "string \<Rightarrow> string option" where
  "b64_quads [] = Some []"
| "b64_quads (w # x # y # z # s) = do {
     i \<leftarrow> b64_value w; j \<leftarrow> b64_value x;
     (if z = CHR ''='' then
        (if s \<noteq> [] then None
         else if y = CHR ''='' then Some [char_of (i * 4 + j div 16)]
         else do { k \<leftarrow> b64_value y; Some [char_of (i * 4 + j div 16), char_of (j mod 16 * 16 + k div 4)] })
      else do {
        k \<leftarrow> b64_value y; l \<leftarrow> b64_value z; r \<leftarrow> b64_quads s;
        Some ([char_of (i * 4 + j div 16), char_of (j mod 16 * 16 + k div 4), char_of (k mod 4 * 64 + l)] @ r) }) }"
| "b64_quads _ = None"

definition b64_decode :: "string \<Rightarrow> string option" where
  "b64_decode s = b64_quads (filter (\<lambda>c. c \<noteq> CHR 0x0A \<and> c \<noteq> CHR 0x0D) s)"

lemma b64_value_char: "n < 64 \<Longrightarrow> b64_value (b64_char n) = Some n"
  by (auto simp: b64_value_def b64_char_def Let_def)

lemma b64_char_props:
  "n < 64 \<Longrightarrow> b64_char n \<noteq> CHR ''='' \<and> b64_char n \<noteq> CHR 0x0A \<and> b64_char n \<noteq> CHR 0x0D \<and> byte (b64_char n) < 128"
proof -
  assume "n < 64"
  then have v: "b64_value (b64_char n) = Some n" by (rule b64_value_char)
  have "b64_value (CHR ''='') = None" "b64_value (CHR 0x0A) = None" "b64_value (CHR 0x0D) = None" by (simp_all add: b64_value_def)
  with v have "b64_char n \<noteq> CHR ''=''" "b64_char n \<noteq> CHR 0x0A" "b64_char n \<noteq> CHR 0x0D" by auto
  moreover have "byte (b64_char n) < 128" using \<open>n < 64\<close> by (auto simp: b64_char_def)
  ultimately show ?thesis by blast
qed

lemma byte_less: "byte c < 256"
  by (rule nat_of_char_less_256)

lemma byte_div: "byte a div 4 < 64" "byte a div 16 < 16" "byte a div 64 < 4"
  using byte_less [of a] by (simp_all add: less_mult_imp_div_less)

lemma b64_bytes:
  "byte a div 4 < 64" "byte a mod 4 * 16 + byte b div 16 < 64" "byte a mod 4 * 16 < 64" "byte b mod 16 * 4 < 64"
  "byte b mod 16 * 4 + byte c div 64 < 64" "byte c mod 64 < 64"
  "byte b div 16 div 16 = 0" "byte b div 16 mod 16 = byte b div 16" "byte c div 64 div 4 = 0" "byte c div 64 mod 4 = byte c div 64"
proof -
  have m: "byte a mod 4 < 4" "byte b mod 16 < 16" by simp_all
  show "byte a mod 4 * 16 + byte b div 16 < 64" using m(1) byte_div(2) [of b] by linarith
  show "byte b mod 16 * 4 + byte c div 64 < 64" using m(2) byte_div(3) [of c] by linarith
qed (use byte_div [of a] byte_div [of b] byte_div [of c] in \<open>simp_all add: div_less mod_less\<close>)

lemma b64_roundtrip: "b64_decode (b64_encode s) = Some s"
proof -
  have f: "filter (\<lambda>c. c \<noteq> CHR 0x0A \<and> c \<noteq> CHR 0x0D) (b64_encode s) = b64_encode s"
    by (induction s rule: b64_encode.induct) (simp_all add: b64_char_props b64_bytes)
  have "b64_quads (b64_encode s) = Some s"
    by (induction s rule: b64_encode.induct) (simp_all add: b64_value_char b64_char_props b64_bytes)
  with f show ?thesis by (simp add: b64_decode_def)
qed

lemma b64_valid: "valid_utf8 (b64_encode s)"
proof (rule ascii_valid)
  show "\<forall>c\<in>set (b64_encode s). byte c < 128"
    by (induction s rule: b64_encode.induct) (simp_all add: b64_char_props b64_bytes)
qed

section \<open>Integers as numbers of a document\<close>

lemma itoa_digits: "list_all is_digit (itoa n) \<and> (hd (itoa n) = CHR ''0'' \<longrightarrow> n = 0 \<and> itoa n = ''0'')"
proof (induction n rule: itoa.induct)
  case (1 n)
  have digit: "is_digit (char_of (48 + d))" if "d < 10" for d :: nat using that by (simp add: is_digit_def)
  have zero: "char_of (48 + d) = CHR ''0'' \<longleftrightarrow> d = 0" if "d < 10" for d :: nat
  proof -
    have "byte (char_of (48 + d)) = 48 + d" using that by simp
    moreover have "byte (CHR ''0'') = 48" by simp
    ultimately have "char_of (48 + d) = CHR ''0'' \<Longrightarrow> d = 0" by (metis add_cancel_left_right)
    moreover have "char_of (48 :: nat) = CHR ''0''" using char_of_char [of "CHR ''0''", where 'a = nat] by simp
    ultimately show ?thesis by auto
  qed
  show ?case
  proof (cases "n < 10")
    case True
    then show ?thesis using digit [of n] zero [of n] by (subst (1 2 3) itoa.simps) auto
  next
    case False
    obtain c cs where c: "itoa (n div 10) = c # cs" using itoa_hd by blast
    have step: "itoa n = itoa (n div 10) @ [char_of (48 + n mod 10)]" using False by (subst itoa.simps) simp
    show ?thesis using 1 [OF False] c False digit [of "n mod 10"] unfolding step by auto
  qed
qed

lemma is_number_itoa: "is_number (itoa n)"
proof -
  obtain c cs where c: "itoa n = c # cs" using itoa_hd by blast
  have d: "takeWhile is_digit (itoa n) = itoa n" "dropWhile is_digit (itoa n) = []" "c \<noteq> CHR ''-''"
    using itoa_digits [of n] c by (auto simp: list_all_iff takeWhile_eq_all_conv dropWhile_eq_Nil_conv is_digit_def)
  have e: "(if itoa n \<noteq> [] \<and> hd (itoa n) = CHR ''-'' then tl (itoa n) else itoa n) = itoa n" using c d(3) by simp
  show ?thesis unfolding is_number_def Let_def e d(1,2) using c itoa_digits [of n]
    by (auto simp: fraction_ok_def exponent_ok_def)
qed

lemma is_number_sprintd: "is_number (sprintd i)"
proof (cases "i < 0")
  case True
  obtain c cs where c: "itoa (nat (- i)) = c # cs" using itoa_hd by blast
  have "hd (itoa (nat (- i))) \<noteq> CHR ''-''" using itoa_digits [of "nat (- i)"] c by (auto simp: is_digit_def)
  with True is_number_itoa [of "nat (- i)"] c show ?thesis by (simp add: is_number_def sprintd_def del: takeWhile.simps dropWhile.simps)
qed (simp add: sprintd_def is_number_itoa)

lemma sprintd_ascii: "\<forall>c\<in>set (sprintd i). byte c < 128"
proof
  fix c assume "c \<in> set (sprintd i)"
  then have "num_char c" using number_num_chars [OF is_number_sprintd, of i] by (auto simp: list_all_iff)
  then show "byte c < 128" by (auto simp: num_char_def is_digit_def)
qed

end
