(* ===== verification/AdminApi.thy ===== *)
theory AdminApi
  imports Metrics ShardedCluster Json
begin

text \<open>
  The management API of \<^verbatim>\<open>src/cache/api/\<close>: its configuration (\<^verbatim>\<open>option.go\<close>), its answers
  (\<^verbatim>\<open>model.go\<close>), its three handlers (\<^verbatim>\<open>handlers.go\<close>) and its server (\<^verbatim>\<open>server.go\<close>).
  A request is its method and its decoded query, an answer its status and the value that is encoded as
  JSON; the encoding of these values does not fail. The cache and the cluster behind the API
  are interfaces: their operations are arguments. Opening the port and shutting the server down
  end as arguments say.
\<close>

section \<open>Numbers\<close>

text \<open>Addition of Go's 64-bit \<open>int\<close>.\<close>

definition add_int64 :: "int \<Rightarrow> int \<Rightarrow> int" where
  "add_int64 a b = sint (word_of_int (a + b) :: u64)"

section \<open>Requests and answers\<close>

record ApiRequest =
  rq_Method :: string
  rq_Query :: "string gomap"

definition query_Get :: "string \<Rightarrow> ApiRequest \<Rightarrow> string" where
  "query_Get k r = (case map_of (rq_Query r) k of None \<Rightarrow> '''' | Some v \<Rightarrow> v)"

record 'i StatsResponse =
  st_ItemCount :: int
  st_MemoryUsage :: int
  st_HitRate :: rat
  st_MissRate :: rat
  st_NodeCount :: int
  st_ShardCount :: int
  st_ClusterInfo :: "'i option"

record ScaleInfo =
  sc_PreviousNodeCount :: int
  sc_CurrentNodeCount :: int
  sc_AddedNodes :: "string list"
  sc_RemovedNodes :: "string list"

datatype api_data = NoData | InvalidateResponse string | ScaleData ScaleInfo

record APIResponse =
  ar_Success :: bool
  ar_Message :: string
  ar_Data :: api_data

datatype 'i api_body = PlainText string | JsonStats "'i StatsResponse" | JsonResponse APIResponse

type_synonym 'i api_answer = "nat \<times> 'i api_body"

definition writeJSONResponse :: "nat \<Rightarrow> 'i api_body \<Rightarrow> 'i api_answer" where
  "writeJSONResponse statusCode data = (statusCode, data)"

definition method_not_allowed :: "'i api_answer" where
  "method_not_allowed = (405, PlainText ''Method not allowed'')"

text \<open>The text of an error; for a formatted one its format.\<close>

fun error_text :: "gerror \<Rightarrow> string" where
  "error_text ErrKeyNotFound = ''key not found''"
| "error_text ErrLockNotHeld = ''lock not held''"
| "error_text ErrLockAcquireFailed = ''failed to acquire lock''"
| "error_text ErrLockAlreadyHeld = ''lock already held''"
| "error_text ErrRefreshFailed = ''failed to refresh lock''"
| "error_text (Errorf s) = s"

text \<open>The interfaces the handlers use.\<close>

record 'c MemoryStatsProvider =
  sp_MemoryUsage :: "'c \<Rightarrow> int"
  sp_ItemCount :: "'c \<Rightarrow> int"
  sp_HitRate :: "'c \<Rightarrow> rat"
  sp_MissRate :: "'c \<Rightarrow> rat"

record ('s, 'i) ClusterCacheProvider =
  cp_GetNodeCount :: "'s \<Rightarrow> int"
  cp_GetClusterInfo :: "'s \<Rightarrow> 'i"
  cp_AddNode :: "string \<Rightarrow> string \<Rightarrow> 's \<Rightarrow> (gerror + unit) \<times> 's"
  cp_RemoveNode :: "string \<Rightarrow> 's \<Rightarrow> (gerror + unit) \<times> 's"

section \<open>Handlers\<close>

definition HandleStats :: "'c MemoryStatsProvider option \<Rightarrow> ('s, 'i) ClusterCacheProvider \<Rightarrow> ApiRequest \<Rightarrow> 'c \<Rightarrow> 's option \<Rightarrow> 'i api_answer" where
  "HandleStats provider P r cache clusterCache = (if rq_Method r \<noteq> ''GET'' then method_not_allowed
     else let stats = \<lparr>st_ItemCount = 0, st_MemoryUsage = 0, st_HitRate = 0, st_MissRate = 0, st_NodeCount = 0,
                       st_ShardCount = 0, st_ClusterInfo = None\<rparr>;
              stats = (case provider of None \<Rightarrow> stats
                | Some p \<Rightarrow> stats\<lparr>st_ItemCount := sp_ItemCount p cache, st_MemoryUsage := sp_MemoryUsage p cache,
                    st_HitRate := sp_HitRate p cache, st_MissRate := sp_MissRate p cache\<rparr>);
              stats = (case clusterCache of None \<Rightarrow> stats
                | Some s \<Rightarrow> stats\<lparr>st_NodeCount := cp_GetNodeCount P s, st_ClusterInfo := Some (cp_GetClusterInfo P s)\<rparr>)
          in writeJSONResponse 200 (JsonStats stats))"

definition HandleInvalidate :: "'c cache_del \<Rightarrow> ApiRequest \<Rightarrow> 'c \<Rightarrow> ('i api_answer \<times> 'c) option" where
  "HandleInvalidate del r cache = (if rq_Method r \<noteq> ''POST'' then Some (method_not_allowed, cache)
     else let key = query_Get ''key'' r in
       if key = '''' then Some (writeJSONResponse 400 (JsonResponse
         \<lparr>ar_Success = False, ar_Message = ''Missing key parameter'', ar_Data = NoData\<rparr>), cache)
       else do {
         (res, cache) \<leftarrow> del key cache;
         Some (case res of
           Inl err \<Rightarrow> writeJSONResponse 500 (JsonResponse
             \<lparr>ar_Success = False, ar_Message = ''Failed to invalidate cache: '' @ error_text err, ar_Data = NoData\<rparr>)
         | Inr _ \<Rightarrow> writeJSONResponse 200 (JsonResponse
             \<lparr>ar_Success = True, ar_Message = ''Cache key '' @ [CHR 0x27] @ key @ [CHR 0x27] @ '' invalidated successfully'',
              ar_Data = InvalidateResponse key\<rparr>), cache) })"

text \<open>The loops of \<open>HandleScale\<close>: the error that stopped them, the nodes done, and the cluster.\<close>

definition scale_node :: "int \<Rightarrow> string" where
  "scale_node i = ''node-'' @ sprintd i"

definition scale_address :: "int \<Rightarrow> string" where
  "scale_address i = ''127.0.0.1:'' @ sprintd (add_int64 8000 i)"

fun scale_up :: "('s, 'i) ClusterCacheProvider \<Rightarrow> int list \<Rightarrow> string list \<Rightarrow> 's \<Rightarrow> gerror option \<times> string list \<times> 's" where
  "scale_up P [] addedNodes s = (None, addedNodes, s)"
| "scale_up P (i # is) addedNodes s =
     (case cp_AddNode P (scale_node i) (scale_address i) s of
        (Inl err, s') \<Rightarrow> (Some err, addedNodes, s')
      | (Inr _, s') \<Rightarrow> scale_up P is (addedNodes @ [scale_node i]) s')"

fun scale_down :: "('s, 'i) ClusterCacheProvider \<Rightarrow> int list \<Rightarrow> string list \<Rightarrow> 's \<Rightarrow> gerror option \<times> string list \<times> 's" where
  "scale_down P [] removedNodes s = (None, removedNodes, s)"
| "scale_down P (i # is) removedNodes s =
     (case cp_RemoveNode P (scale_node i) s of
        (Inl err, s') \<Rightarrow> (Some err, removedNodes, s')
      | (Inr _, s') \<Rightarrow> scale_down P is (removedNodes @ [scale_node i]) s')"

definition scale_failed :: "gerror \<Rightarrow> ScaleInfo \<Rightarrow> 'i api_answer" where
  "scale_failed err info = writeJSONResponse 500 (JsonResponse
     \<lparr>ar_Success = False, ar_Message = ''Failed to scale cluster: '' @ error_text err, ar_Data = ScaleData info\<rparr>)"

definition HandleScale :: "('s, 'i) ClusterCacheProvider \<Rightarrow> ApiRequest \<Rightarrow> 's option \<Rightarrow> 'i api_answer \<times> 's option" where
  "HandleScale P r clusterCache = (if rq_Method r \<noteq> ''POST'' then (method_not_allowed, clusterCache)
     else case clusterCache of
       None \<Rightarrow> (writeJSONResponse 400 (JsonResponse
         \<lparr>ar_Success = False, ar_Message = ''Scaling is only supported in cluster mode'', ar_Data = NoData\<rparr>), None)
     | Some s \<Rightarrow>
       let invalid = (writeJSONResponse 400 (JsonResponse
             \<lparr>ar_Success = False, ar_Message = ''Invalid nodes parameter: must be a positive integer'', ar_Data = NoData\<rparr>), Some s)
       in (case Atoi (query_Get ''nodes'' r) of
         None \<Rightarrow> invalid
       | Some targetNodes \<Rightarrow>
         if targetNodes < 1 then invalid
         else let currentNodes = cp_GetNodeCount P s in
           if targetNodes = currentNodes then (writeJSONResponse 200 (JsonResponse
             \<lparr>ar_Success = True, ar_Message = ''No scaling needed, node count already matches target'',
              ar_Data = ScaleData \<lparr>sc_PreviousNodeCount = currentNodes, sc_CurrentNodeCount = currentNodes,
                sc_AddedNodes = [], sc_RemovedNodes = []\<rparr>\<rparr>), Some s)
           else let (err, addedNodes, removedNodes, s') =
               (if targetNodes > currentNodes
                then let (err, added, s') = scale_up P [currentNodes + 1..targetNodes] [] s in (err, added, [], s')
                else let (err, removed, s') = scale_down P (rev [targetNodes + 1..currentNodes]) [] s in (err, [], removed, s'))
             in (case err of
               Some e \<Rightarrow> scale_failed e \<lparr>sc_PreviousNodeCount = currentNodes, sc_CurrentNodeCount = cp_GetNodeCount P s',
                 sc_AddedNodes = addedNodes, sc_RemovedNodes = removedNodes\<rparr>
             | None \<Rightarrow> writeJSONResponse 200 (JsonResponse
                 \<lparr>ar_Success = True,
                  ar_Message = ''Cluster scaled from '' @ sprintd currentNodes @ '' to '' @ sprintd targetNodes @ '' nodes'',
                  ar_Data = ScaleData \<lparr>sc_PreviousNodeCount = currentNodes, sc_CurrentNodeCount = targetNodes,
                    sc_AddedNodes = addedNodes, sc_RemovedNodes = removedNodes\<rparr>\<rparr>), Some s')))"

section \<open>The server\<close>

record APIConfig =
  ac_BindAddress :: string
  ac_BasePath :: string
  ac_ReadTimeout :: duration
  ac_WriteTimeout :: duration
  ac_IdleTimeout :: duration

definition DefaultAPIConfig :: APIConfig where
  "DefaultAPIConfig = \<lparr>ac_BindAddress = '':8080'', ac_BasePath = ''/api'', ac_ReadTimeout = 10 * 1000000000,
     ac_WriteTimeout = 10 * 1000000000, ac_IdleTimeout = 60 * 1000000000\<rparr>"

type_synonym ApiOption = "APIConfig \<Rightarrow> APIConfig"

definition WithBindAddress :: "string \<Rightarrow> ApiOption" where
  "WithBindAddress addr c = (if addr \<noteq> '''' then c\<lparr>ac_BindAddress := addr\<rparr> else c)"

definition WithBasePath :: "string \<Rightarrow> ApiOption" where
  "WithBasePath path c = (if path \<noteq> '''' then c\<lparr>ac_BasePath := path\<rparr> else c)"

definition Api_WithReadTimeout :: "duration \<Rightarrow> ApiOption" where
  "Api_WithReadTimeout timeout c = (if timeout > 0 then c\<lparr>ac_ReadTimeout := timeout\<rparr> else c)"

definition Api_WithWriteTimeout :: "duration \<Rightarrow> ApiOption" where
  "Api_WithWriteTimeout timeout c = (if timeout > 0 then c\<lparr>ac_WriteTimeout := timeout\<rparr> else c)"

definition WithTimeouts :: "duration \<Rightarrow> duration \<Rightarrow> duration \<Rightarrow> ApiOption" where
  "WithTimeouts readTimeout writeTimeout idleTimeout c = (
     let c = (if readTimeout > 0 then c\<lparr>ac_ReadTimeout := readTimeout\<rparr> else c);
         c = (if writeTimeout > 0 then c\<lparr>ac_WriteTimeout := writeTimeout\<rparr> else c)
     in if idleTimeout > 0 then c\<lparr>ac_IdleTimeout := idleTimeout\<rparr> else c)"

record ApiHttpServer = HttpServer +
  hs_ReadTimeout :: duration
  hs_WriteTimeout :: duration
  hs_IdleTimeout :: duration

record ('c, 's) APIServer =
  as_cache :: 'c
  as_clusterCache :: "'s option"
  as_server :: "ApiHttpServer option"
  as_config :: APIConfig
  as_running :: bool
  as_actualAddr :: string

definition NewAPIServer :: "'c \<Rightarrow> ApiOption list \<Rightarrow> ('c, 's) APIServer" where
  "NewAPIServer cache options = \<lparr>as_cache = cache, as_clusterCache = None, as_server = None,
     as_config = fold (\<lambda>opt. opt) options DefaultAPIConfig, as_running = False, as_actualAddr = ''''\<rparr>"

definition WithClusterCache :: "'s \<Rightarrow> ('c, 's) APIServer \<Rightarrow> ('c, 's) APIServer" where
  "WithClusterCache clusterCache srv = srv\<lparr>as_clusterCache := Some clusterCache\<rparr>"

definition setupRoutes :: "APIConfig \<Rightarrow> string list \<Rightarrow> string list option" where
  "setupRoutes config mux = do {
     mux \<leftarrow> HandleFunc (ac_BasePath config @ ''/stats'') mux;
     mux \<leftarrow> HandleFunc (ac_BasePath config @ ''/invalidate'') mux;
     HandleFunc (ac_BasePath config @ ''/scale'') mux }"

definition Api_Start :: "gerror + string \<Rightarrow> ('c, 's) APIServer \<Rightarrow> ((gerror + unit) \<times> ('c, 's) APIServer) option" where
  "Api_Start listen srv = (if as_running srv then Some (Inr (), srv)
     else do {
       mux \<leftarrow> setupRoutes (as_config srv) [];
       (case listen of
          Inl err \<Rightarrow> Some (Inl err, srv)
        | Inr addr \<Rightarrow> Some (Inr (), srv\<lparr>as_actualAddr := addr,
            as_server := Some \<lparr>hs_Addr = '''', hs_Handler = mux, hs_shut = False,
              hs_ReadTimeout = ac_ReadTimeout (as_config srv), hs_WriteTimeout = ac_WriteTimeout (as_config srv),
              hs_IdleTimeout = ac_IdleTimeout (as_config srv)\<rparr>,
            as_running := True\<rparr>)) })"

definition Api_Stop :: "gerror option \<Rightarrow> ('c, 's) APIServer \<Rightarrow> ((gerror + unit) \<times> ('c, 's) APIServer) option" where
  "Api_Stop shutdown srv = (if \<not> as_running srv then Some (Inr (), srv)
     else do {
       h \<leftarrow> as_server srv;
       Some ((case shutdown of None \<Rightarrow> Inr () | Some e \<Rightarrow> Inl e),
         srv\<lparr>as_server := Some (h\<lparr>hs_shut := True\<rparr>), as_running := False\<rparr>) })"

definition Api_IsRunning :: "('c, 's) APIServer \<Rightarrow> bool" where
  "Api_IsRunning srv = as_running srv"

definition Api_Address :: "('c, 's) APIServer \<Rightarrow> string" where
  "Api_Address srv = (if as_actualAddr srv \<noteq> '''' then as_actualAddr srv else ac_BindAddress (as_config srv))"

text \<open>A request that has reached the server: the route with its path answers it, and no other.\<close>

definition Api_serve :: "'c MemoryStatsProvider option \<Rightarrow> 'c cache_del \<Rightarrow> ('s, 'i) ClusterCacheProvider \<Rightarrow> string \<Rightarrow> ApiRequest
    \<Rightarrow> ('c, 's) APIServer \<Rightarrow> ('i api_answer \<times> ('c, 's) APIServer) option" where
  "Api_serve provider del P path r srv = (let base = ac_BasePath (as_config srv) in
     if path = base @ ''/stats'' then Some (HandleStats provider P r (as_cache srv) (as_clusterCache srv), srv)
     else if path = base @ ''/invalidate'' then do {
       (a, c) \<leftarrow> HandleInvalidate del r (as_cache srv); Some (a, srv\<lparr>as_cache := c\<rparr>) }
     else if path = base @ ''/scale'' then
       (if as_clusterCache srv \<noteq> None
        then let (a, cc) = HandleScale P r (as_clusterCache srv) in Some (a, srv\<lparr>as_clusterCache := cc\<rparr>)
        else Some (writeJSONResponse 400 (JsonResponse
          \<lparr>ar_Success = False, ar_Message = ''Scaling is only available in cluster mode'', ar_Data = NoData\<rparr>), srv))
     else Some ((404, PlainText ''404 page not found''), srv))"

section \<open>Names of nodes\<close>

lemma scale_node_inj: "0 \<le> i \<Longrightarrow> 0 \<le> j \<Longrightarrow> scale_node i = scale_node j \<longleftrightarrow> i = j"
proof -
  assume "0 \<le> i" "0 \<le> j"
  have "itoa m = itoa n \<longleftrightarrow> m = n" for m n by (metis atoi_digits_itoa option.inject)
  with \<open>0 \<le> i\<close> \<open>0 \<le> j\<close> show ?thesis by (simp add: scale_node_def sprintd_def eq_nat_nat_iff)
qed

lemma inj_on_scale_node: "inj_on scale_node {0..}"
  by (rule inj_onI) (simp add: scale_node_inj)

section \<open>Scaling\<close>

text \<open>The nodes that the handler adds for the numbers \<open>js\<close>.\<close>

definition add_nodes :: "(string \<Rightarrow> string \<Rightarrow> 'a) \<Rightarrow> int list \<Rightarrow> (string \<rightharpoonup> 'a) \<Rightarrow> (string \<rightharpoonup> 'a)" where
  "add_nodes client js N = fold (\<lambda>i N. N(scale_node i \<mapsto> client (scale_node i) (scale_address i))) js N"

lemma dom_add_nodes: "dom (add_nodes client js N) = dom N \<union> scale_node ` set js"
  unfolding add_nodes_def by (induction js arbitrary: N) auto

text \<open>What the handler of \<open>/scale\<close> relies on: a cluster whose \<open>nodes\<close> are known by distinct names, to which a
  new name can be added with the client \<open>client\<close> makes, and from which a known name can be removed; a
  known name is not added again, an unknown one not removed.\<close>

locale scalable =
  fixes P :: "('s, 'i) ClusterCacheProvider"
    and inv :: "'s \<Rightarrow> bool"
    and nodes :: "'s \<Rightarrow> string \<rightharpoonup> 'a"
    and client :: "string \<Rightarrow> string \<Rightarrow> 'a"
  assumes finite_nodes: "inv s \<Longrightarrow> finite (dom (nodes s))"
    and count_law: "inv s \<Longrightarrow> cp_GetNodeCount P s = int (card (dom (nodes s)))"
    and add_law: "inv s \<Longrightarrow> \<exists>r s'. cp_AddNode P k a s = (r, s') \<and> inv s' \<and> (isl r \<longleftrightarrow> k \<in> dom (nodes s))
       \<and> nodes s' = (if k \<in> dom (nodes s) then nodes s else (nodes s)(k \<mapsto> client k a))"
    and remove_law: "inv s \<Longrightarrow> \<exists>r s'. cp_RemoveNode P k s = (r, s') \<and> inv s' \<and> (isl r \<longleftrightarrow> k \<notin> dom (nodes s))
       \<and> nodes s' = (nodes s)(k := None)"
begin

lemma scale_up_law:
  assumes "inv s" "distinct is" "set is \<subseteq> {0..}"
  defines "js \<equiv> takeWhile (\<lambda>i. scale_node i \<notin> dom (nodes s)) is"
  shows "\<exists>err s'. scale_up P is added s = (err, added @ map scale_node js, s') \<and> inv s'
    \<and> nodes s' = add_nodes client js (nodes s) \<and> (err = None \<longleftrightarrow> js = is)"
  using assms(1-3) unfolding js_def
proof (induction "is" arbitrary: s added)
  case (Cons i "is")
  obtain r s1 where 1: "cp_AddNode P (scale_node i) (scale_address i) s = (r, s1)" "inv s1"
    "isl r \<longleftrightarrow> scale_node i \<in> dom (nodes s)"
    "nodes s1 = (if scale_node i \<in> dom (nodes s) then nodes s
       else (nodes s)(scale_node i \<mapsto> client (scale_node i) (scale_address i)))"
    using add_law [OF Cons.prems(1)] by blast
  show ?case
  proof (cases r)
    case (Inl e)
    with 1 show ?thesis by (auto simp: add_nodes_def)
  next
    case (Inr u)
    have new: "scale_node j \<noteq> scale_node i" if "j \<in> set is" for j
      using that Cons.prems(2,3) by (auto simp: scale_node_inj)
    have tw: "takeWhile (\<lambda>j. scale_node j \<notin> dom (nodes s1)) is = takeWhile (\<lambda>j. scale_node j \<notin> dom (nodes s)) is"
      using new by (intro takeWhile_cong) (auto simp: 1(4))
    show ?thesis
      using Cons.IH [OF 1(2), of "added @ [scale_node i]"] Cons.prems(2,3) 1 Inr unfolding tw
      by (auto simp: add_nodes_def)
  qed
qed (simp add: add_nodes_def)

lemma scale_down_law:
  assumes "inv s" "distinct is" "set is \<subseteq> {0..}"
  defines "js \<equiv> takeWhile (\<lambda>i. scale_node i \<in> dom (nodes s)) is"
  shows "\<exists>err s'. scale_down P is removed s = (err, removed @ map scale_node js, s') \<and> inv s'
    \<and> nodes s' = nodes s |` (- scale_node ` set js) \<and> (err = None \<longleftrightarrow> js = is)"
  using assms(1-3) unfolding js_def
proof (induction "is" arbitrary: s removed)
  case (Cons i "is")
  obtain r s1 where 1: "cp_RemoveNode P (scale_node i) s = (r, s1)" "inv s1"
    "isl r \<longleftrightarrow> scale_node i \<notin> dom (nodes s)" "nodes s1 = (nodes s)(scale_node i := None)"
    using remove_law [OF Cons.prems(1)] by blast
  show ?case
  proof (cases r)
    case (Inl e)
    with 1 show ?thesis by (auto simp: fun_upd_idem_iff domIff)
  next
    case (Inr u)
    have new: "scale_node j \<noteq> scale_node i" if "j \<in> set is" for j
      using that Cons.prems(2,3) by (auto simp: scale_node_inj)
    have tw: "takeWhile (\<lambda>j. scale_node j \<in> dom (nodes s1)) is = takeWhile (\<lambda>j. scale_node j \<in> dom (nodes s)) is"
      using new by (intro takeWhile_cong) (auto simp: 1(4))
    obtain err s' where 2: "scale_down P is (removed @ [scale_node i]) s1
        = (err, (removed @ [scale_node i]) @ map scale_node (takeWhile (\<lambda>j. scale_node j \<in> dom (nodes s)) is), s')"
      "inv s'" "nodes s' = nodes s1 |` (- scale_node ` set (takeWhile (\<lambda>j. scale_node j \<in> dom (nodes s)) is))"
      "err = None \<longleftrightarrow> takeWhile (\<lambda>j. scale_node j \<in> dom (nodes s)) is = is"
      using Cons.IH [OF 1(2), of "removed @ [scale_node i]"] Cons.prems(2,3) unfolding tw by auto
    have "nodes s' = nodes s |` (- scale_node ` set (i # takeWhile (\<lambda>j. scale_node j \<in> dom (nodes s)) is))"
      unfolding 2(3) 1(4) by (simp add: restrict_map_def fun_eq_iff)
    moreover have "scale_node i \<in> dom (nodes s)" using 1(3) Inr by simp
    ultimately show ?thesis using 1(1) 2(1,2,4) Inr by simp
  qed
qed (simp add: restrict_map_def)

end

text \<open>The numbers whose nodes a request for \<open>t\<close> nodes adds to or removes from the nodes \<open>N\<close>: those in the order
  of the loop, up to the first whose node is there already, or is missing; and the nodes after it.\<close>

definition scale_plan :: "int \<Rightarrow> (string \<rightharpoonup> 'a) \<Rightarrow> int list" where
  "scale_plan t N = (let c = int (card (dom N)) in
     if t > c then takeWhile (\<lambda>i. scale_node i \<notin> dom N) [c + 1..t]
     else takeWhile (\<lambda>i. scale_node i \<in> dom N) (rev [t + 1..c]))"

definition scaled :: "(string \<Rightarrow> string \<Rightarrow> 'a) \<Rightarrow> int \<Rightarrow> (string \<rightharpoonup> 'a) \<Rightarrow> (string \<rightharpoonup> 'a)" where
  "scaled client t N = (if t > int (card (dom N)) then add_nodes client (scale_plan t N) N
     else N |` (- scale_node ` set (scale_plan t N)))"

definition scale_done :: "int \<Rightarrow> (string \<rightharpoonup> 'a) \<Rightarrow> bool" where
  "scale_done t N \<longleftrightarrow> int (length (scale_plan t N)) = \<bar>t - int (card (dom N))\<bar>"

text \<open>What the answer tells of a request for \<open>t\<close> nodes that led from the nodes \<open>N\<close> to \<open>N'\<close>.\<close>

definition scale_report :: "int \<Rightarrow> (string \<rightharpoonup> 'a) \<Rightarrow> (string \<rightharpoonup> 'a) \<Rightarrow> ScaleInfo" where
  "scale_report t N N' = (let ids = map scale_node (scale_plan t N); c = int (card (dom N)) in
     \<lparr>sc_PreviousNodeCount = c, sc_CurrentNodeCount = int (card (dom N')),
      sc_AddedNodes = (if t > c then ids else []), sc_RemovedNodes = (if t > c then [] else ids)\<rparr>)"

fun scale_info :: "'i api_answer \<Rightarrow> ScaleInfo option" where
  "scale_info (_, JsonResponse a) = (case ar_Data a of ScaleData info \<Rightarrow> Some info | _ \<Rightarrow> None)"
| "scale_info _ = None"

lemma takeWhile_all_iff: "takeWhile Q xs = xs \<longleftrightarrow> length (takeWhile Q xs) = length xs"
  by (metis takeWhile_eq_take take_all order_refl)

lemma scale_plan_up: "int (card (dom N)) < t \<Longrightarrow> scale_plan t N = [int (card (dom N)) + 1..t] \<longleftrightarrow> scale_done t N"
  unfolding scale_done_def scale_plan_def Let_def
  by (simp add: takeWhile_all_iff del: takeWhile_eq_all_conv) linarith

lemma scale_plan_down: "t < int (card (dom N)) \<Longrightarrow> scale_plan t N = rev [t + 1..int (card (dom N))] \<longleftrightarrow> scale_done t N"
  unfolding scale_done_def scale_plan_def Let_def
  by (simp add: takeWhile_all_iff del: takeWhile_eq_all_conv) linarith

lemma card_add_nodes:
  assumes "finite (dom N)" "distinct js" "set js \<subseteq> {0..}" "\<forall>i\<in>set js. scale_node i \<notin> dom N"
  shows "card (dom (add_nodes client js N)) = card (dom N) + length js"
proof -
  have "inj_on scale_node (set js)" using assms(3) inj_on_scale_node by (rule inj_on_subset [rotated])
  then have "card (scale_node ` set js) = length js" using assms(2) by (simp add: card_image distinct_card)
  moreover have "dom N \<inter> scale_node ` set js = {}" using assms(4) by auto
  ultimately show ?thesis using assms(1) by (simp add: dom_add_nodes card_Un_disjoint)
qed

lemma card_remove_nodes:
  assumes "finite (dom N)" "distinct js" "set js \<subseteq> {0..}" "\<forall>i\<in>set js. scale_node i \<in> dom N"
  shows "card (dom (N |` (- scale_node ` set js))) + length js = card (dom N)"
proof -
  have "inj_on scale_node (set js)" using assms(3) inj_on_scale_node by (rule inj_on_subset [rotated])
  then have c: "card (scale_node ` set js) = length js" using assms(2) by (simp add: card_image distinct_card)
  have sub: "scale_node ` set js \<subseteq> dom N" using assms(4) by auto
  have "dom (N |` (- scale_node ` set js)) = dom N - scale_node ` set js" by auto
  then show ?thesis using card_Diff_subset [OF _ sub] card_mono [OF assms(1) sub] c by simp
qed

lemma card_scaled:
  assumes "finite (dom N)" "1 \<le> t" "scale_done t N"
  shows "int (card (dom (scaled client t N))) = t"
proof (cases "t > int (card (dom N))")
  case True
  have "set (scale_plan t N) \<subseteq> {0..}" "distinct (scale_plan t N)" "\<forall>i\<in>set (scale_plan t N). scale_node i \<notin> dom N"
    using True by (auto simp: scale_plan_def Let_def dest: set_takeWhileD)
  from card_add_nodes [OF assms(1) this(2,1,3)] True assms(3) show ?thesis by (simp add: scaled_def scale_done_def)
next
  case False
  have "set (scale_plan t N) \<subseteq> {0..}" "distinct (scale_plan t N)" "\<forall>i\<in>set (scale_plan t N). scale_node i \<in> dom N"
    using False assms(2) by (auto simp: scale_plan_def Let_def dest: set_takeWhileD)
  from card_remove_nodes [OF assms(1) this(2,1,3)] False assms(3) show ?thesis by (simp add: scaled_def scale_done_def)
qed

context scalable
begin

lemma HandleScale_law:
  assumes "inv s" "rq_Method r = ''POST''" "Atoi (query_Get ''nodes'' r) = Some t" "1 \<le> t"
  shows "\<exists>a s'. HandleScale P r (Some s) = (a, Some s') \<and> inv s' \<and> nodes s' = scaled client t (nodes s)
    \<and> fst a = (if scale_done t (nodes s) then 200 else 500)
    \<and> scale_info a = Some (scale_report t (nodes s) (nodes s'))"
proof -
  let ?c = "int (card (dom (nodes s)))"
  have c: "cp_GetNodeCount P s = ?c" using count_law [OF assms(1)] .
  consider (same) "t = ?c" | (up) "t > ?c" | (down) "t < ?c" by linarith
  then show ?thesis
  proof cases
    case same
    then have "nodes s = scaled client t (nodes s)" "scale_plan t (nodes s) = []"
      by (auto simp: scaled_def scale_plan_def)
    then show ?thesis using same assms c
      by (simp add: HandleScale_def writeJSONResponse_def scale_done_def scale_report_def Let_def)
  next
    case up
    obtain err s' where 1: "scale_up P [?c + 1..t] [] s = (err, [] @ map scale_node (scale_plan t (nodes s)), s')" "inv s'"
      "nodes s' = add_nodes client (scale_plan t (nodes s)) (nodes s)" "err = None \<longleftrightarrow> scale_plan t (nodes s) = [?c + 1..t]"
      using scale_up_law [OF assms(1), of "[?c + 1..t]" "[]"] up by (auto simp: scale_plan_def Let_def)
    have n: "nodes s' = scaled client t (nodes s)" using up by (simp add: 1(3) scaled_def)
    have e: "err = None \<longleftrightarrow> scale_done t (nodes s)"
      unfolding 1(4) by (rule scale_plan_up [OF up])
    have d: "err = None \<Longrightarrow> int (card (dom (nodes s'))) = t"
      using card_scaled [OF finite_nodes [OF assms(1)] assms(4)] e n by simp
    show ?thesis using up assms c 1(1,2) n e d count_law [OF 1(2)]
      by (cases err) (simp_all add: HandleScale_def writeJSONResponse_def scale_failed_def scale_report_def Let_def)
  next
    case down
    obtain err s' where 1: "scale_down P (rev [t + 1..?c]) [] s = (err, [] @ map scale_node (scale_plan t (nodes s)), s')" "inv s'"
      "nodes s' = nodes s |` (- scale_node ` set (scale_plan t (nodes s)))" "err = None \<longleftrightarrow> scale_plan t (nodes s) = rev [t + 1..?c]"
      using scale_down_law [OF assms(1), of "rev [t + 1..?c]" "[]"] down assms(4) by (auto simp: scale_plan_def Let_def)
    have n: "nodes s' = scaled client t (nodes s)" using down by (simp add: 1(3) scaled_def)
    have e: "err = None \<longleftrightarrow> scale_done t (nodes s)"
      unfolding 1(4) by (rule scale_plan_down [OF down])
    have d: "err = None \<Longrightarrow> int (card (dom (nodes s'))) = t"
      using card_scaled [OF finite_nodes [OF assms(1)] assms(4)] e n by simp
    show ?thesis using down assms c 1(1,2) n e d count_law [OF 1(2)]
      by (cases err) (simp_all add: HandleScale_def writeJSONResponse_def scale_failed_def scale_report_def Let_def)
  qed
qed

end

text \<open>Going back to the former number removes the nodes that were added.\<close>

lemma scale_back:
  assumes "finite (dom N)" "1 \<le> int (card (dom N))" "t > int (card (dom N))" "scale_done t N"
    and N'_def: "N' = scaled client t N"
  shows "scale_done (int (card (dom N))) N'" "scaled client (int (card (dom N))) N' = N"
proof -
  let ?c = "int (card (dom N))"
  have c': "int (card (dom N')) = t" unfolding N'_def using card_scaled [OF assms(1) _ assms(4)] assms(2,3) by simp
  have plan: "scale_plan t N = [?c + 1..t]" and new: "\<forall>i\<in>{?c + 1..t}. scale_node i \<notin> dom N"
  proof -
    show p: "scale_plan t N = [?c + 1..t]" using scale_plan_up [OF assms(3)] assms(4) by simp
    show "\<forall>i\<in>{?c + 1..t}. scale_node i \<notin> dom N" using p assms(3) by (simp add: scale_plan_def Let_def)
  qed
  have N': "N' = add_nodes client [?c + 1..t] N" unfolding N'_def scaled_def plan using assms(3) by simp
  have bk: "scale_plan ?c N' = rev [?c + 1..t]"
    unfolding scale_plan_def c' Let_def using assms(3) by (simp add: takeWhile_eq_all_conv N' dom_add_nodes)
  show "scale_done ?c N'" using assms(3) by (simp add: scale_done_def bk c')
  have other: "add_nodes client js N k = N k" if "k \<notin> scale_node ` set js" for js k
    using that unfolding add_nodes_def by (induction js arbitrary: N) auto
  show "scaled client ?c N' = N"
  proof
    fix k
    show "scaled client ?c N' k = N k"
    proof (cases "k \<in> scale_node ` {?c + 1..t}")
      case True
      with new have "N k = None" by auto
      with True assms(3) show ?thesis unfolding scaled_def bk c' by simp
    next
      case False
      with assms(3) other [of k "[?c + 1..t]"] show ?thesis unfolding scaled_def bk c' by (simp add: N')
    qed
  qed
qed

section \<open>The sharded cluster cache behind the API\<close>

definition sharded_provider :: "('c ShardedClusterCache, ShardedClusterInfo) ClusterCacheProvider" where
  "sharded_provider = \<lparr>cp_GetNodeCount = (\<lambda>scc. int (Sharded_GetNodeCount scc)), cp_GetClusterInfo = Sharded_GetClusterInfo,
     cp_AddNode = Sharded_AddNode, cp_RemoveNode = Sharded_RemoveNode\<rparr>"

definition sharded_nodes :: "'c ShardedClusterCache \<Rightarrow> string \<rightharpoonup> 'c cache_object" where
  "sharded_nodes scc k = map_option (nsc_store (sc_shardedCache scc)) (map_of (nsc_nodes (sc_shardedCache scc)) k)"

definition remote_client :: "string \<Rightarrow> string \<Rightarrow> 'c cache_object" where
  "remote_client k a = RemoteObj (NewRemoteCache k a [])"

definition scc_inv :: "'c ShardedClusterCache \<Rightarrow> bool" where
  "scc_inv scc \<longleftrightarrow> nsc_inv (sc_shardedCache scc)"

lemma dom_sharded_nodes: "dom (sharded_nodes scc) = dom (map_of (nsc_nodes (sc_shardedCache scc)))"
  by (auto simp: sharded_nodes_def dom_def)

lemma Sharded_GetNodeCount_card:
  assumes "scc_inv scc"
  shows "Sharded_GetNodeCount scc = card (dom (sharded_nodes scc))"
proof -
  let ?c = "nsc_ring (sc_shardedCache scc)"
  have "wf_gomap (weights ?c)" "dom (map_of (nsc_nodes (sc_shardedCache scc))) = dom (map_of (weights ?c))"
    using assms by (simp_all add: scc_inv_def nsc_inv_def ring_inv_def)
  then show ?thesis
    by (simp add: Sharded_GetNodeCount_def Nsc_GetNodeIDs_def Ring_GetNodes_def dom_sharded_nodes length_gomap_card)
qed

lemma Sharded_AddNode_law:
  assumes "scc_inv scc"
  shows "\<exists>r scc'. Sharded_AddNode k a scc = (r, scc') \<and> scc_inv scc' \<and> (isl r \<longleftrightarrow> k \<in> dom (sharded_nodes scc))
    \<and> sharded_nodes scc' = (if k \<in> dom (sharded_nodes scc) then sharded_nodes scc else (sharded_nodes scc)(k \<mapsto> remote_client k a))"
proof -
  let ?nsc = "sc_shardedCache scc"
  have inv: "nsc_inv ?nsc" using assms by (simp add: scc_inv_def)
  obtain r nsc where 1: "add_remote k a ?nsc = (r, nsc)" by (cases "add_remote k a ?nsc")
  have store: "nsc_store nsc = (nsc_store ?nsc)(fresh_ref ?nsc := RemoteObj (NewRemoteCache k a []))"
    using 1 by (auto simp: add_remote_def Let_def Nsc_AddNode_def split: if_splits)
  have res: "isl r \<longleftrightarrow> k \<in> dom (map_of (nsc_nodes ?nsc))"
    using 1 by (auto simp: add_remote_def Let_def Nsc_AddNode_def split: if_splits)
  have old: "nsc_store nsc x = nsc_store ?nsc x" if "map_of (nsc_nodes ?nsc) j = Some x" for x j
    using fresh_ref_fresh [OF that] by (simp add: store)
  have nodes: "sharded_nodes (scc\<lparr>sc_shardedCache := nsc\<rparr>) =
      (if k \<in> dom (sharded_nodes scc) then sharded_nodes scc else (sharded_nodes scc)(k \<mapsto> remote_client k a))"
  proof
    fix j
    show "sharded_nodes (scc\<lparr>sc_shardedCache := nsc\<rparr>) j =
        (if k \<in> dom (sharded_nodes scc) then sharded_nodes scc else (sharded_nodes scc)(k \<mapsto> remote_client k a)) j"
      using add_remote_nodes(2) [OF inv, of k a] old [of j] 1 store
      by (cases "map_of (nsc_nodes ?nsc) j") (auto simp: sharded_nodes_def dom_sharded_nodes remote_client_def)
  qed
  moreover have "scc_inv (scc\<lparr>sc_shardedCache := nsc\<rparr>)"
    using add_remote_nodes(1) [OF inv, of k a] 1 by (simp add: scc_inv_def)
  ultimately show ?thesis using 1 res by (simp add: Sharded_AddNode_def dom_sharded_nodes)
qed

lemma Sharded_RemoveNode_law:
  assumes "scc_inv scc"
  shows "\<exists>r scc'. Sharded_RemoveNode k scc = (r, scc') \<and> scc_inv scc' \<and> (isl r \<longleftrightarrow> k \<notin> dom (sharded_nodes scc))
    \<and> sharded_nodes scc' = (sharded_nodes scc)(k := None)"
proof -
  let ?nsc = "sc_shardedCache scc"
  obtain r nsc where 1: "Nsc_RemoveNode k ?nsc = (r, nsc)" by (cases "Nsc_RemoveNode k ?nsc")
  have inv: "nsc_inv nsc" using nsc_step_inv [of ?nsc "NRemove k"] assms 1 by (simp add: scc_inv_def)
  have "isl r \<longleftrightarrow> k \<notin> dom (map_of (nsc_nodes ?nsc))" "nsc_store nsc = nsc_store ?nsc"
    "map_of (nsc_nodes nsc) = (map_of (nsc_nodes ?nsc))(k := None)"
    using 1 by (auto simp: Nsc_RemoveNode_def split: if_splits)
  then show ?thesis
    using 1 inv by (auto simp: Sharded_RemoveNode_def dom_sharded_nodes scc_inv_def sharded_nodes_def)
qed

interpretation sharded_api: scalable sharded_provider scc_inv sharded_nodes remote_client
proof
  fix s :: "'c ShardedClusterCache" and k a
  assume inv: "scc_inv s"
  show "finite (dom (sharded_nodes s))" by (simp add: dom_sharded_nodes finite_dom_map_of)
  show "cp_GetNodeCount sharded_provider s = int (card (dom (sharded_nodes s)))"
    using Sharded_GetNodeCount_card [OF inv] by (simp add: sharded_provider_def)
  show "\<exists>r s'. cp_AddNode sharded_provider k a s = (r, s') \<and> scc_inv s' \<and> isl r = (k \<in> dom (sharded_nodes s))
      \<and> sharded_nodes s' = (if k \<in> dom (sharded_nodes s) then sharded_nodes s else (sharded_nodes s)(k \<mapsto> remote_client k a))"
    using Sharded_AddNode_law [OF inv, of k a] unfolding sharded_provider_def by simp
  show "\<exists>r s'. cp_RemoveNode sharded_provider k s = (r, s') \<and> scc_inv s' \<and> isl r = (k \<notin> dom (sharded_nodes s))
      \<and> sharded_nodes s' = (sharded_nodes s)(k := None)"
    using Sharded_RemoveNode_law [OF inv, of k] unfolding sharded_provider_def by simp
qed

definition memory_stats :: "(('v, 'u) MemoryCache \<times> 'u) MemoryStatsProvider" where
  "memory_stats = \<lparr>sp_MemoryUsage = (\<lambda>cu. MemCache_MemoryUsage (fst cu)), sp_ItemCount = (\<lambda>cu. MemCache_ItemCount (fst cu)),
     sp_HitRate = (\<lambda>cu. MemCache_HitRate (fst cu)), sp_MissRate = (\<lambda>cu. MemCache_MissRate (fst cu))\<rparr>"

abbreviation scale_path :: "('c, 's) APIServer \<Rightarrow> string" where
  "scale_path srv \<equiv> ac_BasePath (as_config srv) @ ''/scale''"

abbreviation scale_request :: "int \<Rightarrow> ApiRequest" where
  "scale_request t \<equiv> \<lparr>rq_Method = ''POST'', rq_Query = [(''nodes'', sprintd t)]\<rparr>"

lemma serve_scale:
  assumes "as_clusterCache srv = Some scc" "scc_inv scc" "1 \<le> t" "t < 2 ^ 63"
  shows "\<exists>a scc'. Api_serve provider del sharded_provider (scale_path srv) (scale_request t) srv
      = Some (a, srv\<lparr>as_clusterCache := Some scc'\<rparr>)
    \<and> scc_inv scc' \<and> sharded_nodes scc' = scaled remote_client t (sharded_nodes scc)
    \<and> fst a = (if scale_done t (sharded_nodes scc) then 200 else 500)
    \<and> scale_info a = Some (scale_report t (sharded_nodes scc) (sharded_nodes scc'))"
proof -
  have "Atoi (query_Get ''nodes'' (scale_request t)) = Some t"
    using Atoi_sprintd [of t] assms(3,4) by (simp add: query_Get_def)
  from sharded_api.HandleScale_law [OF assms(2) _ this assms(3)] show ?thesis
    using assms(1) by (fastforce simp: Api_serve_def)
qed


lemma scc_a_nodes: "scc_inv scc_a" "sharded_nodes scc_a = [''a'' \<mapsto> LocalObj ()]"
proof -
  show "scc_inv scc_a" using distributor_invD(2) [OF new_sharded_inv(1) [OF scc_a_new]] by (simp add: scc_inv_def)
  show "sharded_nodes scc_a = [''a'' \<mapsto> LocalObj ()]"
    by (simp add: scc_a_def NewShardedClusterCache_def NewNode_def Nsc_AddNode_def NewNodeShardedCache_def Let_def
        sharded_nodes_def fun_eq_iff split: sum.splits)
qed

definition api_a :: "(unit, unit ShardedClusterCache) APIServer" where
  "api_a = WithClusterCache scc_a (NewAPIServer () [])"

lemma api_a_cluster: "as_clusterCache api_a = Some scc_a" "scale_path api_a = ''/api/scale''"
  by (simp_all add: api_a_def WithClusterCache_def NewAPIServer_def DefaultAPIConfig_def)

lemma sprintd_small: "sprintd 2 = ''2''" "sprintd 3 = ''3''" "sprintd 1 = ''1''"
  by code_simp+

lemma plan_a: "scale_plan 3 [''a'' \<mapsto> LocalObj ()] = [2, 3]"
  by (simp add: scale_plan_def scale_node_def sprintd_small upto.simps)


text \<open>Scaling back: when growing the cluster to \<open>t\<close> nodes answered 200, asking for the former
  number answers 200 too and leaves exactly the nodes there were, each with the cache it had.\<close>

theorem api_scale_roundtrip:
  assumes "as_clusterCache srv = Some scc" "scc_inv scc" "sharded_nodes scc \<noteq> Map.empty"
    and "int (Sharded_GetNodeCount scc) < t" "t < 2 ^ 63"
    and "Api_serve provider del sharded_provider (scale_path srv) (scale_request t) srv = Some ((200, b), srv')"
  shows "\<exists>b' scc''. Api_serve provider del sharded_provider (scale_path srv') (scale_request (int (Sharded_GetNodeCount scc))) srv'
      = Some ((200, b'), srv\<lparr>as_clusterCache := Some scc''\<rparr>)
    \<and> scc_inv scc'' \<and> sharded_nodes scc'' = sharded_nodes scc"
proof -
  let ?N = "sharded_nodes scc" and ?c = "int (Sharded_GetNodeCount scc)"
  have c: "?c = int (card (dom ?N))" using Sharded_GetNodeCount_card [OF assms(2)] by simp
  have fin: "finite (dom ?N)" by (simp add: dom_sharded_nodes finite_dom_map_of)
  have pos: "1 \<le> int (card (dom ?N))" using fin assms(3) card_gt_0_iff [of "dom ?N"] by auto
  obtain scc' where 1: "srv' = srv\<lparr>as_clusterCache := Some scc'\<rparr>" "scc_inv scc'"
    "sharded_nodes scc' = scaled remote_client t ?N" "scale_done t ?N"
    using serve_scale [OF assms(1,2) _ assms(5), of provider del] pos c assms(4,6) by (auto split: if_splits)
  have bk: "scale_done ?c (sharded_nodes scc')" "scaled remote_client ?c (sharded_nodes scc') = ?N"
    unfolding c using scale_back [OF fin pos _ 1(4) 1(3)] assms(4) c by auto
  obtain a scc'' where 2: "Api_serve provider del sharded_provider (scale_path srv') (scale_request ?c) srv'
      = Some (a, srv'\<lparr>as_clusterCache := Some scc''\<rparr>)" "scc_inv scc''" "sharded_nodes scc'' = ?N" "fst a = 200"
    using serve_scale [of srv' scc' ?c provider del] 1(1,2) pos c assms(4,5) bk by auto
  from 2(1,4) have "Api_serve provider del sharded_provider (scale_path srv') (scale_request ?c) srv'
      = Some ((200, snd a), srv\<lparr>as_clusterCache := Some scc''\<rparr>)" by (cases a) (simp add: 1(1))
  with 2(2,3) show ?thesis by blast
qed

theorem api_scale_roundtrip_witness:
  "\<exists>b srv' b' scc''. Api_serve None (\<lambda>k c. Some (Inr (), c)) sharded_provider ''/api/scale'' (scale_request 3) api_a = Some ((200, b), srv')
    \<and> Api_serve None (\<lambda>k c. Some (Inr (), c)) sharded_provider (scale_path srv') (scale_request 1) srv'
      = Some ((200, b'), api_a\<lparr>as_clusterCache := Some scc''\<rparr>)
    \<and> dom (sharded_nodes scc'') = {''a''}"
proof -
  have c: "int (Sharded_GetNodeCount scc_a) = 1"
    using Sharded_GetNodeCount_card [OF scc_a_nodes(1)] by (simp add: scc_a_nodes)
  have ne: "sharded_nodes scc_a \<noteq> Map.empty" by (simp add: scc_a_nodes)
  obtain b srv' where 1: "Api_serve None (\<lambda>k c. Some (Inr (), c)) sharded_provider (scale_path api_a) (scale_request 3) api_a
      = Some ((200, b), srv')"
    using serve_scale [OF api_a_cluster(1) scc_a_nodes(1), of 3 None "\<lambda>k c. Some (Inr (), c)"]
    by (auto simp: scale_done_def plan_a scc_a_nodes)
  obtain b' scc'' where "Api_serve None (\<lambda>k c. Some (Inr (), c)) sharded_provider (scale_path srv') (scale_request 1) srv'
      = Some ((200, b'), api_a\<lparr>as_clusterCache := Some scc''\<rparr>)" "sharded_nodes scc'' = sharded_nodes scc_a"
    using api_scale_roundtrip [OF api_a_cluster(1) scc_a_nodes(1) ne _ _ 1] c by auto
  moreover have "dom (sharded_nodes scc_a) = {''a''}" by (simp add: scc_a_nodes)
  ultimately show ?thesis using 1 unfolding api_a_cluster(2) by metis
qed

section \<open>Invalidation and statistics\<close>

abbreviation invalidate_request :: "string \<Rightarrow> ApiRequest" where
  "invalidate_request k \<equiv> \<lparr>rq_Method = ''POST'', rq_Query = [(''key'', k)]\<rparr>"

context ttl_cache
begin

lemma serve_invalidate:
  assumes "rep (as_cache srv) m" "k \<noteq> ''''"
  shows "\<exists>c' msg. Api_serve provider del P (ac_BasePath (as_config srv) @ ''/invalidate'') (invalidate_request k) srv
      = Some ((200, JsonResponse \<lparr>ar_Success = True, ar_Message = msg, ar_Data = InvalidateResponse k\<rparr>), srv\<lparr>as_cache := c'\<rparr>)
    \<and> rep c' (m(k := None))"
  using del_law [OF assms(1), of k] assms(2)
  by (auto simp: Api_serve_def HandleInvalidate_def query_Get_def writeJSONResponse_def)

end

text \<open>Invalidation over the memory cache: a \<open>POST\<close> that names a key answers 200 with that key, after it a
  read of the key at any time misses, and every other key reads as before; the cluster is not touched.\<close>

theorem api_invalidate_correct:
  assumes "mem_rep (as_cache srv) m" "k \<noteq> ''''"
  shows "\<exists>c' msg. Api_serve (Some memory_stats) MemCache_Del P (ac_BasePath (as_config srv) @ ''/invalidate'') (invalidate_request k) srv
      = Some ((200, JsonResponse \<lparr>ar_Success = True, ar_Message = msg, ar_Data = InvalidateResponse k\<rparr>), srv\<lparr>as_cache := c'\<rparr>)
    \<and> (\<forall>now j. \<exists>c''. MemCache_Get now j c' = Some (get_result (if j = k then None else live now m j), c''))"
proof -
  obtain c' msg where 1: "Api_serve (Some memory_stats) MemCache_Del P (ac_BasePath (as_config srv) @ ''/invalidate'') (invalidate_request k) srv
      = Some ((200, JsonResponse \<lparr>ar_Success = True, ar_Message = msg, ar_Data = InvalidateResponse k\<rparr>), srv\<lparr>as_cache := c'\<rparr>)"
    "mem_rep c' (m(k := None))"
    using mem.serve_invalidate [OF assms] by blast
  have "\<exists>c''. MemCache_Get now j c' = Some (get_result (if j = k then None else live now m j), c'')" for now j
    using mem.get_law [OF 1(2), of now j] by auto
  with 1(1) show ?thesis by blast
qed

definition api_m :: "((int, unit) MemoryCache \<times> unit, unit ShardedClusterCache) APIServer" where
  "api_m = NewAPIServer (NewMemoryCache 4 (\<lambda>_ _. False) [], ()) []"

theorem api_invalidate_correct_witness:
  "\<exists>c' msg. Api_serve (Some memory_stats) MemCache_Del sharded_provider ''/api/invalidate'' (invalidate_request ''x'') api_m
      = Some ((200, JsonResponse \<lparr>ar_Success = True, ar_Message = msg, ar_Data = InvalidateResponse ''x''\<rparr>), api_m\<lparr>as_cache := c'\<rparr>)
    \<and> (\<exists>c''. MemCache_Get 5 ''x'' c' = Some (Inl ErrKeyNotFound, c''))"
proof -
  have "mem_rep (as_cache api_m) Map.empty"
    unfolding api_m_def NewAPIServer_def using mem_rep_new [of "[]"] by (simp add: default_cache_def DefaultShardCount_def)
  note law = api_invalidate_correct [OF this, of "''x''" sharded_provider]
  have p: "ac_BasePath (as_config api_m) @ ''/invalidate'' = ''/api/invalidate''"
    by (simp add: api_m_def NewAPIServer_def DefaultAPIConfig_def)
  obtain c' msg where 1: "Api_serve (Some memory_stats) MemCache_Del sharded_provider ''/api/invalidate'' (invalidate_request ''x'') api_m
      = Some ((200, JsonResponse \<lparr>ar_Success = True, ar_Message = msg, ar_Data = InvalidateResponse ''x''\<rparr>), api_m\<lparr>as_cache := c'\<rparr>)"
    and 2: "\<forall>now j. \<exists>c''. MemCache_Get now j c' = Some (get_result (if j = ''x'' then None else live now Map.empty j), c'')"
    using law unfolding p by blast
  from 2 [rule_format, of 5 "''x''"] have "\<exists>c''. MemCache_Get 5 ''x'' c' = Some (Inl ErrKeyNotFound, c'')" by simp
  with 1 show ?thesis by blast
qed

text \<open>Requests that are refused change nothing: a wrong method, a missing or wrong parameter, no cluster, an
  unknown path.\<close>

lemma HandleInvalidate_refused:
  "HandleInvalidate del r c = Some ((status, b), c') \<Longrightarrow> status \<notin> {200, 500} \<Longrightarrow> c' = c"
  by (auto simp: HandleInvalidate_def method_not_allowed_def writeJSONResponse_def Let_def
      split: if_splits bind_splits sum.splits)

lemma HandleScale_refused:
  assumes "HandleScale P r cc = ((status, b), cc')" "status \<notin> {200, 500}"
  shows "cc' = cc"
proof (cases "rq_Method r = ''POST'' \<and> cc \<noteq> None")
  case False
  with assms(1) show ?thesis by (cases cc) (auto simp: HandleScale_def split: if_splits)
next
  case True
  then obtain s where "cc = Some s" by auto
  with True assms show ?thesis
    by (cases "Atoi (query_Get ''nodes'' r)")
      (auto simp: HandleScale_def writeJSONResponse_def scale_failed_def Let_def case_prod_unfold split: if_splits option.splits)
qed

lemma serve_refused:
  assumes "Api_serve provider del P path r srv = Some ((status, b), srv')" "status \<notin> {200, 500}"
  shows "srv' = srv"
proof -
  obtain a cc where s: "HandleScale P r (as_clusterCache srv) = (a, cc)" by (cases "HandleScale P r (as_clusterCache srv)")
  let ?base = "ac_BasePath (as_config srv)"
  consider "path = ?base @ ''/invalidate''" | "path = ?base @ ''/scale''" "as_clusterCache srv \<noteq> None"
    | "path \<noteq> ?base @ ''/invalidate''" "path \<noteq> ?base @ ''/scale'' \<or> as_clusterCache srv = None" by blast
  then show ?thesis
  proof cases
    case 1
    have e: "Api_serve provider del P path r srv = do {
        (a, c) \<leftarrow> HandleInvalidate del r (as_cache srv); Some (a, srv\<lparr>as_cache := c\<rparr>) }"
      by (simp add: Api_serve_def Let_def 1)
    obtain c where "HandleInvalidate del r (as_cache srv) = Some ((status, b), c)" "srv' = srv\<lparr>as_cache := c\<rparr>"
      using assms(1) unfolding e by (auto split: bind_splits)
    with HandleInvalidate_refused [of del r "as_cache srv" status b c] assms(2) show ?thesis by simp
  next
    case 2
    with assms(1) s have "a = (status, b)" "srv' = srv\<lparr>as_clusterCache := cc\<rparr>" by (auto simp: Api_serve_def Let_def)
    with HandleScale_refused [of P r "as_clusterCache srv" status b cc] s assms(2) show ?thesis by simp
  next
    case 3
    with assms(1) show ?thesis by (simp add: Api_serve_def Let_def split: if_splits)
  qed
qed

lemma memory_stats_count:
  assumes "skipmap_rep (mc_data (fst cu)) d" "int (card (dom d)) < 2 ^ 63" "rq_Method r = ''GET''"
  shows "\<exists>st. HandleStats (Some memory_stats) P r cu cc = (200, JsonStats st) \<and> st_ItemCount st = int (card (dom d))"
  using SkipMap_Count_rep [OF assms(1,2)] assms(3)
  by (cases cc) (simp_all add: HandleStats_def memory_stats_def writeJSONResponse_def MemCache_ItemCount_def Let_def)

text \<open>The server starts unless its routes are no patterns or the port cannot be opened, and can be started again after it was stopped.\<close>

lemma setupRoutes_Some: "setupRoutes config [] = Some mux \<Longrightarrow> mux = [ac_BasePath config @ ''/stats'', ac_BasePath config @ ''/invalidate'',
    ac_BasePath config @ ''/scale'']"
  by (auto simp: setupRoutes_def split: bind_splits dest!: HandleFunc_app)

lemma setupRoutes_default: "setupRoutes DefaultAPIConfig [] \<noteq> None"
  by code_simp

lemma Api_restart:
  assumes "Api_Start (Inr addr) (srv\<lparr>as_running := False\<rparr>) = Some (r, srv1)" "Api_Stop shutdown srv1 = Some (r2, srv2)"
  shows "r = Inr () \<and> as_running srv1 \<and> \<not> as_running srv2 \<and> Api_Address srv2 = Api_Address srv1
    \<and> (\<exists>srv3. Api_Start (Inr addr) srv2 = Some (Inr (), srv3) \<and> as_running srv3 \<and> as_server srv3 = as_server srv1)"
  using assms by (auto simp: Api_Start_def Api_Stop_def Api_Address_def split: bind_splits)


end
