(* ===== verification/CleanerPool.thy ===== *)
theory CleanerPool
  imports MemCache
begin

text \<open>
  The goroutines of the asynchronous cleaner (\<^verbatim>\<open>src/cache/cleaner.go\<close>): the workers, the scheduler and
  concurrent calls of \<open>ScheduleManualClean\<close>, interleaved with writes to the map. A step is what a
  goroutine does between two points where others can run: a choice of its \<open>select\<close>, the scan of a
  shard under its read lock, one deletion under the write lock with the callback that follows it. Every step is a
  function that is \<open>None\<close> when the goroutine cannot make it.
\<close>

section \<open>Options\<close>

definition WithCleanInterval :: "duration \<Rightarrow> ('v, 'u) Cleaner \<Rightarrow> ('v, 'u) Cleaner" where
  "WithCleanInterval interval c = (if interval > 0 then c\<lparr>cl_interval := interval\<rparr> else c)"

definition WithQueueSize :: "int \<Rightarrow> ('v, 'u) Cleaner \<Rightarrow> ('v, 'u) Cleaner" where
  "WithQueueSize sz c = (if sz > 0 then c\<lparr>cl_taskQueue := [], cl_queueCap := sz\<rparr> else c)"

definition CleanerWithEvictionCallback :: "('v, 'u) callback \<Rightarrow> ('v, 'u) Cleaner \<Rightarrow> ('v, 'u) Cleaner" where
  "CleanerWithEvictionCallback cb c = c\<lparr>cl_onEvict := cb\<rparr>"

section \<open>State and steps\<close>

text \<open>A worker waits at its \<open>select\<close>, has received a task, is deleting the keys that its scan found, or has
  returned; the scheduler waits for its ticker, is sending the tasks of a round, or has returned.\<close>

datatype 'v worker = WIdle | WScan CleanTask | WDelete nat "(string \<times> 'v cacheItem) list" | WDone

datatype scheduler = SchedWait | SchedSend instant nat | SchedDone

record ('v, 'u) pool =
  pl_cleaner :: "('v, 'u) Cleaner"
  pl_map :: "'v cacheItem SkipShardedMap"
  pl_user :: 'u
  pl_workers :: "'v worker list"
  pl_sched :: scheduler
  pl_manuals :: "(instant \<times> nat) list"

definition start_pool :: "('v, 'u) Cleaner \<Rightarrow> 'v cacheItem SkipShardedMap \<Rightarrow> 'u \<Rightarrow> ('v, 'u) pool" where
  "start_pool c sm u = \<lparr>pl_cleaner = Cleaner_Start c, pl_map = sm, pl_user = u,
     pl_workers = replicate (nat (cl_workerCount c)) WIdle, pl_sched = SchedWait, pl_manuals = []\<rparr>"

definition set_worker :: "nat \<Rightarrow> 'v worker \<Rightarrow> ('v, 'u) pool \<Rightarrow> ('v, 'u) pool" where
  "set_worker w x p = p\<lparr>pl_workers := (pl_workers p)[w := x]\<rparr>"

definition worker_at :: "nat \<Rightarrow> ('v, 'u) pool \<Rightarrow> 'v worker" where
  "worker_at w p = (if w < length (pl_workers p) then pl_workers p ! w else WDone)"

definition worker_take :: "nat \<Rightarrow> ('v, 'u) pool \<Rightarrow> ('v, 'u) pool option" where
  "worker_take w p = (case (worker_at w p, cl_taskQueue (pl_cleaner p)) of
     (WIdle, task # tasks) \<Rightarrow> Some (set_worker w (WScan task) (p\<lparr>pl_cleaner := (pl_cleaner p)\<lparr>cl_taskQueue := tasks\<rparr>\<rparr>))
   | _ \<Rightarrow> None)"

definition worker_scan :: "nat \<Rightarrow> ('v, 'u) pool \<Rightarrow> ('v, 'u) pool option" where
  "worker_scan w p = (case worker_at w p of
     WScan task \<Rightarrow> do { expired \<leftarrow> processTask_scan task (pl_map p); Some (set_worker w (WDelete (nat (shardIndex task)) expired) p) }
   | _ \<Rightarrow> None)"

definition worker_delete :: "nat \<Rightarrow> ('v, 'u) pool \<Rightarrow> ('v, 'u) pool option" where
  "worker_delete w p = (case worker_at w p of
     WDelete i (e # es) \<Rightarrow> do {
       (sm, u) \<leftarrow> processTask_delete (cl_onEvict (pl_cleaner p)) i [e] (pl_map p) (pl_user p);
       Some (set_worker w (WDelete i es) (p\<lparr>pl_map := sm, pl_user := u\<rparr>)) }
   | WDelete i [] \<Rightarrow> Some (set_worker w WIdle p)
   | _ \<Rightarrow> None)"

definition worker_exit :: "nat \<Rightarrow> ('v, 'u) pool \<Rightarrow> ('v, 'u) pool option" where
  "worker_exit w p = (if worker_at w p = WIdle \<and> cl_stopped (pl_cleaner p) then Some (set_worker w WDone p) else None)"

text \<open>Sending the task of the shard \<open>i\<close>: possible while the queue has room.\<close>

definition send_task :: "instant \<Rightarrow> nat \<Rightarrow> ('v, 'u) pool \<Rightarrow> ('v, 'u) pool option" where
  "send_task now i p = (let c = pl_cleaner p in
     if int (length (cl_taskQueue c)) < cl_queueCap c
     then Some (p\<lparr>pl_cleaner := c\<lparr>cl_taskQueue := cl_taskQueue c @ [\<lparr>shardIndex = int i, task_now = now\<rparr>]\<rparr>\<rparr>) else None)"

definition scheduler_tick :: "instant \<Rightarrow> ('v, 'u) pool \<Rightarrow> ('v, 'u) pool option" where
  "scheduler_tick now p = (if pl_sched p = SchedWait then Some (p\<lparr>pl_sched := SchedSend now 0\<rparr>) else None)"

definition scheduler_send :: "('v, 'u) pool \<Rightarrow> ('v, 'u) pool option" where
  "scheduler_send p = (case pl_sched p of
     SchedSend now i \<Rightarrow> if int i < SkipMap_ShardCount (pl_map p)
       then map_option (\<lambda>p. p\<lparr>pl_sched := SchedSend now (Suc i)\<rparr>) (send_task now i p)
       else Some (p\<lparr>pl_sched := SchedWait\<rparr>)
   | _ \<Rightarrow> None)"

text \<open>On the stop signal \<open>scheduleCleanTasks\<close> returns to the loop of the scheduler, and that loop returns.\<close>

definition scheduler_stop :: "('v, 'u) pool \<Rightarrow> ('v, 'u) pool option" where
  "scheduler_stop p = (if \<not> cl_stopped (pl_cleaner p) then None
     else case pl_sched p of
       SchedSend now i \<Rightarrow> Some (p\<lparr>pl_sched := SchedWait\<rparr>)
     | SchedWait \<Rightarrow> Some (p\<lparr>pl_sched := SchedDone\<rparr>)
     | SchedDone \<Rightarrow> None)"

text \<open>\<open>ScheduleManualClean\<close>: a call begins, sends its tasks, and ends when all are sent, on the stop signal, or when
  its context is done.\<close>

definition manual_start :: "instant \<Rightarrow> ('v, 'u) pool \<Rightarrow> ('v, 'u) pool option" where
  "manual_start now p = Some (p\<lparr>pl_manuals := pl_manuals p @ [(now, 0)]\<rparr>)"

definition manual_send :: "nat \<Rightarrow> ('v, 'u) pool \<Rightarrow> ('v, 'u) pool option" where
  "manual_send j p = (if j < length (pl_manuals p) then
     (let (now, i) = pl_manuals p ! j in
      if int i < SkipMap_ShardCount (pl_map p)
      then map_option (\<lambda>p. p\<lparr>pl_manuals := (pl_manuals p)[j := (now, Suc i)]\<rparr>) (send_task now i p) else None)
     else None)"

definition manual_end :: "bool \<Rightarrow> nat \<Rightarrow> ('v, 'u) pool \<Rightarrow> ('v, 'u) pool option" where
  "manual_end ctxDone j p = (if j < length (pl_manuals p)
       \<and> (ctxDone \<or> cl_stopped (pl_cleaner p) \<or> SkipMap_ShardCount (pl_map p) \<le> int (snd (pl_manuals p ! j)))
     then Some (p\<lparr>pl_manuals := take j (pl_manuals p) @ drop (Suc j) (pl_manuals p)\<rparr>) else None)"

definition stop_signal :: "('v, 'u) pool \<Rightarrow> ('v, 'u) pool option" where
  "stop_signal p = map_option (\<lambda>c. p\<lparr>pl_cleaner := c\<rparr>) (Cleaner_Stop (pl_cleaner p))"

datatype pool_label =
    Take nat | Scan nat | Delete nat | Exit nat | Tick instant | Send | SchedStop
  | ManualStart instant | ManualSend nat | ManualEnd bool nat | StopSignal

fun pool_next :: "pool_label \<Rightarrow> ('v, 'u) pool \<Rightarrow> ('v, 'u) pool option" where
  "pool_next (Take w) p = worker_take w p"
| "pool_next (Scan w) p = worker_scan w p"
| "pool_next (Delete w) p = worker_delete w p"
| "pool_next (Exit w) p = worker_exit w p"
| "pool_next (Tick now) p = scheduler_tick now p"
| "pool_next Send p = scheduler_send p"
| "pool_next SchedStop p = scheduler_stop p"
| "pool_next (ManualStart now) p = manual_start now p"
| "pool_next (ManualSend j) p = manual_send j p"
| "pool_next (ManualEnd b j) p = manual_end b j p"
| "pool_next StopSignal p = stop_signal p"

section \<open>Interleavings\<close>

text \<open>The clock after a step: a round and a manual call begin at the time they read.\<close>

fun label_time :: "pool_label \<Rightarrow> instant \<Rightarrow> instant option" where
  "label_time (Tick now) c = (if c \<le> now then Some now else None)"
| "label_time (ManualStart now) c = (if c \<le> now then Some now else None)"
| "label_time _ c = Some c"

text \<open>The time of the last round that was sent completely.\<close>

fun round_after :: "pool_label \<Rightarrow> ('v, 'u) pool \<Rightarrow> instant option \<Rightarrow> instant option" where
  "round_after Send p T = (case pl_sched p of
     SchedSend now i \<Rightarrow> if int i < SkipMap_ShardCount (pl_map p) then T else Some now | _ \<Rightarrow> T)"
| "round_after _ p T = T"

fun pending_keys :: "'v worker \<Rightarrow> string set" where
  "pending_keys (WDelete i es) = fst ` set es"
| "pending_keys _ = {}"

definition pending :: "('v, 'u) pool \<Rightarrow> string set" where
  "pending p = (\<Union>w\<in>set (pl_workers p). pending_keys w)"

text \<open>\<open>pool_reach c a wt T p\<close>: from a start of the cleaner, steps of its goroutines and writes to the map in any order
  lead to the state \<open>p\<close> at the clock \<open>c\<close>, where \<open>a\<close> is the map that the writes alone give, \<open>wt\<close> the time of the last store
  of each key and \<open>T\<close> the time of the last complete round. Any item is stored, also one that has already expired
  (\<open>Set\<close> with a negative expiration). The one restriction is that a write does not touch a key that a worker has found expired
  and not yet deleted: that race loses the write.\<close>

inductive pool_reach :: "instant \<Rightarrow> (string \<rightharpoonup> 'v cacheItem) \<Rightarrow> (string \<rightharpoonup> instant) \<Rightarrow> instant option \<Rightarrow> ('v, 'u) pool \<Rightarrow> bool" where
  reach_start: "skipmap_rep sm d \<Longrightarrow> cl_taskQueue cl = [] \<Longrightarrow> pool_reach c d Map.empty None (start_pool cl sm u)"
| reach_step: "pool_reach c a wt T p \<Longrightarrow> pool_next l p = Some p' \<Longrightarrow> label_time l c = Some c'
    \<Longrightarrow> pool_reach c' a wt (round_after l p T) p'"
| reach_store: "pool_reach c a wt T p \<Longrightarrow> c \<le> now \<Longrightarrow> k \<notin> pending p
    \<Longrightarrow> SkipMap_Store k item (pl_map p) = Some sm \<Longrightarrow> pool_reach now (a(k \<mapsto> item)) (wt(k \<mapsto> now)) T (p\<lparr>pl_map := sm\<rparr>)"
| reach_delete: "pool_reach c a wt T p \<Longrightarrow> k \<notin> pending p
    \<Longrightarrow> SkipMap_Delete k (pl_map p) = Some sm \<Longrightarrow> pool_reach c (a(k := None)) wt T (p\<lparr>pl_map := sm\<rparr>)"

section \<open>Invariants\<close>

definition task_ok :: "instant \<Rightarrow> ('v, 'u) pool \<Rightarrow> CleanTask \<Rightarrow> bool" where
  "task_ok c p t \<longleftrightarrow> 0 \<le> shardIndex t \<and> shardIndex t < SkipMap_ShardCount (pl_map p) \<and> task_now t \<le> c"

fun worker_ok :: "instant \<Rightarrow> (string \<rightharpoonup> 'v cacheItem) \<Rightarrow> ('v, 'u) pool \<Rightarrow> 'v worker \<Rightarrow> bool" where
  "worker_ok c a p (WScan t) = task_ok c p t"
| "worker_ok c a p (WDelete i es) = (distinct (map fst es) \<and> (\<forall>e\<in>set es. a (fst e) = Some (snd e) \<and> item_expired c (snd e)
     \<and> shard_index (sm_mask (pl_map p)) (fst e) = i))"
| "worker_ok c a p _ = True"

definition sched_ok :: "instant \<Rightarrow> ('v, 'u) pool \<Rightarrow> bool" where
  "sched_ok c p \<longleftrightarrow> (\<forall>now i. pl_sched p = SchedSend now i \<longrightarrow> now \<le> c) \<and> (\<forall>m\<in>set (pl_manuals p). fst m \<le> c)"

text \<open>The map differs from the one that the writes give only in entries that have expired.\<close>

definition cleaned :: "instant \<Rightarrow> (string \<rightharpoonup> 'v cacheItem) \<Rightarrow> (string \<rightharpoonup> 'v cacheItem) \<Rightarrow> bool" where
  "cleaned c a d \<longleftrightarrow> (\<forall>k. d k = a k \<or> d k = None \<and> (\<exists>item. a k = Some item \<and> item_expired c item))"

text \<open>A worker or a queued task takes care of the key \<open>k\<close> in every state in which its entry has expired at \<open>T\<close>.\<close>

fun attends :: "instant \<Rightarrow> nat \<Rightarrow> string \<Rightarrow> 'v worker \<Rightarrow> bool" where
  "attends T i k (WScan t) = (shardIndex t = int i \<and> T \<le> task_now t)"
| "attends T i k (WDelete j es) = (k \<in> fst ` set es)"
| "attends T i k _ = False"

definition attended :: "instant \<Rightarrow> string \<Rightarrow> ('v, 'u) pool \<Rightarrow> bool" where
  "attended T k p \<longleftrightarrow> (let i = shard_index (sm_mask (pl_map p)) k in
     (\<exists>t\<in>set (cl_taskQueue (pl_cleaner p)). attends T i k (WScan t :: 'v worker)) \<or> (\<exists>w\<in>set (pl_workers p). attends T i k w))"

text \<open>The key was stored at the time \<open>t\<close> or later.\<close>

definition stored_since :: "instant \<Rightarrow> (string \<rightharpoonup> instant) \<Rightarrow> string \<Rightarrow> bool" where
  "stored_since t wt k \<longleftrightarrow> (case wt k of None \<Rightarrow> False | Some s \<Rightarrow> t \<le> s)"

definition covered :: "instant \<Rightarrow> nat set \<Rightarrow> (string \<rightharpoonup> instant) \<Rightarrow> (string \<rightharpoonup> 'v cacheItem) \<Rightarrow> ('v, 'u) pool \<Rightarrow> bool" where
  "covered T S wt d p \<longleftrightarrow> (\<forall>k item. d k = Some item \<longrightarrow> item_expired T item \<longrightarrow> \<not> stored_since T wt k
     \<longrightarrow> shard_index (sm_mask (pl_map p)) k \<in> S \<longrightarrow> attended T k p)"

definition rounds_covered :: "instant option \<Rightarrow> (string \<rightharpoonup> instant) \<Rightarrow> (string \<rightharpoonup> 'v cacheItem) \<Rightarrow> ('v, 'u) pool \<Rightarrow> bool" where
  "rounds_covered T wt d p \<longleftrightarrow> (\<forall>t. T = Some t \<longrightarrow> covered t UNIV wt d p) \<and> (\<forall>now i. pl_sched p = SchedSend now i \<longrightarrow> covered now {..<i} wt d p)"

definition pool_inv :: "instant \<Rightarrow> (string \<rightharpoonup> 'v cacheItem) \<Rightarrow> (string \<rightharpoonup> instant) \<Rightarrow> instant option \<Rightarrow> (string \<rightharpoonup> 'v cacheItem) \<Rightarrow> ('v, 'u) pool \<Rightarrow> bool" where
  "pool_inv c a wt T d p \<longleftrightarrow> skipmap_rep (pl_map p) d \<and> cleaned c a d \<and> (\<forall>t\<in>set (cl_taskQueue (pl_cleaner p)). task_ok c p t)
     \<and> (\<forall>w\<in>set (pl_workers p). worker_ok c a p w) \<and> sched_ok c p \<and> (\<forall>t. T = Some t \<longrightarrow> t \<le> c) \<and> rounds_covered T wt d p"

section \<open>Preservation\<close>

lemma item_expired_later: "item_expired t item \<Longrightarrow> t \<le> t' \<Longrightarrow> item_expired t' item"
  by (auto simp: item_expired_def)

lemma Store_shape: "SkipMap_Store k v sm = Some sm' \<Longrightarrow> sm_mask sm' = sm_mask sm \<and> sm_count sm' = sm_count sm"
  by (auto simp: SkipMap_Store_def split: bind_splits prod.splits)

lemma Delete_shape: "SkipMap_Delete k sm = Some sm' \<Longrightarrow> sm_mask sm' = sm_mask sm \<and> sm_count sm' = sm_count sm"
  by (auto simp: SkipMap_Delete_def split: bind_splits prod.splits)

lemma delete_one_shape:
  "processTask_delete cb i [e] sm u = Some (sm', u') \<Longrightarrow> sm_mask sm' = sm_mask sm \<and> sm_count sm' = sm_count sm"
  by (cases e) (auto split: bind_splits)

lemma worker_at_in: "worker_at w p \<noteq> WDone \<Longrightarrow> worker_at w p \<in> set (pl_workers p)"
  by (auto simp: worker_at_def split: if_splits)

lemma set_worker_simps [simp]:
  "pl_cleaner (set_worker w x p) = pl_cleaner p" "pl_map (set_worker w x p) = pl_map p" "pl_user (set_worker w x p) = pl_user p"
  "pl_sched (set_worker w x p) = pl_sched p" "pl_manuals (set_worker w x p) = pl_manuals p"
  by (simp_all add: set_worker_def)

lemma set_worker_elems: "y \<in> set (pl_workers (set_worker w x p)) \<Longrightarrow> y = x \<or> y \<in> set (pl_workers p)"
  using set_update_subset_insert [of "pl_workers p" w x] by (auto simp: set_worker_def)

lemma set_worker_keeps:
  assumes "y \<in> set (pl_workers p)" "y \<noteq> worker_at w p"
  shows "y \<in> set (pl_workers (set_worker w x p))"
proof -
  obtain j where j: "j < length (pl_workers p)" "y = pl_workers p ! j" using assms(1) by (auto simp: in_set_conv_nth)
  with assms(2) have "j \<noteq> w" by (auto simp: worker_at_def)
  then have "(pl_workers p)[w := x] ! j = y" by (simp add: j)
  moreover have "(pl_workers p)[w := x] ! j \<in> set ((pl_workers p)[w := x])" using j(1) by (intro nth_mem) simp
  ultimately show ?thesis unfolding set_worker_def by simp
qed

lemma set_worker_new: "worker_at w p \<noteq> WDone \<Longrightarrow> x \<in> set (pl_workers (set_worker w x p))"
  by (auto simp: worker_at_def set_worker_def set_update_memI split: if_splits)

text \<open>The invariant in a later state: what has to be shown anew.\<close>

lemma task_ok_mono: "task_ok c p t \<Longrightarrow> c \<le> c' \<Longrightarrow> sm_count (pl_map p') = sm_count (pl_map p) \<Longrightarrow> task_ok c' p' t"
  by (simp add: task_ok_def SkipMap_ShardCount_def)

lemma worker_ok_mono:
  assumes "worker_ok c a p w" "c \<le> c'" "sm_count (pl_map p') = sm_count (pl_map p)" "sm_mask (pl_map p') = sm_mask (pl_map p)"
    and "\<forall>k\<in>pending_keys w. a' k = a k"
  shows "worker_ok c' a' p' w"
  using assms task_ok_mono [of c p _ c' p'] item_expired_later [of c _ c'] by (cases w) auto

lemma cleaned_later: "cleaned c a d \<Longrightarrow> c \<le> c' \<Longrightarrow> cleaned c' a d"
  using item_expired_later [of c _ c'] unfolding cleaned_def by blast

lemma rounds_covered_mono:
  assumes "rounds_covered T wt d p" "pl_sched p' = pl_sched p" "sm_mask (pl_map p') = sm_mask (pl_map p)"
    and "\<And>t k item. T = Some t \<or> (\<exists>i. pl_sched p = SchedSend t i) \<Longrightarrow> d' k = Some item \<Longrightarrow> item_expired t item
      \<Longrightarrow> \<not> stored_since t wt' k \<Longrightarrow> \<not> stored_since t wt k \<and> d k = Some item \<and> (attended t k p \<longrightarrow> attended t k p')"
  shows "rounds_covered T wt' d' p'"
  using assms unfolding rounds_covered_def covered_def by metis

lemma pool_invD:
  assumes "pool_inv c a wt T d p"
  shows "skipmap_rep (pl_map p) d" "cleaned c a d" "\<forall>t\<in>set (cl_taskQueue (pl_cleaner p)). task_ok c p t"
    "\<forall>w\<in>set (pl_workers p). worker_ok c a p w" "sched_ok c p" "\<forall>t. T = Some t \<longrightarrow> t \<le> c" "rounds_covered T wt d p"
  using assms by (simp_all add: pool_inv_def)

lemma pool_inv_later: "pool_inv c a wt T d p \<Longrightarrow> c \<le> c' \<Longrightarrow> pool_inv c' a wt T d p"
  unfolding pool_inv_def sched_ok_def
  using cleaned_later task_ok_mono [of c p _ c' p] worker_ok_mono [of c a p _ c' p a]
  by (auto intro: order_trans)

text \<open>A step of one worker: the map, the queue and the worker may change.\<close>

lemma worker_step_inv:
  assumes inv: "pool_inv c a wt T d p" and w: "worker_at w p \<noteq> WDone"
    and shape: "sm_mask sm = sm_mask (pl_map p)" "sm_count sm = sm_count (pl_map p)"
    and rep: "skipmap_rep sm d'" "cleaned c a d'" "\<And>k item. d' k = Some item \<Longrightarrow> d k = Some item"
    and q: "set (cl_taskQueue cl) \<subseteq> set (cl_taskQueue (pl_cleaner p))" and x: "worker_ok c a p x"
    and att: "\<And>t k item. d' k = Some item \<Longrightarrow> item_expired t item \<Longrightarrow> attends t (shard_index (sm_mask (pl_map p)) k) k (worker_at w p)
        \<Longrightarrow> attends t (shard_index (sm_mask (pl_map p)) k) k x"
    and att_q: "\<And>t k task. task \<in> set (cl_taskQueue (pl_cleaner p)) \<Longrightarrow> task \<notin> set (cl_taskQueue cl) \<Longrightarrow>
        attends t (shard_index (sm_mask (pl_map p)) k) k (WScan task :: 'v worker)
        \<Longrightarrow> attends t (shard_index (sm_mask (pl_map p)) k) k (x :: 'v worker)"
  shows "pool_inv c a wt T d' (set_worker w x (p\<lparr>pl_map := sm, pl_user := u, pl_cleaner := cl\<rparr>))" (is "pool_inv c a wt T d' ?p'")
proof -
  note i = pool_invD [OF inv]
  let ?p = "p\<lparr>pl_map := sm, pl_user := u, pl_cleaner := cl\<rparr>"
  have wa: "worker_at w ?p = worker_at w p" "set (pl_workers ?p) = set (pl_workers p)" by (simp_all add: worker_at_def)
  have "worker_ok c a ?p' y" if "y \<in> set (pl_workers ?p')" for y
    using set_worker_elems [OF that] i(4) x shape worker_ok_mono [of c a p y c ?p' a] by auto
  moreover have "task_ok c ?p' t" if "t \<in> set (cl_taskQueue cl)" for t
    using that q i(3) shape task_ok_mono [of c p t c ?p'] by auto
  moreover have "rounds_covered T wt d' ?p'"
  proof (rule rounds_covered_mono [OF i(7)])
    fix t k item assume k: "d' k = Some item" "item_expired t item" and fresh: "\<not> stored_since t wt k"
    have "attended t k ?p'" if "attended t k p"
    proof -
      let ?i = "shard_index (sm_mask (pl_map p)) k"
      have new: "x \<in> set (pl_workers ?p')" using set_worker_new [of w ?p x] w wa by simp
      from that consider task where "task \<in> set (cl_taskQueue (pl_cleaner p))" "attends t ?i k (WScan task :: 'v worker)"
        | y where "y \<in> set (pl_workers p)" "attends t ?i k y" by (auto simp: attended_def Let_def)
      then show ?thesis
      proof cases
        case 1
        with att_q [of task t k] new show ?thesis by (auto simp: attended_def Let_def shape)
      next
        case 2
        show ?thesis
        proof (cases "y = worker_at w p")
          case True
          with 2 att [OF k] new show ?thesis by (auto simp: attended_def Let_def shape)
        next
          case False
          then have "y \<in> set (pl_workers ?p')" using 2(1) wa set_worker_keeps [of y ?p w x] by simp
          with 2(2) show ?thesis by (auto simp: attended_def Let_def shape)
        qed
      qed
    qed
    with rep(3) [OF k(1)] fresh show "\<not> stored_since t wt k \<and> d k = Some item \<and> (attended t k p \<longrightarrow> attended t k ?p')" by blast
  qed (simp_all add: shape)
  ultimately show ?thesis
    using rep(1,2) i(5,6) by (simp add: pool_inv_def sched_ok_def)
qed


lemma take_inv:
  assumes "pool_inv c a wt T d p" "worker_take w p = Some p'"
  shows "pool_inv c a wt T d p'"
proof -
  obtain task tasks where t: "worker_at w p = WIdle" "cl_taskQueue (pl_cleaner p) = task # tasks"
    "p' = set_worker w (WScan task) (p\<lparr>pl_map := pl_map p, pl_user := pl_user p, pl_cleaner := (pl_cleaner p)\<lparr>cl_taskQueue := tasks\<rparr>\<rparr>)"
    using assms(2) by (auto simp: worker_take_def split: worker.splits list.splits)
  note i = pool_invD [OF assms(1)]
  show ?thesis unfolding t(3)
    by (rule worker_step_inv [OF assms(1)]) (use t i in auto)
qed

lemma scan_inv:
  assumes "pool_inv c a wt T d p" "worker_scan w p = Some p'"
  shows "pool_inv c a wt T d p'"
proof -
  obtain task es where t: "worker_at w p = WScan task" "processTask_scan task (pl_map p) = Some es"
    "p' = set_worker w (WDelete (nat (shardIndex task)) es) (p\<lparr>pl_map := pl_map p, pl_user := pl_user p, pl_cleaner := pl_cleaner p\<rparr>)"
    using assms(2) by (auto simp: worker_scan_def split: worker.splits bind_splits)
  note i = pool_invD [OF assms(1)]
  have "task_ok c p task" using i(4) t(1) worker_at_in [of w p] by fastforce
  then have task: "0 \<le> shardIndex task" "nat (shardIndex task) < length (sm_shards (pl_map p))" "task_now task \<le> c"
    using i(1) by (auto simp: task_ok_def SkipMap_ShardCount_def skipmap_rep_def)
  have es: "es = filter (\<lambda>e. item_expired (task_now task) (snd e)) (shard_list (pl_map p) (nat (shardIndex task)))"
    using processTask_scan_rep [OF i(1) task(1,2)] t(2) by simp
  have es_set: "set es = {(k, item). d k = Some item \<and> shard_index (sm_mask (pl_map p)) k = nat (shardIndex task) \<and> item_expired (task_now task) item}"
    unfolding es set_filter shard_list_set [OF i(1) task(2)] by auto
  have "distinct (map fst es)" unfolding es using shard_list_rep(5) [OF i(1) task(2)] by (rule distinct_map_filter)
  moreover have "a k = Some item" if "d k = Some item" for k item using i(2) that unfolding cleaned_def by (metis option.distinct(1))
  ultimately have x: "worker_ok c a p (WDelete (nat (shardIndex task)) es)"
    using item_expired_later [OF _ task(3)] by (auto simp: es_set)
  show ?thesis unfolding t(3)
  proof (rule worker_step_inv [OF assms(1)])
    fix t k item
    assume "d k = Some item" "item_expired t item" "attends t (shard_index (sm_mask (pl_map p)) k) k (worker_at w p)"
    then show "attends t (shard_index (sm_mask (pl_map p)) k) k (WDelete (nat (shardIndex task)) es)"
      using \<open>worker_at w p = WScan task\<close> item_expired_later [of t item "task_now task"] by (force simp: es_set)
  qed (use t(1) x i in auto)
qed

lemma delete_inv:
  assumes "pool_inv c a wt T d p" "worker_delete w p = Some p'"
  shows "\<exists>d'. pool_inv c a wt T d' p'"
proof -
  note i = pool_invD [OF assms(1)]
  consider (none) j where "worker_at w p = WDelete j []"
      "p' = set_worker w WIdle (p\<lparr>pl_map := pl_map p, pl_user := pl_user p, pl_cleaner := pl_cleaner p\<rparr>)"
    | (one) j k item es sm u where "worker_at w p = WDelete j ((k, item) # es)"
      "processTask_delete (cl_onEvict (pl_cleaner p)) j [(k, item)] (pl_map p) (pl_user p) = Some (sm, u)"
      "p' = set_worker w (WDelete j es) (p\<lparr>pl_map := sm, pl_user := u, pl_cleaner := pl_cleaner p\<rparr>)"
    using assms(2) by (auto simp: worker_delete_def simp del: processTask_delete.simps split: worker.splits list.splits bind_splits)
  then show ?thesis
  proof cases
    case none
    have "pool_inv c a wt T d p'" unfolding none(2) by (rule worker_step_inv [OF assms(1)]) (use none i in auto)
    then show ?thesis by blast
  next
    case one
    have w: "worker_ok c a p (WDelete j ((k, item) # es))" using i(4) one(1) worker_at_in [of w p] by fastforce
    obtain sm' u' where "processTask_delete (cl_onEvict (pl_cleaner p)) j [(k, item)] (pl_map p) (pl_user p) = Some (sm', u')"
      "skipmap_rep sm' (d |` (- fst ` set [(k, item)]))"
      using processTask_delete_rep [OF i(1), of "[(k, item)]" j "cl_onEvict (pl_cleaner p)" "pl_user p"] w
      by (fastforce simp del: processTask_delete.simps)
    moreover have "d |` (- fst ` set [(k, item)]) = d(k := None)" by (auto simp: restrict_map_def fun_eq_iff)
    ultimately have rep: "skipmap_rep sm (d(k := None))" using one(2) by simp
    have "cleaned c a (d(k := None))" using i(2) w by (auto simp: cleaned_def)
    then have "pool_inv c a wt T (d(k := None)) p'"
      unfolding one(3) using delete_one_shape [OF one(2)] rep one(1) w i
      by (intro worker_step_inv [OF assms(1)]) (auto split: if_splits)
    then show ?thesis by blast
  qed
qed

lemma exit_inv: "pool_inv c a wt T d p \<Longrightarrow> worker_exit w p = Some p' \<Longrightarrow> pool_inv c a wt T d p'"
  using worker_step_inv [of c a wt T d p w "pl_map p" d "pl_cleaner p" WDone "pl_user p"]
  by (auto simp: worker_exit_def pool_inv_def split: if_splits)


text \<open>A step of the senders: the queue may grow and the senders move.\<close>

lemma attended_grow:
  assumes "attended t k p" "pl_map p' = pl_map p" "pl_workers p' = pl_workers p"
    and "set (cl_taskQueue (pl_cleaner p)) \<subseteq> set (cl_taskQueue (pl_cleaner p'))"
  shows "attended t k p'"
  using assms by (fastforce simp: attended_def Let_def)

lemma sender_step_inv:
  assumes inv: "pool_inv c a wt T d p" and same: "pl_map p' = pl_map p" "pl_workers p' = pl_workers p"
    and q: "set (cl_taskQueue (pl_cleaner p)) \<subseteq> set (cl_taskQueue (pl_cleaner p'))"
      "\<And>t. t \<in> set (cl_taskQueue (pl_cleaner p')) \<Longrightarrow> t \<notin> set (cl_taskQueue (pl_cleaner p)) \<Longrightarrow> task_ok c p t"
    and sched: "sched_ok c p'" "\<And>now i. pl_sched p' = SchedSend now i \<Longrightarrow> covered now {..<i} wt d p'"
    and T': "\<And>t. T' = Some t \<Longrightarrow> T = Some t \<or> t \<le> c \<and> covered t UNIV wt d p'"
  shows "pool_inv c a wt T' d p'"
proof -
  note i = pool_invD [OF inv]
  have "covered t UNIV wt d p'" if "T = Some t" for t
    using i(7) that attended_grow [OF _ same q(1)] by (auto simp: rounds_covered_def covered_def same)
  then have "rounds_covered T' wt d p'" using T' sched(2) by (auto simp: rounds_covered_def)
  moreover have "task_ok c p' t" if "t \<in> set (cl_taskQueue (pl_cleaner p'))" for t
    using that q(2) i(3) task_ok_mono [of c p t c p'] by (auto simp: same)
  moreover have "worker_ok c a p' w" if "w \<in> set (pl_workers p)" for w
    using that i(4) worker_ok_mono [of c a p w c p' a] by (auto simp: same)
  ultimately show ?thesis using i(1,2,6) sched(1) T' by (auto simp: pool_inv_def same)
qed

lemma send_task_Some:
  "send_task now i p = Some p' \<longleftrightarrow> int (length (cl_taskQueue (pl_cleaner p))) < cl_queueCap (pl_cleaner p)
     \<and> p' = p\<lparr>pl_cleaner := (pl_cleaner p)\<lparr>cl_taskQueue := cl_taskQueue (pl_cleaner p) @ [\<lparr>shardIndex = int i, task_now = now\<rparr>]\<rparr>\<rparr>"
  by (auto simp: send_task_def Let_def)

lemma tick_inv:
  assumes "pool_inv c a wt T d p" "scheduler_tick c p = Some p'"
  shows "pool_inv c a wt T d p'"
  using assms
  by (intro sender_step_inv [OF assms(1)]) (auto simp: scheduler_tick_def pool_inv_def sched_ok_def covered_def split: if_splits)

lemma send_inv:
  assumes inv: "pool_inv c a wt T d p" and step: "scheduler_send p = Some p'"
  shows "pool_inv c a wt (round_after Send p T) d p'"
proof -
  note i = pool_invD [OF inv]
  obtain now n where s: "pl_sched p = SchedSend now n" using step by (auto simp: scheduler_send_def split: scheduler.splits)
  have now: "now \<le> c" using i(5) s by (auto simp: sched_ok_def)
  have cov: "covered now {..<n} wt d p" using i(7) s by (auto simp: rounds_covered_def)
  show ?thesis
  proof (cases "int n < SkipMap_ShardCount (pl_map p)")
    case True
    let ?task = "\<lparr>shardIndex = int n, task_now = now\<rparr>"
    have p': "p' = p\<lparr>pl_cleaner := (pl_cleaner p)\<lparr>cl_taskQueue := cl_taskQueue (pl_cleaner p) @ [?task]\<rparr>, pl_sched := SchedSend now (Suc n)\<rparr>"
      using step True s by (auto simp: scheduler_send_def send_task_Some)
    have "attended now k p'" if "shard_index (sm_mask (pl_map p)) k = n" for k
      using that by (auto simp: p' attended_def Let_def)
    moreover have "attended t k p'" if "attended t k p" for t k by (rule attended_grow [OF that]) (auto simp: p')
    ultimately have "covered now {..<Suc n} wt d p'"
      using cov by (auto simp: covered_def p' less_Suc_eq)
    then show ?thesis
      by (intro sender_step_inv [OF inv]) (use i(5) now s True in \<open>auto simp: p' sched_ok_def task_ok_def\<close>)
  next
    case False
    have p': "p' = p\<lparr>pl_sched := SchedWait\<rparr>" using step False s by (auto simp: scheduler_send_def)
    have "shard_index (sm_mask (pl_map p)) k < n" for k
      using i(1) False by (auto simp: skipmap_rep_def shards_rep_def SkipMap_ShardCount_def intro: less_le_trans)
    then have "covered now UNIV wt d p'" using cov by (auto simp: covered_def attended_def p')
    then show ?thesis
      by (intro sender_step_inv [OF inv]) (use i(5) now s False in \<open>auto simp: p' sched_ok_def\<close>)
  qed
qed

lemma sched_stop_inv:
  assumes "pool_inv c a wt T d p" "scheduler_stop p = Some p'"
  shows "pool_inv c a wt T d p'"
  using assms by (intro sender_step_inv [OF assms(1)])
    (auto simp: scheduler_stop_def pool_inv_def sched_ok_def split: if_splits scheduler.splits)

lemma sender_same_sched:
  assumes "pool_inv c a wt T d p" "pl_sched p' = pl_sched p" "pl_map p' = pl_map p" "pl_workers p' = pl_workers p"
    "set (cl_taskQueue (pl_cleaner p)) \<subseteq> set (cl_taskQueue (pl_cleaner p'))" "pl_sched p' = SchedSend now i"
  shows "covered now {..<i} wt d p'"
proof -
  have "covered now {..<i} wt d p" using pool_invD(7) [OF assms(1)] assms(2,6) by (simp add: rounds_covered_def)
  with attended_grow [OF _ assms(3-5)] show ?thesis by (auto simp: covered_def assms(3))
qed

lemma sender_keep_inv:
  assumes "pool_inv c a wt T d p" "pl_sched p' = pl_sched p" "pl_map p' = pl_map p" "pl_workers p' = pl_workers p"
    "set (cl_taskQueue (pl_cleaner p)) \<subseteq> set (cl_taskQueue (pl_cleaner p'))"
    "\<And>t. t \<in> set (cl_taskQueue (pl_cleaner p')) \<Longrightarrow> t \<notin> set (cl_taskQueue (pl_cleaner p)) \<Longrightarrow> task_ok c p t"
    "\<And>m. m \<in> set (pl_manuals p') \<Longrightarrow> fst m \<le> c"
  shows "pool_inv c a wt T d p'"
proof (rule sender_step_inv [OF assms(1,3-6)])
  show "sched_ok c p'" using pool_invD(5) [OF assms(1)] assms(2,7) by (simp add: sched_ok_def)
qed (use sender_same_sched [OF assms(1-5)] in auto)

lemma manuals_ok: "pool_inv c a wt T d p \<Longrightarrow> m \<in> set (pl_manuals p) \<Longrightarrow> fst m \<le> c"
  by (simp add: pool_inv_def sched_ok_def)

lemma manual_start_inv:
  assumes "pool_inv c a wt T d p" "manual_start c p = Some p'"
  shows "pool_inv c a wt T d p'"
proof -
  have "p' = p\<lparr>pl_manuals := pl_manuals p @ [(c, 0)]\<rparr>" using assms(2) by (simp add: manual_start_def)
  with manuals_ok [OF assms(1)] show ?thesis by (intro sender_keep_inv [OF assms(1)]) auto
qed

lemma manual_send_inv:
  assumes "pool_inv c a wt T d p" "manual_send j p = Some p'"
  shows "pool_inv c a wt T d p'"
proof -
  obtain now n where mj: "pl_manuals p ! j = (now, n)" by (cases "pl_manuals p ! j")
  then have m: "j < length (pl_manuals p)" "pl_manuals p ! j = (now, n)" "int n < SkipMap_ShardCount (pl_map p)"
    and p': "p' = p\<lparr>pl_cleaner := (pl_cleaner p)\<lparr>cl_taskQueue := cl_taskQueue (pl_cleaner p) @ [\<lparr>shardIndex = int n, task_now = now\<rparr>]\<rparr>,
      pl_manuals := (pl_manuals p)[j := (now, Suc n)]\<rparr>"
    using assms(2) by (auto simp: manual_send_def send_task_Some Let_def split: if_splits)
  have now: "now \<le> c" using manuals_ok [OF assms(1) nth_mem [OF m(1)]] m(2) by simp
  show ?thesis
  proof (rule sender_keep_inv [OF assms(1)])
    fix x assume "x \<in> set (pl_manuals p')"
    then have "x = (now, Suc n) \<or> x \<in> set (pl_manuals p)"
      using set_update_subset_insert [of "pl_manuals p" j "(now, Suc n)"] by (auto simp: p')
    then show "fst x \<le> c" using now manuals_ok [OF assms(1), of x] by auto
  qed (use now m(3) in \<open>auto simp: p' task_ok_def\<close>)
qed

lemma manual_end_inv:
  assumes "pool_inv c a wt T d p" "manual_end b j p = Some p'"
  shows "pool_inv c a wt T d p'"
proof -
  have p': "p' = p\<lparr>pl_manuals := take j (pl_manuals p) @ drop (Suc j) (pl_manuals p)\<rparr>"
    using assms(2) by (simp add: manual_end_def split: if_splits)
  show ?thesis
  proof (rule sender_keep_inv [OF assms(1)])
    fix x assume "x \<in> set (pl_manuals p')"
    then show "fst x \<le> c" using manuals_ok [OF assms(1), of x] by (auto simp: p' dest: in_set_takeD in_set_dropD)
  qed (simp_all add: p')
qed

lemma stop_signal_inv:
  assumes "pool_inv c a wt T d p" "stop_signal p = Some p'"
  shows "pool_inv c a wt T d p'"
proof -
  obtain cl where cl: "Cleaner_Stop (pl_cleaner p) = Some cl" and p': "p' = p\<lparr>pl_cleaner := cl\<rparr>"
    using assms(2) by (auto simp: stop_signal_def)
  have "cl_taskQueue cl = cl_taskQueue (pl_cleaner p)" using cl by (auto simp: Cleaner_Stop_def split: if_splits)
  note p' = p' this
  show ?thesis using manuals_ok [OF assms(1)] by (intro sender_keep_inv [OF assms(1)]) (auto simp: p')
qed

lemma pool_next_inv:
  assumes "pool_inv c a wt T d p" "pool_next l p = Some p'" "label_time l c = Some c'"
  shows "\<exists>d'. pool_inv c' a wt (round_after l p T) d' p'"
proof (cases l)
  case (Tick now)
  with assms pool_inv_later [OF assms(1), of now] show ?thesis by (auto intro: tick_inv split: if_splits)
next
  case (ManualStart now)
  with assms pool_inv_later [OF assms(1), of now] show ?thesis by (auto intro: manual_start_inv split: if_splits)
next
  case Send
  with assms send_inv [OF assms(1)] show ?thesis by (auto simp del: round_after.simps)
next
  case (Delete w)
  with assms delete_inv [OF assms(1)] show ?thesis by simp
next
  case (Take w)
  with assms take_inv [OF assms(1)] show ?thesis by auto
next
  case (Scan w)
  with assms scan_inv [OF assms(1)] show ?thesis by auto
next
  case (Exit w)
  with assms exit_inv [OF assms(1)] show ?thesis by auto
next
  case SchedStop
  with assms sched_stop_inv [OF assms(1)] show ?thesis by auto
next
  case (ManualSend j)
  with assms manual_send_inv [OF assms(1)] show ?thesis by auto
next
  case (ManualEnd b j)
  with assms manual_end_inv [OF assms(1)] show ?thesis by auto
next
  case StopSignal
  with assms stop_signal_inv [OF assms(1)] show ?thesis by auto
qed

text \<open>Writes to the map by users of the cache.\<close>

lemma write_inv:
  assumes inv: "pool_inv c a wt T d p" and k: "k \<notin> pending p" and sm: "skipmap_rep sm (d(k := x))"
    "sm_mask sm = sm_mask (pl_map p)" "sm_count sm = sm_count (pl_map p)"
    and wt: "\<And>j. j \<noteq> k \<Longrightarrow> wt' j = wt j" "x \<noteq> None \<Longrightarrow> wt' k = Some c"
  shows "pool_inv c (a(k := x)) wt' T (d(k := x)) (p\<lparr>pl_map := sm\<rparr>)"
proof -
  note i = pool_invD [OF inv]
  let ?p = "p\<lparr>pl_map := sm\<rparr>"
  have "worker_ok c (a(k := x)) ?p w" if "w \<in> set (pl_workers p)" for w
    using that i(4) k sm worker_ok_mono [of c a p w c ?p "a(k := x)"] by (fastforce simp: pending_def)
  moreover have "task_ok c ?p t" if "t \<in> set (cl_taskQueue (pl_cleaner p))" for t
    using that i(3) sm task_ok_mono [of c p t c ?p] by simp
  moreover have "rounds_covered T wt' (d(k := x)) ?p"
  proof (rule rounds_covered_mono [OF i(7)])
    fix t j item assume t: "T = Some t \<or> (\<exists>i. pl_sched p = SchedSend t i)" and j: "(d(k := x)) j = Some item" "item_expired t item"
      and fresh: "\<not> stored_since t wt' j"
    have "t \<le> c" using t i(5,6) by (auto simp: sched_ok_def)
    with j fresh wt have "j \<noteq> k" by (auto simp: stored_since_def)
    with j fresh wt(1) show "\<not> stored_since t wt j \<and> d j = Some item \<and> (attended t j p \<longrightarrow> attended t j ?p)"
      by (simp add: attended_def sm stored_since_def)
  qed (simp_all add: sm)
  moreover have "cleaned c (a(k := x)) (d(k := x))" using i(2) by (auto simp: cleaned_def)
  ultimately show ?thesis using sm(1) i(5,6) by (simp add: pool_inv_def sched_ok_def)
qed

lemma start_inv: "skipmap_rep sm d \<Longrightarrow> cl_taskQueue cl = [] \<Longrightarrow> pool_inv c d Map.empty None d (start_pool cl sm u)"
  by (auto simp: pool_inv_def start_pool_def Cleaner_Start_def cleaned_def sched_ok_def rounds_covered_def)

lemma reach_inv: "pool_reach c a wt T p \<Longrightarrow> \<exists>d. pool_inv c a wt T d p"
proof (induction rule: pool_reach.induct)
  case (reach_start sm d cl c u)
  then show ?case by (intro exI) (rule start_inv)
next
  case (reach_step c a wt T p l p' c')
  then show ?case using pool_next_inv by blast
next
  case (reach_store c a wt T p now k item sm)
  then obtain d where "pool_inv c a wt T d p" by blast
  then have d: "pool_inv now a wt T d p" using reach_store(2) by (rule pool_inv_later)
  have "skipmap_rep sm (d(k \<mapsto> item))" using SkipMap_Store_rep [OF pool_invD(1) [OF d], of k item] reach_store by auto
  then have "pool_inv now (a(k \<mapsto> item)) (wt(k \<mapsto> now)) T (d(k \<mapsto> item)) (p\<lparr>pl_map := sm\<rparr>)"
    using Store_shape [of k item "pl_map p" sm] reach_store by (intro write_inv [OF d]) auto
  then show ?case by blast
next
  case (reach_delete c a wt T p k sm)
  then obtain d where d: "pool_inv c a wt T d p" by blast
  have "skipmap_rep sm (d(k := None))" using SkipMap_remove_rep [OF pool_invD(1) [OF d], of k] reach_delete by auto
  then have "pool_inv c (a(k := None)) wt T (d(k := None)) (p\<lparr>pl_map := sm\<rparr>)"
    using Delete_shape [of k "pl_map p" sm] reach_delete by (intro write_inv [OF d]) auto
  then show ?case by blast
qed

section \<open>What the cleaner does\<close>

fun busy :: "'v worker \<Rightarrow> bool" where
  "busy (WScan t) = True"
| "busy (WDelete i es) = True"
| "busy _ = False"

text \<open>No task is queued and no worker has one.\<close>

definition quiet :: "('v, 'u) pool \<Rightarrow> bool" where
  "quiet p \<longleftrightarrow> cl_taskQueue (pl_cleaner p) = [] \<and> (\<forall>w\<in>set (pl_workers p). \<not> busy w)"

lemma cleaned_same_from: "cleaned c a d \<Longrightarrow> same_from c (ttl_of a) (ttl_of d)"
proof (rule same_from_drop)
  fix k assume "cleaned c a d" "ttl_of d k \<noteq> ttl_of a k"
  then show "ttl_of d k = None \<and> live c (ttl_of a) k = None"
    by (auto simp: cleaned_def ttl_of_def live_ttl_of dest!: spec [of _ k])
qed

lemma quiet_clean:
  assumes "pool_inv c a wt (Some t) d p" "quiet p" "d k = Some item" "item_expired t item"
  shows "stored_since t wt k"
proof (rule ccontr)
  assume "\<not> stored_since t wt k"
  with assms(1,3,4) have "attended t k p" by (auto simp: pool_inv_def rounds_covered_def covered_def)
  then obtain w where "w \<in> set (pl_workers p)" "attends t (shard_index (sm_mask (pl_map p)) k) k w"
    using assms(2) by (auto simp: attended_def Let_def quiet_def)
  moreover from this(2) have "busy w" by (cases w) auto
  ultimately show False using assms(2) by (auto simp: quiet_def)
qed

lemma scan_ready:
  assumes "pool_inv c a wt T d p" "worker_at w p = WScan task"
  shows "\<exists>p'. worker_scan w p = Some p'"
proof -
  note i = pool_invD [OF assms(1)]
  have "task_ok c p task" using i(4) assms(2) worker_at_in [of w p] by fastforce
  then have "0 \<le> shardIndex task" "nat (shardIndex task) < length (sm_shards (pl_map p))"
    using i(1) by (auto simp: task_ok_def SkipMap_ShardCount_def skipmap_rep_def)
  from processTask_scan_rep [OF i(1) this] show ?thesis by (simp add: worker_scan_def assms(2))
qed

lemma delete_ready:
  assumes "pool_inv c a wt T d p" "worker_at w p = WDelete j es"
  shows "\<exists>p'. worker_delete w p = Some p'"
proof (cases es)
  case (Cons e es')
  note i = pool_invD [OF assms(1)]
  have "worker_ok c a p (WDelete j es)" using i(4) assms(2) worker_at_in [of w p] by fastforce
  then obtain sm u where "processTask_delete (cl_onEvict (pl_cleaner p)) j [e] (pl_map p) (pl_user p) = Some (sm, u)"
    using processTask_delete_rep [OF i(1), of "[e]" j "cl_onEvict (pl_cleaner p)" "pl_user p"]
    by (fastforce simp: Cons simp del: processTask_delete.simps)
  then show ?thesis by (cases e) (simp add: worker_delete_def assms(2) Cons del: processTask_delete.simps)
qed (simp add: worker_delete_def assms(2))

text \<open>C5. The asynchronous cleaner under every interleaving of its workers, its scheduler, manual clean requests, a stop
  and stores and deletions by users of the map, which may store any item, also one that has already expired; excluded are only
  writes to a key that a worker has found expired and not yet deleted (that race loses the write). At every moment the map is
  a well-formed map whose live entries, from now on, are exactly those that the writes alone would give: readers cannot see the
  cleaner at work. A worker that has a task can always make its next step, so no task panics or blocks. And whenever
  a complete round has been sent and no task is left, the map has no entry that had expired at the time of that
  round, except entries stored at or after that time, which were expired already when they were stored.\<close>

theorem cleaner_pool_correct:
  assumes "pool_reach c a wt T p"
  shows "\<exists>d. skipmap_rep (pl_map p) d \<and> same_from c (ttl_of a) (ttl_of d)
    \<and> (\<forall>w. busy (worker_at w p) \<longrightarrow> pool_next (Scan w) p \<noteq> None \<or> pool_next (Delete w) p \<noteq> None)
    \<and> (\<forall>t. T = Some t \<longrightarrow> quiet p \<longrightarrow> (\<forall>k item. d k = Some item \<longrightarrow> item_expired t item \<longrightarrow> (\<exists>s. wt k = Some s \<and> t \<le> s \<and> item_expired s item)))"
proof -
  obtain d where d: "pool_inv c a wt T d p" using reach_inv [OF assms] by blast
  have "pool_next (Scan w) p \<noteq> None \<or> pool_next (Delete w) p \<noteq> None" if "busy (worker_at w p)" for w
    using that scan_ready [OF d, of w] delete_ready [OF d, of w] by (cases "worker_at w p") auto
  moreover have "\<exists>s. wt k = Some s \<and> t \<le> s \<and> item_expired s item"
    if "T = Some t" "quiet p" "d k = Some item" "item_expired t item" for t k item
    using quiet_clean [of c a wt t d p k item] d that item_expired_later [of t item]
    by (auto simp: stored_since_def split: option.splits)
  ultimately show ?thesis using pool_invD(1,2) [OF d] cleaned_same_from by blast
qed

text \<open>A worker finishes its task by its own steps: after the scan, one step for each expired key and one more.\<close>

lemma delete_finishes:
  assumes "pool_reach c a wt T p" "worker_at w p = WDelete j es"
  shows "\<exists>p'. pool_reach c a wt T p' \<and> worker_at w p' = WIdle \<and> pl_cleaner p' = pl_cleaner p
    \<and> pl_workers p' = (pl_workers p)[w := WIdle]"
  using assms
proof (induction es arbitrary: p)
  case Nil
  have lt: "w < length (pl_workers p)" using Nil(2) by (auto simp: worker_at_def split: if_splits)
  have "pool_next (Delete w) p = Some (set_worker w WIdle p)" using Nil(2) by (simp add: worker_delete_def)
  from reach_step [OF Nil(1) this, of c] lt show ?case
    by (intro exI [of _ "set_worker w WIdle p"]) (simp add: worker_at_def, simp add: set_worker_def)
next
  case (Cons e es)
  have lt: "w < length (pl_workers p)" using Cons(3) by (auto simp: worker_at_def split: if_splits)
  obtain d where "pool_inv c a wt T d p" using reach_inv [OF Cons(2)] by blast
  then obtain p1 where p1: "worker_delete w p = Some p1" using delete_ready Cons(3) by blast
  obtain sm u where e: "p1 = set_worker w (WDelete j es) (p\<lparr>pl_map := sm, pl_user := u\<rparr>)"
    using p1 Cons(3) by (cases e) (auto simp: worker_delete_def simp del: processTask_delete.simps split: bind_splits)
  have "pool_reach c a wt T p1" using reach_step [OF Cons(2), of "Delete w" p1 c] p1 by simp
  moreover have "worker_at w p1 = WDelete j es" using lt by (simp add: e worker_at_def set_worker_def)
  ultimately obtain p' where "pool_reach c a wt T p'" "worker_at w p' = WIdle" "pl_cleaner p' = pl_cleaner p1"
      "pl_workers p' = (pl_workers p1)[w := WIdle]" using Cons.IH by blast
  then show ?case by (intro exI [of _ p']) (simp add: e set_worker_def)
qed

lemma worker_finishes:
  assumes "pool_reach c a wt T p" "worker_at w p = WScan task"
  shows "\<exists>p'. pool_reach c a wt T p' \<and> worker_at w p' = WIdle \<and> pl_cleaner p' = pl_cleaner p
    \<and> pl_workers p' = (pl_workers p)[w := WIdle]"
proof -
  have lt: "w < length (pl_workers p)" using assms(2) by (auto simp: worker_at_def split: if_splits)
  obtain d where "pool_inv c a wt T d p" using reach_inv [OF assms(1)] by blast
  then obtain p1 where p1: "worker_scan w p = Some p1" using scan_ready assms(2) by blast
  then obtain es where e: "p1 = set_worker w (WDelete (nat (shardIndex task)) es) p"
    using assms(2) by (auto simp: worker_scan_def split: bind_splits)
  have "pool_reach c a wt T p1" using reach_step [OF assms(1), of "Scan w" p1 c] p1 by simp
  moreover have "worker_at w p1 = WDelete (nat (shardIndex task)) es" using lt by (simp add: e worker_at_def set_worker_def)
  ultimately obtain p' where "pool_reach c a wt T p'" "worker_at w p' = WIdle" "pl_cleaner p' = pl_cleaner p1"
      "pl_workers p' = (pl_workers p1)[w := WIdle]" using delete_finishes by blast
  then show ?thesis by (intro exI [of _ p']) (simp add: e set_worker_def)
qed

text \<open>After the stop signal the workers can always come to an end, so the wait of \<open>Stop\<close> can be over: each finishes
  the task it has and returns.\<close>

lemma worker_ends:
  assumes "pool_reach c a wt T p" "cl_stopped (pl_cleaner p)" "w < length (pl_workers p)"
  shows "\<exists>p'. pool_reach c a wt T p' \<and> pl_cleaner p' = pl_cleaner p \<and> pl_workers p' = (pl_workers p)[w := WDone]"
proof -
  have ends: ?thesis if q: "pool_reach c a wt T q" "worker_at w q = WIdle" "pl_cleaner q = pl_cleaner p" "pl_workers q = (pl_workers p)[w := WIdle]" for q
  proof -
    have "pool_next (Exit w) q = Some (set_worker w WDone q)" using q(2,3) assms(2) by (simp add: worker_exit_def)
    from reach_step [OF q(1) this, of c] have "pool_reach c a wt T (set_worker w WDone q)" by simp
    with q(3,4) show ?thesis by (intro exI [of _ "set_worker w WDone q"]) (simp add: set_worker_def)
  qed
  show ?thesis
  proof (cases "worker_at w p")
    case WIdle
    with assms(3) have "pl_workers p = (pl_workers p)[w := WIdle]" by (metis list_update_id worker_at_def)
    with ends [of p] assms(1) WIdle show ?thesis by simp
  next
    case (WScan task)
    with worker_finishes [OF assms(1)] ends show ?thesis by blast
  next
    case (WDelete j es)
    with delete_finishes [OF assms(1)] ends show ?thesis by blast
  next
    case WDone
    with assms(3) have "pl_workers p = (pl_workers p)[w := WDone]" by (metis list_update_id worker_at_def)
    with assms(1) show ?thesis by auto
  qed
qed

lemma stop_completes:
  assumes "pool_reach c a wt T p" "cl_stopped (pl_cleaner p)"
  shows "\<exists>p'. pool_reach c a wt T p' \<and> pl_cleaner p' = pl_cleaner p \<and> pl_workers p' = replicate (length (pl_workers p)) WDone"
proof -
  have "\<exists>p'. pool_reach c a wt T p' \<and> pl_cleaner p' = pl_cleaner p \<and> length (pl_workers p') = length (pl_workers p)
      \<and> (\<forall>w<n. pl_workers p' ! w = WDone)" if "n \<le> length (pl_workers p)" for n
    using that
  proof (induction n)
    case (Suc n)
    then obtain q where q: "pool_reach c a wt T q" "pl_cleaner q = pl_cleaner p" "length (pl_workers q) = length (pl_workers p)"
      "\<forall>w<n. pl_workers q ! w = WDone" by auto
    with worker_ends [OF q(1), of n] assms(2) Suc.prems obtain r where "pool_reach c a wt T r" "pl_cleaner r = pl_cleaner q"
      "pl_workers r = (pl_workers q)[n := WDone]" by auto
    with q Suc.prems show ?case by (intro exI [of _ r]) (auto simp: nth_list_update less_Suc_eq)
  qed (use assms in auto)
  from this [OF order_refl] obtain p' where p': "pool_reach c a wt T p'" "pl_cleaner p' = pl_cleaner p" "length (pl_workers p') = length (pl_workers p)"
    "\<forall>w<length (pl_workers p). pl_workers p' ! w = WDone" by blast
  have "pl_workers p' = replicate (length (pl_workers p)) WDone" by (rule nth_equalityI) (simp_all add: p')
  with p'(1,2) show ?thesis by blast
qed

text \<open>A complete round over a map of one shard, whose one entry has expired.\<close>

lemma one_shard_map:
  "\<exists>sm. skipmap_rep sm [''a'' \<mapsto> \<lparr>item_value = 7::int, item_expiration = 5\<rparr>] \<and> SkipMap_ShardCount sm = 1"
proof -
  let ?sm = "NewSkipShardedMap (\<lambda>_ _. False) 1" and ?item = "\<lparr>item_value = 7::int, item_expiration = 5\<rparr>"
  obtain sm where sm: "SkipMap_Store ''a'' ?item ?sm = Some sm" "skipmap_rep sm [''a'' \<mapsto> ?item]"
    using SkipMap_Store_rep [OF NewSkipShardedMap_rep [of 1 "\<lambda>_ _. False"], of "''a''" ?item] by auto
  have "sm_count ?sm = 1" by (simp add: NewSkipShardedMap_def Let_def roundShardCount_def)
  with Store_shape [OF sm(1)] sm(2) show ?thesis by (auto simp: SkipMap_ShardCount_def)
qed

lemma one_round:
  assumes "skipmap_rep sm d" "SkipMap_ShardCount sm = 1" "0 \<le> t"
  shows "\<exists>p :: ('v, unit) pool. pool_reach t d Map.empty (Some t) p \<and> quiet p"
proof -
  let ?cl = "NewCleaner [] :: ('v, unit) Cleaner" and ?task = "\<lparr>shardIndex = 0, task_now = t\<rparr>"
  let ?p0 = "start_pool ?cl sm ()"
  let ?p1 = "?p0\<lparr>pl_sched := SchedSend t 0\<rparr>"
  let ?p2 = "?p0\<lparr>pl_cleaner := (pl_cleaner ?p0)\<lparr>cl_taskQueue := [?task]\<rparr>, pl_sched := SchedSend t 1\<rparr>"
  let ?p3 = "?p2\<lparr>pl_sched := SchedWait\<rparr>"
  let ?p4 = "set_worker 0 (WScan ?task) (?p3\<lparr>pl_cleaner := (pl_cleaner ?p0)\<lparr>cl_taskQueue := []\<rparr>\<rparr>)"
  have cl: "cl_taskQueue ?cl = []" "cl_queueCap ?cl = 128" "cl_workerCount ?cl = 4"
    by (simp_all add: NewCleaner_def DefaultQueueSize_def DefaultWorkerCount_def)
  have p0: "pl_workers ?p0 = [WIdle, WIdle, WIdle, WIdle]" "cl_taskQueue (pl_cleaner ?p0) = []" "cl_queueCap (pl_cleaner ?p0) = 128"
    by (simp_all add: start_pool_def cl Cleaner_Start_def numeral_eq_Suc)
  have m: "pl_map ?p0 = sm" "pl_sched ?p0 = SchedWait" by (simp_all add: start_pool_def)
  have r0: "pool_reach 0 d Map.empty None ?p0" using reach_start [OF assms(1) cl(1)] .
  have r1: "pool_reach t d Map.empty None ?p1" using reach_step [OF r0, of "Tick t" ?p1 t] assms(3) by (simp add: scheduler_tick_def m)
  have "pool_next Send ?p1 = Some ?p2" using assms(2) by (simp add: scheduler_send_def send_task_def m p0 Let_def)
  from reach_step [OF r1 this, of t] have r2: "pool_reach t d Map.empty None ?p2" using assms(2) by (simp add: m)
  have "pool_next Send ?p2 = Some ?p3" using assms(2) by (simp add: scheduler_send_def m)
  from reach_step [OF r2 this, of t] have r3: "pool_reach t d Map.empty (Some t) ?p3" using assms(2) by (simp add: m)
  have "pool_next (Take 0) ?p3 = Some ?p4" by (simp add: worker_take_def worker_at_def p0)
  from reach_step [OF r3 this, of t] have r4: "pool_reach t d Map.empty (Some t) ?p4" by simp
  have w4: "worker_at 0 ?p4 = WScan ?task" by (simp add: worker_at_def set_worker_def p0)
  from worker_finishes [OF r4 w4] obtain p where p: "pool_reach t d Map.empty (Some t) p" "pl_cleaner p = pl_cleaner ?p4"
    "pl_workers p = (pl_workers ?p4)[0 := WIdle]" by blast
  then have "quiet p" by (simp add: quiet_def set_worker_def p0)
  with p(1) show ?thesis by blast
qed

theorem cleaner_pool_correct_witness:
  "\<exists>(p :: (int, unit) pool) d. pool_reach 10 [''a'' \<mapsto> \<lparr>item_value = 7, item_expiration = 5\<rparr>] Map.empty (Some 10) p \<and> quiet p
    \<and> skipmap_rep (pl_map p) d \<and> d ''a'' = None"
proof -
  let ?a = "[''a'' \<mapsto> \<lparr>item_value = 7::int, item_expiration = 5\<rparr>]"
  obtain sm where sm: "skipmap_rep sm ?a" "SkipMap_ShardCount sm = 1" using one_shard_map by blast
  obtain p :: "(int, unit) pool" where p: "pool_reach 10 ?a Map.empty (Some 10) p" "quiet p" using one_round [OF sm, of 10] by auto
  obtain d where d: "skipmap_rep (pl_map p) d" "same_from 10 (ttl_of ?a) (ttl_of d)"
    "\<forall>k item. d k = Some item \<longrightarrow> item_expired 10 item \<longrightarrow> (\<exists>s. (Map.empty :: string \<rightharpoonup> instant) k = Some s \<and> 10 \<le> s \<and> item_expired s item)"
    using cleaner_pool_correct [OF p(1)] p(2) by blast
  have "d ''a'' = None"
  proof (rule ccontr)
    assume "d ''a'' \<noteq> None"
    then obtain item where "d ''a'' = Some item" by auto
    with d(3) same_from_live [OF d(2), THEN fun_cong, of "''a''"] show False
      by (auto simp: live_ttl_of item_expired_def split: if_splits)
  qed
  with p d(1) show ?thesis by blast
qed

end
