(* ===== verification/Protocol.thy ===== *)
theory Protocol
  imports Json ClusterNode Election
begin

text \<open>
  What the nodes of a cluster send to each other, as text: the payloads of \<^verbatim>\<open>src/cache/cluster/protocol.go\<close> and of the
  elections in \<^verbatim>\<open>src/cache/cluster/election.go\<close> with their marshalling functions, and the message that the transport
  wraps around a payload. Encoding and decoding of structs follow \<^verbatim>\<open>encoding/json\<close>: fields are found by their exact name and else regardless of
  case, unknown ones are ignored, \<open>null\<close> leaves a field as it is, a field with \<open>omitempty\<close> that is empty is not written, the keys
  of a map are written in order. An empty slice stands for nil as well. Formatting of times
  and of floating-point numbers is an argument: a function to text that may fail, and one back.
\<close>

section \<open>Decoding\<close>

type_synonym 'a decoder = "json \<Rightarrow> 'a \<Rightarrow> 'a option"

definition dec_string :: "string decoder" where
  "dec_string j old = (case j of JNull \<Rightarrow> Some old | JStr s \<Rightarrow> Some s | _ \<Rightarrow> None)"

definition dec_bool :: "bool decoder" where
  "dec_bool j old = (case j of JNull \<Rightarrow> Some old | JBool b \<Rightarrow> Some b | _ \<Rightarrow> None)"

definition dec_int :: "int decoder" where
  "dec_int j old = (case j of JNull \<Rightarrow> Some old | JNum s \<Rightarrow> Atoi s | _ \<Rightarrow> None)"

definition dec_uint :: "u64 decoder" where
  "dec_uint j old = (case j of JNull \<Rightarrow> Some old | JNum s \<Rightarrow> ParseUint s | _ \<Rightarrow> None)"

text \<open>A float or a time, by the function that reads its text.\<close>

definition dec_num :: "(string \<Rightarrow> 'f option) \<Rightarrow> 'f decoder" where
  "dec_num parse j old = (case j of JNull \<Rightarrow> Some old | JNum s \<Rightarrow> parse s | _ \<Rightarrow> None)"

definition dec_text :: "(string \<Rightarrow> 'f option) \<Rightarrow> 'f decoder" where
  "dec_text parse j old = (case j of JNull \<Rightarrow> Some old | JStr s \<Rightarrow> parse s | _ \<Rightarrow> None)"

fun dec_elems :: "'a decoder \<Rightarrow> 'a \<Rightarrow> json list \<Rightarrow> 'a list option" where
  "dec_elems d z [] = Some []"
| "dec_elems d z (j # js) = do { x \<leftarrow> d j z; xs \<leftarrow> dec_elems d z js; Some (x # xs) }"

definition dec_list :: "'a decoder \<Rightarrow> 'a \<Rightarrow> 'a list decoder" where
  "dec_list d z j old = (case j of JNull \<Rightarrow> Some [] | JArr js \<Rightarrow> dec_elems d z js | _ \<Rightarrow> None)"

definition dec_byte :: "nat decoder" where
  "dec_byte j old = (case j of JNull \<Rightarrow> Some old
     | JNum s \<Rightarrow> do { n \<leftarrow> atoi_unsigned s; if n < 256 then Some (nat n) else None } | _ \<Rightarrow> None)"

text \<open>A \<open>[]byte\<close> is a string in base64, or an array of small numbers.\<close>

definition dec_bytes :: "string decoder" where
  "dec_bytes j old = (case j of JStr s \<Rightarrow> b64_decode s | _ \<Rightarrow> map_option (map char_of) (dec_list dec_byte 0 j []))"

text \<open>The entries of an object go into the map that is there.\<close>

fun dec_entries :: "(string \<times> json) list \<Rightarrow> string gomap \<Rightarrow> string gomap option" where
  "dec_entries [] m = Some m"
| "dec_entries ((k, j) # ps) m = do { v \<leftarrow> dec_string j ''''; dec_entries ps (AList.update k v m) }"

definition dec_map :: "string gomap option decoder" where
  "dec_map j old = (case j of JNull \<Rightarrow> Some None
     | JObj ps \<Rightarrow> map_option Some (dec_entries ps (case old of None \<Rightarrow> [] | Some m \<Rightarrow> m)) | _ \<Rightarrow> None)"

text \<open>Names of fields regardless of case: letters are made capital, the Kelvin sign is a K and the long s an S.\<close>

fun fold_name :: "string \<Rightarrow> string" where
  "fold_name [] = []"
| "fold_name (c # cs) =
     (if 97 \<le> byte c \<and> byte c \<le> 122 then char_of (byte c - 32) # fold_name cs
      else if take 3 (c # cs) = utf8_encode 8490 then CHR ''K'' # fold_name (drop 2 cs)
      else if take 2 (c # cs) = utf8_encode 383 then CHR ''S'' # fold_name (drop 1 cs)
      else c # fold_name cs)"

type_synonym 's fields = "(string \<times> (json \<Rightarrow> 's \<Rightarrow> 's option)) list"

definition find_field :: "'s fields \<Rightarrow> string \<Rightarrow> (json \<Rightarrow> 's \<Rightarrow> 's option) option" where
  "find_field fs k = (case map_of fs k of Some d \<Rightarrow> Some d | None \<Rightarrow> map_of (map (map_prod fold_name id) fs) (fold_name k))"

fun dec_pairs :: "'s fields \<Rightarrow> (string \<times> json) list \<Rightarrow> 's \<Rightarrow> 's option" where
  "dec_pairs fs [] s = Some s"
| "dec_pairs fs ((k, j) # ps) s = (case find_field fs k of None \<Rightarrow> dec_pairs fs ps s | Some d \<Rightarrow> Option.bind (d j s) (dec_pairs fs ps))"

definition dec_struct :: "'s fields \<Rightarrow> 's decoder" where
  "dec_struct fs j s = (case j of JNull \<Rightarrow> Some s | JObj ps \<Rightarrow> dec_pairs fs ps s | _ \<Rightarrow> None)"

definition unmarshal_struct :: "'s fields \<Rightarrow> 's \<Rightarrow> string \<Rightarrow> 's option" where
  "unmarshal_struct fs zero data = Option.bind (json_parse data) (\<lambda>j. dec_struct fs j zero)"

text \<open>A field: its name, how its value is read, and where it is.\<close>

definition fld :: "string \<Rightarrow> 'a decoder \<Rightarrow> ('s \<Rightarrow> 'a) \<Rightarrow> (('a \<Rightarrow> 'a) \<Rightarrow> 's \<Rightarrow> 's) \<Rightarrow> string \<times> (json \<Rightarrow> 's \<Rightarrow> 's option)" where
  "fld name d get upd = (name, \<lambda>j s. map_option (\<lambda>x. upd (\<lambda>_. x) s) (d j (get s)))"

section \<open>Encoding\<close>

definition enc_int :: "int \<Rightarrow> json" where
  "enc_int i = JNum (sprintd i)"

definition enc_uint :: "u64 \<Rightarrow> json" where
  "enc_uint w = JNum (itoa (unat w))"

definition enc_bytes :: "string \<Rightarrow> json" where
  "enc_bytes s = JStr (b64_encode s)"

definition enc_map :: "string gomap \<Rightarrow> json" where
  "enc_map m = JObj (map (map_prod id JStr) (sort_key fst m))"

text \<open>The fields of a struct, those with \<open>omitempty\<close> only when they are not empty.\<close>

definition required :: "string \<Rightarrow> json \<Rightarrow> (string \<times> json) list" where
  "required name j = [(name, j)]"

definition omitempty :: "bool \<Rightarrow> string \<Rightarrow> json \<Rightarrow> (string \<times> json) list" where
  "omitempty isEmpty name j = (if isEmpty then [] else [(name, j)])"

definition metadata_field :: "string gomap option \<Rightarrow> (string \<times> json) list" where
  "metadata_field m = (case m of None \<Rightarrow> [] | Some kvs \<Rightarrow> omitempty (kvs = []) ''metadata'' (enc_map kvs))"

definition marshal_struct :: "(string \<times> json) list \<Rightarrow> string" where
  "marshal_struct ps = json_print (JObj ps)"

section \<open>Payloads\<close>

definition join_json :: "JoinPayload \<Rightarrow> (string \<times> json) list" where
  "join_json p = required ''node_id'' (JStr (jp_NodeID p)) @ required ''address'' (JStr (jp_Address p)) @ metadata_field (jp_Metadata p)"

definition join_fields :: "JoinPayload fields" where
  "join_fields = [fld ''node_id'' dec_string jp_NodeID jp_NodeID_update, fld ''address'' dec_string jp_Address jp_Address_update,
     fld ''metadata'' dec_map jp_Metadata jp_Metadata_update]"

definition MarshalJoinPayload :: "JoinPayload \<Rightarrow> string" where
  "MarshalJoinPayload p = marshal_struct (join_json p)"

definition UnmarshalJoinPayload :: "string \<Rightarrow> JoinPayload option" where
  "UnmarshalJoinPayload = unmarshal_struct join_fields \<lparr>jp_NodeID = [], jp_Address = [], jp_Metadata = None\<rparr>"

definition leave_json :: "LeavePayload \<Rightarrow> (string \<times> json) list" where
  "leave_json p = required ''node_id'' (JStr (lp_NodeID p)) @ required ''graceful'' (JBool (lp_Graceful p))"

definition leave_fields :: "LeavePayload fields" where
  "leave_fields = [fld ''node_id'' dec_string lp_NodeID lp_NodeID_update, fld ''graceful'' dec_bool lp_Graceful lp_Graceful_update]"

definition MarshalLeavePayload :: "LeavePayload \<Rightarrow> string" where
  "MarshalLeavePayload p = marshal_struct (leave_json p)"

definition UnmarshalLeavePayload :: "string \<Rightarrow> LeavePayload option" where
  "UnmarshalLeavePayload = unmarshal_struct leave_fields \<lparr>lp_NodeID = [], lp_Graceful = False\<rparr>"

record PingPayload =
  pg_Sequence :: int
  pg_Metadata :: "string gomap option"

definition ping_json :: "PingPayload \<Rightarrow> (string \<times> json) list" where
  "ping_json p = required ''seq'' (enc_int (pg_Sequence p)) @ metadata_field (pg_Metadata p)"

definition ping_fields :: "PingPayload fields" where
  "ping_fields = [fld ''seq'' dec_int pg_Sequence pg_Sequence_update, fld ''metadata'' dec_map pg_Metadata pg_Metadata_update]"

definition MarshalPingPayload :: "PingPayload \<Rightarrow> string" where
  "MarshalPingPayload p = marshal_struct (ping_json p)"

definition UnmarshalPingPayload :: "string \<Rightarrow> PingPayload option" where
  "UnmarshalPingPayload = unmarshal_struct ping_fields \<lparr>pg_Sequence = 0, pg_Metadata = None\<rparr>"

record 'f PongPayload =
  po_Sequence :: int
  po_LoadFactor :: 'f
  po_MemoryUsage :: 'f
  po_ItemCount :: int
  po_ResponseTime :: duration
  po_Metadata :: "string gomap option"

text \<open>A float that is not finite cannot be encoded.\<close>

definition pong_json :: "string \<Rightarrow> string \<Rightarrow> 'f PongPayload \<Rightarrow> (string \<times> json) list" where
  "pong_json load memory p = required ''seq'' (enc_int (po_Sequence p)) @ required ''load'' (JNum load) @ required ''memory'' (JNum memory)
     @ required ''items'' (enc_int (po_ItemCount p)) @ required ''resp_time'' (enc_int (po_ResponseTime p)) @ metadata_field (po_Metadata p)"

definition pong_fields :: "(string \<Rightarrow> 'f option) \<Rightarrow> 'f PongPayload fields" where
  "pong_fields parse = [fld ''seq'' dec_int po_Sequence po_Sequence_update,
     fld ''load'' (dec_num parse) po_LoadFactor po_LoadFactor_update, fld ''memory'' (dec_num parse) po_MemoryUsage po_MemoryUsage_update,
     fld ''items'' dec_int po_ItemCount po_ItemCount_update, fld ''resp_time'' dec_int po_ResponseTime po_ResponseTime_update,
     fld ''metadata'' dec_map po_Metadata po_Metadata_update]"

definition MarshalPongPayload :: "('f \<Rightarrow> string option) \<Rightarrow> 'f PongPayload \<Rightarrow> string option" where
  "MarshalPongPayload format p = do {
     load \<leftarrow> format (po_LoadFactor p);
     memory \<leftarrow> format (po_MemoryUsage p);
     Some (marshal_struct (pong_json load memory p)) }"

definition UnmarshalPongPayload :: "(string \<Rightarrow> 'f option) \<Rightarrow> 'f \<Rightarrow> string \<Rightarrow> 'f PongPayload option" where
  "UnmarshalPongPayload parse zero = unmarshal_struct (pong_fields parse)
     \<lparr>po_Sequence = 0, po_LoadFactor = zero, po_MemoryUsage = zero, po_ItemCount = 0, po_ResponseTime = 0, po_Metadata = None\<rparr>"

definition syncreq_json :: "SyncRequestPayload \<Rightarrow> (string \<times> json) list" where
  "syncreq_json p = required ''from_node_id'' (JStr (sq_FromNodeID p)) @ omitempty (sq_StartKey p = []) ''start_key'' (JStr (sq_StartKey p))
     @ omitempty (sq_EndKey p = []) ''end_key'' (JStr (sq_EndKey p)) @ omitempty (sq_MaxItems p = 0) ''max_items'' (enc_int (sq_MaxItems p))"

definition syncreq_fields :: "SyncRequestPayload fields" where
  "syncreq_fields = [fld ''from_node_id'' dec_string sq_FromNodeID sq_FromNodeID_update, fld ''start_key'' dec_string sq_StartKey sq_StartKey_update,
     fld ''end_key'' dec_string sq_EndKey sq_EndKey_update, fld ''max_items'' dec_int sq_MaxItems sq_MaxItems_update]"

definition MarshalSyncRequestPayload :: "SyncRequestPayload \<Rightarrow> string" where
  "MarshalSyncRequestPayload p = marshal_struct (syncreq_json p)"

definition UnmarshalSyncRequestPayload :: "string \<Rightarrow> SyncRequestPayload option" where
  "UnmarshalSyncRequestPayload = unmarshal_struct syncreq_fields \<lparr>sq_FromNodeID = [], sq_StartKey = [], sq_EndKey = [], sq_MaxItems = 0\<rparr>"

definition item_json :: "SyncItem \<Rightarrow> (string \<times> json) list" where
  "item_json p = required ''key'' (JStr (si_Key p)) @ required ''value'' (enc_bytes (si_Value p)) @ required ''expiration'' (enc_int (si_Expiration p))"

definition item_fields :: "SyncItem fields" where
  "item_fields = [fld ''key'' dec_string si_Key si_Key_update, fld ''value'' dec_bytes si_Value si_Value_update,
     fld ''expiration'' dec_int si_Expiration si_Expiration_update]"

definition zero_item :: SyncItem where
  "zero_item = \<lparr>si_Key = [], si_Value = [], si_Expiration = 0\<rparr>"

definition syncresp_json :: "SyncResponsePayload \<Rightarrow> (string \<times> json) list" where
  "syncresp_json p = required ''from_node_id'' (JStr (sp_FromNodeID p)) @ required ''items'' (JArr (map (\<lambda>i. JObj (item_json i)) (sp_Items p)))
     @ required ''has_more'' (JBool (sp_HasMore p)) @ omitempty (sp_NextKey p = []) ''next_key'' (JStr (sp_NextKey p))"

definition syncresp_fields :: "SyncResponsePayload fields" where
  "syncresp_fields = [fld ''from_node_id'' dec_string sp_FromNodeID sp_FromNodeID_update,
     fld ''items'' (dec_list (dec_struct item_fields) zero_item) sp_Items sp_Items_update,
     fld ''has_more'' dec_bool sp_HasMore sp_HasMore_update, fld ''next_key'' dec_string sp_NextKey sp_NextKey_update]"

definition MarshalSyncResponsePayload :: "SyncResponsePayload \<Rightarrow> string" where
  "MarshalSyncResponsePayload p = marshal_struct (syncresp_json p)"

definition UnmarshalSyncResponsePayload :: "string \<Rightarrow> SyncResponsePayload option" where
  "UnmarshalSyncResponsePayload = unmarshal_struct syncresp_fields \<lparr>sp_FromNodeID = [], sp_Items = [], sp_HasMore = False, sp_NextKey = []\<rparr>"

definition gossipnode_json :: "GossipNodeInfo \<Rightarrow> (string \<times> json) list" where
  "gossipnode_json p = required ''id'' (JStr (gn_ID p)) @ required ''address'' (JStr (gn_Address p)) @ required ''status'' (enc_int (gn_Status p))
     @ required ''last_seen'' (enc_int (gn_LastSeen p)) @ metadata_field (gn_Metadata p)"

definition gossipnode_fields :: "GossipNodeInfo fields" where
  "gossipnode_fields = [fld ''id'' dec_string gn_ID gn_ID_update, fld ''address'' dec_string gn_Address gn_Address_update,
     fld ''status'' dec_int gn_Status gn_Status_update, fld ''last_seen'' dec_int gn_LastSeen gn_LastSeen_update,
     fld ''metadata'' dec_map gn_Metadata gn_Metadata_update]"

definition zero_gossipnode :: GossipNodeInfo where
  "zero_gossipnode = \<lparr>gn_ID = [], gn_Address = [], gn_Status = 0, gn_LastSeen = 0, gn_Metadata = None\<rparr>"

text \<open>A gossip payload has one field, the list of nodes.\<close>

definition MarshalGossipPayload :: "GossipNodeInfo list \<Rightarrow> string" where
  "MarshalGossipPayload nodes = marshal_struct (required ''nodes'' (JArr (map (\<lambda>n. JObj (gossipnode_json n)) nodes)))"

definition UnmarshalGossipPayload :: "string \<Rightarrow> GossipNodeInfo list option" where
  "UnmarshalGossipPayload = unmarshal_struct [fld ''nodes'' (dec_list (dec_struct gossipnode_fields) zero_gossipnode) id (\<lambda>f. f)] []"

section \<open>Messages of elections\<close>

definition heartbeat_json :: "Heartbeat \<Rightarrow> (string \<times> json) list" where
  "heartbeat_json h = required ''term'' (enc_uint (hb_Term h)) @ required ''leader_id'' (JStr (hb_LeaderID h))"

definition heartbeat_fields :: "Heartbeat fields" where
  "heartbeat_fields = [fld ''term'' dec_uint hb_Term hb_Term_update, fld ''leader_id'' dec_string hb_LeaderID hb_LeaderID_update]"

definition MarshalHeartbeat :: "Heartbeat \<Rightarrow> string" where
  "MarshalHeartbeat h = marshal_struct (heartbeat_json h)"

definition UnmarshalHeartbeat :: "string \<Rightarrow> Heartbeat option" where
  "UnmarshalHeartbeat = unmarshal_struct heartbeat_fields \<lparr>hb_Term = 0, hb_LeaderID = []\<rparr>"

definition voterequest_json :: "VoteRequest \<Rightarrow> (string \<times> json) list" where
  "voterequest_json q = required ''term'' (enc_uint (vq_Term q)) @ required ''candidate_id'' (JStr (vq_CandidateID q))
     @ required ''last_log_index'' (enc_uint (vq_LastLogIndex q)) @ required ''last_log_term'' (enc_uint (vq_LastLogTerm q))
     @ required ''priority'' (enc_int (vq_Priority q))"

definition voterequest_fields :: "VoteRequest fields" where
  "voterequest_fields = [fld ''term'' dec_uint vq_Term vq_Term_update, fld ''candidate_id'' dec_string vq_CandidateID vq_CandidateID_update,
     fld ''last_log_index'' dec_uint vq_LastLogIndex vq_LastLogIndex_update, fld ''last_log_term'' dec_uint vq_LastLogTerm vq_LastLogTerm_update,
     fld ''priority'' dec_int vq_Priority vq_Priority_update]"

definition MarshalVoteRequest :: "VoteRequest \<Rightarrow> string" where
  "MarshalVoteRequest q = marshal_struct (voterequest_json q)"

definition UnmarshalVoteRequest :: "string \<Rightarrow> VoteRequest option" where
  "UnmarshalVoteRequest = unmarshal_struct voterequest_fields
     \<lparr>vq_Term = 0, vq_CandidateID = [], vq_LastLogIndex = 0, vq_LastLogTerm = 0, vq_Priority = 0\<rparr>"

definition voteresponse_json :: "VoteResponse \<Rightarrow> (string \<times> json) list" where
  "voteresponse_json r = required ''term'' (enc_uint (vr_Term r)) @ required ''vote_granted'' (JBool (vr_VoteGranted r))
     @ required ''voted_for'' (JStr (vr_VotedFor r))"

definition voteresponse_fields :: "VoteResponse fields" where
  "voteresponse_fields = [fld ''term'' dec_uint vr_Term vr_Term_update, fld ''vote_granted'' dec_bool vr_VoteGranted vr_VoteGranted_update,
     fld ''voted_for'' dec_string vr_VotedFor vr_VotedFor_update]"

definition MarshalVoteResponse :: "VoteResponse \<Rightarrow> string" where
  "MarshalVoteResponse r = marshal_struct (voteresponse_json r)"

definition UnmarshalVoteResponse :: "string \<Rightarrow> VoteResponse option" where
  "UnmarshalVoteResponse = unmarshal_struct voteresponse_fields \<lparr>vr_Term = 0, vr_VoteGranted = False, vr_VotedFor = []\<rparr>"

section \<open>Messages\<close>

text \<open>The message around a payload: once with the names of the fields as the transport's type has them, once as the
  type of \<^verbatim>\<open>protocol.go\<close> does.\<close>

record WireMessage =
  nm_Type :: int
  nm_SenderID :: string
  nm_Timestamp :: instant
  nm_Payload :: string

definition message_json :: "string list \<Rightarrow> string \<Rightarrow> WireMessage \<Rightarrow> (string \<times> json) list" where
  "message_json names time m = zip names [enc_int (nm_Type m), JStr (nm_SenderID m), JStr time, enc_bytes (nm_Payload m)]"

definition message_fields :: "(string \<Rightarrow> instant option) \<Rightarrow> string list \<Rightarrow> WireMessage fields" where
  "message_fields parse names = [fld (names ! 0) dec_int nm_Type nm_Type_update, fld (names ! 1) dec_string nm_SenderID nm_SenderID_update,
     fld (names ! 2) (dec_text parse) nm_Timestamp nm_Timestamp_update, fld (names ! 3) dec_bytes nm_Payload nm_Payload_update]"

definition zero_message :: WireMessage where
  "zero_message = \<lparr>nm_Type = 0, nm_SenderID = [], nm_Timestamp = 0, nm_Payload = []\<rparr>"

definition protocol_names :: "string list" where
  "protocol_names = [''type'', ''sender_id'', ''timestamp'', ''payload'']"

definition transport_names :: "string list" where
  "transport_names = [''Type'', ''SenderID'', ''Timestamp'', ''Payload'']"

definition MessageToBytes :: "(instant \<Rightarrow> string option) \<Rightarrow> WireMessage \<Rightarrow> string option" where
  "MessageToBytes format m = map_option (\<lambda>time. marshal_struct (message_json protocol_names time m)) (format (nm_Timestamp m))"

definition BytesToMessage :: "(string \<Rightarrow> instant option) \<Rightarrow> string \<Rightarrow> gerror + WireMessage" where
  "BytesToMessage parse data = (case unmarshal_struct (message_fields parse protocol_names) zero_message data of
     None \<Rightarrow> Inl (Errorf ''failed to unmarshal message: %w'') | Some m \<Rightarrow> Inr m)"

definition marshal_message :: "(instant \<Rightarrow> string option) \<Rightarrow> WireMessage \<Rightarrow> string option" where
  "marshal_message format m = map_option (\<lambda>time. marshal_struct (message_json transport_names time m)) (format (nm_Timestamp m))"

definition unmarshal_message :: "(string \<Rightarrow> instant option) \<Rightarrow> string \<Rightarrow> WireMessage option" where
  "unmarshal_message parse = unmarshal_struct (message_fields parse transport_names) zero_message"

section \<open>Round trips\<close>

lemma unmarshal_marshal:
  assumes "pairs_ok ps" "pairs_depth ps < maxNestingDepth"
  shows "unmarshal_struct fs z (marshal_struct ps) = dec_pairs fs (map (map_prod to_valid json_valid) ps) z"
  using parse_print [of "JObj ps"] assms by (simp add: unmarshal_struct_def marshal_struct_def dec_struct_def)

lemma to_valid_ascii: "list_all (\<lambda>c. byte c < 128) s \<Longrightarrow> to_valid s = s"
  by (simp add: to_valid_id ascii_valid list_all_iff)

definition is_int64 :: "int \<Rightarrow> bool" where
  "is_int64 i \<longleftrightarrow> - (2 ^ 63) \<le> i \<and> i < 2 ^ 63"

lemma dec_enc [simp]:
  "is_int64 i \<Longrightarrow> dec_int (enc_int i) x = Some i" "json_valid (enc_int i) = enc_int i" "json_ok (enc_int i)" "json_depth (enc_int i) = 0"
  "dec_uint (enc_uint w) y = Some w" "json_valid (enc_uint w) = enc_uint w" "json_ok (enc_uint w)" "json_depth (enc_uint w) = 0"
  "dec_bytes (enc_bytes s) t = Some s" "json_valid (enc_bytes s) = enc_bytes s" "json_ok (enc_bytes s)" "json_depth (enc_bytes s) = 0"
  by (simp_all add: enc_int_def dec_int_def Atoi_sprintd is_int64_def is_number_sprintd enc_uint_def dec_uint_def ParseUint_itoa is_number_itoa
      enc_bytes_def dec_bytes_def b64_roundtrip b64_valid to_valid_id)

lemma dec_JStr [simp]:
  "dec_string (JStr s) t = Some s" "dec_bool (JBool b) c = Some b" "dec_num parse (JNum s) x = parse s" "dec_text parse' (JStr s) y = parse' s"
  by (simp_all add: dec_string_def dec_bool_def dec_num_def dec_text_def)

text \<open>Metadata come back sorted by their keys, with every string made valid UTF-8 (of keys that become the same the last one counts), and
  empty ones as nil.\<close>

definition canon_entries :: "string gomap \<Rightarrow> string gomap" where
  "canon_entries kvs = fold (\<lambda>(k, v). AList.update (to_valid k) (to_valid v)) (sort_key fst kvs) []"

definition canon_metadata :: "string gomap option \<Rightarrow> string gomap option" where
  "canon_metadata m = (case m of None \<Rightarrow> None | Some kvs \<Rightarrow> if kvs = [] then None else Some (canon_entries kvs))"

lemma update_new: "k \<notin> fst ` set m \<Longrightarrow> AList.update k v m = m @ [(k, v)]"
  by (induction m) auto

lemma canon_entries_valid:
  assumes "wf_gomap kvs" "list_all (\<lambda>(k, v). valid_utf8 k \<and> valid_utf8 v) kvs"
  shows "canon_entries kvs = sort_key fst kvs"
proof -
  have fold: "fold (\<lambda>(k, v). AList.update (to_valid k) (to_valid v)) qs m = m @ qs"
    if "distinct (map fst (m @ qs))" "list_all (\<lambda>(k, v). valid_utf8 k \<and> valid_utf8 v) qs" for qs m
    using that
  proof (induction qs arbitrary: m)
    case (Cons q qs)
    obtain k v where q: "q = (k, v)" by force
    have "AList.update k v m = m @ [(k, v)]" using Cons.prems(1) q by (intro update_new) auto
    then show ?case using Cons.IH [of "m @ [(k, v)]"] Cons.prems by (simp add: q to_valid_id)
  qed simp
  have "distinct (map fst (sort_key fst kvs))" using assms(1) by (simp add: wf_gomap_def distinct_map)
  with fold [of "[]" "sort_key fst kvs"] assms(2) show ?thesis by (simp add: canon_entries_def list_all_iff)
qed

lemma dec_entries_canon: "dec_entries (map (\<lambda>(k, v). (to_valid k, JStr (to_valid v))) kvs) m
    = Some (fold (\<lambda>(k, v). AList.update (to_valid k) (to_valid v)) kvs m)"
  by (induction kvs arbitrary: m) auto

lemma enc_map_simps [simp]: "json_ok (enc_map m)" "json_depth (enc_map m) = 1"
proof -
  have "pairs_ok (map (map_prod id JStr) kvs)" "pairs_depth (map (map_prod id JStr) kvs) = 0" for kvs :: "string gomap"
    by (induction kvs) auto
  then show "json_ok (enc_map m)" "json_depth (enc_map m) = 1" by (simp_all add: enc_map_def)
qed

lemma dec_enc_map: "dec_map (json_valid (enc_map kvs)) None = Some (Some (canon_entries kvs))"
proof -
  have "map (map_prod to_valid json_valid) (map (map_prod id JStr) (sort_key fst kvs)) = map (\<lambda>(k, v). (to_valid k, JStr (to_valid v))) (sort_key fst kvs)"
    by auto
  then show ?thesis by (simp add: enc_map_def dec_map_def dec_entries_canon canon_entries_def del: map_map)
qed

lemma metadata_simps [simp]:
  "pairs_ok (metadata_field m)" "pairs_depth (metadata_field m) \<le> 1"
  by (simp_all add: metadata_field_def omitempty_def split: option.split)

lemma pairs_append [simp]:
  "pairs_ok (ps @ qs) \<longleftrightarrow> pairs_ok ps \<and> pairs_ok qs" "pairs_depth (ps @ qs) = max (pairs_depth ps) (pairs_depth qs)"
  by (induction ps) auto

lemma dec_pairs_append: "dec_pairs fs (ps @ qs) s = Option.bind (dec_pairs fs ps s) (dec_pairs fs qs)"
proof (induction ps arbitrary: s)
  case (Cons p ps)
  then show ?case by (cases p) (auto split: option.splits Option.bind_splits)
qed simp

lemma dec_metadata:
  assumes "map_of fs ''metadata'' = Some (\<lambda>j s. map_option (\<lambda>x. upd (\<lambda>_. x) s) (dec_map j (get s)))" "get s = None"
    and "upd (\<lambda>_. None) s = s"
  shows "dec_pairs fs (map (map_prod to_valid json_valid) (metadata_field m)) s = Some (upd (\<lambda>_. canon_metadata m) s)"
  using assms dec_enc_map
  by (auto simp: metadata_field_def omitempty_def canon_metadata_def find_field_def to_valid_ascii split: option.splits)

lemmas struct_defs = required_def omitempty_def find_field_def fld_def to_valid_ascii maxNestingDepth_def

lemma join_roundtrip:
  "UnmarshalJoinPayload (MarshalJoinPayload p) = Some \<lparr>jp_NodeID = to_valid (jp_NodeID p), jp_Address = to_valid (jp_Address p),
    jp_Metadata = canon_metadata (jp_Metadata p)\<rparr>"
proof -
  have m: "dec_pairs join_fields (map (map_prod to_valid json_valid) (metadata_field (jp_Metadata p))) s
      = Some (s\<lparr>jp_Metadata := canon_metadata (jp_Metadata p)\<rparr>)" if "jp_Metadata s = None" for s
    using that by (intro dec_metadata [where get = jp_Metadata]) (simp_all add: join_fields_def fld_def)
  have "pairs_depth (join_json p) < maxNestingDepth" using metadata_simps(2) [of "jp_Metadata p"]
    by (simp add: join_json_def required_def maxNestingDepth_def)
  then show ?thesis unfolding UnmarshalJoinPayload_def MarshalJoinPayload_def
    by (subst unmarshal_marshal)
      (simp_all add: join_json_def dec_pairs_append join_fields_def struct_defs m [unfolded join_fields_def fld_def])
qed

lemma leave_roundtrip: "UnmarshalLeavePayload (MarshalLeavePayload p) = Some \<lparr>lp_NodeID = to_valid (lp_NodeID p), lp_Graceful = lp_Graceful p\<rparr>"
  unfolding UnmarshalLeavePayload_def MarshalLeavePayload_def
  by (subst unmarshal_marshal) (simp_all add: leave_json_def leave_fields_def struct_defs)

lemma ping_roundtrip:
  assumes "is_int64 (pg_Sequence p)"
  shows "UnmarshalPingPayload (MarshalPingPayload p) = Some \<lparr>pg_Sequence = pg_Sequence p, pg_Metadata = canon_metadata (pg_Metadata p)\<rparr>"
proof -
  have m: "dec_pairs ping_fields (map (map_prod to_valid json_valid) (metadata_field (pg_Metadata p))) s
      = Some (s\<lparr>pg_Metadata := canon_metadata (pg_Metadata p)\<rparr>)" if "pg_Metadata s = None" for s
    using that assms by (intro dec_metadata [where get = pg_Metadata]) (simp_all add: ping_fields_def fld_def)
  have "pairs_depth (ping_json p) < maxNestingDepth" using metadata_simps(2) [of "pg_Metadata p"]
    by (simp add: ping_json_def required_def maxNestingDepth_def)
  then show ?thesis using assms(1) unfolding UnmarshalPingPayload_def MarshalPingPayload_def
    by (subst unmarshal_marshal)
      (simp_all add: ping_json_def dec_pairs_append ping_fields_def struct_defs m [unfolded ping_fields_def fld_def])
qed

text \<open>What is asked of the formats: a number is written as a number of JSON, a time in ASCII, and both are read back.\<close>

definition float_codec :: "('f \<Rightarrow> string option) \<Rightarrow> (string \<Rightarrow> 'f option) \<Rightarrow> bool" where
  "float_codec format parse \<longleftrightarrow> (\<forall>x s. format x = Some s \<longrightarrow> is_number s \<and> parse s = Some x)"

definition time_codec :: "(instant \<Rightarrow> string option) \<Rightarrow> (string \<Rightarrow> instant option) \<Rightarrow> bool" where
  "time_codec format parse \<longleftrightarrow> (\<forall>t s. format t = Some s \<longrightarrow> valid_utf8 s \<and> parse s = Some t)"

lemma pong_roundtrip:
  fixes p :: "'f PongPayload"
  assumes "float_codec format parse" "MarshalPongPayload format p = Some data"
    and "is_int64 (po_Sequence p)" "is_int64 (po_ItemCount p)" "is_int64 (po_ResponseTime p)"
  shows "UnmarshalPongPayload parse z data = Some (p\<lparr>po_Metadata := canon_metadata (po_Metadata p)\<rparr>)"
proof -
  obtain a b where ab: "format (po_LoadFactor p) = Some a" "format (po_MemoryUsage p) = Some b" and data: "data = marshal_struct (pong_json a b p)"
    using assms(2) by (auto simp: MarshalPongPayload_def split: Option.bind_splits)
  then have n: "is_number a" "is_number b" "parse a = Some (po_LoadFactor p)" "parse b = Some (po_MemoryUsage p)"
    using assms(1) by (auto simp: float_codec_def)
  have m: "dec_pairs (pong_fields parse) (map (map_prod to_valid json_valid) (metadata_field (po_Metadata p))) s
      = Some (s\<lparr>po_Metadata := canon_metadata (po_Metadata p)\<rparr>)" if "po_Metadata s = None" for s
    using that assms by (intro dec_metadata [where get = po_Metadata]) (simp_all add: pong_fields_def fld_def)
  have "pairs_depth (pong_json a b p) < maxNestingDepth" using metadata_simps(2) [of "po_Metadata p"]
    by (simp add: pong_json_def required_def maxNestingDepth_def)
  then show ?thesis using assms(3-5) n unfolding UnmarshalPongPayload_def data
    by (subst unmarshal_marshal)
      (simp_all add: pong_json_def dec_pairs_append pong_fields_def struct_defs m [unfolded pong_fields_def fld_def])
qed

lemma syncreq_roundtrip:
  assumes "is_int64 (sq_MaxItems p)"
  shows "UnmarshalSyncRequestPayload (MarshalSyncRequestPayload p) = Some \<lparr>sq_FromNodeID = to_valid (sq_FromNodeID p),
    sq_StartKey = to_valid (sq_StartKey p), sq_EndKey = to_valid (sq_EndKey p), sq_MaxItems = sq_MaxItems p\<rparr>"
  using assms unfolding UnmarshalSyncRequestPayload_def MarshalSyncRequestPayload_def
  by (subst unmarshal_marshal) (simp_all add: syncreq_json_def syncreq_fields_def struct_defs)

lemma dec_elems_map: "(\<And>x. x \<in> set xs \<Longrightarrow> d (f x) z = Some (g x)) \<Longrightarrow> dec_elems d z (map f xs) = Some (map g xs)"
  by (induction xs) auto

lemma elems_map:
  "(\<And>x. x \<in> set xs \<Longrightarrow> json_ok (f x)) \<Longrightarrow> elems_ok (map f xs)"
  "(\<And>x. x \<in> set xs \<Longrightarrow> json_depth (f x) \<le> n) \<Longrightarrow> elems_depth (map f xs) \<le> n"
  by (induction xs) auto

lemma item_roundtrip:
  "is_int64 (si_Expiration i) \<Longrightarrow> dec_struct item_fields (json_valid (JObj (item_json i))) zero_item = Some (i\<lparr>si_Key := to_valid (si_Key i)\<rparr>)"
  by (simp add: item_json_def item_fields_def zero_item_def dec_struct_def struct_defs)

lemma item_simps: "json_ok (JObj (item_json i))" "json_depth (JObj (item_json i)) \<le> 1"
  by (simp_all add: item_json_def required_def)

lemma syncresp_roundtrip:
  assumes "list_all (\<lambda>i. is_int64 (si_Expiration i)) (sp_Items p)"
  shows "UnmarshalSyncResponsePayload (MarshalSyncResponsePayload p) = Some \<lparr>sp_FromNodeID = to_valid (sp_FromNodeID p),
    sp_Items = map (\<lambda>i. i\<lparr>si_Key := to_valid (si_Key i)\<rparr>) (sp_Items p), sp_HasMore = sp_HasMore p, sp_NextKey = to_valid (sp_NextKey p)\<rparr>"
proof -
  let ?items = "map (\<lambda>i. JObj (item_json i)) (sp_Items p)"
  have d: "dec_list (dec_struct item_fields) zero_item (JArr (map json_valid ?items)) [] = Some (map (\<lambda>i. i\<lparr>si_Key := to_valid (si_Key i)\<rparr>) (sp_Items p))"
    unfolding dec_list_def json.case map_map comp_def using assms by (intro dec_elems_map item_roundtrip) (simp add: list_all_iff)
  have ok: "elems_ok ?items" "elems_depth ?items \<le> 1" using item_simps by (intro elems_map; blast)+
  then have "pairs_depth (syncresp_json p) < maxNestingDepth" by (simp add: syncresp_json_def required_def omitempty_def maxNestingDepth_def)
  then show ?thesis using ok d unfolding UnmarshalSyncResponsePayload_def MarshalSyncResponsePayload_def
    by (subst unmarshal_marshal) (simp_all add: syncresp_json_def syncresp_fields_def struct_defs del: map_map)
qed

definition canon_gossipnode :: "GossipNodeInfo \<Rightarrow> GossipNodeInfo" where
  "canon_gossipnode n = \<lparr>gn_ID = to_valid (gn_ID n), gn_Address = to_valid (gn_Address n), gn_Status = gn_Status n, gn_LastSeen = gn_LastSeen n,
     gn_Metadata = canon_metadata (gn_Metadata n)\<rparr>"

definition gossipnode_ok :: "GossipNodeInfo \<Rightarrow> bool" where
  "gossipnode_ok n \<longleftrightarrow> is_int64 (gn_Status n) \<and> is_int64 (gn_LastSeen n)"

lemma gossipnode_roundtrip:
  assumes "gossipnode_ok n"
  shows "dec_struct gossipnode_fields (json_valid (JObj (gossipnode_json n))) zero_gossipnode = Some (canon_gossipnode n)"
proof -
  have m: "dec_pairs gossipnode_fields (map (map_prod to_valid json_valid) (metadata_field (gn_Metadata n))) s
      = Some (s\<lparr>gn_Metadata := canon_metadata (gn_Metadata n)\<rparr>)" if "gn_Metadata s = None" for s
    using that assms by (intro dec_metadata [where get = gn_Metadata]) (simp_all add: gossipnode_fields_def fld_def gossipnode_ok_def)
  show ?thesis using assms
    by (simp add: gossipnode_json_def dec_pairs_append gossipnode_fields_def zero_gossipnode_def dec_struct_def canon_gossipnode_def gossipnode_ok_def
        struct_defs m [unfolded gossipnode_fields_def fld_def])
qed

lemma gossipnode_simps: "json_ok (JObj (gossipnode_json n))" "json_depth (JObj (gossipnode_json n)) \<le> 2"
  using metadata_simps(2) [of "gn_Metadata n"] by (simp_all add: gossipnode_json_def required_def)

lemma gossip_roundtrip:
  assumes "list_all gossipnode_ok nodes"
  shows "UnmarshalGossipPayload (MarshalGossipPayload nodes) = Some (map canon_gossipnode nodes)"
proof -
  let ?nodes = "map (\<lambda>n. JObj (gossipnode_json n)) nodes"
  have d: "dec_list (dec_struct gossipnode_fields) zero_gossipnode (JArr (map json_valid ?nodes)) [] = Some (map canon_gossipnode nodes)"
    unfolding dec_list_def json.case map_map comp_def using assms by (intro dec_elems_map gossipnode_roundtrip) (simp add: list_all_iff)
  have ok: "elems_ok ?nodes" "elems_depth ?nodes \<le> 2" using gossipnode_simps by (intro elems_map; blast)+
  then show ?thesis using d unfolding UnmarshalGossipPayload_def MarshalGossipPayload_def
    by (subst unmarshal_marshal) (simp_all add: struct_defs del: map_map)
qed

lemma heartbeat_roundtrip: "UnmarshalHeartbeat (MarshalHeartbeat h) = Some (h\<lparr>hb_LeaderID := to_valid (hb_LeaderID h)\<rparr>)"
  unfolding UnmarshalHeartbeat_def MarshalHeartbeat_def
  by (subst unmarshal_marshal) (simp_all add: heartbeat_json_def heartbeat_fields_def struct_defs)

lemma voterequest_roundtrip:
  "is_int64 (vq_Priority q) \<Longrightarrow> UnmarshalVoteRequest (MarshalVoteRequest q) = Some (q\<lparr>vq_CandidateID := to_valid (vq_CandidateID q)\<rparr>)"
  unfolding UnmarshalVoteRequest_def MarshalVoteRequest_def
  by (subst unmarshal_marshal) (simp_all add: voterequest_json_def voterequest_fields_def struct_defs)

lemma voteresponse_roundtrip: "UnmarshalVoteResponse (MarshalVoteResponse r) = Some (r\<lparr>vr_VotedFor := to_valid (vr_VotedFor r)\<rparr>)"
  unfolding UnmarshalVoteResponse_def MarshalVoteResponse_def
  by (subst unmarshal_marshal) (simp_all add: voteresponse_json_def voteresponse_fields_def struct_defs)

lemma message_roundtrip:
  assumes "time_codec format parse" "format (nm_Timestamp m) = Some time" "is_int64 (nm_Type m)" "names \<in> {protocol_names, transport_names}"
  shows "unmarshal_struct (message_fields parse names) zero_message (marshal_struct (message_json names time m))
    = Some (m\<lparr>nm_SenderID := to_valid (nm_SenderID m)\<rparr>)"
proof -
  have t: "valid_utf8 time" "parse time = Some (nm_Timestamp m)" using assms(1,2) by (auto simp: time_codec_def)
  have n: "names = [''type'', ''sender_id'', ''timestamp'', ''payload''] \<or> names = [''Type'', ''SenderID'', ''Timestamp'', ''Payload'']"
    using assms(4) by (auto simp: protocol_names_def transport_names_def)
  then show ?thesis using t assms(3)
    by (subst unmarshal_marshal; elim disjE)
      (simp_all add: message_json_def message_fields_def zero_message_def struct_defs to_valid_id)
qed

text \<open>A clock that shows small times, in decimal.\<close>

definition decimal_time :: "instant \<Rightarrow> string option" where
  "decimal_time t = (if is_int64 t then Some (sprintd t) else None)"

lemma decimal_codec: "time_codec decimal_time Atoi"
  using sprintd_ascii by (auto simp: time_codec_def decimal_time_def Atoi_sprintd is_int64_def intro: ascii_valid)

end
