(* ===== verification/ClusterTransport.thy ===== *)
theory ClusterTransport
  imports ClusterNode Metrics
begin

text \<open>
  The transport of the cluster: its configuration and base (\<^verbatim>\<open>src/cache/cluster/transport.go\<close>) and its HTTP
  implementation (\<^verbatim>\<open>src/cache/cluster/http_transport.go\<close>). A message handler works on the state \<open>'n\<close> of the node
  it belongs to and may not return. JSON is the pair \<open>marshal\<close>, \<open>unmarshal\<close> of functions that may fail; the
  network is a function \<open>post\<close> that performs a POST request in a world \<open>'w\<close> and gives the status and the body of the
  response, \<open>None\<close> for a body that cannot be read, or an error.
\<close>

section \<open>State\<close>

record TransportConfig =
  tc_BindAddr :: string
  tc_PathPrefix :: string
  tc_Timeout :: duration
  tc_MaxIdleConns :: int
  tc_MaxConnsPerHost :: int

definition DefaultTransportConfig :: TransportConfig where
  "DefaultTransportConfig = \<lparr>tc_BindAddr = '':7946'', tc_PathPrefix = ''/cluster'', tc_Timeout = 5 * 1000000000,
     tc_MaxIdleConns = 10, tc_MaxConnsPerHost = 2\<rparr>"

type_synonym ('m, 'n) msg_handler = "'m \<Rightarrow> 'n \<Rightarrow> ((gerror + 'm) \<times> 'n) option"

record ('m, 'n) Transport =
  tr_config :: TransportConfig
  tr_handler :: "('m, 'n) msg_handler option"
  tr_startOnce :: bool
  tr_stopOnce :: bool
  tr_stopClosed :: bool
  tr_started :: bool

record HttpClient =
  hc_Timeout :: duration
  hc_MaxIdleConns :: int
  hc_MaxConnsPerHost :: int
  hc_IdleConnTimeout :: duration
  hc_TLSHandshakeTimeout :: duration

record ('m, 'n) HTTPTransport = "('m, 'n) Transport" +
  tr_server :: "HttpServer option"
  tr_serving :: bool
  tr_client :: HttpClient

text \<open>\<open>tr_serving\<close> says that the goroutine of \<open>Start\<close> has bound the address and serves it; when \<open>ListenAndServe\<close> fails, the goroutine
  only prints the error.\<close>

section \<open>Operations\<close>

text \<open>The configuration may carry a handler, \<open>handler\<close>.\<close>

definition NewTransport :: "TransportConfig option \<Rightarrow> ('m, 'n) msg_handler option \<Rightarrow> ('m, 'n) Transport" where
  "NewTransport config handler = \<lparr>tr_config = (case config of None \<Rightarrow> DefaultTransportConfig | Some c \<Rightarrow> c),
     tr_handler = (case config of None \<Rightarrow> None | Some _ \<Rightarrow> handler),
     tr_startOnce = False, tr_stopOnce = False, tr_stopClosed = False, tr_started = False\<rparr>"

definition NewHTTPTransport :: "TransportConfig option \<Rightarrow> ('m, 'n) msg_handler option \<Rightarrow> ('m, 'n) HTTPTransport" where
  "NewHTTPTransport config handler = (let c = (case config of None \<Rightarrow> DefaultTransportConfig | Some c \<Rightarrow> c) in
     Transport.extend (NewTransport config handler)
       (HTTPTransport.fields None False \<lparr>hc_Timeout = tc_Timeout c, hc_MaxIdleConns = tc_MaxIdleConns c,
          hc_MaxConnsPerHost = tc_MaxConnsPerHost c, hc_IdleConnTimeout = 90 * 1000000000,
          hc_TLSHandshakeTimeout = 10 * 1000000000\<rparr>))"

definition SetHandler :: "('m, 'n) msg_handler \<Rightarrow> ('m, 'n) HTTPTransport \<Rightarrow> ('m, 'n) HTTPTransport" where
  "SetHandler handler t = t\<lparr>tr_handler := Some handler\<rparr>"

definition Transport_HandleMessage :: "('m, 'n) HTTPTransport \<Rightarrow> ('m, 'n) msg_handler" where
  "Transport_HandleMessage t msg n = (case tr_handler t of Some handler \<Rightarrow> handler msg n | None \<Rightarrow> Some (Inr msg, n))"

definition message_path :: "('m, 'n) HTTPTransport \<Rightarrow> string" where
  "message_path t = tc_PathPrefix (tr_config t) @ ''/message''"

text \<open>\<open>listen\<close> is what \<open>ListenAndServe\<close> says of the address, \<open>None\<close> when it can be bound. \<open>Start\<close> reports no error either way.\<close>

definition Transport_Start :: "gerror option \<Rightarrow> ('m, 'n) HTTPTransport \<Rightarrow> ('m, 'n) HTTPTransport option" where
  "Transport_Start listen t = (if tr_startOnce t then Some t else do {
     mux \<leftarrow> HandleFunc (message_path t) [];
     Some (t\<lparr>tr_startOnce := True, tr_started := True, tr_serving := (listen = None),
       tr_server := Some \<lparr>hs_Addr = tc_BindAddr (tr_config t), hs_Handler = mux, hs_shut = False\<rparr>\<rparr>) })"

definition Transport_Stop :: "gerror option \<Rightarrow> ('m, 'n) HTTPTransport \<Rightarrow> ((gerror + unit) \<times> ('m, 'n) HTTPTransport) option" where
  "Transport_Stop shutdown t = (if tr_stopOnce t then Some (Inr (), t)
     else let t = t\<lparr>tr_stopOnce := True\<rparr> in
       if \<not> tr_started t then Some (Inr (), t)
       else do {
         h \<leftarrow> tr_server t;
         let t = t\<lparr>tr_server := Some (h\<lparr>hs_shut := True\<rparr>), tr_serving := False\<rparr>;
         if tr_stopClosed t then None
         else Some ((case shutdown of None \<Rightarrow> Inr () | Some e \<Rightarrow> Inl e), t\<lparr>tr_stopClosed := True, tr_started := False\<rparr>) })"

type_synonym 'w http_post = "string \<Rightarrow> string \<Rightarrow> 'w \<Rightarrow> ((gerror + nat \<times> string option) \<times> 'w) option"

definition Transport_Send :: "('m \<Rightarrow> string option) \<Rightarrow> (string \<Rightarrow> 'm option) \<Rightarrow> 'w http_post \<Rightarrow> string \<Rightarrow> 'm \<Rightarrow> ('m, 'n) HTTPTransport
    \<Rightarrow> 'w \<Rightarrow> ((gerror + 'm) \<times> 'w) option" where
  "Transport_Send marshal unmarshal post nodeAddr msg t w =
     (if nodeAddr = '''' then Some (Inl (Errorf ''empty node address''), w)
      else case marshal msg of
        None \<Rightarrow> Some (Inl (Errorf ''failed to marshal message: %w''), w)
      | Some data \<Rightarrow> do {
          (resp, w) \<leftarrow> post (''http://'' @ nodeAddr @ message_path t) data w;
          Some (case resp of
            Inl _ \<Rightarrow> Inl (Errorf ''failed to send message: %w'')
          | Inr (status, body) \<Rightarrow>
              if status \<noteq> 200 then Inl (Errorf ''received non-OK response: %s'')
              else (case body of
                None \<Rightarrow> Inl (Errorf ''failed to read response: %w'')
              | Some respData \<Rightarrow> (case unmarshal respData of
                  None \<Rightarrow> Inl (Errorf ''failed to unmarshal response: %w'')
                | Some response \<Rightarrow> Inr response)), w) })"

definition Transport_Address :: "('m, 'n) HTTPTransport \<Rightarrow> string" where
  "Transport_Address t = tc_BindAddr (tr_config t)"

text \<open>The server's side: method and body of the request, status and text of the answer.\<close>

definition handleHTTPMessage :: "('m \<Rightarrow> string option) \<Rightarrow> (string \<Rightarrow> 'm option) \<Rightarrow> string \<Rightarrow> string option \<Rightarrow> ('m, 'n) HTTPTransport
    \<Rightarrow> 'n \<Rightarrow> ((nat \<times> string) \<times> 'n) option" where
  "handleHTTPMessage marshal unmarshal method body t n =
     (if method \<noteq> ''POST'' then Some ((405, ''Method not allowed''), n)
      else case body of
        None \<Rightarrow> Some ((400, ''Failed to read request body''), n)
      | Some data \<Rightarrow> (case unmarshal data of
          None \<Rightarrow> Some ((400, ''Failed to unmarshal message''), n)
        | Some msg \<Rightarrow> do {
            (response, n) \<leftarrow> Transport_HandleMessage t msg n;
            Some (case response of
              Inl _ \<Rightarrow> (500, ''Failed to handle message: %v'')
            | Inr resp \<Rightarrow> (case marshal resp of
                None \<Rightarrow> (500, ''Failed to marshal response'')
              | Some respData \<Rightarrow> (200, respData)), n) }))"

section \<open>Starting and stopping\<close>

datatype transport_op = TStart "gerror option" | TStop "gerror option"

definition transport_step :: "transport_op \<Rightarrow> ('m, 'n) HTTPTransport \<Rightarrow> ('m, 'n) HTTPTransport option" where
  "transport_step p t = (case p of TStart e \<Rightarrow> Transport_Start e t | TStop e \<Rightarrow> map_option snd (Transport_Stop e t))"

fun transport_run :: "transport_op list \<Rightarrow> ('m, 'n) HTTPTransport \<Rightarrow> ('m, 'n) HTTPTransport option" where
  "transport_run [] t = Some t"
| "transport_run (p # ps) t = do { t \<leftarrow> transport_step p t; transport_run ps t }"

definition listening :: "('m, 'n) HTTPTransport \<Rightarrow> bool" where
  "listening t \<longleftrightarrow> (case tr_server t of None \<Rightarrow> False
     | Some h \<Rightarrow> \<not> hs_shut h \<and> message_path t \<in> set (hs_Handler h) \<and> tr_serving t)"

fun is_start :: "transport_op \<Rightarrow> bool" where
  "is_start (TStart _) = True"
| "is_start (TStop _) = False"

text \<open>The first start of a sequence finds that its address can be bound.\<close>

definition bound_at_start :: "transport_op list \<Rightarrow> bool" where
  "bound_at_start ps \<longleftrightarrow> (case filter is_start ps of TStart None # _ \<Rightarrow> True | _ \<Rightarrow> False)"

text \<open>The four phases of a transport, by what its two \<open>sync.Once\<close> have seen.\<close>

definition fresh_transport :: "('m, 'n) HTTPTransport \<Rightarrow> bool" where
  "fresh_transport t \<longleftrightarrow> \<not> tr_startOnce t \<and> \<not> tr_started t \<and> \<not> tr_stopClosed t \<and> tr_server t = None"

definition live_transport :: "bool \<Rightarrow> ('m, 'n) HTTPTransport \<Rightarrow> bool" where
  "live_transport bound t \<longleftrightarrow> tr_startOnce t \<and> tr_started t \<and> \<not> tr_stopClosed t \<and> tr_server t \<noteq> None \<and> listening t = bound"

definition dead_transport :: "('m, 'n) HTTPTransport \<Rightarrow> bool" where
  "dead_transport t \<longleftrightarrow> tr_startOnce t \<and> tr_stopOnce t \<and> \<not> listening t"

lemmas transport_phases = fresh_transport_def live_transport_def dead_transport_def listening_def

lemma message_path_upd [simp]:
  "message_path (t\<lparr>tr_startOnce := a\<rparr>) = message_path t" "message_path (t\<lparr>tr_stopOnce := a\<rparr>) = message_path t"
  "message_path (t\<lparr>tr_stopClosed := a\<rparr>) = message_path t" "message_path (t\<lparr>tr_started := a\<rparr>) = message_path t"
  "message_path (t\<lparr>tr_server := s\<rparr>) = message_path t" "message_path (t\<lparr>tr_serving := a\<rparr>) = message_path t"
  by (simp_all add: message_path_def)

lemma fresh_start:
  "fresh_transport t \<Longrightarrow> parsePattern (message_path t) \<noteq> None \<Longrightarrow>
   \<exists>t'. Transport_Start e t = Some t' \<and> live_transport (e = None) t' \<and> tr_stopOnce t' = tr_stopOnce t"
  by (simp add: Transport_Start_def HandleFunc_first transport_phases)

lemma bad_start: "fresh_transport t \<Longrightarrow> parsePattern (message_path t) = None \<Longrightarrow> Transport_Start e t = None"
  by (simp add: Transport_Start_def HandleFunc_first fresh_transport_def)

lemma fresh_stop:
  "fresh_transport t \<Longrightarrow> \<exists>r t'. Transport_Stop e t = Some (r, t') \<and> fresh_transport t' \<and> tr_stopOnce t' \<and> message_path t' = message_path t"
  by (simp add: Transport_Stop_def fresh_transport_def Let_def)

lemma live_start: "tr_startOnce t \<Longrightarrow> Transport_Start e t = Some t"
  by (simp add: Transport_Start_def)

lemma used_stop: "tr_stopOnce t \<Longrightarrow> Transport_Stop e t = Some (Inr (), t)"
  by (simp add: Transport_Stop_def)

lemma live_stop:
  "live_transport b t \<Longrightarrow> \<not> tr_stopOnce t \<Longrightarrow> \<exists>r t'. Transport_Stop e t = Some (r, t') \<and> dead_transport t'"
  by (cases "tr_server t") (auto simp: Transport_Stop_def transport_phases Let_def)

lemma dead_run: "tr_startOnce t \<Longrightarrow> tr_stopOnce t \<Longrightarrow> transport_run ps t = Some t"
  by (induction ps) (auto simp: transport_step_def live_start used_stop split: transport_op.splits)

lemma live_run:
  assumes "live_transport b t" "\<not> tr_stopOnce t"
  shows "\<exists>t'. transport_run ps t = Some t' \<and> (listening t' \<longleftrightarrow> b \<and> (\<forall>p\<in>set ps. is_start p))"
  using assms
proof (induction ps)
  case (Cons p ps)
  show ?case
  proof (cases p)
    case (TStart e)
    with Cons live_start [of t] show ?thesis by (auto simp: transport_step_def live_transport_def)
  next
    case (TStop e)
    obtain r t' where t': "Transport_Stop e t = Some (r, t')" "dead_transport t'" using live_stop [OF Cons.prems] by blast
    then have "transport_run ps t' = Some t'" by (simp add: dead_run dead_transport_def)
    with t' TStop show ?thesis by (simp add: transport_step_def dead_transport_def)
  qed
qed (simp add: live_transport_def)

lemma blocked_run:
  assumes "fresh_transport t" "tr_stopOnce t" "parsePattern (message_path t) \<noteq> None"
  shows "\<exists>t'. transport_run ps t = Some t' \<and> (listening t' \<longleftrightarrow> bound_at_start ps)"
  using assms
proof (induction ps)
  case (Cons p ps)
  show ?case
  proof (cases p)
    case (TStart e)
    obtain t' where t': "Transport_Start e t = Some t'" "live_transport (e = None) t'" "tr_stopOnce t'" using fresh_start Cons.prems by blast
    then have "transport_run ps t' = Some t'" by (simp add: dead_run live_transport_def)
    with t' TStart show ?thesis by (simp add: transport_step_def live_transport_def bound_at_start_def split: option.split)
  next
    case (TStop e)
    with Cons show ?thesis by (auto simp: transport_step_def used_stop bound_at_start_def)
  qed
qed (simp add: transport_phases bound_at_start_def)

text \<open>The first start panics when the path is no pattern; stops before it do nothing.\<close>

lemma bad_run:
  assumes "fresh_transport t" "parsePattern (message_path t) = None"
  shows "if \<exists>p\<in>set ps. is_start p then transport_run ps t = None else \<exists>t'. transport_run ps t = Some t' \<and> \<not> listening t'"
  using assms
proof (induction ps arbitrary: t)
  case (Cons p ps)
  show ?case
  proof (cases p)
    case (TStart e)
    with Cons.prems show ?thesis by (simp add: transport_step_def bad_start)
  next
    case (TStop e)
    obtain r t' where "Transport_Stop e t = Some (r, t')" "fresh_transport t'" "message_path t' = message_path t"
      using fresh_stop Cons.prems by blast
    with Cons.IH [of t'] Cons.prems(2) TStop show ?thesis by (simp add: transport_step_def)
  qed
qed (simp add: transport_phases)

lemma new_transport:
  "fresh_transport (NewHTTPTransport (Some config) handler)" "\<not> tr_stopOnce (NewHTTPTransport (Some config) handler)"
  "message_path (NewHTTPTransport (Some config) handler) = tc_PathPrefix config @ ''/message''"
  by (simp_all add: fresh_transport_def NewHTTPTransport_def NewTransport_def Transport.extend_def HTTPTransport.fields_def
      message_path_def Let_def)

lemma good_run:
  assumes "fresh_transport t" "\<not> tr_stopOnce t" "parsePattern (message_path t) \<noteq> None"
  shows "\<exists>t'. transport_run ps t = Some t'
    \<and> (listening t' \<longleftrightarrow> bound_at_start ps \<and> (\<not> is_start (hd ps) \<or> (\<forall>p\<in>set ps. is_start p)))"
proof (cases ps)
  case Nil
  with assms(1) show ?thesis by (simp add: transport_phases bound_at_start_def)
next
  case (Cons p qs)
  show ?thesis
  proof (cases p)
    case (TStart e)
    obtain t' where "Transport_Start e t = Some t'" "live_transport (e = None) t'" "\<not> tr_stopOnce t'"
      using fresh_start [OF assms(1,3), of e] assms(2) by auto
    moreover have "bound_at_start ps \<longleftrightarrow> e = None" by (cases e) (simp_all add: Cons TStart bound_at_start_def)
    ultimately show ?thesis using live_run [of "e = None" t' qs] Cons TStart by (auto simp: transport_step_def)
  next
    case (TStop e)
    obtain r t' where t': "Transport_Stop e t = Some (r, t')" "fresh_transport t'" "tr_stopOnce t'" "message_path t' = message_path t"
      using fresh_stop [OF assms(1), of e] by blast
    moreover have "bound_at_start ps \<longleftrightarrow> bound_at_start qs" by (simp add: Cons TStop bound_at_start_def)
    ultimately show ?thesis using blocked_run [of t' qs] assms(3) Cons TStop by (auto simp: transport_step_def)
  qed
qed



section \<open>Delivery\<close>

text \<open>The network hands the requests for an address to the server there: \<open>served t'\<close> is what a POST to the transport
  \<open>t'\<close> answers.\<close>

definition served :: "('m \<Rightarrow> string option) \<Rightarrow> (string \<Rightarrow> 'm option) \<Rightarrow> ('m, 'n) HTTPTransport \<Rightarrow> string \<Rightarrow> 'n
    \<Rightarrow> ((gerror + nat \<times> string option) \<times> 'n) option" where
  "served marshal unmarshal t' data n =
     map_option (\<lambda>(a, n'). (Inr (fst a, Some (snd a)), n')) (handleHTTPMessage marshal unmarshal ''POST'' (Some data) t' n)"

text \<open>A codec for the messages that satisfy \<open>P\<close>: encoding does not fail, and what was encoded is read back in its canonical form.\<close>

definition codec :: "('m \<Rightarrow> bool) \<Rightarrow> ('m \<Rightarrow> 'm) \<Rightarrow> ('m \<Rightarrow> string option) \<Rightarrow> (string \<Rightarrow> 'm option) \<Rightarrow> bool" where
  "codec P canon marshal unmarshal \<longleftrightarrow> (\<forall>m. P m \<longrightarrow> (\<exists>s. marshal m = Some s \<and> unmarshal s = Some (canon m)))"

text \<open>Sending a message over HTTP to a transport of the same path prefix is calling the message handler there.\<close>

lemma http_send_is_handle:
  assumes "codec P canon marshal unmarshal" "codec P canon marshal' unmarshal" "P msg"
    and "\<And>answer n'. Transport_HandleMessage t' (canon msg) n = Some (Inr answer, n') \<Longrightarrow> P answer"
    and "addr \<noteq> ''''" "message_path t = message_path t'"
    and "\<And>data n. post (''http://'' @ addr @ message_path t') data n = served marshal' unmarshal t' data n"
  shows "Transport_Send marshal unmarshal post addr msg t n =
    map_option (\<lambda>(r, n'). (case r of Inl _ \<Rightarrow> Inl (Errorf ''received non-OK response: %s'') | Inr answer \<Rightarrow> Inr (canon answer), n'))
      (Transport_HandleMessage t' (canon msg) n)"
proof -
  obtain s where s: "marshal msg = Some s" "unmarshal s = Some (canon msg)" using assms(1,3) by (auto simp: codec_def)
  show ?thesis
  proof (cases "Transport_HandleMessage t' (canon msg) n")
    case None
    with s assms(5-7) show ?thesis by (simp add: Transport_Send_def served_def handleHTTPMessage_def)
  next
    case (Some rn)
    obtain r n' where rn: "rn = (r, n')" by (cases rn)
    show ?thesis
    proof (cases r)
      case (Inl e)
      with Some rn s assms(5-7) show ?thesis by (simp add: Transport_Send_def served_def handleHTTPMessage_def)
    next
      case (Inr answer)
      obtain s' where "marshal' answer = Some s'" "unmarshal s' = Some (canon answer)" using assms(2,4) Some rn Inr by (auto simp: codec_def)
      with Inr Some rn s assms(5-7) show ?thesis by (simp add: Transport_Send_def served_def handleHTTPMessage_def)
    qed
  qed
qed

end
