(* ===== verification/WireProtocol.thy ===== *)
theory WireProtocol
  imports Protocol ClusterTransport
begin

text \<open>
  The messages of a cluster node as the transport carries them: a message with its payload becomes JSON text in JSON
  text, and the receiver reads the payload that the type of the message says. Every message a node sends is read back in its canonical
  form: strings are made valid UTF-8, metadata is ordered by its keys and an empty map becomes nil. A node that is called over
  HTTP answers as if it were called directly with that form.
\<close>

section \<open>Messages on the wire\<close>

text \<open>The types of messages are numbered in the order of their constants.\<close>

definition message_type :: "NodeMessage \<Rightarrow> int" where
  "message_type m = (case m of MsgJoin _ _ \<Rightarrow> 0 | MsgLeave _ _ \<Rightarrow> 1 | MsgPing _ _ \<Rightarrow> 2 | MsgPong _ _ \<Rightarrow> 3 | MsgSyncRequest _ _ \<Rightarrow> 5
     | MsgSyncResponse _ _ \<Rightarrow> 6 | MsgGossip _ _ \<Rightarrow> 7 | MsgOther _ t _ \<Rightarrow> t)"

definition message_sender :: "NodeMessage \<Rightarrow> string" where
  "message_sender m = (case m of MsgJoin s _ \<Rightarrow> s | MsgLeave s _ \<Rightarrow> s | MsgPing s _ \<Rightarrow> s | MsgPong s _ \<Rightarrow> s | MsgSyncRequest s _ \<Rightarrow> s
     | MsgSyncResponse s _ \<Rightarrow> s | MsgGossip s _ \<Rightarrow> s | MsgOther s _ _ \<Rightarrow> s)"

text \<open>The payload of a pong has nothing but the sequence number; the answer to a leave is \<open>ok\<close>, which is
  no JSON; otherwise a payload that cannot be read is an empty one. A message of another type, such as the votes and heartbeats of an
  election, has the bytes of its payload.\<close>

definition pong_payload :: "int \<Rightarrow> unit PongPayload" where
  "pong_payload sequence = \<lparr>po_Sequence = sequence, po_LoadFactor = (), po_MemoryUsage = (), po_ItemCount = 0, po_ResponseTime = 0,
     po_Metadata = None\<rparr>"

definition message_payload :: "NodeMessage \<Rightarrow> string" where
  "message_payload m = (case m of
     MsgJoin _ (Some p) \<Rightarrow> MarshalJoinPayload p
   | MsgLeave _ (Some p) \<Rightarrow> MarshalLeavePayload p
   | MsgLeave _ None \<Rightarrow> ''ok''
   | MsgPing _ (Some sequence) \<Rightarrow> MarshalPingPayload \<lparr>pg_Sequence = sequence, pg_Metadata = None\<rparr>
   | MsgPong _ sequence \<Rightarrow> the (MarshalPongPayload (\<lambda>_. Some ''0'') (pong_payload sequence))
   | MsgGossip _ (Some nodes) \<Rightarrow> MarshalGossipPayload nodes
   | MsgSyncRequest _ (Some p) \<Rightarrow> MarshalSyncRequestPayload p
   | MsgSyncResponse _ p \<Rightarrow> MarshalSyncResponsePayload p
   | MsgOther _ _ data \<Rightarrow> data
   | _ \<Rightarrow> '''')"

definition to_wire :: "instant \<Rightarrow> NodeMessage \<Rightarrow> WireMessage" where
  "to_wire now m = \<lparr>nm_Type = message_type m, nm_SenderID = message_sender m, nm_Timestamp = now, nm_Payload = message_payload m\<rparr>"

text \<open>Nobody reads the floating-point numbers of a pong. A synchronisation response that cannot be read is
  like a message of unknown type.\<close>

definition from_wire :: "WireMessage \<Rightarrow> NodeMessage" where
  "from_wire w = (let s = nm_SenderID w; data = nm_Payload w; t = nm_Type w in
     if t = 0 then MsgJoin s (UnmarshalJoinPayload data)
     else if t = 1 then MsgLeave s (UnmarshalLeavePayload data)
     else if t = 2 then MsgPing s (map_option pg_Sequence (UnmarshalPingPayload data))
     else if t = 3 then MsgPong s (case UnmarshalPongPayload (\<lambda>_. Some ()) () data of None \<Rightarrow> 0 | Some p \<Rightarrow> po_Sequence p)
     else if t = 5 then MsgSyncRequest s (UnmarshalSyncRequestPayload data)
     else if t = 6 then (case UnmarshalSyncResponsePayload data of None \<Rightarrow> MsgOther s t data | Some p \<Rightarrow> MsgSyncResponse s p)
     else if t = 7 then MsgGossip s (UnmarshalGossipPayload data)
     else MsgOther s t data)"

definition wire_marshal :: "(instant \<Rightarrow> string option) \<Rightarrow> instant \<Rightarrow> NodeMessage \<Rightarrow> string option" where
  "wire_marshal format now m = marshal_message format (to_wire now m)"

definition wire_unmarshal :: "(string \<Rightarrow> instant option) \<Rightarrow> string \<Rightarrow> NodeMessage option" where
  "wire_unmarshal parse data = map_option from_wire (unmarshal_message parse data)"

section \<open>What survives\<close>

text \<open>What the receiver of a message reads.\<close>

definition canon_message :: "NodeMessage \<Rightarrow> NodeMessage" where
  "canon_message m = (case m of
     MsgJoin s p \<Rightarrow> MsgJoin (to_valid s) (map_option (\<lambda>p. \<lparr>jp_NodeID = to_valid (jp_NodeID p), jp_Address = to_valid (jp_Address p),
       jp_Metadata = canon_metadata (jp_Metadata p)\<rparr>) p)
   | MsgLeave s p \<Rightarrow> MsgLeave (to_valid s) (map_option (\<lambda>p. \<lparr>lp_NodeID = to_valid (lp_NodeID p), lp_Graceful = lp_Graceful p\<rparr>) p)
   | MsgPing s q \<Rightarrow> MsgPing (to_valid s) q
   | MsgPong s q \<Rightarrow> MsgPong (to_valid s) q
   | MsgGossip s nodes \<Rightarrow> MsgGossip (to_valid s) (map_option (map canon_gossipnode) nodes)
   | MsgSyncRequest s p \<Rightarrow> MsgSyncRequest (to_valid s) (map_option (\<lambda>p. \<lparr>sq_FromNodeID = to_valid (sq_FromNodeID p),
       sq_StartKey = to_valid (sq_StartKey p), sq_EndKey = to_valid (sq_EndKey p), sq_MaxItems = sq_MaxItems p\<rparr>) p)
   | MsgSyncResponse s p \<Rightarrow> MsgSyncResponse (to_valid s) \<lparr>sp_FromNodeID = to_valid (sp_FromNodeID p),
       sp_Items = map (\<lambda>i. i\<lparr>si_Key := to_valid (si_Key i)\<rparr>) (sp_Items p), sp_HasMore = sp_HasMore p, sp_NextKey = to_valid (sp_NextKey p)\<rparr>
   | MsgOther s t data \<Rightarrow> MsgOther (to_valid s) t data)"

text \<open>The numbers of a message are 64-bit integers, and the type of another message is not one of a known payload.\<close>

definition wire_ok :: "NodeMessage \<Rightarrow> bool" where
  "wire_ok m \<longleftrightarrow> (case m of
     MsgPing _ (Some sequence) \<Rightarrow> is_int64 sequence
   | MsgPong _ sequence \<Rightarrow> is_int64 sequence
   | MsgGossip _ (Some nodes) \<Rightarrow> list_all gossipnode_ok nodes
   | MsgSyncRequest _ (Some p) \<Rightarrow> is_int64 (sq_MaxItems p)
   | MsgSyncResponse _ p \<Rightarrow> list_all (\<lambda>i. is_int64 (si_Expiration i)) (sp_Items p)
   | MsgOther _ t data \<Rightarrow> is_int64 t \<and> t \<notin> {0, 1, 2, 3, 5, 7} \<and> (t = 6 \<longrightarrow> UnmarshalSyncResponsePayload data = None)
   | _ \<Rightarrow> True)"

text \<open>Messages that are read back as they are: their strings are valid UTF-8, their metadata is ordered and not an empty map.\<close>

definition metadata_canonical :: "string gomap option \<Rightarrow> bool" where
  "metadata_canonical m \<longleftrightarrow> (case m of None \<Rightarrow> True
     | Some kvs \<Rightarrow> kvs \<noteq> [] \<and> wf_gomap kvs \<and> sorted (map fst kvs) \<and> list_all (\<lambda>(k, v). valid_utf8 k \<and> valid_utf8 v) kvs)"

definition canonical :: "NodeMessage \<Rightarrow> bool" where
  "canonical m \<longleftrightarrow> valid_utf8 (message_sender m) \<and> (case m of
     MsgJoin _ (Some p) \<Rightarrow> valid_utf8 (jp_NodeID p) \<and> valid_utf8 (jp_Address p) \<and> metadata_canonical (jp_Metadata p)
   | MsgLeave _ (Some p) \<Rightarrow> valid_utf8 (lp_NodeID p)
   | MsgGossip _ (Some nodes) \<Rightarrow> list_all (\<lambda>n. valid_utf8 (gn_ID n) \<and> valid_utf8 (gn_Address n) \<and> metadata_canonical (gn_Metadata n)) nodes
   | MsgSyncRequest _ (Some p) \<Rightarrow> valid_utf8 (sq_FromNodeID p) \<and> valid_utf8 (sq_StartKey p) \<and> valid_utf8 (sq_EndKey p)
   | MsgSyncResponse _ p \<Rightarrow> valid_utf8 (sp_FromNodeID p) \<and> valid_utf8 (sp_NextKey p) \<and> list_all (\<lambda>i. valid_utf8 (si_Key i)) (sp_Items p)
   | _ \<Rightarrow> True)"

lemma canon_metadata_id: "metadata_canonical m \<Longrightarrow> canon_metadata m = m"
  by (auto simp: metadata_canonical_def canon_metadata_def canon_entries_valid sort_key_id_if_sorted split: option.splits)

lemma canon_gossipnode_id:
  "valid_utf8 (gn_ID n) \<Longrightarrow> valid_utf8 (gn_Address n) \<Longrightarrow> metadata_canonical (gn_Metadata n) \<Longrightarrow> canon_gossipnode n = n"
  by (simp add: canon_gossipnode_def to_valid_id canon_metadata_id)

lemma valid_keys_id: "\<forall>i\<in>set items. valid_utf8 (si_Key i) \<Longrightarrow> map (\<lambda>i. i\<lparr>si_Key := to_valid (si_Key i)\<rparr>) items = items"
  by (auto simp: to_valid_id intro!: map_idI)

lemma canon_message_id: "canonical m \<Longrightarrow> canon_message m = m"
  by (cases m)
     (auto simp: canonical_def canon_message_def message_sender_def to_valid_id canon_metadata_id canon_gossipnode_id valid_keys_id list_all_iff
       split: option.splits intro!: map_idI)

lemma parse_not_json: "json_parse '''' = None" "json_parse ''ok'' = None"
proof -
  show "json_parse '''' = None" by (simp add: json_parse_def json_lex.simps)
  have "lex1 ''ok'' = None" by (simp add: lex1_def punctuation_def num_char_def is_digit_def)
  then have "json_lex ''ok'' = None" by (subst json_lex.simps) (simp add: is_space_def)
  then show "json_parse ''ok'' = None" by (simp add: json_parse_def)
qed

lemma unmarshal_not_json: "unmarshal_struct fs z '''' = None" "unmarshal_struct fs z ''ok'' = None"
  by (simp_all add: unmarshal_struct_def parse_not_json)

lemma undecodable [simp]:
  "UnmarshalJoinPayload '''' = None" "UnmarshalLeavePayload ''ok'' = None" "UnmarshalPingPayload '''' = None"
  "UnmarshalSyncRequestPayload '''' = None" "UnmarshalSyncResponsePayload '''' = None" "UnmarshalGossipPayload '''' = None"
  by (simp_all add: UnmarshalJoinPayload_def UnmarshalLeavePayload_def UnmarshalPingPayload_def UnmarshalSyncRequestPayload_def
      UnmarshalSyncResponsePayload_def UnmarshalGossipPayload_def unmarshal_not_json)

lemmas wire_defs = from_wire_def to_wire_def message_type_def message_sender_def message_payload_def

lemma is_int64_small [simp]: "is_int64 0" "is_int64 1" "is_int64 2" "is_int64 3" "is_int64 5" "is_int64 6" "is_int64 7"
  by (simp_all add: is_int64_def)

lemma pong_wire:
  assumes "is_int64 sequence"
  shows "UnmarshalPongPayload (\<lambda>_. Some ()) () (the (MarshalPongPayload (\<lambda>_. Some ''0'') (pong_payload sequence))) = Some (pong_payload sequence)"
proof -
  have "float_codec (\<lambda>_. Some ''0'') (\<lambda>_. Some ())"
    by (simp add: float_codec_def is_number_def is_digit_def fraction_ok_def exponent_ok_def)
  then show ?thesis
    using pong_roundtrip [where p = "pong_payload sequence"] assms by (simp add: pong_payload_def MarshalPongPayload_def canon_metadata_def)
qed

lemma from_to_wire: "wire_ok m \<Longrightarrow> from_wire ((to_wire now m)\<lparr>nm_SenderID := to_valid (message_sender m)\<rparr>) = canon_message m"
proof (cases m)
  case (MsgJoin s p)
  then show ?thesis by (cases p) (simp_all add: wire_defs canon_message_def join_roundtrip)
next
  case (MsgLeave s p)
  then show ?thesis by (cases p) (simp_all add: wire_defs canon_message_def leave_roundtrip)
next
  case (MsgPing s q)
  then show "wire_ok m \<Longrightarrow> ?thesis" by (cases q) (simp_all add: wire_defs canon_message_def wire_ok_def ping_roundtrip)
next
  case (MsgPong s q)
  then show "wire_ok m \<Longrightarrow> ?thesis" by (simp add: wire_defs canon_message_def wire_ok_def pong_wire) (simp add: pong_payload_def)
next
  case (MsgGossip s nodes)
  then show "wire_ok m \<Longrightarrow> ?thesis" by (cases nodes) (simp_all add: wire_defs canon_message_def wire_ok_def gossip_roundtrip)
next
  case (MsgSyncRequest s p)
  then show "wire_ok m \<Longrightarrow> ?thesis" by (cases p) (simp_all add: wire_defs canon_message_def wire_ok_def syncreq_roundtrip)
next
  case (MsgSyncResponse s p)
  then show "wire_ok m \<Longrightarrow> ?thesis" by (simp add: wire_defs canon_message_def wire_ok_def syncresp_roundtrip)
next
  case (MsgOther s t data)
  then show "wire_ok m \<Longrightarrow> ?thesis" by (auto simp: wire_defs canon_message_def wire_ok_def Let_def)
qed

lemma wire_roundtrip_law:
  assumes "time_codec format parse" "format now = Some time" "wire_ok m"
  shows "\<exists>s. wire_marshal format now m = Some s \<and> wire_unmarshal parse s = Some (canon_message m)"
proof -
  let ?w = "to_wire now m"
  have "nm_Timestamp ?w = now" "nm_SenderID ?w = message_sender m" by (simp_all add: to_wire_def)
  moreover have "is_int64 (nm_Type ?w)" using assms(3) by (auto simp: to_wire_def message_type_def wire_ok_def split: NodeMessage.splits)
  ultimately have "unmarshal_struct (message_fields parse transport_names) zero_message (marshal_struct (message_json transport_names time ?w))
      = Some (?w\<lparr>nm_SenderID := to_valid (message_sender m)\<rparr>)"
    using message_roundtrip [OF assms(1), of ?w time transport_names] assms(2) by simp
  then show ?thesis using assms(2) from_to_wire [OF assms(3), of now]
    by (simp add: wire_marshal_def wire_unmarshal_def marshal_message_def unmarshal_message_def to_wire_def)
qed


definition sample_join :: NodeMessage where
  "sample_join = MsgJoin ''a'' (Some \<lparr>jp_NodeID = ''a'', jp_Address = ''a:1'', jp_Metadata = Some [(''started'', ''t'')]\<rparr>)"

lemma sample_join_ok: "wire_ok sample_join" "canonical sample_join"
  by (simp_all add: sample_join_def wire_ok_def canonical_def message_sender_def ascii_valid metadata_canonical_def wf_gomap_def)

text \<open>The gossip about a member without metadata, whose empty map is read back as nil; and a heartbeat.\<close>

definition sample_gossip :: NodeMessage where
  "sample_gossip = MsgGossip ''a'' (Some [gossip_info \<lparr>ni_ID = ''b'', ni_Addr = ''b:1'', ni_Status = NodeStatusUp,
     ni_LastSeen = 62135596800 * 10 ^ 9, ni_Metadata = None\<rparr>])"

definition sample_heartbeat :: NodeMessage where
  "sample_heartbeat = MsgOther ''a'' 100 (MarshalHeartbeat \<lparr>hb_Term = 3, hb_LeaderID = ''a''\<rparr>)"


section \<open>A node behind its transport\<close>

lemma collect_expiration:
  "collect_items get now req keys items c = Some ((items', hasMore, nextKey), c') \<Longrightarrow> list_all (\<lambda>i. is_int64 (si_Expiration i)) items \<Longrightarrow>
   list_all (\<lambda>i. is_int64 (si_Expiration i)) items'"
proof (induction keys arbitrary: items c)
  case (Cons key keys)
  have new: "is_int64 (300 * 10 ^ 9)" by (simp add: is_int64_def)
  show ?case
  proof (cases "(sq_StartKey req = '''' \<or> key \<ge> sq_StartKey req) \<and> (sq_EndKey req = '''' \<or> key < sq_EndKey req)")
    case False
    with Cons show ?thesis by simp
  next
    case True
    obtain r c1 where g: "get now key c = Some (r, c1)" using Cons.prems(1) True by (auto split: Option.bind_splits)
    show ?thesis
    proof (cases "\<exists>v. r = Inr (AnyBytes v)")
      case False
      then have "collect_items get now req keys items c1 = Some ((items', hasMore, nextKey), c')"
        using Cons.prems(1) True g by (simp split: sum.splits anyval.splits)
      then show ?thesis using Cons.IH Cons.prems(2) by auto
    next
      case bytes: True
      then show ?thesis using Cons.prems True g Cons.IH new by (auto simp: Let_def split: if_splits)
    qed
  qed
qed simp

lemma wire_ok_canon: "wire_ok m \<Longrightarrow> wire_ok (canon_message m)"
  by (cases m) (auto simp: wire_ok_def canon_message_def list_all_iff gossipnode_ok_def canon_gossipnode_def split: option.splits)

lemma answer_wire_ok:
  assumes "Node_handleMessage get now msg (n, c) = Some (Inr answer, n', c')" "wire_ok msg"
  shows "wire_ok answer"
proof (cases msg)
  case (MsgSyncRequest s p)
  then obtain req items hasMore nextKey c1 where p: "p = Some req" "collect_items get now req sync_keys [] c = Some ((items, hasMore, nextKey), c1)"
      "answer = MsgSyncResponse (nd_id n) \<lparr>sp_FromNodeID = sm_nodeID (nd_syncManager n), sp_Items = items, sp_HasMore = hasMore, sp_NextKey = nextKey\<rparr>"
    using assms(1) by (auto simp: Node_handleMessage_def Cluster_HandleSyncRequest_def split: Option.bind_splits option.splits if_splits)
  from collect_expiration [OF p(2)] p(3) show ?thesis by (simp add: wire_ok_def)
qed (use assms in \<open>auto simp: Node_handleMessage_def handleJoinMessage_def handleLeaveMessage_def handlePingMessage_def wire_ok_def Let_def
      split: prod.splits option.splits sum.splits\<close>)


text \<open>A seed that the node \<open>a\<close> joins.\<close>

definition seed_node :: Node where
  "seed_node = (case NewNode ''b'' True [WithBindAddr ''b:1''] of Inr n \<Rightarrow> n)"

definition seed_transport :: "(NodeMessage, Node \<times> (unit anyval, unit) MemoryCache \<times> unit) HTTPTransport" where
  "seed_transport = SetHandler (Node_handleMessage MemCache_Get 9) (NewHTTPTransport None None)"


end
