(* ===== verification/ReplWire.thy ===== *)
theory ReplWire
  imports Protocol Syncer
begin

text \<open>
  What the replication sends as JSON (\<^verbatim>\<open>src/cache/replication/\<close>): the entries of the log, as they are serialised and as they go from
  the leader to a follower, requests for a synchronisation and their answers. The structs have no tags, so that the fields are
  written with their names in Go. A list of pointers to entries is a list of entries; a \<open>null\<close> among them, which is never
  written, is refused.
\<close>

section \<open>Entries\<close>

definition entry_json :: "string \<Rightarrow> ReplicationEntry \<Rightarrow> (string \<times> json) list" where
  "entry_json time e = required ''Index'' (enc_uint (re_Index e)) @ required ''Term'' (enc_uint (re_Term e))
     @ required ''Command'' (JStr (re_Command e)) @ required ''Key'' (JStr (re_Key e)) @ required ''Value'' (enc_bytes (re_Value e))
     @ required ''Expiration'' (enc_int (re_Expiration e)) @ required ''Timestamp'' (JStr time) @ required ''ValueType'' (JStr (re_ValueType e))"

definition entry_fields :: "(string \<Rightarrow> instant option) \<Rightarrow> ReplicationEntry fields" where
  "entry_fields parse = [fld ''Index'' dec_uint re_Index re_Index_update, fld ''Term'' dec_uint re_Term re_Term_update,
     fld ''Command'' dec_string re_Command re_Command_update, fld ''Key'' dec_string re_Key re_Key_update,
     fld ''Value'' dec_bytes re_Value re_Value_update, fld ''Expiration'' dec_int re_Expiration re_Expiration_update,
     fld ''Timestamp'' (dec_text parse) re_Timestamp re_Timestamp_update, fld ''ValueType'' dec_string re_ValueType re_ValueType_update]"

definition zero_entry :: ReplicationEntry where
  "zero_entry = \<lparr>re_Index = 0, re_Term = 0, re_Command = [], re_Key = [], re_Value = [], re_Expiration = 0, re_Timestamp = 0, re_ValueType = []\<rparr>"

fun entries_json :: "(instant \<Rightarrow> string option) \<Rightarrow> ReplicationEntry list \<Rightarrow> json list option" where
  "entries_json format [] = Some []"
| "entries_json format (e # es) = do {
     time \<leftarrow> format (re_Timestamp e); js \<leftarrow> entries_json format es; Some (JObj (entry_json time e) # js) }"

definition dec_pointer :: "'a decoder \<Rightarrow> 'a decoder" where
  "dec_pointer d j z = (if j = JNull then None else d j z)"

definition dec_ReplicationEntries :: "(string \<Rightarrow> instant option) \<Rightarrow> ReplicationEntry list decoder" where
  "dec_ReplicationEntries parse = dec_list (dec_pointer (dec_struct (entry_fields parse))) zero_entry"

definition marshal_entries :: "(instant \<Rightarrow> string option) \<Rightarrow> ReplicationEntry list \<Rightarrow> string option" where
  "marshal_entries format es = map_option (\<lambda>js. json_print (JArr js)) (entries_json format es)"

definition unmarshal_entries :: "(string \<Rightarrow> instant option) \<Rightarrow> string \<Rightarrow> ReplicationEntry list option" where
  "unmarshal_entries parse data = Option.bind (json_parse data) (\<lambda>j. dec_ReplicationEntries parse j [])"

section \<open>Requests and responses\<close>

definition request_json :: "SyncRequest \<Rightarrow> (string \<times> json) list" where
  "request_json r = required ''LeaderID'' (JStr (rq_LeaderID r)) @ required ''LastLogIndex'' (enc_uint (rq_LastLogIndex r))
     @ required ''LastLogTerm'' (enc_uint (rq_LastLogTerm r)) @ required ''FullSync'' (JBool (rq_FullSync r))"

definition request_fields :: "SyncRequest fields" where
  "request_fields = [fld ''LeaderID'' dec_string rq_LeaderID rq_LeaderID_update, fld ''LastLogIndex'' dec_uint rq_LastLogIndex rq_LastLogIndex_update,
     fld ''LastLogTerm'' dec_uint rq_LastLogTerm rq_LastLogTerm_update, fld ''FullSync'' dec_bool rq_FullSync rq_FullSync_update]"

definition marshal_request :: "SyncRequest \<Rightarrow> string" where
  "marshal_request r = marshal_struct (request_json r)"

definition unmarshal_request :: "string \<Rightarrow> SyncRequest option" where
  "unmarshal_request = unmarshal_struct request_fields \<lparr>rq_LeaderID = [], rq_LastLogIndex = 0, rq_LastLogTerm = 0, rq_FullSync = False\<rparr>"

definition response_json :: "json list \<Rightarrow> SyncResponse \<Rightarrow> (string \<times> json) list" where
  "response_json js r = required ''Success'' (JBool (rs_Success r)) @ required ''Entries'' (JArr js)
     @ required ''NextIndex'' (enc_uint (rs_NextIndex r))"

definition response_fields :: "(string \<Rightarrow> instant option) \<Rightarrow> SyncResponse fields" where
  "response_fields parse = [fld ''Success'' dec_bool rs_Success rs_Success_update,
     fld ''Entries'' (dec_ReplicationEntries parse) rs_Entries rs_Entries_update, fld ''NextIndex'' dec_uint rs_NextIndex rs_NextIndex_update]"

definition marshal_response :: "(instant \<Rightarrow> string option) \<Rightarrow> SyncResponse \<Rightarrow> string option" where
  "marshal_response format r = map_option (\<lambda>js. marshal_struct (response_json js r)) (entries_json format (rs_Entries r))"

definition unmarshal_response :: "(string \<Rightarrow> instant option) \<Rightarrow> string \<Rightarrow> SyncResponse option" where
  "unmarshal_response parse = unmarshal_struct (response_fields parse) \<lparr>rs_Success = False, rs_Entries = [], rs_NextIndex = 0\<rparr>"

section \<open>Round trips\<close>

text \<open>What arrives: the values are bytes in base64 and arrive as they are, the strings are made valid.\<close>

definition entry_valid :: "ReplicationEntry \<Rightarrow> ReplicationEntry" where
  "entry_valid e = e\<lparr>re_Command := to_valid (re_Command e), re_Key := to_valid (re_Key e), re_ValueType := to_valid (re_ValueType e)\<rparr>"

definition entry_utf8 :: "ReplicationEntry \<Rightarrow> bool" where
  "entry_utf8 e \<longleftrightarrow> valid_utf8 (re_Command e) \<and> valid_utf8 (re_Key e) \<and> valid_utf8 (re_ValueType e)"

definition entry_ok :: "(instant \<Rightarrow> string option) \<Rightarrow> ReplicationEntry \<Rightarrow> bool" where
  "entry_ok format e \<longleftrightarrow> format (re_Timestamp e) \<noteq> None \<and> is_int64 (re_Expiration e)"

lemma entry_valid_utf8: "entry_utf8 e \<Longrightarrow> entry_valid e = e"
  by (simp add: entry_valid_def entry_utf8_def to_valid_id)

lemma entry_roundtrip:
  assumes "time_codec format parse" "format (re_Timestamp e) = Some time" "is_int64 (re_Expiration e)"
  shows "dec_pointer (dec_struct (entry_fields parse)) (json_valid (JObj (entry_json time e))) zero_entry = Some (entry_valid e)"
proof -
  have "valid_utf8 time" "parse time = Some (re_Timestamp e)" using assms(1,2) by (auto simp: time_codec_def)
  then show ?thesis using assms(3)
    by (simp add: entry_json_def entry_fields_def zero_entry_def dec_pointer_def dec_struct_def entry_valid_def to_valid_id struct_defs)
qed

lemma entry_simps: "json_ok (JObj (entry_json time e))" "json_depth (JObj (entry_json time e)) \<le> 1"
  by (simp_all add: entry_json_def required_def)

lemma entries_roundtrip:
  assumes "time_codec format parse" "list_all (entry_ok format) es"
  shows "\<exists>js. entries_json format es = Some js \<and> elems_ok js \<and> elems_depth js \<le> 1
    \<and> dec_elems (dec_pointer (dec_struct (entry_fields parse))) zero_entry (map json_valid js) = Some (map entry_valid es)"
  using assms(2)
proof (induction es)
  case (Cons e es)
  then obtain time js where t: "format (re_Timestamp e) = Some time" "is_int64 (re_Expiration e)" and js: "entries_json format es = Some js"
    "elems_ok js" "elems_depth js \<le> 1" "dec_elems (dec_pointer (dec_struct (entry_fields parse))) zero_entry (map json_valid js) = Some (map entry_valid es)"
    by (auto simp: entry_ok_def)
  then show ?case using entry_simps [of time e] entry_roundtrip [OF assms(1) t] by (simp del: json_valid.simps json_ok.simps json_depth.simps)
qed simp

lemma request_roundtrip: "unmarshal_request (marshal_request r) = Some (r\<lparr>rq_LeaderID := to_valid (rq_LeaderID r)\<rparr>)"
  unfolding unmarshal_request_def marshal_request_def
  by (subst unmarshal_marshal) (simp_all add: request_json_def request_fields_def struct_defs)

lemma response_roundtrip:
  assumes "time_codec format parse" "list_all (entry_ok format) (rs_Entries r)"
  shows "\<exists>data. marshal_response format r = Some data \<and> unmarshal_response parse data = Some (r\<lparr>rs_Entries := map entry_valid (rs_Entries r)\<rparr>)"
proof -
  obtain js where js: "entries_json format (rs_Entries r) = Some js" "elems_ok js" "elems_depth js \<le> 1"
      "dec_elems (dec_pointer (dec_struct (entry_fields parse))) zero_entry (map json_valid js) = Some (map entry_valid (rs_Entries r))"
    using entries_roundtrip [OF assms] by blast
  then have "dec_ReplicationEntries parse (JArr (map json_valid js)) x = Some (map entry_valid (rs_Entries r))" for x
    by (simp add: dec_ReplicationEntries_def dec_list_def)
  with js(2,3) have "unmarshal_response parse (marshal_struct (response_json js r)) = Some (r\<lparr>rs_Entries := map entry_valid (rs_Entries r)\<rparr>)"
    unfolding unmarshal_response_def
    by (subst unmarshal_marshal) (simp_all add: response_json_def response_fields_def struct_defs)
  with js(1) show ?thesis by (simp add: marshal_response_def)
qed

lemma entries_text_roundtrip:
  assumes "time_codec format parse" "list_all (entry_ok format) es"
  shows "\<exists>data. marshal_entries format es = Some data \<and> unmarshal_entries parse data = Some (map entry_valid es)"
proof -
  obtain js where js: "entries_json format es = Some js" "elems_ok js" "elems_depth js \<le> 1"
      "dec_elems (dec_pointer (dec_struct (entry_fields parse))) zero_entry (map json_valid js) = Some (map entry_valid es)"
    using entries_roundtrip [OF assms] by blast
  have "json_parse (json_print (JArr js)) = Some (JArr (map json_valid js))"
    using parse_print [of "JArr js"] js(2,3) by (simp add: maxNestingDepth_def)
  with js show ?thesis by (simp add: marshal_entries_def unmarshal_entries_def dec_ReplicationEntries_def dec_list_def)
qed

section \<open>Properties\<close>

text \<open>C16. Serialising a log that any sequence of operations has built and reading the text back restores the log, if the strings
  of its entries are valid UTF-8 and its terms did not decrease: the values may be any bytes. Text that is no JSON is refused and changes
  nothing.\<close>

theorem repllog_roundtrip:
  assumes "log_run ops NewMemoryReplicationLog = Some l" "sorted (map re_Term (rl_entries l))" "time_codec format parse"
    and "list_all (\<lambda>e. entry_ok format e \<and> entry_utf8 e) (rl_entries l)"
  shows "\<exists>data. Log_Serialize (marshal_entries format) l = Some data \<and> Log_Deserialize (unmarshal_entries parse) data l' = (Inr (), l) \<and>
    (json_parse text = None \<longrightarrow> Log_Deserialize (unmarshal_entries parse) text l' = (Inl (Errorf ''failed to deserialize log: %w''), l'))"
proof -
  have ok: "list_all (entry_ok format) (rl_entries l)" "map entry_valid (rl_entries l) = rl_entries l"
    using assms(4) by (auto simp: list_all_iff entry_valid_utf8 intro!: map_idI)
  obtain data where "marshal_entries format (rl_entries l) = Some data" "unmarshal_entries parse data = Some (rl_entries l)"
    using entries_text_roundtrip [OF assms(3) ok(1)] ok(2) by auto
  then show ?thesis
    using log_run_inv [OF log_inv_new assms(1)] assms(2) by (auto simp: Log_Deserialize_def Log_Serialize_def log_inv_def unmarshal_entries_def)
qed
theorem repllog_roundtrip_witness:
  "\<exists>data. Log_Serialize (marshal_entries decimal_time) (set_entries [entry0\<lparr>re_Index := 1, re_Timestamp := 5\<rparr>]) = Some data \<and>
     Log_Deserialize (unmarshal_entries Atoi) data NewMemoryReplicationLog = (Inr (), set_entries [entry0\<lparr>re_Index := 1, re_Timestamp := 5\<rparr>]) \<and>
     Log_Deserialize (unmarshal_entries Atoi) '''' NewMemoryReplicationLog = (Inl (Errorf ''failed to deserialize log: %w''), NewMemoryReplicationLog)"
proof -
  let ?l = "set_entries [entry0\<lparr>re_Index := 1, re_Timestamp := 5\<rparr>]"
  have run: "log_run [LAppend 5 (Some entry0)] NewMemoryReplicationLog = Some ?l" by code_simp
  have "json_parse '''' = None" by (simp add: json_parse_def json_lex.simps)
  moreover have "list_all (\<lambda>e. entry_ok decimal_time e \<and> entry_utf8 e) (rl_entries ?l)" "sorted (map re_Term (rl_entries ?l))"
    by (simp_all add: set_entries_def entry0_def entry_ok_def entry_utf8_def decimal_time_def is_int64_def ascii_valid)
  ultimately show ?thesis
    using repllog_roundtrip [OF run _ decimal_codec, of NewMemoryReplicationLog "''''"] by blast
qed

lemma known_valid: "known e \<Longrightarrow> known (entry_valid e)"
  by (auto simp: known_def entry_valid_def to_valid_ascii)

text \<open>C38. Replication over the wire: when the leader encodes a batch of entries and a follower with a memory cache receives that text, the
  follower answers 200, has applied exactly these entries in order and has appended them to its log, with their values byte for byte, but with
  keys in which every byte that is not UTF-8 has been replaced by U+FFFD. So keys that are valid UTF-8 replicate faithfully, and different keys
  that are not may become the same one.\<close>

theorem replication_over_json:
  assumes "time_codec format parse" "list_all (entry_ok format) es" "list_all known es"
    and "mem_rep (sy_localCache s) m" "log_inv (sy_log s)"
  shows "\<exists>data c l. marshal_response format \<lparr>rs_Success = True, rs_Entries = es, rs_NextIndex = i\<rparr> = Some data
    \<and> http_receive MemCache_Set MemCache_Del now True (Some (unmarshal_response parse data)) s = Some (200, s\<lparr>sy_localCache := c, sy_log := l\<rparr>)
    \<and> mem_rep c (replay now (map entry_valid es) m) \<and> log_inv l
    \<and> map cmd_of (rl_entries l) = map cmd_of (rl_entries (sy_log s)) @ map cmd_of (map entry_valid es)
    \<and> (list_all entry_utf8 es \<longrightarrow> map entry_valid es = es)"
proof -
  obtain data where data: "marshal_response format \<lparr>rs_Success = True, rs_Entries = es, rs_NextIndex = i\<rparr> = Some data"
      "unmarshal_response parse data = Some \<lparr>rs_Success = True, rs_Entries = map entry_valid es, rs_NextIndex = i\<rparr>"
    using response_roundtrip [OF assms(1), of "\<lparr>rs_Success = True, rs_Entries = es, rs_NextIndex = i\<rparr>"] assms(2) by auto
  have known: "list_all known (map entry_valid es)" "takeWhile known (map entry_valid es) = map entry_valid es"
    using assms(3) known_valid by (auto simp: list_all_iff takeWhile_eq_all_conv)
  obtain c l where cl: "ApplySync MemCache_Set MemCache_Del now (map entry_valid es) s = Some (Inr (), s\<lparr>sy_localCache := c, sy_log := l\<rparr>)"
      "mem_rep c (replay now (map entry_valid es) m)" "log_inv l"
      "map cmd_of (rl_entries l) = map cmd_of (rl_entries (sy_log s)) @ map cmd_of (map entry_valid es)"
    using rmem.ApplySync_rep [OF assms(4), of now "map entry_valid es"] assms(5) known by auto
  have "list_all entry_utf8 es \<longrightarrow> map entry_valid es = es" by (auto simp: list_all_iff entry_valid_utf8 intro!: map_idI)
  with data cl show ?thesis by (intro exI [of _ data] exI [of _ c] exI [of _ l]) (simp add: http_receive_def)
qed

text \<open>Two keys of one byte each, of which the follower makes one.\<close>

definition odd_entry :: "char \<Rightarrow> string \<Rightarrow> ReplicationEntry" where
  "odd_entry b v = entry0\<lparr>re_Key := [b], re_Value := v\<rparr>"

lemma odd_valid: "128 \<le> byte b \<Longrightarrow> byte b < 194 \<Longrightarrow> entry_valid (odd_entry b v) = entry0\<lparr>re_Key := rune_error, re_Value := v\<rparr>"
proof -
  assume "128 \<le> byte b" "byte b < 194"
  then have "to_valid [b] = rune_error" by (simp add: to_valid_def chunks.simps plain_chunk_def)
  then show ?thesis by (simp add: entry_valid_def odd_entry_def entry0_def to_valid_ascii)
qed

theorem replication_over_json_witness:
  "\<exists>data c. marshal_response decimal_time \<lparr>rs_Success = True, rs_Entries = [odd_entry (CHR 0x80) ''v'', odd_entry (CHR 0x81) ''w''], rs_NextIndex = 3\<rparr> = Some data
    \<and> map_option (\<lambda>(status, s). (status, sy_localCache s)) (http_receive MemCache_Set MemCache_Del 9 True (Some (unmarshal_response Atoi data)) (syncer0 ''n''))
        = Some (200, c)
    \<and> mem_rep c [rune_error \<mapsto> (AnyString ''w'', 69)]"
proof -
  let ?es = "[odd_entry (CHR 0x80) ''v'', odd_entry (CHR 0x81) ''w'']"
  have ok: "list_all (entry_ok decimal_time) ?es" "list_all known ?es"
    by (simp_all add: odd_entry_def entry0_def entry_ok_def decimal_time_def is_int64_def known_def)
  have inv: "log_inv (sy_log (syncer0 ''n''))" by (simp add: syncer0_rep)
  have es: "map entry_valid ?es = [entry0\<lparr>re_Key := rune_error, re_Value := ''v''\<rparr>, entry0\<lparr>re_Key := rune_error, re_Value := ''w''\<rparr>]"
    by (simp add: odd_valid)
  have r: "replay 9 (map entry_valid ?es) Map.empty = [rune_error \<mapsto> (AnyString ''w'', 69)]"
    unfolding es by (simp add: replay1_def entry0_def)
  from replication_over_json [OF decimal_codec ok syncer0_rep(1) inv, of 3 9, unfolded r] obtain data c l where
    "marshal_response decimal_time \<lparr>rs_Success = True, rs_Entries = ?es, rs_NextIndex = 3\<rparr> = Some data"
    "http_receive MemCache_Set MemCache_Del 9 True (Some (unmarshal_response Atoi data)) (syncer0 ''n'') = Some (200, (syncer0 ''n'')\<lparr>sy_localCache := c, sy_log := l\<rparr>)"
    "mem_rep c [rune_error \<mapsto> (AnyString ''w'', 69)]" by blast
  then show ?thesis by (intro exI [of _ data] exI [of _ c]) simp
qed

end
