(* ===== verification/RemoteServer.thy ===== *)
theory RemoteServer
  imports Distributed Protocol
begin

text \<open>
  The cache server that the remote client talks to (\<^verbatim>\<open>src/example/distributed/server/server.go\<close>): its routes, the JSON of its
  requests and responses, and its map of values. A value that arrives as JSON in an \<open>interface{}\<close> is a tree of
  nil, booleans, floats, strings, slices and maps, with floats of a type \<open>'f\<close>. The client of \<open>Distributed\<close> is composed
  with the server: the requests it encodes are the ones the server decodes.
\<close>

section \<open>Values of any type\<close>

datatype 'f goany = ANil | ABool bool | ANum 'f | AStr string | AArr "'f goany list" | AMap "(string \<times> 'f goany) list"

fun any_json :: "('f \<Rightarrow> string option) \<Rightarrow> 'f goany \<Rightarrow> json option"
  and any_elems :: "('f \<Rightarrow> string option) \<Rightarrow> 'f goany list \<Rightarrow> json list option"
  and any_entries :: "('f \<Rightarrow> string option) \<Rightarrow> (string \<times> 'f goany) list \<Rightarrow> (string \<times> json) list option" where
  "any_json format ANil = Some JNull"
| "any_json format (ABool b) = Some (JBool b)"
| "any_json format (ANum x) = map_option JNum (format x)"
| "any_json format (AStr s) = Some (JStr s)"
| "any_json format (AArr vs) = map_option JArr (any_elems format vs)"
| "any_json format (AMap kvs) = map_option (\<lambda>ps. JObj (sort_key fst ps)) (any_entries format kvs)"
| "any_elems format [] = Some []"
| "any_elems format (v # vs) = do { j \<leftarrow> any_json format v; js \<leftarrow> any_elems format vs; Some (j # js) }"
| "any_entries format [] = Some []"
| "any_entries format ((k, v) # kvs) = do { j \<leftarrow> any_json format v; ps \<leftarrow> any_entries format kvs; Some ((k, j) # ps) }"

fun json_any :: "(string \<Rightarrow> 'f option) \<Rightarrow> json \<Rightarrow> 'f goany option"
  and json_elems :: "(string \<Rightarrow> 'f option) \<Rightarrow> json list \<Rightarrow> 'f goany list option"
  and json_entries :: "(string \<Rightarrow> 'f option) \<Rightarrow> (string \<times> json) list \<Rightarrow> (string \<times> 'f goany) list \<Rightarrow> (string \<times> 'f goany) list option" where
  "json_any parse JNull = Some ANil"
| "json_any parse (JBool b) = Some (ABool b)"
| "json_any parse (JNum s) = map_option ANum (parse s)"
| "json_any parse (JStr s) = Some (AStr s)"
| "json_any parse (JArr js) = map_option AArr (json_elems parse js)"
| "json_any parse (JObj ps) = map_option AMap (json_entries parse ps [])"
| "json_elems parse [] = Some []"
| "json_elems parse (j # js) = do { v \<leftarrow> json_any parse j; vs \<leftarrow> json_elems parse js; Some (v # vs) }"
| "json_entries parse [] m = Some m"
| "json_entries parse ((k, j) # ps) m = do { v \<leftarrow> json_any parse j; json_entries parse ps (AList.update k v m) }"

definition dec_any :: "(string \<Rightarrow> 'f option) \<Rightarrow> 'f goany decoder" where
  "dec_any parse j old = json_any parse j"

section \<open>The first value of a stream\<close>

text \<open>A \<open>json.Decoder\<close> stops at the end of the first value and does not look at what follows.\<close>

function json_first :: "string \<Rightarrow> jstate \<Rightarrow> json option" where
  "json_first s st = (case s of
     [] \<Rightarrow> None
   | c # cs \<Rightarrow> if is_space c then json_first cs st
       else (case lex1 s of None \<Rightarrow> None
         | Some (t, rest) \<Rightarrow> (case json_step t st of None \<Rightarrow> None
             | Some st' \<Rightarrow> (case st' of (HaveValue j, []) \<Rightarrow> Some j | _ \<Rightarrow> json_first rest st'))))"
  by pat_completeness auto
termination by (relation "measure (\<lambda>(s, _). length s)") (auto dest: lex1_shorter)

declare json_first.simps [simp del]

definition decode_struct :: "'s fields \<Rightarrow> 's \<Rightarrow> string \<Rightarrow> 's option" where
  "decode_struct fs zero data = Option.bind (json_first data (NeedValue, [])) (\<lambda>j. dec_struct fs j zero)"

section \<open>The server\<close>

record 'f CacheRequest =
  cq_Key :: string
  cq_Value :: "'f goany"
  cq_Expiration :: duration

record 'f CacheResponse =
  cs_Success :: bool
  cs_Message :: string
  cs_Value :: "'f goany"

definition cacherequest_fields :: "(string \<Rightarrow> 'f option) \<Rightarrow> 'f CacheRequest fields" where
  "cacherequest_fields parse = [fld ''key'' dec_string cq_Key cq_Key_update, fld ''value'' (dec_any parse) cq_Value cq_Value_update,
     fld ''expiration'' dec_int cq_Expiration cq_Expiration_update]"

definition decode_request :: "(string \<Rightarrow> 'f option) \<Rightarrow> string \<Rightarrow> 'f CacheRequest option" where
  "decode_request parse = decode_struct (cacherequest_fields parse) \<lparr>cq_Key = [], cq_Value = ANil, cq_Expiration = 0\<rparr>"

definition cacheresponse_json :: "('f \<Rightarrow> string option) \<Rightarrow> 'f CacheResponse \<Rightarrow> (string \<times> json) list option" where
  "cacheresponse_json format r = do {
     j \<leftarrow> any_json format (cs_Value r);
     Some (required ''success'' (JBool (cs_Success r)) @ omitempty (cs_Message r = []) ''message'' (JStr (cs_Message r))
       @ omitempty (cs_Value r = ANil) ''value'' j) }"

text \<open>Texts that are written as a line end in one.\<close>

definition http_Error :: "string \<Rightarrow> nat \<Rightarrow> nat \<times> string" where
  "http_Error text status = (status, text @ [CHR 0x0A])"

definition server_writeJSONResponse :: "('f \<Rightarrow> string option) \<Rightarrow> 'f CacheResponse \<Rightarrow> nat \<times> string" where
  "server_writeJSONResponse format r = (case cacheresponse_json format r of
     None \<Rightarrow> http_Error ''Error encoding response'' 500
   | Some ps \<Rightarrow> (200, marshal_struct ps @ [CHR 0x0A]))"

text \<open>The three handlers begin alike: only POST, a body that can be decoded, a key.\<close>

definition with_request :: "(string \<Rightarrow> 'f option) \<Rightarrow> string \<Rightarrow> string \<Rightarrow> ('f CacheRequest \<Rightarrow> 's \<Rightarrow> (nat \<times> string) \<times> 's) \<Rightarrow> 's \<Rightarrow> (nat \<times> string) \<times> 's" where
  "with_request parse meth body k m =
     (if meth \<noteq> ''POST'' then (http_Error ''Method not allowed'' 405, m)
      else case decode_request parse body of
        None \<Rightarrow> (http_Error ''Invalid request body'' 400, m)
      | Some req \<Rightarrow> if cq_Key req = [] then (http_Error ''Key is required'' 400, m) else k req m)"

definition handle_get :: "('f \<Rightarrow> string option) \<Rightarrow> (string \<Rightarrow> 'f option) \<Rightarrow> string \<Rightarrow> string \<Rightarrow> 'f goany gomap \<Rightarrow> (nat \<times> string) \<times> 'f goany gomap" where
  "handle_get format parse meth body = with_request parse meth body (\<lambda>req memCache.
     (server_writeJSONResponse format (case map_of memCache (cq_Key req) of
        None \<Rightarrow> \<lparr>cs_Success = False, cs_Message = ''Key not found'', cs_Value = ANil\<rparr>
      | Some value \<Rightarrow> \<lparr>cs_Success = True, cs_Message = [], cs_Value = value\<rparr>), memCache))"

definition handle_set :: "('f \<Rightarrow> string option) \<Rightarrow> (string \<Rightarrow> 'f option) \<Rightarrow> string \<Rightarrow> string \<Rightarrow> 'f goany gomap \<Rightarrow> (nat \<times> string) \<times> 'f goany gomap" where
  "handle_set format parse meth body = with_request parse meth body (\<lambda>req memCache.
     (server_writeJSONResponse format \<lparr>cs_Success = True, cs_Message = ''Key set successfully'', cs_Value = ANil\<rparr>,
      AList.update (cq_Key req) (cq_Value req) memCache))"

definition handle_delete :: "('f \<Rightarrow> string option) \<Rightarrow> (string \<Rightarrow> 'f option) \<Rightarrow> string \<Rightarrow> string \<Rightarrow> 'f goany gomap \<Rightarrow> (nat \<times> string) \<times> 'f goany gomap" where
  "handle_delete format parse meth body = with_request parse meth body (\<lambda>req memCache.
     (server_writeJSONResponse format \<lparr>cs_Success = True, cs_Message = ''Key deleted successfully'', cs_Value = ANil\<rparr>,
      AList.delete (cq_Key req) memCache))"

text \<open>The multiplexer: everything that is not registered goes to the handler of \<open>/\<close>. The middleware only logs.\<close>

definition server_ServeHTTP :: "('f \<Rightarrow> string option) \<Rightarrow> (string \<Rightarrow> 'f option) \<Rightarrow> string \<Rightarrow> string \<Rightarrow> string \<Rightarrow> 'f goany gomap \<Rightarrow> (nat \<times> string) \<times> 'f goany gomap" where
  "server_ServeHTTP format parse meth path body memCache =
     (if path = ''/cache/get'' then handle_get format parse meth body memCache
      else if path = ''/cache/set'' then handle_set format parse meth body memCache
      else if path = ''/cache/delete'' then handle_delete format parse meth body memCache
      else if path = ''/health'' then ((200, ''OK''), memCache)
      else (http_Error ''404 page not found'' 404, memCache))"

section \<open>Client and server together\<close>

text \<open>The bodies that the client encodes, and the part of the answer that it reads.\<close>

definition marshal_body :: "('f \<Rightarrow> string option) \<Rightarrow> 'f goany remote_body \<Rightarrow> string option" where
  "marshal_body format body = (case body of
     GetBody key \<Rightarrow> Some (marshal_struct (required ''key'' (JStr key)))
   | DelBody key \<Rightarrow> Some (marshal_struct (required ''key'' (JStr key)))
   | SetBody key value expiration \<Rightarrow> map_option (\<lambda>j. marshal_struct (required ''key'' (JStr key) @ required ''value'' j
       @ required ''expiration'' (enc_int expiration))) (any_json format value))"

definition unmarshal_value :: "(string \<Rightarrow> 'f option) \<Rightarrow> string \<Rightarrow> 'f goany option" where
  "unmarshal_value parse = unmarshal_struct [fld ''value'' (dec_any parse) id (\<lambda>f. f)] ANil"

text \<open>A network with the server at one address.\<close>

definition server_http :: "('f \<Rightarrow> string option) \<Rightarrow> (string \<Rightarrow> 'f option) \<Rightarrow> string \<Rightarrow> 'f goany gomap http" where
  "server_http format parse address timeout meth url body m =
     (let prefix = ''http://'' @ address in
      if take (length prefix) url = prefix then
        (case server_ServeHTTP format parse meth (drop (length prefix) url) body m of ((status, text), m') \<Rightarrow> (Response status text, m'))
      else (RequestFailed ''no such host'', m))"

section \<open>Values survive\<close>

text \<open>Values whose strings are valid, whose numbers can be written and whose maps are in the order of their keys.\<close>

fun any_ok :: "('f \<Rightarrow> string option) \<Rightarrow> 'f goany \<Rightarrow> bool" and list_ok :: "('f \<Rightarrow> string option) \<Rightarrow> 'f goany list \<Rightarrow> bool"
  and map_ok :: "('f \<Rightarrow> string option) \<Rightarrow> (string \<times> 'f goany) list \<Rightarrow> bool" where
  "any_ok format (ANum x) \<longleftrightarrow> format x \<noteq> None"
| "any_ok format (AStr s) \<longleftrightarrow> valid_utf8 s"
| "any_ok format (AArr vs) \<longleftrightarrow> list_ok format vs"
| "any_ok format (AMap kvs) \<longleftrightarrow> map_ok format kvs \<and> sorted_wrt (<) (map fst kvs)"
| "any_ok format v \<longleftrightarrow> True"
| "list_ok format [] \<longleftrightarrow> True"
| "list_ok format (v # vs) \<longleftrightarrow> any_ok format v \<and> list_ok format vs"
| "map_ok format [] \<longleftrightarrow> True"
| "map_ok format ((k, v) # kvs) \<longleftrightarrow> valid_utf8 k \<and> any_ok format v \<and> map_ok format kvs"

fun any_depth :: "'f goany \<Rightarrow> nat" and list_depth :: "'f goany list \<Rightarrow> nat" and map_depth :: "(string \<times> 'f goany) list \<Rightarrow> nat" where
  "any_depth (AArr vs) = Suc (list_depth vs)"
| "any_depth (AMap kvs) = Suc (map_depth kvs)"
| "any_depth v = 0"
| "list_depth [] = 0"
| "list_depth (v # vs) = max (any_depth v) (list_depth vs)"
| "map_depth [] = 0"
| "map_depth ((k, v) # kvs) = max (any_depth v) (map_depth kvs)"

lemma any_roundtrip:
  "float_codec format parse \<Longrightarrow> any_ok format v \<Longrightarrow> \<exists>j. any_json format v = Some j \<and> json_ok j \<and> json_valid j = j \<and> json_depth j = any_depth v \<and> json_any parse j = Some v"
  "float_codec format parse \<Longrightarrow> list_ok format vs \<Longrightarrow> \<exists>js. any_elems format vs = Some js \<and> elems_ok js \<and> map json_valid js = js \<and> elems_depth js = list_depth vs
      \<and> json_elems parse js = Some vs"
  "float_codec format parse \<Longrightarrow> map_ok format kvs \<Longrightarrow> \<exists>ps. any_entries format kvs = Some ps \<and> pairs_ok ps \<and> map (map_prod to_valid json_valid) ps = ps
      \<and> pairs_depth ps = map_depth kvs \<and> map fst ps = map fst kvs
      \<and> (\<forall>m. distinct (map fst (m @ kvs)) \<longrightarrow> json_entries parse ps m = Some (m @ kvs))"
proof (induction format v and format vs and format kvs rule: any_json_any_elems_any_entries.induct)
  case (3 format x)
  then show ?case by (auto simp: float_codec_def)
next
  case (6 format kvs)
  then obtain ps where ps: "any_entries format kvs = Some ps" "pairs_ok ps" "map (map_prod to_valid json_valid) ps = ps"
      "pairs_depth ps = map_depth kvs" "map fst ps = map fst kvs" "\<forall>m. distinct (map fst (m @ kvs)) \<longrightarrow> json_entries parse ps m = Some (m @ kvs)"
    by auto
  have "sorted (map fst ps)" "distinct (map fst kvs)" using "6.prems" ps(5) by (simp_all add: strict_sorted_iff)
  then show ?case using ps(1-4) ps(6) [rule_format, of "[]"] by (simp add: sort_key_id_if_sorted)
next
  case (10 format k v kvs)
  then obtain j ps where "any_json format v = Some j" "json_ok j" "json_valid j = j" "json_depth j = any_depth v" "json_any parse j = Some v"
    and "any_entries format kvs = Some ps" "pairs_ok ps" "map (map_prod to_valid json_valid) ps = ps"
      "pairs_depth ps = map_depth kvs" "map fst ps = map fst kvs" "\<forall>m. distinct (map fst (m @ kvs)) \<longrightarrow> json_entries parse ps m = Some (m @ kvs)"
    by fastforce
  then show ?case using "10.prems" by (auto simp: to_valid_id update_new)
qed (auto simp: to_valid_id)

lemma first_of_lex:
  "json_lex s = Some ts \<Longrightarrow> ts \<noteq> [] \<Longrightarrow> json_steps ts st = Some (HaveValue j, []) \<Longrightarrow> json_first s st = Some j"
proof (induction s arbitrary: ts st rule: json_lex.induct)
  case (1 s)
  show ?case
  proof (cases s)
    case Nil
    with "1.prems" show ?thesis by (simp add: json_lex.simps)
  next
    case (Cons c cs)
    show ?thesis
    proof (cases "is_space c")
      case True
      with "1.prems" Cons have "json_lex cs = Some ts" by (subst (asm) json_lex.simps) simp
      with "1.IH"(1) [OF Cons True] "1.prems"(2,3) Cons True show ?thesis by (subst json_first.simps) simp
    next
      case False
      with "1.prems"(1) Cons obtain t rest ts' where l: "lex1 s = Some (t, rest)" "json_lex rest = Some ts'" "ts = t # ts'"
        by (subst (asm) json_lex.simps) (auto split: option.splits)
      with "1.prems"(3) obtain st' where st': "json_step t st = Some st'" "json_steps ts' st' = Some (HaveValue j, [])"
        by (auto split: Option.bind_splits)
      show ?thesis
      proof (cases "ts' = []")
        case True
        with st' l(1) Cons False show ?thesis by (subst json_first.simps) simp
      next
        case more: False
        then obtain t' ts'' where "ts' = t' # ts''" by (cases ts') auto
        with st'(2) have "st' \<noteq> (HaveValue j', [])" for j' by (auto simp: json_step_def end_value_def)
        moreover have "json_first rest st' = Some j" using "1.IH"(2) [OF Cons False l(1) refl l(2) more st'(2)] .
        ultimately show ?thesis using l(1) st'(1) Cons False
          by (subst json_first.simps) (auto split: prod.splits jmode.splits list.splits)
      qed
    qed
  qed
qed

lemma first_print: "json_ok j \<Longrightarrow> json_depth j \<le> maxNestingDepth \<Longrightarrow> json_first (json_print j) (NeedValue, []) = Some (json_valid j)"
proof (rule first_of_lex)
  assume j: "json_ok j" "json_depth j \<le> maxNestingDepth"
  have "json_lex [] = Some []" by (subst json_lex.simps) simp
  with lex_print(1) [OF j(1), of "[]"] show "json_lex (json_print j) = Some (json_toks j)" by (simp add: ends_number_def)
  show "json_steps (json_toks j) (NeedValue, []) = Some (HaveValue (json_valid j), [])"
    using steps_toks(1) [of j "[]" NeedValue "[]"] j(2) by simp
  show "json_toks j \<noteq> []" by (cases j) auto
qed

lemma decode_marshal:
  assumes "pairs_ok ps" "pairs_depth ps < maxNestingDepth"
  shows "decode_struct fs z (marshal_struct ps) = dec_pairs fs (map (map_prod to_valid json_valid) ps) z"
  using first_print [of "JObj ps"] assms by (simp add: decode_struct_def marshal_struct_def dec_struct_def)

lemma unmarshal_line:
  assumes "pairs_ok ps" "pairs_depth ps < maxNestingDepth"
  shows "unmarshal_struct fs z (marshal_struct ps @ [CHR 0x0A]) = dec_pairs fs (map (map_prod to_valid json_valid) ps) z"
proof -
  have "json_lex [CHR 0x0A] = Some []" by (simp add: json_lex.simps is_space_def)
  with lex_print(1) [of "JObj ps" "[CHR 0x0A]"] assms(1) have "json_lex (json_print (JObj ps) @ [CHR 0x0A]) = Some (json_toks (JObj ps))"
    by (simp add: ends_number_def num_char_def is_digit_def del: json_print.simps json_toks.simps)
  moreover have "json_steps (json_toks (JObj ps)) (NeedValue, []) = Some (HaveValue (json_valid (JObj ps)), [])"
    using steps_toks(1) [of "JObj ps" "[]" NeedValue "[]"] assms(2) by (simp del: json_toks.simps)
  ultimately show ?thesis
    by (simp add: unmarshal_struct_def marshal_struct_def json_parse_def dec_struct_def del: json_print.simps json_toks.simps)
qed

section \<open>Calls over the network\<close>

lemma to_valid_nonempty: "to_valid s = [] \<longleftrightarrow> s = []"
proof (cases "s = []")
  case False
  have "plain_chunk c \<noteq> []" if "c \<in> set (chunks s)" for c
    using chunk_len [of _ s "[]"] that by (auto simp: plain_chunk_def rune_error_def utf8_encode_def split: option.splits)
  moreover have "chunks s \<noteq> []" using False by (subst chunks.simps) simp
  ultimately show ?thesis using False by (cases "chunks s") (auto simp: to_valid_def)
qed (simp add: to_valid_def chunks.simps)

definition value_ok :: "('f \<Rightarrow> string option) \<Rightarrow> 'f goany \<Rightarrow> bool" where
  "value_ok format v \<longleftrightarrow> any_ok format v \<and> any_depth v < maxNestingDepth"

lemma decode_key_request:
  "decode_request parse (marshal_struct (required ''key'' (JStr key))) = Some \<lparr>cq_Key = to_valid key, cq_Value = ANil, cq_Expiration = 0\<rparr>"
  unfolding decode_request_def by (subst decode_marshal) (simp_all add: cacherequest_fields_def struct_defs)

lemma decode_set_request:
  assumes "float_codec format parse" "value_ok format v" "is_int64 e"
  shows "\<exists>data. marshal_body format (SetBody key v e) = Some data \<and> decode_request parse data = Some \<lparr>cq_Key = to_valid key, cq_Value = v, cq_Expiration = e\<rparr>"
proof -
  obtain j where "any_json format v = Some j" "json_ok j" "json_valid j = j" "json_depth j = any_depth v" "json_any parse j = Some v"
    using any_roundtrip(1) [OF assms(1)] assms(2) by (auto simp: value_ok_def)
  moreover from this have "decode_request parse (marshal_struct (required ''key'' (JStr key) @ required ''value'' j @ required ''expiration'' (enc_int e)))
      = Some \<lparr>cq_Key = to_valid key, cq_Value = v, cq_Expiration = e\<rparr>"
    using assms(2,3) unfolding decode_request_def
    by (subst decode_marshal) (simp_all add: cacherequest_fields_def dec_any_def value_ok_def struct_defs)
  ultimately show ?thesis by (simp add: marshal_body_def)
qed

lemma read_response:
  assumes "float_codec format parse" "value_ok format (cs_Value r)"
  shows "\<exists>text. server_writeJSONResponse format r = (200, text) \<and> unmarshal_value parse text = Some (cs_Value r)"
proof -
  obtain j where j: "any_json format (cs_Value r) = Some j" "json_ok j" "json_valid j = j" "json_depth j = any_depth (cs_Value r)" "json_any parse j = Some (cs_Value r)"
    using any_roundtrip(1) [OF assms(1)] assms(2) by (auto simp: value_ok_def)
  let ?ps = "required ''success'' (JBool (cs_Success r)) @ omitempty (cs_Message r = []) ''message'' (JStr (cs_Message r)) @ omitempty (cs_Value r = ANil) ''value'' j"
  have "unmarshal_value parse (marshal_struct ?ps @ [CHR 0x0A]) = Some (cs_Value r)"
    using j assms(2) unfolding unmarshal_value_def
    by (subst unmarshal_line) (auto simp: dec_any_def value_ok_def struct_defs fold_name.simps utf8_encode_def)
  with j(1) show ?thesis by (simp add: server_writeJSONResponse_def cacheresponse_json_def)
qed

lemma server_http_url:
  "server_http format parse (rm_address rc) timeout meth (remote_url path rc) body m =
     (case server_ServeHTTP format parse meth path body m of ((status, text), m') \<Rightarrow> (Response status text, m'))"
  by (simp add: server_http_def remote_url_def)

lemma attempts_fail: "(\<And>e. attempt e = (Inl t, e)) \<Longrightarrow> remote_attempts attempt n e = (Inl t, e)"
  by (induction n arbitrary: e) simp_all

lemma attempts_succeed: "attempt e = (Inr r, e') \<Longrightarrow> remote_attempts attempt n e = (Inr r, e')"
  by (cases n) simp_all

text \<open>One attempt, and what comes of the attempts: the server answers, or it refuses, each time alike.\<close>

lemma http_Do_server:
  assumes "marshal body = Some data" "server_ServeHTTP format parse ''POST'' path data m = ((status, text), m')"
  shows "http_Do marshal unmarshal (server_http format parse (rm_address rc)) timeout ''POST'' (remote_url path rc) body wanted m =
    (if status < 200 \<or> status \<ge> 300 then Inl (''server returned error status '' @ itoa status @ '': '' @ text)
     else if \<not> wanted then Inr None
     else case unmarshal text of None \<Rightarrow> Inl ''failed to unmarshal response: '' | Some v \<Rightarrow> Inr (Some v), m')"
proof -
  have "remote_url path rc \<noteq> ''''" by (simp add: remote_url_def)
  with assms server_http_url [of format parse rc timeout "''POST''" path data m] show ?thesis
    by (simp add: http_Do_def split: option.split)
qed

lemma retry_answered:
  assumes "0 \<le> rm_retries rc" "marshal body = Some data" "server_ServeHTTP format parse ''POST'' path data m = ((200, text), m')"
    and "wanted \<Longrightarrow> unmarshal text = Some v"
  shows "doWithRetry marshal unmarshal (server_http format parse (rm_address rc)) ''POST'' (remote_url path rc) body wanted rc m
    = (Inr (if wanted then Some v else None), m')"
proof -
  have "http_Do marshal unmarshal (server_http format parse (rm_address rc)) (rm_timeout rc) ''POST'' (remote_url path rc) body wanted m
      = (Inr (if wanted then Some v else None), m')"
    using assms(4) by (cases wanted; subst http_Do_server [where marshal = marshal and body = body, OF assms(2,3)]) simp_all
  with assms(1) show ?thesis by (simp add: doWithRetry_def attempts_succeed)
qed

lemma retry_refused:
  assumes "0 \<le> rm_retries rc" "marshal body = Some data" "\<And>m. server_ServeHTTP format parse ''POST'' path data m = ((400, text), m)"
  shows "\<exists>t. doWithRetry marshal unmarshal (server_http format parse (rm_address rc)) ''POST'' (remote_url path rc) body wanted rc m = (Inl t, m)"
proof -
  let ?do = "http_Do marshal unmarshal (server_http format parse (rm_address rc)) (rm_timeout rc) ''POST'' (remote_url path rc) body wanted"
  have "?do m = (Inl (''server returned error status '' @ itoa 400 @ '': '' @ text), m)" for m
    using http_Do_server [where marshal = marshal and body = body and m = m and m' = m and status = 400 and path = path, OF assms(2) assms(3)] by simp
  with attempts_fail [where attempt = ?do] assms(1) show ?thesis by (simp add: doWithRetry_def)
qed

datatype 'f remote_op = RGet string | RSet string "'f goany" duration | RDel string

text \<open>What a call through the client returns and does, on the map the server holds.\<close>

definition remote_call :: "('f \<Rightarrow> string option) \<Rightarrow> (string \<Rightarrow> 'f option) \<Rightarrow> 'f remote_op \<Rightarrow> RemoteCache \<Rightarrow> 'f goany gomap
    \<Rightarrow> (gerror + 'f goany option) \<times> 'f goany gomap" where
  "remote_call format parse p rc m = (let http = server_http format parse (rm_address rc) in
     case p of
       RGet key \<Rightarrow> Remote_Get (marshal_body format) (unmarshal_value parse) http key rc m
     | RSet key value e \<Rightarrow> map_prod (map_sum id (\<lambda>_. None)) id (Remote_Set (marshal_body format) (unmarshal_value parse) http key value e rc m)
     | RDel key \<Rightarrow> map_prod (map_sum id (\<lambda>_. None)) id (Remote_Del (marshal_body format) (unmarshal_value parse) http key rc m))"

fun remote_run :: "('f \<Rightarrow> string option) \<Rightarrow> (string \<Rightarrow> 'f option) \<Rightarrow> 'f remote_op list \<Rightarrow> RemoteCache \<Rightarrow> 'f goany gomap
    \<Rightarrow> (gerror + 'f goany option) list \<times> 'f goany gomap" where
  "remote_run format parse [] rc m = ([], m)"
| "remote_run format parse (p # ps) rc m = (let (r, m) = remote_call format parse p rc m; (rs, m) = remote_run format parse ps rc m in (r # rs, m))"

text \<open>The specification: a plain map, whose keys are made valid; a missing key reads as nil; the empty key is refused.\<close>

fun remote_spec :: "'f remote_op \<Rightarrow> (string \<rightharpoonup> 'f goany) \<Rightarrow> (gerror + 'f goany option) \<times> (string \<rightharpoonup> 'f goany)" where
  "remote_spec (RGet key) M = (if key = '''' then Inl (Errorf ''remote get failed: %w'')
     else Inr (Some (case M (to_valid key) of None \<Rightarrow> ANil | Some v \<Rightarrow> v)), M)"
| "remote_spec (RSet key v e) M = (if key = '''' then (Inl (Errorf ''remote set failed: %w''), M) else (Inr None, M(to_valid key \<mapsto> v)))"
| "remote_spec (RDel key) M = (if key = '''' then (Inl (Errorf ''remote delete failed: %w''), M) else (Inr None, M(to_valid key := None)))"

fun remote_specs :: "'f remote_op list \<Rightarrow> (string \<rightharpoonup> 'f goany) \<Rightarrow> (gerror + 'f goany option) list \<times> (string \<rightharpoonup> 'f goany)" where
  "remote_specs [] M = ([], M)"
| "remote_specs (p # ps) M = (let (r, M) = remote_spec p M; (rs, M) = remote_specs ps M in (r # rs, M))"

fun op_ok :: "('f \<Rightarrow> string option) \<Rightarrow> 'f remote_op \<Rightarrow> bool" where
  "op_ok format (RSet key v e) \<longleftrightarrow> value_ok format v \<and> is_int64 e"
| "op_ok format p \<longleftrightarrow> True"

definition values_ok :: "('f \<Rightarrow> string option) \<Rightarrow> 'f goany gomap \<Rightarrow> bool" where
  "values_ok format m \<longleftrightarrow> (\<forall>k v. map_of m k = Some v \<longrightarrow> value_ok format v)"

lemma is_int64_Milliseconds: "is_int64 e \<Longrightarrow> is_int64 (Milliseconds e)"
  by (auto simp: is_int64_def Milliseconds_def)

lemma value_ok_nil: "value_ok format ANil"
  by (simp add: value_ok_def maxNestingDepth_def)

lemma server_refuses_empty:
  "decode_request parse data = Some req \<Longrightarrow> cq_Key req = [] \<Longrightarrow> path \<in> {''/cache/get'', ''/cache/set'', ''/cache/delete''} \<Longrightarrow>
   server_ServeHTTP format parse ''POST'' path data m = (http_Error ''Key is required'' 400, m)"
  by (auto simp: server_ServeHTTP_def handle_get_def handle_set_def handle_delete_def with_request_def)

lemma remote_get_call:
  assumes "float_codec format parse" "0 \<le> rm_retries rc" "values_ok format m"
  shows "remote_call format parse (RGet key) rc m = (fst (remote_spec (RGet key) (map_of m)), m)"
proof -
  let ?data = "marshal_struct (required ''key'' (JStr key))"
  have b: "marshal_body format (GetBody key) = Some ?data" by (simp add: marshal_body_def)
  have d: "decode_request parse ?data = Some \<lparr>cq_Key = to_valid key, cq_Value = ANil, cq_Expiration = 0\<rparr>" by (rule decode_key_request)
  show ?thesis
  proof (cases "key = []")
    case True
    with d have "server_ServeHTTP format parse ''POST'' ''/cache/get'' ?data m = ((400, ''Key is required'' @ [CHR 0x0A]), m)" for m
      using server_refuses_empty [OF d, of "''/cache/get''"] to_valid_nonempty [of key] by (simp add: http_Error_def)
    from retry_refused [where marshal = "marshal_body format", OF assms(2) b this] obtain t where
      "doWithRetry (marshal_body format) (unmarshal_value parse) (server_http format parse (rm_address rc)) ''POST'' (remote_url ''/cache/get'' rc)
         (GetBody key) True rc m = (Inl t, m)" by blast
    moreover have "t \<noteq> ''key not found''"
      using calculation remote_get_never_reports_missing [of "marshal_body format" "unmarshal_value parse" "server_http format parse (rm_address rc)" key rc m]
      by (auto simp: Remote_Get_def)
    ultimately show ?thesis using True by (simp add: remote_call_def Remote_Get_def)
  next
    case False
    let ?r = "case map_of m (to_valid key) of None \<Rightarrow> \<lparr>cs_Success = False, cs_Message = ''Key not found'', cs_Value = ANil\<rparr>
      | Some value \<Rightarrow> \<lparr>cs_Success = True, cs_Message = [], cs_Value = value\<rparr>"
    have v: "cs_Value ?r = (case map_of m (to_valid key) of None \<Rightarrow> ANil | Some v \<Rightarrow> v)" by (simp split: option.split)
    have "value_ok format (cs_Value ?r)" using assms(3) unfolding v by (simp add: values_ok_def value_ok_nil split: option.split)
    from read_response [OF assms(1) this] obtain ans where
      ans: "server_writeJSONResponse format ?r = (200, ans)" "unmarshal_value parse ans = Some (cs_Value ?r)" by blast
    have "server_ServeHTTP format parse ''POST'' ''/cache/get'' ?data m = ((200, ans), m)"
      using ans(1) False to_valid_nonempty [of key] by (simp add: server_ServeHTTP_def handle_get_def with_request_def d)
    from retry_answered [where marshal = "marshal_body format" and unmarshal = "unmarshal_value parse" and wanted = True, OF assms(2) b this ans(2)] show ?thesis
      using False v by (simp add: remote_call_def Remote_Get_def)
  qed
qed

lemma nil_response: "\<exists>ans. server_writeJSONResponse format \<lparr>cs_Success = True, cs_Message = msg, cs_Value = ANil\<rparr> = (200, ans)"
  by (simp add: server_writeJSONResponse_def cacheresponse_json_def)

text \<open>A call that changes the map, on the body \<open>data\<close> that decodes to \<open>req\<close>: refused on the empty key, and else done.\<close>

lemma retry_update:
  assumes "0 \<le> rm_retries rc" "marshal_body format body = Some data" "decode_request parse data = Some req"
    and "path \<in> {''/cache/get'', ''/cache/set'', ''/cache/delete''}"
    and "cq_Key req \<noteq> [] \<Longrightarrow> \<exists>ans. server_ServeHTTP format parse ''POST'' path data m = ((200, ans), m')"
  shows "\<exists>t. doWithRetry (marshal_body format) (unmarshal_value parse) (server_http format parse (rm_address rc)) ''POST'' (remote_url path rc) body False rc m
    = (if cq_Key req = [] then (Inl t, m) else (Inr None, m'))"
proof (cases "cq_Key req = []")
  case True
  then have "server_ServeHTTP format parse ''POST'' path data m = ((400, ''Key is required'' @ [CHR 0x0A]), m)" for m
    using server_refuses_empty [OF assms(3) _ assms(4)] by (simp add: http_Error_def)
  from retry_refused [where marshal = "marshal_body format", OF assms(1,2) this] True show ?thesis by simp
next
  case False
  then obtain ans where "server_ServeHTTP format parse ''POST'' path data m = ((200, ans), m')" using assms(5) by blast
  from retry_answered [where marshal = "marshal_body format" and wanted = False, OF assms(1,2) this] False show ?thesis by simp
qed

lemma remote_set_call:
  assumes "float_codec format parse" "0 \<le> rm_retries rc" "value_ok format v" "is_int64 e"
  shows "remote_call format parse (RSet key v e) rc m =
    (fst (remote_spec (RSet key v e) (map_of m)), if key = '''' then m else AList.update (to_valid key) v m)"
proof -
  obtain data where data: "marshal_body format (SetBody key v (Milliseconds e)) = Some data"
      "decode_request parse data = Some \<lparr>cq_Key = to_valid key, cq_Value = v, cq_Expiration = Milliseconds e\<rparr>"
    using decode_set_request [OF assms(1,3) is_int64_Milliseconds [OF assms(4)]] by blast
  have "\<exists>ans. server_ServeHTTP format parse ''POST'' ''/cache/set'' data m = ((200, ans), AList.update (to_valid key) v m)" if "to_valid key \<noteq> []"
    using that data(2) nil_response [of format "''Key set successfully''"] by (auto simp: server_ServeHTTP_def handle_set_def with_request_def)
  with retry_update [OF assms(2) data, where path = "''/cache/set''" and m' = "AList.update (to_valid key) v m"] obtain t where
    "doWithRetry (marshal_body format) (unmarshal_value parse) (server_http format parse (rm_address rc)) ''POST'' (remote_url ''/cache/set'' rc)
       (SetBody key v (Milliseconds e)) False rc m = (if key = [] then (Inl t, m) else (Inr None, AList.update (to_valid key) v m))"
    by (auto simp: to_valid_nonempty)
  then show ?thesis by (simp add: remote_call_def Remote_Set_def)
qed

lemma remote_del_call:
  assumes "0 \<le> rm_retries rc"
  shows "remote_call format parse (RDel key) rc m = (fst (remote_spec (RDel key) (map_of m)), if key = '''' then m else AList.delete (to_valid key) m)"
proof -
  let ?data = "marshal_struct (required ''key'' (JStr key))"
  have data: "marshal_body format (DelBody key) = Some ?data" by (simp add: marshal_body_def)
  have "\<exists>ans. server_ServeHTTP format parse ''POST'' ''/cache/delete'' ?data m = ((200, ans), AList.delete (to_valid key) m)" if "to_valid key \<noteq> []"
    using that nil_response [of format "''Key deleted successfully''"] by (auto simp: server_ServeHTTP_def handle_delete_def with_request_def decode_key_request)
  with retry_update [OF assms data decode_key_request, where path = "''/cache/delete''" and m' = "AList.delete (to_valid key) m"] obtain t where
    "doWithRetry (marshal_body format) (unmarshal_value parse) (server_http format parse (rm_address rc)) ''POST'' (remote_url ''/cache/delete'' rc)
       (DelBody key) False rc m = (if key = [] then (Inl t, m) else (Inr None, AList.delete (to_valid key) m))"
    by (auto simp: to_valid_nonempty)
  then show ?thesis by (simp add: remote_call_def Remote_Del_def)
qed

lemma remote_call_correct:
  assumes "float_codec format parse" "0 \<le> rm_retries rc" "values_ok format m" "op_ok format p"
  shows "\<exists>m'. remote_call format parse p rc m = (fst (remote_spec p (map_of m)), m') \<and> map_of m' = snd (remote_spec p (map_of m)) \<and> values_ok format m'"
proof (cases p)
  case (RGet key)
  with remote_get_call [OF assms(1-3)] assms(3) show ?thesis by simp
next
  case (RSet key v e)
  with remote_set_call [OF assms(1,2)] assms(3,4) show ?thesis by (auto simp: values_ok_def)
next
  case (RDel key)
  with assms(3) show ?thesis by (auto simp: values_ok_def remote_del_call [OF assms(2)])
qed

lemma remote_run_law:
  assumes "float_codec format parse" "0 \<le> rm_retries rc" "values_ok format m" "list_all (op_ok format) ps"
  shows "\<exists>m'. remote_run format parse ps rc m = (fst (remote_specs ps (map_of m)), m') \<and> map_of m' = snd (remote_specs ps (map_of m))"
  using assms(3,4)
proof (induction ps arbitrary: m)
  case (Cons p ps)
  obtain m1 where 1: "remote_call format parse p rc m = (fst (remote_spec p (map_of m)), m1)" "map_of m1 = snd (remote_spec p (map_of m))" "values_ok format m1"
    using remote_call_correct [OF assms(1,2) Cons.prems(1), of p] Cons.prems(2) by auto
  with Cons.IH [of m1] Cons.prems(2) show ?case by (auto simp: split_beta Let_def)
qed simp



end
