(* ===== verification/SingleFlight.thy ===== *)
theory SingleFlight
  imports RedisLock
begin

text \<open>
  The lock that merges concurrent calls (\<^verbatim>\<open>src/distributelock/singleflight.go\<close>). The group of
  \<^verbatim>\<open>golang.org/x/sync/singleflight\<close> is an argument \<open>Do\<close>: it is given the calls that are in flight at the same
  time, each with its key and its function, in the order of the calls, and gives each caller its result. \<open>sf_laws\<close> is what that package
  documents of calls that all have the same key: only the first function is executed, and the duplicate callers wait for it and
  receive its result. Of calls with different keys nothing is asked.
\<close>

section \<open>The group\<close>

type_synonym ('x, 's) flight = "string \<times> ('s \<Rightarrow> ('x \<times> 's) option)"

type_synonym ('x, 's) sf_do = "('x, 's) flight list \<Rightarrow> 's \<Rightarrow> ('x list \<times> 's) option"

definition sf_laws :: "('x, 's) sf_do \<Rightarrow> bool" where
  "sf_laws Do \<longleftrightarrow> (\<forall>key fn dups s. (\<forall>d\<in>set dups. fst d = key)
     \<longrightarrow> Do ((key, fn) # dups) s = map_option (\<lambda>(x, s'). (replicate (Suc (length dups)) x, s')) (fn s))"

section \<open>The lock\<close>

record SingleFlightRedisLock =
  sf_RedisLock :: RedisLock

definition NewSingleFlightRedisLock :: "string \<Rightarrow> string \<Rightarrow> lock_option list \<Rightarrow> SingleFlightRedisLock" where
  "NewSingleFlightRedisLock uuid key opts = \<lparr>sf_RedisLock = NewRedisLock uuid key opts\<rparr>"

datatype 'r sf_call = SfLock "duration \<Rightarrow> 'r \<Rightarrow> gerror option \<times> 'r" | SfTryLock

text \<open>The key and the function that the two methods hand to the group; both use the key of the lock, so that calls of one merge with
  calls of the other.\<close>

definition SingleFlight_Lock :: "'r Redis \<Rightarrow> (duration \<Rightarrow> 'r \<Rightarrow> gerror option \<times> 'r) \<Rightarrow> SingleFlightRedisLock
    \<Rightarrow> (gerror + unit, SingleFlightRedisLock \<times> 'r) flight" where
  "SingleFlight_Lock rd wait l = (lk_key (sf_RedisLock l), \<lambda>(l, r). do {
     (err, l', r') \<leftarrow> RedisLock_Lock rd wait (sf_RedisLock l) r; Some (err, l\<lparr>sf_RedisLock := l'\<rparr>, r') })"

definition SingleFlight_TryLock :: "'r Redis \<Rightarrow> SingleFlightRedisLock \<Rightarrow> (gerror + unit, SingleFlightRedisLock \<times> 'r) flight" where
  "SingleFlight_TryLock rd l = (lk_key (sf_RedisLock l),
     \<lambda>(l, r). (case RedisLock_TryLock rd (sf_RedisLock l) r of (err, l', r') \<Rightarrow> Some (err, l\<lparr>sf_RedisLock := l'\<rparr>, r')))"

fun sf_flight :: "'r Redis \<Rightarrow> SingleFlightRedisLock \<Rightarrow> 'r sf_call \<Rightarrow> (gerror + unit, SingleFlightRedisLock \<times> 'r) flight" where
  "sf_flight rd l (SfLock wait) = SingleFlight_Lock rd wait l"
| "sf_flight rd l SfTryLock = SingleFlight_TryLock rd l"

text \<open>Calls by goroutines that share the lock, all in flight at the same time.\<close>

definition sf_calls :: "(gerror + unit, SingleFlightRedisLock \<times> 'r) sf_do \<Rightarrow> 'r Redis \<Rightarrow> 'r sf_call list \<Rightarrow> SingleFlightRedisLock \<Rightarrow> 'r
    \<Rightarrow> ((gerror + unit) list \<times> SingleFlightRedisLock \<times> 'r) option" where
  "sf_calls Do rd calls l r = Do (map (sf_flight rd l) calls) (l, r)"

section \<open>Sharing a lock\<close>

lemma tryLock_free:
  assumes "redis_laws rd view" "rd_fault rd r = NoFault" "\<not> lk_isLocked l" "alive view rd (lk_key l) r = None" "0 < expireMS (lk_options l)"
  shows "\<exists>l' r'. RedisLock_TryLock rd l r = (Inr (), l', r') \<and> lk_isLocked l' \<and> lk_key l' = lk_key l \<and> lk_val l' = lk_val l
    \<and> alive view rd (lk_key l) r' = Some (lk_val l)"
  using lockScript_cases(1) [OF assms(1,5,4), of "lk_val l"] assms(2,3,5)
  by (simp add: RedisLock_TryLock_def tryAcquire_def eval_script_def alive_def)

lemma unlock_held:
  assumes "redis_laws rd view" "rd_fault rd r = NoFault" "lk_isLocked l" "alive view rd (lk_key l) r = Some (lk_val l)"
  shows "\<exists>l' r'. RedisLock_Unlock rd l r = (Inr (), l', r') \<and> \<not> lk_isLocked l' \<and> alive view rd (lk_key l) r' = None"
  using unlockScript_cases(1) [OF assms(1,4)] assms(2,3)
  by (simp add: RedisLock_Unlock_def eval_script_def alive_def Let_def)

lemma sf_flight_key: "fst (sf_flight rd l call) = lk_key (sf_RedisLock l)"
  by (cases call) (simp_all add: SingleFlight_Lock_def SingleFlight_TryLock_def)

text \<open>Merged calls do not exclude each other: when goroutines that share a free lock call \<open>TryLock\<close> at the same time, all of them are told that they have
  it, while lock and server are as after one \<open>TryLock\<close>; and the first of them that calls \<open>Unlock\<close> gives the lock free for other clients, although the
  others have not released it.\<close>

theorem singleflight_shares_lock:
  assumes "sf_laws Do" "redis_laws rd view" "\<forall>r. rd_fault rd r = NoFault"
    and "\<not> lk_isLocked (sf_RedisLock l)" "alive view rd (lk_key (sf_RedisLock l)) r = None" "0 < expireMS (lk_options (sf_RedisLock l))"
  shows "\<exists>l' r' l'' r''. sf_calls Do rd (replicate (Suc n) SfTryLock) l r = Some (replicate (Suc n) (Inr ()), l', r')
    \<and> RedisLock_TryLock rd (sf_RedisLock l) r = (Inr (), sf_RedisLock l', r')
    \<and> alive view rd (lk_key (sf_RedisLock l)) r' = Some (lk_val (sf_RedisLock l))
    \<and> RedisLock_Unlock rd (sf_RedisLock l') r' = (Inr (), l'', r'') \<and> alive view rd (lk_key (sf_RedisLock l)) r'' = None"
proof -
  obtain k r' where k: "RedisLock_TryLock rd (sf_RedisLock l) r = (Inr (), k, r')" "lk_isLocked k" "lk_key k = lk_key (sf_RedisLock l)"
      "lk_val k = lk_val (sf_RedisLock l)" "alive view rd (lk_key (sf_RedisLock l)) r' = Some (lk_val (sf_RedisLock l))"
    using tryLock_free [OF assms(2) _ assms(4-6)] assms(3) by blast
  obtain l'' r'' where u: "RedisLock_Unlock rd k r' = (Inr (), l'', r'')" "alive view rd (lk_key (sf_RedisLock l)) r'' = None"
    using unlock_held [OF assms(2) _ k(2), of r'] k(3-5) assms(3) by auto
  have "sf_calls Do rd (replicate (Suc n) SfTryLock) l r = Some (replicate (Suc n) (Inr ()), l\<lparr>sf_RedisLock := k\<rparr>, r')"
  proof -
    let ?fn = "\<lambda>(l, r). case RedisLock_TryLock rd (sf_RedisLock l) r of (err, l', r') \<Rightarrow> Some (err, l\<lparr>sf_RedisLock := l'\<rparr>, r')"
    have "sf_calls Do rd (replicate (Suc n) SfTryLock) l r
        = Do ((lk_key (sf_RedisLock l), ?fn) # replicate n (sf_flight rd l SfTryLock)) (l, r)"
      by (simp add: sf_calls_def SingleFlight_TryLock_def)
    also have "\<dots> = map_option (\<lambda>(x, s'). (replicate (Suc n) x, s')) (?fn (l, r))"
      using assms(1) sf_flight_key [of rd l SfTryLock] unfolding sf_laws_def by (auto simp del: sf_flight.simps replicate_Suc)
    finally show ?thesis using k(1) by simp
  qed
  with k(1,5) u show ?thesis by (intro exI [of _ "l\<lparr>sf_RedisLock := k\<rparr>"] exI [of _ r'] exI [of _ l''] exI [of _ r'']) simp
qed

text \<open>A group that runs the first function.\<close>

fun first_do :: "('x, 's) sf_do" where
  "first_do [] s = Some ([], s)"
| "first_do ((key, fn) # dups) s = map_option (\<lambda>(x, s'). (replicate (Suc (length dups)) x, s')) (fn s)"

theorem singleflight_shares_lock_witness:
  "\<exists>l' r' l'' r''. sf_calls first_do redis0 [SfTryLock, SfTryLock] (NewSingleFlightRedisLock ''u'' ''k'' []) (0, []) = Some ([Inr (), Inr ()], l', r')
    \<and> RedisLock_Unlock redis0 (sf_RedisLock l') r' = (Inr (), l'', r'') \<and> alive (\<lambda>r. map_of (snd r)) redis0 ''k'' r'' = None"
proof -
  let ?l = "NewSingleFlightRedisLock ''u'' ''k'' []"
  have l: "lk_key (sf_RedisLock ?l) = ''k''" "\<not> lk_isLocked (sf_RedisLock ?l)" "0 < expireMS (lk_options (sf_RedisLock ?l))"
    by (simp_all add: NewSingleFlightRedisLock_def NewRedisLock_def DefaultOption_def expireMS_def)
  have "sf_laws (first_do :: (gerror + unit, SingleFlightRedisLock \<times> redis_map) sf_do)" "\<forall>r. rd_fault redis0 r = NoFault"
    by (simp_all add: sf_laws_def redis0_def)
  moreover have "alive (\<lambda>r. map_of (snd r)) redis0 (lk_key (sf_RedisLock ?l)) (0, []) = None" by (simp add: alive_def)
  ultimately show ?thesis
    using singleflight_shares_lock [of first_do redis0 "\<lambda>r. map_of (snd r)" ?l "(0, [])" 1] redis0_laws l
    by (auto simp: numeral_2_eq_2)
qed

end
