(* ===== verification/Spec2Isabelle.thy ===== *)
theory Spec2Isabelle
  imports ShardMap LruMemory NodeSharding ReplNodes Consistency RedisLock Election ShardedCluster FailoverData
    AdminApi CleanerPool WireProtocol ReplWire RemoteServer SingleFlight
begin

text \<open>
  \<^bold>\<open>A verification library of the cache program under \<^verbatim>\<open>src/\<close>.\<close>

  \<^bold>\<open>The program.\<close> It is a cache library in Go. At its bottom is an ordered map, a skip list, of which a sharded map
  keeps one per shard. The memory cache is that map with values that expire, statistics, an eviction
  callback and two ways of cleaning up, by a synchronous sweep or by a pool of workers. A second cache bounds the memory it uses
  and evicts the least recently used entry. A consistent-hash ring distributes keys over several caches.
  Around the cache there are: strategies that keep it consistent with a data source, a lock on a Redis server, a
  replication log with leader, follower and the synchroniser that moves entries between them, a cluster of nodes (membership,
  gossip, election, synchronisation, transport), two clusters made of these parts (a sharded one and a leader/follower one with
  failover), a decorator that collects metrics, and an HTTP API for management. The parts above the caches
  use them through one interface, \<open>Get\<close>, \<open>Set\<close> and \<open>Del\<close> with an expiration, which is the contract on which the
  development composes.

  \<^bold>\<open>How Go is modelled.\<close> A struct is a record, a tagged value a datatype, a method a function that takes the
  state and returns its results with the new state; an error result is \<open>gerror + 'a\<close>. A call that
  does not return, by a panic, an endless loop or a mutex that its caller holds, is \<open>None\<close>. Machine integers whose overflow matters are
  words (\<open>u32\<close>, \<open>u64\<close>, 64-bit counters read by \<open>sint\<close>); lengths and durations are integers. Pointers of the skip list and of
  the access list are addresses in an explicit heap. The clock, random draws, the network and other outside behaviour
  are arguments or environments. Goroutines are operations of their own, between whose steps others can run; a
  goroutine that waits for a mutex or a channel is a step that is not enabled. Floating-point numbers are exact rationals.

  \<^bold>\<open>Theories, what they model and what they show.\<close>

  \<^item> \<^verbatim>\<open>Prelude\<close>: names of the types, the errors of \<^verbatim>\<open>internal/ferr\<close>, Go's map as an association list, the
    contract \<open>kv_store\<close> of a map with its client lemmas, arrays of shards, visitors.
  \<^item> \<^verbatim>\<open>SkipList\<close> (\<^verbatim>\<open>cache/skiplist.go\<close>): every method on a heap of nodes. The representation predicate \<open>skip_rep\<close> says that
    the levels are sorted sublists of level 0; operations keep it for every sequence of random levels, implement a
    finite map, and ranges are the sorted entries between the bounds.
  \<^item> \<^verbatim>\<open>Sharding\<close>, \<^verbatim>\<open>SkipMap\<close> (\<^verbatim>\<open>cache/skipmap.go\<close>) and \<^verbatim>\<open>ShardMap\<close> (\<^verbatim>\<open>cache/shard.go\<close>): the hash and the power-of-two shard
    count; both sharded maps interpret \<open>kv_store\<close>, with the item count as the number of entries.
  \<^item> \<^verbatim>\<open>CacheSpec\<close>: the contract \<open>ttl_cache\<close> of a cache, against a map with expiration instants, and that runs of a cache
    that meets it give the answers of that map.
  \<^item> \<^verbatim>\<open>MemCache\<close> (\<^verbatim>\<open>cache/memcache.go\<close>, \<^verbatim>\<open>stats.go\<close>, \<^verbatim>\<open>option.go\<close>) interprets the contract; clean-up removes exactly the expired entries with
    one callback each; \<open>GetRange\<close>. \<^verbatim>\<open>CleanerPool\<close> (\<^verbatim>\<open>cache/cleaner.go\<close>): the interleavings of workers, scheduler,
    manual requests and writes, invariants by rule induction; transparency to readers, completeness of a round, the end of
    every task.
  \<^item> \<^verbatim>\<open>LruMemory\<close> (\<^verbatim>\<open>cache/cachememory.go\<close>): the access list on a heap, eviction, the memory bound and the
    accounting.
  \<^item> \<^verbatim>\<open>ConstHash\<close> (\<^verbatim>\<open>cache/consthash.go\<close>) and \<^verbatim>\<open>NodeSharding\<close> (\<^verbatim>\<open>cache/nodesharding.go\<close>): the ring with CRC-32 written out, its invariant,
    minimal disruption, distinct nodes of \<open>GetN\<close> and when it returns; the sharded cache meets the
    contract of a cache for every replica factor.
  \<^item> \<^verbatim>\<open>Consistency\<close> (\<^verbatim>\<open>cache/consistency/\<close>): the strategies over any cache that meets the contract and any data source,
    such as the databases of \<^verbatim>\<open>example/consistent/\<close>; reads are current. \<^verbatim>\<open>RedisLock\<close> (\<^verbatim>\<open>distributelock/\<close>): lock, scripts and watchdog over a server with stated laws; mutual exclusion
    over all interleavings of clients. \<^verbatim>\<open>SingleFlight\<close> (\<^verbatim>\<open>singleflight.go\<close> there): the lock that merges
    concurrent calls; that merged callers all hold it.
  \<^item> \<^verbatim>\<open>Json\<close>: the part of the standard library that turns values into text and back: UTF-8, JSON strings with their escapes, tokens,
    documents read by a machine with a stack, decimal numbers, base64. Parsing what was printed gives the document with
    its strings made valid. \<^verbatim>\<open>Protocol\<close> (\<^verbatim>\<open>cache/cluster/protocol.go\<close>, the messages of \<^verbatim>\<open>election.go\<close>): structs as
    lists of fields, every marshalling function with its round trip; \<^verbatim>\<open>WireProtocol\<close>: the messages of nodes in their envelope, and that a node
    called through JSON and HTTP answers as if called directly; \<^verbatim>\<open>ReplWire\<close>: entries, requests and responses of the replication as text, and what a follower
    makes of the text the leader sends; \<^verbatim>\<open>RemoteServer\<close> (\<^verbatim>\<open>example/distributed/server/server.go\<close>): the server of the remote client, with values
    of any type, and that client and server together are a plain map.
  \<^item> \<^verbatim>\<open>ReplLog\<close>, \<^verbatim>\<open>Syncer\<close>, \<^verbatim>\<open>ReplNodes\<close> (\<^verbatim>\<open>cache/replication/\<close>): the log, the synchroniser with its
    HTTP handlers, leader and follower; what reads of the log return, that encoding and applying a log gives its
    effect, how a full synchronisation ends, and that a round of replication brings followers to the leader's state.
  \<^item> \<^verbatim>\<open>Membership\<close>, \<^verbatim>\<open>ClusterSync\<close>, \<^verbatim>\<open>ClusterNode\<close>, \<^verbatim>\<open>Election\<close>, \<^verbatim>\<open>ClusterTransport\<close> (\<^verbatim>\<open>cache/cluster/\<close>): membership with its
    failure detector, events, gossip, synchronisation, the node and the cluster cache, elections, the HTTP transport. Invariants of every
    reachable node; at most one leader per term; when a transport listens; that sending over HTTP with any lossless codec is calling the
    handler of the receiver.
  \<^item> \<^verbatim>\<open>Distributed\<close> (\<^verbatim>\<open>cache/distributed/\<close>) and \<^verbatim>\<open>ShardedCluster\<close> (\<^verbatim>\<open>cache/cluster/integration/\<close>): the remote client with its
    retries, the distributor and the sharded cluster cache; the ring follows the events of the cluster, from the
    messages of joining and leaving nodes on.
  \<^item> \<^verbatim>\<open>LeaderFollower\<close>, \<^verbatim>\<open>Failover\<close>, \<^verbatim>\<open>FailoverData\<close> (\<^verbatim>\<open>leader_follower_cluster.go\<close> of the same directory): the cluster object with its event goroutine and
    its failover; the roles of every reachable state, the answers of the cache, promotion after a failure, when
    \<open>Stop\<close> returns and when it never does.
  \<^item> \<^verbatim>\<open>Metrics\<close> (\<^verbatim>\<open>cache/metrics/\<close>): the decorator over any cache that meets the contract, with the calls it makes to the Prometheus
    client; it changes no answer and counts hits, misses, requests and latencies exactly.
  \<^item> \<^verbatim>\<open>AdminApi\<close> (\<^verbatim>\<open>cache/api/\<close>): the handlers and the server; scaling over any cluster that meets the locale
    \<open>scalable\<close>, interpreted on the sharded cluster cache, and invalidation over any cache.

  \<^bold>\<open>Interfaces.\<close> \<open>kv_store\<close> is interpreted on the skip list, both sharded maps and a plain Go map; \<open>ttl_cache\<close> on the memory cache, the
  node-sharded cache, the cluster cache and the monitored cache; \<open>repl_cache\<close> and \<open>byte_cache\<close> extend it for replication and for
  synchronisation between nodes; \<open>scalable\<close> is the cluster behind the API. Lemmas of a client are proved in the locale and
  reach the properties through the interpretation.

  \<^bold>\<open>Bounds and fuel.\<close> Counters are words, and where a statement reads them as numbers it assumes fewer than \<open>2 ^ 63\<close> or
  \<open>2 ^ 64\<close> events. The number of shards is at most \<open>2 ^ 31\<close>. Loops of the skip list and of \<open>GetN\<close> are
  \<open>partial_function\<close>s, and that they return is part of what is proved. A synchronisation that
  ends by a deadline has a budget of requests in its environment, which only says that a deadline comes. Elections
  assume that the term is not the largest 64-bit number. Documents nest at most 10000 deep, the limit of
  \<^verbatim>\<open>encoding/json\<close>; the reader of tokens is structural and needs no fuel.

  \<^bold>\<open>Not modelled.\<close> HTTP itself: the network is a parameter that hands a request to a handler. The formatting of times and of floating-point
  numbers in JSON is a pair of functions with the law that what is written is read back. The component theories below the codec
  take a message as a value, \<open>None\<close> for a payload that cannot be read, which \<^verbatim>\<open>WireProtocol\<close> and \<^verbatim>\<open>ReplWire\<close> connect with
  the text. The Prometheus client and its HTTP handler: only the calls to the client are kept. Redis and
  \<^verbatim>\<open>golang.org/x/sync/singleflight\<close>: parameters with their documented laws. Wrapped causes of errors; log output. Tickers: the work
  they trigger is modelled, not their periods. Data races on memory that the code does not protect. \<^verbatim>\<open>mocks/\<close> is generated for
  tests, and apart from the server and the two databases of \<^verbatim>\<open>example/\<close> the programs there only call the library and print.

  \<^bold>\<open>What could follow.\<close> Every reachable state of a network of nodes, of which each step of a node and each message over
  the wire is modelled, but not their interleaving in one system; the lazy deletions of \<open>Get\<close> as steps of the interleavings of the cleaner; RFC 3339.
\<close>

end
